(* ===== verification/Xv_Prelude.thy ===== *)
theory Xv_Prelude
  imports Main "HOL-Library.Word" "HOL-Library.Multiset"
begin

text \<open>
  Shared vocabulary of the development: the machine integers of the program (the
  \<open>std::uintN_t\<close> types are words of the same width), the largest 64-bit value
  (\<open>std::numeric_limits<std::uint64_t>::max()\<close>), and the generic lemmas on words, lists and
  folds that the component theories share.

  The collection \<open>unat_arith_simps\<close> holds the rewrite rules that move checked word arithmetic to
  the natural numbers; component proofs use it with \<open>simp add:\<close> under hypotheses that bound
  the operands.
\<close>

named_theorems unat_arith_simps "rules that move word comparisons and checked arithmetic to nat"

unbundle bit_operations_syntax

type_synonym u8 = "8 word"
type_synonym u16 = "16 word"
type_synonym u32 = "32 word"
type_synonym u64 = "64 word"

definition max_u64 :: u64 where
  "max_u64 = 18446744073709551615"

subsection \<open>Words as bounded naturals\<close>

lemma max_u64_alt: "max_u64 = - 1"
  by (simp add: max_u64_def)

lemma unat_max_u64: "unat max_u64 = 18446744073709551615"
  by (simp add: max_u64_def)

lemma unat_u64_bound: "unat (x :: u64) < 18446744073709551616"
  using unsigned_less [of x] by simp

lemma unat_u64_le: "unat (x :: u64) \<le> 18446744073709551615"
  using unat_u64_bound [of x] by simp

lemma unat_u32_bound: "unat (x :: u32) < 4294967296"
  using unsigned_less [of x] by simp

declare word_less_nat_alt [unat_arith_simps] word_le_nat_alt [unat_arith_simps]
  unat_div [unat_arith_simps] unat_mod [unat_arith_simps]

lemma u64_le_max [simp]: "x \<le> max_u64"
  by (simp add: max_u64_alt)

lemma unat_max_u64_minus: "unat (max_u64 - x) = 18446744073709551615 - unat x"
proof -
  have "unat (max_u64 - x) = unat max_u64 - unat x"
    by (rule unat_sub) simp
  then show ?thesis by (simp add: unat_max_u64)
qed

lemma unat_add_u64:
  "unat a + unat b < 18446744073709551616 \<Longrightarrow> unat (a + b :: u64) = unat a + unat b"
  by (simp add: unat_word_ariths)

lemma unat_mult_u64:
  "unat a * unat b < 18446744073709551616 \<Longrightarrow> unat (a * b :: u64) = unat a * unat b"
  by (simp add: unat_word_ariths)

lemma unat_sub_u64: "unat b \<le> unat a \<Longrightarrow> unat (a - b :: u64) = unat a - unat b"
  by (rule unat_sub) (simp add: word_le_nat_alt)

lemma unat_eq_iff_u64: "(a :: u64) = b \<longleftrightarrow> unat a = unat b"
  by (rule word_unat_eq_iff)

lemma unat_of_nat_u64: "n < 18446744073709551616 \<Longrightarrow> unat (of_nat n :: u64) = n"
  by (simp add: unat_of_nat)

lemma gt_max_minus_iff:
  "b > max_u64 - a \<longleftrightarrow> unat a + unat b \<ge> 18446744073709551616"
  using unat_u64_bound [of a] by (auto simp: word_less_nat_alt unat_max_u64_minus)

lemma unat_min: "unat (min a b) = min (unat a) (unat (b :: 'a :: len word))"
  by (simp add: min_def word_le_nat_alt)

lemma unat_max: "unat (max a b) = max (unat a) (unat (b :: 'a :: len word))"
  by (simp add: max_def word_le_nat_alt)

lemma unat_eq_0_iff: "unat (x :: 'a :: len word) = 0 \<longleftrightarrow> x = 0"
  by (simp add: unat_eq_zero)

lemma unat_gt_0_iff: "0 < unat (x :: 'a :: len word) \<longleftrightarrow> x \<noteq> 0"
  using unat_eq_0_iff [of x] by linarith

lemmas u64_defs = gt_max_minus_iff unat_max_u64 unat_min unat_max

lemma unat_div_mult_le: "unat (x div c) * unat c \<le> unat (x :: u64)"
  by (simp add: unat_div)

lemma unat_div_mult: "unat (x div c * c) = unat x div unat c * unat (c :: u64)"
proof -
  have "unat x div unat c * unat c \<le> unat x" by simp
  also have "\<dots> < 18446744073709551616" by (rule unat_u64_bound)
  finally show ?thesis by (simp add: unat_mult_u64 unat_div)
qed

subsection \<open>Checked arithmetic\<close>

text \<open>
  \<open>checked_add\<close>, \<open>checked_multiply\<close>, \<open>checked_align_up\<close> and
  \<open>checked_least_common_multiple\<close> of \<open>residency/workload.cpp\<close>; the other copies of
  these helpers in the program (\<open>budget.cpp\<close>, \<open>metrics.cpp\<close>, \<open>scenario.cpp\<close>,
  \<open>gemm/planner.cpp\<close>) have the same bodies and use these definitions.
\<close>

definition checked_add :: "u64 \<Rightarrow> u64 \<Rightarrow> u64 option" where
  "checked_add left right = (if right > max_u64 - left then None else Some (left + right))"

definition checked_multiply :: "u64 \<Rightarrow> u64 \<Rightarrow> u64 option" where
  "checked_multiply left right =
     (if left \<noteq> 0 \<and> right > max_u64 div left then None else Some (left * right))"

definition checked_align_up :: "u64 \<Rightarrow> u64 \<Rightarrow> u64 option" where
  "checked_align_up v alignment =
     (if alignment = 0 then None
      else let remainder = v mod alignment
           in if remainder = 0 then Some v else checked_add v (alignment - remainder))"

definition checked_least_common_multiple :: "u64 \<Rightarrow> u64 \<Rightarrow> u64 option" where
  "checked_least_common_multiple left right =
     (if left = 0 \<or> right = 0 then Some 0
      else checked_multiply (left div of_nat (gcd (unat left) (unat right))) right)"

lemma checked_add_Some_iff:
  "checked_add a b = Some c \<longleftrightarrow> unat a + unat b < 18446744073709551616 \<and> unat c = unat a + unat b"
  by (auto simp: checked_add_def gt_max_minus_iff unat_add_u64 unat_eq_iff_u64)

lemma checked_add_None_iff:
  "checked_add a b = None \<longleftrightarrow> unat a + unat b \<ge> 18446744073709551616"
  by (auto simp: checked_add_def gt_max_minus_iff)

lemma gt_max_div_iff:
  assumes "a \<noteq> 0"
  shows "b > max_u64 div a \<longleftrightarrow> unat a * unat b \<ge> 18446744073709551616"
proof -
  have a: "0 < unat a" using assms by (simp add: unat_gt_0_iff)
  have "b > max_u64 div a \<longleftrightarrow> 18446744073709551615 div unat a < unat b"
    by (simp add: word_less_nat_alt unat_div unat_max_u64)
  also have "\<dots> \<longleftrightarrow> 18446744073709551615 < unat b * unat a"
    using a by (simp add: div_less_iff_less_mult)
  finally show ?thesis by (auto simp: mult.commute)
qed

lemma checked_multiply_Some_iff:
  "checked_multiply a b = Some c \<longleftrightarrow>
     unat a * unat b < 18446744073709551616 \<and> unat c = unat a * unat b"
proof (cases "a = 0")
  case True
  then show ?thesis
    using unat_eq_0_iff [of c] by (auto simp: checked_multiply_def)
next
  case False
  then show ?thesis
    by (auto simp: checked_multiply_def gt_max_div_iff unat_mult_u64 unat_eq_iff_u64)
qed

lemma checked_multiply_None_iff:
  "checked_multiply a b = None \<longleftrightarrow> unat a * unat b \<ge> 18446744073709551616"
  by (cases "a = 0") (auto simp: checked_multiply_def gt_max_div_iff)

lemma checked_align_up_Some:
  assumes "checked_align_up v a = Some r"
  shows "unat a dvd unat r \<and> v \<le> r \<and> unat r < unat v + unat a"
proof (cases "v mod a = 0")
  case True
  then have "unat a dvd unat v"
    by (metis mod_0_imp_dvd unat_0 unat_mod)
  then show ?thesis using assms True by (auto simp: checked_align_up_def unat_gt_0_iff split: if_splits)
next
  case False
  let ?m = "unat v mod unat a"
  have a: "a \<noteq> 0" using assms by (auto simp: checked_align_up_def)
  then have m: "0 < ?m" "?m < unat a"
    using False unat_mod [of v a] by (simp_all add: unat_gt_0_iff [symmetric])
  have s: "unat (a - v mod a) = unat a - ?m"
    using m by (simp add: unat_sub_u64 unat_mod)
  have r: "unat r = unat v + (unat a - ?m)"
    using assms a False s by (simp add: checked_align_up_def checked_add_Some_iff)
  have "unat v + (unat a - ?m) = unat v div unat a * unat a + unat a"
    using m div_mult_mod_eq [of "unat v" "unat a"] by linarith
  then have "unat a dvd unat r" using r by simp
  then show ?thesis using r m by (simp add: word_le_nat_alt)
qed

lemma checked_align_up_None_iff:
  "checked_align_up v a = None \<longleftrightarrow>
     a = 0 \<or> (unat v mod unat a \<noteq> 0 \<and> unat v + (unat a - unat v mod unat a) \<ge> 18446744073709551616)"
proof (cases "a = 0")
  case True
  then show ?thesis by (simp add: checked_align_up_def)
next
  case False
  then have "unat v mod unat a < unat a"
    by (simp add: unat_gt_0_iff)
  then have s: "unat (a - v mod a) = unat a - unat v mod unat a"
    by (simp add: unat_sub_u64 unat_mod)
  have "v mod a = 0 \<longleftrightarrow> unat v mod unat a = 0"
    by (simp add: unat_mod [symmetric] unat_eq_0_iff)
  then show ?thesis using False s
    by (auto simp: checked_align_up_def checked_add_None_iff Let_def)
qed

lemma checked_lcm_Some:
  assumes "checked_least_common_multiple a b = Some r"
  shows "unat r = lcm (unat a) (unat b)"
proof (cases "a = 0 \<or> b = 0")
  case True
  then show ?thesis using assms by (auto simp: checked_least_common_multiple_def)
next
  case False
  let ?g = "gcd (unat a) (unat b)"
  have "?g \<le> unat a" using False by (simp add: unat_gt_0_iff gcd_le1_nat)
  then have "?g < 18446744073709551616" using unat_u64_bound [of a] by linarith
  then have "unat (of_nat ?g :: u64) = ?g" by (simp add: unat_of_nat)
  then have "unat (a div of_nat ?g) = unat a div ?g" by (simp add: unat_div)
  then have "unat r = unat a div ?g * unat b"
    using assms False by (simp add: checked_least_common_multiple_def checked_multiply_Some_iff)
  also have "\<dots> = unat a * unat b div ?g"
    by (simp add: dvd_div_mult)
  finally show ?thesis by (simp add: lcm_nat_def)
qed

subsection \<open>Bit mixing\<close>

text \<open>
  \<open>v ^= v >> s\<close>, the step the program's hash and pseudo-random functions share. Together with a
  multiplication by an odd constant it is a bijection of the words.
\<close>

definition xorshift :: "nat \<Rightarrow> 'a :: len word \<Rightarrow> 'a word" where
  "xorshift s v = v XOR drop_bit s v"

lemma drop_bit_fixed_zero:
  fixes d :: "'a :: len word"
  assumes "d = drop_bit s d" and "0 < s"
  shows "d = 0"
proof -
  have "d = drop_bit (n * s) d" for n
  proof (induction n)
    case (Suc n)
    have "drop_bit (Suc n * s) d = drop_bit (n * s) (drop_bit s d)"
      by (simp add: add.commute)
    also have "\<dots> = drop_bit (n * s) d"
      by (simp only: assms(1) [symmetric])
    finally show ?case using Suc by simp
  qed simp
  then have "d = drop_bit (LENGTH('a) * s) d" .
  moreover have "LENGTH('a) \<le> LENGTH('a) * s" using assms(2) by simp
  then have "drop_bit (LENGTH('a) * s) d = 0"
    by (intro bit_word_eqI) (auto simp: bit_simps dest: bit_imp_le_length)
  ultimately show ?thesis by simp
qed

lemma xor_eq_0_imp_eq: "(x :: 'a :: len word) XOR y = 0 \<Longrightarrow> x = y"
  by (metis xor.assoc xor.right_neutral xor.left_neutral xor_self_eq)

lemma xor_left_inj [simp]: "(x :: 'a :: len word) XOR a = x XOR b \<longleftrightarrow> a = b"
  by (metis xor.assoc xor.left_neutral xor_self_eq)

lemma xor_right_inj [simp]: "(a :: 'a :: len word) XOR x = b XOR x \<longleftrightarrow> a = b"
  by (metis xor.commute xor_left_inj)

lemma xorshift_inj:
  fixes x y :: "'a :: len word"
  assumes "xorshift s x = xorshift s y" and "0 < s"
  shows "x = y"
proof -
  have "(x XOR y) XOR drop_bit s (x XOR y) = xorshift s x XOR xorshift s y"
    by (simp add: xorshift_def ac_simps)
  also have "\<dots> = 0" using assms(1) by simp
  finally have "x XOR y = drop_bit s (x XOR y)" by (rule xor_eq_0_imp_eq)
  then have "x XOR y = 0" using assms(2) by (rule drop_bit_fixed_zero)
  then show ?thesis by (rule xor_eq_0_imp_eq)
qed

lemma xorshift_eq_iff: "0 < s \<Longrightarrow> xorshift s x = xorshift s y \<longleftrightarrow> x = y"
  by (auto dest: xorshift_inj)

lemma mult_unit_eq_iff:
  fixes x y c d :: "'a :: len word"
  assumes "c * d = 1"
  shows "x * c = y * c \<longleftrightarrow> x = y"
  by (metis assms mult.assoc mult.right_neutral)

text \<open>The odd multipliers of the program's 64-bit mixing functions.\<close>

lemma mult_mix_a_eq_iff [simp]:
  "x * 0xBF58476D1CE4E5B9 = y * (0xBF58476D1CE4E5B9 :: u64) \<longleftrightarrow> x = y"
  by (rule mult_unit_eq_iff [where d = "0x96de1b173f119089"]) simp

lemma mult_mix_b_eq_iff [simp]:
  "x * 0x94D049BB133111EB = y * (0x94D049BB133111EB :: u64) \<longleftrightarrow> x = y"
  by (rule mult_unit_eq_iff [where d = "0x319642b2d24d8ec3"]) simp

text \<open>Narrowing to a byte keeps the low eight bits, masked or not.\<close>

lemma byte_of: "(ucast (x AND 0xFF) :: u8) = (ucast (x :: 'a :: len word))"
proof -
  have "x AND 0xFF = take_bit 8 x" by (simp add: take_bit_eq_mask mask_eq_exp_minus_1)
  then show ?thesis by (auto intro!: bit_word_eqI simp: bit_simps)
qed

subsection \<open>Lists\<close>

lemma find_Some_iff_first:
  "find P xs = Some x \<Longrightarrow> x \<in> set xs \<and> P x"
  by (induction xs) (auto split: if_splits)

text \<open>
  \<open>std::find_if\<close> on a vector, as the index of the first element that satisfies the predicate, and
  the in-place update of that element.
\<close>

fun find_index :: "('a \<Rightarrow> bool) \<Rightarrow> 'a list \<Rightarrow> nat option" where
  "find_index P [] = None"
| "find_index P (x # xs) = (if P x then Some 0 else map_option Suc (find_index P xs))"

definition remove_at :: "nat \<Rightarrow> 'a list \<Rightarrow> 'a list" where
  "remove_at i xs = take i xs @ drop (Suc i) xs"

lemma find_index_Some:
  "find_index P xs = Some i \<Longrightarrow> i < length xs \<and> P (xs ! i) \<and> (\<forall>j<i. \<not> P (xs ! j))"
  by (induction xs arbitrary: i) (auto split: if_splits simp: nth_Cons less_Suc_eq_0_disj split: nat.split)

lemma find_index_None: "find_index P xs = None \<longleftrightarrow> (\<forall>x\<in>set xs. \<not> P x)"
  by (induction xs) auto

lemma length_remove_at: "i < length xs \<Longrightarrow> length (remove_at i xs) = length xs - 1"
  by (simp add: remove_at_def)

lemma set_remove_at_distinct:
  assumes "distinct (map f xs)" and "i < length xs"
  shows "f ` set (remove_at i xs) = f ` set xs - {f (xs ! i)}"
    and "distinct (map f (remove_at i xs))"
proof -
  have xs: "xs = take i xs @ xs ! i # drop (Suc i) xs" using assms(2) by (rule id_take_nth_drop)
  have d: "distinct (map f (take i xs) @ f (xs ! i) # map f (drop (Suc i) xs))"
    using assms(1) by (subst (asm) xs) simp
  have s: "f ` set xs = f ` set (take i xs) \<union> {f (xs ! i)} \<union> f ` set (drop (Suc i) xs)"
    by (subst xs) (simp only: set_append list.set image_Un image_insert, blast)
  show "f ` set (remove_at i xs) = f ` set xs - {f (xs ! i)}"
    using d s by (auto simp: remove_at_def)
  show "distinct (map f (remove_at i xs))" using d by (auto simp: remove_at_def)
qed

lemma map_list_update_same: "f y = f (xs ! i) \<Longrightarrow> map f (xs[i := y]) = map f xs"
  by (cases "i < length xs") (simp_all add: map_update list_update_beyond list_update_same_conv)

lemma sorted_distinct_strict:
  "sorted xs \<Longrightarrow> distinct xs \<Longrightarrow> sorted_wrt (<) xs"
  by (simp add: strict_sorted_iff)

lemma sorted_remdups_adj_strict:
  "sorted xs \<Longrightarrow> sorted_wrt (<) (remdups_adj (xs :: 'a :: linorder list))"
  by (induction xs rule: remdups_adj.induct) (auto simp: order.strict_iff_order)

end
