(* ===== verification/Residency_Core.thy ===== *)
theory Residency_Core
  imports Xv_Prelude
begin

text \<open>
  The data model of the residency manager: \<open>src/src/residency/core.hpp\<close> and
  \<open>core.cpp\<close>. Allocation identities and chunk keys, access modes, the ten chunk states with
  their legal transitions, the validation of a chunk record, and the event generations that guard
  the reuse of a mapping. The normalisation of access ranges, from the same files, is in
  \<open>Access_Plan\<close>.

  The enumerations are datatypes. \<open>AccessMode\<close> has one constructor more than the source for a
  value outside the enumeration, because the code tests for it
  (\<open>AccessPlanError::invalid_access_mode\<close>); the other enumerations are only produced by the
  program itself. \<open>std::size_t\<close> indices into vectors are \<open>nat\<close>.
\<close>

unbundle bit_operations_syntax

section \<open>Data\<close>

datatype allocation_id = AllocationId (aid_value: u64)

datatype chunk_key = ChunkKey (ck_allocation_id: allocation_id) (ck_chunk_index: u64)

instantiation allocation_id :: linorder
begin

definition less_allocation_id :: "allocation_id \<Rightarrow> allocation_id \<Rightarrow> bool" where
  "less_allocation_id a b \<longleftrightarrow> aid_value a < aid_value b"

definition less_eq_allocation_id :: "allocation_id \<Rightarrow> allocation_id \<Rightarrow> bool" where
  "less_eq_allocation_id a b \<longleftrightarrow> aid_value a \<le> aid_value b"

instance
  by standard
    (auto simp: less_allocation_id_def less_eq_allocation_id_def intro: allocation_id.expand)

end

instantiation chunk_key :: linorder
begin

definition less_chunk_key :: "chunk_key \<Rightarrow> chunk_key \<Rightarrow> bool" where
  "less_chunk_key a b \<longleftrightarrow> ck_allocation_id a < ck_allocation_id b \<or>
     (ck_allocation_id a = ck_allocation_id b \<and> ck_chunk_index a < ck_chunk_index b)"

definition less_eq_chunk_key :: "chunk_key \<Rightarrow> chunk_key \<Rightarrow> bool" where
  "less_eq_chunk_key a b \<longleftrightarrow> ck_allocation_id a < ck_allocation_id b \<or>
     (ck_allocation_id a = ck_allocation_id b \<and> ck_chunk_index a \<le> ck_chunk_index b)"

instance
  by standard
    (auto simp: less_chunk_key_def less_eq_chunk_key_def intro: chunk_key.expand)

end

definition allocation_id_valid :: "allocation_id \<Rightarrow> bool" where
  "allocation_id_valid i \<longleftrightarrow> aid_value i \<noteq> 0"

definition chunk_key_hash :: "chunk_key \<Rightarrow> u64" where
  "chunk_key_hash key =
     (let v = aid_value (ck_allocation_id key);
          v = v XOR (ck_chunk_index key + 0x9E3779B97F4A7C15 + push_bit 6 v + drop_bit 2 v);
          v = xorshift 30 v;
          v = v * 0xBF58476D1CE4E5B9;
          v = xorshift 27 v;
          v = v * 0x94D049BB133111EB;
          v = xorshift 31 v
      in v)"

datatype access_mode = Read | Read_write | Write_only | Mode_out_of_range

fun access_mode_name :: "access_mode \<Rightarrow> string" where
  "access_mode_name Read = ''read''"
| "access_mode_name Read_write = ''read_write''"
| "access_mode_name Write_only = ''write_only''"
| "access_mode_name Mode_out_of_range = ''invalid''"

section \<open>Chunk states\<close>

datatype chunk_state =
    Host_clean | Prefetch_queued | Mapping | H2d_in_flight | Resident_clean | Resident_dirty
  | Writeback_queued | D2h_in_flight | Evicting | Poisoned

fun chunk_state_name :: "chunk_state \<Rightarrow> string" where
  "chunk_state_name Host_clean = ''host_clean''"
| "chunk_state_name Prefetch_queued = ''prefetch_queued''"
| "chunk_state_name Mapping = ''mapping''"
| "chunk_state_name H2d_in_flight = ''h2d_in_flight''"
| "chunk_state_name Resident_clean = ''resident_clean''"
| "chunk_state_name Resident_dirty = ''resident_dirty''"
| "chunk_state_name Writeback_queued = ''writeback_queued''"
| "chunk_state_name D2h_in_flight = ''d2h_in_flight''"
| "chunk_state_name Evicting = ''evicting''"
| "chunk_state_name Poisoned = ''poisoned''"

fun has_frame :: "chunk_state \<Rightarrow> bool" where
  "has_frame Mapping = True"
| "has_frame H2d_in_flight = True"
| "has_frame Resident_clean = True"
| "has_frame Resident_dirty = True"
| "has_frame Writeback_queued = True"
| "has_frame D2h_in_flight = True"
| "has_frame Evicting = True"
| "has_frame Host_clean = False"
| "has_frame Prefetch_queued = False"
| "has_frame Poisoned = False"

definition requires_staging :: "chunk_state \<Rightarrow> bool" where
  "requires_staging s \<longleftrightarrow> s = H2d_in_flight \<or> s = D2h_in_flight"

fun forbids_staging :: "chunk_state \<Rightarrow> bool" where
  "forbids_staging Host_clean = True"
| "forbids_staging Prefetch_queued = True"
| "forbids_staging Resident_clean = True"
| "forbids_staging Resident_dirty = True"
| "forbids_staging Writeback_queued = True"
| "forbids_staging Evicting = True"
| "forbids_staging Mapping = False"
| "forbids_staging H2d_in_flight = False"
| "forbids_staging D2h_in_flight = False"
| "forbids_staging Poisoned = False"

definition is_legal_transition :: "chunk_state \<Rightarrow> chunk_state \<Rightarrow> bool" where
  "is_legal_transition s t \<longleftrightarrow>
     (if t = Poisoned then True
      else case s of
        Host_clean \<Rightarrow> t = Prefetch_queued \<or> t = Mapping
      | Prefetch_queued \<Rightarrow> t = Host_clean \<or> t = Mapping
      | Mapping \<Rightarrow> t = Host_clean \<or> t = H2d_in_flight \<or> t = Resident_clean
      | H2d_in_flight \<Rightarrow> t = Resident_clean
      | Resident_clean \<Rightarrow> t = Resident_dirty \<or> t = Evicting
      | Resident_dirty \<Rightarrow> t = Writeback_queued
      | Writeback_queued \<Rightarrow> t = D2h_in_flight
      | D2h_in_flight \<Rightarrow> t = Resident_clean
      | Evicting \<Rightarrow> t = Host_clean
      | Poisoned \<Rightarrow> t = Poisoned)"

datatype state_transition_result = Str_success | Str_illegal_transition

definition transition_chunk_state ::
    "chunk_state \<Rightarrow> chunk_state \<Rightarrow> chunk_state \<times> state_transition_result" where
  "transition_chunk_state state target =
     (if \<not> is_legal_transition state target then (state, Str_illegal_transition)
      else (target, Str_success))"

record chunk_record =
  cr_key :: chunk_key
  cr_state :: chunk_state
  cr_pin_count :: u32
  cr_frame_index :: "u64 option"
  cr_staging_slot :: "u32 option"
  cr_event_generation :: u64
  cr_completed_generation :: u64
  cr_in_current_working_set :: bool
  cr_speculative :: bool
  cr_sequential_one_touch :: bool

datatype chunk_invariant_error =
    Cie_none | Cie_invalid_key | Cie_completed_generation_ahead | Cie_unexpected_frame
  | Cie_missing_frame | Cie_unexpected_staging | Cie_missing_staging | Cie_pinned_host_chunk
  | Cie_pinned_evicting_chunk | Cie_working_set_host_chunk | Cie_working_set_evicting_chunk
  | Cie_incomplete_evicting_generation

fun chunk_invariant_error_name :: "chunk_invariant_error \<Rightarrow> string" where
  "chunk_invariant_error_name Cie_none = ''none''"
| "chunk_invariant_error_name Cie_invalid_key = ''invalid_key''"
| "chunk_invariant_error_name Cie_completed_generation_ahead = ''completed_generation_ahead''"
| "chunk_invariant_error_name Cie_unexpected_frame = ''unexpected_frame''"
| "chunk_invariant_error_name Cie_missing_frame = ''missing_frame''"
| "chunk_invariant_error_name Cie_unexpected_staging = ''unexpected_staging''"
| "chunk_invariant_error_name Cie_missing_staging = ''missing_staging''"
| "chunk_invariant_error_name Cie_pinned_host_chunk = ''pinned_host_chunk''"
| "chunk_invariant_error_name Cie_pinned_evicting_chunk = ''pinned_evicting_chunk''"
| "chunk_invariant_error_name Cie_working_set_host_chunk = ''working_set_host_chunk''"
| "chunk_invariant_error_name Cie_working_set_evicting_chunk = ''working_set_evicting_chunk''"
| "chunk_invariant_error_name Cie_incomplete_evicting_generation = ''incomplete_evicting_generation''"

definition validate_chunk_record :: "chunk_record \<Rightarrow> chunk_invariant_error" where
  "validate_chunk_record r =
     (if \<not> allocation_id_valid (ck_allocation_id (cr_key r)) then Cie_invalid_key
      else if cr_completed_generation r > cr_event_generation r then Cie_completed_generation_ahead
      else if cr_state r = Poisoned then Cie_none
      else if has_frame (cr_state r) \<and> cr_frame_index r = None then Cie_missing_frame
      else if \<not> has_frame (cr_state r) \<and> cr_frame_index r \<noteq> None then Cie_unexpected_frame
      else if requires_staging (cr_state r) \<and> cr_staging_slot r = None then Cie_missing_staging
      else if forbids_staging (cr_state r) \<and> cr_staging_slot r \<noteq> None then Cie_unexpected_staging
      else if (cr_state r = Host_clean \<or> cr_state r = Prefetch_queued) \<and> cr_pin_count r \<noteq> 0
      then Cie_pinned_host_chunk
      else if cr_state r = Evicting \<and> cr_pin_count r \<noteq> 0 then Cie_pinned_evicting_chunk
      else if (cr_state r = Host_clean \<or> cr_state r = Prefetch_queued) \<and> cr_in_current_working_set r
      then Cie_working_set_host_chunk
      else if cr_state r = Evicting \<and> cr_in_current_working_set r
      then Cie_working_set_evicting_chunk
      else if cr_state r = Evicting \<and> cr_completed_generation r \<noteq> cr_event_generation r
      then Cie_incomplete_evicting_generation
      else Cie_none)"

definition chunk_has_in_flight_work :: "chunk_record \<Rightarrow> bool" where
  "chunk_has_in_flight_work r \<longleftrightarrow>
     cr_state r = Mapping \<or> cr_state r = H2d_in_flight \<or> cr_state r = D2h_in_flight \<or>
     cr_completed_generation r \<noteq> cr_event_generation r"

definition is_victim_eligible :: "chunk_record \<Rightarrow> bool" where
  "is_victim_eligible r \<longleftrightarrow>
     (cr_state r = Resident_clean \<or> cr_state r = Resident_dirty) \<and> cr_pin_count r = 0 \<and>
     \<not> cr_in_current_working_set r \<and> cr_staging_slot r = None \<and>
     cr_completed_generation r = cr_event_generation r \<and> validate_chunk_record r = Cie_none"

definition is_safe_to_unmap :: "chunk_record \<Rightarrow> bool" where
  "is_safe_to_unmap r \<longleftrightarrow>
     cr_state r = Evicting \<and> cr_pin_count r = 0 \<and> \<not> cr_in_current_working_set r \<and>
     cr_frame_index r \<noteq> None \<and> cr_staging_slot r = None \<and>
     cr_completed_generation r = cr_event_generation r \<and> validate_chunk_record r = Cie_none"

section \<open>Event generations\<close>

datatype event_generation_result =
    Egr_success | Egr_overflow | Egr_invalid_generation | Egr_stale_generation
  | Egr_future_generation | Egr_already_completed

definition begin_event_generation :: "chunk_record \<Rightarrow> chunk_record \<times> event_generation_result" where
  "begin_event_generation r =
     (if cr_event_generation r = max_u64 then (r, Egr_overflow)
      else (r\<lparr>cr_event_generation := cr_event_generation r + 1\<rparr>, Egr_success))"

definition complete_event_generation ::
    "chunk_record \<Rightarrow> u64 \<Rightarrow> chunk_record \<times> event_generation_result" where
  "complete_event_generation r generation =
     (if generation = 0 then (r, Egr_invalid_generation)
      else if generation < cr_event_generation r
      then (r, if generation \<le> cr_completed_generation r then Egr_already_completed
               else Egr_stale_generation)
      else if generation > cr_event_generation r then (r, Egr_future_generation)
      else if generation \<le> cr_completed_generation r then (r, Egr_already_completed)
      else (r\<lparr>cr_completed_generation := generation\<rparr>, Egr_success))"

section \<open>Properties\<close>

lemma chunk_key_hash_inj_index:
  "chunk_key_hash (ChunkKey a i) = chunk_key_hash (ChunkKey a j) \<Longrightarrow> i = j"
  by (simp add: chunk_key_hash_def Let_def xorshift_eq_iff)

subsection \<open>Chunk states\<close>

text \<open>The states a record passes through under a sequence of \<open>transition_chunk_state\<close> calls.\<close>

fun chunk_trace :: "chunk_state \<Rightarrow> chunk_state list \<Rightarrow> chunk_state list" where
  "chunk_trace s [] = [s]"
| "chunk_trace s (t # ts) = s # chunk_trace (fst (transition_chunk_state s t)) ts"

lemma chunk_trace_not_Nil [simp]: "chunk_trace s ts \<noteq> []"
  by (cases ts) auto

lemma hd_chunk_trace [simp]: "hd (chunk_trace s ts) = s"
  by (cases ts) auto

lemma transition_Poisoned [simp]: "fst (transition_chunk_state Poisoned t) = Poisoned"
  by (cases t) (auto simp: transition_chunk_state_def is_legal_transition_def)

lemma chunk_trace_Poisoned: "set (chunk_trace Poisoned ts) = {Poisoned}"
  by (induction ts) auto

lemma dirty_step:
  "s \<in> {Resident_dirty, Writeback_queued, Poisoned} \<Longrightarrow>
   fst (transition_chunk_state s t) \<in> {Resident_dirty, Writeback_queued, D2h_in_flight, Poisoned}"
  by (cases t) (auto simp: transition_chunk_state_def is_legal_transition_def)

lemma dirty_trace:
  assumes "s \<in> {Resident_dirty, Writeback_queued, Poisoned}"
    and "D2h_in_flight \<notin> set (chunk_trace s ts)"
  shows "set (chunk_trace s ts) \<subseteq> {Resident_dirty, Writeback_queued, Poisoned}"
  using assms
proof (induction ts arbitrary: s)
  case (Cons t ts)
  let ?s = "fst (transition_chunk_state s t)"
  have "?s \<in> set (chunk_trace ?s ts)"
    by (metis hd_chunk_trace hd_in_set chunk_trace_not_Nil)
  then have "?s \<in> {Resident_dirty, Writeback_queued, Poisoned}"
    using dirty_step [OF Cons.prems(1), of t] Cons.prems(2) by auto
  then show ?case using Cons by auto
qed auto

text \<open>
  C29: Dirty data is written back. Whatever transitions are asked for, refused ones included, a chunk
  that is resident and dirty reaches a state in which its host copy counts as the current one, or in
  which its frame is on its way out, only through a device-to-host copy.
\<close>

theorem dirty_chunk_needs_writeback:
  assumes "last (chunk_trace Resident_dirty ts) \<in> {Resident_clean, Evicting, Host_clean, Prefetch_queued, Mapping, H2d_in_flight}"
  shows "D2h_in_flight \<in> set (chunk_trace Resident_dirty ts)"
proof (rule ccontr)
  assume "\<not> ?thesis"
  then have "set (chunk_trace Resident_dirty ts) \<subseteq> {Resident_dirty, Writeback_queued, Poisoned}"
    by (intro dirty_trace) auto
  then have "last (chunk_trace Resident_dirty ts) \<in> {Resident_dirty, Writeback_queued, Poisoned}"
    by (meson chunk_trace_not_Nil last_in_set subsetD)
  then show False using assms by auto
qed

lemma dirty_chunk_needs_writeback_witness:
  "D2h_in_flight \<in> set (chunk_trace Resident_dirty
     [Evicting, Writeback_queued, D2h_in_flight, Resident_clean, Evicting, Host_clean])"
  by (rule dirty_chunk_needs_writeback)
    (simp add: transition_chunk_state_def is_legal_transition_def)

subsection \<open>Frames\<close>

lemma frame_released_only_by:
  "is_legal_transition s t \<Longrightarrow> has_frame s \<Longrightarrow> \<not> has_frame t \<Longrightarrow>
     t = Poisoned \<or> (t = Host_clean \<and> (s = Mapping \<or> s = Evicting))"
  by (cases s) (auto simp: is_legal_transition_def split: if_splits)

lemma victim_not_in_flight: "is_victim_eligible r \<Longrightarrow> \<not> chunk_has_in_flight_work r"
  by (auto simp: is_victim_eligible_def chunk_has_in_flight_work_def)

lemma victim_has_frame: "is_victim_eligible r \<Longrightarrow> cr_frame_index r \<noteq> None"
  by (auto simp: is_victim_eligible_def validate_chunk_record_def split: if_splits)

theorem clean_victim_can_be_unmapped:
  assumes "is_victim_eligible r" and "transition_chunk_state (cr_state r) Evicting = (s, Str_success)"
  shows "is_safe_to_unmap (r\<lparr>cr_state := s\<rparr>)"
  using assms
  by (auto simp: is_victim_eligible_def is_safe_to_unmap_def transition_chunk_state_def
      is_legal_transition_def validate_chunk_record_def requires_staging_def split: if_splits)

theorem safe_to_unmap_iff:
  "is_safe_to_unmap r \<longleftrightarrow> cr_state r = Evicting \<and> validate_chunk_record r = Cie_none"
  by (auto simp: is_safe_to_unmap_def validate_chunk_record_def split: if_splits)

subsection \<open>Event generations\<close>

datatype generation_op = Begin_generation | Complete_generation u64

fun generation_step :: "chunk_record \<Rightarrow> generation_op \<Rightarrow> chunk_record" where
  "generation_step r Begin_generation = fst (begin_event_generation r)"
| "generation_step r (Complete_generation g) = fst (complete_event_generation r g)"

definition generations_ok :: "chunk_record \<Rightarrow> bool" where
  "generations_ok r \<longleftrightarrow> cr_completed_generation r \<le> cr_event_generation r"

lemma begin_increments:
  "begin_event_generation r = (r', Egr_success) \<Longrightarrow>
     unat (cr_event_generation r') = Suc (unat (cr_event_generation r)) \<and>
     cr_completed_generation r' = cr_completed_generation r"
proof -
  assume a: "begin_event_generation r = (r', Egr_success)"
  then have "cr_event_generation r \<noteq> max_u64" and r': "r' = r\<lparr>cr_event_generation := cr_event_generation r + 1\<rparr>"
    by (auto simp: begin_event_generation_def split: if_splits)
  then have "unat (cr_event_generation r) < 18446744073709551615"
    using unat_u64_le [of "cr_event_generation r"] by (auto simp: unat_eq_iff_u64 unat_max_u64)
  then show ?thesis by (simp add: r' unat_add_u64)
qed

lemma complete_success_iff:
  assumes "generations_ok r"
  shows "complete_event_generation r g = (r', Egr_success) \<longleftrightarrow>
     g = cr_event_generation r \<and> cr_completed_generation r \<noteq> g \<and>
     r' = r\<lparr>cr_completed_generation := g\<rparr>"
proof -
  have "cr_event_generation r = 0 \<Longrightarrow> cr_completed_generation r = 0"
    using assms by (simp add: generations_ok_def)
  then show ?thesis using assms
    by (auto simp: complete_event_generation_def generations_ok_def)
qed

lemma generation_step_mono:
  assumes "generations_ok r"
  shows "generations_ok (generation_step r p) \<and>
    cr_event_generation r \<le> cr_event_generation (generation_step r p) \<and>
    cr_completed_generation r \<le> cr_completed_generation (generation_step r p)"
proof (cases p)
  case Begin_generation
  have "unat (cr_event_generation r) < 18446744073709551615" if "cr_event_generation r \<noteq> max_u64"
    using that unat_u64_le [of "cr_event_generation r"] by (auto simp: unat_eq_iff_u64 unat_max_u64)
  then show ?thesis using assms Begin_generation
    by (auto simp: begin_event_generation_def generations_ok_def word_le_nat_alt unat_add_u64)
next
  case (Complete_generation g)
  then show ?thesis using assms
    by (auto simp: complete_event_generation_def generations_ok_def)
qed

text \<open>
  Event generations over any history of begins and completions, accepted or refused: the
  completed generation never passes the begun one, and neither ever goes back (no wrap-around), so
  that "completed = begun" always means that nothing is in flight.
\<close>

theorem generations_run:
  assumes "generations_ok r" and "r' = fold (\<lambda>p r. generation_step r p) ps r"
  shows "generations_ok r' \<and> cr_event_generation r \<le> cr_event_generation r' \<and>
    cr_completed_generation r \<le> cr_completed_generation r'"
  unfolding assms(2) using assms(1)
proof (induction ps arbitrary: r)
  case (Cons p ps)
  from generation_step_mono [OF Cons.prems, of p] Cons.IH [of "generation_step r p"]
  show ?case by (auto intro: order_trans)
qed simp

definition generation_example :: chunk_record where
  "generation_example =
     \<lparr>cr_key = ChunkKey (AllocationId 1) 0, cr_state = Host_clean, cr_pin_count = 0,
      cr_frame_index = None, cr_staging_slot = None, cr_event_generation = 0, cr_completed_generation = 0,
      cr_in_current_working_set = False, cr_speculative = False, cr_sequential_one_touch = False\<rparr>"

theorem generations_run_witness:
  "generations_ok (fold (\<lambda>p r. generation_step r p)
     [Begin_generation, Complete_generation 2, Complete_generation 1, Begin_generation] generation_example)"
  by (rule generations_run [of generation_example, OF _ refl, THEN conjunct1])
    (simp add: generations_ok_def generation_example_def)

end
