(* ===== verification/Access_Plan.thy ===== *)
theory Access_Plan
  imports Residency_Core
begin

text \<open>
  \<open>normalize_and_split_accesses\<close> of \<open>src/src/residency/core.cpp\<close>: the ranges a
  transaction declares are checked against the allocations, overlapping ranges are split and their
  read and write requirements combined, and the result is cut at chunk boundaries into one plan per
  chunk. \<open>std::size_t\<close> indices are \<open>nat\<close>.
\<close>

unbundle bit_operations_syntax

section \<open>Data\<close>

record allocation_layout =
  al_id :: allocation_id
  al_size_bytes :: u64

record access_range =
  ar_allocation_id :: allocation_id
  ar_offset_bytes :: u64
  ar_length_bytes :: u64
  ar_mode :: access_mode

record chunk_access_span =
  sp_offset_bytes :: u64
  sp_length_bytes :: u64
  sp_mode :: access_mode

record chunk_access_plan =
  cp_key :: chunk_key
  cp_allocation_offset_bytes :: u64
  cp_valid_bytes :: u64
  cp_spans :: "chunk_access_span list"
  cp_reads_existing_data :: bool
  cp_marks_dirty :: bool
  cp_full_write_only :: bool
  cp_requires_h2d :: bool

datatype access_plan_error =
    Ape_none | Ape_invalid_chunk_size | Ape_invalid_allocation | Ape_duplicate_allocation
  | Ape_unknown_allocation | Ape_zero_length | Ape_range_overflow | Ape_range_out_of_bounds
  | Ape_invalid_access_mode

fun access_plan_error_name :: "access_plan_error \<Rightarrow> string" where
  "access_plan_error_name Ape_none = ''none''"
| "access_plan_error_name Ape_invalid_chunk_size = ''invalid_chunk_size''"
| "access_plan_error_name Ape_invalid_allocation = ''invalid_allocation''"
| "access_plan_error_name Ape_duplicate_allocation = ''duplicate_allocation''"
| "access_plan_error_name Ape_unknown_allocation = ''unknown_allocation''"
| "access_plan_error_name Ape_zero_length = ''zero_length''"
| "access_plan_error_name Ape_range_overflow = ''range_overflow''"
| "access_plan_error_name Ape_range_out_of_bounds = ''range_out_of_bounds''"
| "access_plan_error_name Ape_invalid_access_mode = ''invalid_access_mode''"

record access_plan_result =
  apr_error :: access_plan_error
  apr_input_range_index :: "nat option"
  apr_normalized_ranges :: "access_range list"
  apr_chunks :: "chunk_access_plan list"

section \<open>Access normalisation\<close>

fun mode_bits :: "access_mode \<Rightarrow> u32 option" where
  "mode_bits Read = Some 1"
| "mode_bits Write_only = Some 2"
| "mode_bits Read_write = Some 3"
| "mode_bits Mode_out_of_range = None"

definition mode_from_bits :: "u32 \<Rightarrow> access_mode" where
  "mode_from_bits bits = (if bits = 1 then Read else if bits = 2 then Write_only else Read_write)"

text \<open>\<open>fail\<close>: the error, the index of the offending range, and both result lists cleared.\<close>

definition plan_fail :: "access_plan_error \<Rightarrow> nat option \<Rightarrow> access_plan_result" where
  "plan_fail e i = \<lparr>apr_error = e, apr_input_range_index = i, apr_normalized_ranges = [],
     apr_chunks = []\<rparr>"

text \<open>
  The layouts sorted by identity. \<open>std::sort\<close> does not fix the order of layouts with equal
  identities; here they keep their order, one of the orders the code may see.
\<close>

definition sort_layouts :: "allocation_layout list \<Rightarrow> allocation_layout list" where
  "sort_layouts allocations = sort_key al_id allocations"

text \<open>The loop over the sorted layouts; \<open>previous\<close> is the identity of \<open>layouts[index - 1]\<close>.\<close>

fun check_layouts :: "allocation_id option \<Rightarrow> allocation_layout list \<Rightarrow> access_plan_error option" where
  "check_layouts previous [] = None"
| "check_layouts previous (l # ls) =
     (if \<not> allocation_id_valid (al_id l) \<or> al_size_bytes l = 0 then Some Ape_invalid_allocation
      else if previous = Some (al_id l) then Some Ape_duplicate_allocation
      else check_layouts (Some (al_id l)) ls)"

text \<open>\<open>std::lower_bound\<close> by identity on the sorted layouts.\<close>

definition layout_lower_bound ::
    "allocation_layout list \<Rightarrow> allocation_id \<Rightarrow> allocation_layout option" where
  "layout_lower_bound layouts i = find (\<lambda>l. \<not> al_id l < i) layouts"

fun check_ranges ::
    "allocation_layout list \<Rightarrow> nat \<Rightarrow> access_range list \<Rightarrow> (access_plan_error \<times> nat) option" where
  "check_ranges layouts index [] = None"
| "check_ranges layouts index (r # rs) =
     (if mode_bits (ar_mode r) = None then Some (Ape_invalid_access_mode, index)
      else if ar_length_bytes r = 0 then Some (Ape_zero_length, index)
      else case layout_lower_bound layouts (ar_allocation_id r) of
        None \<Rightarrow> Some (Ape_unknown_allocation, index)
      | Some l \<Rightarrow>
          if al_id l \<noteq> ar_allocation_id r then Some (Ape_unknown_allocation, index)
          else if ar_length_bytes r > max_u64 - ar_offset_bytes r
          then Some (Ape_range_overflow, index)
          else let e = ar_offset_bytes r + ar_length_bytes r
               in if ar_offset_bytes r \<ge> al_size_bytes l \<or> e > al_size_bytes l
                  then Some (Ape_range_out_of_bounds, index)
                  else check_ranges layouts (Suc index) rs)"

definition range_end :: "access_range \<Rightarrow> u64" where
  "range_end r = ar_offset_bytes r + ar_length_bytes r"

text \<open>The inner loop over \<open>allocation_ranges\<close>: the modes of the ranges that span \<open>[b, e)\<close>.\<close>

definition combined_bits :: "access_range list \<Rightarrow> u64 \<Rightarrow> u64 \<Rightarrow> u32" where
  "combined_bits rs b e =
     fold (\<lambda>r bits. if ar_offset_bytes r \<le> b \<and> range_end r \<ge> e
                    then bits OR the (mode_bits (ar_mode r)) else bits) rs 0"

text \<open>Extend the last normalised range when the new one continues it, else append.\<close>

definition push_normalized ::
    "access_range list \<Rightarrow> allocation_id \<Rightarrow> u64 \<Rightarrow> u64 \<Rightarrow> access_mode \<Rightarrow> access_range list" where
  "push_normalized out i b e m =
     (if out \<noteq> [] \<and> ar_allocation_id (last out) = i \<and> ar_mode (last out) = m \<and>
         range_end (last out) = b
      then butlast out @ [(last out)\<lparr>ar_length_bytes := ar_length_bytes (last out) + (e - b)\<rparr>]
      else out @ [\<lparr>ar_allocation_id = i, ar_offset_bytes = b, ar_length_bytes = e - b, ar_mode = m\<rparr>])"

fun sweep_boundaries ::
    "allocation_id \<Rightarrow> access_range list \<Rightarrow> u64 list \<Rightarrow> access_range list \<Rightarrow> access_range list" where
  "sweep_boundaries i rs (b # e # bs) out =
     (let bits = combined_bits rs b e
      in sweep_boundaries i rs (e # bs)
           (if bits = 0 then out else push_normalized out i b e (mode_from_bits bits)))"
| "sweep_boundaries i rs _ out = out"

definition normalize_layout ::
    "access_range list \<Rightarrow> allocation_layout \<Rightarrow> access_range list \<Rightarrow> access_range list" where
  "normalize_layout ranges l out =
     (let rs = filter (\<lambda>r. ar_allocation_id r = al_id l) ranges
      in if rs = [] then out
         else let boundaries = concat (map (\<lambda>r. [ar_offset_bytes r, range_end r]) rs)
              in sweep_boundaries (al_id l) rs (remdups_adj (sort boundaries)) out)"

definition normalize_ranges ::
    "allocation_layout list \<Rightarrow> access_range list \<Rightarrow> access_range list" where
  "normalize_ranges layouts ranges = fold (normalize_layout ranges) layouts []"

section \<open>Splitting at chunk boundaries\<close>

definition new_chunk_plan :: "chunk_key \<Rightarrow> u64 \<Rightarrow> u64 \<Rightarrow> chunk_access_plan" where
  "new_chunk_plan key origin valid =
     \<lparr>cp_key = key, cp_allocation_offset_bytes = origin, cp_valid_bytes = valid, cp_spans = [],
      cp_reads_existing_data = False, cp_marks_dirty = False, cp_full_write_only = False,
      cp_requires_h2d = True\<rparr>"

definition push_span ::
    "chunk_access_span list \<Rightarrow> u64 \<Rightarrow> u64 \<Rightarrow> access_mode \<Rightarrow> chunk_access_span list" where
  "push_span spans off len m =
     (if spans \<noteq> [] \<and> sp_mode (last spans) = m \<and>
         sp_offset_bytes (last spans) + sp_length_bytes (last spans) = off
      then butlast spans @ [(last spans)\<lparr>sp_length_bytes := sp_length_bytes (last spans) + len\<rparr>]
      else spans @ [\<lparr>sp_offset_bytes = off, sp_length_bytes = len, sp_mode = m\<rparr>])"

definition append_chunk_span ::
    "chunk_access_plan list \<Rightarrow> chunk_key \<Rightarrow> u64 \<Rightarrow> u64 \<Rightarrow> u64 \<Rightarrow> u64 \<Rightarrow> access_mode \<Rightarrow>
     chunk_access_plan list" where
  "append_chunk_span chunks key origin valid off len m =
     (let chunks = (if chunks = [] \<or> cp_key (last chunks) \<noteq> key
                    then chunks @ [new_chunk_plan key origin valid] else chunks);
          chunk = last chunks
      in butlast chunks @ [chunk\<lparr>cp_spans := push_span (cp_spans chunk) off len m\<rparr>])"

text \<open>
  The \<open>while (remaining != 0)\<close> loop. It does not end for a cursor outside the allocation, so it
  is a partial function; \<open>None\<close> is a loop that does not return.
\<close>

partial_function (option) split_range ::
    "u64 \<Rightarrow> u64 \<Rightarrow> allocation_id \<Rightarrow> access_mode \<Rightarrow> u64 \<Rightarrow> u64 \<Rightarrow> chunk_access_plan list \<Rightarrow>
     chunk_access_plan list option" where
  "split_range chunk_bytes size_bytes i m cursor remaining chunks =
     (if remaining = 0 then Some chunks
      else let chunk_index = cursor div chunk_bytes;
               chunk_origin = chunk_index * chunk_bytes;
               valid_bytes = min chunk_bytes (size_bytes - chunk_origin);
               chunk_offset = cursor - chunk_origin;
               span_bytes = min remaining (valid_bytes - chunk_offset)
           in split_range chunk_bytes size_bytes i m (cursor + span_bytes) (remaining - span_bytes)
                (append_chunk_span chunks (ChunkKey i chunk_index) chunk_origin valid_bytes
                   chunk_offset span_bytes m))"

declare split_range.simps [code]

fun split_ranges ::
    "allocation_layout list \<Rightarrow> u64 \<Rightarrow> access_range list \<Rightarrow> chunk_access_plan list \<Rightarrow>
     chunk_access_plan list option" where
  "split_ranges layouts chunk_bytes [] chunks = Some chunks"
| "split_ranges layouts chunk_bytes (r # rs) chunks =
     (case layout_lower_bound layouts (ar_allocation_id r) of
        None \<Rightarrow> None
      | Some l \<Rightarrow>
          (case split_range chunk_bytes (al_size_bytes l) (ar_allocation_id r) (ar_mode r)
                  (ar_offset_bytes r) (ar_length_bytes r) chunks of
             None \<Rightarrow> None
           | Some chunks' \<Rightarrow> split_ranges layouts chunk_bytes rs chunks'))"

text \<open>The last loop: what a chunk's spans together require of its current contents.\<close>

definition finalize_chunk :: "chunk_access_plan \<Rightarrow> chunk_access_plan" where
  "finalize_chunk chunk =
     (let spans = cp_spans chunk;
          full = (length spans = 1 \<and> sp_offset_bytes (hd spans) = 0 \<and>
                  sp_length_bytes (hd spans) = cp_valid_bytes chunk \<and>
                  sp_mode (hd spans) = Write_only)
      in chunk\<lparr>cp_reads_existing_data :=
                  cp_reads_existing_data chunk \<or> list_ex (\<lambda>s. sp_mode s \<noteq> Write_only) spans,
               cp_marks_dirty := cp_marks_dirty chunk \<or> list_ex (\<lambda>s. sp_mode s \<noteq> Read) spans,
               cp_full_write_only := full,
               cp_requires_h2d := \<not> full\<rparr>)"

definition normalize_and_split_accesses ::
    "allocation_layout list \<Rightarrow> access_range list \<Rightarrow> u64 \<Rightarrow> access_plan_result option" where
  "normalize_and_split_accesses allocations ranges chunk_bytes =
     (if chunk_bytes = 0 then Some (plan_fail Ape_invalid_chunk_size None)
      else let layouts = sort_layouts allocations
           in case check_layouts None layouts of
                Some e \<Rightarrow> Some (plan_fail e None)
              | None \<Rightarrow>
                  (case check_ranges layouts 0 ranges of
                     Some (e, index) \<Rightarrow> Some (plan_fail e (Some index))
                   | None \<Rightarrow>
                       let normalized = normalize_ranges layouts ranges
                       in case split_ranges layouts chunk_bytes normalized [] of
                            None \<Rightarrow> None
                          | Some chunks \<Rightarrow>
                              Some \<lparr>apr_error = Ape_none, apr_input_range_index = None,
                                    apr_normalized_ranges = normalized,
                                    apr_chunks = map finalize_chunk chunks\<rparr>))"

section \<open>What a list of ranges touches\<close>

definition range_wf :: "access_range \<Rightarrow> bool" where
  "range_wf r \<longleftrightarrow> 0 < unat (ar_length_bytes r) \<and>
     unat (ar_offset_bytes r) + unat (ar_length_bytes r) < 18446744073709551616"

definition covers :: "access_range \<Rightarrow> nat \<Rightarrow> bool" where
  "covers r p \<longleftrightarrow> unat (ar_offset_bytes r) \<le> p \<and>
     p < unat (ar_offset_bytes r) + unat (ar_length_bytes r)"

definition touched :: "access_range list \<Rightarrow> allocation_id \<Rightarrow> nat \<Rightarrow> access_mode \<Rightarrow> bool" where
  "touched rs a p m \<longleftrightarrow> (\<exists>r\<in>set rs. ar_allocation_id r = a \<and> covers r p \<and> ar_mode r = m)"

lemma touched_Nil [simp]: "\<not> touched [] a p m"
  by (simp add: touched_def)

lemma touched_append [simp]: "touched (xs @ ys) a p m \<longleftrightarrow> touched xs a p m \<or> touched ys a p m"
  by (auto simp: touched_def)

lemma touched_Cons:
  "touched (r # rs) a p m \<longleftrightarrow>
     (ar_allocation_id r = a \<and> covers r p \<and> ar_mode r = m) \<or> touched rs a p m"
  by (auto simp: touched_def)

lemma range_end_unat [simp]:
  "range_wf r \<Longrightarrow> unat (range_end r) = unat (ar_offset_bytes r) + unat (ar_length_bytes r)"
  by (simp add: range_end_def range_wf_def unat_add_u64)

lemma combined_bits_cases:
  assumes "\<forall>r\<in>set rs. ar_mode r \<noteq> Mode_out_of_range"
  defines "spans \<equiv> \<lambda>b e r. ar_offset_bytes r \<le> b \<and> e \<le> range_end r"
  shows "combined_bits rs b e \<in> {0, 1, 2, 3} \<and>
    (combined_bits rs b e \<in> {1, 3} \<longleftrightarrow>
       (\<exists>r\<in>set rs. spans b e r \<and> ar_mode r \<noteq> Write_only)) \<and>
    (combined_bits rs b e \<in> {2, 3} \<longleftrightarrow>
       (\<exists>r\<in>set rs. spans b e r \<and> ar_mode r \<noteq> Read))"
  using assms(1)
proof (induction rs rule: rev_induct)
  case (snoc r rs)
  let ?c = "combined_bits rs b e"
  have step: "combined_bits (rs @ [r]) b e =
      (if spans b e r then ?c OR the (mode_bits (ar_mode r)) else ?c)"
    by (simp add: combined_bits_def spans_def)
  show ?case
  proof (cases "spans b e r")
    case True
    then show ?thesis using snoc step by (cases "ar_mode r") auto
  next
    case False
    then show ?thesis using snoc step by auto
  qed
qed (simp add: combined_bits_def)

lemma push_normalized_spec:
  assumes wf: "\<forall>r\<in>set out. range_wf r" and be: "b < e"
  shows "(touched (push_normalized out i b e m) a p k \<longleftrightarrow>
      touched out a p k \<or> (a = i \<and> k = m \<and> unat b \<le> p \<and> p < unat e)) \<and>
    (\<forall>r\<in>set (push_normalized out i b e m). range_wf r)" (is "?A \<and> ?B")
proof (cases "out \<noteq> [] \<and> ar_allocation_id (last out) = i \<and> ar_mode (last out) = m \<and>
    range_end (last out) = b")
  case True
  have lt: "unat b < unat e" using be by (simp add: word_less_nat_alt)
  have eb: "unat e < 18446744073709551616" by (rule unat_u64_bound)
  from True obtain xs r where out: "out = xs @ [r]" by (cases out rule: rev_cases) auto
  have r: "range_wf r" using wf out by simp
  have b: "unat b = unat (ar_offset_bytes r) + unat (ar_length_bytes r)"
    using True r out range_end_unat [OF r] by simp
  have sum: "unat (ar_length_bytes r + (e - b)) = unat (ar_length_bytes r) + (unat e - unat b)"
    using b lt eb by (simp add: unat_add_u64 unat_sub_u64)
  have eq: "push_normalized out i b e m =
      xs @ [r\<lparr>ar_length_bytes := ar_length_bytes r + (e - b)\<rparr>]"
    using True out by (simp add: push_normalized_def)
  have im: "ar_allocation_id r = i" "ar_mode r = m" using True out by auto
  have ?A unfolding eq unfolding out using b sum lt im
    by (auto simp: touched_Cons covers_def)
  moreover have ?B unfolding eq using wf out b sum lt eb by (auto simp: range_wf_def)
  ultimately show ?thesis ..
next
  case False
  have len: "unat (e - b) = unat e - unat b" and lt: "unat b < unat e"
    using be by (simp_all add: unat_sub_u64 word_less_nat_alt)
  have eq: "push_normalized out i b e m = out @ [\<lparr>ar_allocation_id = i,
      ar_offset_bytes = b, ar_length_bytes = e - b, ar_mode = m\<rparr>]"
    unfolding push_normalized_def by (simp only: False if_False)
  have ?A unfolding eq using len lt by (auto simp: touched_Cons covers_def)
  moreover have ?B unfolding eq using wf len lt unat_u64_bound [of e] by (auto simp: range_wf_def)
  ultimately show ?thesis ..
qed

text \<open>
  The normalised list stays in order: each range ends before the next one of its allocation
  begins, and two ranges that touch differ in their mode (else they would have been merged).
\<close>

definition range_before :: "access_range \<Rightarrow> access_range \<Rightarrow> bool" where
  "range_before r s \<longleftrightarrow> ar_allocation_id r < ar_allocation_id s \<or>
     (ar_allocation_id r = ar_allocation_id s \<and>
      unat (ar_offset_bytes r) + unat (ar_length_bytes r) \<le> unat (ar_offset_bytes s) \<and>
      (ar_mode r = ar_mode s \<longrightarrow>
         unat (ar_offset_bytes r) + unat (ar_length_bytes r) < unat (ar_offset_bytes s)))"

definition ends_by :: "access_range list \<Rightarrow> allocation_id \<Rightarrow> nat \<Rightarrow> bool" where
  "ends_by out i n \<longleftrightarrow> (\<forall>r\<in>set out. ar_allocation_id r < i \<or>
     (ar_allocation_id r = i \<and> unat (ar_offset_bytes r) + unat (ar_length_bytes r) \<le> n))"

lemma ends_by_mono: "ends_by out i n \<Longrightarrow> n \<le> m \<Longrightarrow> ends_by out i m"
  by (fastforce simp: ends_by_def)

lemma push_normalized_sorted:
  assumes wf: "\<forall>r\<in>set out. range_wf r" and be: "b < e"
    and ord: "sorted_wrt range_before out" and ends: "ends_by out i (unat b)"
  shows "sorted_wrt range_before (push_normalized out i b e m) \<and>
    ends_by (push_normalized out i b e m) i (unat e)"
proof (cases "out \<noteq> [] \<and> ar_allocation_id (last out) = i \<and> ar_mode (last out) = m \<and>
    range_end (last out) = b")
  case True
  have lt: "unat b < unat e" using be by (simp add: word_less_nat_alt)
  have eb: "unat e < 18446744073709551616" by (rule unat_u64_bound)
  from True obtain xs r where out: "out = xs @ [r]" by (cases out rule: rev_cases) auto
  have r: "range_wf r" using wf out by simp
  have b: "unat b = unat (ar_offset_bytes r) + unat (ar_length_bytes r)"
    using True r out range_end_unat [OF r] by simp
  have sum: "unat (ar_length_bytes r + (e - b)) = unat (ar_length_bytes r) + (unat e - unat b)"
    using b lt eb by (simp add: unat_add_u64 unat_sub_u64)
  have eq: "push_normalized out i b e m =
      xs @ [r\<lparr>ar_length_bytes := ar_length_bytes r + (e - b)\<rparr>]"
    using True out by (simp add: push_normalized_def)
  show ?thesis unfolding eq using ord ends lt sum b unfolding out
    by (fastforce simp: sorted_wrt_append range_before_def ends_by_def)
next
  case False
  have len: "unat (e - b) = unat e - unat b" and lt: "unat b < unat e"
    using be by (simp_all add: unat_sub_u64 word_less_nat_alt)
  have eq: "push_normalized out i b e m = out @ [\<lparr>ar_allocation_id = i,
      ar_offset_bytes = b, ar_length_bytes = e - b, ar_mode = m\<rparr>]"
    unfolding push_normalized_def by (simp only: False if_False)
  have "range_before r \<lparr>ar_allocation_id = i, ar_offset_bytes = b, ar_length_bytes = e - b, ar_mode = m\<rparr>"
    if r_in: "r \<in> set out" for r
  proof (cases "r = last out")
    case True
    then show ?thesis using r_in ends False wf range_end_unat [of r]
      by (fastforce simp: ends_by_def range_before_def unat_eq_iff_u64)
  next
    case False
    obtain xs s where out: "out = xs @ [s]" using r_in by (cases out rule: rev_cases) auto
    then have "r \<in> set xs" and "range_wf s" using r_in False wf by auto
    then have "range_before r s" using ord out by (simp add: sorted_wrt_append)
    moreover have "ar_allocation_id s < i \<or> (ar_allocation_id s = i \<and>
        unat (ar_offset_bytes s) + unat (ar_length_bytes s) \<le> unat b)"
      using ends out by (simp add: ends_by_def)
    ultimately show ?thesis using \<open>range_wf s\<close>
      by (auto simp: range_before_def range_wf_def)
  qed
  then show ?thesis unfolding eq using ord ends len lt
    by (auto simp: sorted_wrt_append ends_by_def)
qed

definition elementary_mode :: "access_range list \<Rightarrow> u64 \<Rightarrow> u64 \<Rightarrow> access_mode option" where
  "elementary_mode rs b e =
     (if combined_bits rs b e = 0 then None else Some (mode_from_bits (combined_bits rs b e)))"

lemma sweep_boundaries_spec:
  assumes "sorted_wrt (<) bs" and "\<forall>r\<in>set out. range_wf r" and "sorted_wrt range_before out"
    and "bs \<noteq> [] \<longrightarrow> ends_by out i (unat (hd bs))" and "\<forall>r\<in>set out. ar_allocation_id r \<le> i"
  shows "(\<forall>r\<in>set (sweep_boundaries i rs bs out). range_wf r) \<and>
    sorted_wrt range_before (sweep_boundaries i rs bs out) \<and>
    (\<forall>r\<in>set (sweep_boundaries i rs bs out). ar_allocation_id r \<le> i) \<and>
    (touched (sweep_boundaries i rs bs out) a p m \<longleftrightarrow> touched out a p m \<or>
       (a = i \<and> (\<exists>(b, e)\<in>set (zip bs (tl bs)). unat b \<le> p \<and> p < unat e \<and>
          elementary_mode rs b e = Some m)))"
  using assms
proof (induction i rs bs out rule: sweep_boundaries.induct)
  case (1 i rs b e bs out)
  let ?bits = "combined_bits rs b e"
  let ?out = "if ?bits = 0 then out else push_normalized out i b e (mode_from_bits ?bits)"
  have be: "b < e" and bs: "sorted_wrt (<) (e # bs)" using "1.prems"(1) by simp_all
  have eb: "ends_by out i (unat b)" using "1.prems"(4) by simp
  have le: "unat b \<le> unat e" using be by (simp add: word_less_nat_alt)
  note spec = push_normalized_spec [OF "1.prems"(2) be]
  note ord = push_normalized_sorted [OF "1.prems"(2) be "1.prems"(3) eb]
  have out: "\<forall>r\<in>set ?out. range_wf r" "sorted_wrt range_before ?out" "ends_by ?out i (unat e)"
    using spec ord "1.prems"(2,3) ends_by_mono [OF eb le] by auto
  then have al: "\<forall>r\<in>set ?out. ar_allocation_id r \<le> i"
    by (fastforce simp: ends_by_def)
  have t: "touched ?out a p m \<longleftrightarrow> touched out a p m \<or>
      (a = i \<and> unat b \<le> p \<and> p < unat e \<and> elementary_mode rs b e = Some m)"
    using spec by (auto simp: elementary_mode_def)
  have "sweep_boundaries i rs (b # e # bs) out = sweep_boundaries i rs (e # bs) ?out"
    by (simp add: Let_def)
  then show ?case
    using "1.IH" [OF refl bs out(1,2) _ al] out(3) t by auto
qed auto

definition reads_at :: "access_range list \<Rightarrow> allocation_id \<Rightarrow> nat \<Rightarrow> bool" where
  "reads_at rs a p \<longleftrightarrow> touched rs a p Read \<or> touched rs a p Read_write"

definition writes_at :: "access_range list \<Rightarrow> allocation_id \<Rightarrow> nat \<Rightarrow> bool" where
  "writes_at rs a p \<longleftrightarrow> touched rs a p Write_only \<or> touched rs a p Read_write"

definition union_mode :: "access_range list \<Rightarrow> allocation_id \<Rightarrow> nat \<Rightarrow> access_mode option" where
  "union_mode rs a p =
     (if reads_at rs a p then if writes_at rs a p then Some Read_write else Some Read
      else if writes_at rs a p then Some Write_only else None)"

lemma consecutive_less:
  "sorted_wrt (<) bs \<Longrightarrow> (b, e) \<in> set (zip bs (tl bs)) \<Longrightarrow> (b :: 'a :: linorder) < e"
proof (induction bs)
  case (Cons y ys)
  then show ?case by (cases ys) auto
qed simp

lemma consecutive_mem:
  "(b, e) \<in> set (zip bs (tl bs)) \<Longrightarrow> b \<in> set bs \<and> e \<in> set bs"
  by (metis in_set_zipE list.sel(2) list.set_sel(2) tl_Nil)

lemma consecutive_no_between:
  assumes "sorted_wrt (<) bs" and "(b, e) \<in> set (zip bs (tl bs))" and "(x :: 'a :: linorder) \<in> set bs"
  shows "x \<le> b \<or> e \<le> x"
  using assms
proof (induction bs)
  case (Cons y ys)
  show ?case
  proof (cases "(b, e) \<in> set (zip ys (tl ys))")
    case True
    then have "b \<in> set ys" using consecutive_mem [OF True] by simp
    then show ?thesis using Cons True by auto
  next
    case False
    then obtain zs where "ys = e # zs" "b = y" using Cons.prems(2) by (cases ys) auto
    then show ?thesis using Cons.prems by auto
  qed
qed simp

lemma consecutive_exists:
  assumes "sorted_wrt (<) bs" and "x \<in> set bs" and "y \<in> set bs"
    and "unat (x :: u64) \<le> p" and "p < unat y"
  shows "\<exists>(b, e)\<in>set (zip bs (tl bs)). unat b \<le> p \<and> p < unat e"
  using assms
proof (induction bs arbitrary: x)
  case (Cons z zs)
  have zx: "unat z \<le> p" using Cons.prems by (auto simp: word_less_nat_alt)
  have y: "y \<in> set zs" using Cons.prems zx by auto
  then obtain w ws where zs: "zs = w # ws" by (cases zs) auto
  show ?case
  proof (cases "p < unat w")
    case True
    then show ?thesis using zs zx by auto
  next
    case False
    then have "\<exists>(b, e)\<in>set (zip zs (tl zs)). unat b \<le> p \<and> p < unat e"
      using Cons.IH [of w] Cons.prems zs y by auto
    then show ?thesis using zs by auto
  qed
qed simp

lemma spans_iff_covers:
  assumes wf: "range_wf r" and so: "sorted_wrt (<) bs" and be: "(b, e) \<in> set (zip bs (tl bs))"
    and ends: "ar_offset_bytes r \<in> set bs" "range_end r \<in> set bs"
    and p: "unat b \<le> p" "p < unat e"
  shows "ar_offset_bytes r \<le> b \<and> e \<le> range_end r \<longleftrightarrow> covers r p"
proof -
  have "ar_offset_bytes r \<le> b \<or> e \<le> ar_offset_bytes r"
    and "range_end r \<le> b \<or> e \<le> range_end r"
    using consecutive_no_between [OF so be] ends by auto
  then show ?thesis using p wf
    by (auto simp: covers_def word_le_nat_alt)
qed

lemma elementary_mode_union:
  assumes wf: "\<forall>r\<in>set rs. range_wf r \<and> ar_mode r \<noteq> Mode_out_of_range \<and> ar_allocation_id r = i"
    and so: "sorted_wrt (<) bs" and be: "(b, e) \<in> set (zip bs (tl bs))"
    and ends: "\<forall>r\<in>set rs. ar_offset_bytes r \<in> set bs \<and> range_end r \<in> set bs"
    and p: "unat b \<le> p" "p < unat e"
  shows "elementary_mode rs b e = union_mode rs i p"
proof -
  let ?spans = "\<lambda>r. ar_offset_bytes r \<le> b \<and> e \<le> range_end r"
  have cov: "\<forall>r\<in>set rs. ?spans r \<longleftrightarrow> covers r p"
    using spans_iff_covers [OF _ so be _ _ p] wf ends by blast
  have bits: "combined_bits rs b e \<in> {0, 1, 2, 3}"
    "combined_bits rs b e \<in> {1, 3} \<longleftrightarrow> (\<exists>r\<in>set rs. ?spans r \<and> ar_mode r \<noteq> Write_only)"
    "combined_bits rs b e \<in> {2, 3} \<longleftrightarrow> (\<exists>r\<in>set rs. ?spans r \<and> ar_mode r \<noteq> Read)"
    using combined_bits_cases [of rs b e] wf by auto
  have m: "\<forall>r\<in>set rs. (ar_mode r \<noteq> Write_only \<longleftrightarrow> ar_mode r = Read \<or> ar_mode r = Read_write) \<and>
      (ar_mode r \<noteq> Read \<longleftrightarrow> ar_mode r = Write_only \<or> ar_mode r = Read_write)"
    using wf by (metis access_mode.exhaust access_mode.distinct(1,3,7))
  have "(\<exists>r\<in>set rs. ?spans r \<and> ar_mode r \<noteq> Write_only) \<longleftrightarrow>
      (\<exists>r\<in>set rs. covers r p \<and> (ar_mode r = Read \<or> ar_mode r = Read_write))"
    using cov m by blast
  also have "\<dots> \<longleftrightarrow> reads_at rs i p"
    unfolding reads_at_def touched_def using wf by blast
  finally have rd: "(\<exists>r\<in>set rs. ?spans r \<and> ar_mode r \<noteq> Write_only) \<longleftrightarrow> reads_at rs i p" .
  have "(\<exists>r\<in>set rs. ?spans r \<and> ar_mode r \<noteq> Read) \<longleftrightarrow>
      (\<exists>r\<in>set rs. covers r p \<and> (ar_mode r = Write_only \<or> ar_mode r = Read_write))"
    using cov m by blast
  also have "\<dots> \<longleftrightarrow> writes_at rs i p"
    unfolding writes_at_def touched_def using wf by blast
  finally have wr: "(\<exists>r\<in>set rs. ?spans r \<and> ar_mode r \<noteq> Read) \<longleftrightarrow> writes_at rs i p" .
  show ?thesis using bits unfolding rd wr
    by (auto simp: elementary_mode_def union_mode_def mode_from_bits_def)
qed

lemma touched_filter [simp]:
  "touched (filter (\<lambda>r. ar_allocation_id r = i) rs) a p m \<longleftrightarrow> a = i \<and> touched rs a p m"
  by (auto simp: touched_def)

lemma union_mode_filter [simp]:
  "union_mode (filter (\<lambda>r. ar_allocation_id r = i) rs) i p = union_mode rs i p"
  by (simp add: union_mode_def reads_at_def writes_at_def)

lemma union_mode_Some_touched:
  "union_mode rs a p = Some m \<Longrightarrow> \<exists>r\<in>set rs. ar_allocation_id r = a \<and> covers r p"
  by (auto simp: union_mode_def reads_at_def writes_at_def touched_def split: if_splits)

definition ranges_wf :: "access_range list \<Rightarrow> bool" where
  "ranges_wf rs \<longleftrightarrow> (\<forall>r\<in>set rs. range_wf r \<and> ar_mode r \<noteq> Mode_out_of_range)"

lemma normalize_layout_spec:
  assumes rs: "ranges_wf ranges"
    and out: "\<forall>r\<in>set out. range_wf r" "sorted_wrt range_before out"
    and al: "\<forall>r\<in>set out. ar_allocation_id r < al_id l"
  shows "(\<forall>r\<in>set (normalize_layout ranges l out). range_wf r \<and> ar_allocation_id r \<le> al_id l) \<and>
    sorted_wrt range_before (normalize_layout ranges l out) \<and>
    (touched (normalize_layout ranges l out) a p m \<longleftrightarrow>
       touched out a p m \<or> (a = al_id l \<and> union_mode ranges a p = Some m))"
proof -
  let ?i = "al_id l"
  let ?rs = "filter (\<lambda>r. ar_allocation_id r = ?i) ranges"
  let ?bs = "remdups_adj (sort (concat (map (\<lambda>r. [ar_offset_bytes r, range_end r]) ?rs)))"
  have al': "\<forall>r\<in>set out. ar_allocation_id r \<le> ?i" using al by auto
  show ?thesis
  proof (cases "?rs = []")
    case True
    then have "\<And>p m. \<not> touched ranges ?i p m"
      by (auto simp: touched_def filter_empty_conv)
    then have "union_mode ranges ?i p = None"
      by (simp add: union_mode_def reads_at_def writes_at_def)
    with True show ?thesis using out al' by (auto simp: normalize_layout_def)
  next
    case False
    then have eq: "normalize_layout ranges l out = sweep_boundaries ?i ?rs ?bs out"
      unfolding normalize_layout_def Let_def by (simp only: False if_False)
    have so: "sorted_wrt (<) ?bs" by (rule sorted_remdups_adj_strict) simp
    have ends: "\<forall>r\<in>set ?rs. ar_offset_bytes r \<in> set ?bs \<and> range_end r \<in> set ?bs" by auto
    have wf: "\<forall>r\<in>set ?rs. range_wf r \<and> ar_mode r \<noteq> Mode_out_of_range \<and> ar_allocation_id r = ?i"
      using rs by (auto simp: ranges_wf_def)
    have eb: "?bs \<noteq> [] \<longrightarrow> ends_by out ?i (unat (hd ?bs))" using al by (auto simp: ends_by_def)
    have "(\<exists>(b, e)\<in>set (zip ?bs (tl ?bs)). unat b \<le> p \<and> p < unat e \<and>
        elementary_mode ?rs b e = Some m) \<longleftrightarrow> union_mode ranges ?i p = Some m" (is "?L \<longleftrightarrow> ?R")
    proof
      assume ?L
      then obtain b e where be: "(b, e) \<in> set (zip ?bs (tl ?bs))" "unat b \<le> p" "p < unat e"
        and m: "elementary_mode ?rs b e = Some m" by auto
      show ?R using elementary_mode_union [OF wf so be(1) ends be(2,3)] m by simp
    next
      assume R: ?R
      then obtain r where r: "r \<in> set ?rs" "covers r p"
        using union_mode_Some_touched [of ranges ?i p m] by auto
      have "range_wf r" using wf r(1) by blast
      then have p: "unat (ar_offset_bytes r) \<le> p" "p < unat (range_end r)"
        using r(2) by (simp_all add: covers_def)
      have e: "ar_offset_bytes r \<in> set ?bs" "range_end r \<in> set ?bs" using ends r(1) by blast+
      have "\<exists>(b, e)\<in>set (zip ?bs (tl ?bs)). unat b \<le> p \<and> p < unat e"
        by (rule consecutive_exists [OF so e p])
      then obtain b e where be: "(b, e) \<in> set (zip ?bs (tl ?bs))" "unat b \<le> p" "p < unat e"
        by auto
      have "elementary_mode ?rs b e = Some m"
        using elementary_mode_union [OF wf so be(1) ends be(2,3)] R by simp
      then show ?L using be by auto
    qed
    then show ?thesis
      unfolding eq using sweep_boundaries_spec [OF so out eb al', of ?rs a p m] by auto
  qed
qed

definition layouts_sorted :: "allocation_layout list \<Rightarrow> bool" where
  "layouts_sorted ls \<longleftrightarrow> sorted_wrt (\<lambda>k l. al_id k < al_id l) ls"

lemma normalize_fold_spec:
  assumes "ranges_wf ranges" and "layouts_sorted ls"
    and "\<forall>r\<in>set out. range_wf r" and "sorted_wrt range_before out"
    and "\<forall>r\<in>set out. \<forall>l\<in>set ls. ar_allocation_id r < al_id l"
  shows "(\<forall>r\<in>set (fold (normalize_layout ranges) ls out). range_wf r) \<and>
    sorted_wrt range_before (fold (normalize_layout ranges) ls out) \<and>
    (touched (fold (normalize_layout ranges) ls out) a p m \<longleftrightarrow>
       touched out a p m \<or> (a \<in> al_id ` set ls \<and> union_mode ranges a p = Some m))"
  using assms
proof (induction ls arbitrary: out)
  case (Cons l ls)
  have al: "\<forall>r\<in>set out. ar_allocation_id r < al_id l" using Cons.prems(5) by simp
  note spec = normalize_layout_spec [OF Cons.prems(1,3,4) al]
  have "\<forall>r\<in>set (normalize_layout ranges l out). \<forall>k\<in>set ls. ar_allocation_id r < al_id k"
    using spec Cons.prems(2) by (fastforce simp: layouts_sorted_def)
  moreover have "layouts_sorted ls" using Cons.prems(2) by (simp add: layouts_sorted_def)
  ultimately show ?case
    using Cons.IH [of "normalize_layout ranges l out"] Cons.prems(1) spec by auto
qed simp

theorem normalize_ranges_spec:
  assumes "ranges_wf ranges" and "layouts_sorted ls"
  shows "(\<forall>r\<in>set (normalize_ranges ls ranges). range_wf r)"
    and "sorted_wrt range_before (normalize_ranges ls ranges)"
    and "touched (normalize_ranges ls ranges) a p m \<longleftrightarrow>
       a \<in> al_id ` set ls \<and> union_mode ranges a p = Some m"
  using normalize_fold_spec [OF assms, of "[]"] by (simp_all add: normalize_ranges_def)

section \<open>Input checks\<close>

definition layout_ok :: "allocation_layout \<Rightarrow> bool" where
  "layout_ok l \<longleftrightarrow> allocation_id_valid (al_id l) \<and> al_size_bytes l \<noteq> 0"

lemma check_layouts_None:
  "sorted (map al_id ls) \<Longrightarrow> check_layouts previous ls = None \<longleftrightarrow>
     (\<forall>l\<in>set ls. layout_ok l) \<and> distinct (map al_id ls) \<and>
     (ls \<noteq> [] \<longrightarrow> previous \<noteq> Some (al_id (hd ls)))"
proof (induction previous ls rule: check_layouts.induct)
  case (2 previous l ls)
  have "al_id l \<notin> al_id ` set ls \<longleftrightarrow> (ls \<noteq> [] \<longrightarrow> al_id l \<noteq> al_id (hd ls))"
    if "distinct (map al_id ls)"
    using "2.prems" by (cases ls) (auto simp: order.antisym)
  then show ?case using 2 by (auto simp: layout_ok_def)
qed simp

lemma sort_layouts_facts:
  "set (sort_layouts ls) = set ls" "sorted (map al_id (sort_layouts ls))"
  "distinct (map al_id (sort_layouts ls)) \<longleftrightarrow> distinct (map al_id ls)"
proof -
  have "mset (map al_id (sort_layouts ls)) = mset (map al_id ls)"
    by (simp add: sort_layouts_def)
  then show "distinct (map al_id (sort_layouts ls)) \<longleftrightarrow> distinct (map al_id ls)"
    by (rule mset_eq_imp_distinct_iff)
qed (simp_all add: sort_layouts_def)

lemma check_layouts_sorted:
  "check_layouts None (sort_layouts ls) = None \<longleftrightarrow>
     (\<forall>l\<in>set ls. layout_ok l) \<and> distinct (map al_id ls)"
  by (simp add: check_layouts_None sort_layouts_facts)

lemma layouts_sorted_sort:
  assumes "distinct (map al_id ls)"
  shows "layouts_sorted (sort_layouts ls)"
proof -
  have "sorted_wrt (<) (map al_id (sort_layouts ls))"
    using assms by (simp add: strict_sorted_iff sort_layouts_facts)
  then show ?thesis by (simp add: layouts_sorted_def sorted_wrt_map)
qed

lemma lower_bound_found:
  assumes "layouts_sorted ls" and "l \<in> set ls"
  shows "layout_lower_bound ls (al_id l) = Some l"
  using assms
proof (induction ls)
  case (Cons k ls)
  then show ?case
    by (auto simp: layout_lower_bound_def layouts_sorted_def)
qed simp

lemma lower_bound_Some:
  "layout_lower_bound ls i = Some l \<Longrightarrow> l \<in> set ls"
  unfolding layout_lower_bound_def by (drule find_Some_iff_first) simp

definition range_in_layout :: "allocation_layout list \<Rightarrow> access_range \<Rightarrow> bool" where
  "range_in_layout ls r \<longleftrightarrow> ar_mode r \<noteq> Mode_out_of_range \<and> ar_length_bytes r \<noteq> 0 \<and>
     (\<exists>l\<in>set ls. al_id l = ar_allocation_id r \<and>
        unat (ar_offset_bytes r) + unat (ar_length_bytes r) \<le> unat (al_size_bytes l))"

lemma mode_bits_None [simp]: "mode_bits m = None \<longleftrightarrow> m = Mode_out_of_range"
  by (cases m) auto

lemma check_ranges_Cons_None:
  assumes "layouts_sorted ls"
  shows "check_ranges ls n (r # rs) = None \<longleftrightarrow>
    range_in_layout ls r \<and> check_ranges ls (Suc n) rs = None"
proof (cases "\<exists>l\<in>set ls. al_id l = ar_allocation_id r")
  case True
  then obtain l where l: "l \<in> set ls" "al_id l = ar_allocation_id r" by auto
  then have lb: "layout_lower_bound ls (ar_allocation_id r) = Some l"
    using lower_bound_found [OF assms l(1)] by simp
  have uniq: "\<And>k. k \<in> set ls \<Longrightarrow> al_id k = ar_allocation_id r \<Longrightarrow> k = l"
    using lower_bound_found [OF assms] lb by fastforce
  let ?o = "unat (ar_offset_bytes r)" and ?n = "unat (ar_length_bytes r)"
  have fits: "\<not> ar_length_bytes r > max_u64 - ar_offset_bytes r \<and>
      \<not> (ar_offset_bytes r \<ge> al_size_bytes l \<or> ar_offset_bytes r + ar_length_bytes r > al_size_bytes l)
      \<longleftrightarrow> ?o + ?n \<le> unat (al_size_bytes l)" (is "?F \<longleftrightarrow> ?G") if "ar_length_bytes r \<noteq> 0"
  proof (cases "?o + ?n < 18446744073709551616")
    case True
    then have "unat (ar_offset_bytes r + ar_length_bytes r) = ?o + ?n" by (rule unat_add_u64)
    moreover have "\<not> ar_length_bytes r > max_u64 - ar_offset_bytes r"
      using True by (simp add: gt_max_minus_iff)
    ultimately show ?thesis using that
      by (auto simp: word_le_nat_alt word_less_nat_alt unat_gt_0_iff [symmetric])
  next
    case False
    then have "\<not> ?F" by (simp add: gt_max_minus_iff)
    moreover have "\<not> ?G" using False unat_u64_bound [of "al_size_bytes l"] by linarith
    ultimately show ?thesis by blast
  qed
  have "range_in_layout ls r \<longleftrightarrow>
      ar_mode r \<noteq> Mode_out_of_range \<and> ar_length_bytes r \<noteq> 0 \<and> ?o + ?n \<le> unat (al_size_bytes l)"
    unfolding range_in_layout_def using l uniq by blast
  moreover have "check_ranges ls n (r # rs) = None \<longleftrightarrow>
      ar_mode r \<noteq> Mode_out_of_range \<and> ar_length_bytes r \<noteq> 0 \<and>
      \<not> ar_length_bytes r > max_u64 - ar_offset_bytes r \<and>
      \<not> (ar_offset_bytes r \<ge> al_size_bytes l \<or> ar_offset_bytes r + ar_length_bytes r > al_size_bytes l)
      \<and> check_ranges ls (Suc n) rs = None"
    by (simp add: lb l(2) Let_def)
  ultimately show ?thesis using fits by blast
next
  case False
  then show ?thesis
    by (auto simp: range_in_layout_def split: option.splits dest: lower_bound_Some)
qed

lemma check_ranges_None:
  "layouts_sorted ls \<Longrightarrow>
     check_ranges ls n rs = None \<longleftrightarrow> (\<forall>r\<in>set rs. range_in_layout ls r)"
  by (induction rs arbitrary: n) (simp_all add: check_ranges_Cons_None del: check_ranges.simps(2))

end
