(* ===== verification/Access_Plan_Correct.thy ===== *)
theory Access_Plan_Correct
  imports Access_Plan
begin

text \<open>
  The correctness of \<open>normalize_and_split_accesses\<close>: it always returns, it succeeds exactly on
  valid inputs, and on success its ranges and chunk plans touch exactly the bytes the transaction
  declared, each with the union of the declared modes.
\<close>

unbundle bit_operations_syntax

section \<open>What the chunk plans touch\<close>

definition span_covers :: "chunk_access_span \<Rightarrow> nat \<Rightarrow> bool" where
  "span_covers s q \<longleftrightarrow> unat (sp_offset_bytes s) \<le> q \<and>
     q < unat (sp_offset_bytes s) + unat (sp_length_bytes s)"

definition spans_touch :: "chunk_access_span list \<Rightarrow> nat \<Rightarrow> access_mode \<Rightarrow> bool" where
  "spans_touch ss q m \<longleftrightarrow> (\<exists>s\<in>set ss. span_covers s q \<and> sp_mode s = m)"

definition chunk_touched ::
    "chunk_access_plan list \<Rightarrow> chunk_key \<Rightarrow> nat \<Rightarrow> access_mode \<Rightarrow> bool" where
  "chunk_touched cs key q m \<longleftrightarrow> (\<exists>c\<in>set cs. cp_key c = key \<and> spans_touch (cp_spans c) q m)"

lemma spans_touch_append [simp]:
  "spans_touch (xs @ ys) q m \<longleftrightarrow> spans_touch xs q m \<or> spans_touch ys q m"
  by (auto simp: spans_touch_def)

lemma spans_touch_Cons [simp]:
  "spans_touch (s # ss) q m \<longleftrightarrow> (span_covers s q \<and> sp_mode s = m) \<or> spans_touch ss q m"
  by (auto simp: spans_touch_def)

lemma spans_touch_Nil [simp]: "\<not> spans_touch [] q m"
  by (simp add: spans_touch_def)

lemma chunk_touched_append [simp]:
  "chunk_touched (xs @ ys) key q m \<longleftrightarrow> chunk_touched xs key q m \<or> chunk_touched ys key q m"
  by (auto simp: chunk_touched_def)

lemma chunk_touched_Cons [simp]:
  "chunk_touched (c # cs) key q m \<longleftrightarrow>
     (cp_key c = key \<and> spans_touch (cp_spans c) q m) \<or> chunk_touched cs key q m"
  by (auto simp: chunk_touched_def)

lemma chunk_touched_Nil [simp]: "\<not> chunk_touched [] key q m"
  by (simp add: chunk_touched_def)

definition span_before :: "chunk_access_span \<Rightarrow> chunk_access_span \<Rightarrow> bool" where
  "span_before s t \<longleftrightarrow>
     unat (sp_offset_bytes s) + unat (sp_length_bytes s) \<le> unat (sp_offset_bytes t) \<and>
     (sp_mode s = sp_mode t \<longrightarrow>
        unat (sp_offset_bytes s) + unat (sp_length_bytes s) < unat (sp_offset_bytes t))"

definition spans_ok :: "nat \<Rightarrow> chunk_access_span list \<Rightarrow> bool" where
  "spans_ok n ss \<longleftrightarrow> sorted_wrt span_before ss \<and>
     (\<forall>s\<in>set ss. 0 < unat (sp_length_bytes s) \<and>
        unat (sp_offset_bytes s) + unat (sp_length_bytes s) \<le> n)"

lemma spans_ok_mono: "spans_ok n ss \<Longrightarrow> n \<le> k \<Longrightarrow> spans_ok k ss"
  by (fastforce simp: spans_ok_def)

lemma push_span_spec:
  assumes ok: "spans_ok (unat off) ss" and len: "0 < unat len"
    and fits: "unat off + unat len < 18446744073709551616"
  shows "spans_ok (unat off + unat len) (push_span ss off len m) \<and> push_span ss off len m \<noteq> [] \<and>
    (spans_touch (push_span ss off len m) q k \<longleftrightarrow>
       spans_touch ss q k \<or> (k = m \<and> unat off \<le> q \<and> q < unat off + unat len))"
proof (cases "ss \<noteq> [] \<and> sp_mode (last ss) = m \<and>
    sp_offset_bytes (last ss) + sp_length_bytes (last ss) = off")
  case True
  then obtain xs s where ss: "ss = xs @ [s]" by (cases ss rule: rev_cases) auto
  have s: "unat (sp_offset_bytes s) + unat (sp_length_bytes s) \<le> unat off"
    using ok ss by (simp add: spans_ok_def)
  then have "unat (sp_offset_bytes s) + unat (sp_length_bytes s) < 18446744073709551616"
    using unat_u64_bound [of off] by linarith
  then have "unat (sp_offset_bytes s + sp_length_bytes s) =
      unat (sp_offset_bytes s) + unat (sp_length_bytes s)" by (rule unat_add_u64)
  then have off: "unat off = unat (sp_offset_bytes s) + unat (sp_length_bytes s)"
    using True ss by simp
  have sum: "unat (sp_length_bytes s + len) = unat (sp_length_bytes s) + unat len"
    using fits off by (simp add: unat_add_u64)
  have eq: "push_span ss off len m = xs @ [s\<lparr>sp_length_bytes := sp_length_bytes s + len\<rparr>]"
    using True ss by (simp add: push_span_def)
  have m: "sp_mode s = m" using True ss by simp
  have "spans_ok (unat off + unat len) (push_span ss off len m)"
    unfolding eq using ok len sum off unfolding ss
    by (fastforce simp: spans_ok_def sorted_wrt_append span_before_def)
  moreover have "spans_touch (push_span ss off len m) q k \<longleftrightarrow>
      spans_touch ss q k \<or> (k = m \<and> unat off \<le> q \<and> q < unat off + unat len)"
    unfolding eq unfolding ss using sum off m by (auto simp: span_covers_def)
  ultimately show ?thesis by (simp add: eq)
next
  case False
  then have eq: "push_span ss off len m =
      ss @ [\<lparr>sp_offset_bytes = off, sp_length_bytes = len, sp_mode = m\<rparr>]"
    unfolding push_span_def by (simp only: False if_False)
  let ?t = "\<lparr>sp_offset_bytes = off, sp_length_bytes = len, sp_mode = m\<rparr>"
  have "span_before r ?t" if r_in: "r \<in> set ss" for r
  proof -
    obtain xs s where ss: "ss = xs @ [s]" using r_in by (cases ss rule: rev_cases) auto
    have s: "0 < unat (sp_length_bytes s)"
      "unat (sp_offset_bytes s) + unat (sp_length_bytes s) \<le> unat off"
      using ok ss by (simp_all add: spans_ok_def)
    then have "unat (sp_offset_bytes s) + unat (sp_length_bytes s) < 18446744073709551616"
      using unat_u64_bound [of off] by linarith
    then have u: "unat (sp_offset_bytes s + sp_length_bytes s) =
        unat (sp_offset_bytes s) + unat (sp_length_bytes s)" by (rule unat_add_u64)
    have "span_before s ?t"
      using s False ss u by (auto simp: span_before_def unat_eq_iff_u64)
    moreover have "span_before r s" if "r \<in> set xs"
      using ok ss that by (simp add: spans_ok_def sorted_wrt_append)
    ultimately show ?thesis using r_in ss s by (auto simp: span_before_def)
  qed
  then have "spans_ok (unat off + unat len) (push_span ss off len m)"
    unfolding eq using ok len by (fastforce simp: spans_ok_def sorted_wrt_append)
  moreover have "spans_touch (push_span ss off len m) q k \<longleftrightarrow>
      spans_touch ss q k \<or> (k = m \<and> unat off \<le> q \<and> q < unat off + unat len)"
    unfolding eq by (auto simp: span_covers_def)
  ultimately show ?thesis by (simp add: eq)
qed

text \<open>
  A chunk plan under construction: its origin and valid size are those of its chunk, its spans lie
  inside and in order, and no requirement flag has been computed yet.
\<close>

definition chunk_plan_ok :: "u64 \<Rightarrow> (allocation_id \<Rightarrow> nat) \<Rightarrow> chunk_access_plan \<Rightarrow> bool" where
  "chunk_plan_ok cb sz c \<longleftrightarrow>
     (let o' = unat (ck_chunk_index (cp_key c)) * unat cb;
          s = sz (ck_allocation_id (cp_key c))
      in unat (cp_allocation_offset_bytes c) = o' \<and> o' < s \<and>
         unat (cp_valid_bytes c) = min (unat cb) (s - o') \<and>
         cp_spans c \<noteq> [] \<and> spans_ok (unat (cp_valid_bytes c)) (cp_spans c))"

definition plan_flags_unset :: "chunk_access_plan \<Rightarrow> bool" where
  "plan_flags_unset c \<longleftrightarrow> \<not> cp_reads_existing_data c \<and> \<not> cp_marks_dirty c"

definition spans_end_by :: "chunk_access_plan \<Rightarrow> nat \<Rightarrow> bool" where
  "spans_end_by c n \<longleftrightarrow> (\<forall>s\<in>set (cp_spans c).
     unat (cp_allocation_offset_bytes c) + unat (sp_offset_bytes s) + unat (sp_length_bytes s) \<le> n)"

definition chunks_inv ::
    "u64 \<Rightarrow> (allocation_id \<Rightarrow> nat) \<Rightarrow> chunk_access_plan list \<Rightarrow> allocation_id \<Rightarrow> nat \<Rightarrow> bool" where
  "chunks_inv cb sz cs i n \<longleftrightarrow>
     sorted_wrt (\<lambda>c d. cp_key c < cp_key d) cs \<and>
     (\<forall>c\<in>set cs. chunk_plan_ok cb sz c \<and> plan_flags_unset c \<and>
        (ck_allocation_id (cp_key c) < i \<or>
         (ck_allocation_id (cp_key c) = i \<and> spans_end_by c n)))"

lemma chunks_inv_advance:
  assumes "chunks_inv cb sz cs i n" and "i < j \<or> (i = j \<and> n \<le> k)"
  shows "chunks_inv cb sz cs j k"
proof -
  have "spans_end_by c n \<Longrightarrow> n \<le> k \<Longrightarrow> spans_end_by c k" for c
    by (fastforce simp: spans_end_by_def)
  then show ?thesis using assms by (auto simp: chunks_inv_def)
qed

lemma chunks_inv_key_le:
  assumes inv: "chunks_inv cb sz cs i n" and c: "c \<in> set cs" and cb: "0 < unat cb"
    and idx: "unat idx = n div unat cb"
  shows "cp_key c \<le> ChunkKey i idx"
proof (cases "ck_allocation_id (cp_key c) < i")
  case True
  then show ?thesis by (simp add: less_eq_chunk_key_def)
next
  case False
  let ?o = "unat (ck_chunk_index (cp_key c)) * unat cb"
  have al: "ck_allocation_id (cp_key c) = i" and e: "spans_end_by c n"
    and ok: "chunk_plan_ok cb sz c"
    using inv c False by (auto simp: chunks_inv_def)
  then have "cp_spans c \<noteq> []" by (simp add: chunk_plan_ok_def Let_def)
  then have "unat (cp_allocation_offset_bytes c) \<le> n"
    using e by (cases "cp_spans c") (auto simp: spans_end_by_def)
  then have "?o \<le> n" using ok by (simp add: chunk_plan_ok_def Let_def)
  then have "unat (ck_chunk_index (cp_key c)) \<le> n div unat cb"
    using cb by (simp add: less_eq_div_iff_mult_less_eq)
  then show ?thesis using al idx by (simp add: less_eq_chunk_key_def word_le_nat_alt)
qed

lemma chunks_inv_keys_less:
  assumes inv: "chunks_inv cb sz cs i n" and cb: "0 < unat cb" and idx: "unat idx = n div unat cb"
    and last: "cs \<noteq> [] \<longrightarrow> cp_key (last cs) \<noteq> ChunkKey i idx"
  shows "\<forall>c\<in>set cs. cp_key c < ChunkKey i idx"
proof
  fix c assume c: "c \<in> set cs"
  then obtain ds d where cs: "cs = ds @ [d]" by (cases cs rule: rev_cases) auto
  have "cp_key d < ChunkKey i idx"
    using chunks_inv_key_le [OF inv _ cb idx, of d] last cs by (simp add: order.strict_iff_order)
  moreover have "cp_key c \<le> cp_key d"
    using inv c cs by (auto simp: chunks_inv_def sorted_wrt_append)
  ultimately show "cp_key c < ChunkKey i idx" by (rule order.strict_trans1 [rotated])
qed

lemma append_chunk_span_spec:
  fixes m :: access_mode
  assumes inv: "chunks_inv cb sz cs i n" and cb: "0 < unat cb"
    and idx: "unat idx = n div unat cb" and origin: "unat origin = n div unat cb * unat cb"
    and off: "unat off = n mod unat cb" and len: "0 < unat len"
    and valid: "unat valid = min (unat cb) (sz i - unat origin)"
    and fits: "unat off + unat len \<le> unat valid"
  defines "cs' \<equiv> append_chunk_span cs (ChunkKey i idx) origin valid off len m"
  shows "chunks_inv cb sz cs' i (n + unat len) \<and>
    (chunk_touched cs' key q k \<longleftrightarrow> chunk_touched cs key q k \<or>
       (key = ChunkKey i idx \<and> k = m \<and> unat off \<le> q \<and> q < unat off + unat len))"
proof -
  let ?key = "ChunkKey i idx"
  have fits64: "unat off + unat len < 18446744073709551616"
    using fits unat_u64_bound [of valid] by linarith
  have n: "n = unat origin + unat off" using origin off by simp
  have below: "unat origin < sz i" using fits len valid by (auto simp: min_def split: if_splits)
  let ?ext = "if cs = [] \<or> cp_key (last cs) \<noteq> ?key
      then cs @ [new_chunk_plan ?key origin valid] else cs"
  have "?ext \<noteq> []" by simp
  then obtain ds d where split: "?ext = ds @ [d]" by (metis rev_exhaust)
  have cs': "cs' = ds @ [d\<lparr>cp_spans := push_span (cp_spans d) off len m\<rparr>]"
    unfolding cs'_def append_chunk_span_def Let_def split by simp
  have facts: "cp_key d = ?key \<and> (\<forall>c\<in>set ds. cp_key c < ?key) \<and> chunks_inv cb sz ds i n \<and>
      unat (cp_allocation_offset_bytes d) = unat origin \<and> unat (cp_valid_bytes d) = unat valid \<and>
      plan_flags_unset d \<and> spans_ok (unat off) (cp_spans d) \<and>
      (chunk_touched (ds @ [d]) key q k \<longleftrightarrow> chunk_touched cs key q k)"
  proof (cases "cs = [] \<or> cp_key (last cs) \<noteq> ?key")
    case True
    then have d: "ds = cs" "d = new_chunk_plan ?key origin valid" using split by auto
    have "\<forall>c\<in>set cs. cp_key c < ?key"
      by (rule chunks_inv_keys_less [OF inv cb idx]) (use True in auto)
    then show ?thesis using inv d
      by (auto simp: new_chunk_plan_def plan_flags_unset_def spans_ok_def)
  next
    case False
    then have cs: "cs = ds @ [d]" using split by simp
    have key: "cp_key d = ?key" using False cs by simp
    have d: "chunk_plan_ok cb sz d" "plan_flags_unset d" "spans_end_by d n"
      using inv key by (auto simp: cs chunks_inv_def)
    have o': "unat (cp_allocation_offset_bytes d) = unat origin"
      using d(1) key idx origin by (simp add: chunk_plan_ok_def Let_def)
    have v: "unat (cp_valid_bytes d) = unat valid"
      using d(1) key idx origin valid by (simp add: chunk_plan_ok_def Let_def)
    have "spans_ok (unat off) (cp_spans d)"
      using d(1,3) o' n by (auto simp: spans_ok_def spans_end_by_def chunk_plan_ok_def Let_def)
    then show ?thesis using inv d key o' v
      by (auto simp: cs chunks_inv_def sorted_wrt_append)
  qed
  note push = push_span_spec [of off "cp_spans d" len m q k]
  have ok: "spans_ok (unat off + unat len) (push_span (cp_spans d) off len m)"
    and ne: "push_span (cp_spans d) off len m \<noteq> []"
    and t: "spans_touch (push_span (cp_spans d) off len m) q k \<longleftrightarrow>
       spans_touch (cp_spans d) q k \<or> (k = m \<and> unat off \<le> q \<and> q < unat off + unat len)"
    using push facts len fits64 by auto
  have "chunk_plan_ok cb sz (d\<lparr>cp_spans := push_span (cp_spans d) off len m\<rparr>)"
    using facts ok ne fits idx origin valid below spans_ok_mono [OF ok]
    by (auto simp: chunk_plan_ok_def Let_def)
  moreover have "spans_end_by (d\<lparr>cp_spans := push_span (cp_spans d) off len m\<rparr>) (n + unat len)"
    using ok facts n by (fastforce simp: spans_end_by_def spans_ok_def)
  moreover have "chunks_inv cb sz ds i (n + unat len)"
    using facts chunks_inv_advance by auto
  ultimately have "chunks_inv cb sz cs' i (n + unat len)"
    unfolding cs' using facts
    by (auto simp: chunks_inv_def sorted_wrt_append plan_flags_unset_def)
  moreover have "chunk_touched cs' key q k \<longleftrightarrow> chunk_touched cs key q k \<or>
      (key = ?key \<and> k = m \<and> unat off \<le> q \<and> q < unat off + unat len)"
    unfolding cs' using facts t by auto
  ultimately show ?thesis ..
qed

lemma chunk_position_split:
  fixes C x y r q idx :: nat
  assumes "0 < C" "q < C" "y \<le> r" "x + y \<le> x div C * C + C"
  shows "x \<le> idx * C + q \<and> idx * C + q < x + r \<longleftrightarrow>
    (idx = x div C \<and> x mod C \<le> q \<and> q < x mod C + y) \<or>
    (x + y \<le> idx * C + q \<and> idx * C + q < x + r)"
proof -
  have idx: "(idx * C + q) div C = idx" "(idx * C + q) mod C = q" using assms by auto
  have x: "x = x div C * C + x mod C" by simp
  have "idx = x div C" if "x \<le> idx * C + q" "idx * C + q < x + y"
  proof -
    have "x div C \<le> idx" using div_le_mono [OF that(1), of C] idx by simp
    moreover have "idx * C < (x div C + 1) * C" using that(2) assms(4) by simp
    then have "idx < x div C + 1" by (rule mult_less_cancel2 [THEN iffD1, THEN conjunct2])
    ultimately show ?thesis by simp
  qed
  note here = this
  show ?thesis
  proof (cases "idx = x div C")
    case True
    then have "idx * C + x mod C = x" by simp
    then show ?thesis using True assms(3) by linarith
  next
    case False
    then have "\<not> (x \<le> idx * C + q \<and> idx * C + q < x + y)" using here by blast
    then show ?thesis using False assms(3) by linarith
  qed
qed

lemma split_range_spec:
  assumes cb: "0 < unat cb" and fits: "unat cursor + unat remaining \<le> unat sb"
    and sz: "sz i = unat sb" and inv: "chunks_inv cb sz cs i (unat cursor)"
  shows "\<exists>cs'. split_range cb sb i m cursor remaining cs = Some cs' \<and>
    chunks_inv cb sz cs' i (unat cursor + unat remaining) \<and>
    (\<forall>key q k. q < unat cb \<longrightarrow> (chunk_touched cs' key q k \<longleftrightarrow> chunk_touched cs key q k \<or>
       (ck_allocation_id key = i \<and> k = m \<and>
        unat cursor \<le> unat (ck_chunk_index key) * unat cb + q \<and>
        unat (ck_chunk_index key) * unat cb + q < unat cursor + unat remaining)))"
  using fits inv
proof (induction "unat remaining" arbitrary: cursor remaining cs rule: less_induct)
  case less
  show ?case
  proof (cases "remaining = 0")
    case True
    then show ?thesis using less.prems by (auto simp: split_range.simps [of _ _ _ _ _ 0])
  next
    case False
    let ?C = "unat cb" and ?x = "unat cursor"
    define idx where "idx = cursor div cb"
    define origin where "origin = idx * cb"
    define valid where "valid = min cb (sb - origin)"
    define off where "off = cursor - origin"
    define len where "len = min remaining (valid - off)"
    define cs1 where "cs1 = append_chunk_span cs (ChunkKey i idx) origin valid off len m"
    have R: "0 < unat remaining" using False by (simp add: unat_gt_0_iff)
    have i: "unat idx = ?x div ?C" by (simp add: idx_def unat_div)
    have o': "unat origin = ?x div ?C * ?C" by (simp add: origin_def idx_def unat_div_mult)
    have split: "?x div ?C * ?C + ?x mod ?C = ?x" by simp
    have below: "?x < unat sb" using less.prems(1) R by linarith
    have ole: "unat origin \<le> ?x" using o' split by linarith
    have f: "unat off = ?x mod ?C"
      using unat_sub_u64 [OF ole] o' split unfolding off_def by linarith
    have v: "unat valid = min ?C (unat sb - unat origin)"
      using ole below by (simp add: valid_def unat_min unat_sub_u64)
    have fl: "?x mod ?C < unat valid"
    proof -
      have "?x mod ?C < unat sb - ?x div ?C * ?C" using below split by linarith
      moreover have "?x mod ?C < ?C" using cb by simp
      ultimately show ?thesis using v o' by simp
    qed
    have l: "unat len = min (unat remaining) (unat valid - unat off)"
      using f fl by (simp add: len_def unat_min unat_sub_u64)
    have lpos: "0 < unat len" using l R f fl by simp
    have lfit: "unat off + unat len \<le> unat valid" using l f fl by linarith
    have llr: "unat len \<le> unat remaining" using l by simp
    have nov: "?x + unat len < 18446744073709551616"
      using less.prems(1) llr unat_u64_bound [of sb] by linarith
    have c': "unat (cursor + len) = ?x + unat len" using nov by (rule unat_add_u64)
    have r': "unat (remaining - len) = unat remaining - unat len" using llr by (rule unat_sub_u64)
    have vi: "unat valid = min ?C (sz i - unat origin)" using v sz by simp
    have step: "chunks_inv cb sz cs1 i (?x + unat len) \<and>
        (chunk_touched cs1 key q k \<longleftrightarrow> chunk_touched cs key q k \<or>
          (key = ChunkKey i idx \<and> k = m \<and> unat off \<le> q \<and> q < unat off + unat len))" for key q k
      unfolding cs1_def by (rule append_chunk_span_spec [OF less.prems(2) cb i o' f lpos vi lfit])
    have less': "unat (remaining - len) < unat remaining" using r' lpos llr R by linarith
    have "unat (cursor + len) + unat (remaining - len) \<le> unat sb"
      using less.prems(1) c' r' llr by linarith
    moreover have "chunks_inv cb sz cs1 i (unat (cursor + len))" using step c' by simp
    ultimately obtain cs' where cs':
      "split_range cb sb i m (cursor + len) (remaining - len) cs1 = Some cs'"
      "chunks_inv cb sz cs' i (unat (cursor + len) + unat (remaining - len))"
      and t: "\<And>key q k. q < ?C \<Longrightarrow> chunk_touched cs' key q k \<longleftrightarrow> chunk_touched cs1 key q k \<or>
        (ck_allocation_id key = i \<and> k = m \<and>
         unat (cursor + len) \<le> unat (ck_chunk_index key) * ?C + q \<and>
         unat (ck_chunk_index key) * ?C + q < unat (cursor + len) + unat (remaining - len))"
      using less.hyps [OF less'] by blast
    have eq: "split_range cb sb i m cursor remaining cs = Some cs'"
      using False cs'(1)
      by (subst split_range.simps)
        (simp add: Let_def idx_def origin_def valid_def off_def len_def cs1_def)
    have total: "unat (cursor + len) + unat (remaining - len) = ?x + unat remaining"
      using c' r' llr by linarith
    have room: "?x + unat len \<le> ?x div ?C * ?C + ?C"
      using lfit f v split by linarith
    have "chunk_touched cs' key q k \<longleftrightarrow> chunk_touched cs key q k \<or>
       (ck_allocation_id key = i \<and> k = m \<and> ?x \<le> unat (ck_chunk_index key) * ?C + q \<and>
        unat (ck_chunk_index key) * ?C + q < ?x + unat remaining)" if q: "q < ?C" for key q k
    proof -
      have "key = ChunkKey i idx \<longleftrightarrow>
          ck_allocation_id key = i \<and> unat (ck_chunk_index key) = ?x div ?C"
        using i by (cases key) (auto simp: unat_eq_iff_u64)
      then show ?thesis
        using t [OF q, of key k] step [of key q k] total c' f
          chunk_position_split [OF cb q llr room, of "unat (ck_chunk_index key)"] by auto
    qed
    then show ?thesis using eq cs'(2) total by auto
  qed
qed

definition size_of :: "allocation_layout list \<Rightarrow> allocation_id \<Rightarrow> nat" where
  "size_of ls i = (case layout_lower_bound ls i of None \<Rightarrow> 0 | Some l \<Rightarrow> unat (al_size_bytes l))"

lemma split_ranges_spec:
  assumes cb: "0 < unat cb" and so: "layouts_sorted ls"
    and "\<forall>r\<in>set rs. range_wf r \<and> range_in_layout ls r" and "sorted_wrt range_before rs"
    and "chunks_inv cb (size_of ls) cs i n"
    and "rs \<noteq> [] \<longrightarrow> i < ar_allocation_id (hd rs) \<or>
       (i = ar_allocation_id (hd rs) \<and> n \<le> unat (ar_offset_bytes (hd rs)))"
  shows "\<exists>cs' j k. split_ranges ls cb rs cs = Some cs' \<and> chunks_inv cb (size_of ls) cs' j k \<and>
    (\<forall>a idx q m. q < unat cb \<longrightarrow> (chunk_touched cs' (ChunkKey a idx) q m \<longleftrightarrow>
       chunk_touched cs (ChunkKey a idx) q m \<or> touched rs a (unat idx * unat cb + q) m))"
  using assms(3-6)
proof (induction rs arbitrary: cs i n)
  case Nil
  then show ?case by auto
next
  case (Cons r rs)
  let ?i = "ar_allocation_id r" and ?o = "unat (ar_offset_bytes r)" and ?n = "unat (ar_length_bytes r)"
  obtain l where l: "l \<in> set ls" "al_id l = ?i" "?o + ?n \<le> unat (al_size_bytes l)"
    using Cons.prems(1) by (auto simp: range_in_layout_def)
  have lb: "layout_lower_bound ls ?i = Some l"
    using lower_bound_found [OF so l(1)] l(2) by simp
  have sz: "size_of ls ?i = unat (al_size_bytes l)" by (simp add: size_of_def lb)
  have inv: "chunks_inv cb (size_of ls) cs ?i ?o"
    using chunks_inv_advance [OF Cons.prems(3)] Cons.prems(4) by simp
  obtain cs1 where cs1: "split_range cb (al_size_bytes l) ?i (ar_mode r) (ar_offset_bytes r)
      (ar_length_bytes r) cs = Some cs1" "chunks_inv cb (size_of ls) cs1 ?i (?o + ?n)"
    and t1: "\<And>key q k. q < unat cb \<Longrightarrow> chunk_touched cs1 key q k \<longleftrightarrow> chunk_touched cs key q k \<or>
       (ck_allocation_id key = ?i \<and> k = ar_mode r \<and> ?o \<le> unat (ck_chunk_index key) * unat cb + q \<and>
        unat (ck_chunk_index key) * unat cb + q < ?o + ?n)"
    using split_range_spec [of cb "ar_offset_bytes r" "ar_length_bytes r" "al_size_bytes l"
        "size_of ls" ?i cs "ar_mode r"] cb l(3) sz inv by blast
  have next': "rs \<noteq> [] \<longrightarrow> ?i < ar_allocation_id (hd rs) \<or>
      (?i = ar_allocation_id (hd rs) \<and> ?o + ?n \<le> unat (ar_offset_bytes (hd rs)))"
    using Cons.prems(2) by (cases rs) (auto simp: range_before_def)
  obtain cs' j k where cs': "split_ranges ls cb rs cs1 = Some cs'" "chunks_inv cb (size_of ls) cs' j k"
    and t2: "\<And>a idx q m. q < unat cb \<Longrightarrow> chunk_touched cs' (ChunkKey a idx) q m \<longleftrightarrow>
       chunk_touched cs1 (ChunkKey a idx) q m \<or> touched rs a (unat idx * unat cb + q) m"
    using Cons.IH [OF _ _ cs1(2) next'] Cons.prems(1,2) by auto
  have "split_ranges ls cb (r # rs) cs = Some cs'" by (simp add: lb cs1(1) cs'(1))
  then show ?case using cs'(2) t2 t1
    by (intro exI conjI) (auto simp: touched_Cons covers_def)
qed

section \<open>The contract of the normaliser\<close>

definition accesses_valid :: "allocation_layout list \<Rightarrow> access_range list \<Rightarrow> u64 \<Rightarrow> bool" where
  "accesses_valid ls rs cb \<longleftrightarrow> cb \<noteq> 0 \<and> (\<forall>l\<in>set ls. layout_ok l) \<and> distinct (map al_id ls) \<and>
     (\<forall>r\<in>set rs. range_in_layout ls r)"

lemma range_in_layout_sort [simp]: "range_in_layout (sort_layouts ls) r = range_in_layout ls r"
  by (simp add: range_in_layout_def sort_layouts_facts)

lemma range_in_layout_wf: "range_in_layout ls r \<Longrightarrow> range_wf r"
proof -
  assume "range_in_layout ls r"
  then have "ar_length_bytes r \<noteq> 0 \<and>
    (\<exists>l :: allocation_layout. unat (ar_offset_bytes r) + unat (ar_length_bytes r) \<le> unat (al_size_bytes l))"
    unfolding range_in_layout_def by blast
  then obtain l :: allocation_layout where "ar_length_bytes r \<noteq> 0"
    "unat (ar_offset_bytes r) + unat (ar_length_bytes r) \<le> unat (al_size_bytes l)" by blast
  then show ?thesis using unat_u64_bound [of "al_size_bytes l"]
    by (simp add: range_wf_def unat_gt_0_iff)
qed

lemma normalized_in_layout:
  assumes "ranges_wf rs" and "layouts_sorted ls" and "\<forall>r\<in>set rs. range_in_layout ls r"
    and r: "r \<in> set (normalize_ranges ls rs)"
  shows "range_in_layout ls r"
proof -
  note spec = normalize_ranges_spec [OF assms(1,2)]
  have wf: "range_wf r" using spec(1) r by blast
  let ?i = "ar_allocation_id r" and ?last = "unat (ar_offset_bytes r) + unat (ar_length_bytes r) - 1"
  have "covers r ?last" using wf by (auto simp: covers_def range_wf_def)
  then have t: "touched (normalize_ranges ls rs) ?i ?last (ar_mode r)"
    using r by (auto simp: touched_def)
  then have u: "union_mode rs ?i ?last = Some (ar_mode r)" using spec(3) by simp
  then obtain s where s: "s \<in> set rs" "ar_allocation_id s = ?i" "covers s ?last"
    using union_mode_Some_touched by blast
  then obtain l where l: "l \<in> set ls" "al_id l = ?i"
    "unat (ar_offset_bytes s) + unat (ar_length_bytes s) \<le> unat (al_size_bytes l)"
    using assms(3) by (auto simp: range_in_layout_def)
  have "unat (ar_offset_bytes r) + unat (ar_length_bytes r) \<le> unat (al_size_bytes l)"
    using s(3) l(3) unfolding covers_def by linarith
  moreover have "ar_mode r \<noteq> Mode_out_of_range"
    using u by (auto simp: union_mode_def split: if_splits)
  ultimately show ?thesis using l wf
    by (auto simp: range_in_layout_def range_wf_def unat_gt_0_iff)
qed

lemma finalize_chunk_simps [simp]:
  "cp_key (finalize_chunk c) = cp_key c" "cp_spans (finalize_chunk c) = cp_spans c"
  "cp_valid_bytes (finalize_chunk c) = cp_valid_bytes c"
  "cp_allocation_offset_bytes (finalize_chunk c) = cp_allocation_offset_bytes c"
  by (simp_all add: finalize_chunk_def Let_def)

lemma chunk_touched_finalize [simp]:
  "chunk_touched (map finalize_chunk cs) key q m = chunk_touched cs key q m"
  by (auto simp: chunk_touched_def)

lemma chunk_plan_ok_finalize [simp]: "chunk_plan_ok cb sz (finalize_chunk c) = chunk_plan_ok cb sz c"
  by (simp add: chunk_plan_ok_def)

text \<open>The run of the whole function on valid inputs, in the vocabulary of the specification.\<close>

lemma normalize_and_split_valid:
  assumes v: "accesses_valid ls rs cb"
  shows "\<exists>cs i n. normalize_and_split_accesses ls rs cb =
      Some \<lparr>apr_error = Ape_none, apr_input_range_index = None,
            apr_normalized_ranges = normalize_ranges (sort_layouts ls) rs,
            apr_chunks = map finalize_chunk cs\<rparr> \<and>
    chunks_inv cb (size_of (sort_layouts ls)) cs i n \<and>
    (\<forall>a idx q m. chunk_touched cs (ChunkKey a idx) q m \<longleftrightarrow>
       q < unat cb \<and> union_mode rs a (unat idx * unat cb + q) = Some m)"
proof -
  let ?ls = "sort_layouts ls"
  have cb: "0 < unat cb" using v by (simp add: accesses_valid_def unat_gt_0_iff)
  have so: "layouts_sorted ?ls" using v by (simp add: accesses_valid_def layouts_sorted_sort)
  have inl: "\<forall>r\<in>set rs. range_in_layout ?ls r" using v by (simp add: accesses_valid_def)
  have wf: "ranges_wf rs"
    using inl by (auto simp: ranges_wf_def range_in_layout_wf) (auto simp: range_in_layout_def)
  note spec = normalize_ranges_spec [OF wf so]
  have norm: "\<forall>r\<in>set (normalize_ranges ?ls rs). range_wf r \<and> range_in_layout ?ls r"
    using spec(1) normalized_in_layout [OF wf so inl] by blast
  have inv0: "chunks_inv cb (size_of ?ls) [] (AllocationId 0) 0" by (simp add: chunks_inv_def)
  have start: "normalize_ranges ?ls rs \<noteq> [] \<longrightarrow>
      AllocationId 0 < ar_allocation_id (hd (normalize_ranges ?ls rs)) \<or>
      (AllocationId 0 = ar_allocation_id (hd (normalize_ranges ?ls rs)) \<and>
       0 \<le> unat (ar_offset_bytes (hd (normalize_ranges ?ls rs))))"
    by (cases "ar_allocation_id (hd (normalize_ranges ?ls rs))")
      (auto simp: less_allocation_id_def word_neq_0_conv)
  obtain cs j k where cs: "split_ranges ?ls cb (normalize_ranges ?ls rs) [] = Some cs"
    "chunks_inv cb (size_of ?ls) cs j k"
    and t: "\<And>a idx q m. q < unat cb \<Longrightarrow> chunk_touched cs (ChunkKey a idx) q m \<longleftrightarrow>
      touched (normalize_ranges ?ls rs) a (unat idx * unat cb + q) m"
    using split_ranges_spec [OF cb so norm spec(2) inv0 start] by auto
  have layout: "a \<in> al_id ` set ?ls" if "union_mode rs a p = Some m" for a p m
    using union_mode_Some_touched [OF that] inl by (force simp: range_in_layout_def)
  have "chunk_touched cs (ChunkKey a idx) q m \<longleftrightarrow>
       q < unat cb \<and> union_mode rs a (unat idx * unat cb + q) = Some m" for a idx q m
  proof (cases "q < unat cb")
    case True
    then show ?thesis using t spec(3) layout by auto
  next
    case False
    have "\<not> spans_touch (cp_spans c) q m" if "c \<in> set cs" for c
    proof -
      have "spans_ok (unat cb) (cp_spans c)"
        using cs(2) that spans_ok_mono
        by (fastforce simp: chunks_inv_def chunk_plan_ok_def Let_def)
      then show ?thesis using False by (fastforce simp: spans_touch_def span_covers_def spans_ok_def)
    qed
    then show ?thesis using False by (auto simp: chunk_touched_def)
  qed
  moreover have "normalize_and_split_accesses ls rs cb =
      Some \<lparr>apr_error = Ape_none, apr_input_range_index = None,
            apr_normalized_ranges = normalize_ranges ?ls rs, apr_chunks = map finalize_chunk cs\<rparr>"
  proof -
    have "cb \<noteq> 0" "check_layouts None ?ls = None" "check_ranges ?ls 0 rs = None"
      using v so inl by (simp_all add: accesses_valid_def check_layouts_sorted check_ranges_None)
    then show ?thesis using cs(1) by (simp add: normalize_and_split_accesses_def)
  qed
  ultimately show ?thesis using cs(2) by blast
qed

lemma check_layouts_error:
  "check_layouts p ls = Some e \<Longrightarrow> e = Ape_invalid_allocation \<or> e = Ape_duplicate_allocation"
  by (induction p ls rule: check_layouts.induct) (auto split: if_splits)

lemma check_ranges_error: "check_ranges ls n rs = Some (e, i) \<Longrightarrow> e \<noteq> Ape_none"
  by (induction ls n rs rule: check_ranges.induct) (auto split: if_splits option.splits simp: Let_def)

lemma normalize_and_split_invalid:
  assumes "\<not> accesses_valid ls rs cb"
  shows "\<exists>e i. normalize_and_split_accesses ls rs cb = Some (plan_fail e i) \<and> e \<noteq> Ape_none"
proof (cases "cb = 0")
  case True
  then show ?thesis by (auto simp: normalize_and_split_accesses_def)
next
  case False
  show ?thesis
  proof (cases "check_layouts None (sort_layouts ls)")
    case None
    then have so: "layouts_sorted (sort_layouts ls)"
      by (auto simp: check_layouts_sorted layouts_sorted_sort)
    have "check_ranges (sort_layouts ls) 0 rs \<noteq> None"
      using assms False None so by (auto simp: accesses_valid_def check_layouts_sorted check_ranges_None)
    then show ?thesis using False None check_ranges_error
      by (fastforce simp: normalize_and_split_accesses_def Let_def)
  next
    case (Some e)
    then show ?thesis using False check_layouts_error
      by (fastforce simp: normalize_and_split_accesses_def Let_def)
  qed
qed

lemma single_full_span:
  assumes ok: "spans_ok n ss" and n: "0 < n"
  shows "(\<forall>q<n. spans_touch ss q Write_only) \<longleftrightarrow>
    length ss = 1 \<and> unat (sp_offset_bytes (hd ss)) = 0 \<and> unat (sp_length_bytes (hd ss)) = n \<and>
    sp_mode (hd ss) = Write_only" (is "?L \<longleftrightarrow> ?R")
proof
  assume L: ?L
  then have t0: "spans_touch ss 0 Write_only" using n by blast
  then obtain s ts where ss: "ss = s # ts" by (cases ss) auto
  have len: "0 < unat (sp_length_bytes s)" "unat (sp_offset_bytes s) + unat (sp_length_bytes s) \<le> n"
    and after: "\<And>t. t \<in> set ts \<Longrightarrow> span_before s t \<and> 0 < unat (sp_length_bytes t) \<and>
      unat (sp_offset_bytes t) + unat (sp_length_bytes t) \<le> n"
    using ok ss by (auto simp: spans_ok_def)
  have "\<not> span_covers t 0" if "t \<in> set ts" for t
    using after [OF that] len by (auto simp: span_before_def span_covers_def)
  then have "span_covers s 0 \<and> sp_mode s = Write_only"
    using t0 ss unfolding spans_touch_def by auto
  then have s: "unat (sp_offset_bytes s) = 0" "sp_mode s = Write_only"
    by (simp_all add: span_covers_def)
  have full: "unat (sp_length_bytes s) = n"
  proof (rule ccontr)
    assume "unat (sp_length_bytes s) \<noteq> n"
    then have lt: "unat (sp_length_bytes s) < n" using len s by simp
    then have "spans_touch ss (unat (sp_length_bytes s)) Write_only" using L by blast
    then obtain t where t: "t \<in> set ts" "span_covers t (unat (sp_length_bytes s))"
      "sp_mode t = Write_only"
      using ss s by (auto simp: spans_touch_def span_covers_def)
    then show False using after [OF t(1)] s by (auto simp: span_before_def span_covers_def)
  qed
  have "ts = []"
  proof (rule ccontr)
    assume "ts \<noteq> []"
    then have "hd ts \<in> set ts" by simp
    then show False using after [of "hd ts"] full s by (auto simp: span_before_def)
  qed
  then show ?R using ss s full by simp
next
  assume ?R
  then show ?L by (cases ss) (auto simp: span_covers_def)
qed

text \<open>
  C28: The planner always returns: it succeeds exactly on valid layouts, ranges and chunk size, and
  otherwise reports an error with no ranges and no chunks, so that nothing partial is submitted.
\<close>

theorem normalize_and_split_total:
  "case normalize_and_split_accesses ls rs cb of
     None \<Rightarrow> False
   | Some res \<Rightarrow>
       if accesses_valid ls rs cb then apr_error res = Ape_none
       else apr_error res \<noteq> Ape_none \<and> apr_normalized_ranges res = [] \<and> apr_chunks res = []"
proof (cases "accesses_valid ls rs cb")
  case True
  then show ?thesis using normalize_and_split_valid [OF True] by auto
next
  case False
  then show ?thesis using normalize_and_split_invalid [OF False] by (auto simp: plan_fail_def)
qed

text \<open>
  The chunk plans of a successful call, with what the specification says of each of them.
\<close>

lemma normalize_and_split_ok:
  assumes "normalize_and_split_accesses ls rs cb = Some res" and "apr_error res = Ape_none"
  shows "\<exists>cs i n. accesses_valid ls rs cb \<and>
    apr_normalized_ranges res = normalize_ranges (sort_layouts ls) rs \<and>
    apr_chunks res = map finalize_chunk cs \<and>
    chunks_inv cb (size_of (sort_layouts ls)) cs i n \<and>
    (\<forall>a idx q m. chunk_touched cs (ChunkKey a idx) q m \<longleftrightarrow>
       q < unat cb \<and> union_mode rs a (unat idx * unat cb + q) = Some m)"
proof -
  have v: "accesses_valid ls rs cb"
  proof (rule ccontr)
    assume "\<not> accesses_valid ls rs cb"
    from normalize_and_split_invalid [OF this] assms show False by (auto simp: plan_fail_def)
  qed
  obtain cs i n where run: "normalize_and_split_accesses ls rs cb =
      Some \<lparr>apr_error = Ape_none, apr_input_range_index = None,
            apr_normalized_ranges = normalize_ranges (sort_layouts ls) rs,
            apr_chunks = map finalize_chunk cs\<rparr>"
    and cs: "chunks_inv cb (size_of (sort_layouts ls)) cs i n"
      "\<forall>a idx q m. chunk_touched cs (ChunkKey a idx) q m \<longleftrightarrow>
         q < unat cb \<and> union_mode rs a (unat idx * unat cb + q) = Some m"
    using normalize_and_split_valid [OF v] by blast
  then show ?thesis using assms(1) v
    by (intro exI [of _ cs] exI [of _ i] exI [of _ n]) simp
qed

text \<open>
  The normalised ranges of a successful call are sorted and disjoint, and a byte is touched in a mode exactly when
  that mode is the union of the modes of the declared ranges that contain it.
\<close>

theorem normalized_ranges_exact:
  assumes "normalize_and_split_accesses ls rs cb = Some res" and "apr_error res = Ape_none"
  shows "sorted_wrt range_before (apr_normalized_ranges res) \<and>
    (touched (apr_normalized_ranges res) a p m \<longleftrightarrow> union_mode rs a p = Some m)"
proof -
  obtain cs i n where v: "accesses_valid ls rs cb"
    and res: "apr_normalized_ranges res = normalize_ranges (sort_layouts ls) rs"
    using normalize_and_split_ok [OF assms] by blast
  have inl: "\<forall>r\<in>set rs. range_in_layout ls r" using v by (simp add: accesses_valid_def)
  then have wf: "ranges_wf rs"
    by (auto simp: ranges_wf_def range_in_layout_wf) (auto simp: range_in_layout_def)
  have so: "layouts_sorted (sort_layouts ls)"
    using v by (simp add: accesses_valid_def layouts_sorted_sort)
  have "a \<in> al_id ` set ls" if "union_mode rs a p = Some m"
    using union_mode_Some_touched [OF that] inl by (force simp: range_in_layout_def)
  then show ?thesis
    using normalize_ranges_spec [OF wf so] by (auto simp: res sort_layouts_facts)
qed

text \<open>
  C1: The chunk plans of a successful call are in the order of their keys, without duplicates, and their spans touch
  exactly the bytes that were declared, each with the union of the declared modes.
\<close>

theorem chunk_plans_exact:
  assumes "normalize_and_split_accesses ls rs cb = Some res" and "apr_error res = Ape_none"
  shows "sorted_wrt (<) (map cp_key (apr_chunks res)) \<and>
    (chunk_touched (apr_chunks res) (ChunkKey a idx) q m \<longleftrightarrow>
       q < unat cb \<and> union_mode rs a (unat idx * unat cb + q) = Some m)"
proof -
  obtain cs i n where "apr_chunks res = map finalize_chunk cs"
    "chunks_inv cb (size_of (sort_layouts ls)) cs i n"
    "\<And>a idx q m. chunk_touched cs (ChunkKey a idx) q m \<longleftrightarrow>
       q < unat cb \<and> union_mode rs a (unat idx * unat cb + q) = Some m"
    using normalize_and_split_ok [OF assms] by blast
  then show ?thesis by (simp add: chunks_inv_def sorted_wrt_map)
qed

text \<open>The modes a chunk plan of a successful call touches at each of its bytes.\<close>

definition chunk_byte_mode :: "access_range list \<Rightarrow> chunk_access_plan \<Rightarrow> nat \<Rightarrow> access_mode option" where
  "chunk_byte_mode rs c q =
     union_mode rs (ck_allocation_id (cp_key c)) (unat (cp_allocation_offset_bytes c) + q)"

lemma chunk_in_plan:
  assumes "normalize_and_split_accesses ls rs cb = Some res" and "apr_error res = Ape_none"
    and "c \<in> set (apr_chunks res)"
  shows "\<exists>d. c = finalize_chunk d \<and> plan_flags_unset d \<and>
    spans_ok (unat (cp_valid_bytes d)) (cp_spans d) \<and> 0 < unat (cp_valid_bytes d) \<and>
    (\<forall>q m. q < unat (cp_valid_bytes d) \<longrightarrow>
       (spans_touch (cp_spans d) q m \<longleftrightarrow> chunk_byte_mode rs d q = Some m))"
proof -
  obtain cs i n where v: "accesses_valid ls rs cb"
    and cs: "apr_chunks res = map finalize_chunk cs"
    and inv: "chunks_inv cb (size_of (sort_layouts ls)) cs i n"
    and t: "\<And>a idx q m. chunk_touched cs (ChunkKey a idx) q m \<longleftrightarrow>
       q < unat cb \<and> union_mode rs a (unat idx * unat cb + q) = Some m"
    using normalize_and_split_ok [OF assms(1,2)] by blast
  from assms(3) cs obtain d where d: "d \<in> set cs" "c = finalize_chunk d" by auto
  have ok: "chunk_plan_ok cb (size_of (sort_layouts ls)) d" "plan_flags_unset d"
    using inv d by (auto simp: chunks_inv_def)
  have uniq: "e = d" if "e \<in> set cs" "cp_key e = cp_key d" for e
    using inv that d(1) by (auto simp: chunks_inv_def sorted_wrt_iff_nth_less in_set_conv_nth)
      (metis linorder_neqE_nat order_less_irrefl)
  have touch: "spans_touch (cp_spans d) q m \<longleftrightarrow> chunk_byte_mode rs d q = Some m"
    if "q < unat (cp_valid_bytes d)" for q m
  proof -
    have "spans_touch (cp_spans d) q m \<longleftrightarrow> chunk_touched cs (cp_key d) q m"
      using uniq d(1) by (auto simp: chunk_touched_def)
    also have "\<dots> \<longleftrightarrow> chunk_byte_mode rs d q = Some m"
      using t [of "ck_allocation_id (cp_key d)" "ck_chunk_index (cp_key d)" q m] that ok(1)
      by (auto simp: chunk_byte_mode_def chunk_plan_ok_def Let_def)
    finally show ?thesis .
  qed
  have "0 < unat cb" using v by (simp add: accesses_valid_def unat_gt_0_iff)
  then have "0 < unat (cp_valid_bytes d)" "spans_ok (unat (cp_valid_bytes d)) (cp_spans d)"
    using ok(1) unfolding chunk_plan_ok_def Let_def by linarith+
  then show ?thesis using d(2) ok(2) touch by blast
qed

text \<open>
  C27: A chunk of a successful call needs no upload exactly when every valid byte of it is only written: what is read, or not
  touched at all, must first be brought to the device.
\<close>

theorem chunk_upload_exact:
  assumes "normalize_and_split_accesses ls rs cb = Some res" and "apr_error res = Ape_none"
    and "c \<in> set (apr_chunks res)"
  shows "\<not> cp_requires_h2d c \<longleftrightarrow>
    (\<forall>q < unat (cp_valid_bytes c). chunk_byte_mode rs c q = Some Write_only)"
proof -
  obtain d where d: "c = finalize_chunk d"
    "spans_ok (unat (cp_valid_bytes d)) (cp_spans d)" "0 < unat (cp_valid_bytes d)"
    "\<And>q m. q < unat (cp_valid_bytes d) \<Longrightarrow> spans_touch (cp_spans d) q m \<longleftrightarrow> chunk_byte_mode rs d q = Some m"
    using chunk_in_plan [OF assms] by blast
  have "\<not> cp_requires_h2d c \<longleftrightarrow> length (cp_spans d) = 1 \<and> unat (sp_offset_bytes (hd (cp_spans d))) = 0 \<and>
      unat (sp_length_bytes (hd (cp_spans d))) = unat (cp_valid_bytes d) \<and>
      sp_mode (hd (cp_spans d)) = Write_only"
    by (auto simp: d(1) finalize_chunk_def Let_def unat_eq_0_iff
        intro: unat_eq_iff_u64 [THEN iffD2])
  also have "\<dots> \<longleftrightarrow> (\<forall>q < unat (cp_valid_bytes d). spans_touch (cp_spans d) q Write_only)"
    using single_full_span [OF d(2,3)] by simp
  also have "\<dots> \<longleftrightarrow> (\<forall>q < unat (cp_valid_bytes c). chunk_byte_mode rs c q = Some Write_only)"
    using d(4) by (simp add: d(1) chunk_byte_mode_def)
  finally show ?thesis .
qed

lemma mode_option_cases:
  assumes "x \<noteq> Some Mode_out_of_range"
  shows "(\<exists>m. m \<noteq> Write_only \<and> x = Some m) \<longleftrightarrow> x \<in> {Some Read, Some Read_write}"
    and "(\<exists>m. m \<noteq> Read \<and> x = Some m) \<longleftrightarrow> x \<in> {Some Write_only, Some Read_write}"
proof -
  have "x = None \<or> x = Some Read \<or> x = Some Read_write \<or> x = Some Write_only"
    using assms access_mode.exhaust by (metis option.exhaust)
  then show "(\<exists>m. m \<noteq> Write_only \<and> x = Some m) \<longleftrightarrow> x \<in> {Some Read, Some Read_write}"
    and "(\<exists>m. m \<noteq> Read \<and> x = Some m) \<longleftrightarrow> x \<in> {Some Write_only, Some Read_write}"
    by auto
qed

theorem chunk_flags_exact:
  assumes "normalize_and_split_accesses ls rs cb = Some res" and "apr_error res = Ape_none"
    and "c \<in> set (apr_chunks res)"
  shows "(cp_reads_existing_data c \<longleftrightarrow> (\<exists>q < unat (cp_valid_bytes c).
      chunk_byte_mode rs c q \<in> {Some Read, Some Read_write})) \<and>
    (cp_marks_dirty c \<longleftrightarrow> (\<exists>q < unat (cp_valid_bytes c).
      chunk_byte_mode rs c q \<in> {Some Write_only, Some Read_write}))"
proof -
  obtain d where d: "c = finalize_chunk d" "plan_flags_unset d"
    "spans_ok (unat (cp_valid_bytes d)) (cp_spans d)"
    "\<And>q m. q < unat (cp_valid_bytes d) \<Longrightarrow> spans_touch (cp_spans d) q m \<longleftrightarrow> chunk_byte_mode rs d q = Some m"
    using chunk_in_plan [OF assms] by blast
  let ?n = "unat (cp_valid_bytes d)"
  have pos: "\<exists>q<?n. spans_touch (cp_spans d) q (sp_mode s)" if "s \<in> set (cp_spans d)" for s
  proof -
    have "0 < unat (sp_length_bytes s) \<and> unat (sp_offset_bytes s) + unat (sp_length_bytes s) \<le> ?n"
      using d(3) that by (simp add: spans_ok_def)
    then have "span_covers s (unat (sp_offset_bytes s)) \<and> unat (sp_offset_bytes s) < ?n"
      unfolding span_covers_def by linarith
    then show ?thesis using that unfolding spans_touch_def by blast
  qed
  have inr: "chunk_byte_mode rs d q \<noteq> Some Mode_out_of_range" for q
    by (simp add: chunk_byte_mode_def union_mode_def)
  have modes: "sp_mode s \<noteq> Mode_out_of_range" if "s \<in> set (cp_spans d)" for s
    using pos [OF that] d(4) inr by (metis)
  have "(\<exists>s\<in>set (cp_spans d). sp_mode s \<noteq> m0) \<longleftrightarrow>
      (\<exists>q<?n. \<exists>m. m \<noteq> m0 \<and> chunk_byte_mode rs d q = Some m)" for m0
    using pos d(4) unfolding spans_touch_def by metis
  then have "list_ex (\<lambda>s. sp_mode s \<noteq> m0) (cp_spans d) \<longleftrightarrow>
      (\<exists>q<?n. \<exists>m. m \<noteq> m0 \<and> chunk_byte_mode rs d q = Some m)" for m0
    by (simp add: list_ex_iff)
  moreover have "(\<exists>m. m \<noteq> Write_only \<and> chunk_byte_mode rs d q = Some m) \<longleftrightarrow>
      chunk_byte_mode rs d q \<in> {Some Read, Some Read_write}" for q
    using mode_option_cases [OF inr] by blast
  moreover have "(\<exists>m. m \<noteq> Read \<and> chunk_byte_mode rs d q = Some m) \<longleftrightarrow>
      chunk_byte_mode rs d q \<in> {Some Write_only, Some Read_write}" for q
    using mode_option_cases [OF inr] by blast
  moreover have "chunk_byte_mode rs c q = chunk_byte_mode rs d q" for q
    by (simp add: chunk_byte_mode_def d(1))
  ultimately show ?thesis using d(2)
    by (simp add: d(1) finalize_chunk_def Let_def plan_flags_unset_def)
qed

section \<open>A run\<close>

text \<open>
  Two allocations and three ranges on one of them: a read that overlaps a write, and a tail that is
  only written. With chunks of 32 bytes the second chunk must be uploaded and the third need not be.
\<close>

definition example_layouts :: "allocation_layout list" where
  "example_layouts = [\<lparr>al_id = AllocationId 7, al_size_bytes = 80\<rparr>,
     \<lparr>al_id = AllocationId 3, al_size_bytes = 64\<rparr>]"

definition example_ranges :: "access_range list" where
  "example_ranges =
     [\<lparr>ar_allocation_id = AllocationId 7, ar_offset_bytes = 40, ar_length_bytes = 40, ar_mode = Write_only\<rparr>,
      \<lparr>ar_allocation_id = AllocationId 7, ar_offset_bytes = 32, ar_length_bytes = 16, ar_mode = Read\<rparr>]"

definition example_chunks :: "chunk_access_plan list" where
  "example_chunks =
     [\<lparr>cp_key = ChunkKey (AllocationId 7) 1, cp_allocation_offset_bytes = 32, cp_valid_bytes = 32,
        cp_spans = [\<lparr>sp_offset_bytes = 0, sp_length_bytes = 8, sp_mode = Read\<rparr>,
          \<lparr>sp_offset_bytes = 8, sp_length_bytes = 8, sp_mode = Read_write\<rparr>,
          \<lparr>sp_offset_bytes = 16, sp_length_bytes = 16, sp_mode = Write_only\<rparr>],
        cp_reads_existing_data = True, cp_marks_dirty = True, cp_full_write_only = False,
        cp_requires_h2d = True\<rparr>,
      \<lparr>cp_key = ChunkKey (AllocationId 7) 2, cp_allocation_offset_bytes = 64, cp_valid_bytes = 16,
        cp_spans = [\<lparr>sp_offset_bytes = 0, sp_length_bytes = 16, sp_mode = Write_only\<rparr>],
        cp_reads_existing_data = False, cp_marks_dirty = True, cp_full_write_only = True,
        cp_requires_h2d = False\<rparr>]"

definition example_result :: access_plan_result where
  "example_result = \<lparr>apr_error = Ape_none, apr_input_range_index = None,
     apr_normalized_ranges =
       [\<lparr>ar_allocation_id = AllocationId 7, ar_offset_bytes = 32, ar_length_bytes = 8, ar_mode = Read\<rparr>,
        \<lparr>ar_allocation_id = AllocationId 7, ar_offset_bytes = 40, ar_length_bytes = 8, ar_mode = Read_write\<rparr>,
        \<lparr>ar_allocation_id = AllocationId 7, ar_offset_bytes = 48, ar_length_bytes = 32, ar_mode = Write_only\<rparr>],
     apr_chunks = example_chunks\<rparr>"

lemma example_run:
  "normalize_and_split_accesses example_layouts example_ranges 32 = Some example_result"
  by code_simp

lemma example_ok: "apr_error example_result = Ape_none"
  by (simp add: example_result_def)

lemma normalized_ranges_exact_witness:
  "sorted_wrt range_before (apr_normalized_ranges example_result) \<and>
   (touched (apr_normalized_ranges example_result) (AllocationId 7) 45 Read_write \<longleftrightarrow>
      union_mode example_ranges (AllocationId 7) 45 = Some Read_write)"
  by (rule normalized_ranges_exact [OF example_run example_ok])

lemma chunk_plans_exact_witness:
  "union_mode example_ranges (AllocationId 7) (2 * 32 + 3) = Some Write_only"
proof -
  have "chunk_touched (apr_chunks example_result) (ChunkKey (AllocationId 7) 2) 3 Write_only"
    by (simp add: example_result_def example_chunks_def span_covers_def)
  then show ?thesis
    using chunk_plans_exact [OF example_run example_ok, of "AllocationId 7" 2 3 Write_only] by simp
qed

lemma chunk_upload_exact_witness:
  "\<exists>c\<in>set (apr_chunks example_result). \<not> cp_requires_h2d c \<and>
     (\<forall>q < 16. chunk_byte_mode example_ranges c q = Some Write_only)"
proof -
  let ?c = "example_chunks ! 1"
  have c: "?c \<in> set (apr_chunks example_result)" "\<not> cp_requires_h2d ?c" "unat (cp_valid_bytes ?c) = 16"
    by (simp_all add: example_result_def example_chunks_def)
  then show ?thesis using chunk_upload_exact [OF example_run example_ok c(1)] by auto
qed

lemma chunk_flags_exact_witness:
  "\<exists>c\<in>set (apr_chunks example_result). cp_reads_existing_data c \<and>
     (\<exists>q < 32. chunk_byte_mode example_ranges c q \<in> {Some Read, Some Read_write})"
proof -
  let ?c = "example_chunks ! 0"
  have c: "?c \<in> set (apr_chunks example_result)" "cp_reads_existing_data ?c" "unat (cp_valid_bytes ?c) = 32"
    by (simp_all add: example_result_def example_chunks_def)
  then show ?thesis using chunk_flags_exact [OF example_run example_ok c(1)] by auto
qed

end
