(* ===== verification/Cache_Policy.thy ===== *)
theory Cache_Policy
  imports Residency_Core "HOL-Library.Product_Lexorder"
begin

text \<open>
  The victim policies of \<open>src/src/residency/policy.hpp\<close> and \<open>policy.cpp\<close>: the cost-aware
  CLOCK and the true LRU, both behind the interface \<open>VictimPolicy\<close>, which the locale
  \<open>victim_policy\<close> states. A vector is a list and an index into it (\<open>hand_\<close>) is a \<open>nat\<close>; an
  operation that changes the object returns the new one first.
\<close>

section \<open>Candidates\<close>

record victim_candidate =
  vc_key :: chunk_key
  vc_state :: chunk_state
  vc_pin_count :: u32
  vc_in_flight :: bool
  vc_in_current_working_set :: bool
  vc_hot :: bool

definition find_candidate :: "victim_candidate list \<Rightarrow> chunk_key \<Rightarrow> victim_candidate option" where
  "find_candidate candidates key = find (\<lambda>c. vc_key c = key) candidates"

definition clock_cost :: "bool \<Rightarrow> bool \<Rightarrow> chunk_state \<Rightarrow> bool \<Rightarrow> u32" where
  "clock_cost speculative sequential_one_touch state hot =
     (let dirty = (state = Resident_dirty);
          cost = (if dirty then 3 else 0) + (if hot then 4 else 0)
      in if sequential_one_touch then cost
         else if speculative then cost + 1
         else cost + 2)"

definition is_policy_candidate_eligible :: "victim_candidate \<Rightarrow> bool" where
  "is_policy_candidate_eligible c \<longleftrightarrow>
     (vc_state c = Resident_clean \<or> vc_state c = Resident_dirty) \<and> vc_pin_count c = 0 \<and>
     \<not> vc_in_flight c \<and> \<not> vc_in_current_working_set c"

text \<open>A key that a policy may select: the candidate found for it is eligible.\<close>

definition eligible_key :: "victim_candidate list \<Rightarrow> chunk_key \<Rightarrow> bool" where
  "eligible_key cs k \<longleftrightarrow>
     (case find_candidate cs k of None \<Rightarrow> False | Some c \<Rightarrow> is_policy_candidate_eligible c)"

section \<open>CLOCK\<close>

record clock_entry =
  ce_key :: chunk_key
  ce_referenced :: bool
  ce_speculative :: bool
  ce_sequential_one_touch :: bool

record clock_policy =
  cl_entries :: "clock_entry list"
  cl_hand :: nat

definition clock_name :: string where
  "clock_name = ''clock''"

definition clock_insert :: "clock_policy \<Rightarrow> chunk_key \<Rightarrow> u64 \<Rightarrow> bool \<Rightarrow> bool \<Rightarrow> clock_policy" where
  "clock_insert p key sequence speculative sequential_one_touch =
     (case find_index (\<lambda>e. ce_key e = key) (cl_entries p) of
        Some i \<Rightarrow>
          let e = cl_entries p ! i
          in p\<lparr>cl_entries := (cl_entries p)[i := e\<lparr>ce_referenced := ce_referenced e \<or> \<not> speculative,
                 ce_speculative := speculative, ce_sequential_one_touch := sequential_one_touch\<rparr>]\<rparr>
      | None \<Rightarrow>
          p\<lparr>cl_entries := cl_entries p @ [\<lparr>ce_key = key, ce_referenced = \<not> speculative,
              ce_speculative = speculative, ce_sequential_one_touch = sequential_one_touch\<rparr>]\<rparr>)"

definition clock_touch :: "clock_policy \<Rightarrow> chunk_key \<Rightarrow> u64 \<Rightarrow> bool \<Rightarrow> clock_policy" where
  "clock_touch p key sequence sequential_one_touch =
     (case find_index (\<lambda>e. ce_key e = key) (cl_entries p) of
        None \<Rightarrow> clock_insert p key sequence False sequential_one_touch
      | Some i \<Rightarrow>
          p\<lparr>cl_entries := (cl_entries p)[i := (cl_entries p ! i)\<lparr>ce_referenced := True,
              ce_speculative := False, ce_sequential_one_touch := sequential_one_touch\<rparr>]\<rparr>)"

definition clock_erase :: "clock_policy \<Rightarrow> chunk_key \<Rightarrow> clock_policy \<times> bool" where
  "clock_erase p key =
     (case find_index (\<lambda>e. ce_key e = key) (cl_entries p) of
        None \<Rightarrow> (p, False)
      | Some erased_index \<Rightarrow>
          let entries = remove_at erased_index (cl_entries p);
              hand = (if entries \<noteq> [] \<and> erased_index < cl_hand p then cl_hand p - 1 else cl_hand p);
              hand = (if entries = [] \<or> hand \<ge> length entries then 0 else hand)
          in (p\<lparr>cl_entries := entries, cl_hand := hand\<rparr>, True))"

text \<open>The cost of an entry among the candidates, \<open>None\<close> when it may not be selected.\<close>

definition entry_cost :: "victim_candidate list \<Rightarrow> clock_entry \<Rightarrow> u32 option" where
  "entry_cost candidates e =
     (case find_candidate candidates (ce_key e) of
        None \<Rightarrow> None
      | Some c \<Rightarrow>
          if \<not> is_policy_candidate_eligible c then None
          else Some (clock_cost (ce_speculative e) (ce_sequential_one_touch e) (vc_state c) (vc_hot c)))"

definition cheapest_cost :: "victim_candidate list \<Rightarrow> clock_entry list \<Rightarrow> u32" where
  "cheapest_cost candidates entries =
     fold (\<lambda>e cheapest. case entry_cost candidates e of None \<Rightarrow> cheapest | Some c \<Rightarrow> min cheapest c)
       entries 4294967295"

text \<open>
  One pass of the hand over the given indices: an entry of the cheapest class loses its reference
  bit the first time, and is selected (its index is returned) when the bit is already clear.
\<close>

fun clock_pass ::
    "victim_candidate list \<Rightarrow> u32 \<Rightarrow> nat list \<Rightarrow> clock_entry list \<Rightarrow> clock_entry list \<times> nat option" where
  "clock_pass candidates cost [] entries = (entries, None)"
| "clock_pass candidates cost (index # indices) entries =
     (let entry = entries ! index
      in if entry_cost candidates entry \<noteq> Some cost then clock_pass candidates cost indices entries
         else if ce_referenced entry
         then clock_pass candidates cost indices (entries[index := entry\<lparr>ce_referenced := False\<rparr>])
         else (entries, Some index))"

definition clock_select_victim ::
    "clock_policy \<Rightarrow> victim_candidate list \<Rightarrow> clock_policy \<times> chunk_key option" where
  "clock_select_victim p candidates =
     (if cl_entries p = [] then (p, None)
      else let cost = cheapest_cost candidates (cl_entries p)
           in if cost = 4294967295 then (p, None)
              else let n = length (cl_entries p);
                       order = map (\<lambda>scanned. (cl_hand p + scanned) mod n) [0..<n];
                       selected = (\<lambda>es i. (p\<lparr>cl_entries := es, cl_hand := (i + 1) mod n\<rparr>,
                                           Some (ce_key (es ! i))))
                   in case clock_pass candidates cost order (cl_entries p) of
                        (es, Some i) \<Rightarrow> selected es i
                      | (es, None) \<Rightarrow>
                          (case clock_pass candidates cost order es of
                             (es', Some i) \<Rightarrow> selected es' i
                           | (es', None) \<Rightarrow> (p\<lparr>cl_entries := es'\<rparr>, None)))"

definition clock_size :: "clock_policy \<Rightarrow> nat" where
  "clock_size p = length (cl_entries p)"

section \<open>LRU\<close>

record lru_entry =
  le_key :: chunk_key
  le_last_touch_sequence :: u64

record lru_policy =
  lr_entries :: "lru_entry list"

definition lru_name :: string where
  "lru_name = ''lru''"

definition lru_insert :: "lru_policy \<Rightarrow> chunk_key \<Rightarrow> u64 \<Rightarrow> bool \<Rightarrow> bool \<Rightarrow> lru_policy" where
  "lru_insert p key sequence speculative sequential_one_touch =
     (case find_index (\<lambda>e. le_key e = key) (lr_entries p) of
        Some i \<Rightarrow>
          p\<lparr>lr_entries := (lr_entries p)[i := (lr_entries p ! i)\<lparr>le_last_touch_sequence := sequence\<rparr>]\<rparr>
      | None \<Rightarrow>
          p\<lparr>lr_entries := lr_entries p @ [\<lparr>le_key = key, le_last_touch_sequence = sequence\<rparr>]\<rparr>)"

definition lru_touch :: "lru_policy \<Rightarrow> chunk_key \<Rightarrow> u64 \<Rightarrow> bool \<Rightarrow> lru_policy" where
  "lru_touch p key sequence sequential_one_touch = lru_insert p key sequence False False"

definition lru_erase :: "lru_policy \<Rightarrow> chunk_key \<Rightarrow> lru_policy \<times> bool" where
  "lru_erase p key =
     (case find_index (\<lambda>e. le_key e = key) (lr_entries p) of
        None \<Rightarrow> (p, False)
      | Some i \<Rightarrow> (p\<lparr>lr_entries := remove_at i (lr_entries p)\<rparr>, True))"

definition lru_better ::
    "victim_candidate list \<Rightarrow> lru_entry option \<Rightarrow> lru_entry \<Rightarrow> victim_candidate \<Rightarrow> bool" where
  "lru_better candidates selected entry candidate \<longleftrightarrow>
     (case selected of
        None \<Rightarrow> True
      | Some s \<Rightarrow>
          (case find_candidate candidates (le_key s) of
             None \<Rightarrow> False
           | Some sc \<Rightarrow>
               (vc_hot sc \<and> \<not> vc_hot candidate) \<or>
               (vc_hot sc = vc_hot candidate \<and>
                (le_last_touch_sequence entry < le_last_touch_sequence s \<or>
                 (le_last_touch_sequence entry = le_last_touch_sequence s \<and> le_key entry < le_key s)))))"

fun lru_scan ::
    "victim_candidate list \<Rightarrow> lru_entry list \<Rightarrow> lru_entry option \<Rightarrow> lru_entry option" where
  "lru_scan candidates [] selected = selected"
| "lru_scan candidates (entry # entries) selected =
     (case find_candidate candidates (le_key entry) of
        None \<Rightarrow> lru_scan candidates entries selected
      | Some candidate \<Rightarrow>
          if \<not> is_policy_candidate_eligible candidate then lru_scan candidates entries selected
          else lru_scan candidates entries
                 (if lru_better candidates selected entry candidate then Some entry else selected))"

definition lru_select_victim ::
    "lru_policy \<Rightarrow> victim_candidate list \<Rightarrow> lru_policy \<times> chunk_key option" where
  "lru_select_victim p candidates = (p, map_option le_key (lru_scan candidates (lr_entries p) None))"

definition lru_size :: "lru_policy \<Rightarrow> nat" where
  "lru_size p = length (lr_entries p)"

section \<open>The interface\<close>

text \<open>
  What the cache manager relies on: the tracked keys change as \<open>insert\<close>, \<open>touch\<close> and
  \<open>erase\<close> say and selection leaves them alone, a selected key is tracked and eligible, and
  nothing is selected only when no tracked key is eligible.
\<close>

locale victim_policy =
  fixes insert :: "'p \<Rightarrow> chunk_key \<Rightarrow> u64 \<Rightarrow> bool \<Rightarrow> bool \<Rightarrow> 'p"
    and touch :: "'p \<Rightarrow> chunk_key \<Rightarrow> u64 \<Rightarrow> bool \<Rightarrow> 'p"
    and erase :: "'p \<Rightarrow> chunk_key \<Rightarrow> 'p \<times> bool"
    and select :: "'p \<Rightarrow> victim_candidate list \<Rightarrow> 'p \<times> chunk_key option"
    and count :: "'p \<Rightarrow> nat"
    and keys :: "'p \<Rightarrow> chunk_key set"
    and invar :: "'p \<Rightarrow> bool"
  assumes keys_insert: "invar p \<Longrightarrow> keys (insert p k s a b) = Set.insert k (keys p)"
    and keys_touch: "invar p \<Longrightarrow> keys (touch p k s b) = Set.insert k (keys p)"
    and keys_erase: "invar p \<Longrightarrow> keys (fst (erase p k)) = keys p - {k}"
    and erase_result: "invar p \<Longrightarrow> snd (erase p k) \<longleftrightarrow> k \<in> keys p"
    and keys_select: "invar p \<Longrightarrow> keys (fst (select p cs)) = keys p"
    and select_sound: "invar p \<Longrightarrow> snd (select p cs) = Some k \<Longrightarrow> k \<in> keys p \<and> eligible_key cs k"
    and select_complete: "invar p \<Longrightarrow> snd (select p cs) = None \<Longrightarrow> k \<in> keys p \<Longrightarrow> \<not> eligible_key cs k"
    and count_keys: "invar p \<Longrightarrow> finite (keys p) \<and> count p = card (keys p)"
    and invar_insert: "invar p \<Longrightarrow> invar (insert p k s a b)"
    and invar_touch: "invar p \<Longrightarrow> invar (touch p k s b)"
    and invar_erase: "invar p \<Longrightarrow> invar (fst (erase p k))"
    and invar_select: "invar p \<Longrightarrow> invar (fst (select p cs))"

text \<open>
  Evicting as long as the policy offers a victim, at most \<open>n\<close> times, as the shrink loop of the
  cache manager does: each victim is selected and then erased from the policy.
\<close>

fun evict_up_to ::
    "('p \<Rightarrow> victim_candidate list \<Rightarrow> 'p \<times> chunk_key option) \<Rightarrow> ('p \<Rightarrow> chunk_key \<Rightarrow> 'p \<times> bool) \<Rightarrow>
     nat \<Rightarrow> victim_candidate list \<Rightarrow> 'p \<Rightarrow> 'p \<times> chunk_key list" where
  "evict_up_to select erase 0 cs p = (p, [])"
| "evict_up_to select erase (Suc n) cs p =
     (case select p cs of
        (p', None) \<Rightarrow> (p', [])
      | (p', Some k) \<Rightarrow>
          (case evict_up_to select erase n cs (fst (erase p' k)) of (p'', ks) \<Rightarrow> (p'', k # ks)))"

context victim_policy
begin

lemma select_then_erase:
  assumes "invar p" and "select p cs = (p', Some k)"
  shows "invar (fst (erase p' k))" and "keys (fst (erase p' k)) = keys p - {k}"
    and "k \<in> keys p" and "eligible_key cs k"
  using assms invar_select [OF assms(1), of cs] invar_erase [of p' k] keys_erase [of p' k]
    keys_select [OF assms(1), of cs] select_sound [OF assms(1), of cs k] by auto

lemma evict_up_to_spec:
  assumes "invar p" and "evict_up_to select erase n cs p = (p', ks)"
  shows "invar p' \<and> distinct ks \<and> set ks \<subseteq> {k \<in> keys p. eligible_key cs k} \<and>
    keys p' = keys p - set ks \<and> length ks = min n (card {k \<in> keys p. eligible_key cs k})"
  using assms
proof (induction n arbitrary: p ks)
  case 0
  then show ?case by auto
next
  case (Suc n)
  let ?E = "\<lambda>p. {k \<in> keys p. eligible_key cs k}"
  show ?case
  proof (cases "select p cs")
    case (Pair q r)
    show ?thesis
    proof (cases r)
      case None
      have empty: "?E p = {}" using select_complete [OF Suc.prems(1), of cs] Pair None by auto
      have "p' = q \<and> ks = []" using Suc.prems(2) Pair None by simp
      then show ?thesis
        unfolding empty using Pair None keys_select [OF Suc.prems(1), of cs]
          invar_select [OF Suc.prems(1), of cs] by simp
    next
      case (Some k)
      obtain ks' where ks: "ks = k # ks'" "evict_up_to select erase n cs (fst (erase q k)) = (p', ks')"
        using Suc.prems(2) Pair Some by (auto split: prod.splits)
      note sel = select_then_erase [OF Suc.prems(1), of cs q k]
      have E: "?E (fst (erase q k)) = ?E p - {k}" using sel Pair Some by auto
      have "finite (?E p)" using count_keys [OF Suc.prems(1)] by auto
      then have "card (?E p) = Suc (card (?E p - {k}))"
        using sel Pair Some by (intro card.remove) auto
      then show ?thesis
        using Suc.IH [of "fst (erase q k)" ks'] ks E sel Pair Some by auto
    qed
  qed
qed

end

section \<open>CLOCK: invariant and correctness\<close>

definition clock_keys :: "clock_policy \<Rightarrow> chunk_key set" where
  "clock_keys p = ce_key ` set (cl_entries p)"

text \<open>Keys are unique and the hand is a valid index, or zero when there is nothing to point at.\<close>

definition clock_invar :: "clock_policy \<Rightarrow> bool" where
  "clock_invar p \<longleftrightarrow> distinct (map ce_key (cl_entries p)) \<and>
     (if cl_entries p = [] then cl_hand p = 0 else cl_hand p < length (cl_entries p))"

lemma keys_as_map: "ce_key ` set es = set (map ce_key es)"
  by simp

lemma find_index_key_None:
  "find_index (\<lambda>e. f e = k) es = None \<longleftrightarrow> k \<notin> set (map f es)"
  by (auto simp: find_index_None)

lemma find_index_key_Some:
  assumes "find_index (\<lambda>e. f e = k) es = Some i"
  shows "i < length es" and "f (es ! i) = k" and "k \<in> set (map f es)"
  using find_index_Some [OF assms] nth_mem [of i es] by auto

lemma clock_insert_map:
  "map ce_key (cl_entries (clock_insert p k s a b)) =
     (if k \<in> clock_keys p then map ce_key (cl_entries p) else map ce_key (cl_entries p) @ [k])"
proof (cases "find_index (\<lambda>e. ce_key e = k) (cl_entries p)")
  case None
  then show ?thesis
    using find_index_key_None [of ce_key k "cl_entries p"] by (auto simp: clock_insert_def clock_keys_def)
next
  case (Some i)
  then show ?thesis
    using find_index_key_Some [OF Some]
    by (auto simp: clock_insert_def clock_keys_def Let_def intro!: map_list_update_same)
qed

lemma clock_insert_hand [simp]: "cl_hand (clock_insert p k s a b) = cl_hand p"
  by (simp add: clock_insert_def Let_def split: option.split)

lemma clock_touch_map:
  "map ce_key (cl_entries (clock_touch p k s b)) =
     (if k \<in> clock_keys p then map ce_key (cl_entries p) else map ce_key (cl_entries p) @ [k])"
proof (cases "find_index (\<lambda>e. ce_key e = k) (cl_entries p)")
  case None
  then show ?thesis by (simp add: clock_touch_def clock_insert_map)
next
  case (Some i)
  then show ?thesis
    using find_index_key_Some [OF Some]
    by (auto simp: clock_touch_def clock_keys_def intro!: map_list_update_same)
qed

lemma clock_touch_hand [simp]: "cl_hand (clock_touch p k s b) = cl_hand p"
  by (simp add: clock_touch_def split: option.split)

lemma clock_invar_same_or_snoc:
  assumes "clock_invar p" and "cl_hand q = cl_hand p"
    and "map ce_key (cl_entries q) =
      (if k \<in> clock_keys p then map ce_key (cl_entries p) else map ce_key (cl_entries p) @ [k])"
  shows "clock_invar q" and "clock_keys q = Set.insert k (clock_keys p)"
proof -
  have len: "length (cl_entries q) =
      (if k \<in> clock_keys p then length (cl_entries p) else Suc (length (cl_entries p)))"
    using arg_cong [OF assms(3), of length] by (simp split: if_splits)
  have "cl_entries q = [] \<longleftrightarrow> length (cl_entries q) = 0" by simp
  then show "clock_invar q"
    using assms len by (auto simp: clock_invar_def clock_keys_def split: if_splits)
  have "clock_keys q = set (map ce_key (cl_entries q))" by (simp add: clock_keys_def)
  also have "\<dots> = Set.insert k (clock_keys p)" unfolding assms(3) by (auto simp: clock_keys_def)
  finally show "clock_keys q = Set.insert k (clock_keys p)" .
qed

lemmas clock_insert_keeps = clock_invar_same_or_snoc [OF _ clock_insert_hand clock_insert_map]
lemmas clock_touch_keeps = clock_invar_same_or_snoc [OF _ clock_touch_hand clock_touch_map]

lemma clock_erase_keeps:
  assumes "clock_invar p"
  shows "clock_invar (fst (clock_erase p k)) \<and> clock_keys (fst (clock_erase p k)) = clock_keys p - {k} \<and>
    (snd (clock_erase p k) \<longleftrightarrow> k \<in> clock_keys p)"
proof (cases "find_index (\<lambda>e. ce_key e = k) (cl_entries p)")
  case None
  then show ?thesis
    using assms find_index_key_None [of ce_key k "cl_entries p"]
    by (auto simp: clock_erase_def clock_keys_def)
next
  case (Some i)
  note i = find_index_key_Some [OF Some]
  have d: "distinct (map ce_key (cl_entries p))" using assms by (simp add: clock_invar_def)
  note r = set_remove_at_distinct [OF d i(1)] length_remove_at [OF i(1)]
  have h: "cl_hand p < length (cl_entries p)"
    using assms i(1) by (auto simp: clock_invar_def split: if_splits)
  show ?thesis
    using Some i r h by (auto simp: clock_erase_def clock_keys_def clock_invar_def Let_def)
qed

text \<open>Costs: the cheapest cost is the least one, and the sentinel is no cost.\<close>

lemma clock_cost_le: "clock_cost s q st h \<le> 9"
  by (cases s; cases q; cases h; cases st) (simp_all add: clock_cost_def)

lemma entry_cost_None_iff: "entry_cost cs e = None \<longleftrightarrow> \<not> eligible_key cs (ce_key e)"
  by (simp add: entry_cost_def eligible_key_def split: option.split)

lemma entry_cost_le: "entry_cost cs e = Some c \<Longrightarrow> c \<le> 9"
  by (auto simp: entry_cost_def clock_cost_le split: option.splits if_splits)

lemma entry_cost_same:
  "ce_key e' = ce_key e \<Longrightarrow> ce_speculative e' = ce_speculative e \<Longrightarrow>
   ce_sequential_one_touch e' = ce_sequential_one_touch e \<Longrightarrow> entry_cost cs e' = entry_cost cs e"
  by (simp add: entry_cost_def split: option.split)

lemma fold_cheapest:
  fixes a :: u32
  shows "let m = fold (\<lambda>e cheapest. case entry_cost cs e of None \<Rightarrow> cheapest | Some c \<Rightarrow> min cheapest c) es a
    in m \<le> a \<and> (\<forall>e\<in>set es. \<forall>c. entry_cost cs e = Some c \<longrightarrow> m \<le> c) \<and>
      (m = a \<or> (\<exists>e\<in>set es. entry_cost cs e = Some m))"
proof (induction es arbitrary: a)
  case Nil
  then show ?case by simp
next
  case (Cons e es)
  show ?case
  proof (cases "entry_cost cs e")
    case None
    then show ?thesis using Cons.IH [of a] by (auto simp: Let_def)
  next
    case (Some c)
    then show ?thesis using Cons.IH [of "min a c"] by (auto simp: Let_def min_def split: if_splits)
  qed
qed

lemma cheapest_cost_least:
  "e \<in> set es \<Longrightarrow> entry_cost cs e = Some c \<Longrightarrow> cheapest_cost cs es \<le> c"
  using fold_cheapest [where es = es and a = 4294967295 and cs = cs] by (auto simp: cheapest_cost_def Let_def)

lemma cheapest_cost_attained:
  "cheapest_cost cs es \<noteq> 4294967295 \<Longrightarrow> \<exists>e\<in>set es. entry_cost cs e = Some (cheapest_cost cs es)"
  using fold_cheapest [where es = es and a = 4294967295 and cs = cs] by (auto simp: cheapest_cost_def Let_def)

lemma cheapest_cost_sentinel:
  "cheapest_cost cs es = 4294967295 \<longleftrightarrow> (\<forall>e\<in>set es. entry_cost cs e = None)"
proof
  assume m: "cheapest_cost cs es = 4294967295"
  show "\<forall>e\<in>set es. entry_cost cs e = None"
  proof
    fix e assume e: "e \<in> set es"
    show "entry_cost cs e = None"
    proof (cases "entry_cost cs e")
      case (Some c)
      have "cheapest_cost cs es \<le> 9"
        using cheapest_cost_least [OF e Some] entry_cost_le [OF Some] by (rule order_trans)
      then show ?thesis unfolding m by simp
    qed simp
  qed
next
  assume "\<forall>e\<in>set es. entry_cost cs e = None"
  then show "cheapest_cost cs es = 4294967295" using cheapest_cost_attained [of cs es] by fastforce
qed

text \<open>The passes.\<close>

definition in_class :: "victim_candidate list \<Rightarrow> u32 \<Rightarrow> clock_entry list \<Rightarrow> nat \<Rightarrow> bool" where
  "in_class cs c es i \<longleftrightarrow> entry_cost cs (es ! i) = Some c"

lemma clock_pass_spec:
  assumes "distinct is" and "\<forall>i\<in>set is. i < length es"
  shows "snd (clock_pass cs c is es) = find (\<lambda>i. in_class cs c es i \<and> \<not> ce_referenced (es ! i)) is \<and>
    map (\<lambda>e. (ce_key e, entry_cost cs e)) (fst (clock_pass cs c is es)) =
      map (\<lambda>e. (ce_key e, entry_cost cs e)) es \<and>
    (snd (clock_pass cs c is es) = None \<longrightarrow>
      (\<forall>i\<in>set is. in_class cs c es i \<longrightarrow> \<not> ce_referenced (fst (clock_pass cs c is es) ! i))) \<and>
    (\<forall>i<length es. i \<notin> set is \<longrightarrow> fst (clock_pass cs c is es) ! i = es ! i)"
  using assms
proof (induction cs c "is" es rule: clock_pass.induct)
  case (1 cs c es)
  then show ?case by simp
next
  case (2 cs c i "is" es)
  let ?es = "es[i := (es ! i)\<lparr>ce_referenced := False\<rparr>]"
  have i: "i < length es" "i \<notin> set is" "distinct is" "\<forall>j\<in>set is. j < length es" using "2.prems" by auto
  have m: "map (\<lambda>e. (ce_key e, entry_cost cs e)) ?es = map (\<lambda>e. (ce_key e, entry_cost cs e)) es"
    by (rule map_list_update_same) (auto intro: entry_cost_same)
  have other: "?es ! j = es ! j" if "j \<in> set is" for j using that i(2) by (metis nth_list_update_neq)
  consider (skip) "entry_cost cs (es ! i) \<noteq> Some c"
    | (clear) "entry_cost cs (es ! i) = Some c" "ce_referenced (es ! i)"
    | (stop) "entry_cost cs (es ! i) = Some c" "\<not> ce_referenced (es ! i)" by blast
  then show ?case
  proof cases
    case skip
    have pass: "clock_pass cs c (i # is) es = clock_pass cs c is es" using skip by (simp add: Let_def)
    have no: "\<not> in_class cs c es i" using skip by (simp add: in_class_def)
    show ?thesis unfolding pass using "2.IH"(1) [OF refl skip i(3,4)] no by simp
  next
    case clear
    note IH = "2.IH"(2) [OF refl _ clear(2)]
    have pass: "clock_pass cs c (i # is) es = clock_pass cs c is ?es" using clear by (simp add: Let_def)
    have IH: "snd (clock_pass cs c is ?es) = find (\<lambda>j. in_class cs c ?es j \<and> \<not> ce_referenced (?es ! j)) is \<and>
      map (\<lambda>e. (ce_key e, entry_cost cs e)) (fst (clock_pass cs c is ?es)) =
        map (\<lambda>e. (ce_key e, entry_cost cs e)) ?es \<and>
      (snd (clock_pass cs c is ?es) = None \<longrightarrow>
        (\<forall>j\<in>set is. in_class cs c ?es j \<longrightarrow> \<not> ce_referenced (fst (clock_pass cs c is ?es) ! j))) \<and>
      (\<forall>j<length ?es. j \<notin> set is \<longrightarrow> fst (clock_pass cs c is ?es) ! j = ?es ! j)"
      using IH clear i by simp
    have f: "find (\<lambda>j. in_class cs c ?es j \<and> \<not> ce_referenced (?es ! j)) is =
        find (\<lambda>j. in_class cs c es j \<and> \<not> ce_referenced (es ! j)) is"
      by (rule find_cong) (simp_all add: in_class_def other)
    have cls: "in_class cs c ?es j \<longleftrightarrow> in_class cs c es j" if "j \<in> set is" for j
      using other [OF that] by (simp add: in_class_def)
    have head: "in_class cs c es i" using clear by (simp add: in_class_def)
    have here: "fst (clock_pass cs c is ?es) ! i = (es ! i)\<lparr>ce_referenced := False\<rparr>"
      using IH i by simp
    have rest: "\<forall>j<length es. j \<notin> set (i # is) \<longrightarrow> fst (clock_pass cs c is ?es) ! j = es ! j"
      using IH by auto
    show ?thesis
      unfolding pass using IH f m here rest clear head cls by simp
  next
    case stop
    then show ?thesis by (simp add: in_class_def Let_def)
  qed
qed


text \<open>The order in which one pass visits the entries: every index once, from the hand on.\<close>

definition clock_order :: "clock_policy \<Rightarrow> nat list" where
  "clock_order p = map (\<lambda>scanned. (cl_hand p + scanned) mod length (cl_entries p)) [0..<length (cl_entries p)]"

lemma clock_order_distinct: "distinct (clock_order p)"
proof -
  have "inj_on (\<lambda>s. (cl_hand p + s) mod length (cl_entries p)) (set [0..<length (cl_entries p)])"
  proof (rule inj_onI)
    fix s t
    let ?n = "length (cl_entries p)"
    assume s: "s \<in> set [0..<?n]" and t: "t \<in> set [0..<?n]"
      and eq: "(cl_hand p + s) mod ?n = (cl_hand p + t) mod ?n"
    from eq have "s mod ?n = t mod ?n" by (simp add: mod_eq_iff_dvd_symdiff_nat)
    then show "s = t" using s t by simp
  qed
  then show ?thesis by (simp add: clock_order_def distinct_map)
qed

lemma clock_order_set: "set (clock_order p) = {..<length (cl_entries p)}"
proof (rule card_subset_eq)
  show "set (clock_order p) \<subseteq> {..<length (cl_entries p)}"
    by (auto simp: clock_order_def intro: mod_less_divisor)
  show "card (set (clock_order p)) = card {..<length (cl_entries p)}"
    using distinct_card [OF clock_order_distinct, of p] by (simp add: clock_order_def)
qed simp

lemma find_conj_filter: "find (\<lambda>x. P x \<and> Q x) xs = find Q (filter P xs)"
  by (induction xs) auto

lemma find_hd_filter: "find P xs = (if filter P xs = [] then None else Some (hd (filter P xs)))"
  by (induction xs) auto

lemma clock_select_cases:
  fixes p cs
  defines "es \<equiv> cl_entries p"
  defines "c \<equiv> cheapest_cost cs es"
  defines "cls \<equiv> filter (in_class cs c es) (clock_order p)"
  shows "snd (clock_select_victim p cs) =
      (if cls = [] then None
       else case find (\<lambda>i. \<not> ce_referenced (es ! i)) cls of
              Some i \<Rightarrow> Some (ce_key (es ! i))
            | None \<Rightarrow> Some (ce_key (es ! hd cls)))"
    and "map ce_key (cl_entries (fst (clock_select_victim p cs))) = map ce_key es"
    and "clock_invar p \<Longrightarrow> clock_invar (fst (clock_select_victim p cs))"
proof -
  let ?f = "\<lambda>e. (ce_key e, entry_cost cs e)"
  let ?p1 = "clock_pass cs c (clock_order p) es"
  let ?p2 = "clock_pass cs c (clock_order p) (fst ?p1)"
  have bound: "\<forall>i\<in>set (clock_order p). i < length es" by (simp add: clock_order_set es_def)
  note s1 = clock_pass_spec [OF clock_order_distinct bound, of cs c]
  have m1: "map ?f (fst ?p1) = map ?f es" using s1 by blast
  have len1: "length (fst ?p1) = length es" using m1 by (rule map_eq_imp_length_eq)
  have bound2: "\<forall>i\<in>set (clock_order p). i < length (fst ?p1)" using bound len1 by simp
  note s2 = clock_pass_spec [OF clock_order_distinct bound2, of cs c]
  have m2: "map ?f (fst ?p2) = map ?f es" using s2 m1 by simp
  have len2: "length (fst ?p2) = length es" using m2 by (rule map_eq_imp_length_eq)
  have k1: "map ce_key (fst ?p1) = map ce_key es" and k2: "map ce_key (fst ?p2) = map ce_key es"
    using arg_cong [OF m1, of "map fst"] arg_cong [OF m2, of "map fst"] by (simp_all add: comp_def)
  have cls1: "in_class cs c (fst ?p1) i \<longleftrightarrow> in_class cs c es i" if "i < length es" for i
    using arg_cong [OF m1, of "\<lambda>xs. xs ! i"] that len1 by (simp add: in_class_def)
  have first: "snd ?p1 = find (\<lambda>i. \<not> ce_referenced (es ! i)) cls"
    using s1 by (simp add: cls_def find_conj_filter)
  have second: "snd ?p2 = (if cls = [] then None else Some (hd cls))" if none: "snd ?p1 = None"
  proof -
    have "snd ?p2 = find (\<lambda>i. in_class cs c (fst ?p1) i \<and> \<not> ce_referenced (fst ?p1 ! i)) (clock_order p)"
      using s2 by blast
    also have "\<dots> = find (in_class cs c es) (clock_order p)"
    proof (rule find_cong [OF refl])
      fix i assume i: "i \<in> set (clock_order p)"
      then have lt: "i < length es" using bound by blast
      show "(in_class cs c (fst ?p1) i \<and> \<not> ce_referenced (fst ?p1 ! i)) = in_class cs c es i"
        using s1 none i cls1 [OF lt] by blast
    qed
    also have "\<dots> = (if cls = [] then None else Some (hd cls))"
      unfolding cls_def by (rule find_hd_filter)
    finally show ?thesis .
  qed
  have keyat: "ce_key (xs ! i) = ce_key (es ! i)" if "map ce_key xs = map ce_key es" "i < length es" for xs i
    using that by (metis map_eq_imp_length_eq nth_map)
  have in1: "i < length es" if "snd ?p1 = Some i" for i
    using that find_Some_iff_first [of _ cls i] bound unfolding first cls_def by auto
  have in2: "hd cls < length es" if "cls \<noteq> []"
    using hd_in_set [OF that] bound unfolding cls_def by auto
  have sentinel: "c = 4294967295 \<Longrightarrow> cls = []"
  proof -
    assume "c = 4294967295"
    then have "\<forall>e\<in>set es. entry_cost cs e = None" unfolding c_def by (simp add: cheapest_cost_sentinel)
    then show "cls = []" using bound by (auto simp: cls_def in_class_def filter_empty_conv)
  qed
  have empty: "es = [] \<Longrightarrow> cls = []" by (simp add: cls_def clock_order_def es_def)
  have order: "map (\<lambda>scanned. (cl_hand p + scanned) mod length es) [0..<length es] = clock_order p"
    by (simp add: clock_order_def es_def)
  have unfolded: "clock_select_victim p cs =
      (if es = [] \<or> c = 4294967295 then (p, None)
       else case snd ?p1 of
          Some i \<Rightarrow> (p\<lparr>cl_entries := fst ?p1, cl_hand := (i + 1) mod length es\<rparr>, Some (ce_key (fst ?p1 ! i)))
        | None \<Rightarrow>
            (case snd ?p2 of
               Some i \<Rightarrow> (p\<lparr>cl_entries := fst ?p2, cl_hand := (i + 1) mod length es\<rparr>, Some (ce_key (fst ?p2 ! i)))
             | None \<Rightarrow> (p\<lparr>cl_entries := fst ?p2\<rparr>, None)))"
    unfolding clock_select_victim_def Let_def es_def [symmetric] c_def [symmetric] order
    by (auto split: prod.split option.split)
  show "snd (clock_select_victim p cs) =
      (if cls = [] then None
       else case find (\<lambda>i. \<not> ce_referenced (es ! i)) cls of
              Some i \<Rightarrow> Some (ce_key (es ! i))
            | None \<Rightarrow> Some (ce_key (es ! hd cls)))"
    unfolding unfolded using first second in1 in2 sentinel empty keyat k1 k2
    by (auto split: option.split)
  show "map ce_key (cl_entries (fst (clock_select_victim p cs))) = map ce_key es"
    unfolding unfolded using k1 k2 by (simp add: es_def split: option.split)
  show "clock_invar (fst (clock_select_victim p cs))" if inv: "clock_invar p"
    unfolding unfolded using inv k1 k2 len1 len2
    by (auto simp: clock_invar_def es_def split: option.split if_splits)
qed


lemma clock_select_keeps:
  assumes "clock_invar p"
  shows "clock_invar (fst (clock_select_victim p cs))"
    and "clock_keys (fst (clock_select_victim p cs)) = clock_keys p"
  using clock_select_cases(3) [OF assms, of cs] arg_cong [OF clock_select_cases(2) [of p cs], of set]
  by (simp_all add: clock_keys_def)

lemma in_class_eligible:
  assumes "in_class cs c es i" and "i < length es"
  shows "ce_key (es ! i) \<in> ce_key ` set es \<and> eligible_key cs (ce_key (es ! i))"
  using assms entry_cost_None_iff [of cs "es ! i"] by (auto simp: in_class_def)

lemma clock_select_sound_index:
  assumes "snd (clock_select_victim p cs) = Some k"
  shows "\<exists>i<length (cl_entries p). ce_key (cl_entries p ! i) = k \<and>
    in_class cs (cheapest_cost cs (cl_entries p)) (cl_entries p) i"
proof -
  let ?cls = "filter (in_class cs (cheapest_cost cs (cl_entries p)) (cl_entries p)) (clock_order p)"
  have in_cls: "i < length (cl_entries p) \<and> in_class cs (cheapest_cost cs (cl_entries p)) (cl_entries p) i"
    if "i \<in> set ?cls" for i using that by (auto simp: clock_order_set)
  have ne: "?cls \<noteq> []" using assms clock_select_cases(1) [of p cs] by auto
  show ?thesis
  proof (cases "find (\<lambda>i. \<not> ce_referenced (cl_entries p ! i)) ?cls")
    case None
    then have "k = ce_key (cl_entries p ! hd ?cls)"
      using assms clock_select_cases(1) [of p cs] ne by simp
    then show ?thesis using in_cls [OF hd_in_set [OF ne]] by blast
  next
    case (Some i)
    then have "k = ce_key (cl_entries p ! i)"
      using assms clock_select_cases(1) [of p cs] ne by simp
    then show ?thesis using in_cls [of i] find_Some_iff_first [OF Some] by blast
  qed
qed

lemma clock_select_None:
  assumes "snd (clock_select_victim p cs) = None" and "e \<in> set (cl_entries p)"
  shows "\<not> eligible_key cs (ce_key e)"
proof (rule ccontr)
  let ?c = "cheapest_cost cs (cl_entries p)"
  assume "\<not> \<not> eligible_key cs (ce_key e)"
  then have "?c \<noteq> 4294967295" using assms(2) cheapest_cost_sentinel entry_cost_None_iff by blast
  then obtain e' where "e' \<in> set (cl_entries p)" "entry_cost cs e' = Some ?c"
    using cheapest_cost_attained by blast
  then obtain i where "i < length (cl_entries p)" "in_class cs ?c (cl_entries p) i"
    by (auto simp: in_set_conv_nth in_class_def)
  then have "filter (in_class cs ?c (cl_entries p)) (clock_order p) \<noteq> []"
    using clock_order_set [of p] by (fastforce simp: filter_empty_conv)
  then show False using assms(1) clock_select_cases(1) [of p cs] by (auto split: option.splits)
qed

interpretation clock_p: victim_policy clock_insert clock_touch clock_erase clock_select_victim clock_size
  clock_keys clock_invar
proof unfold_locales
  fix p k s a b cs
  assume inv: "clock_invar p"
  show "clock_keys (clock_insert p k s a b) = Set.insert k (clock_keys p)"
    by (rule clock_insert_keeps(2) [OF inv])
  show "clock_keys (clock_touch p k s b) = Set.insert k (clock_keys p)"
    by (rule clock_touch_keeps(2) [OF inv])
  show "clock_keys (fst (clock_erase p k)) = clock_keys p - {k}"
    and "snd (clock_erase p k) = (k \<in> clock_keys p)"
    and "clock_invar (fst (clock_erase p k))"
    using clock_erase_keeps [OF inv, of k] by auto
  show "clock_keys (fst (clock_select_victim p cs)) = clock_keys p"
    and "clock_invar (fst (clock_select_victim p cs))"
    by (rule clock_select_keeps [OF inv])+
  show "k \<in> clock_keys p \<and> eligible_key cs k" if "snd (clock_select_victim p cs) = Some k"
    using clock_select_sound_index [OF that] in_class_eligible by (auto simp: clock_keys_def)
  show "\<not> eligible_key cs k" if "snd (clock_select_victim p cs) = None" "k \<in> clock_keys p"
    using clock_select_None [OF that(1)] that(2) by (auto simp: clock_keys_def)
  show "finite (clock_keys p) \<and> clock_size p = card (clock_keys p)"
    using inv distinct_card [of "map ce_key (cl_entries p)"]
    by (auto simp: clock_invar_def clock_keys_def clock_size_def)
  show "clock_invar (clock_insert p k s a b)" by (rule clock_insert_keeps(1) [OF inv])
  show "clock_invar (clock_touch p k s b)" by (rule clock_touch_keeps(1) [OF inv])
qed

section \<open>LRU: invariant and correctness\<close>

definition lru_keys :: "lru_policy \<Rightarrow> chunk_key set" where
  "lru_keys p = le_key ` set (lr_entries p)"

definition lru_invar :: "lru_policy \<Rightarrow> bool" where
  "lru_invar p \<longleftrightarrow> distinct (map le_key (lr_entries p))"

lemma lru_insert_map:
  "map le_key (lr_entries (lru_insert p k s a b)) =
     (if k \<in> lru_keys p then map le_key (lr_entries p) else map le_key (lr_entries p) @ [k])"
proof (cases "find_index (\<lambda>e. le_key e = k) (lr_entries p)")
  case None
  then show ?thesis
    using find_index_key_None [of le_key k "lr_entries p"] by (auto simp: lru_insert_def lru_keys_def)
next
  case (Some i)
  then show ?thesis
    using find_index_key_Some [OF Some]
    by (auto simp: lru_insert_def lru_keys_def intro!: map_list_update_same)
qed

lemma lru_insert_keeps:
  assumes "lru_invar p"
  shows "lru_invar (lru_insert p k s a b)" and "lru_keys (lru_insert p k s a b) = Set.insert k (lru_keys p)"
proof -
  show "lru_invar (lru_insert p k s a b)"
    using assms by (auto simp: lru_invar_def lru_insert_map lru_keys_def)
  have "lru_keys (lru_insert p k s a b) = set (map le_key (lr_entries (lru_insert p k s a b)))"
    by (simp add: lru_keys_def)
  also have "\<dots> = Set.insert k (lru_keys p)" unfolding lru_insert_map by (auto simp: lru_keys_def)
  finally show "lru_keys (lru_insert p k s a b) = Set.insert k (lru_keys p)" .
qed

lemma lru_erase_keeps:
  assumes "lru_invar p"
  shows "lru_invar (fst (lru_erase p k)) \<and> lru_keys (fst (lru_erase p k)) = lru_keys p - {k} \<and>
    (snd (lru_erase p k) \<longleftrightarrow> k \<in> lru_keys p)"
proof (cases "find_index (\<lambda>e. le_key e = k) (lr_entries p)")
  case None
  then show ?thesis
    using assms find_index_key_None [of le_key k "lr_entries p"] by (auto simp: lru_erase_def lru_keys_def)
next
  case (Some i)
  note i = find_index_key_Some [OF Some]
  have d: "distinct (map le_key (lr_entries p))" using assms by (simp add: lru_invar_def)
  show ?thesis
    using Some i set_remove_at_distinct [OF d i(1)] by (auto simp: lru_erase_def lru_keys_def lru_invar_def)
qed

text \<open>The rank by which the LRU policy orders the entries: cold before hot, then the age, then the key.\<close>

definition lru_rank :: "victim_candidate list \<Rightarrow> lru_entry \<Rightarrow> bool \<times> u64 \<times> chunk_key" where
  "lru_rank cs e =
     ((case find_candidate cs (le_key e) of None \<Rightarrow> True | Some c \<Rightarrow> vc_hot c),
      le_last_touch_sequence e, le_key e)"

lemma eligible_key_found:
  "eligible_key cs k \<longleftrightarrow> (\<exists>c. find_candidate cs k = Some c \<and> is_policy_candidate_eligible c)"
  by (auto simp: eligible_key_def split: option.split)

lemma lru_better_rank:
  assumes "eligible_key cs (le_key s)" and "find_candidate cs (le_key e) = Some c"
  shows "lru_better cs (Some s) e c \<longleftrightarrow> lru_rank cs e < lru_rank cs s"
  using assms by (auto simp: lru_better_def lru_rank_def eligible_key_found less_prod_def' split: option.splits)

lemma lru_scan_spec:
  assumes "\<forall>s. sel = Some s \<longrightarrow> eligible_key cs (le_key s)"
  shows "case lru_scan cs es sel of
      None \<Rightarrow> sel = None \<and> (\<forall>e\<in>set es. \<not> eligible_key cs (le_key e))
    | Some r \<Rightarrow> (r \<in> set es \<or> sel = Some r) \<and> eligible_key cs (le_key r) \<and>
        (\<forall>s. sel = Some s \<longrightarrow> lru_rank cs r \<le> lru_rank cs s) \<and>
        (\<forall>e\<in>set es. eligible_key cs (le_key e) \<longrightarrow> lru_rank cs r \<le> lru_rank cs e)"
  using assms
proof (induction es arbitrary: sel)
  case Nil
  then show ?case by (cases sel) auto
next
  case (Cons e es)
  show ?case
  proof (cases "eligible_key cs (le_key e)")
    case False
    then have scan: "lru_scan cs (e # es) sel = lru_scan cs es sel"
      by (auto simp: eligible_key_def split: option.split)
    show ?thesis unfolding scan using Cons.IH [OF Cons.prems] False by (cases "lru_scan cs es sel") simp_all
  next
    case True
    then obtain c where c: "find_candidate cs (le_key e) = Some c" "is_policy_candidate_eligible c"
      by (auto simp: eligible_key_found)
    define sel' where "sel' = (if lru_better cs sel e c then Some e else sel)"
    have scan: "lru_scan cs (e # es) sel = lru_scan cs es sel'" using c by (simp add: sel'_def)
    obtain s' where s': "sel' = Some s'" "eligible_key cs (le_key s')"
        "lru_rank cs s' \<le> lru_rank cs e" "s' = e \<or> sel = Some s'"
        "\<forall>s. sel = Some s \<longrightarrow> lru_rank cs s' \<le> lru_rank cs s"
    proof (cases sel)
      case None
      then show ?thesis using that [of e] True by (simp add: sel'_def lru_better_def)
    next
      case (Some s)
      then have "eligible_key cs (le_key s)" using Cons.prems by simp
      then show ?thesis
        using that [of e] that [of s] Some True lru_better_rank [of cs s e c] c
        by (cases "lru_better cs sel e c") (auto simp: sel'_def not_less)
    qed
    then have "\<forall>s. sel' = Some s \<longrightarrow> eligible_key cs (le_key s)" by simp
    from Cons.IH [OF this] show ?thesis
      unfolding scan using s' by (cases "lru_scan cs es sel'") (auto dest: order_trans)
  qed
qed

interpretation lru_p: victim_policy lru_insert lru_touch lru_erase lru_select_victim lru_size lru_keys lru_invar
proof unfold_locales
  fix p k s a b cs
  assume inv: "lru_invar p"
  show "lru_keys (lru_insert p k s a b) = Set.insert k (lru_keys p)"
    and "lru_keys (lru_touch p k s b) = Set.insert k (lru_keys p)"
    and "lru_invar (lru_insert p k s a b)" and "lru_invar (lru_touch p k s b)"
    unfolding lru_touch_def by (rule lru_insert_keeps [OF inv])+
  show "lru_keys (fst (lru_erase p k)) = lru_keys p - {k}" and "snd (lru_erase p k) = (k \<in> lru_keys p)"
    and "lru_invar (fst (lru_erase p k))"
    using lru_erase_keeps [OF inv, of k] by auto
  show "lru_keys (fst (lru_select_victim p cs)) = lru_keys p" and "lru_invar (fst (lru_select_victim p cs))"
    using inv by (simp_all add: lru_select_victim_def)
  show "k \<in> lru_keys p \<and> eligible_key cs k" if "snd (lru_select_victim p cs) = Some k"
    using that lru_scan_spec [of None cs "lr_entries p"]
    by (auto simp: lru_select_victim_def lru_keys_def split: option.splits)
  show "\<not> eligible_key cs k" if "snd (lru_select_victim p cs) = None" "k \<in> lru_keys p"
    using that lru_scan_spec [of None cs "lr_entries p"]
    by (auto simp: lru_select_victim_def lru_keys_def split: option.splits)
  show "finite (lru_keys p) \<and> lru_size p = card (lru_keys p)"
    using inv distinct_card [of "map le_key (lr_entries p)"]
    by (auto simp: lru_invar_def lru_keys_def lru_size_def)
qed


section \<open>Refinement to a set of keys\<close>

text \<open>
  A history of calls on a policy, and what it does to the set of tracked keys: the policy object
  behaves, for its tracked keys, as a plain set.
\<close>

datatype policy_op =
    Op_insert chunk_key u64 bool bool
  | Op_touch chunk_key u64 bool
  | Op_erase chunk_key
  | Op_select "victim_candidate list"

fun tracked_step :: "policy_op \<Rightarrow> chunk_key set \<Rightarrow> chunk_key set" where
  "tracked_step (Op_insert k s a b) K = Set.insert k K"
| "tracked_step (Op_touch k s b) K = Set.insert k K"
| "tracked_step (Op_erase k) K = K - {k}"
| "tracked_step (Op_select cs) K = K"

fun clock_step :: "policy_op \<Rightarrow> clock_policy \<Rightarrow> clock_policy" where
  "clock_step (Op_insert k s a b) p = clock_insert p k s a b"
| "clock_step (Op_touch k s b) p = clock_touch p k s b"
| "clock_step (Op_erase k) p = fst (clock_erase p k)"
| "clock_step (Op_select cs) p = fst (clock_select_victim p cs)"

fun lru_step :: "policy_op \<Rightarrow> lru_policy \<Rightarrow> lru_policy" where
  "lru_step (Op_insert k s a b) p = lru_insert p k s a b"
| "lru_step (Op_touch k s b) p = lru_touch p k s b"
| "lru_step (Op_erase k) p = fst (lru_erase p k)"
| "lru_step (Op_select cs) p = fst (lru_select_victim p cs)"

lemma clock_step_tracked:
  "clock_invar p \<Longrightarrow> clock_invar (clock_step op p) \<and> clock_keys (clock_step op p) = tracked_step op (clock_keys p)"
  by (cases op) (simp_all add: clock_p.keys_insert clock_p.keys_touch clock_p.keys_erase clock_p.keys_select
      clock_p.invar_insert clock_p.invar_touch clock_p.invar_erase clock_p.invar_select)

lemma lru_step_tracked:
  "lru_invar p \<Longrightarrow> lru_invar (lru_step op p) \<and> lru_keys (lru_step op p) = tracked_step op (lru_keys p)"
  by (cases op) (simp_all add: lru_p.keys_insert lru_p.keys_touch lru_p.keys_erase lru_p.keys_select
      lru_p.invar_insert lru_p.invar_touch lru_p.invar_erase lru_p.invar_select)

lemma clock_run_tracked:
  "clock_invar p \<Longrightarrow> clock_invar (fold clock_step ops p) \<and>
     clock_keys (fold clock_step ops p) = fold tracked_step ops (clock_keys p)"
  by (induction ops arbitrary: p) (simp_all add: clock_step_tracked)

lemma lru_run_tracked:
  "lru_invar p \<Longrightarrow> lru_invar (fold lru_step ops p) \<and>
     lru_keys (fold lru_step ops p) = fold tracked_step ops (lru_keys p)"
  by (induction ops arbitrary: p) (simp_all add: lru_step_tracked)

definition clock_initial :: clock_policy where
  "clock_initial = \<lparr>cl_entries = [], cl_hand = 0\<rparr>"

definition lru_initial :: lru_policy where
  "lru_initial = \<lparr>lr_entries = []\<rparr>"

lemma initial_policies [simp]:
  "clock_invar clock_initial" "lru_invar lru_initial" "clock_keys clock_initial = {}" "lru_keys lru_initial = {}"
  by (simp_all add: clock_initial_def lru_initial_def clock_invar_def lru_invar_def clock_keys_def lru_keys_def)

section \<open>Properties\<close>

text \<open>
  C30: After any sequence of calls (inserts, touches, erasures and victim selections, in any order)
  on fresh policies, CLOCK and LRU track exactly the same set of keys, the one a plain set would
  hold; keys stay unique, the size is the number of keys, and the hand stays a valid index.
\<close>

theorem policies_refine_key_set:
  "clock_keys (fold clock_step ops clock_initial) = fold tracked_step ops {} \<and>
   lru_keys (fold lru_step ops lru_initial) = fold tracked_step ops {} \<and>
   clock_invar (fold clock_step ops clock_initial) \<and> lru_invar (fold lru_step ops lru_initial) \<and>
   clock_size (fold clock_step ops clock_initial) = card (fold tracked_step ops {}) \<and>
   lru_size (fold lru_step ops lru_initial) = card (fold tracked_step ops {})"
  using clock_run_tracked [of clock_initial ops] lru_run_tracked [of lru_initial ops]
    clock_p.count_keys [of "fold clock_step ops clock_initial"]
    lru_p.count_keys [of "fold lru_step ops lru_initial"] by simp

text \<open>
  The victim CLOCK returns, exactly: among the entries of the cheapest class that is eligible,
  in the order of the hand, it is the first whose reference bit is clear, and the first of the class
  when every bit is set (the second chance); nothing is returned only when the class is empty.
\<close>

theorem clock_victim_exact:
  "snd (clock_select_victim p cs) =
     (let es = cl_entries p;
          cls = filter (in_class cs (cheapest_cost cs es) es) (clock_order p)
      in if cls = [] then None
         else case find (\<lambda>i. \<not> ce_referenced (es ! i)) cls of
                Some i \<Rightarrow> Some (ce_key (es ! i))
              | None \<Rightarrow> Some (ce_key (es ! hd cls)))"
  unfolding Let_def by (rule clock_select_cases(1))

text \<open>The inputs of the witnesses: three tracked chunks, one of them dirty, one hot.\<close>

definition policy_example_key :: "nat \<Rightarrow> chunk_key" where
  "policy_example_key n = ChunkKey (AllocationId 1) (of_nat n)"

definition policy_example_candidates :: "victim_candidate list" where
  "policy_example_candidates =
     map (\<lambda>(n, st, hot). \<lparr>vc_key = policy_example_key n, vc_state = st, vc_pin_count = 0, vc_in_flight = False,
            vc_in_current_working_set = (n = 3), vc_hot = hot\<rparr>)
       [(0, Resident_dirty, False), (1, Resident_clean, False), (2, Resident_clean, True),
        (3, Resident_clean, False)]"

definition policy_example_ops :: "policy_op list" where
  "policy_example_ops =
     map (\<lambda>n. Op_insert (policy_example_key n) (of_nat (10 + n)) False False) [0, 1, 2, 3]"

text \<open>
  The victim of CLOCK is tracked and eligible, and no eligible tracked entry is cheaper to evict
  by the policy's cost (dirty and hot chunks cost more, one-touch streams cost least).
\<close>

theorem clock_victim_cheapest:
  assumes "snd (clock_select_victim p cs) = Some k"
  shows "\<exists>e\<in>set (cl_entries p). \<exists>c. ce_key e = k \<and> entry_cost cs e = Some c \<and>
    (\<forall>e'\<in>set (cl_entries p). \<forall>c'. entry_cost cs e' = Some c' \<longrightarrow> c \<le> c')"
proof -
  obtain i where i: "i < length (cl_entries p)" "ce_key (cl_entries p ! i) = k"
      "entry_cost cs (cl_entries p ! i) = Some (cheapest_cost cs (cl_entries p))"
    using clock_select_sound_index [OF assms] by (auto simp: in_class_def)
  then show ?thesis using cheapest_cost_least nth_mem [OF i(1)] by blast
qed

theorem clock_victim_cheapest_witness:
  "\<exists>e\<in>set (cl_entries (fold clock_step policy_example_ops clock_initial)). \<exists>c.
     ce_key e = policy_example_key 1 \<and> entry_cost policy_example_candidates e = Some c \<and>
     (\<forall>e'\<in>set (cl_entries (fold clock_step policy_example_ops clock_initial)). \<forall>c'.
        entry_cost policy_example_candidates e' = Some c' \<longrightarrow> c \<le> c')"
  by (rule clock_victim_cheapest) code_simp

text \<open>
  The victim of LRU is tracked and eligible, and is the least of the eligible tracked entries by
  temperature (cold first), then last touch, then key.
\<close>

theorem lru_victim_least:
  assumes "snd (lru_select_victim p cs) = Some k"
  shows "\<exists>r\<in>set (lr_entries p). le_key r = k \<and> eligible_key cs k \<and>
    (\<forall>e\<in>set (lr_entries p). eligible_key cs (le_key e) \<longrightarrow> lru_rank cs r \<le> lru_rank cs e)"
  using assms lru_scan_spec [of None cs "lr_entries p"]
  by (auto simp: lru_select_victim_def split: option.splits)

theorem lru_victim_least_witness:
  "\<exists>r\<in>set (lr_entries (fold lru_step policy_example_ops lru_initial)).
     le_key r = policy_example_key 0 \<and> eligible_key policy_example_candidates (policy_example_key 0) \<and>
     (\<forall>e\<in>set (lr_entries (fold lru_step policy_example_ops lru_initial)).
        eligible_key policy_example_candidates (le_key e) \<longrightarrow>
        lru_rank policy_example_candidates r \<le> lru_rank policy_example_candidates e)"
  by (rule lru_victim_least) code_simp

text \<open>
  C31: Evicting through either policy as often as asked: the victims are distinct, tracked and
  eligible, exactly the victims leave the policy, and their number is the request or all eligible
  chunks, whichever is less, so that a request for space fails only when nothing is left to evict.
\<close>

theorem eviction_exact:
  assumes "clock_invar p" and "lru_invar q"
    and "evict_up_to clock_select_victim clock_erase n cs p = (p', ks)"
    and "evict_up_to lru_select_victim lru_erase n cs q = (q', ls)"
  shows "distinct ks \<and> set ks \<subseteq> {k \<in> clock_keys p. eligible_key cs k} \<and>
    clock_keys p' = clock_keys p - set ks \<and>
    length ks = min n (card {k \<in> clock_keys p. eligible_key cs k}) \<and>
    distinct ls \<and> set ls \<subseteq> {k \<in> lru_keys q. eligible_key cs k} \<and>
    lru_keys q' = lru_keys q - set ls \<and>
    length ls = min n (card {k \<in> lru_keys q. eligible_key cs k})"
  using clock_p.evict_up_to_spec [OF assms(1,3)] lru_p.evict_up_to_spec [OF assms(2,4)] by simp

definition policy_example_clock :: clock_policy where
  "policy_example_clock = fold clock_step policy_example_ops clock_initial"

definition policy_example_lru :: lru_policy where
  "policy_example_lru = fold lru_step policy_example_ops lru_initial"

lemma policy_example_invar: "clock_invar policy_example_clock" "lru_invar policy_example_lru"
  using clock_run_tracked [of clock_initial policy_example_ops] lru_run_tracked [of lru_initial policy_example_ops]
  by (simp_all add: policy_example_clock_def policy_example_lru_def)

theorem eviction_exact_witness:
  "distinct (snd (evict_up_to clock_select_victim clock_erase 2 policy_example_candidates policy_example_clock)) \<and>
   snd (evict_up_to clock_select_victim clock_erase 2 policy_example_candidates policy_example_clock) =
     [policy_example_key 1, policy_example_key 0] \<and>
   snd (evict_up_to lru_select_victim lru_erase 2 policy_example_candidates policy_example_lru) =
     [policy_example_key 0, policy_example_key 1]"
proof (intro conjI)
  show "distinct (snd (evict_up_to clock_select_victim clock_erase 2 policy_example_candidates policy_example_clock))"
    using eviction_exact [OF policy_example_invar surjective_pairing surjective_pairing,
        of 2 policy_example_candidates] by simp
qed code_simp+

end
