(* ===== verification/Residency_Budget.thy ===== *)
theory Residency_Budget
  imports Xv_Prelude
begin

text \<open>
The budget of device memory (\<open>src/src/residency/budget.hpp\<close>, \<open>budget.cpp\<close>):
  \<open>calculate_budget_target\<close> derives a safe target from the configured cap, the CUDA free bytes
  and the WDDM budget, and \<open>observe_safe_target\<close> moves the target in force with a hysteresis.
  Byte counters are 64-bit words; an operation that updates the state returns it first. The lemmas
  restate both over the natural numbers, where no saturation is visible.
\<close>

section \<open>Deriving a safe target\<close>

definition saturating_add :: "u64 \<Rightarrow> u64 \<Rightarrow> u64" where
  "saturating_add left right = (if right > max_u64 - left then max_u64 else left + right)"

definition saturating_subtract :: "u64 \<Rightarrow> u64 \<Rightarrow> u64" where
  "saturating_subtract left right = (if right \<ge> left then 0 else left - right)"

record wddm_budget_observation =
  wd_budget_bytes :: u64
  wd_current_usage_bytes :: u64

record budget_target_input =
  bi_configured_cap_bytes :: u64
  bi_cuda_free_bytes :: u64
  bi_managed_frame_bytes :: u64
  bi_wddm :: "wddm_budget_observation option"
  bi_device_headroom_bytes :: u64
  bi_chunk_bytes :: u64
  bi_maximum_working_set_bytes :: u64

datatype budget_target_error =
    Bt_none | Bt_invalid_configuration | Bt_arithmetic_overflow | Bt_below_minimum

fun budget_target_error_name :: "budget_target_error \<Rightarrow> string" where
  "budget_target_error_name Bt_none = ''none''"
| "budget_target_error_name Bt_invalid_configuration = ''invalid_configuration''"
| "budget_target_error_name Bt_arithmetic_overflow = ''arithmetic_overflow''"
| "budget_target_error_name Bt_below_minimum = ''below_minimum''"

record budget_target =
  bt_error :: budget_target_error
  bt_cuda_reclaimable_bytes :: u64
  bt_wddm_available_bytes :: "u64 option"
  bt_wddm_reclaimable_bytes :: "u64 option"
  bt_limiting_reclaimable_bytes :: u64
  bt_bytes_after_headroom :: u64
  bt_target_bytes :: u64
  bt_required_minimum_bytes :: u64
  bt_limited_by_configured_cap :: bool
  bt_limited_by_cuda :: bool
  bt_limited_by_wddm :: bool

definition budget_target_default :: budget_target where
  "budget_target_default =
     \<lparr>bt_error = Bt_none, bt_cuda_reclaimable_bytes = 0, bt_wddm_available_bytes = None,
      bt_wddm_reclaimable_bytes = None, bt_limiting_reclaimable_bytes = 0, bt_bytes_after_headroom = 0,
      bt_target_bytes = 0, bt_required_minimum_bytes = 0, bt_limited_by_configured_cap = False,
      bt_limited_by_cuda = False, bt_limited_by_wddm = False\<rparr>"

definition calculate_budget_target :: "budget_target_input \<Rightarrow> budget_target" where
  "calculate_budget_target input =
     (if bi_configured_cap_bytes input = 0 \<or> bi_chunk_bytes input = 0
      then budget_target_default\<lparr>bt_error := Bt_invalid_configuration\<rparr>
      else
        case (checked_multiply (bi_chunk_bytes input) 2,
              checked_align_up (bi_maximum_working_set_bytes input) (bi_chunk_bytes input)) of
          (Some two_chunks, Some aligned_working_set) \<Rightarrow>
            let minimum = max two_chunks aligned_working_set;
                cuda = saturating_add (bi_cuda_free_bytes input) (bi_managed_frame_bytes input);
                limiting = min (bi_configured_cap_bytes input) cuda;
                available = map_option (\<lambda>w. saturating_subtract (wd_budget_bytes w) (wd_current_usage_bytes w))
                              (bi_wddm input);
                wddm = map_option (\<lambda>a. saturating_add a (bi_managed_frame_bytes input)) available;
                limiting = (case wddm of None \<Rightarrow> limiting | Some w \<Rightarrow> min limiting w);
                after = saturating_subtract limiting (bi_device_headroom_bytes input);
                target = (after div bi_chunk_bytes input) * bi_chunk_bytes input
            in \<lparr>bt_error = (if target < minimum then Bt_below_minimum else Bt_none),
                bt_cuda_reclaimable_bytes = cuda,
                bt_wddm_available_bytes = available,
                bt_wddm_reclaimable_bytes = wddm,
                bt_limiting_reclaimable_bytes = limiting,
                bt_bytes_after_headroom = after,
                bt_target_bytes = target,
                bt_required_minimum_bytes = minimum,
                bt_limited_by_configured_cap = (bi_configured_cap_bytes input = limiting),
                bt_limited_by_cuda = (cuda = limiting),
                bt_limited_by_wddm = (case wddm of None \<Rightarrow> False | Some w \<Rightarrow> w = limiting)\<rparr>
        | _ \<Rightarrow> budget_target_default\<lparr>bt_error := Bt_arithmetic_overflow\<rparr>)"

lemma unat_saturating_add:
  "unat (saturating_add a b) = min (unat a + unat b) 18446744073709551615"
  using unat_add_u64 [of a b] by (auto simp: saturating_add_def gt_max_minus_iff unat_max_u64 min_def)

lemma unat_saturating_subtract: "unat (saturating_subtract a b) = unat a - unat b"
  by (auto simp: saturating_subtract_def word_le_nat_alt unat_sub_u64)

text \<open>What the counters allow, over the natural numbers and with no saturation.\<close>

definition reclaimable :: "budget_target_input \<Rightarrow> nat" where
  "reclaimable input =
     (let free = min (unat (bi_configured_cap_bytes input))
                   (unat (bi_cuda_free_bytes input) + unat (bi_managed_frame_bytes input))
      in case bi_wddm input of
           None \<Rightarrow> free
         | Some w \<Rightarrow> min free ((unat (wd_budget_bytes w) - unat (wd_current_usage_bytes w)) +
                              unat (bi_managed_frame_bytes input)))"

definition minimum_target :: "budget_target_input \<Rightarrow> nat" where
  "minimum_target input =
     (let c = unat (bi_chunk_bytes input)
      in max (2 * c) ((unat (bi_maximum_working_set_bytes input) + (c - 1)) div c * c))"

lemma align_up_nat:
  assumes "0 < (a :: nat)"
  shows "(v + (a - 1)) div a * a = (if v mod a = 0 then v else v + (a - v mod a))"
proof (cases "v mod a = 0")
  case True
  then obtain k where v: "v = a * k" using mod_0_imp_dvd by blast
  have "(a - 1 + k * a) div a = k" using assms by (subst div_mult_self1) simp_all
  then have "(a * k + (a - 1)) div a = k" by (simp only: ac_simps)
  then show ?thesis using True v by (simp add: mult.commute)
next
  case False
  let ?q = "v div a" and ?m = "v mod a"
  have m: "?m < a" using assms by simp
  have v: "v = a * ?q + ?m" by simp
  have "v + (a - 1) = a * (?q + 1) + (?m - 1)"
    using v assms False by (simp add: distrib_left)
  moreover have "?m - 1 < a" using m by simp
  ultimately have "(v + (a - 1)) div a = ?q + 1"
    using assms by (metis div_mult_self4 div_less add.right_neutral mult.commute nat_neq_iff)
  then have "(v + (a - 1)) div a * a = a * ?q + a" by (simp add: distrib_right mult.commute)
  also have "\<dots> = v + (a - ?m)" using v m by linarith
  finally show ?thesis using False by simp
qed

lemma checked_align_up_exact:
  assumes "a \<noteq> 0"
  shows "checked_align_up v a = Some r \<longleftrightarrow>
    unat r = (unat v + (unat a - 1)) div unat a * unat a \<and> (unat v + (unat a - 1)) div unat a * unat a < 18446744073709551616"
proof -
  have a: "0 < unat a" using assms by (simp add: unat_gt_0_iff)
  have m: "unat v mod unat a < unat a" using a by simp
  have s: "unat (a - v mod a) = unat a - unat v mod unat a" using m by (simp add: unat_sub_u64 unat_mod)
  have z: "v mod a = 0 \<longleftrightarrow> unat v mod unat a = 0" by (metis unat_eq_0_iff unat_mod)
  show ?thesis
    unfolding align_up_nat [OF a] using assms s z unat_u64_bound [of v]
    by (auto simp: checked_align_up_def checked_add_Some_iff Let_def unat_eq_iff_u64)
qed

text \<open>
  The target, exactly, in every case. A zero cap or chunk is a configuration error; a minimum
  that does not fit 64 bits is an overflow error; otherwise the target is the largest multiple of
  the chunk within what cap, CUDA and WDDM leave after the headroom (no saturation is visible), the
  minimum is two chunks or the aligned working set, and the call succeeds exactly when the target
  reaches the minimum.
\<close>

theorem calculate_budget_target_exact:
  "let r = calculate_budget_target input; c = unat (bi_chunk_bytes input)
   in if bi_configured_cap_bytes input = 0 \<or> c = 0 then bt_error r = Bt_invalid_configuration
      else if 18446744073709551616 \<le> minimum_target input then bt_error r = Bt_arithmetic_overflow
      else unat (bt_target_bytes r) = (reclaimable input - unat (bi_device_headroom_bytes input)) div c * c \<and>
        unat (bt_required_minimum_bytes r) = minimum_target input \<and>
        bt_error r = (if unat (bt_target_bytes r) < minimum_target input then Bt_below_minimum else Bt_none)"
proof (cases "bi_configured_cap_bytes input = 0 \<or> bi_chunk_bytes input = 0")
  case True
  then show ?thesis by (simp add: calculate_budget_target_def Let_def unat_eq_0_iff)
next
  case False
  let ?c = "bi_chunk_bytes input"
  have c: "?c \<noteq> 0" "0 < unat ?c" using False by (simp_all add: unat_gt_0_iff)
  let ?two = "checked_multiply ?c 2" and ?ws = "checked_align_up (bi_maximum_working_set_bytes input) ?c"
  show ?thesis
  proof (cases "?two = None \<or> ?ws = None")
    case True
    have "18446744073709551616 \<le> minimum_target input"
      using True checked_multiply_None_iff [of ?c 2] checked_align_up_None_iff [of "bi_maximum_working_set_bytes input" ?c]
      unfolding minimum_target_def Let_def align_up_nat [OF c(2)] using c by auto
    moreover have "bt_error (calculate_budget_target input) = Bt_arithmetic_overflow"
      using True False by (auto simp: calculate_budget_target_def split: option.splits)
    ultimately show ?thesis using False by (simp add: Let_def unat_eq_0_iff)
  next
    case no_overflow: False
    then obtain t w where t: "?two = Some t" and w: "?ws = Some w" by auto
    have tn: "unat t = 2 * unat ?c" and tb: "2 * unat ?c < 18446744073709551616"
      using t by (auto simp: checked_multiply_Some_iff)
    note wn = w [unfolded checked_align_up_exact [OF c(1)]]
    have m: "unat (max t w) = minimum_target input"
      using tn wn by (simp add: minimum_target_def unat_max Let_def)
    have bound: "minimum_target input < 18446744073709551616"
      using tb wn by (simp add: minimum_target_def Let_def)
    let ?r = "calculate_budget_target input"
    have lim: "unat (bt_limiting_reclaimable_bytes ?r) = reclaimable input"
      using False t w unat_u64_le [of "bi_configured_cap_bytes input"]
      by (cases "bi_wddm input")
        (simp_all add: calculate_budget_target_def reclaimable_def Let_def unat_min unat_saturating_add
          unat_saturating_subtract)
    have target: "unat (bt_target_bytes ?r) =
        (unat (bt_limiting_reclaimable_bytes ?r) - unat (bi_device_headroom_bytes input)) div unat ?c * unat ?c"
      using False t w by (simp add: calculate_budget_target_def Let_def unat_div_mult unat_saturating_subtract)
    have req: "bt_required_minimum_bytes ?r = max t w"
      and err: "bt_error ?r = (if bt_target_bytes ?r < max t w then Bt_below_minimum else Bt_none)"
      using False t w by (simp_all add: calculate_budget_target_def Let_def)
    show ?thesis
      using False bound target lim req err m by (simp add: Let_def unat_eq_0_iff word_less_nat_alt)
  qed
qed


section \<open>Hysteresis\<close>

record target_hysteresis_config =
  hc_chunk_bytes :: u64
  hc_safe_samples_before_growth :: u32
  hc_growth_chunks_per_cycle :: u32
  hc_growth_reserve_chunks :: u32

record target_hysteresis_state =
  hs_current_target_bytes :: u64
  hs_consecutive_safe_samples :: u32

datatype target_action = Ta_unchanged | Ta_shrink | Ta_grow | Ta_budget_pressure | Ta_invalid_configuration

fun target_action_name :: "target_action \<Rightarrow> string" where
  "target_action_name Ta_unchanged = ''unchanged''"
| "target_action_name Ta_shrink = ''shrink''"
| "target_action_name Ta_grow = ''grow''"
| "target_action_name Ta_budget_pressure = ''budget_pressure''"
| "target_action_name Ta_invalid_configuration = ''invalid_configuration''"

record target_decision =
  td_action :: target_action
  td_previous_target_bytes :: u64
  td_observed_safe_target_bytes :: u64
  td_effective_target_bytes :: u64
  td_consecutive_safe_samples :: u32

definition observe_safe_target ::
    "target_hysteresis_state \<Rightarrow> u64 \<Rightarrow> u64 \<Rightarrow> target_hysteresis_config \<Rightarrow>
     target_hysteresis_state \<times> target_decision" where
  "observe_safe_target state observed minimum config =
     (let current = hs_current_target_bytes state;
          chunk = hc_chunk_bytes config;
          result = \<lparr>td_action = Ta_unchanged, td_previous_target_bytes = current,
                    td_observed_safe_target_bytes = observed, td_effective_target_bytes = current,
                    td_consecutive_safe_samples = 0\<rparr>;
          aligned = (chunk \<noteq> 0 \<and> current mod chunk = 0 \<and> observed mod chunk = 0 \<and> minimum mod chunk = 0);
          growth_step = checked_multiply chunk (ucast (hc_growth_chunks_per_cycle config));
          growth_reserve = checked_multiply chunk (ucast (hc_growth_reserve_chunks config))
      in if \<not> aligned \<or> minimum = 0 \<or> hc_safe_samples_before_growth config = 0 \<or>
            hc_growth_chunks_per_cycle config = 0 \<or> growth_step = None \<or> growth_reserve = None
         then (state, result\<lparr>td_action := Ta_invalid_configuration,
                        td_consecutive_safe_samples := hs_consecutive_safe_samples state\<rparr>)
         else if observed < minimum
         then (\<lparr>hs_current_target_bytes = observed, hs_consecutive_safe_samples = 0\<rparr>,
               result\<lparr>td_action := Ta_budget_pressure, td_effective_target_bytes := observed\<rparr>)
         else if observed < current
         then (\<lparr>hs_current_target_bytes = observed, hs_consecutive_safe_samples = 0\<rparr>,
               result\<lparr>td_action := Ta_shrink, td_effective_target_bytes := observed\<rparr>)
         else
           let available_growth = observed - current
           in if available_growth < the growth_reserve
              then (state\<lparr>hs_consecutive_safe_samples := 0\<rparr>, result)
              else
                let samples = (if hs_consecutive_safe_samples state \<noteq> 4294967295
                               then hs_consecutive_safe_samples state + 1
                               else hs_consecutive_safe_samples state)
                in if samples < hc_safe_samples_before_growth config
                   then (state\<lparr>hs_consecutive_safe_samples := samples\<rparr>,
                         result\<lparr>td_consecutive_safe_samples := samples\<rparr>)
                   else
                     let grown = current + min available_growth (the growth_step)
                     in (\<lparr>hs_current_target_bytes = grown, hs_consecutive_safe_samples = 0\<rparr>,
                         result\<lparr>td_action := Ta_grow, td_effective_target_bytes := grown\<rparr>))"

text \<open>A configuration and minimum that the function accepts, whatever aligned sizes come.\<close>

definition hysteresis_ok :: "target_hysteresis_config \<Rightarrow> u64 \<Rightarrow> bool" where
  "hysteresis_ok config minimum \<longleftrightarrow>
     hc_chunk_bytes config \<noteq> 0 \<and> minimum \<noteq> 0 \<and> minimum mod hc_chunk_bytes config = 0 \<and>
     hc_safe_samples_before_growth config \<noteq> 0 \<and> hc_growth_chunks_per_cycle config \<noteq> 0 \<and>
     unat (hc_chunk_bytes config) * unat (hc_growth_chunks_per_cycle config) < 18446744073709551616 \<and>
     unat (hc_chunk_bytes config) * unat (hc_growth_reserve_chunks config) < 18446744073709551616"

definition growth_step_bytes :: "target_hysteresis_config \<Rightarrow> nat" where
  "growth_step_bytes config = unat (hc_chunk_bytes config) * unat (hc_growth_chunks_per_cycle config)"

definition growth_reserve_bytes :: "target_hysteresis_config \<Rightarrow> nat" where
  "growth_reserve_bytes config = unat (hc_chunk_bytes config) * unat (hc_growth_reserve_chunks config)"

lemma unat_ucast_u32_u64: "unat (ucast (x :: u32) :: u64) = unat x"
  using unat_u32_bound [of x] by (simp add: unsigned_ucast_eq take_bit_nat_eq_self)

lemma checked_multiply_ucast:
  assumes "unat c * unat (n :: u32) < 18446744073709551616"
  shows "checked_multiply c (ucast n) = Some (c * ucast n)" and "unat (c * ucast n) = unat c * unat n"
proof -
  show u: "unat (c * ucast n) = unat c * unat n"
    using assms by (simp add: unat_mult_u64 unat_ucast_u32_u64)
  show "checked_multiply c (ucast n) = Some (c * ucast n)"
    using assms u by (simp add: checked_multiply_Some_iff unat_ucast_u32_u64)
qed

text \<open>The five outcomes of an accepted observation, over the natural numbers.\<close>

lemma observe_cases:
  assumes ok: "hysteresis_ok config minimum"
    and al: "hs_current_target_bytes s mod hc_chunk_bytes config = 0" "obs mod hc_chunk_bytes config = 0"
    and cnt: "hs_consecutive_safe_samples s < hc_safe_samples_before_growth config"
  obtains
    (pressure) "obs < minimum"
      "fst (observe_safe_target s obs minimum config) = \<lparr>hs_current_target_bytes = obs, hs_consecutive_safe_samples = 0\<rparr>"
      "td_action (snd (observe_safe_target s obs minimum config)) = Ta_budget_pressure"
  | (shrink) "minimum \<le> obs" "obs < hs_current_target_bytes s"
      "fst (observe_safe_target s obs minimum config) = \<lparr>hs_current_target_bytes = obs, hs_consecutive_safe_samples = 0\<rparr>"
      "td_action (snd (observe_safe_target s obs minimum config)) = Ta_shrink"
  | (reset) "minimum \<le> obs" "hs_current_target_bytes s \<le> obs"
      "unat obs - unat (hs_current_target_bytes s) < growth_reserve_bytes config"
      "fst (observe_safe_target s obs minimum config) = s\<lparr>hs_consecutive_safe_samples := 0\<rparr>"
      "td_action (snd (observe_safe_target s obs minimum config)) = Ta_unchanged"
  | (count) "minimum \<le> obs" "hs_current_target_bytes s \<le> obs"
      "growth_reserve_bytes config \<le> unat obs - unat (hs_current_target_bytes s)"
      "Suc (unat (hs_consecutive_safe_samples s)) < unat (hc_safe_samples_before_growth config)"
      "unat (hs_consecutive_safe_samples (fst (observe_safe_target s obs minimum config))) =
         Suc (unat (hs_consecutive_safe_samples s))"
      "hs_current_target_bytes (fst (observe_safe_target s obs minimum config)) = hs_current_target_bytes s"
      "td_action (snd (observe_safe_target s obs minimum config)) = Ta_unchanged"
  | (grow) "minimum \<le> obs" "hs_current_target_bytes s \<le> obs"
      "growth_reserve_bytes config \<le> unat obs - unat (hs_current_target_bytes s)"
      "Suc (unat (hs_consecutive_safe_samples s)) = unat (hc_safe_samples_before_growth config)"
      "unat (hs_current_target_bytes (fst (observe_safe_target s obs minimum config))) =
         unat (hs_current_target_bytes s) + min (unat obs - unat (hs_current_target_bytes s)) (growth_step_bytes config)"
      "hs_consecutive_safe_samples (fst (observe_safe_target s obs minimum config)) = 0"
      "td_action (snd (observe_safe_target s obs minimum config)) = Ta_grow"
proof -
  let ?c = "hc_chunk_bytes config" and ?cur = "hs_current_target_bytes s"
  let ?n = "hs_consecutive_safe_samples s" and ?N = "hc_safe_samples_before_growth config"
  let ?step = "?c * ucast (hc_growth_chunks_per_cycle config)"
  let ?res = "?c * ucast (hc_growth_reserve_chunks config)"
  note [simp] = checked_multiply_ucast(1)
  have okd: "?c \<noteq> 0" "minimum \<noteq> 0" "minimum mod ?c = 0" "?N \<noteq> 0" "hc_growth_chunks_per_cycle config \<noteq> 0"
    "checked_multiply ?c (ucast (hc_growth_chunks_per_cycle config)) = Some ?step"
    "checked_multiply ?c (ucast (hc_growth_reserve_chunks config)) = Some ?res"
    "unat ?step = growth_step_bytes config" "unat ?res = growth_reserve_bytes config"
    using ok by (simp_all add: hysteresis_ok_def growth_step_bytes_def growth_reserve_bytes_def checked_multiply_ucast)
  have n: "unat ?n < unat ?N" "unat ?N < 4294967296" using cnt unat_u32_bound by (simp_all add: word_less_nat_alt)
  then have n1: "?n \<noteq> 4294967295" "unat (?n + 1) = Suc (unat ?n)"
    by (auto simp: unat_word_ariths)
  have avail: "unat (obs - ?cur) = unat obs - unat ?cur" if "?cur \<le> obs"
    using that by (simp add: unat_sub_u64 word_le_nat_alt)
  have step: "observe_safe_target s obs minimum config =
      (let result = \<lparr>td_action = Ta_unchanged, td_previous_target_bytes = ?cur,
                    td_observed_safe_target_bytes = obs, td_effective_target_bytes = ?cur,
                    td_consecutive_safe_samples = 0\<rparr> in
       if obs < minimum
         then (\<lparr>hs_current_target_bytes = obs, hs_consecutive_safe_samples = 0\<rparr>,
               result\<lparr>td_action := Ta_budget_pressure, td_effective_target_bytes := obs\<rparr>)
         else if obs < ?cur
         then (\<lparr>hs_current_target_bytes = obs, hs_consecutive_safe_samples = 0\<rparr>,
               result\<lparr>td_action := Ta_shrink, td_effective_target_bytes := obs\<rparr>)
         else if obs - ?cur < ?res then (s\<lparr>hs_consecutive_safe_samples := 0\<rparr>, result)
         else if ?n + 1 < ?N
         then (s\<lparr>hs_consecutive_safe_samples := ?n + 1\<rparr>, result\<lparr>td_consecutive_safe_samples := ?n + 1\<rparr>)
         else (\<lparr>hs_current_target_bytes = ?cur + min (obs - ?cur) ?step, hs_consecutive_safe_samples = 0\<rparr>,
               result\<lparr>td_action := Ta_grow, td_effective_target_bytes := ?cur + min (obs - ?cur) ?step\<rparr>))"
    using okd al n1 by (simp add: observe_safe_target_def Let_def)
  show thesis
  proof (cases "obs < minimum")
    case True
    then show thesis using pressure unfolding step by (simp add: Let_def)
  next
    case ge_min: False
    show thesis
    proof (cases "obs < ?cur")
      case True
      then show thesis using shrink ge_min unfolding step by (simp add: Let_def)
    next
      case ge_cur: False
      then have le: "?cur \<le> obs" "minimum \<le> obs" using ge_min by simp_all
      note av = avail [OF le(1)]
      show thesis
      proof (cases "obs - ?cur < ?res")
        case True
        then have "unat obs - unat ?cur < growth_reserve_bytes config" using av okd by (simp add: word_less_nat_alt)
        then show thesis using reset le True ge_min ge_cur unfolding step by (simp add: Let_def)
      next
        case room: False
        then have r: "growth_reserve_bytes config \<le> unat obs - unat ?cur" using av okd by (simp add: word_less_nat_alt)
        show thesis
        proof (cases "?n + 1 < ?N")
          case True
          then have "Suc (unat ?n) < unat ?N" using n1 by (simp add: word_less_nat_alt)
          then show thesis using count le r True ge_min ge_cur room n1 unfolding step by (simp add: Let_def)
        next
          case False
          then have "Suc (unat ?n) = unat ?N" using n n1 by (simp add: word_less_nat_alt)
          moreover have "unat (?cur + min (obs - ?cur) ?step) = unat ?cur + min (unat obs - unat ?cur) (growth_step_bytes config)"
            using av le(1) unat_u64_bound [of obs] okd
            by (subst unat_add_u64) (auto simp: unat_min word_le_nat_alt)
          ultimately show thesis using grow le r False ge_min ge_cur room unfolding step by (simp add: Let_def)
        qed
      qed
    qed
  qed
qed


lemma observe_keeps:
  assumes "hysteresis_ok config minimum"
    and "hs_current_target_bytes s mod hc_chunk_bytes config = 0" "obs mod hc_chunk_bytes config = 0"
    and "hs_consecutive_safe_samples s < hc_safe_samples_before_growth config"
  shows "hs_current_target_bytes (fst (observe_safe_target s obs minimum config)) \<le> obs \<and>
    hs_consecutive_safe_samples (fst (observe_safe_target s obs minimum config)) < hc_safe_samples_before_growth config \<and>
    hs_current_target_bytes (fst (observe_safe_target s obs minimum config)) mod hc_chunk_bytes config = 0"
proof -
  let ?s' = "fst (observe_safe_target s obs minimum config)"
  have N: "0 < hc_safe_samples_before_growth config" using assms(1) by (simp add: hysteresis_ok_def word_gt_0)
  have c: "hc_chunk_bytes config \<noteq> 0" using assms(1) by (simp add: hysteresis_ok_def)
  have dvd: "x mod hc_chunk_bytes config = 0 \<longleftrightarrow> unat (hc_chunk_bytes config) dvd unat x" for x
    by (simp add: dvd_eq_mod_eq_0 flip: unat_mod unat_eq_0_iff)
  from assms show ?thesis
  proof (cases rule: observe_cases)
    case count
    then show ?thesis using assms by (simp add: word_less_nat_alt)
  next
    case grow
    have le: "unat (hs_current_target_bytes ?s') \<le> unat obs" using grow(2,5) by (simp add: word_le_nat_alt)
    have "unat (hc_chunk_bytes config) dvd unat (hs_current_target_bytes ?s')"
      unfolding grow(5) using assms(2,3) by (auto simp: dvd growth_step_bytes_def min_def intro: dvd_add dvd_diff_nat)
    then show ?thesis using le grow N by (simp add: dvd word_le_nat_alt)
  qed (use assms N in \<open>simp_all add: \<close>)
qed

text \<open>
  One accepted observation never leaves the target above what was observed to be safe; it
  lowers the target at once when the observation is lower, keeps it aligned to the chunk, and raises
  it by no more than the configured step, as long as the observation reaches the minimum.
\<close>

theorem observe_safe_target_bounded:
  assumes "hysteresis_ok config minimum"
    and "hs_current_target_bytes s mod hc_chunk_bytes config = 0" and "obs mod hc_chunk_bytes config = 0"
    and "hs_consecutive_safe_samples s < hc_safe_samples_before_growth config"
  shows "let t = hs_current_target_bytes s;
             t' = hs_current_target_bytes (fst (observe_safe_target s obs minimum config))
    in t' \<le> obs \<and> t' mod hc_chunk_bytes config = 0 \<and> (obs < t \<longrightarrow> t' = obs) \<and>
       (minimum \<le> obs \<longrightarrow> unat t' \<le> unat t + growth_step_bytes config) \<and>
       (minimum \<le> obs \<and> t \<le> obs \<longrightarrow> t \<le> t')"
proof -
  note k = observe_keeps [OF assms]
  from assms show ?thesis
    by (cases rule: observe_cases) (use k in \<open>simp_all add: Let_def unat_arith_simps\<close>)
qed

definition hysteresis_example :: target_hysteresis_config where
  "hysteresis_example = \<lparr>hc_chunk_bytes = 4, hc_safe_samples_before_growth = 3,
     hc_growth_chunks_per_cycle = 2, hc_growth_reserve_chunks = 2\<rparr>"

theorem observe_safe_target_bounded_witness:
  "hs_current_target_bytes (fst (observe_safe_target
     \<lparr>hs_current_target_bytes = 40, hs_consecutive_safe_samples = 2\<rparr> 80 16 hysteresis_example)) = 48 \<and>
   hs_current_target_bytes (fst (observe_safe_target
     \<lparr>hs_current_target_bytes = 40, hs_consecutive_safe_samples = 2\<rparr> 80 16 hysteresis_example)) \<le> 80"
  using observe_safe_target_bounded [of hysteresis_example 16
      "\<lparr>hs_current_target_bytes = 40, hs_consecutive_safe_samples = 2\<rparr>" 80]
  by (simp add: hysteresis_example_def hysteresis_ok_def observe_safe_target_def checked_multiply_def max_u64_def Let_def)

section \<open>Histories of observations\<close>

definition observe_all ::
    "target_hysteresis_config \<Rightarrow> u64 \<Rightarrow> u64 list \<Rightarrow> target_hysteresis_state \<Rightarrow> target_hysteresis_state" where
  "observe_all config minimum obs s = fold (\<lambda>o' s. fst (observe_safe_target s o' minimum config)) obs s"

definition leaves_reserve :: "target_hysteresis_config \<Rightarrow> u64 \<Rightarrow> u64 \<Rightarrow> u64 \<Rightarrow> bool" where
  "leaves_reserve config minimum t obs \<longleftrightarrow>
     minimum \<le> obs \<and> t \<le> obs \<and> unat t + growth_reserve_bytes config \<le> unat obs"

lemma observe_all_snoc:
  "observe_all config minimum (h @ [x]) s = fst (observe_safe_target (observe_all config minimum h s) x minimum config)"
  by (simp add: observe_all_def)

definition counted :: "target_hysteresis_config \<Rightarrow> u64 \<Rightarrow> u64 list \<Rightarrow> target_hysteresis_state \<Rightarrow> bool" where
  "counted config minimum h s \<longleftrightarrow>
     hs_current_target_bytes s mod hc_chunk_bytes config = 0 \<and>
     hs_consecutive_safe_samples s < hc_safe_samples_before_growth config \<and>
     unat (hs_consecutive_safe_samples s) \<le> length h \<and>
     (\<forall>x\<in>set (drop (length h - unat (hs_consecutive_safe_samples s)) h).
        leaves_reserve config minimum (hs_current_target_bytes s) x)"

lemma counted_snoc:
  assumes ok: "hysteresis_ok config minimum" and c: "counted config minimum h s" and al: "x mod hc_chunk_bytes config = 0"
  shows "counted config minimum (h @ [x]) (fst (observe_safe_target s x minimum config))"
proof -
  let ?s' = "fst (observe_safe_target s x minimum config)"
  have s: "hs_current_target_bytes s mod hc_chunk_bytes config = 0"
    "hs_consecutive_safe_samples s < hc_safe_samples_before_growth config"
    using c by (simp_all add: counted_def)
  note k = observe_keeps [OF ok s(1) al s(2)]
  have zero: ?thesis if "hs_consecutive_safe_samples ?s' = 0" using k that by (simp add: counted_def)
  from ok s(1) al s(2) show ?thesis
  proof (cases rule: observe_cases)
    case count
    have "drop (length (h @ [x]) - Suc (unat (hs_consecutive_safe_samples s))) (h @ [x]) =
        drop (length h - unat (hs_consecutive_safe_samples s)) h @ [x]" by simp
    then show ?thesis
      using c k count by (auto simp: counted_def leaves_reserve_def word_le_nat_alt)
  qed (rule zero, simp)+
qed

lemma counted_run:
  assumes ok: "hysteresis_ok config minimum" and "hs_consecutive_safe_samples s = 0"
    and "hs_current_target_bytes s mod hc_chunk_bytes config = 0" and "\<forall>x\<in>set h. x mod hc_chunk_bytes config = 0"
  shows "counted config minimum h (observe_all config minimum h s)"
  using assms(4)
proof (induction h rule: rev_induct)
  case Nil
  then show ?case using assms by (simp add: counted_def observe_all_def hysteresis_ok_def word_gt_0)
next
  case (snoc x h)
  then show ?case unfolding observe_all_snoc by (intro counted_snoc [OF ok]) auto
qed

text \<open>
  Growth is earned. Whatever happened before, when an observation makes the target grow, it and
  the observations just before it, as many as the configuration asks for, all left the reserve above
  the target that was in force, and the growth is the configured step or the room there is.
\<close>

theorem growth_needs_safe_run:
  assumes "hysteresis_ok config minimum" and "hs_consecutive_safe_samples s = 0"
    and "hs_current_target_bytes s mod hc_chunk_bytes config = 0"
    and "\<forall>x\<in>set (h @ [obs]). x mod hc_chunk_bytes config = 0"
    and "td_action (snd (observe_safe_target (observe_all config minimum h s) obs minimum config)) = Ta_grow"
  shows "let t = hs_current_target_bytes (observe_all config minimum h s);
             N = unat (hc_safe_samples_before_growth config)
    in N \<le> length (h @ [obs]) \<and>
       (\<forall>x\<in>set (drop (length (h @ [obs]) - N) (h @ [obs])). leaves_reserve config minimum t x) \<and>
       unat (hs_current_target_bytes (observe_all config minimum (h @ [obs]) s)) =
         unat t + min (unat obs - unat t) (growth_step_bytes config)"
proof -
  let ?s = "observe_all config minimum h s"
  have c: "counted config minimum h ?s" using counted_run [OF assms(1-3), of h] assms(4) by simp
  then have s: "hs_current_target_bytes ?s mod hc_chunk_bytes config = 0"
    "hs_consecutive_safe_samples ?s < hc_safe_samples_before_growth config"
    by (simp_all add: counted_def)
  have al: "obs mod hc_chunk_bytes config = 0" using assms(4) by simp
  from assms(1) s(1) al s(2) show ?thesis
  proof (cases rule: observe_cases)
    case grow
    have N: "unat (hc_safe_samples_before_growth config) = Suc (unat (hs_consecutive_safe_samples ?s))"
      using grow by simp
    have "drop (length (h @ [obs]) - Suc (unat (hs_consecutive_safe_samples ?s))) (h @ [obs]) =
        drop (length h - unat (hs_consecutive_safe_samples ?s)) h @ [obs]" by simp
    then show ?thesis
      unfolding Let_def N observe_all_snoc using c grow
      by (auto simp: counted_def leaves_reserve_def word_le_nat_alt)
  qed (use assms(5) in simp_all)
qed

theorem growth_needs_safe_run_witness:
  "leaves_reserve hysteresis_example 16 40 60 \<and>
   hs_current_target_bytes (observe_all hysteresis_example 16 ([80, 40, 60, 60] @ [60])
     \<lparr>hs_current_target_bytes = 40, hs_consecutive_safe_samples = 0\<rparr>) = 48"
  using growth_needs_safe_run [of hysteresis_example 16
      "\<lparr>hs_current_target_bytes = 40, hs_consecutive_safe_samples = 0\<rparr>" "[80, 40, 60, 60]" 60]
  by (simp add: hysteresis_example_def hysteresis_ok_def observe_safe_target_def checked_multiply_def max_u64_def
      Let_def observe_all_def)


section \<open>Convergence\<close>

text \<open>
  A bound on the observations of a constant safe target that a state still needs: the samples of one
  growth for each chunk of room, less the ones already counted.
\<close>

definition samples_needed :: "target_hysteresis_config \<Rightarrow> u64 \<Rightarrow> target_hysteresis_state \<Rightarrow> nat" where
  "samples_needed config safe s =
     unat (hc_safe_samples_before_growth config) *
       ((unat safe - unat (hs_current_target_bytes s)) div unat (hc_chunk_bytes config)) +
     unat (hc_safe_samples_before_growth config) - unat (hs_consecutive_safe_samples s)"

definition settled :: "target_hysteresis_config \<Rightarrow> u64 \<Rightarrow> target_hysteresis_state \<Rightarrow> bool" where
  "settled config safe s \<longleftrightarrow>
     hs_current_target_bytes s \<le> safe \<and>
     unat safe - unat (hs_current_target_bytes s) < max (unat (hc_chunk_bytes config)) (growth_reserve_bytes config)"

lemma settled_or_progress:
  assumes ok: "hysteresis_ok config minimum"
    and al: "hs_current_target_bytes s mod hc_chunk_bytes config = 0" "safe mod hc_chunk_bytes config = 0"
    and cnt: "hs_consecutive_safe_samples s < hc_safe_samples_before_growth config"
    and safe: "minimum \<le> safe" "hs_current_target_bytes s \<le> safe"
  shows "let s' = fst (observe_safe_target s safe minimum config)
    in (settled config safe s \<longrightarrow> settled config safe s') \<and>
       (\<not> settled config safe s \<longrightarrow> samples_needed config safe s' < samples_needed config safe s)"
proof -
  let ?s' = "fst (observe_safe_target s safe minimum config)"
  let ?c = "unat (hc_chunk_bytes config)" and ?N = "unat (hc_safe_samples_before_growth config)"
  have g: "0 < unat (hc_growth_chunks_per_cycle config)" and c: "0 < ?c"
    using ok by (simp_all add: hysteresis_ok_def unat_gt_0_iff)
  have st: "?c \<le> growth_step_bytes config"
    unfolding growth_step_bytes_def using g by (cases "unat (hc_growth_chunks_per_cycle config)") simp_all
  have n: "unat (hs_consecutive_safe_samples s) < ?N" using cnt by (simp add: word_less_nat_alt)
  note k = observe_keeps [OF ok al cnt]
  from ok al cnt show ?thesis
  proof (cases rule: observe_cases)
    case reset
    then have "settled config safe s" and "settled config safe ?s'" by (simp_all add: settled_def)
    then show ?thesis by (simp add: Let_def)
  next
    case count
    then show ?thesis using n by (auto simp: Let_def settled_def samples_needed_def)
  next
    case grow
    let ?room = "unat safe - unat (hs_current_target_bytes s)"
    let ?room' = "unat safe - unat (hs_current_target_bytes ?s')"
    have r: "?room' = ?room - min ?room (growth_step_bytes config)" using grow(5) by simp
    have le: "hs_current_target_bytes ?s' \<le> safe" using k by simp
    have "settled config safe ?s'" if "settled config safe s" 
    proof -
      have "?room' \<le> ?room" unfolding r by (rule diff_le_self)
      then show ?thesis using that le unfolding settled_def by linarith
    qed
    moreover have "samples_needed config safe ?s' < samples_needed config safe s" if "\<not> settled config safe s"
    proof -
      have "?c \<le> ?room" using that grow(2) by (auto simp: settled_def)
      then have "?room' \<le> ?room - ?c" using r st by simp
      then have "?room' div ?c \<le> (?room - ?c) div ?c" by (rule div_le_mono)
      moreover have "?room div ?c = Suc ((?room - ?c) div ?c)" using c \<open>?c \<le> ?room\<close> by (rule le_div_geq)
      ultimately have "Suc (?room' div ?c) \<le> ?room div ?c" by simp
      then have "?N * Suc (?room' div ?c) \<le> ?N * (?room div ?c)" by (rule mult_le_mono2)
      then have "?N * (?room' div ?c) + ?N \<le> ?N * (?room div ?c)" by simp
      then show ?thesis using n grow(6) by (simp add: samples_needed_def)
    qed
    ultimately show ?thesis by (auto simp: Let_def)
  qed (use safe in \<open>auto simp: Let_def\<close>)
qed

lemma observe_all_replicate_Suc:
  "observe_all config minimum (replicate (Suc n) x) s =
     observe_all config minimum (replicate n x) (fst (observe_safe_target s x minimum config))"
  by (simp add: observe_all_def)

lemma settled_stays:
  assumes "hysteresis_ok config minimum" and "safe mod hc_chunk_bytes config = 0" and "minimum \<le> safe"
    and "settled config safe s" and "hs_current_target_bytes s mod hc_chunk_bytes config = 0"
    and "hs_consecutive_safe_samples s < hc_safe_samples_before_growth config"
  shows "settled config safe (observe_all config minimum (replicate m safe) s)"
  using assms(4-6)
proof (induction m arbitrary: s)
  case 0
  then show ?case by (simp add: observe_all_def)
next
  case (Suc m)
  have le: "hs_current_target_bytes s \<le> safe" using Suc.prems(1) by (simp add: settled_def)
  note k = observe_keeps [OF assms(1) Suc.prems(2) assms(2) Suc.prems(3)]
  note p = settled_or_progress [OF assms(1) Suc.prems(2) assms(2) Suc.prems(3) assms(3) le]
  show ?case unfolding observe_all_replicate_Suc using k p Suc.prems(1) by (intro Suc.IH) (auto simp: Let_def)
qed

text \<open>
  C32: The target converges. However low it starts, as many observations of one safe target as the
  bound says bring the target within the growth reserve (or one chunk) of it, and it stays there.
\<close>

theorem target_converges:
  assumes "hysteresis_ok config minimum"
    and "hs_current_target_bytes s mod hc_chunk_bytes config = 0" and "safe mod hc_chunk_bytes config = 0"
    and "hs_consecutive_safe_samples s < hc_safe_samples_before_growth config"
    and "minimum \<le> safe" and "hs_current_target_bytes s \<le> safe"
    and "samples_needed config safe s \<le> n"
  shows "settled config safe (observe_all config minimum (replicate n safe) s)"
  using assms(2,4,6,7)
proof (induction n arbitrary: s)
  case 0
  have "0 < unat (hc_safe_samples_before_growth config) - unat (hs_consecutive_safe_samples s)"
    using 0(2) by (simp add: word_less_nat_alt)
  then show ?case using 0(4) by (simp add: samples_needed_def)
next
  case (Suc n)
  let ?s' = "fst (observe_safe_target s safe minimum config)"
  note k = observe_keeps [OF assms(1) Suc.prems(1) assms(3) Suc.prems(2)]
  note p = settled_or_progress [OF assms(1) Suc.prems(1) assms(3) Suc.prems(2) assms(5) Suc.prems(3)]
  show ?case
  proof (cases "settled config safe s")
    case False
    then have "samples_needed config safe ?s' \<le> n" using p Suc.prems(4) by (simp add: Let_def)
    then show ?thesis unfolding observe_all_replicate_Suc using k by (intro Suc.IH) auto
  next
    case True
    then show ?thesis by (rule settled_stays [OF assms(1,3,5) _ Suc.prems(1,2)])
  qed
qed

theorem target_converges_witness:
  "settled hysteresis_example 80 (observe_all hysteresis_example 16 (replicate 33 80)
     \<lparr>hs_current_target_bytes = 40, hs_consecutive_safe_samples = 0\<rparr>)"
  by (rule target_converges)
    (simp_all add: hysteresis_example_def hysteresis_ok_def samples_needed_def)

text \<open>
  C38: What an observation does to the target, over the naturals, for every configuration, minimum, state and observation
  that are accepted. At or above the minimum the target falls to the observation, stays, or grows by at most the step, and
  it grows only when a run of safe samples with room for the reserve has earned it. Below the minimum the observation
  is adopted as it is, at once, above the current target as well as below it: there the growth is neither earned nor
  limited.
\<close>

lemma budget_pressure_raises_target:
  assumes "hysteresis_ok config minimum" "hs_current_target_bytes s mod hc_chunk_bytes config = 0"
    "observed mod hc_chunk_bytes config = 0" "hs_consecutive_safe_samples s < hc_safe_samples_before_growth config"
    and "observe_safe_target s observed minimum config = (s', decision)"
  shows "let current = hs_current_target_bytes s;
      earned = (growth_reserve_bytes config \<le> unat observed - unat current \<and>
        Suc (unat (hs_consecutive_safe_samples s)) = unat (hc_safe_samples_before_growth config))
    in (current < hs_current_target_bytes s' \<longleftrightarrow> current < observed \<and> (observed < minimum \<or> earned)) \<and>
       (observed < minimum \<longrightarrow> hs_current_target_bytes s' = observed \<and> hs_consecutive_safe_samples s' = 0 \<and>
          td_action decision = Ta_budget_pressure) \<and>
       (minimum \<le> observed \<longrightarrow> unat (hs_current_target_bytes s') =
          (if observed < current then unat observed
           else if earned then unat current + min (unat observed - unat current) (growth_step_bytes config)
           else unat current))"
proof -
  have step: "0 < growth_step_bytes config"
    using assms(1) by (simp add: growth_step_bytes_def hysteresis_ok_def unat_gt_0)
  have s': "s' = fst (observe_safe_target s observed minimum config)" "decision = snd (observe_safe_target s observed minimum config)"
    using assms(5) by simp_all
  from assms(1-4) show ?thesis
  proof (cases rule: observe_cases)
    case grow
    then show ?thesis using step by (auto simp: Let_def s' word_less_nat_alt word_le_nat_alt)
  qed (auto simp: Let_def s' word_less_nat_alt word_le_nat_alt)
qed

theorem budget_pressure_raises_target_witness:
  "fst (observe_safe_target \<lparr>hs_current_target_bytes = 4, hs_consecutive_safe_samples = 0\<rparr> 40 80 hysteresis_example) =
     \<lparr>hs_current_target_bytes = 40, hs_consecutive_safe_samples = 0\<rparr> \<and> growth_step_bytes hysteresis_example = 8"
  using budget_pressure_raises_target [of hysteresis_example 80 "\<lparr>hs_current_target_bytes = 4, hs_consecutive_safe_samples = 0\<rparr>" 40
      "fst (observe_safe_target \<lparr>hs_current_target_bytes = 4, hs_consecutive_safe_samples = 0\<rparr> 40 80 hysteresis_example)"
      "snd (observe_safe_target \<lparr>hs_current_target_bytes = 4, hs_consecutive_safe_samples = 0\<rparr> 40 80 hysteresis_example)"]
  by (simp add: hysteresis_example_def hysteresis_ok_def growth_step_bytes_def Let_def)

end
