(* ===== verification/Cache_Metrics.thy ===== *)
theory Cache_Metrics
  imports Xv_Prelude "HOL-Library.Monad_Syntax"
begin

text \<open>
The counters of the cache (\<open>src/src/residency/metrics.hpp\<close>, \<open>metrics.cpp\<close>): the
  reconciliation that checks their bookkeeping laws and the overflow-checked accumulation.
  \<open>std::optional\<close> is \<open>option\<close>, so the chain of checked additions is a sequence of binds
  in the order of the code.
\<close>

section \<open>Counters\<close>

record cache_metrics =
  cm_demand_accesses :: u64
  cm_cache_hits :: u64
  cm_cache_misses :: u64
  cm_prefetch_issued :: u64
  cm_prefetch_useful :: u64
  cm_prefetch_wasted :: u64
  cm_prefetch_cancelled :: u64
  cm_prefetch_in_flight :: u64
  cm_prefetch_promoted :: u64
  cm_clean_evictions :: u64
  cm_dirty_evictions :: u64
  cm_eviction_writebacks_completed :: u64
  cm_drain_writebacks_completed :: u64
  cm_writebacks_completed :: u64
  cm_mappings_completed :: u64
  cm_set_access_completed :: u64
  cm_unmaps_completed :: u64
  cm_active_mappings :: u64
  cm_handles_created :: u64
  cm_handles_released :: u64
  cm_live_handles :: u64
  cm_handle_reuses :: u64
  cm_h2d_bytes :: u64
  cm_d2h_bytes :: u64
  cm_resident_peak_bytes :: u64
  cm_target_peak_bytes :: u64
  cm_staging_slots_peak :: u32
  cm_staging_slots_capacity :: u32
  cm_unsafe_remaps :: u64

datatype metric_issue =
    Demand_accounting | Prefetch_accounting | Dirty_eviction_writeback_accounting
  | Total_writeback_accounting | Mapping_access_accounting | Mapping_lifecycle_accounting
  | Handle_lifecycle_accounting | Mappings_exceed_live_handles | Residency_exceeds_target
  | Staging_exceeds_capacity | Unsafe_remap

fun metric_issue_name :: "metric_issue \<Rightarrow> string" where
  "metric_issue_name Demand_accounting = ''demand_accounting''"
| "metric_issue_name Prefetch_accounting = ''prefetch_accounting''"
| "metric_issue_name Dirty_eviction_writeback_accounting = ''dirty_eviction_writeback_accounting''"
| "metric_issue_name Total_writeback_accounting = ''total_writeback_accounting''"
| "metric_issue_name Mapping_access_accounting = ''mapping_access_accounting''"
| "metric_issue_name Mapping_lifecycle_accounting = ''mapping_lifecycle_accounting''"
| "metric_issue_name Handle_lifecycle_accounting = ''handle_lifecycle_accounting''"
| "metric_issue_name Mappings_exceed_live_handles = ''mappings_exceed_live_handles''"
| "metric_issue_name Residency_exceeds_target = ''residency_exceeds_target''"
| "metric_issue_name Staging_exceeds_capacity = ''staging_exceeds_capacity''"
| "metric_issue_name Unsafe_remap = ''unsafe_remap''"

fun checked_sum_from :: "u64 \<Rightarrow> u64 list \<Rightarrow> u64 option" where
  "checked_sum_from acc [] = Some acc"
| "checked_sum_from acc (v # vs) =
     (case checked_add acc v of None \<Rightarrow> None | Some n \<Rightarrow> checked_sum_from n vs)"

definition checked_sum :: "u64 list \<Rightarrow> u64 option" where
  "checked_sum values = checked_sum_from 0 values"

definition metrics_contains :: "metric_issue list \<Rightarrow> metric_issue \<Rightarrow> bool" where
  "metrics_contains issues issue = List.member issues issue"

text \<open>\<open>record_if\<close>, with the conditions in the order of the code.\<close>

definition record_issues :: "(bool \<times> metric_issue) list \<Rightarrow> metric_issue list" where
  "record_issues checks = map snd (filter fst checks)"

definition reconcile_metrics :: "cache_metrics \<Rightarrow> metric_issue list" where
  "reconcile_metrics m =
     record_issues
       [(checked_sum [cm_cache_hits m, cm_cache_misses m] \<noteq> Some (cm_demand_accesses m), Demand_accounting),
        (checked_sum [cm_prefetch_useful m, cm_prefetch_wasted m, cm_prefetch_cancelled m,
            cm_prefetch_in_flight m] \<noteq> Some (cm_prefetch_issued m), Prefetch_accounting),
        (cm_dirty_evictions m \<noteq> cm_eviction_writebacks_completed m, Dirty_eviction_writeback_accounting),
        (checked_sum [cm_eviction_writebacks_completed m, cm_drain_writebacks_completed m] \<noteq>
            Some (cm_writebacks_completed m), Total_writeback_accounting),
        (cm_mappings_completed m \<noteq> cm_set_access_completed m, Mapping_access_accounting),
        (checked_sum [cm_unmaps_completed m, cm_active_mappings m] \<noteq> Some (cm_mappings_completed m),
            Mapping_lifecycle_accounting),
        (checked_sum [cm_handles_released m, cm_live_handles m] \<noteq> Some (cm_handles_created m),
            Handle_lifecycle_accounting),
        (cm_active_mappings m > cm_live_handles m, Mappings_exceed_live_handles),
        (cm_resident_peak_bytes m > cm_target_peak_bytes m, Residency_exceeds_target),
        (cm_staging_slots_peak m > cm_staging_slots_capacity m, Staging_exceeds_capacity),
        (cm_unsafe_remaps m \<noteq> 0, Unsafe_remap)]"

text \<open>The checked additions, in the order of the code, on a copy; then the high-water marks.\<close>

definition combine_metrics :: "cache_metrics \<Rightarrow> cache_metrics \<Rightarrow> cache_metrics option" where
  "combine_metrics a d = do {
     demand_accesses \<leftarrow> checked_add (cm_demand_accesses a) (cm_demand_accesses d);
     cache_hits \<leftarrow> checked_add (cm_cache_hits a) (cm_cache_hits d);
     cache_misses \<leftarrow> checked_add (cm_cache_misses a) (cm_cache_misses d);
     prefetch_issued \<leftarrow> checked_add (cm_prefetch_issued a) (cm_prefetch_issued d);
     prefetch_useful \<leftarrow> checked_add (cm_prefetch_useful a) (cm_prefetch_useful d);
     prefetch_wasted \<leftarrow> checked_add (cm_prefetch_wasted a) (cm_prefetch_wasted d);
     prefetch_cancelled \<leftarrow> checked_add (cm_prefetch_cancelled a) (cm_prefetch_cancelled d);
     prefetch_in_flight \<leftarrow> checked_add (cm_prefetch_in_flight a) (cm_prefetch_in_flight d);
     prefetch_promoted \<leftarrow> checked_add (cm_prefetch_promoted a) (cm_prefetch_promoted d);
     clean_evictions \<leftarrow> checked_add (cm_clean_evictions a) (cm_clean_evictions d);
     dirty_evictions \<leftarrow> checked_add (cm_dirty_evictions a) (cm_dirty_evictions d);
     eviction_writebacks_completed \<leftarrow>
       checked_add (cm_eviction_writebacks_completed a) (cm_eviction_writebacks_completed d);
     drain_writebacks_completed \<leftarrow>
       checked_add (cm_drain_writebacks_completed a) (cm_drain_writebacks_completed d);
     writebacks_completed \<leftarrow> checked_add (cm_writebacks_completed a) (cm_writebacks_completed d);
     mappings_completed \<leftarrow> checked_add (cm_mappings_completed a) (cm_mappings_completed d);
     set_access_completed \<leftarrow> checked_add (cm_set_access_completed a) (cm_set_access_completed d);
     unmaps_completed \<leftarrow> checked_add (cm_unmaps_completed a) (cm_unmaps_completed d);
     active_mappings \<leftarrow> checked_add (cm_active_mappings a) (cm_active_mappings d);
     handles_created \<leftarrow> checked_add (cm_handles_created a) (cm_handles_created d);
     handles_released \<leftarrow> checked_add (cm_handles_released a) (cm_handles_released d);
     live_handles \<leftarrow> checked_add (cm_live_handles a) (cm_live_handles d);
     handle_reuses \<leftarrow> checked_add (cm_handle_reuses a) (cm_handle_reuses d);
     h2d_bytes \<leftarrow> checked_add (cm_h2d_bytes a) (cm_h2d_bytes d);
     d2h_bytes \<leftarrow> checked_add (cm_d2h_bytes a) (cm_d2h_bytes d);
     unsafe_remaps \<leftarrow> checked_add (cm_unsafe_remaps a) (cm_unsafe_remaps d);
     Some
       \<lparr>cm_demand_accesses = demand_accesses, cm_cache_hits = cache_hits, cm_cache_misses = cache_misses,
        cm_prefetch_issued = prefetch_issued, cm_prefetch_useful = prefetch_useful,
        cm_prefetch_wasted = prefetch_wasted, cm_prefetch_cancelled = prefetch_cancelled,
        cm_prefetch_in_flight = prefetch_in_flight, cm_prefetch_promoted = prefetch_promoted,
        cm_clean_evictions = clean_evictions, cm_dirty_evictions = dirty_evictions,
        cm_eviction_writebacks_completed = eviction_writebacks_completed,
        cm_drain_writebacks_completed = drain_writebacks_completed,
        cm_writebacks_completed = writebacks_completed, cm_mappings_completed = mappings_completed,
        cm_set_access_completed = set_access_completed, cm_unmaps_completed = unmaps_completed,
        cm_active_mappings = active_mappings, cm_handles_created = handles_created,
        cm_handles_released = handles_released, cm_live_handles = live_handles,
        cm_handle_reuses = handle_reuses, cm_h2d_bytes = h2d_bytes, cm_d2h_bytes = d2h_bytes,
        cm_resident_peak_bytes = max (cm_resident_peak_bytes a) (cm_resident_peak_bytes d),
        cm_target_peak_bytes = max (cm_target_peak_bytes a) (cm_target_peak_bytes d),
        cm_staging_slots_peak = max (cm_staging_slots_peak a) (cm_staging_slots_peak d),
        cm_staging_slots_capacity = max (cm_staging_slots_capacity a) (cm_staging_slots_capacity d),
        cm_unsafe_remaps = unsafe_remaps\<rparr>
   }"

definition accumulate_metrics :: "cache_metrics \<Rightarrow> cache_metrics \<Rightarrow> cache_metrics \<times> bool" where
  "accumulate_metrics accumulator delta =
     (case combine_metrics accumulator delta of None \<Rightarrow> (accumulator, False) | Some c \<Rightarrow> (c, True))"

section \<open>What the checks mean\<close>

lemma checked_sum_from_Some:
  "checked_sum_from t vs = Some r \<longleftrightarrow>
     unat t + sum_list (map unat vs) < 18446744073709551616 \<and> unat r = unat t + sum_list (map unat vs)"
proof (induction vs arbitrary: t)
  case Nil
  then show ?case using unat_u64_bound [of t] by (auto simp: unat_eq_iff_u64)
next
  case (Cons v vs)
  show ?case
  proof (cases "checked_add t v")
    case None
    then have "18446744073709551616 \<le> unat t + unat v" by (simp add: checked_add_None_iff)
    then show ?thesis using None by simp
  next
    case (Some n)
    then have "unat n = unat t + unat v" by (simp add: checked_add_Some_iff)
    then show ?thesis using Cons.IH [of n] Some by (simp add: add.assoc)
  qed
qed

lemma checked_sum_Some:
  "checked_sum vs = Some r \<longleftrightarrow> unat r = sum_list (map unat vs)"
  using unat_u64_bound [of r] by (auto simp: checked_sum_def checked_sum_from_Some)

text \<open>The additive counters of a metrics value, in the order in which they are accumulated.\<close>

definition additive_counters :: "cache_metrics \<Rightarrow> nat list" where
  "additive_counters m = map unat
     [cm_demand_accesses m, cm_cache_hits m, cm_cache_misses m, cm_prefetch_issued m, cm_prefetch_useful m,
      cm_prefetch_wasted m, cm_prefetch_cancelled m, cm_prefetch_in_flight m, cm_prefetch_promoted m,
      cm_clean_evictions m, cm_dirty_evictions m, cm_eviction_writebacks_completed m,
      cm_drain_writebacks_completed m, cm_writebacks_completed m, cm_mappings_completed m,
      cm_set_access_completed m, cm_unmaps_completed m, cm_active_mappings m, cm_handles_created m,
      cm_handles_released m, cm_live_handles m, cm_handle_reuses m, cm_h2d_bytes m, cm_d2h_bytes m,
      cm_unsafe_remaps m]"

definition high_water_marks :: "cache_metrics \<Rightarrow> nat list" where
  "high_water_marks m =
     [unat (cm_resident_peak_bytes m), unat (cm_target_peak_bytes m), unat (cm_staging_slots_peak m),
      unat (cm_staging_slots_capacity m)]"

lemma checked_add_exact: "checked_add a b = Some c \<longleftrightarrow> unat c = unat a + unat b"
  using unat_u64_bound [of c] by (auto simp: checked_add_Some_iff)

lemma bind_SomeE:
  assumes "Option.bind m f = Some y"
  obtains x where "m = Some x" and "f x = Some y"
  using assms by (auto simp: bind_eq_Some_conv)

lemma combine_metrics_Some:
  "combine_metrics a d = Some c \<longleftrightarrow>
     additive_counters c = map2 (+) (additive_counters a) (additive_counters d) \<and>
     high_water_marks c = map2 max (high_water_marks a) (high_water_marks d)"
  (is "?L \<longleftrightarrow> ?R")
proof
  assume ?L
  then show ?R
    unfolding combine_metrics_def
    by (elim bind_SomeE, simp only: option.inject, hypsubst)
      (simp add: checked_add_exact additive_counters_def high_water_marks_def unat_max)
next
  assume R: ?R
  have marks: "cm_resident_peak_bytes c = max (cm_resident_peak_bytes a) (cm_resident_peak_bytes d)"
    "cm_target_peak_bytes c = max (cm_target_peak_bytes a) (cm_target_peak_bytes d)"
    "cm_staging_slots_peak c = max (cm_staging_slots_peak a) (cm_staging_slots_peak d)"
    "cm_staging_slots_capacity c = max (cm_staging_slots_capacity a) (cm_staging_slots_capacity d)"
    using R by (simp_all add: high_water_marks_def word_unat_eq_iff unat_max)
  have adds: "checked_add (cm_demand_accesses a) (cm_demand_accesses d) = Some (cm_demand_accesses c)"
    "checked_add (cm_cache_hits a) (cm_cache_hits d) = Some (cm_cache_hits c)"
    "checked_add (cm_cache_misses a) (cm_cache_misses d) = Some (cm_cache_misses c)"
    "checked_add (cm_prefetch_issued a) (cm_prefetch_issued d) = Some (cm_prefetch_issued c)"
    "checked_add (cm_prefetch_useful a) (cm_prefetch_useful d) = Some (cm_prefetch_useful c)"
    "checked_add (cm_prefetch_wasted a) (cm_prefetch_wasted d) = Some (cm_prefetch_wasted c)"
    "checked_add (cm_prefetch_cancelled a) (cm_prefetch_cancelled d) = Some (cm_prefetch_cancelled c)"
    "checked_add (cm_prefetch_in_flight a) (cm_prefetch_in_flight d) = Some (cm_prefetch_in_flight c)"
    "checked_add (cm_prefetch_promoted a) (cm_prefetch_promoted d) = Some (cm_prefetch_promoted c)"
    "checked_add (cm_clean_evictions a) (cm_clean_evictions d) = Some (cm_clean_evictions c)"
    "checked_add (cm_dirty_evictions a) (cm_dirty_evictions d) = Some (cm_dirty_evictions c)"
    "checked_add (cm_eviction_writebacks_completed a) (cm_eviction_writebacks_completed d) = Some (cm_eviction_writebacks_completed c)"
    "checked_add (cm_drain_writebacks_completed a) (cm_drain_writebacks_completed d) = Some (cm_drain_writebacks_completed c)"
    "checked_add (cm_writebacks_completed a) (cm_writebacks_completed d) = Some (cm_writebacks_completed c)"
    "checked_add (cm_mappings_completed a) (cm_mappings_completed d) = Some (cm_mappings_completed c)"
    "checked_add (cm_set_access_completed a) (cm_set_access_completed d) = Some (cm_set_access_completed c)"
    "checked_add (cm_unmaps_completed a) (cm_unmaps_completed d) = Some (cm_unmaps_completed c)"
    "checked_add (cm_active_mappings a) (cm_active_mappings d) = Some (cm_active_mappings c)"
    "checked_add (cm_handles_created a) (cm_handles_created d) = Some (cm_handles_created c)"
    "checked_add (cm_handles_released a) (cm_handles_released d) = Some (cm_handles_released c)"
    "checked_add (cm_live_handles a) (cm_live_handles d) = Some (cm_live_handles c)"
    "checked_add (cm_handle_reuses a) (cm_handle_reuses d) = Some (cm_handle_reuses c)"
    "checked_add (cm_h2d_bytes a) (cm_h2d_bytes d) = Some (cm_h2d_bytes c)"
    "checked_add (cm_d2h_bytes a) (cm_d2h_bytes d) = Some (cm_d2h_bytes c)"
    "checked_add (cm_unsafe_remaps a) (cm_unsafe_remaps d) = Some (cm_unsafe_remaps c)"
    using R by (simp_all add: additive_counters_def checked_add_exact)
  show ?L unfolding combine_metrics_def adds by (simp add: marks)
qed

text \<open>
  Accumulation is all or nothing. It succeeds exactly when every one of the additive counters
  has a sum that fits 64 bits; then each counter is that sum and each high-water mark the maximum;
  otherwise the accumulator is the one that was passed in.
\<close>

theorem accumulate_metrics_exact:
  "let (r, ok) = accumulate_metrics a d
   in ok = list_all (\<lambda>s. s < 18446744073709551616) (map2 (+) (additive_counters a) (additive_counters d)) \<and>
      (if ok then additive_counters r = map2 (+) (additive_counters a) (additive_counters d) \<and>
                  high_water_marks r = map2 max (high_water_marks a) (high_water_marks d)
       else r = a)"
proof (cases "combine_metrics a d")
  case (Some c)
  note c = Some [unfolded combine_metrics_Some]
  have "\<forall>s\<in>set (additive_counters c). s < 18446744073709551616"
    unfolding additive_counters_def by (auto simp: unat_u64_bound)
  then show ?thesis using c Some by (simp add: accumulate_metrics_def list_all_iff)
next
  case None
  have "\<exists>s\<in>set (map2 (+) (additive_counters a) (additive_counters d)). 18446744073709551616 \<le> s"
    using None
    by (auto simp: combine_metrics_def bind_eq_None_conv checked_add_None_iff additive_counters_def)
  then show ?thesis using None by (auto simp: accumulate_metrics_def Let_def not_less list_all_iff)
qed

text \<open>The bookkeeping laws, over the natural numbers.\<close>

definition metrics_balanced :: "cache_metrics \<Rightarrow> bool" where
  "metrics_balanced m \<longleftrightarrow>
     unat (cm_demand_accesses m) = unat (cm_cache_hits m) + unat (cm_cache_misses m) \<and>
     unat (cm_prefetch_issued m) = unat (cm_prefetch_useful m) + unat (cm_prefetch_wasted m) +
       unat (cm_prefetch_cancelled m) + unat (cm_prefetch_in_flight m) \<and>
     cm_dirty_evictions m = cm_eviction_writebacks_completed m \<and>
     unat (cm_writebacks_completed m) =
       unat (cm_eviction_writebacks_completed m) + unat (cm_drain_writebacks_completed m) \<and>
     cm_mappings_completed m = cm_set_access_completed m \<and>
     unat (cm_mappings_completed m) = unat (cm_unmaps_completed m) + unat (cm_active_mappings m) \<and>
     unat (cm_handles_created m) = unat (cm_handles_released m) + unat (cm_live_handles m) \<and>
     cm_active_mappings m \<le> cm_live_handles m \<and>
     cm_resident_peak_bytes m \<le> cm_target_peak_bytes m \<and>
     cm_staging_slots_peak m \<le> cm_staging_slots_capacity m \<and>
     cm_unsafe_remaps m = 0"

lemma record_issues_Nil: "record_issues cs = [] \<longleftrightarrow> (\<forall>c\<in>set cs. \<not> fst c)"
  by (simp add: record_issues_def filter_empty_conv)

lemma reconcile_balanced: "reconcile_metrics m = [] \<longleftrightarrow> metrics_balanced m"
  by (simp add: reconcile_metrics_def record_issues_Nil metrics_balanced_def checked_sum_Some not_less add.assoc)

text \<open>
  C33: The reconciliation reports no issue exactly when the bookkeeping laws hold over the natural
  numbers; a sum that does not fit 64 bits is reported, never wrapped into agreement.
\<close>

theorem reconcile_metrics_exact: "reconcile_metrics m = [] \<longleftrightarrow> metrics_balanced m"
  by (rule reconcile_balanced)


text \<open>
  Accumulating reconciled metrics gives reconciled metrics: when both values pass every check
  and the accumulation succeeds, the combined value passes every check too.
\<close>

theorem accumulate_keeps_reconciled:
  assumes "reconcile_metrics a = []" and "reconcile_metrics d = []"
    and "accumulate_metrics a d = (c, True)"
  shows "reconcile_metrics c = []"
proof -
  have "combine_metrics a d = Some c"
    using assms(3) by (simp add: accumulate_metrics_def split: option.splits)
  note c = this [unfolded combine_metrics_Some additive_counters_def high_water_marks_def, simplified]
  show ?thesis
    using assms(1,2) c unfolding reconcile_balanced metrics_balanced_def
    by (simp add: word_unat_eq_iff word_le_nat_alt max.coboundedI1 max.coboundedI2) 
qed

definition metrics_example :: cache_metrics where
  "metrics_example =
     \<lparr>cm_demand_accesses = 10, cm_cache_hits = 7, cm_cache_misses = 3, cm_prefetch_issued = 5,
      cm_prefetch_useful = 2, cm_prefetch_wasted = 1, cm_prefetch_cancelled = 1, cm_prefetch_in_flight = 1,
      cm_prefetch_promoted = 0, cm_clean_evictions = 4, cm_dirty_evictions = 2,
      cm_eviction_writebacks_completed = 2, cm_drain_writebacks_completed = 1, cm_writebacks_completed = 3,
      cm_mappings_completed = 9, cm_set_access_completed = 9, cm_unmaps_completed = 6, cm_active_mappings = 3,
      cm_handles_created = 5, cm_handles_released = 1, cm_live_handles = 4, cm_handle_reuses = 2,
      cm_h2d_bytes = 100, cm_d2h_bytes = 50, cm_resident_peak_bytes = 64, cm_target_peak_bytes = 80,
      cm_staging_slots_peak = 2, cm_staging_slots_capacity = 4, cm_unsafe_remaps = 0\<rparr>"

theorem accumulate_keeps_reconciled_witness:
  "snd (accumulate_metrics metrics_example metrics_example) \<and>
   reconcile_metrics (fst (accumulate_metrics metrics_example metrics_example)) = []"
proof
  show ok: "snd (accumulate_metrics metrics_example metrics_example)" by code_simp
  have e: "reconcile_metrics metrics_example = []" by code_simp
  show "reconcile_metrics (fst (accumulate_metrics metrics_example metrics_example)) = []"
    using accumulate_keeps_reconciled [OF e e, of "fst (accumulate_metrics metrics_example metrics_example)"] ok
    by (simp add: prod_eq_iff)
qed

end
