(* ===== verification/Cache_Workload.thy ===== *)
theory Cache_Workload
  imports Residency_Core
begin

text \<open>
The workload of the cache experiments (\<open>src/src/residency/workload.hpp\<close>,
  \<open>workload.cpp\<close>): the patterns and transforms of 32-bit words, the verification tokens and
  the 128-bit integrity digest. A span is a list of words; the loops over a span recurse on it with
  the running global index. The checked arithmetic of the same file is in \<open>Xv_Prelude\<close>;
  \<open>summarize_timings\<close> works on doubles and is not modelled.
\<close>

unbundle bit_operations_syntax

section \<open>Word patterns\<close>

definition write_only_initial_value :: u32 where
  "write_only_initial_value = 0xA5A5A5A5"

definition initial_word :: "u64 \<Rightarrow> u64 \<Rightarrow> u32" where
  "initial_word global_index seed =
     (let low = ucast global_index;
          high = ucast (drop_bit 32 global_index);
          seed_low = ucast seed;
          seed_high = ucast (drop_bit 32 seed);
          v = low XOR (high * 0x9E3779B9) XOR seed_low XOR (seed_high * 0x85EBCA6B);
          v = v XOR drop_bit 16 v;
          v = v * 0x7FEB352D;
          v = v XOR drop_bit 15 v;
          v = v * 0x846CA68B
      in v XOR drop_bit 16 v)"

definition operation_mix :: "u64 \<Rightarrow> u32 \<Rightarrow> u64 \<Rightarrow> u32" where
  "operation_mix global_index operation_index seed =
     (let low = ucast global_index;
          high = ucast (drop_bit 32 global_index);
          seed_low = ucast seed;
          seed_high = ucast (drop_bit 32 seed)
      in (low * 0x9E3779B9) XOR (high * 0x85EBCA6B) XOR seed_low XOR (seed_high * 0x165667B1) XOR
         ((operation_index + 1) * 0xC2B2AE35))"

definition transform_word :: "u32 \<Rightarrow> u64 \<Rightarrow> u32 \<Rightarrow> u64 \<Rightarrow> access_mode \<Rightarrow> u32" where
  "transform_word v global_index operation_index seed mode =
     (if mode = Read then v
      else
        let v = (if mode = Write_only then write_only_initial_value else v);
            v = v XOR operation_mix global_index operation_index seed;
            v = v * 0x0019660D + 0x3C6EF35F;
            v = v XOR drop_bit 16 v
        in v * 0x27D4EB2D)"

definition span_indices_fit :: "nat \<Rightarrow> u64 \<Rightarrow> bool" where
  "span_indices_fit n global_start \<longleftrightarrow> n = 0 \<or> n - 1 \<le> unat (max_u64 - global_start)"

text \<open>The loops fold over the words with the index \<open>global_start + index\<close>.\<close>

fun expected_token_loop :: "u32 list \<Rightarrow> u64 \<Rightarrow> u32 \<Rightarrow> u64 \<Rightarrow> access_mode \<Rightarrow> u32 \<Rightarrow> u32" where
  "expected_token_loop [] global_index operation_index seed mode token = token"
| "expected_token_loop (w # ws) global_index operation_index seed mode token =
     expected_token_loop ws (global_index + 1) operation_index seed mode
       (token XOR (transform_word w global_index operation_index seed mode XOR
          operation_mix global_index operation_index seed))"

definition expected_verification_token ::
    "u32 list \<Rightarrow> u64 \<Rightarrow> u32 \<Rightarrow> u64 \<Rightarrow> access_mode \<Rightarrow> u32 option" where
  "expected_verification_token input_words global_start operation_index seed mode =
     (if \<not> span_indices_fit (length input_words) global_start then None
      else Some (expected_token_loop input_words global_start operation_index seed mode 0))"

fun output_token_loop :: "u32 list \<Rightarrow> u64 \<Rightarrow> u32 \<Rightarrow> u64 \<Rightarrow> u32 \<Rightarrow> u32" where
  "output_token_loop [] global_index operation_index seed token = token"
| "output_token_loop (w # ws) global_index operation_index seed token =
     output_token_loop ws (global_index + 1) operation_index seed
       (token XOR (w XOR operation_mix global_index operation_index seed))"

definition verification_token_for_output :: "u32 list \<Rightarrow> u64 \<Rightarrow> u32 \<Rightarrow> u64 \<Rightarrow> u32 option" where
  "verification_token_for_output output_words global_start operation_index seed =
     (if \<not> span_indices_fit (length output_words) global_start then None
      else Some (output_token_loop output_words global_start operation_index seed 0))"

text \<open>What the kernel writes to a span: every word transformed at its own index.\<close>

fun transform_span :: "u32 list \<Rightarrow> u64 \<Rightarrow> u32 \<Rightarrow> u64 \<Rightarrow> access_mode \<Rightarrow> u32 list" where
  "transform_span [] global_index operation_index seed mode = []"
| "transform_span (w # ws) global_index operation_index seed mode =
     transform_word w global_index operation_index seed mode #
     transform_span ws (global_index + 1) operation_index seed mode"

lemma length_transform_span [simp]: "length (transform_span ws g op seed m) = length ws"
  by (induction ws arbitrary: g) auto

subsection \<open>The mixing is invertible\<close>

lemma mult_word_units:
  "x * 0x7FEB352D = y * (0x7FEB352D :: u32) \<longleftrightarrow> x = y"
  "x * 0x846CA68B = y * (0x846CA68B :: u32) \<longleftrightarrow> x = y"
  "x * 0x0019660D = y * (0x0019660D :: u32) \<longleftrightarrow> x = y"
  "x * 0x27D4EB2D = y * (0x27D4EB2D :: u32) \<longleftrightarrow> x = y"
  by (rule mult_unit_eq_iff [where d = "0x1d69e2a5"], simp)
    (rule mult_unit_eq_iff [where d = "0x43021123"], simp,
     rule mult_unit_eq_iff [where d = "0xfee058c5"], simp,
     rule mult_unit_eq_iff [where d = "0xfb699ca5"], simp)

lemmas mixing_eq_iffs = mult_word_units xorshift_eq_iff xor_left_inj xor_right_inj

lemma transform_word_inj:
  assumes "m \<noteq> Write_only"
  shows "transform_word v g op seed m = transform_word w g op seed m \<longleftrightarrow> v = w"
  using assms by (simp add: transform_word_def Let_def mixing_eq_iffs flip: xorshift_def)

lemma transform_word_write_only:
  "transform_word v g op seed Write_only = transform_word w g op seed Write_only"
  by (simp add: transform_word_def)

lemma initial_word_inj_low:
  assumes "drop_bit 32 g = drop_bit 32 h"
  shows "initial_word g seed = initial_word h seed \<longleftrightarrow> g = h"
proof -
  have "initial_word g seed = initial_word h seed \<longleftrightarrow> (ucast g :: u32) = ucast h"
    using assms by (simp add: initial_word_def Let_def mixing_eq_iffs flip: xorshift_def)
  also have "\<dots> \<longleftrightarrow> g = h"
  proof
    assume l: "(ucast g :: u32) = ucast h"
    show "g = h"
    proof (rule bit_word_eqI)
      fix n assume n: "n < LENGTH(64)"
      show "bit g n = bit h n"
      proof (cases "n < 32")
        case True
        then show ?thesis using arg_cong [OF l, of "\<lambda>w. bit w n"] by (simp add: bit_ucast_iff)
      next
        case False
        then have "bit g n = bit (drop_bit 32 g) (n - 32)" "bit h n = bit (drop_bit 32 h) (n - 32)"
          by (simp_all add: bit_drop_bit_eq)
        then show ?thesis using assms by simp
      qed
    qed
  qed simp
  finally show ?thesis .
qed


subsection \<open>Tokens\<close>

lemma expected_is_output_loop:
  "expected_token_loop ws g op seed m t = output_token_loop (transform_span ws g op seed m) g op seed t"
  by (induction ws arbitrary: g t) auto

lemma output_loop_acc:
  "output_token_loop ws g op seed t = t XOR output_token_loop ws g op seed 0"
proof (induction ws arbitrary: g t)
  case Nil
  then show ?case by simp
next
  case (Cons w ws)
  have "output_token_loop (w # ws) g op seed t =
      (t XOR (w XOR operation_mix g op seed)) XOR output_token_loop ws (g + 1) op seed 0"
    unfolding output_token_loop.simps by (rule Cons.IH)
  moreover have "output_token_loop (w # ws) g op seed 0 =
      (0 XOR (w XOR operation_mix g op seed)) XOR output_token_loop ws (g + 1) op seed 0"
    unfolding output_token_loop.simps by (rule Cons.IH)
  ultimately show ?case by (simp only: ac_simps xor.left_neutral)
qed

lemma output_loop_append:
  "output_token_loop (xs @ ys) g op seed t =
     output_token_loop ys (g + of_nat (length xs)) op seed (output_token_loop xs g op seed t)"
  by (induction xs arbitrary: g t) (simp_all add: algebra_simps)

lemma output_loop_append0:
  "output_token_loop (xs @ ys) g op seed 0 =
     output_token_loop xs g op seed 0 XOR output_token_loop ys (g + of_nat (length xs)) op seed 0"
  unfolding output_loop_append by (rule output_loop_acc)

lemma output_loop_Cons0:
  "output_token_loop (w # ws) g op seed 0 =
     (w XOR operation_mix g op seed) XOR output_token_loop ws (g + 1) op seed 0"
  using output_loop_acc [of ws "g + 1" op seed "w XOR operation_mix g op seed"] by simp

lemma output_loop_update:
  assumes "i < length ws"
  shows "output_token_loop (ws[i := v]) g op seed 0 = output_token_loop ws g op seed 0 \<longleftrightarrow> v = ws ! i"
proof -
  have ws: "ws = take i ws @ ws ! i # drop (Suc i) ws" using assms by (rule id_take_nth_drop)
  have up: "ws[i := v] = take i ws @ v # drop (Suc i) ws" using assms by (rule upd_conv_take_nth_drop)
  have "output_token_loop (take i ws @ x # drop (Suc i) ws) g op seed 0 =
      output_token_loop (take i ws) g op seed 0 XOR
      ((x XOR operation_mix (g + of_nat (length (take i ws))) op seed) XOR
        output_token_loop (drop (Suc i) ws) (g + of_nat (length (take i ws)) + 1) op seed 0)" for x
    unfolding output_loop_append0 output_loop_Cons0 ..
  then show ?thesis by (subst (2) ws) (simp add: up)
qed

text \<open>
  The token the host predicts from the words before an operation is the token it computes from
  the words the kernel should leave, for every mode, span and seed (both refuse the same spans).
\<close>

theorem expected_token_is_output_token:
  "expected_verification_token ws g op seed m =
     verification_token_for_output (transform_span ws g op seed m) g op seed"
  by (simp add: expected_verification_token_def verification_token_for_output_def expected_is_output_loop)

text \<open>
  A token catches every corruption of one word: changing one word of a span changes the token
  whenever it changes the word.
\<close>

theorem token_detects_one_word:
  assumes "span_indices_fit (length ws) g" and "i < length ws"
  shows "verification_token_for_output (ws[i := v]) g op seed = verification_token_for_output ws g op seed \<longleftrightarrow>
    v = ws ! i"
  using assms by (simp add: verification_token_for_output_def output_loop_update)

theorem token_detects_one_word_witness:
  "verification_token_for_output ([1, 2, 3][1 := 7]) 0xFFFFFFFFFFFFFFF0 5 42 \<noteq>
     verification_token_for_output [1, 2, 3] 0xFFFFFFFFFFFFFFF0 5 42"
  using token_detects_one_word [of "[1, 2, 3]" "0xFFFFFFFFFFFFFFF0" 1 7 5 42]
  by (simp add: span_indices_fit_def max_u64_def)

text \<open>
  Tokens of neighbouring spans combine: verifying a span in two pieces gives the tokens whose
  exclusive or is the token of the whole, and each piece is accepted when the whole is.
\<close>

theorem token_splits:
  assumes "span_indices_fit (length (xs @ ys)) g"
  shows "\<exists>a b. verification_token_for_output xs g op seed = Some a \<and>
    (ys \<noteq> [] \<longrightarrow> verification_token_for_output ys (g + of_nat (length xs)) op seed = Some b \<and>
       verification_token_for_output (xs @ ys) g op seed = Some (a XOR b))"
proof (cases "ys = []")
  case True
  then show ?thesis using assms by (simp add: verification_token_for_output_def)
next
  case False
  have m: "unat (max_u64 - x) = 18446744073709551615 - unat x" for x by (rule unat_max_u64_minus)
  have len: "length xs + length ys - 1 \<le> 18446744073709551615 - unat g" and ys: "0 < length ys"
    using assms False by (auto simp: span_indices_fit_def m)
  have g: "unat g + length xs < 18446744073709551616" using len ys unat_u64_le [of g] by linarith
  then have "unat (g + of_nat (length xs)) = unat g + length xs"
    by (simp add: unat_word_ariths unat_of_nat)
  then have "span_indices_fit (length xs) g" "span_indices_fit (length ys) (g + of_nat (length xs))"
    using len ys by (auto simp: span_indices_fit_def m)
  then show ?thesis
    using assms by (simp add: verification_token_for_output_def output_loop_append0)
qed

theorem token_splits_witness:
  "\<exists>a b. verification_token_for_output [1, 2] 100 5 42 = Some a \<and>
    ([3] \<noteq> ([] :: u32 list) \<longrightarrow> verification_token_for_output [3] (100 + of_nat (length [1 :: u32, 2])) 5 42 = Some b \<and>
       verification_token_for_output ([1, 2] @ [3]) 100 5 42 = Some (a XOR b))"
  by (rule token_splits) (simp add: span_indices_fit_def max_u64_def)

text \<open>
  The kernel's transform loses nothing and leaks nothing: in the modes that read the word it is
  a bijection of the word, in write-only mode the result does not depend on it, in read mode it is
  the identity; and initial patterns repeat only for indices that differ in their high halves.
\<close>

theorem transform_word_exact:
  "(m \<noteq> Write_only \<longrightarrow> bij (\<lambda>v. transform_word v g op seed m)) \<and>
   transform_word v g op seed Write_only = transform_word write_only_initial_value g op seed Read_write \<and>
   transform_word v g op seed Read = v \<and>
   (drop_bit 32 g = drop_bit 32 h \<longrightarrow> (initial_word g seed = initial_word h seed \<longleftrightarrow> g = h))"
proof (intro conjI impI)
  show "bij (\<lambda>v. transform_word v g op seed m)" if "m \<noteq> Write_only"
  proof -
    have "inj (\<lambda>v. transform_word v g op seed m)" using that by (intro injI) (simp add: transform_word_inj)
    then show ?thesis by (simp add: bij_def finite_UNIV_inj_surj)
  qed
qed (simp_all add: transform_word_def initial_word_inj_low)


theorem transform_word_exact_witness:
  "bij (\<lambda>v. transform_word v 7 1 42 Read_write) \<and> initial_word 3 42 \<noteq> initial_word 4 42"
  using transform_word_exact [of Read_write 7 1 42 0 7] transform_word_exact [of Read 3 1 42 0 4] by simp

section \<open>The integrity digest\<close>

definition avalanche64 :: "u64 \<Rightarrow> u64" where
  "avalanche64 v =
     (let v = v XOR drop_bit 30 v;
          v = v * 0xBF58476D1CE4E5B9;
          v = v XOR drop_bit 27 v;
          v = v * 0x94D049BB133111EB
      in v XOR drop_bit 31 v)"

record digest128_value =
  dv_low :: u64
  dv_high :: u64

record digest128_accumulator =
  da_low :: u64
  da_high :: u64
  da_count :: u64

definition digest128_initial :: digest128_accumulator where
  "digest128_initial = \<lparr>da_low = 0x243F6A8885A308D3, da_high = 0x13198A2E03707344, da_count = 0\<rparr>"

definition digest_update :: "digest128_accumulator \<Rightarrow> u32 \<Rightarrow> u64 \<Rightarrow> digest128_accumulator" where
  "digest_update a v global_index =
     (let key = avalanche64 (global_index XOR push_bit 32 (ucast v) XOR da_count a);
          low = da_low a XOR key;
          low = word_rotl 27 low * 0x3C79AC492BA7B653 + 0x1C69B3F74AC4AE35;
          high = da_high a + (key XOR word_rotl 17 global_index);
          high = word_rotl 31 high * 0x9E3779B185EBCA87 + 0xD1B54A32D192ED03
      in \<lparr>da_low = low, da_high = high, da_count = da_count a + 1\<rparr>)"

fun digest_update_loop :: "digest128_accumulator \<Rightarrow> u32 list \<Rightarrow> u64 \<Rightarrow> digest128_accumulator" where
  "digest_update_loop a [] global_index = a"
| "digest_update_loop a (v # vs) global_index =
     digest_update_loop (digest_update a v global_index) vs (global_index + 1)"

definition digest_update_words ::
    "digest128_accumulator \<Rightarrow> u32 list \<Rightarrow> u64 \<Rightarrow> digest128_accumulator \<times> bool" where
  "digest_update_words a vs first_global_index =
     (if length vs > unat (max_u64 - da_count a) \<or> \<not> span_indices_fit (length vs) first_global_index
      then (a, False)
      else (digest_update_loop a vs first_global_index, True))"

definition digest_value :: "digest128_accumulator \<Rightarrow> digest128_value" where
  "digest_value a =
     (let low = avalanche64 (da_low a XOR da_count a XOR 0xA0761D6478BD642F);
          high = avalanche64 (da_high a XOR word_rotl 32 (da_count a) XOR low XOR 0xE7037ED1A0B428DB)
      in \<lparr>dv_low = low, dv_high = high\<rparr>)"

definition hex_digits :: string where
  "hex_digits = ''0123456789abcdef''"

definition write_lane :: "u64 \<Rightarrow> string" where
  "write_lane lane = map (\<lambda>index. hex_digits ! unat (drop_bit ((15 - index) * 4) lane AND 0xF)) [0..<16]"

definition format_digest128 :: "digest128_value \<Rightarrow> string" where
  "format_digest128 digest = write_lane (dv_high digest) @ write_lane (dv_low digest)"

subsection \<open>Every step is injective\<close>

lemma word_rotl_eq_iff: "word_rotl n x = word_rotl n y \<longleftrightarrow> x = y"
  by (metis word_rot_lr)

lemma mult_digest_units:
  "x * 0x3C79AC492BA7B653 = y * (0x3C79AC492BA7B653 :: u64) \<longleftrightarrow> x = y"
  "x * 0x9E3779B185EBCA87 = y * (0x9E3779B185EBCA87 :: u64) \<longleftrightarrow> x = y"
  by (rule mult_unit_eq_iff [where d = "0xc09c5fe5bd6dfddb"], simp)
    (rule mult_unit_eq_iff [where d = "0x887493432badb37"], simp)

lemma avalanche64_eq_iff [simp]: "avalanche64 x = avalanche64 y \<longleftrightarrow> x = y"
  by (simp add: avalanche64_def Let_def xorshift_eq_iff flip: xorshift_def)

lemma push_ucast_eq_iff:
  "push_bit 32 (ucast (v :: u32) :: u64) = push_bit 32 (ucast w) \<longleftrightarrow> v = w"
proof
  assume e: "push_bit 32 (ucast v :: u64) = push_bit 32 (ucast w)"
  show "v = w"
  proof (rule bit_word_eqI)
    fix n assume "n < LENGTH(32)"
    then show "bit v n = bit w n"
      using arg_cong [OF e, of "\<lambda>x. bit x (n + 32)"] by (simp add: bit_push_bit_iff bit_ucast_iff)
  qed
qed simp

lemma digest_update_inj_value:
  assumes "v \<noteq> w"
  shows "da_low (digest_update a v g) \<noteq> da_low (digest_update a w g)"
  using assms by (simp add: digest_update_def Let_def mult_digest_units word_rotl_eq_iff push_ucast_eq_iff)

lemma digest_update_inj_low:
  assumes "da_low a \<noteq> da_low b" and "da_count a = da_count b"
  shows "da_low (digest_update a v g) \<noteq> da_low (digest_update b v g)"
  using assms by (simp add: digest_update_def Let_def mult_digest_units word_rotl_eq_iff)

lemma digest_update_count [simp]: "da_count (digest_update a v g) = da_count a + 1"
  by (simp add: digest_update_def Let_def)

lemma digest_loop_inj_low:
  assumes "da_low a \<noteq> da_low b" and "da_count a = da_count b"
  shows "da_low (digest_update_loop a vs g) \<noteq> da_low (digest_update_loop b vs g)"
  using assms by (induction vs arbitrary: a b g) (simp_all add: digest_update_inj_low)

lemma digest_loop_count: "da_count (digest_update_loop a vs g) = da_count a + of_nat (length vs)"
  by (induction vs arbitrary: a g) (simp_all add: algebra_simps)

lemma digest_loop_append:
  "digest_update_loop a (xs @ ys) g = digest_update_loop (digest_update_loop a xs g) ys (g + of_nat (length xs))"
  by (induction xs arbitrary: a g) (simp_all add: algebra_simps)

lemma digest_value_low_inj:
  assumes "da_count a = da_count b"
  shows "dv_low (digest_value a) = dv_low (digest_value b) \<longleftrightarrow> da_low a = da_low b"
  using assms by (simp add: digest_value_def Let_def)

text \<open>
  The digest catches every change of one word: whatever was digested before, changing one word of
  an accepted span gives a different digest value.
\<close>

theorem digest_detects_one_word:
  assumes "snd (digest_update_words a vs g)" and "i < length vs" and "v \<noteq> vs ! i"
  shows "digest_value (fst (digest_update_words a (vs[i := v]) g)) \<noteq>
    digest_value (fst (digest_update_words a vs g))"
proof -
  let ?b = "digest_update_loop a (take i vs) g" and ?h = "g + of_nat (length (take i vs))"
  have vs: "vs = take i vs @ vs ! i # drop (Suc i) vs" using assms(2) by (rule id_take_nth_drop)
  have up: "vs[i := v] = take i vs @ v # drop (Suc i) vs" using assms(2) by (rule upd_conv_take_nth_drop)
  have loop: "digest_update_loop a (take i vs @ x # drop (Suc i) vs) g =
      digest_update_loop (digest_update ?b x ?h) (drop (Suc i) vs) (?h + 1)" for x
    by (simp add: digest_loop_append)
  have "da_low (digest_update_loop a (vs[i := v]) g) \<noteq> da_low (digest_update_loop a vs g)"
    unfolding up loop using digest_update_inj_value [OF assms(3), of ?b ?h] digest_loop_inj_low
    by (subst (3) vs) (simp add: loop digest_loop_inj_low)
  moreover have "da_count (digest_update_loop a (vs[i := v]) g) = da_count (digest_update_loop a vs g)"
    by (simp add: digest_loop_count)
  ultimately have "dv_low (digest_value (digest_update_loop a (vs[i := v]) g)) \<noteq>
      dv_low (digest_value (digest_update_loop a vs g))"
    by (simp add: digest_value_low_inj)
  then show ?thesis
    using assms(1) by (auto simp: digest_update_words_def split: if_splits)
qed

theorem digest_detects_one_word_witness:
  "digest_value (fst (digest_update_words digest128_initial ([5, 6, 7][2 := 9]) 1000)) \<noteq>
     digest_value (fst (digest_update_words digest128_initial [5, 6, 7] 1000))"
  by (rule digest_detects_one_word) (simp_all add: digest_update_words_def digest128_initial_def
      span_indices_fit_def unat_max_u64_minus unat_max_u64)


text \<open>
  Digesting a span in pieces is digesting it whole: when the whole span is accepted, so is each
  piece, and the accumulator after the pieces is the one after the whole.
\<close>

theorem digest_in_pieces:
  assumes "snd (digest_update_words a (xs @ ys) g)"
  shows "digest_update_words a (xs @ ys) g =
    (case digest_update_words a xs g of (b, _) \<Rightarrow> digest_update_words b ys (g + of_nat (length xs)))"
proof -
  let ?b = "digest_update_loop a xs g"
  have fit: "length xs + length ys \<le> 18446744073709551615 - unat (da_count a)"
    "length xs + length ys \<le> Suc (18446744073709551615 - unat g)"
    using assms by (auto simp: digest_update_words_def span_indices_fit_def unat_max_u64_minus split: if_splits)
  have cnt: "unat (da_count ?b) = unat (da_count a) + length xs"
    using fit(1) unat_u64_le [of "da_count a"] unfolding digest_loop_count
    by (simp add: unat_word_ariths unat_of_nat)
  have start: "unat (g + of_nat (length xs)) = unat g + length xs" if "ys \<noteq> []"
    using that fit(2) unat_u64_le [of g] by (cases ys) (simp_all add: unat_word_ariths unat_of_nat)
  have px: "digest_update_words a xs g = (?b, True)"
    using fit by (auto simp: digest_update_words_def span_indices_fit_def unat_max_u64_minus)
  have "snd (digest_update_words ?b ys (g + of_nat (length xs)))"
    using fit cnt start
    by (cases ys) (auto simp: digest_update_words_def span_indices_fit_def unat_max_u64_minus)
  then have py: "digest_update_words ?b ys (g + of_nat (length xs)) =
      (digest_update_loop ?b ys (g + of_nat (length xs)), True)"
    by (auto simp: digest_update_words_def split: if_splits)
  show ?thesis
    using assms px py by (auto simp: digest_update_words_def digest_loop_append split: if_splits)
qed

theorem digest_in_pieces_witness:
  "digest_update_words digest128_initial ([5, 6] @ [7]) 1000 =
    (case digest_update_words digest128_initial [5, 6] 1000 of (b, _) \<Rightarrow>
       digest_update_words b [7] (1000 + of_nat (length [5 :: u32, 6])))"
  by (rule digest_in_pieces) (simp add: digest_update_words_def digest128_initial_def
      span_indices_fit_def unat_max_u64_minus unat_max_u64)

lemma hex_digits_distinct: "distinct hex_digits" and hex_digits_length: "length hex_digits = 16"
  by (simp_all add: hex_digits_def)

lemma nibble_bound: "unat (x AND 0xF :: u64) < 16"
proof -
  have "x AND 0xF = take_bit 4 x" by (simp add: take_bit_eq_mask mask_eq_exp_minus_1)
  then show ?thesis using unsigned_take_bit_eq [of 4 x, where 'a = nat] take_bit_nat_less_exp [of 4 "unat x"] by simp
qed

lemma write_lane_inj: "write_lane a = write_lane b \<longleftrightarrow> a = b"
proof
  assume e: "write_lane a = write_lane b"
  have nib: "drop_bit (4 * k) a AND 0xF = drop_bit (4 * k) b AND 0xF" if "k < 16" for k
  proof -
    have "write_lane a ! (15 - k) = write_lane b ! (15 - k)" using e by simp
    moreover have "[0..<16] ! (15 - k) = 15 - k" "15 - (15 - k) = k"
      using that nth_upt [of 0 "15 - k" 16] by simp_all
    ultimately have "hex_digits ! unat (drop_bit (4 * k) a AND 0xF) = hex_digits ! unat (drop_bit (4 * k) b AND 0xF)"
      using that by (simp add: write_lane_def mult.commute del: upt_Suc)
    then show ?thesis
      using nibble_bound
      by (simp add: nth_eq_iff_index_eq hex_digits_distinct hex_digits_length word_unat_eq_iff)
  qed
  show "a = b"
  proof (rule bit_word_eqI)
    fix n assume n: "n < LENGTH(64)"
    have b: "bit x n \<longleftrightarrow> bit (drop_bit (4 * (n div 4)) x AND 0xF) (n mod 4)" for x :: u64
    proof -
      have "bit (0xF :: u64) (n mod 4)"
      proof -
        have "(0xF :: u64) = mask 4" by (simp add: mask_eq_exp_minus_1)
        moreover have "n mod 4 < 4" by simp
        then have "bit (mask 4 :: u64) (n mod 4)" unfolding bit_mask_iff by simp
        ultimately show ?thesis by simp
      qed
      then show ?thesis by (simp add: bit_and_iff bit_drop_bit_eq)
    qed
    show "bit a n = bit b n" unfolding b [of a] b [of b] using n by (simp add: nib)
  qed
qed simp

lemma length_write_lane [simp]: "length (write_lane x) = 16"
  by (simp add: write_lane_def)

text \<open>
  The printed digest is 32 lower-case hexadecimal digits and determines the digest.
\<close>

theorem format_digest128_faithful:
  "length (format_digest128 d) = 32 \<and> set (format_digest128 d) \<subseteq> set hex_digits \<and>
   (format_digest128 d = format_digest128 e) = (d = e)"
proof (intro conjI)
  show "set (format_digest128 d) \<subseteq> set hex_digits"
    using nibble_bound nth_mem [of _ hex_digits]
    by (fastforce simp: format_digest128_def write_lane_def hex_digits_length)
  show "(format_digest128 d = format_digest128 e) = (d = e)"
    by (cases d; cases e) (auto simp: format_digest128_def write_lane_inj)
qed (simp add: format_digest128_def)

end
