(* ===== verification/Worker_Frames.thy ===== *)
theory Worker_Frames
  imports Xv_Prelude
begin

text \<open>
The framing shared by the worker protocols: little-endian integers, frames, the incremental
  decoder and the final payload. The five protocols of the program
  (\<open>src/src/{residency,vmm_poc,gemm_bench,compat_bench,compression_bench}/worker_protocol.cpp\<close>)
  have the same code up to the fields of \<open>frame_protocol\<close> and \<open>payload_rules\<close>; the general
  definitions follow \<open>compat_bench\<close>, which has every feature, and
  \<open>Worker_Protocols\<close> instantiates them. Bytes are 8-bit words; the error texts are the
  constructors of \<open>frame_error\<close> and \<open>payload_error\<close>.
\<close>

unbundle bit_operations_syntax

section \<open>Little-endian integers\<close>

definition append_u16 :: "u8 list \<Rightarrow> u16 \<Rightarrow> u8 list" where
  "append_u16 output v = output @ [ucast (v AND 0xFF), ucast (drop_bit 8 v AND 0xFF)]"

definition append_u32 :: "u8 list \<Rightarrow> u32 \<Rightarrow> u8 list" where
  "append_u32 output v = output @ map (\<lambda>shift. ucast (drop_bit shift v AND 0xFF)) [0, 8, 16, 24]"

definition append_u64 :: "u8 list \<Rightarrow> u64 \<Rightarrow> u8 list" where
  "append_u64 output v =
     output @ map (\<lambda>shift. ucast (drop_bit shift v AND 0xFF)) [0, 8, 16, 24, 32, 40, 48, 56]"

definition read_u16 :: "u8 list \<Rightarrow> u16" where
  "read_u16 input = ucast (input ! 0) OR push_bit 8 (ucast (input ! 1))"

definition read_u32 :: "u8 list \<Rightarrow> u32" where
  "read_u32 input = fold (\<lambda>index v. v OR push_bit (index * 8) (ucast (input ! index))) [0..<4] 0"

definition read_u64 :: "u8 list \<Rightarrow> u64" where
  "read_u64 input = fold (\<lambda>index v. v OR push_bit (index * 8) (ucast (input ! index))) [0..<8] 0"

lemma take_bit_Suc_byte:
  "take_bit (n + 8) (w :: 'a :: len word) = take_bit n w OR push_bit n (ucast (ucast (drop_bit n w) :: u8))"
  by (rule bit_word_eqI) (auto simp: bit_simps dest: bit_imp_le_length)

lemma read_append_u32: "read_u32 (append_u32 [] v @ rest) = v"
proof -
  have "v = take_bit (((0 + 8) + 8) + 8 + 8) v" by (simp add: take_bit_word_eq_self)
  also have "\<dots> = read_u32 (append_u32 [] v @ rest)"
    unfolding take_bit_Suc_byte by (simp add: read_u32_def append_u32_def byte_of upt_rec)
  finally show ?thesis by simp
qed

lemma read_append_u64: "read_u64 (append_u64 [] v @ rest) = v"
proof -
  have "v = take_bit (((((((0 + 8) + 8) + 8 + 8) + 8) + 8) + 8) + 8) v" by (simp add: take_bit_word_eq_self)
  also have "\<dots> = read_u64 (append_u64 [] v @ rest)"
    unfolding take_bit_Suc_byte by (simp add: read_u64_def append_u64_def byte_of upt_rec)
  finally show ?thesis by simp
qed

lemma read_append_u16: "read_u16 (append_u16 [] v @ rest) = v"
proof -
  have "v = take_bit ((0 + 8) + 8) v" by (simp add: take_bit_word_eq_self)
  also have "\<dots> = read_u16 (append_u16 [] v @ rest)"
    unfolding take_bit_Suc_byte by (simp add: read_u16_def append_u16_def byte_of)
  finally show ?thesis by simp
qed

lemma append_le_acc:
  "append_u16 out v = out @ append_u16 [] v" "append_u32 out w = out @ append_u32 [] w"
  "append_u64 out x = out @ append_u64 [] x"
  by (simp_all add: append_u16_def append_u32_def append_u64_def)

lemma length_append_le [simp]:
  "length (append_u16 [] v) = 2" "length (append_u32 [] w) = 4" "length (append_u64 [] x) = 8"
  by (simp_all add: append_u16_def append_u32_def append_u64_def)

text \<open>
  Writing is injective and there are as many integers as byte strings of their size, so every byte
  string is the encoding of the integer it reads as.
\<close>

lemma bytes_surj:
  fixes enc :: "'a :: len word \<Rightarrow> u8 list"
  assumes inj: "inj enc" and len: "\<And>w. length (enc w) = n" and n: "LENGTH('a) = 8 * n"
    and bs: "length bs = n"
  obtains w where "bs = enc w"
proof -
  have fin: "finite {xs :: u8 list. length xs = n}"
    using finite_lists_length_eq [of "UNIV :: u8 set" n] by simp
  have "card {xs :: u8 list. length xs = n} = card (UNIV :: u8 set) ^ n"
    using card_lists_length_eq [of "UNIV :: u8 set" n] by simp
  also have "\<dots> = card (range enc)"
    using inj n by (simp add: card_image card_word power_mult)
  finally have "range enc = {xs :: u8 list. length xs = n}"
    using fin len by (intro card_subset_eq) auto
  then show thesis using bs that by auto
qed

lemma append_read_u16: "length bs = 2 \<Longrightarrow> append_u16 [] (read_u16 bs) = bs"
  by (rule bytes_surj [of "append_u16 []" 2 bs])
    (auto intro!: injI dest: arg_cong [of _ _ read_u16] simp: read_append_u16 [where rest = "[]", simplified])

lemma append_read_u32: "length bs = 4 \<Longrightarrow> append_u32 [] (read_u32 bs) = bs"
  by (rule bytes_surj [of "append_u32 []" 4 bs])
    (auto intro!: injI dest: arg_cong [of _ _ read_u32] simp: read_append_u32 [where rest = "[]", simplified])

lemma append_read_u64: "length bs = 8 \<Longrightarrow> append_u64 [] (read_u64 bs) = bs"
  by (rule bytes_surj [of "append_u64 []" 8 bs])
    (auto intro!: injI dest: arg_cong [of _ _ read_u64] simp: read_append_u64 [where rest = "[]", simplified])


section \<open>Frames\<close>

text \<open>
  What distinguishes the protocols of the program: the magic, the raw values of the frame types that
  bound the valid ones, the type with the smaller trace limit, and whether the protocol is strict
  (it refuses sequence zero and keeps the plan-to-final state).
\<close>

record frame_protocol =
  fp_magic :: "u8 list"
  fp_version :: u16
  fp_plan :: u16
  fp_final :: u16
  fp_trace :: "u16 option"
  fp_strict :: bool

definition maximum_worker_payload_bytes :: nat where
  "maximum_worker_payload_bytes = 1024 * 1024"

definition maximum_trace_batch_bytes :: nat where
  "maximum_trace_batch_bytes = 64 * 1024"

definition frame_header_bytes :: nat where
  "frame_header_bytes = 20"

record worker_frame =
  wf_type :: u16
  wf_sequence :: u64
  wf_payload :: "u8 list"

definition valid_type :: "frame_protocol \<Rightarrow> u16 \<Rightarrow> bool" where
  "valid_type p raw \<longleftrightarrow> raw \<ge> fp_plan p \<and> raw \<le> fp_final p"

definition payload_limit :: "frame_protocol \<Rightarrow> u16 \<Rightarrow> nat" where
  "payload_limit p type = (if fp_trace p = Some type then maximum_trace_batch_bytes else maximum_worker_payload_bytes)"

text \<open>
  The bytes \<open>write_worker_frame\<close> puts on the stream, \<open>None\<close> when it refuses; that the stream
  accepts them is the stream's business.
\<close>

definition write_worker_frame :: "frame_protocol \<Rightarrow> u16 \<Rightarrow> u64 \<Rightarrow> u8 list \<Rightarrow> u8 list option" where
  "write_worker_frame p type sequence payload =
     (if (fp_strict p \<and> (\<not> valid_type p type \<or> sequence = 0)) \<or>
         length payload > payload_limit p type \<or> length payload > 4294967295
      then None
      else
        let header = fp_magic p;
            header = append_u16 header (fp_version p);
            header = append_u16 header type;
            header = append_u32 header (of_nat (length payload));
            header = append_u64 header sequence
        in Some (header @ payload))"

datatype decoder_phase = Awaiting_plan | Running | Finished

record frame_decoder =
  fd_buffer :: "u8 list"
  fd_last_sequence :: u64
  fd_have_sequence :: bool
  fd_phase :: decoder_phase

datatype frame_error =
    Null_buffer | Bad_magic | Bad_version | Bad_type | Payload_too_large | Sequence_not_increasing
  | Missing_plan | Duplicate_plan | After_final | Truncated_frame | Ended_before_final

definition decoder_initial :: frame_decoder where
  "decoder_initial =
     \<lparr>fd_buffer = [], fd_last_sequence = 0, fd_have_sequence = False, fd_phase = Awaiting_plan\<rparr>"

text \<open>One turn of the decoding loop: wait for more bytes, fail, or take a frame off the buffer.\<close>

datatype decode_step = Need_more | Reject frame_error | Decoded worker_frame frame_decoder

definition decode_one :: "frame_protocol \<Rightarrow> frame_decoder \<Rightarrow> decode_step" where
  "decode_one p d =
     (let buffer = fd_buffer d in
      if length buffer < frame_header_bytes then Need_more
      else if take 4 buffer \<noteq> fp_magic p then Reject Bad_magic
      else
        let version = read_u16 (drop 4 buffer);
            type = read_u16 (drop 6 buffer);
            payload_size = read_u32 (drop 8 buffer);
            sequence = read_u64 (drop 12 buffer)
        in if version \<noteq> fp_version p then Reject Bad_version
           else if \<not> valid_type p type then Reject Bad_type
           else if unat payload_size > payload_limit p type then Reject Payload_too_large
           else
             let frame_size = frame_header_bytes + unat payload_size
             in if length buffer < frame_size then Need_more
                else if (fp_strict p \<and> sequence = 0) \<or> (fd_have_sequence d \<and> sequence \<le> fd_last_sequence d)
                then Reject Sequence_not_increasing
                else if fp_strict p \<and> fd_phase d = Awaiting_plan \<and> type \<noteq> fp_plan p then Reject Missing_plan
                else if fp_strict p \<and> fd_phase d = Running \<and> type = fp_plan p then Reject Duplicate_plan
                else if fp_strict p \<and> fd_phase d = Finished then Reject After_final
                else Decoded
                  \<lparr>wf_type = type, wf_sequence = sequence,
                   wf_payload = take (unat payload_size) (drop frame_header_bytes buffer)\<rparr>
                  \<lparr>fd_buffer = drop frame_size buffer, fd_last_sequence = sequence, fd_have_sequence = True,
                   fd_phase = (if \<not> fp_strict p then fd_phase d
                               else if type = fp_plan p then Running
                               else if type = fp_final p then Finished else fd_phase d)\<rparr>)"

lemma decode_one_shrinks:
  "decode_one p d = Decoded f d' \<Longrightarrow> length (fd_buffer d') < length (fd_buffer d)"
  by (auto simp: decode_one_def Let_def frame_header_bytes_def split: if_splits)

function decode_loop :: "frame_protocol \<Rightarrow> frame_decoder \<Rightarrow> frame_decoder \<times> worker_frame list \<times> frame_error option" where
  "decode_loop p d =
     (case decode_one p d of
        Need_more \<Rightarrow> (d, [], None)
      | Reject e \<Rightarrow> (d, [], Some e)
      | Decoded f d' \<Rightarrow> (case decode_loop p d' of (d'', fs, e) \<Rightarrow> (d'', f # fs, e)))"
  by pat_completeness auto

termination
  by (relation "measure (\<lambda>(p, d). length (fd_buffer d))") (auto dest: decode_one_shrinks)

declare decode_loop.simps [simp del]

text \<open>
  \<open>append\<close>: the data is \<open>None\<close> for a null pointer with a size; the result is the decoder, the
  frames appended to \<open>frames\<close> and the error, if any.
\<close>

definition decoder_append ::
    "frame_protocol \<Rightarrow> frame_decoder \<Rightarrow> u8 list option \<Rightarrow> frame_decoder \<times> worker_frame list \<times> frame_error option" where
  "decoder_append p d data =
     (case data of
        None \<Rightarrow> (d, [], Some Null_buffer)
      | Some bytes \<Rightarrow> decode_loop p (d\<lparr>fd_buffer := fd_buffer d @ bytes\<rparr>))"

definition decoder_finish :: "frame_protocol \<Rightarrow> frame_decoder \<Rightarrow> frame_error option" where
  "decoder_finish p d =
     (if fd_buffer d \<noteq> [] then Some Truncated_frame
      else if fp_strict p \<and> fd_phase d \<noteq> Finished then Some Ended_before_final
      else None)"

subsection \<open>Feeding a stream in pieces\<close>

definition more :: "frame_decoder \<Rightarrow> u8 list \<Rightarrow> frame_decoder" where
  "more d bs = d\<lparr>fd_buffer := fd_buffer d @ bs\<rparr>"

lemma more_simps [simp]:
  "fd_buffer (more d bs) = fd_buffer d @ bs" "fd_last_sequence (more d bs) = fd_last_sequence d"
  "fd_have_sequence (more d bs) = fd_have_sequence d" "fd_phase (more d bs) = fd_phase d"
  "more d [] = d" "more (more d bs) cs = more d (bs @ cs)"
  by (simp_all add: more_def)

lemma read_prefix:
  "2 \<le> length xs \<Longrightarrow> read_u16 (xs @ ys) = read_u16 xs"
  "4 \<le> length xs \<Longrightarrow> read_u32 (xs @ ys) = read_u32 xs"
  "8 \<le> length xs \<Longrightarrow> read_u64 (xs @ ys) = read_u64 xs"
  by (auto simp: read_u16_def read_u32_def read_u64_def nth_append upt_rec)

text \<open>What a turn decides, it decides from a prefix of the buffer.\<close>

lemma decode_one_more:
  "(decode_one p d = Reject e \<longrightarrow> decode_one p (more d bs) = Reject e) \<and>
   (decode_one p d = Decoded f d' \<longrightarrow> decode_one p (more d bs) = Decoded f (more d' bs))"
proof (cases "length (fd_buffer d) < frame_header_bytes")
  case True
  then show ?thesis by (simp add: decode_one_def)
next
  case False
  then have l: "20 \<le> length (fd_buffer d)" by (simp add: frame_header_bytes_def)
  then have "take 4 (fd_buffer d @ bs) = take 4 (fd_buffer d)"
    "read_u16 (drop 4 (fd_buffer d @ bs)) = read_u16 (drop 4 (fd_buffer d))"
    "read_u16 (drop 6 (fd_buffer d @ bs)) = read_u16 (drop 6 (fd_buffer d))"
    "read_u32 (drop 8 (fd_buffer d @ bs)) = read_u32 (drop 8 (fd_buffer d))"
    "read_u64 (drop 12 (fd_buffer d @ bs)) = read_u64 (drop 12 (fd_buffer d))"
    by (simp_all add: read_prefix)
  then show ?thesis using l
    by (auto simp: decode_one_def Let_def frame_header_bytes_def more_def)
qed

lemma decode_loop_more:
  "decode_loop p d = (d', fs, e) \<Longrightarrow>
     decode_loop p (more d bs) =
       (case decode_loop p (more d' bs) of (d'', gs, e') \<Rightarrow> (d'', fs @ gs, e'))"
proof (induction p d arbitrary: d' fs e rule: decode_loop.induct)
  case (1 p d)
  show ?case
  proof (cases "decode_one p d")
    case Need_more
    then have "d' = d" "fs = []" using "1.prems" by (simp_all add: decode_loop.simps [of p d])
    then show ?thesis by (simp split: prod.split)
  next
    case (Reject e')
    then have "d' = d" "fs = []" using "1.prems" by (simp_all add: decode_loop.simps [of p d])
    then show ?thesis by (simp split: prod.split)
  next
    case (Decoded f d1)
    obtain fs' where fs: "fs = f # fs'" and loop: "decode_loop p d1 = (d', fs', e)"
      using "1.prems" Decoded by (auto simp: decode_loop.simps [of p d] split: prod.splits)
    have "decode_one p (more d bs) = Decoded f (more d1 bs)" using decode_one_more Decoded by blast
    then show ?thesis
      using "1.IH" [OF Decoded loop] fs by (simp add: decode_loop.simps [of p "more d bs"] split: prod.splits)
  qed
qed

text \<open>Feeding pieces one after another, the frames of all calls and the result of the last.\<close>

fun feed ::
    "frame_protocol \<Rightarrow> frame_decoder \<Rightarrow> u8 list list \<Rightarrow> frame_decoder \<times> worker_frame list \<times> frame_error option" where
  "feed p d [] = (d, [], None)"
| "feed p d [piece] = decoder_append p d (Some piece)"
| "feed p d (piece # pieces) =
     (case decoder_append p d (Some piece) of
        (d', fs, _) \<Rightarrow> (case feed p d' pieces of (d'', gs, e) \<Rightarrow> (d'', fs @ gs, e)))"

lemma decoder_append_more: "decoder_append p d (Some bs) = decode_loop p (more d bs)"
  by (simp add: decoder_append_def more_def)

lemma feed_concat:
  "pieces \<noteq> [] \<Longrightarrow> feed p d pieces = decode_loop p (more d (concat pieces))"
proof (induction p d pieces rule: feed.induct)
  case (3 p d piece q qs)
  obtain d' fs e where a: "decoder_append p d (Some piece) = (d', fs, e)" by (cases "decoder_append p d (Some piece)")
  then have "decode_loop p (more d piece) = (d', fs, e)" by (simp add: decoder_append_more)
  note more = decode_loop_more [OF this, of "concat (q # qs)"]
  show ?case using "3.IH" [OF a [symmetric]] a more by (simp split: prod.splits)
qed (simp_all add: decoder_append_more)


subsection \<open>The language of a protocol\<close>

text \<open>
  The sequences of frames a decoder may deliver: sequence numbers increase, types and sizes are the
  protocol's, and a strict protocol runs from its only plan frame to at most one final frame.
\<close>

definition plan_to_final :: "frame_protocol \<Rightarrow> u16 list \<Rightarrow> bool" where
  "plan_to_final p types \<longleftrightarrow>
     types = [] \<or> (hd types = fp_plan p \<and> fp_plan p \<notin> set (tl types) \<and> fp_final p \<notin> set (butlast types))"

definition frame_fits :: "frame_protocol \<Rightarrow> worker_frame \<Rightarrow> bool" where
  "frame_fits p f \<longleftrightarrow> valid_type p (wf_type f) \<and> length (wf_payload f) \<le> payload_limit p (wf_type f)"

definition protocol_frames :: "frame_protocol \<Rightarrow> worker_frame list \<Rightarrow> bool" where
  "protocol_frames p fs \<longleftrightarrow>
     sorted_wrt (<) (map wf_sequence fs) \<and> (\<forall>f\<in>set fs. frame_fits p f) \<and>
     (fp_strict p \<longrightarrow> (\<forall>f\<in>set fs. wf_sequence f \<noteq> 0) \<and> plan_to_final p (map wf_type fs))"

definition frame_bytes :: "frame_protocol \<Rightarrow> worker_frame \<Rightarrow> u8 list" where
  "frame_bytes p f =
     fp_magic p @ append_u16 [] (fp_version p) @ append_u16 [] (wf_type f) @
     append_u32 [] (of_nat (length (wf_payload f))) @ append_u64 [] (wf_sequence f) @ wf_payload f"

definition phase_after :: "frame_protocol \<Rightarrow> u16 list \<Rightarrow> decoder_phase" where
  "phase_after p types =
     (if types = [] then Awaiting_plan else if last types = fp_final p then Finished else Running)"

text \<open>The decoder after it delivered the frames \<open>hs\<close>.\<close>

definition delivered :: "frame_protocol \<Rightarrow> worker_frame list \<Rightarrow> frame_decoder \<Rightarrow> bool" where
  "delivered p hs d \<longleftrightarrow>
     protocol_frames p hs \<and> (fd_have_sequence d \<longleftrightarrow> hs \<noteq> []) \<and>
     (hs \<noteq> [] \<longrightarrow> fd_last_sequence d = wf_sequence (last hs)) \<and>
     (fp_strict p \<longrightarrow> fd_phase d = phase_after p (map wf_type hs))"

definition wf_protocol :: "frame_protocol \<Rightarrow> bool" where
  "wf_protocol p \<longleftrightarrow> length (fp_magic p) = 4 \<and> fp_plan p \<noteq> fp_final p"

lemma write_worker_frame_bytes:
  assumes "frame_fits p f" and "fp_strict p \<Longrightarrow> wf_sequence f \<noteq> 0"
  shows "write_worker_frame p (wf_type f) (wf_sequence f) (wf_payload f) = Some (frame_bytes p f)"
proof -
  have "payload_limit p (wf_type f) \<le> 1048576"
    by (simp add: payload_limit_def maximum_trace_batch_bytes_def maximum_worker_payload_bytes_def)
  then have len: "length (wf_payload f) \<le> 4294967295" using assms(1) by (simp add: frame_fits_def)
  show ?thesis
    using assms len
    by (auto simp: write_worker_frame_def frame_fits_def frame_bytes_def Let_def
        append_le_acc [of "fp_magic p"] append_le_acc [of "_ @ _"])
qed

lemma plan_to_final_snoc:
  assumes "fp_plan p \<noteq> fp_final p"
  shows "plan_to_final p (ts @ [t]) \<longleftrightarrow> plan_to_final p ts \<and>
    (phase_after p ts = Awaiting_plan \<longrightarrow> t = fp_plan p) \<and> (phase_after p ts = Running \<longrightarrow> t \<noteq> fp_plan p) \<and>
    phase_after p ts \<noteq> Finished"
proof (cases ts rule: rev_exhaust)
  case Nil
  then show ?thesis by (simp add: plan_to_final_def phase_after_def)
next
  case (snoc us u)
  then show ?thesis
    using assms by (cases us) (auto simp: plan_to_final_def phase_after_def butlast_append)
qed

lemma protocol_frames_snoc:
  assumes "wf_protocol p"
  shows "protocol_frames p (hs @ [f]) \<longleftrightarrow> protocol_frames p hs \<and> frame_fits p f \<and>
    (hs \<noteq> [] \<longrightarrow> wf_sequence (last hs) < wf_sequence f) \<and>
    (fp_strict p \<longrightarrow> wf_sequence f \<noteq> 0 \<and>
      (phase_after p (map wf_type hs) = Awaiting_plan \<longrightarrow> wf_type f = fp_plan p) \<and>
      (phase_after p (map wf_type hs) = Running \<longrightarrow> wf_type f \<noteq> fp_plan p) \<and>
      phase_after p (map wf_type hs) \<noteq> Finished)"
proof -
  have "sorted_wrt (<) (map wf_sequence (hs @ [f])) \<longleftrightarrow>
      sorted_wrt (<) (map wf_sequence hs) \<and> (hs \<noteq> [] \<longrightarrow> wf_sequence (last hs) < wf_sequence f)"
  proof (cases hs rule: rev_exhaust)
    case (snoc us u)
    then show ?thesis by (auto simp: sorted_wrt_append)
  qed simp
  then show ?thesis
    using assms by (auto simp: protocol_frames_def wf_protocol_def plan_to_final_snoc)
qed

lemma payload_limit_bound: "payload_limit p t < 4294967296"
  by (simp add: payload_limit_def maximum_trace_batch_bytes_def maximum_worker_payload_bytes_def)

lemma header_fields:
  assumes "length (fp_magic p) = 4" and "length (wf_payload f) \<le> payload_limit p (wf_type f)"
  shows "take 4 (frame_bytes p f @ rest) = fp_magic p"
    and "read_u16 (drop 4 (frame_bytes p f @ rest)) = fp_version p"
    and "read_u16 (drop 6 (frame_bytes p f @ rest)) = wf_type f"
    and "unat (read_u32 (drop 8 (frame_bytes p f @ rest))) = length (wf_payload f)"
    and "read_u64 (drop 12 (frame_bytes p f @ rest)) = wf_sequence f"
    and "drop 20 (frame_bytes p f @ rest) = wf_payload f @ rest"
    and "length (frame_bytes p f) = 20 + length (wf_payload f)"
proof -
  have n: "length (wf_payload f) < 4294967296" using assms(2) payload_limit_bound order.strict_trans1 by blast
  show "take 4 (frame_bytes p f @ rest) = fp_magic p" using assms(1) by (simp add: frame_bytes_def)
  show "read_u16 (drop 4 (frame_bytes p f @ rest)) = fp_version p"
    "read_u16 (drop 6 (frame_bytes p f @ rest)) = wf_type f"
    "read_u64 (drop 12 (frame_bytes p f @ rest)) = wf_sequence f"
    using assms(1) by (simp_all add: frame_bytes_def read_append_u16 read_append_u64)
  have "read_u32 (drop 8 (frame_bytes p f @ rest)) = of_nat (length (wf_payload f))"
    using assms(1) by (simp add: frame_bytes_def read_append_u32)
  then show "unat (read_u32 (drop 8 (frame_bytes p f @ rest))) = length (wf_payload f)"
    using n by (simp add: unat_of_nat)
  show "drop 20 (frame_bytes p f @ rest) = wf_payload f @ rest"
    "length (frame_bytes p f) = 20 + length (wf_payload f)"
    using assms(1) by (simp_all add: frame_bytes_def)
qed

lemma guards_Decoded:
  "(if c1 then Need_more else if c2 then Reject e2 else if c3 then Reject e3 else if c4 then Reject e4
    else if c5 then Reject e5 else if c6 then Need_more else if c7 then Reject e7 else if c8 then Reject e8
    else if c9 then Reject e9 else if c10 then Reject e10 else Decoded g x) = Decoded f y \<longleftrightarrow>
   \<not> c1 \<and> \<not> c2 \<and> \<not> c3 \<and> \<not> c4 \<and> \<not> c5 \<and> \<not> c6 \<and> \<not> c7 \<and> \<not> c8 \<and> \<not> c9 \<and> \<not> c10 \<and> g = f \<and> x = y"
  by auto

lemma decode_one_complete:
  assumes wf: "wf_protocol p" and d: "delivered p hs d" and f: "protocol_frames p (hs @ [f])"
    and buf: "fd_buffer d = frame_bytes p f @ rest"
  shows "\<exists>d'. decode_one p d = Decoded f d' \<and> delivered p (hs @ [f]) d' \<and> fd_buffer d' = rest"
proof -
  have m: "length (fp_magic p) = 4" and pf: "fp_plan p \<noteq> fp_final p" using wf by (simp_all add: wf_protocol_def)
  note f' = f [unfolded protocol_frames_snoc [OF wf]]
  have fits: "valid_type p (wf_type f)" "length (wf_payload f) \<le> payload_limit p (wf_type f)"
    using f' by (simp_all add: frame_fits_def)
  note h = header_fields(1-6) [OF m fits(2), of rest, folded buf] header_fields(7) [OF m fits(2)]
  have len: "length (fd_buffer d) = 20 + length (wf_payload f) + length rest"
    using h(7) buf by simp
  have drop: "drop (20 + length (wf_payload f)) (fd_buffer d) = rest"
    using h(6) by (simp add: drop_drop [symmetric] add.commute)
  let ?d' = "\<lparr>fd_buffer = rest, fd_last_sequence = wf_sequence f, fd_have_sequence = True,
    fd_phase = (if \<not> fp_strict p then fd_phase d
                else if wf_type f = fp_plan p then Running
                else if wf_type f = fp_final p then Finished else fd_phase d)\<rparr>"
  have "decode_one p d = Decoded f ?d'"
    unfolding decode_one_def Let_def guards_Decoded h frame_header_bytes_def
    using len fits f' d drop by (auto simp: delivered_def not_less not_le)
  moreover have "delivered p (hs @ [f]) ?d'"
    using f f' d pf by (auto simp: delivered_def phase_after_def split: if_splits)
  ultimately show ?thesis by auto
qed

lemma decode_one_sound:
  assumes wf: "wf_protocol p" and d: "delivered p hs d" and dec: "decode_one p d = Decoded f d'"
  shows "delivered p (hs @ [f]) d' \<and> fd_buffer d = frame_bytes p f @ fd_buffer d'"
proof -
  let ?b = "fd_buffer d"
  let ?n = "unat (read_u32 (drop 8 ?b))"
  have m: "length (fp_magic p) = 4" and pf: "fp_plan p \<noteq> fp_final p" using wf by (simp_all add: wf_protocol_def)
  let ?f = "\<lparr>wf_type = read_u16 (drop 6 ?b), wf_sequence = read_u64 (drop 12 ?b),
    wf_payload = take ?n (drop 20 ?b)\<rparr>"
  let ?d' = "\<lparr>fd_buffer = drop (20 + ?n) ?b, fd_last_sequence = wf_sequence f, fd_have_sequence = True,
       fd_phase = (if \<not> fp_strict p then fd_phase d
                   else if wf_type f = fp_plan p then Running
                   else if wf_type f = fp_final p then Finished else fd_phase d)\<rparr>"
  note g = dec [unfolded decode_one_def Let_def guards_Decoded frame_header_bytes_def]
  have f: "?f = f" using g by blast
  have ty: "read_u16 (drop 6 ?b) = wf_type f" and seq: "read_u64 (drop 12 ?b) = wf_sequence f"
    and pay: "take ?n (drop 20 ?b) = wf_payload f" by (simp_all flip: f)
  note g = g [unfolded ty seq pay]
  have l: "20 + ?n \<le> length ?b" using g by (meson not_le)
  have magic: "take 4 ?b = fp_magic p" and ver: "read_u16 (drop 4 ?b) = fp_version p" using g by blast+
  have fits: "valid_type p (wf_type f)" "?n \<le> payload_limit p (wf_type f)" using g by (blast, meson not_le)
  have ord: "\<not> (fp_strict p \<and> wf_sequence f = 0)" "fd_have_sequence d \<Longrightarrow> fd_last_sequence d < wf_sequence f"
      "\<not> (fp_strict p \<and> fd_phase d = Awaiting_plan \<and> wf_type f \<noteq> fp_plan p)"
      "\<not> (fp_strict p \<and> fd_phase d = Running \<and> wf_type f = fp_plan p)"
      "\<not> (fp_strict p \<and> fd_phase d = Finished)"
    using g by (blast, meson not_le, blast+)
  have d': "d' = ?d'" using g by blast
  have len: "length (wf_payload f) = ?n" using l by (simp flip: pay)
  have size: "of_nat (length (wf_payload f)) = read_u32 (drop 8 ?b)" unfolding len by simp
  have "frame_bytes p f = take 4 ?b @ take 2 (drop 4 ?b) @ take 2 (drop 6 ?b) @ take 4 (drop 8 ?b) @
      take 8 (drop 12 ?b) @ take ?n (drop 20 ?b)"
  proof -
    have "append_u16 [] (read_u16 (drop 4 ?b)) = take 2 (drop 4 ?b)"
      "append_u16 [] (read_u16 (drop 6 ?b)) = take 2 (drop 6 ?b)"
      "append_u32 [] (read_u32 (drop 8 ?b)) = take 4 (drop 8 ?b)"
      "append_u64 [] (read_u64 (drop 12 ?b)) = take 8 (drop 12 ?b)"
      using l append_read_u16 [of "take 2 (drop 4 ?b)"] append_read_u16 [of "take 2 (drop 6 ?b)"]
        append_read_u32 [of "take 4 (drop 8 ?b)"] append_read_u64 [of "take 8 (drop 12 ?b)"]
        read_prefix(1) [of "take 2 (drop 4 ?b)" "drop 2 (drop 4 ?b)"]
        read_prefix(1) [of "take 2 (drop 6 ?b)" "drop 2 (drop 6 ?b)"]
        read_prefix(2) [of "take 4 (drop 8 ?b)" "drop 4 (drop 8 ?b)"]
        read_prefix(3) [of "take 8 (drop 12 ?b)" "drop 8 (drop 12 ?b)"]
      by (simp_all del: drop_drop)
    then show ?thesis
      unfolding frame_bytes_def unfolding size unfolding pay [symmetric] seq [symmetric] ty [symmetric] ver [symmetric] magic [symmetric]
      by simp
  qed
  also have "\<dots> = take (20 + ?n) ?b"
    using take_add [of 4 2 ?b] take_add [of 6 2 ?b] take_add [of 8 4 ?b] take_add [of 12 8 ?b] take_add [of 20 ?n ?b]
    by simp
  finally have bytes: "?b = frame_bytes p f @ fd_buffer d'" using d' by simp
  have "protocol_frames p (hs @ [f])"
    unfolding protocol_frames_snoc [OF wf] using d fits ord len by (auto simp: delivered_def frame_fits_def)
  moreover have "fd_phase d' = phase_after p (map wf_type (hs @ [f]))" if s: "fp_strict p"
  proof -
    have "phase_after p (map wf_type (hs @ [f])) = (if wf_type f = fp_final p then Finished else Running)"
      by (simp add: phase_after_def)
    moreover have "fd_phase d = Awaiting_plan \<and> wf_type f = fp_plan p \<or> fd_phase d = Running \<and> wf_type f \<noteq> fp_plan p"
      using ord(3-5) s by (cases "fd_phase d") simp_all
    ultimately show ?thesis unfolding d' using s pf by (auto simp del: drop_drop)
  qed
  moreover have "fd_have_sequence d'" "fd_last_sequence d' = wf_sequence f" unfolding d' by simp_all
  ultimately show ?thesis using bytes by (simp add: delivered_def)
qed


lemma protocol_frames_prefix:
  assumes "wf_protocol p"
  shows "protocol_frames p (hs @ fs) \<Longrightarrow> protocol_frames p hs"
proof (induction fs rule: rev_induct)
  case (snoc f fs)
  then show ?case using protocol_frames_snoc [OF assms, of "hs @ fs" f] by simp
qed simp

locale wire_protocol =
  fixes p :: frame_protocol
  assumes wf: "wf_protocol p"
begin

lemma loop_sound:
  assumes "delivered p hs d" and "decode_loop p d = (d', fs, e)"
  shows "delivered p (hs @ fs) d' \<and> fd_buffer d = concat (map (frame_bytes p) fs) @ fd_buffer d'"
  using assms
proof (induction "length (fd_buffer d)" arbitrary: d hs fs rule: less_induct)
  case less
  show ?case
  proof (cases "decode_one p d")
    case (Decoded f d1)
    obtain gs where gs: "fs = f # gs" "decode_loop p d1 = (d', gs, e)"
      using less.prems(2) Decoded by (auto simp: decode_loop.simps [of p d] split: prod.splits)
    note one = decode_one_sound [OF wf less.prems(1) Decoded]
    show ?thesis
      using less.hyps [OF decode_one_shrinks [OF Decoded] conjunct1 [OF one] gs(2)] one gs(1) by simp
  qed (use less.prems in \<open>auto simp: decode_loop.simps [of p d]\<close>)
qed

lemma loop_complete:
  assumes "delivered p hs d" and "protocol_frames p (hs @ fs)"
    and "fd_buffer d = concat (map (frame_bytes p) fs)"
  shows "\<exists>d'. decode_loop p d = (d', fs, None) \<and> delivered p (hs @ fs) d' \<and> fd_buffer d' = []"
  using assms
proof (induction fs arbitrary: d hs)
  case Nil
  then have "decode_one p d = Need_more" by (simp add: decode_one_def frame_header_bytes_def)
  then show ?case using Nil by (simp add: decode_loop.simps [of p d])
next
  case (Cons f fs)
  have hf: "protocol_frames p (hs @ [f])" using protocol_frames_prefix [OF wf, of "hs @ [f]" fs] Cons.prems(2) by simp
  obtain d1 where d1: "decode_one p d = Decoded f d1" "delivered p (hs @ [f]) d1"
      "fd_buffer d1 = concat (map (frame_bytes p) fs)"
    using decode_one_complete [OF wf Cons.prems(1) hf] Cons.prems(3) by auto
  then obtain d' where "decode_loop p d1 = (d', fs, None)" "delivered p ((hs @ [f]) @ fs) d'" "fd_buffer d' = []"
    using Cons.IH [of "hs @ [f]" d1] Cons.prems(2) by auto
  then show ?case using d1(1) by (simp add: decode_loop.simps [of p d])
qed

lemma delivered_initial: "delivered p [] decoder_initial"
  by (simp add: delivered_def decoder_initial_def protocol_frames_def plan_to_final_def phase_after_def)

lemma finish_None:
  assumes "delivered p fs d" and "fd_buffer d = []"
  shows "decoder_finish p d = None \<longleftrightarrow> (fp_strict p \<longrightarrow> fs \<noteq> [] \<and> wf_type (last fs) = fp_final p)"
  using assms by (auto simp: decoder_finish_def delivered_def phase_after_def last_map)

lemma decode_sound:
  assumes "decoder_append p decoder_initial (Some input) = (d, fs, e)"
  shows "protocol_frames p fs \<and> input = concat (map (frame_bytes p) fs) @ fd_buffer d"
  using loop_sound [of "[]" "more decoder_initial input" d fs e] assms delivered_initial
  by (simp add: decoder_append_more delivered_def decoder_initial_def)

lemma decode_complete:
  assumes "protocol_frames p fs"
  shows "\<exists>d. decoder_append p decoder_initial (Some (concat (map (frame_bytes p) fs))) = (d, fs, None) \<and>
    (decoder_finish p d = None \<longleftrightarrow> (fp_strict p \<longrightarrow> fs \<noteq> [] \<and> wf_type (last fs) = fp_final p))"
proof -
  let ?d0 = "more decoder_initial (concat (map (frame_bytes p) fs))"
  have "delivered p [] ?d0" using delivered_initial by (simp add: delivered_def)
  then obtain d where "decode_loop p ?d0 = (d, fs, None)" "delivered p fs d" "fd_buffer d = []"
    using loop_complete [of "[]" ?d0 fs] assms by (auto simp: decoder_initial_def)
  then show ?thesis using finish_None by (auto simp: decoder_append_more)
qed

end

section \<open>The final payload\<close>

record final_payload =
  pl_exit_code :: u32
  pl_json :: "u8 list"
  pl_text :: "u8 list"

datatype payload_error =
    Payload_over_limit | Payload_truncated | Payload_lengths_invalid | Payload_exit_code_invalid | Payload_report_empty

definition valid_exit_code :: "u32 \<Rightarrow> bool" where
  "valid_exit_code exit_code \<longleftrightarrow> List.member [0, 23, 24, 25, 26, 27, 64, 70, 74] exit_code"

text \<open>
  The record of a protocol's payload rules: whether the reader bounds the size, and whether exit
  codes are restricted and reports mandatory.
\<close>

record payload_rules =
  pr_bounded :: bool
  pr_reports :: bool

definition final_payload_bytes :: "final_payload \<Rightarrow> u8 list" where
  "final_payload_bytes payload =
     (let output = append_u32 [] (pl_exit_code payload);
          output = append_u32 output (of_nat (length (pl_json payload)));
          output = append_u32 output (of_nat (length (pl_text payload)))
      in output @ pl_json payload @ pl_text payload)"

text \<open>The writer of the cache and VMM workers: it builds the output first and then measures it.\<close>

definition encode_final_worker_payload :: "final_payload \<Rightarrow> u8 list" where
  "encode_final_worker_payload payload =
     (if length (pl_json payload) > 4294967295 \<or> length (pl_text payload) > 4294967295 then []
      else let output = final_payload_bytes payload
           in if length output > maximum_worker_payload_bytes then [] else output)"

text \<open>The writer of the GEMM, compatibility and compression workers: it measures before building.\<close>

definition encode_final_worker_payload_checked :: "payload_rules \<Rightarrow> final_payload \<Rightarrow> u8 list" where
  "encode_final_worker_payload_checked r payload =
     (if (pr_reports r \<and> (\<not> valid_exit_code (pl_exit_code payload) \<or> pl_json payload = [])) \<or>
         length (pl_json payload) > maximum_worker_payload_bytes - 12 \<or>
         length (pl_text payload) > maximum_worker_payload_bytes - 12 - length (pl_json payload)
      then [] else final_payload_bytes payload)"

definition decode_final_worker_payload :: "payload_rules \<Rightarrow> u8 list \<Rightarrow> payload_error + final_payload" where
  "decode_final_worker_payload r payload =
     (if pr_bounded r \<and> length payload > maximum_worker_payload_bytes then Inl Payload_over_limit
      else if length payload < 12 then Inl Payload_truncated
      else
        let exit_code = read_u32 payload;
            json_size = read_u32 (drop 4 payload);
            text_size = read_u32 (drop 8 payload);
            expected_size = 12 + unat json_size + unat text_size
        in if expected_size \<noteq> length payload then Inl Payload_lengths_invalid
           else if pr_reports r \<and> \<not> valid_exit_code exit_code then Inl Payload_exit_code_invalid
           else if pr_reports r \<and> json_size = 0 then Inl Payload_report_empty
           else Inr \<lparr>pl_exit_code = exit_code, pl_json = take (unat json_size) (drop 12 payload),
                     pl_text = take (unat text_size) (drop (12 + unat json_size) payload)\<rparr>)"

lemma final_payload_bytes_alt:
  "final_payload_bytes y = append_u32 [] (pl_exit_code y) @ append_u32 [] (of_nat (length (pl_json y))) @
     append_u32 [] (of_nat (length (pl_text y))) @ pl_json y @ pl_text y"
  by (simp add: final_payload_bytes_def Let_def append_le_acc(2) [of "append_u32 _ _"]
      append_le_acc(2) [of "append_u32 [] _ @ _"])

definition payload_ok :: "payload_rules \<Rightarrow> final_payload \<Rightarrow> bool" where
  "payload_ok r y \<longleftrightarrow> 12 + length (pl_json y) + length (pl_text y) \<le> maximum_worker_payload_bytes \<and>
     (pr_reports r \<longrightarrow> valid_exit_code (pl_exit_code y) \<and> pl_json y \<noteq> [])"

lemma decode_final_bytes:
  assumes "payload_ok r y"
  shows "decode_final_worker_payload r (final_payload_bytes y) = Inr y"
proof -
  have n: "length (pl_json y) < 4294967296" "length (pl_text y) < 4294967296"
    and fits: "12 + length (pl_json y) + length (pl_text y) \<le> maximum_worker_payload_bytes"
    using assms by (simp_all add: payload_ok_def maximum_worker_payload_bytes_def)
  let ?b = "final_payload_bytes y"
  have "read_u32 ?b = pl_exit_code y" "read_u32 (drop 4 ?b) = of_nat (length (pl_json y))"
    "read_u32 (drop 8 ?b) = of_nat (length (pl_text y))" "drop 12 ?b = pl_json y @ pl_text y"
    "length ?b = 12 + length (pl_json y) + length (pl_text y)"
    "drop (12 + length (pl_json y)) ?b = pl_text y"
    by (simp_all add: final_payload_bytes_alt read_append_u32)
  moreover have "unat (of_nat (length (pl_json y)) :: u32) = length (pl_json y)"
    "unat (of_nat (length (pl_text y)) :: u32) = length (pl_text y)"
    using n by (simp_all add: unat_of_nat)
  moreover have "(of_nat (length (pl_json y)) :: u32) = 0 \<longleftrightarrow> pl_json y = []"
    using n by (simp add: word_unat_eq_iff unat_of_nat)
  ultimately show ?thesis
    using assms fits by (simp add: decode_final_worker_payload_def Let_def payload_ok_def)
qed

lemma decode_final_inverse:
  assumes "decode_final_worker_payload r b = Inr y"
  shows "final_payload_bytes y = b \<and> (pr_reports r \<longrightarrow> valid_exit_code (pl_exit_code y) \<and> pl_json y \<noteq> [])"
proof -
  let ?j = "read_u32 (drop 4 b)" and ?t = "read_u32 (drop 8 b)"
  let ?y = "\<lparr>pl_exit_code = read_u32 b, pl_json = take (unat ?j) (drop 12 b),
      pl_text = take (unat ?t) (drop (12 + unat ?j) b)\<rparr>"
  have guards: "\<not> c1 \<and> \<not> c2 \<and> \<not> c3 \<and> \<not> c4 \<and> \<not> c5 \<and> z = y"
    if "(if c1 then Inl e1 else if c2 then Inl e2 else if c3 then Inl e3 else if c4 then Inl e4
         else if c5 then Inl e5 else Inr z) = Inr y" for c1 c2 c3 c4 c5 and e1 e2 e3 e4 e5 :: payload_error and z y :: final_payload
    using that by (auto split: if_splits)
  note g = guards [OF assms [unfolded decode_final_worker_payload_def Let_def]]
  have l: "12 + unat ?j + unat ?t = length b" and y: "?y = y"
    and rep: "pr_reports r \<Longrightarrow> valid_exit_code (read_u32 b) \<and> ?j \<noteq> 0"
    using g by blast+
  have jl: "length (pl_json y) = unat ?j" and tl: "length (pl_text y) = unat ?t" using l by (simp_all flip: y)
  have xy: "pl_exit_code y = read_u32 b" "pl_json y = take (unat ?j) (drop 12 b)"
    "pl_text y = take (unat ?t) (drop (12 + unat ?j) b)" by (simp_all flip: y)
  have a: "append_u32 [] (read_u32 b) = take 4 b" "append_u32 [] ?j = take 4 (drop 4 b)"
      "append_u32 [] ?t = take 4 (drop 8 b)"
    using l append_read_u32 [of "take 4 b"] append_read_u32 [of "take 4 (drop 4 b)"]
      append_read_u32 [of "take 4 (drop 8 b)"] read_prefix(2) [of "take 4 b" "drop 4 b"]
      read_prefix(2) [of "take 4 (drop 4 b)" "drop 4 (drop 4 b)"]
      read_prefix(2) [of "take 4 (drop 8 b)" "drop 4 (drop 8 b)"]
    by (simp_all del: drop_drop)
  have "final_payload_bytes y = take 4 b @ take 4 (drop 4 b) @ take 4 (drop 8 b) @
      take (unat ?j) (drop 12 b) @ take (unat ?t) (drop (12 + unat ?j) b)"
    unfolding final_payload_bytes_alt unfolding jl tl unfolding xy using a by simp
  also have "\<dots> = take (12 + unat ?j + unat ?t) b"
    using take_add [of 4 4 b] take_add [of 8 4 b] take_add [of 12 "unat ?j" b]
      take_add [of "12 + unat ?j" "unat ?t" b] by simp
  finally have "final_payload_bytes y = b" using l by simp
  moreover have "pr_reports r \<Longrightarrow> pl_json y \<noteq> []" using rep jl by (auto simp: unat_eq_0_iff)
  ultimately show ?thesis using rep xy(1) by simp
qed

lemma encoders_agree:
  "encode_final_worker_payload y = (if payload_ok \<lparr>pr_bounded = b, pr_reports = False\<rparr> y then final_payload_bytes y else [])"
  "encode_final_worker_payload_checked r y = (if payload_ok r y then final_payload_bytes y else [])"
proof -
  have len: "length (final_payload_bytes y) = 12 + length (pl_json y) + length (pl_text y)"
    by (simp add: final_payload_bytes_alt)
  show "encode_final_worker_payload y = (if payload_ok \<lparr>pr_bounded = b, pr_reports = False\<rparr> y then final_payload_bytes y else [])"
    using len by (auto simp: encode_final_worker_payload_def payload_ok_def maximum_worker_payload_bytes_def Let_def)
  show "encode_final_worker_payload_checked r y = (if payload_ok r y then final_payload_bytes y else [])"
    by (auto simp: encode_final_worker_payload_checked_def payload_ok_def maximum_worker_payload_bytes_def)
qed

end
