(* ===== verification/Worker_Protocols.thy ===== *)
theory Worker_Protocols
  imports Worker_Frames
begin

text \<open>
The worker protocols of the program as instances of \<open>Worker_Frames\<close>, and their properties:
  independence of fragmentation, soundness for arbitrary bytes and the round trips.
\<close>

section \<open>The five protocols\<close>

definition cache_protocol :: frame_protocol where
  "cache_protocol = \<lparr>fp_magic = [0x58, 0x56, 0x43, 0x31], fp_version = 1, fp_plan = 1, fp_final = 4,
     fp_trace = Some 3, fp_strict = False\<rparr>"

definition vmm_protocol :: frame_protocol where
  "vmm_protocol = \<lparr>fp_magic = [0x58, 0x56, 0x50, 0x31], fp_version = 1, fp_plan = 1, fp_final = 3,
     fp_trace = None, fp_strict = False\<rparr>"

definition gemm_protocol :: frame_protocol where
  "gemm_protocol = \<lparr>fp_magic = [0x58, 0x56, 0x47, 0x31], fp_version = 1, fp_plan = 1, fp_final = 3,
     fp_trace = None, fp_strict = True\<rparr>"

definition compat_protocol :: frame_protocol where
  "compat_protocol = \<lparr>fp_magic = [0x58, 0x56, 0x49, 0x31], fp_version = 1, fp_plan = 1, fp_final = 5,
     fp_trace = Some 4, fp_strict = True\<rparr>"

definition compression_protocol :: frame_protocol where
  "compression_protocol = \<lparr>fp_magic = [0x58, 0x56, 0x5A, 0x31], fp_version = 1, fp_plan = 1, fp_final = 5,
     fp_trace = Some 4, fp_strict = True\<rparr>"

definition worker_protocols :: "frame_protocol list" where
  "worker_protocols = [cache_protocol, vmm_protocol, gemm_protocol, compat_protocol, compression_protocol]"

interpretation cache_wire: wire_protocol cache_protocol
  by unfold_locales (simp add: wf_protocol_def cache_protocol_def)

interpretation vmm_wire: wire_protocol vmm_protocol
  by unfold_locales (simp add: wf_protocol_def vmm_protocol_def)

interpretation gemm_wire: wire_protocol gemm_protocol
  by unfold_locales (simp add: wf_protocol_def gemm_protocol_def)

interpretation compat_wire: wire_protocol compat_protocol
  by unfold_locales (simp add: wf_protocol_def compat_protocol_def)

interpretation compression_wire: wire_protocol compression_protocol
  by unfold_locales (simp add: wf_protocol_def compression_protocol_def)

text \<open>The entry points of each protocol: the cache worker (\<open>residency/worker_protocol.cpp\<close>), \<close>

definition cache_write_frame :: "u16 \<Rightarrow> u64 \<Rightarrow> u8 list \<Rightarrow> u8 list option" where
  "cache_write_frame = write_worker_frame cache_protocol"

definition cache_decoder_append ::
    "frame_decoder \<Rightarrow> u8 list option \<Rightarrow> frame_decoder \<times> worker_frame list \<times> frame_error option" where
  "cache_decoder_append = decoder_append cache_protocol"

definition cache_decoder_finish :: "frame_decoder \<Rightarrow> frame_error option" where
  "cache_decoder_finish = decoder_finish cache_protocol"

definition cache_decode_final :: "u8 list \<Rightarrow> payload_error + final_payload" where
  "cache_decode_final = decode_final_worker_payload \<lparr>pr_bounded = False, pr_reports = False\<rparr>"

text \<open>the VMM worker (\<open>vmm_poc/worker_protocol.cpp\<close>),\<close>

definition vmm_write_frame :: "u16 \<Rightarrow> u64 \<Rightarrow> u8 list \<Rightarrow> u8 list option" where
  "vmm_write_frame = write_worker_frame vmm_protocol"

definition vmm_encode_final :: "final_payload \<Rightarrow> u8 list" where
  "vmm_encode_final = encode_final_worker_payload"

definition vmm_decode_final :: "u8 list \<Rightarrow> payload_error + final_payload" where
  "vmm_decode_final = decode_final_worker_payload \<lparr>pr_bounded = False, pr_reports = False\<rparr>"

definition vmm_decoder_append ::
    "frame_decoder \<Rightarrow> u8 list option \<Rightarrow> frame_decoder \<times> worker_frame list \<times> frame_error option" where
  "vmm_decoder_append = decoder_append vmm_protocol"

definition vmm_decoder_finish :: "frame_decoder \<Rightarrow> frame_error option" where
  "vmm_decoder_finish = decoder_finish vmm_protocol"

text \<open>the GEMM worker (\<open>gemm_bench/worker_protocol.cpp\<close>),\<close>

definition gemm_write_frame :: "u16 \<Rightarrow> u64 \<Rightarrow> u8 list \<Rightarrow> u8 list option" where
  "gemm_write_frame = write_worker_frame gemm_protocol"

definition gemm_encode_final :: "final_payload \<Rightarrow> u8 list" where
  "gemm_encode_final = encode_final_worker_payload_checked \<lparr>pr_bounded = True, pr_reports = False\<rparr>"

definition gemm_decode_final :: "u8 list \<Rightarrow> payload_error + final_payload" where
  "gemm_decode_final = decode_final_worker_payload \<lparr>pr_bounded = True, pr_reports = False\<rparr>"

definition gemm_decoder_append ::
    "frame_decoder \<Rightarrow> u8 list option \<Rightarrow> frame_decoder \<times> worker_frame list \<times> frame_error option" where
  "gemm_decoder_append = decoder_append gemm_protocol"

definition gemm_decoder_finish :: "frame_decoder \<Rightarrow> frame_error option" where
  "gemm_decoder_finish = decoder_finish gemm_protocol"

text \<open>
  the compression worker (\<open>compression_bench/worker_protocol.cpp\<close>), and the compatibility
  worker, to which the general definitions correspond line by line.
\<close>

definition compression_write_frame :: "u16 \<Rightarrow> u64 \<Rightarrow> u8 list \<Rightarrow> u8 list option" where
  "compression_write_frame = write_worker_frame compression_protocol"

definition compression_encode_final :: "final_payload \<Rightarrow> u8 list" where
  "compression_encode_final = encode_final_worker_payload_checked \<lparr>pr_bounded = True, pr_reports = True\<rparr>"

definition compression_decode_final :: "u8 list \<Rightarrow> payload_error + final_payload" where
  "compression_decode_final = decode_final_worker_payload \<lparr>pr_bounded = True, pr_reports = True\<rparr>"

definition compression_decoder_append ::
    "frame_decoder \<Rightarrow> u8 list option \<Rightarrow> frame_decoder \<times> worker_frame list \<times> frame_error option" where
  "compression_decoder_append = decoder_append compression_protocol"

definition compression_decoder_finish :: "frame_decoder \<Rightarrow> frame_error option" where
  "compression_decoder_finish = decoder_finish compression_protocol"

section \<open>Properties\<close>

text \<open>
  C34: Fragmentation does not matter. A byte stream given to a decoder in pieces, in whatever state it
  is, delivers the same frames, ends in the same decoder state and with the same error as the stream
  given at once.
\<close>

theorem decoder_any_fragmentation:
  "feed p d (piece # pieces) = decoder_append p d (Some (concat (piece # pieces)))"
  by (simp only: feed_concat decoder_append_more list.distinct simp_thms)

lemma worker_protocol_cases:
  assumes "p \<in> set worker_protocols"
  shows "wire_protocol p"
  using assms cache_wire.wire_protocol_axioms vmm_wire.wire_protocol_axioms gemm_wire.wire_protocol_axioms
    compat_wire.wire_protocol_axioms compression_wire.wire_protocol_axioms
  by (auto simp: worker_protocols_def)

text \<open>
  Whatever bytes arrive, the frames a fresh decoder delivers obey the protocol (increasing
  sequence numbers, known types, payloads within the limit and, for the strict protocols, one plan
  frame first and nothing after the final frame), and they and the undecoded rest are the input.
\<close>

theorem decoder_sound:
  assumes "p \<in> set worker_protocols" and "decoder_append p decoder_initial (Some input) = (d, fs, e)"
  shows "protocol_frames p fs \<and> input = concat (map (frame_bytes p) fs) @ fd_buffer d"
  using wire_protocol.decode_sound [OF worker_protocol_cases [OF assms(1)] assms(2)] .

definition protocol_example :: "worker_frame list" where
  "protocol_example =
     [\<lparr>wf_type = 1, wf_sequence = 1, wf_payload = [7]\<rparr>, \<lparr>wf_type = 2, wf_sequence = 3, wf_payload = []\<rparr>,
      \<lparr>wf_type = 5, wf_sequence = 4, wf_payload = [1, 2]\<rparr>]"

text \<open>A plan frame with a payload of one byte, and the first two bytes of another frame.\<close>

definition protocol_example_bytes :: "u8 list" where
  "protocol_example_bytes =
     [0x58, 0x56, 0x49, 0x31, 1, 0, 1, 0, 1, 0, 0, 0, 9, 0, 0, 0, 0, 0, 0, 0, 7, 0x58, 0x56]"

theorem decoder_sound_witness:
  "let (d, fs, e) = decoder_append compat_protocol decoder_initial (Some protocol_example_bytes)
   in protocol_frames compat_protocol fs \<and> map wf_sequence fs = [9] \<and> fd_buffer d = [0x58, 0x56]"
proof -
  let ?r = "decoder_append compat_protocol decoder_initial (Some protocol_example_bytes)"
  have m: "compat_protocol \<in> set worker_protocols" by (simp add: worker_protocols_def)
  have "protocol_frames compat_protocol (fst (snd ?r))"
    using decoder_sound [OF m, of protocol_example_bytes "fst ?r" "fst (snd ?r)" "snd (snd ?r)"] by simp
  moreover have "map wf_sequence (fst (snd ?r)) = [9] \<and> fd_buffer (fst ?r) = [0x58, 0x56]"
    by (simp add: decoder_append_def decoder_initial_def protocol_example_bytes_def decode_loop.simps
        decode_one_def Let_def frame_header_bytes_def compat_protocol_def valid_type_def payload_limit_def
        maximum_worker_payload_bytes_def maximum_trace_batch_bytes_def read_u16_def read_u32_def read_u64_def upt_rec)
  ultimately show ?thesis by (simp add: case_prod_beta)
qed

text \<open>
  C35: What a worker writes, its controller reads: every sequence of frames of a protocol is accepted
  by the writer, and the decoder delivers exactly those frames from the bytes, in any fragmentation,
  with no error; the stream may end there unless a strict protocol still misses its final frame.
\<close>

theorem frames_round_trip:
  assumes "p \<in> set worker_protocols" and "protocol_frames p fs"
    and "concat (piece # pieces) = concat (map (frame_bytes p) fs)"
  shows "(\<forall>f\<in>set fs. write_worker_frame p (wf_type f) (wf_sequence f) (wf_payload f) = Some (frame_bytes p f)) \<and>
    (\<exists>d. feed p decoder_initial (piece # pieces) = (d, fs, None) \<and>
      (decoder_finish p d = None \<longleftrightarrow> (fp_strict p \<longrightarrow> fs \<noteq> [] \<and> wf_type (last fs) = fp_final p)))"
proof
  show "\<forall>f\<in>set fs. write_worker_frame p (wf_type f) (wf_sequence f) (wf_payload f) = Some (frame_bytes p f)"
    using assms(2) by (auto simp: protocol_frames_def intro: write_worker_frame_bytes)
  show "\<exists>d. feed p decoder_initial (piece # pieces) = (d, fs, None) \<and>
      (decoder_finish p d = None \<longleftrightarrow> (fp_strict p \<longrightarrow> fs \<noteq> [] \<and> wf_type (last fs) = fp_final p))"
    using wire_protocol.decode_complete [OF worker_protocol_cases [OF assms(1)] assms(2)]
    by (simp only: feed_concat decoder_append_more list.distinct simp_thms assms(3))
qed

theorem frames_round_trip_witness:
  "\<exists>d. feed compat_protocol decoder_initial
      [take 30 (concat (map (frame_bytes compat_protocol) protocol_example)),
       drop 30 (concat (map (frame_bytes compat_protocol) protocol_example))] = (d, protocol_example, None) \<and>
     decoder_finish compat_protocol d = None"
proof -
  have m: "compat_protocol \<in> set worker_protocols" by (simp add: worker_protocols_def)
  have f: "protocol_frames compat_protocol protocol_example"
    by (simp add: protocol_example_def protocol_frames_def frame_fits_def valid_type_def payload_limit_def
        maximum_worker_payload_bytes_def plan_to_final_def compat_protocol_def maximum_trace_batch_bytes_def)
  have l: "wf_type (last protocol_example) = fp_final compat_protocol" "protocol_example \<noteq> []"
    by (simp_all add: protocol_example_def compat_protocol_def)
  show ?thesis
    using frames_round_trip [OF m f, of "take 30 (concat (map (frame_bytes compat_protocol) protocol_example))"
        "[drop 30 (concat (map (frame_bytes compat_protocol) protocol_example))]"] l
    by (simp del: feed.simps)
qed

text \<open>
  The final payloads of every worker survive the trip: a payload within the rules is encoded and
  decodes to itself; one that breaks them is refused by the writer; and a payload the reader accepts
  is the one whose encoding was read.
\<close>

theorem final_payload_round_trip:
  "(if payload_ok r y
    then decode_final_worker_payload r (encode_final_worker_payload_checked r y) = Inr y
    else encode_final_worker_payload_checked r y = []) \<and>
   (payload_ok \<lparr>pr_bounded = b, pr_reports = False\<rparr> y \<longleftrightarrow> encode_final_worker_payload y \<noteq> []) \<and>
   (encode_final_worker_payload y \<noteq> [] \<longrightarrow> cache_decode_final (encode_final_worker_payload y) = Inr y) \<and>
   (decode_final_worker_payload r bytes = Inr y \<longrightarrow> final_payload_bytes y = bytes)"
proof (intro conjI impI)
  show "if payload_ok r y
    then decode_final_worker_payload r (encode_final_worker_payload_checked r y) = Inr y
    else encode_final_worker_payload_checked r y = []"
    by (simp add: encoders_agree(2) decode_final_bytes)
  have ne: "final_payload_bytes y \<noteq> []" by (simp add: final_payload_bytes_alt append_u32_def)
  then show "payload_ok \<lparr>pr_bounded = b, pr_reports = False\<rparr> y \<longleftrightarrow> encode_final_worker_payload y \<noteq> []"
    by (simp add: encoders_agree(1) [of y b])
  show "cache_decode_final (encode_final_worker_payload y) = Inr y" if "encode_final_worker_payload y \<noteq> []"
    using that by (auto simp: encoders_agree(1) [of y False] cache_decode_final_def decode_final_bytes split: if_splits)
qed (simp add: decode_final_inverse)

theorem final_payload_round_trip_witness:
  "gemm_decode_final (gemm_encode_final \<lparr>pl_exit_code = 0, pl_json = [1, 2], pl_text = [3]\<rparr>) =
     Inr \<lparr>pl_exit_code = 0, pl_json = [1, 2], pl_text = [3]\<rparr> \<and>
   cache_decode_final (encode_final_worker_payload \<lparr>pl_exit_code = 0, pl_json = [1, 2], pl_text = [3]\<rparr>) =
     Inr \<lparr>pl_exit_code = 0, pl_json = [1, 2], pl_text = [3]\<rparr>"
proof -
  let ?y = "\<lparr>pl_exit_code = 0, pl_json = [1, 2], pl_text = [3]\<rparr> :: final_payload"
  have ok: "payload_ok r ?y" for r
    by (simp add: payload_ok_def maximum_worker_payload_bytes_def valid_exit_code_def)
  show ?thesis
    using final_payload_round_trip [of "\<lparr>pr_bounded = True, pr_reports = False\<rparr>" ?y False] ok
    by (simp add: gemm_decode_final_def gemm_encode_final_def)
qed

end
