(* ===== verification/Cache_Scenario.thy ===== *)
theory Cache_Scenario
  imports Access_Plan_Correct
begin

text \<open>
  The synthetic traces of the cache experiments (\<open>src/src/residency/scenario.hpp\<close>,
  \<open>scenario.cpp\<close>): one generator per scenario over a context that collects operations, and the
  checks of the input. A loop over a machine integer is \<open>count_loop\<close>; the random generator is a
  state that is passed on; an error is the left summand. Allocation failure of the vectors is outside
  the model (\<open>std::bad_alloc\<close>), and \<open>std::size_t\<close> has 64 bits.
\<close>

unbundle bit_operations_syntax

section \<open>Scenarios and their traces\<close>

datatype scenario_kind =
    Sk_suite | Sk_sequential | Sk_reuse | Sk_random | Sk_read_only | Sk_write_heavy | Sk_budget_pressure

fun scenario_kind_name :: "scenario_kind \<Rightarrow> string" where
  "scenario_kind_name Sk_suite = ''suite''"
| "scenario_kind_name Sk_sequential = ''sequential''"
| "scenario_kind_name Sk_reuse = ''reuse''"
| "scenario_kind_name Sk_random = ''random''"
| "scenario_kind_name Sk_read_only = ''read-only''"
| "scenario_kind_name Sk_write_heavy = ''write-heavy''"
| "scenario_kind_name Sk_budget_pressure = ''budget-pressure''"

datatype scenario_operation_kind = So_access | So_pressure_acquire | So_pressure_release

record scenario_operation =
  so_sequence :: u64
  so_kind :: scenario_operation_kind
  so_access :: "access_range option"
  so_pressure_bytes :: u64
  so_pass_index :: u32
  so_warmup :: bool
  so_sequential_one_touch :: bool

record scenario_trace =
  st_scenario :: scenario_kind
  st_operations :: "scenario_operation list"

record scenario_input =
  si_allocation_id :: allocation_id
  si_logical_bytes :: u64
  si_chunk_bytes :: u64
  si_cache_target_bytes :: u64
  si_pressure_bytes :: "u64 option"
  si_passes :: u32
  si_seed :: u64

datatype scenario_trace_error =
    Ste_invalid_configuration | Ste_arithmetic_overflow | Ste_suite_requires_suite_generator

fun scenario_trace_error_name :: "scenario_trace_error option \<Rightarrow> string" where
  "scenario_trace_error_name None = ''none''"
| "scenario_trace_error_name (Some Ste_invalid_configuration) = ''invalid_configuration''"
| "scenario_trace_error_name (Some Ste_arithmetic_overflow) = ''arithmetic_overflow''"
| "scenario_trace_error_name (Some Ste_suite_requires_suite_generator) = ''suite_requires_suite_generator''"

section \<open>Generators\<close>

text \<open>\<open>SplitMix64\<close>: the state and the next value.\<close>

definition split_mix_next :: "u64 \<Rightarrow> u64 \<times> u64" where
  "split_mix_next state =
     (let state = state + 0x9E3779B97F4A7C15;
          v = state;
          v = (v XOR drop_bit 30 v) * 0xBF58476D1CE4E5B9;
          v = (v XOR drop_bit 27 v) * 0x94D049BB133111EB
      in (state, v XOR drop_bit 31 v))"

record generator_context =
  gc_input :: scenario_input
  gc_chunk_count :: u64
  gc_cache_chunks :: u64
  gc_operations :: "scenario_operation list"

definition make_chunk_access :: "generator_context \<Rightarrow> u64 \<Rightarrow> access_mode \<Rightarrow> access_range" where
  "make_chunk_access context chunk_index mode =
     (let offset = chunk_index * si_chunk_bytes (gc_input context)
      in \<lparr>ar_allocation_id = si_allocation_id (gc_input context), ar_offset_bytes = offset,
          ar_length_bytes = min (si_chunk_bytes (gc_input context)) (si_logical_bytes (gc_input context) - offset),
          ar_mode = mode\<rparr>)"

definition append_access ::
    "u64 \<Rightarrow> access_mode \<Rightarrow> u32 \<Rightarrow> bool \<Rightarrow> bool \<Rightarrow> generator_context \<Rightarrow> generator_context" where
  "append_access chunk_index mode pass_index warmup one_touch context =
     context\<lparr>gc_operations := gc_operations context @
       [\<lparr>so_sequence = of_nat (length (gc_operations context)), so_kind = So_access,
         so_access = Some (make_chunk_access context chunk_index mode), so_pressure_bytes = 0,
         so_pass_index = pass_index, so_warmup = warmup, so_sequential_one_touch = one_touch\<rparr>]\<rparr>"

definition append_pressure ::
    "scenario_operation_kind \<Rightarrow> u64 \<Rightarrow> generator_context \<Rightarrow> generator_context" where
  "append_pressure kind pressure_bytes context =
     context\<lparr>gc_operations := gc_operations context @
       [\<lparr>so_sequence = of_nat (length (gc_operations context)), so_kind = kind, so_access = None,
         so_pressure_bytes = pressure_bytes, so_pass_index = 0, so_warmup = False,
         so_sequential_one_touch = False\<rparr>]\<rparr>"

text \<open>A counting loop \<open>for (i = 0; i < n; ++i)\<close> over a machine integer.\<close>

definition count_loop :: "'w :: len word \<Rightarrow> ('w word \<Rightarrow> 's \<Rightarrow> 's) \<Rightarrow> 's \<Rightarrow> 's" where
  "count_loop n body s = fold body (map of_nat [0..<unat n]) s"

definition append_alternating_scan ::
    "access_mode \<Rightarrow> u32 \<Rightarrow> bool \<Rightarrow> generator_context \<Rightarrow> generator_context" where
  "append_alternating_scan mode passes one_touch =
     count_loop passes (\<lambda>pass context.
       let forward = (pass AND 1 = 0)
       in count_loop (gc_chunk_count context) (\<lambda>position context.
            let chunk = (if forward then position else gc_chunk_count context - 1 - position)
            in append_access chunk mode pass False one_touch context) context)"

definition reserve_operations :: "u64 \<Rightarrow> scenario_trace_error option" where
  "reserve_operations total_operations = (if total_operations > max_u64 then Some Ste_arithmetic_overflow else None)"

definition generate_sequential :: "generator_context \<Rightarrow> scenario_trace_error + generator_context" where
  "generate_sequential context =
     (case checked_multiply (gc_chunk_count context) (ucast (si_passes (gc_input context))) of
        None \<Rightarrow> Inl Ste_arithmetic_overflow
      | Some total_operations \<Rightarrow>
          (case reserve_operations total_operations of
             Some e \<Rightarrow> Inl e
           | None \<Rightarrow> Inr (append_alternating_scan Read_write (si_passes (gc_input context)) True context)))"

definition reuse_hot_chunks :: "generator_context \<Rightarrow> u64" where
  "reuse_hot_chunks context = max 1 (min (gc_chunk_count context) (gc_cache_chunks context div 2))"

definition generate_reuse :: "generator_context \<Rightarrow> scenario_trace_error + generator_context" where
  "generate_reuse context =
     (let cycles = (8 :: u32); hot_chunks = reuse_hot_chunks context
      in case checked_multiply hot_chunks (ucast cycles) of
           None \<Rightarrow> Inl Ste_arithmetic_overflow
         | Some total_operations \<Rightarrow>
             (case reserve_operations total_operations of
                Some e \<Rightarrow> Inl e
              | None \<Rightarrow>
                  Inr (count_loop cycles (\<lambda>cycle. count_loop hot_chunks (\<lambda>chunk.
                    append_access chunk Read cycle (cycle = 0) False)) context)))"

definition generate_random :: "generator_context \<Rightarrow> scenario_trace_error + generator_context" where
  "generate_random context =
     (case checked_multiply (gc_chunk_count context) 4 of
        None \<Rightarrow> Inl Ste_arithmetic_overflow
      | Some total_operations \<Rightarrow>
          (case reserve_operations total_operations of
             Some e \<Rightarrow> Inl e
           | None \<Rightarrow>
               Inr (snd (count_loop total_operations (\<lambda>operation (random, context).
                 case split_mix_next random of (random, v) \<Rightarrow>
                   let chunk = v mod gc_chunk_count context;
                       mode = (if operation AND 1 = 0 then Read else Read_write)
                   in (random, append_access chunk mode 0 False False context))
                 (si_seed (gc_input context) XOR 0x72616E646F6D0002, context)))))"

definition generate_read_only :: "generator_context \<Rightarrow> scenario_trace_error + generator_context" where
  "generate_read_only context =
     (case checked_multiply (gc_chunk_count context) (ucast (si_passes (gc_input context))) of
        None \<Rightarrow> Inl Ste_arithmetic_overflow
      | Some total_operations \<Rightarrow>
          (case reserve_operations total_operations of
             Some e \<Rightarrow> Inl e
           | None \<Rightarrow> Inr (append_alternating_scan Read (si_passes (gc_input context)) True context)))"

definition swap_elements :: "nat \<Rightarrow> nat \<Rightarrow> 'a list \<Rightarrow> 'a list" where
  "swap_elements i j xs = xs[i := xs ! j, j := xs ! i]"

text \<open>The shuffling loop: \<open>remaining\<close> counts down to 2, drawing one value per turn.\<close>

fun shuffle :: "nat \<Rightarrow> u64 \<Rightarrow> 'a list \<Rightarrow> u64 \<times> 'a list" where
  "shuffle 0 random xs = (random, xs)"
| "shuffle (Suc r) random xs =
     (if Suc r > 1 then
        case split_mix_next random of (random, v) \<Rightarrow>
          let selected = unat (v mod of_nat (Suc r))
          in shuffle r random (swap_elements r selected xs)
      else (random, xs))"

definition write_heavy_modes :: "nat \<Rightarrow> access_mode list" where
  "write_heavy_modes n =
     (let modes = replicate n Read_write;
          read_count = length modes div 5;
          write_only_count = length modes div 5;
          modes = replicate read_count Read @ drop read_count modes
      in take read_count modes @ replicate write_only_count Write_only @
         drop (read_count + write_only_count) modes)"

text \<open>One pass of the write-heavy scenario: the order reshuffled, then one access per chunk.\<close>

definition write_heavy_pass ::
    "access_mode list \<Rightarrow> u32 \<Rightarrow> u64 \<times> u64 list \<times> nat \<times> generator_context \<Rightarrow>
     u64 \<times> u64 list \<times> nat \<times> generator_context" where
  "write_heavy_pass modes pass = (\<lambda>(random, order, operation_index, context).
     case shuffle (length order) random order of (random, order) \<Rightarrow>
       (case fold (\<lambda>chunk (operation_index, context).
               (operation_index + 1, append_access chunk (modes ! operation_index) pass False False context))
             order (operation_index, context) of
          (operation_index, context) \<Rightarrow> (random, order, operation_index, context)))"

definition generate_write_heavy :: "generator_context \<Rightarrow> scenario_trace_error + generator_context" where
  "generate_write_heavy context =
     (case checked_multiply (gc_chunk_count context) (ucast (si_passes (gc_input context))) of
        None \<Rightarrow> Inl Ste_arithmetic_overflow
      | Some total_operations \<Rightarrow>
          (case reserve_operations total_operations of
             Some e \<Rightarrow> Inl e
           | None \<Rightarrow>
               let modes = write_heavy_modes (unat total_operations);
                   seed = si_seed (gc_input context);
                   modes = snd (shuffle (length modes) (seed XOR 0x6D6F646568760002) modes);
                   order = map of_nat [0..<unat (gc_chunk_count context)]
               in case count_loop (si_passes (gc_input context)) (write_heavy_pass modes)
                    (seed XOR 0x7772697465687602, order, 0, context) of
                    (_, _, _, context) \<Rightarrow> Inr context))"

definition generate_budget_pressure :: "generator_context \<Rightarrow> scenario_trace_error + generator_context" where
  "generate_budget_pressure context =
     (let hot_chunks = min (gc_chunk_count context) (gc_cache_chunks context)
      in case checked_multiply hot_chunks 3 of
           None \<Rightarrow> Inl Ste_arithmetic_overflow
         | Some access_count \<Rightarrow>
             if access_count > max_u64 - 2 then Inl Ste_arithmetic_overflow
             else (case reserve_operations (access_count + 2) of
                Some e \<Rightarrow> Inl e
              | None \<Rightarrow>
                  (case checked_multiply (si_chunk_bytes (gc_input context)) 4 of
                     None \<Rightarrow> Inl Ste_arithmetic_overflow
                   | Some default_pressure \<Rightarrow>
                       let pressure = (case si_pressure_bytes (gc_input context) of
                                         Some b \<Rightarrow> b | None \<Rightarrow> default_pressure)
                       in if pressure = 0 then Inl Ste_invalid_configuration
                          else
                            let scan = (\<lambda>pass warmup. count_loop hot_chunks (\<lambda>chunk.
                                          append_access chunk Read pass warmup False))
                            in Inr (scan 2 False
                                 (append_pressure So_pressure_release pressure
                                 (scan 1 False
                                 (append_pressure So_pressure_acquire pressure
                                 (scan 0 True context))))))))"

definition generate_scenario_trace ::
    "scenario_kind \<Rightarrow> scenario_input \<Rightarrow> scenario_trace_error + scenario_trace" where
  "generate_scenario_trace scenario input =
     (if scenario = Sk_suite then Inl Ste_suite_requires_suite_generator
      else
        let minimum_cache = checked_multiply (si_chunk_bytes input) 2
        in if \<not> allocation_id_valid (si_allocation_id input) \<or> si_logical_bytes input = 0 \<or>
              si_chunk_bytes input = 0 \<or> minimum_cache = None \<or>
              si_cache_target_bytes input < the minimum_cache \<or>
              si_cache_target_bytes input mod si_chunk_bytes input \<noteq> 0 \<or>
              si_passes input < 2 \<or> si_passes input > 8
           then Inl Ste_invalid_configuration
           else
             let chunk_count = (si_logical_bytes input - 1) div si_chunk_bytes input + 1;
                 context = \<lparr>gc_input = input, gc_chunk_count = chunk_count,
                            gc_cache_chunks = si_cache_target_bytes input div si_chunk_bytes input,
                            gc_operations = []\<rparr>;
                 generated = (case scenario of
                     Sk_sequential \<Rightarrow> generate_sequential context
                   | Sk_reuse \<Rightarrow> generate_reuse context
                   | Sk_random \<Rightarrow> generate_random context
                   | Sk_read_only \<Rightarrow> generate_read_only context
                   | Sk_write_heavy \<Rightarrow> generate_write_heavy context
                   | Sk_budget_pressure \<Rightarrow> generate_budget_pressure context
                   | Sk_suite \<Rightarrow> Inl Ste_invalid_configuration)
             in case generated of
                  Inl e \<Rightarrow> Inl e
                | Inr c \<Rightarrow> Inr \<lparr>st_scenario = scenario, st_operations = gc_operations c\<rparr>)"

fun generate_suite_from ::
    "scenario_kind list \<Rightarrow> scenario_input \<Rightarrow> scenario_trace_error + scenario_trace list" where
  "generate_suite_from [] input = Inr []"
| "generate_suite_from (k # ks) input =
     (case generate_scenario_trace k input of
        Inl e \<Rightarrow> Inl e
      | Inr t \<Rightarrow> (case generate_suite_from ks input of Inl e \<Rightarrow> Inl e | Inr ts \<Rightarrow> Inr (t # ts)))"

definition generate_scenario_suite :: "scenario_input \<Rightarrow> scenario_trace_error + scenario_trace list" where
  "generate_scenario_suite input =
     generate_suite_from [Sk_sequential, Sk_reuse, Sk_random, Sk_read_only, Sk_write_heavy] input"

section \<open>What every trace satisfies\<close>

text \<open>
  An access covers exactly one chunk of the allocation, clipped to its size; the sequence numbers
  count from zero.
\<close>

definition op_in_bounds :: "scenario_input \<Rightarrow> scenario_operation \<Rightarrow> bool" where
  "op_in_bounds input op \<longleftrightarrow>
     (case so_access op of
        None \<Rightarrow> so_kind op \<noteq> So_access
      | Some r \<Rightarrow>
          so_kind op = So_access \<and> ar_allocation_id r = si_allocation_id input \<and>
          ar_mode r \<noteq> Mode_out_of_range \<and> unat (si_chunk_bytes input) dvd unat (ar_offset_bytes r) \<and>
          unat (ar_offset_bytes r) < unat (si_logical_bytes input) \<and>
          unat (ar_length_bytes r) =
            min (unat (si_chunk_bytes input)) (unat (si_logical_bytes input) - unat (ar_offset_bytes r)))"

definition numbered :: "scenario_operation list \<Rightarrow> bool" where
  "numbered ops \<longleftrightarrow> map so_sequence ops = map of_nat [0..<length ops]"

definition chunk_touched_by :: "scenario_input \<Rightarrow> scenario_operation \<Rightarrow> nat" where
  "chunk_touched_by input op =
     (case so_access op of None \<Rightarrow> 0 | Some r \<Rightarrow> unat (ar_offset_bytes r) div unat (si_chunk_bytes input))"

definition input_ok :: "scenario_input \<Rightarrow> bool" where
  "input_ok input \<longleftrightarrow> si_logical_bytes input \<noteq> 0 \<and> si_chunk_bytes input \<noteq> 0"

definition input_chunks :: "scenario_input \<Rightarrow> nat" where
  "input_chunks input = (unat (si_logical_bytes input) - 1) div unat (si_chunk_bytes input) + 1"

text \<open>A context on the way: its input and counts are the ones it was made with.\<close>

definition context_ok :: "scenario_input \<Rightarrow> u64 \<Rightarrow> generator_context \<Rightarrow> bool" where
  "context_ok input cache c \<longleftrightarrow>
     input_ok input \<and> gc_input c = input \<and> gc_cache_chunks c = cache \<and>
     unat (gc_chunk_count c) = input_chunks input \<and>
     numbered (gc_operations c) \<and> (\<forall>op\<in>set (gc_operations c). op_in_bounds input op)"

lemma numbered_snoc: "numbered (ops @ [op]) \<longleftrightarrow> numbered ops \<and> so_sequence op = of_nat (length ops)"
  by (auto simp: numbered_def)

lemma chunk_offset:
  assumes "input_ok input" and "unat k < input_chunks input"
  shows "unat (k * si_chunk_bytes input) = unat k * unat (si_chunk_bytes input)"
    and "unat k * unat (si_chunk_bytes input) < unat (si_logical_bytes input)"
proof -
  have c: "0 < unat (si_chunk_bytes input)" and l: "0 < unat (si_logical_bytes input)"
    using assms(1) by (simp_all add: input_ok_def unat_gt_0_iff)
  have "unat k \<le> (unat (si_logical_bytes input) - 1) div unat (si_chunk_bytes input)"
    using assms(2) by (simp add: input_chunks_def)
  then have "unat k * unat (si_chunk_bytes input) \<le> unat (si_logical_bytes input) - 1"
    using c by (simp add: less_eq_div_iff_mult_less_eq)
  then show lt: "unat k * unat (si_chunk_bytes input) < unat (si_logical_bytes input)" using l by simp
  show "unat (k * si_chunk_bytes input) = unat k * unat (si_chunk_bytes input)"
    using lt unat_u64_bound [of "si_logical_bytes input"] by (simp add: unat_mult_u64)
qed

lemma append_access_ok:
  assumes ok: "context_ok input cache c" and k: "unat k < input_chunks input" and m: "m \<noteq> Mode_out_of_range"
  shows "context_ok input cache (append_access k m p w o' c)"
    and "map (chunk_touched_by input) (gc_operations (append_access k m p w o' c)) =
      map (chunk_touched_by input) (gc_operations c) @ [unat k]"
proof -
  have i: "input_ok input" "gc_input c = input" using ok by (simp_all add: context_ok_def)
  note off = chunk_offset [OF i(1) k]
  have c: "0 < unat (si_chunk_bytes input)" using i by (simp add: input_ok_def unat_gt_0_iff)
  have sub: "unat (si_logical_bytes input - k * si_chunk_bytes input) =
      unat (si_logical_bytes input) - unat (k * si_chunk_bytes input)"
    using off by (simp add: unat_sub_u64)
  show "context_ok input cache (append_access k m p w o' c)"
    using ok m off sub i(2)
    by (auto simp: context_ok_def append_access_def numbered_snoc op_in_bounds_def make_chunk_access_def
        Let_def unat_min)
  show "map (chunk_touched_by input) (gc_operations (append_access k m p w o' c)) =
      map (chunk_touched_by input) (gc_operations c) @ [unat k]"
    using off c i(2) by (simp add: append_access_def chunk_touched_by_def make_chunk_access_def Let_def)
qed

lemma append_pressure_ok:
  assumes "context_ok input cache c" and "kind \<noteq> So_access"
  shows "context_ok input cache (append_pressure kind b c)"
  using assms by (auto simp: context_ok_def append_pressure_def numbered_snoc op_in_bounds_def)

subsection \<open>Loops\<close>

lemma fold_upt_inv:
  assumes "P 0 s" and "\<And>i s. i < n \<Longrightarrow> P i s \<Longrightarrow> P (Suc i) (f i s)"
  shows "P n (fold f [0..<n] s)"
  using assms by (induction n) auto

lemma count_loop_inv:
  assumes "P 0 s" and "\<And>i s. i < unat n \<Longrightarrow> P i s \<Longrightarrow> P (Suc i) (body (of_nat i) s)"
  shows "P (unat n) (count_loop n body s)"
  unfolding count_loop_def fold_map comp_def using assms by (rule fold_upt_inv)

lemma unat_of_nat_less:
  fixes n :: "'a :: len word"
  assumes "i < unat n"
  shows "unat (of_nat i :: 'a word) = i"
proof -
  have "unat n < 2 ^ LENGTH('a)" by (rule unsigned_less)
  then have "i < 2 ^ LENGTH('a)" using assms by (rule less_trans [rotated])
  then show ?thesis by (simp add: unat_of_nat)
qed

definition scan_order :: "nat \<Rightarrow> nat \<Rightarrow> nat list" where
  "scan_order n pass = (if even pass then [0..<n] else rev [0..<n])"

lemma scan_order_nth: "i < n \<Longrightarrow> scan_order n pass ! i = (if even pass then i else n - 1 - i)"
  by (simp add: scan_order_def rev_nth)

lemma length_scan_order [simp]: "length (scan_order n pass) = n"
  by (simp add: scan_order_def)

lemma even_pass:
  assumes "i < unat (n :: 'a :: len word)"
  shows "((of_nat i :: 'a word) AND 1 = 0) \<longleftrightarrow> even i"
proof (cases "LENGTH('a) = 1")
  case True
  then have "unat n < 2" using unsigned_less [of n, where 'a = nat] by simp
  then have "i = 0" using assms by simp
  then show ?thesis by simp
next
  case False
  then have "1 < LENGTH('a)" by (simp add: Suc_lessI)
  then have "unat (2 :: 'a word) = 2" by simp
  then have "unat ((of_nat i :: 'a word) AND 1) = i mod 2"
    by (simp add: and_one_eq unat_mod unat_of_nat_less [OF assms])
  then show ?thesis by (simp add: even_iff_mod_2_eq_zero flip: unat_eq_0_iff)
qed

lemma alternating_scan_ok:
  assumes ok: "context_ok input cache c" and m: "m \<noteq> Mode_out_of_range"
  shows "context_ok input cache (append_alternating_scan m passes one_touch c) \<and>
    map (chunk_touched_by input) (gc_operations (append_alternating_scan m passes one_touch c)) =
      map (chunk_touched_by input) (gc_operations c) @
      concat (map (scan_order (input_chunks input)) [0..<unat passes])"
proof -
  let ?n = "input_chunks input" and ?t = "\<lambda>c. map (chunk_touched_by input) (gc_operations c)"
  define body where "body = (\<lambda>(pass :: u32) context. let forward = (pass AND 1 = 0)
       in count_loop (gc_chunk_count context) (\<lambda>position context'.
            let chunk = (if forward then position else gc_chunk_count context' - 1 - position)
            in append_access chunk m pass False one_touch context') context)"
  have inner: "context_ok input cache (body (of_nat i) d) \<and> ?t (body (of_nat i) d) = ?t d @ scan_order ?n i"
    if i: "i < unat passes" and d: "context_ok input cache d" for i d
  proof -
    have n: "unat (gc_chunk_count d) = ?n" using d by (simp add: context_ok_def)
    have "context_ok input cache (body (of_nat i) d) \<and>
        ?t (body (of_nat i) d) = ?t d @ take (unat (gc_chunk_count d)) (scan_order ?n i)"
      unfolding body_def Let_def
    proof (rule count_loop_inv [where P = "\<lambda>j e. context_ok input cache e \<and> ?t e = ?t d @ take j (scan_order ?n i)"])
      fix j e
      assume j: "j < unat (gc_chunk_count d)" and e: "context_ok input cache e \<and> ?t e = ?t d @ take j (scan_order ?n i)"
      let ?k = "if (of_nat i :: u32) AND 1 = 0 then of_nat j else gc_chunk_count e - 1 - of_nat j"
      have j': "unat (of_nat j :: u64) = j" using j by (rule unat_of_nat_less)
      have one: "unat (gc_chunk_count e - 1) = ?n - 1"
        using e by (simp add: input_chunks_def unat_sub_u64 context_ok_def)
      then have "unat (gc_chunk_count e - 1 - of_nat j) = ?n - 1 - j" using j j' n by (simp add: unat_sub_u64)
      then have k: "unat ?k = scan_order ?n i ! j" "unat ?k < ?n"
        using j j' n even_pass [OF i] by (auto simp: scan_order_nth)
      have "take (Suc j) (scan_order ?n i) = take j (scan_order ?n i) @ [unat ?k]"
        using j n k(1) by (simp add: take_Suc_conv_app_nth)
      then show "context_ok input cache (append_access ?k m (of_nat i) False one_touch e) \<and>
          ?t (append_access ?k m (of_nat i) False one_touch e) = ?t d @ take (Suc j) (scan_order ?n i)"
        using append_access_ok [OF conjunct1 [OF e] k(2) m] e by simp
    qed (use d in simp)
    then show ?thesis using n by simp
  qed
  have "context_ok input cache (count_loop passes body c) \<and>
      ?t (count_loop passes body c) = ?t c @ concat (map (scan_order ?n) [0..<unat passes])"
    by (rule count_loop_inv [where P = "\<lambda>i d. context_ok input cache d \<and>
          ?t d = ?t c @ concat (map (scan_order ?n) [0..<i])"]) (use ok inner in auto)
  then show ?thesis unfolding append_alternating_scan_def body_def .
qed

lemma scan_ok:
  assumes ok: "context_ok input cache c" and m: "m \<noteq> Mode_out_of_range" and h: "unat h \<le> input_chunks input"
  shows "context_ok input cache (count_loop h (\<lambda>chunk. append_access chunk m p w o') c)"
  by (rule count_loop_inv [where P = "\<lambda>i d. context_ok input cache d"])
    (use ok h append_access_ok(1) [OF _ _ m] in \<open>auto simp: unat_of_nat_less\<close>)

lemma reserve_operations_None [simp]: "reserve_operations n = None"
  by (simp add: reserve_operations_def not_less)

lemma generate_reuse_ok:
  assumes ok: "context_ok input cache c" and g: "generate_reuse c = Inr c'"
  shows "context_ok input cache c'"
proof -
  let ?h = "reuse_hot_chunks c"
  have n: "1 \<le> input_chunks input" "unat (gc_chunk_count c) = input_chunks input"
    using ok by (simp_all add: input_chunks_def context_ok_def)
  then have h: "unat ?h \<le> input_chunks input" by (simp add: reuse_hot_chunks_def unat_max unat_min)
  have c': "c' = count_loop 8 (\<lambda>cycle. count_loop ?h (\<lambda>chunk. append_access chunk Read cycle (cycle = 0) False)) c"
    using g by (simp add: generate_reuse_def Let_def split: option.splits)
  show ?thesis
    unfolding c' by (rule count_loop_inv [where P = "\<lambda>i d. context_ok input cache d"])
      (use ok scan_ok [OF _ _ h] in auto)
qed

lemma generate_random_ok:
  assumes ok: "context_ok input cache c" and g: "generate_random c = Inr c'"
  shows "context_ok input cache c'"
proof -
  obtain t where "checked_multiply (gc_chunk_count c) 4 = Some t"
    using g by (cases "checked_multiply (gc_chunk_count c) 4") (simp_all add: generate_random_def)
  then have t: "c' = snd (count_loop t (\<lambda>operation (random, context).
                 case split_mix_next random of (random, v) \<Rightarrow>
                   let chunk = v mod gc_chunk_count context;
                       mode = (if operation AND 1 = 0 then Read else Read_write)
                   in (random, append_access chunk mode 0 False False context))
                 (si_seed (gc_input c) XOR 0x72616E646F6D0002, c))"
    using g by (simp add: generate_random_def)
  show ?thesis
    unfolding t
  proof (rule count_loop_inv [where P = "\<lambda>i s. context_ok input cache (snd s)"])
    fix i and s :: "u64 \<times> generator_context"
    assume s: "context_ok input cache (snd s)"
    then have n: "unat (gc_chunk_count (snd s)) = input_chunks input" by (simp add: context_ok_def)
    then have "unat (v mod gc_chunk_count (snd s)) < input_chunks input" for v
      by (simp add: unat_mod input_chunks_def)
    then show "context_ok input cache (snd ((\<lambda>operation (random, context).
                 case split_mix_next random of (random, v) \<Rightarrow>
                   let chunk = v mod gc_chunk_count context;
                       mode = (if operation AND 1 = 0 then Read else Read_write)
                   in (random, append_access chunk mode 0 False False context)) (of_nat i :: u64) s))"
      using s append_access_ok(1) by (cases s) (simp add: Let_def split: prod.split)
  qed (use ok in simp)
qed

lemma generate_budget_pressure_ok:
  assumes ok: "context_ok input cache c" and g: "generate_budget_pressure c = Inr c'"
  shows "context_ok input cache c'"
proof -
  let ?h = "min (gc_chunk_count c) (gc_cache_chunks c)"
  have h: "unat ?h \<le> input_chunks input" using ok by (simp add: context_ok_def unat_min)
  note steps = scan_ok [OF _ _ h] append_pressure_ok
  from g show ?thesis
    by (auto simp: generate_budget_pressure_def Let_def intro!: steps ok split: option.splits if_splits)
qed


subsection \<open>Write-heavy\<close>

lemma length_swap_elements [simp]: "length (swap_elements i j xs) = length xs"
  by (simp add: swap_elements_def)

lemma shuffle_mset:
  assumes "r \<le> length xs" and "length xs < 18446744073709551616"
  shows "mset (snd (shuffle r random xs)) = mset xs"
  using assms
proof (induction r random xs rule: shuffle.induct)
  case (2 r random xs)
  show ?case
  proof (cases "Suc r > 1")
    case True
    obtain random' v where nx: "split_mix_next random = (random', v)" by (cases "split_mix_next random")
    let ?s = "unat (v mod of_nat (Suc r))"
    have "unat (of_nat (Suc r) :: u64) = Suc r" using "2.prems" by (simp add: unat_of_nat del: of_nat_Suc)
    then have s: "?s < Suc r" by (simp add: unat_mod del: of_nat_Suc)
    have "mset (snd (shuffle (Suc r) random xs)) = mset (snd (shuffle r random' (swap_elements r ?s xs)))"
      using True by (simp add: nx Let_def)
    also have "\<dots> = mset (swap_elements r ?s xs)"
      using "2.IH" [OF True nx [symmetric] refl] "2.prems" by simp
    also have "\<dots> = mset xs"
      using s "2.prems" by (simp add: swap_elements_def mset_swap)
    finally show ?thesis .
  qed simp
qed simp

lemma write_heavy_modes_mset:
  "mset (write_heavy_modes n) =
     replicate_mset (n div 5) Read + replicate_mset (n div 5) Write_only +
     replicate_mset (n - 2 * (n div 5)) Read_write"
proof -
  have "write_heavy_modes n =
      replicate (n div 5) Read @ replicate (n div 5) Write_only @ replicate (n - 2 * (n div 5)) Read_write"
    by (simp add: write_heavy_modes_def Let_def)
  then show ?thesis by (simp add: add.assoc)
qed

lemma length_write_heavy_modes: "length (write_heavy_modes n) = n"
  using arg_cong [OF write_heavy_modes_mset [of n], of size] by simp

definition mode_of :: "scenario_operation \<Rightarrow> access_mode" where
  "mode_of op = (case so_access op of None \<Rightarrow> Mode_out_of_range | Some r \<Rightarrow> ar_mode r)"

lemma append_access_mode:
  "map mode_of (gc_operations (append_access k m p w o' c)) = map mode_of (gc_operations c) @ [m]"
  by (simp add: append_access_def mode_of_def make_chunk_access_def Let_def)

lemma append_access_pass:
  "map so_pass_index (gc_operations (append_access k m p w o' c)) = map so_pass_index (gc_operations c) @ [p]"
  by (simp add: append_access_def)

lemma write_heavy_scan:
  assumes "context_ok input cache c" and "\<forall>k\<in>set order. unat k < input_chunks input"
    and "k0 + length order \<le> length modes" and "Mode_out_of_range \<notin> set modes"
  shows "case fold (\<lambda>chunk (operation_index, context).
               (operation_index + 1, append_access chunk (modes ! operation_index) pass False False context))
             order (k0, c) of
      (k1, c') \<Rightarrow> k1 = k0 + length order \<and> context_ok input cache c' \<and>
        map (chunk_touched_by input) (gc_operations c') =
          map (chunk_touched_by input) (gc_operations c) @ map unat order \<and>
        map mode_of (gc_operations c') = map mode_of (gc_operations c) @ take (length order) (drop k0 modes)"
  using assms(1-3)
proof (induction order arbitrary: k0 c)
  case (Cons k order)
  let ?c = "append_access k (modes ! k0) pass False False c"
  have "modes ! k0 \<in> set modes" using Cons.prems(3) by (intro nth_mem) simp
  then have m: "modes ! k0 \<noteq> Mode_out_of_range" using assms(4) by metis
  have k: "unat k < input_chunks input" using Cons.prems(2) by simp
  note a = append_access_ok [OF Cons.prems(1) k m, of pass False False]
  have d: "drop k0 modes = modes ! k0 # drop (Suc k0) modes"
    using Cons.prems(3) by (simp add: Cons_nth_drop_Suc)
  show ?case
    using Cons.IH [OF a(1), of "k0 + 1"] Cons.prems(2,3) d
    by (auto simp: a(2) append_access_mode split: prod.splits)
qed simp

text \<open>The blocks of one pass: a permutation of the chunks each.\<close>

definition passes_visit_all :: "nat \<Rightarrow> nat \<Rightarrow> nat list \<Rightarrow> bool" where
  "passes_visit_all n passes visited \<longleftrightarrow>
     length visited = passes * n \<and>
     (\<forall>p<passes. mset (take n (drop (p * n) visited)) = mset [0..<n])"

lemma passes_visit_all_Suc:
  assumes "passes_visit_all n p visited" and "mset block = mset [0..<n]"
  shows "passes_visit_all n (Suc p) (visited @ block)"
proof -
  have l: "length visited = p * n" "length block = n"
    using assms mset_eq_length [OF assms(2)] by (simp_all add: passes_visit_all_def)
  have "mset (take n (drop (q * n) (visited @ block))) = mset [0..<n]" if "q < Suc p" for q
  proof (cases "q = p")
    case True
    then show ?thesis using l assms(2) by simp
  next
    case False
    then have "Suc q * n \<le> p * n" using that by (intro mult_le_mono1) simp
    then have "n \<le> length (drop (q * n) visited)" using l(1) by (simp del: mult_le_cancel2)
    then have "take n (drop (q * n) (visited @ block)) = take n (drop (q * n) visited)"
      using l(1) \<open>Suc q * n \<le> p * n\<close> by (simp del: mult_le_cancel2)
    moreover have "mset (take n (drop (q * n) visited)) = mset [0..<n]"
      using assms(1) that False unfolding passes_visit_all_def by simp
    ultimately show ?thesis by (simp only:)
  qed
  then show ?thesis using l by (simp add: passes_visit_all_def)
qed

lemma generate_write_heavy_ok:
  assumes ok: "context_ok input cache c" and empty: "gc_operations c = []"
    and g: "generate_write_heavy c = Inr c'"
  shows "context_ok input cache c' \<and>
    passes_visit_all (input_chunks input) (unat (si_passes input)) (map (chunk_touched_by input) (gc_operations c')) \<and>
    mset (map mode_of (gc_operations c')) = mset (write_heavy_modes (unat (si_passes input) * input_chunks input))"
proof -
  let ?n = "input_chunks input" and ?P = "unat (si_passes input)"
  let ?t = "\<lambda>c. map (chunk_touched_by input) (gc_operations c)"
  have n: "unat (gc_chunk_count c) = ?n" and inp: "gc_input c = input" using ok by (simp_all add: context_ok_def)
  obtain total where total: "checked_multiply (gc_chunk_count c) (ucast (si_passes input)) = Some total"
    using g inp by (cases "checked_multiply (gc_chunk_count c) (ucast (si_passes input))")
      (simp_all add: generate_write_heavy_def)
  have tn: "unat total = ?P * ?n"
    using total n unat_u32_bound [of "si_passes input"]
    by (simp add: checked_multiply_Some_iff mult.commute unsigned_ucast_eq take_bit_nat_eq_self)
  let ?m0 = "write_heavy_modes (unat total)"
  define modes where "modes = snd (shuffle (length ?m0) (si_seed input XOR 0x6D6F646568760002) ?m0)"
  have mm: "mset modes = mset ?m0"
    unfolding modes_def by (rule shuffle_mset) (simp_all add: length_write_heavy_modes unat_u64_bound)
  have lm: "length modes = ?P * ?n" using mset_eq_length [OF mm] by (simp add: length_write_heavy_modes tn)
  have "Mode_out_of_range \<notin># mset ?m0" by (simp add: write_heavy_modes_mset del: set_mset_mset)
  then have mo: "Mode_out_of_range \<notin> set modes" using arg_cong [OF mm, of set_mset] by simp
  let ?order = "map of_nat [0..<?n] :: u64 list"
  have n64: "?n < 18446744073709551616" using n unat_u64_bound [of "gc_chunk_count c"] by simp
  have uo: "map unat ?order = [0..<?n]"
    by (rule nth_equalityI) (use n64 in \<open>simp_all add: unat_of_nat\<close>)
  obtain s where s: "s = count_loop (si_passes input) (write_heavy_pass modes)
      (si_seed input XOR 0x7772697465687602, ?order, 0, c)" by simp
  have c': "c' = snd (snd (snd s))"
    using g total unfolding s modes_def
    by (simp add: generate_write_heavy_def inp n Let_def split: prod.splits)
  let ?Q = "\<lambda>i (random :: u64, order :: u64 list, k, d).
    mset order = mset ?order \<and> k = i * ?n \<and> context_ok input cache d \<and>
    passes_visit_all ?n i (?t d) \<and> map mode_of (gc_operations d) = take (i * ?n) modes"
  have "?Q ?P s"
    unfolding s
  proof (rule count_loop_inv [where P = ?Q])
    show "?Q 0 (si_seed input XOR 0x7772697465687602, ?order, 0, c)"
      using ok empty by (simp add: passes_visit_all_def)
  next
    fix i s assume i: "i < ?P" and Q: "?Q i s"
    obtain random order k d where sd: "s = (random, order, k, d)" by (cases s)
    obtain random' order' where sh: "shuffle (length order) random order = (random', order')"
      by (cases "shuffle (length order) random order")
    have q: "mset order = mset ?order" "k = i * ?n" "context_ok input cache d" "passes_visit_all ?n i (?t d)"
      "map mode_of (gc_operations d) = take (i * ?n) modes" using Q sd by simp_all
    have lo: "length order = ?n" using mset_eq_length [OF q(1)] by simp
    have mo': "mset order' = mset ?order"
      using shuffle_mset [of "length order" order random] sh lo n64 q(1) by simp
    have lo': "length order' = ?n" using mset_eq_length [OF mo'] by simp
    have small: "\<forall>k\<in>set order'. unat k < ?n"
      using arg_cong [OF mo', of set_mset] n64 by (auto simp: unat_of_nat)
    have "Suc i * ?n \<le> ?P * ?n" using i by (intro mult_le_mono1) simp
    then have fits: "k + length order' \<le> length modes" using q(2) lm lo' by simp
    obtain k1 d1 where fold: "fold (\<lambda>chunk (operation_index, context).
               (operation_index + 1, append_access chunk (modes ! operation_index) (of_nat i) False False context))
             order' (k, d) = (k1, d1)" by fastforce
    note scan = write_heavy_scan [OF q(3) small fits mo, of "of_nat i", unfolded fold prod.case]
    have pass: "write_heavy_pass modes (of_nat i) s = (random', order', k1, d1)"
      unfolding sd write_heavy_pass_def prod.case sh fold by simp
    have "mset (map unat order') = mset [0..<?n]"
      using arg_cong [OF mo', of "image_mset unat"] uo by (simp flip: mset_map)
    then have "passes_visit_all ?n (Suc i) (?t d1)" using scan passes_visit_all_Suc [OF q(4)] by simp
    moreover have "take (i * ?n) modes @ take ?n (drop (i * ?n) modes) = take (Suc i * ?n) modes"
      by (simp add: take_add [symmetric] add.commute)
    ultimately show "?Q (Suc i) (write_heavy_pass modes (of_nat i) s)"
      unfolding pass using scan mo' q lo' by simp
  qed
  then show ?thesis
    unfolding c' using mm lm tn by (cases s) simp
qed


section \<open>Properties\<close>

definition initial_context :: "scenario_input \<Rightarrow> generator_context" where
  "initial_context input =
     \<lparr>gc_input = input, gc_chunk_count = (si_logical_bytes input - 1) div si_chunk_bytes input + 1,
      gc_cache_chunks = si_cache_target_bytes input div si_chunk_bytes input, gc_operations = []\<rparr>"

lemma initial_context_ok:
  assumes "input_ok input"
  shows "context_ok input (si_cache_target_bytes input div si_chunk_bytes input) (initial_context input)"
proof -
  have l: "0 < unat (si_logical_bytes input)" using assms by (simp add: input_ok_def unat_gt_0_iff)
  have "unat ((si_logical_bytes input - 1) div si_chunk_bytes input) =
      (unat (si_logical_bytes input) - 1) div unat (si_chunk_bytes input)"
    using l by (simp add: unat_div unat_sub_u64)
  moreover have "(unat (si_logical_bytes input) - 1) div unat (si_chunk_bytes input) < 18446744073709551615"
    using l unat_u64_bound [of "si_logical_bytes input"]
      div_le_dividend [of "unat (si_logical_bytes input) - 1" "unat (si_chunk_bytes input)"] by linarith
  ultimately have "unat ((si_logical_bytes input - 1) div si_chunk_bytes input + 1) = input_chunks input"
    unfolding input_chunks_def by (subst unat_add_u64) simp_all
  then show ?thesis using assms by (simp add: context_ok_def initial_context_def numbered_def)
qed

text \<open>A trace comes from the generator of its scenario, run on the initial context of a usable input.\<close>

definition generator_of :: "scenario_kind \<Rightarrow> generator_context \<Rightarrow> scenario_trace_error + generator_context" where
  "generator_of scenario =
     (case scenario of
        Sk_sequential \<Rightarrow> generate_sequential
      | Sk_reuse \<Rightarrow> generate_reuse
      | Sk_random \<Rightarrow> generate_random
      | Sk_read_only \<Rightarrow> generate_read_only
      | Sk_write_heavy \<Rightarrow> generate_write_heavy
      | Sk_budget_pressure \<Rightarrow> generate_budget_pressure
      | Sk_suite \<Rightarrow> (\<lambda>c. Inl Ste_invalid_configuration))"

lemma generated_trace:
  assumes "generate_scenario_trace k input = Inr t"
  obtains c where "k \<noteq> Sk_suite" and "input_ok input" and "allocation_id_valid (si_allocation_id input)"
    and "generator_of k (initial_context input) = Inr c"
    and "t = \<lparr>st_scenario = k, st_operations = gc_operations c\<rparr>"
proof -
  have e: "(case k of
                     Sk_sequential \<Rightarrow> generate_sequential x
                   | Sk_reuse \<Rightarrow> generate_reuse x
                   | Sk_random \<Rightarrow> generate_random x
                   | Sk_read_only \<Rightarrow> generate_read_only x
                   | Sk_write_heavy \<Rightarrow> generate_write_heavy x
                   | Sk_budget_pressure \<Rightarrow> generate_budget_pressure x
                   | Sk_suite \<Rightarrow> Inl Ste_invalid_configuration) = generator_of k x" for x
    by (cases k) (simp_all add: generator_of_def)
  show thesis
    using assms that
    by (auto simp: generate_scenario_trace_def Let_def e input_ok_def simp flip: initial_context_def
        split: if_splits sum.splits)
qed

lemma generate_sequential_ops:
  assumes "generate_sequential c = Inr c'"
  shows "c' = append_alternating_scan Read_write (si_passes (gc_input c)) True c"
  using assms by (simp add: generate_sequential_def split: option.splits)

lemma generate_read_only_ops:
  assumes "generate_read_only c = Inr c'"
  shows "c' = append_alternating_scan Read (si_passes (gc_input c)) True c"
  using assms by (simp add: generate_read_only_def split: option.splits)

lemma generated_context_ok:
  assumes ok: "context_ok input cache c" and "gc_operations c = []" and g: "generator_of k c = Inr c'"
  shows "context_ok input cache c'"
proof (cases k)
  case Sk_sequential
  then show ?thesis
    using g alternating_scan_ok [OF ok] by (auto simp: generator_of_def dest!: generate_sequential_ops)
next
  case Sk_read_only
  then show ?thesis
    using g alternating_scan_ok [OF ok] by (auto simp: generator_of_def dest!: generate_read_only_ops)
next
  case Sk_reuse
  then show ?thesis using generate_reuse_ok [OF ok] g by (simp add: generator_of_def)
next
  case Sk_random
  then show ?thesis using generate_random_ok [OF ok] g by (simp add: generator_of_def)
next
  case Sk_write_heavy
  then show ?thesis using generate_write_heavy_ok [OF ok assms(2)] g by (simp add: generator_of_def)
next
  case Sk_budget_pressure
  then show ?thesis using generate_budget_pressure_ok [OF ok] g by (simp add: generator_of_def)
next
  case Sk_suite
  then show ?thesis using g by (simp add: generator_of_def)
qed

text \<open>
  C37: Every trace of every scenario is well formed: the sequence numbers count from zero, and every
  access names the allocation, has a legal mode, starts on a chunk boundary inside the allocation and
  covers that chunk up to the end of the allocation; no arithmetic wraps.
\<close>

theorem scenario_trace_well_formed:
  assumes "generate_scenario_trace k input = Inr t"
  shows "st_scenario t = k \<and> numbered (st_operations t) \<and> (\<forall>op\<in>set (st_operations t). op_in_bounds input op)"
proof -
  obtain c where c: "input_ok input" "generator_of k (initial_context input) = Inr c"
      "t = \<lparr>st_scenario = k, st_operations = gc_operations c\<rparr>"
    using generated_trace [OF assms] by blast
  have "context_ok input (si_cache_target_bytes input div si_chunk_bytes input) c"
    using generated_context_ok [OF initial_context_ok [OF c(1)] _ c(2)] by (simp add: initial_context_def)
  then show ?thesis using c(3) by (simp add: context_ok_def)
qed

definition scenario_example :: scenario_input where
  "scenario_example = \<lparr>si_allocation_id = AllocationId 1, si_logical_bytes = 19, si_chunk_bytes = 4,
     si_cache_target_bytes = 8, si_pressure_bytes = None, si_passes = 2, si_seed = 7\<rparr>"

lemma scenario_example_sequential:
  "generate_scenario_trace Sk_sequential scenario_example =
     Inr \<lparr>st_scenario = Sk_sequential, st_operations = gc_operations
       (append_alternating_scan Read_write 2 True (initial_context scenario_example))\<rparr>"
  by (simp add: generate_scenario_trace_def scenario_example_def checked_multiply_def max_u64_def
      allocation_id_valid_def generate_sequential_def initial_context_def)

theorem scenario_trace_well_formed_witness:
  "numbered (gc_operations (append_alternating_scan Read_write 2 True (initial_context scenario_example)))"
  using scenario_trace_well_formed [OF scenario_example_sequential] by simp

text \<open>
  The scanning scenarios (sequential, which also writes, and read-only) touch the chunks in
  alternating direction: pass by pass all chunks of the allocation, forward in even passes and
  backward in odd ones.
\<close>

theorem scan_scenarios_alternate:
  assumes "generate_scenario_trace k input = Inr t" and "k = Sk_sequential \<or> k = Sk_read_only"
  shows "map (chunk_touched_by input) (st_operations t) =
    concat (map (\<lambda>pass. if even pass then [0..<input_chunks input] else rev [0..<input_chunks input])
      [0..<unat (si_passes input)])"
proof -
  obtain c where c: "input_ok input" "generator_of k (initial_context input) = Inr c"
      "t = \<lparr>st_scenario = k, st_operations = gc_operations c\<rparr>"
    using generated_trace [OF assms(1)] by blast
  obtain m where m: "m \<noteq> Mode_out_of_range" "c = append_alternating_scan m (si_passes input) True (initial_context input)"
  proof (cases "k = Sk_sequential")
    case True
    then show ?thesis
      using that [of Read_write] generate_sequential_ops [of "initial_context input" c] c(2)
      by (simp add: generator_of_def initial_context_def)
  next
    case False
    then show ?thesis
      using that [of Read] generate_read_only_ops [of "initial_context input" c] c(2) assms(2)
      by (simp add: generator_of_def initial_context_def)
  qed
  show ?thesis
    using alternating_scan_ok [OF initial_context_ok [OF c(1)] m(1), of "si_passes input" True] c(3) m(2)
    by (simp add: initial_context_def scan_order_def [abs_def])
qed

theorem scan_scenarios_alternate_witness:
  "map (chunk_touched_by scenario_example)
     (gc_operations (append_alternating_scan Read_write 2 True (initial_context scenario_example))) =
   [0, 1, 2, 3, 4, 4, 3, 2, 1, 0]"
  using scan_scenarios_alternate [OF scenario_example_sequential]
  by (simp add: scenario_example_def input_chunks_def upt_rec)

text \<open>
  The write-heavy scenario visits every chunk exactly once in every pass, whatever the seed, and
  a fifth of its accesses (rounded down) read, a fifth only write, and the rest read and write.
\<close>

theorem write_heavy_exact:
  assumes "generate_scenario_trace Sk_write_heavy input = Inr t"
  shows "passes_visit_all (input_chunks input) (unat (si_passes input))
      (map (chunk_touched_by input) (st_operations t)) \<and>
    (let n = unat (si_passes input) * input_chunks input
     in mset (map mode_of (st_operations t)) =
       replicate_mset (n div 5) Read + replicate_mset (n div 5) Write_only +
       replicate_mset (n - 2 * (n div 5)) Read_write)"
proof -
  obtain c where c: "input_ok input" "generator_of Sk_write_heavy (initial_context input) = Inr c"
      "t = \<lparr>st_scenario = Sk_write_heavy, st_operations = gc_operations c\<rparr>"
    using generated_trace [OF assms] by blast
  have g: "generate_write_heavy (initial_context input) = Inr c" using c(2) by (simp add: generator_of_def)
  show ?thesis
    using generate_write_heavy_ok [OF initial_context_ok [OF c(1)] _ g] c(3)
    by (simp add: initial_context_def write_heavy_modes_mset Let_def)
qed

lemma scenario_example_write_heavy:
  "\<exists>t. generate_scenario_trace Sk_write_heavy scenario_example = Inr t"
  by (simp add: generate_scenario_trace_def scenario_example_def checked_multiply_def max_u64_def
      allocation_id_valid_def generate_write_heavy_def Let_def split: prod.split)

theorem write_heavy_exact_witness:
  "\<exists>t. generate_scenario_trace Sk_write_heavy scenario_example = Inr t \<and>
     mset (map mode_of (st_operations t)) =
       replicate_mset 2 Read + replicate_mset 2 Write_only + replicate_mset 6 Read_write"
proof -
  obtain t where t: "generate_scenario_trace Sk_write_heavy scenario_example = Inr t"
    using scenario_example_write_heavy by blast
  show ?thesis using write_heavy_exact [OF t] t by (simp add: scenario_example_def input_chunks_def Let_def)
qed

text \<open>
  Traces and planner fit: whatever accesses of a trace are submitted together, the access planner
  accepts them for the allocation the trace was generated for.
\<close>

theorem trace_accesses_are_plannable:
  assumes "generate_scenario_trace k input = Inr t"
    and "\<forall>r\<in>set rs. \<exists>op\<in>set (st_operations t). so_access op = Some r"
  shows "\<exists>res. normalize_and_split_accesses
      [\<lparr>al_id = si_allocation_id input, al_size_bytes = si_logical_bytes input\<rparr>] rs (si_chunk_bytes input) = Some res \<and>
    apr_error res = Ape_none"
proof -
  let ?l = "\<lparr>al_id = si_allocation_id input, al_size_bytes = si_logical_bytes input\<rparr>"
  obtain c where c: "input_ok input" "allocation_id_valid (si_allocation_id input)"
      "generator_of k (initial_context input) = Inr c" "t = \<lparr>st_scenario = k, st_operations = gc_operations c\<rparr>"
    using generated_trace [OF assms(1)] by blast
  have "context_ok input (si_cache_target_bytes input div si_chunk_bytes input) c"
    using generated_context_ok [OF initial_context_ok [OF c(1)] _ c(3)] by (simp add: initial_context_def)
  then have b: "\<forall>op\<in>set (st_operations t). op_in_bounds input op" using c(4) by (simp add: context_ok_def)
  have chunk: "0 < unat (si_chunk_bytes input)" using c(1) by (simp add: input_ok_def unat_gt_0_iff)
  have "range_in_layout [?l] r" if "r \<in> set rs" for r
  proof -
    obtain op where "op \<in> set (st_operations t)" "so_access op = Some r" using assms(2) \<open>r \<in> set rs\<close> by blast
    then have "op_in_bounds input op" "so_access op = Some r" using b by simp_all
    then show ?thesis
      using chunk by (auto simp: op_in_bounds_def range_in_layout_def simp flip: unat_gt_0_iff)
  qed
  then have "accesses_valid [?l] rs (si_chunk_bytes input)"
    using c(1,2) by (simp add: accesses_valid_def layout_ok_def input_ok_def)
  from normalize_and_split_valid [OF this] show ?thesis by auto
qed

theorem trace_accesses_are_plannable_witness:
  "\<exists>res. normalize_and_split_accesses [\<lparr>al_id = AllocationId 1, al_size_bytes = 19\<rparr>]
      (List.map_filter so_access
        (gc_operations (append_alternating_scan Read_write 2 True (initial_context scenario_example)))) 4 = Some res \<and>
    apr_error res = Ape_none"
  using trace_accesses_are_plannable [OF scenario_example_sequential,
      of "List.map_filter so_access
        (gc_operations (append_alternating_scan Read_write 2 True (initial_context scenario_example)))"]
  by (simp add: scenario_example_def map_filter_def) force

end
