(* ===== verification/Sha256.thy ===== *)
theory Sha256
  imports Xv_Prelude
begin

text \<open>
SHA-256 as \<open>src/src/platform/sha256.cpp\<close> computes it: the buffered object with its
  \<open>update\<close>, \<open>finish\<close> and \<open>transform\<close>, and the digests of byte strings and of files, where
  the file stream is given by what it delivers. The standard's definition over the padded message is
  the reference. Lengths up to the 64-bit byte counter are covered; the bit count wraps there as it
  does in the code.
\<close>

unbundle bit_operations_syntax

section \<open>The hash\<close>

definition round_constants :: "u32 list" where
  "round_constants =
    concat
     [[0x428a2f98, 0x71374491, 0xb5c0fbcf, 0xe9b5dba5],
      [0x3956c25b, 0x59f111f1, 0x923f82a4, 0xab1c5ed5],
      [0xd807aa98, 0x12835b01, 0x243185be, 0x550c7dc3],
      [0x72be5d74, 0x80deb1fe, 0x9bdc06a7, 0xc19bf174],
      [0xe49b69c1, 0xefbe4786, 0x0fc19dc6, 0x240ca1cc],
      [0x2de92c6f, 0x4a7484aa, 0x5cb0a9dc, 0x76f988da],
      [0x983e5152, 0xa831c66d, 0xb00327c8, 0xbf597fc7],
      [0xc6e00bf3, 0xd5a79147, 0x06ca6351, 0x14292967],
      [0x27b70a85, 0x2e1b2138, 0x4d2c6dfc, 0x53380d13],
      [0x650a7354, 0x766a0abb, 0x81c2c92e, 0x92722c85],
      [0xa2bfe8a1, 0xa81a664b, 0xc24b8b70, 0xc76c51a3],
      [0xd192e819, 0xd6990624, 0xf40e3585, 0x106aa070],
      [0x19a4c116, 0x1e376c08, 0x2748774c, 0x34b0bcb5],
      [0x391c0cb3, 0x4ed8aa4a, 0x5b9cca4f, 0x682e6ff3],
      [0x748f82ee, 0x78a5636f, 0x84c87814, 0x8cc70208],
      [0x90befffa, 0xa4506ceb, 0xbef9a3f7, 0xc67178f2]]"

record sha256_hash =
  sh_state :: "u32 list"
  sh_buffer :: "u8 list"
  sh_buffer_size :: nat
  sh_total_bytes :: u64

definition sha256_initial :: sha256_hash where
  "sha256_initial =
     \<lparr>sh_state = [0x6a09e667, 0xbb67ae85, 0x3c6ef372, 0xa54ff53a, 0x510e527f, 0x9b05688c, 0x1f83d9ab, 0x5be0cd19],
      sh_buffer = replicate 64 0, sh_buffer_size = 0, sh_total_bytes = 0\<rparr>"

text \<open>The message schedule of a block: the sixteen words of the block, then the extension.\<close>

definition schedule_word :: "u8 list \<Rightarrow> nat \<Rightarrow> u32" where
  "schedule_word block index =
     (let offset = index * 4
      in push_bit 24 (ucast (block ! offset)) OR push_bit 16 (ucast (block ! (offset + 1))) OR
         push_bit 8 (ucast (block ! (offset + 2))) OR ucast (block ! (offset + 3)))"

definition extend_schedule :: "nat \<Rightarrow> u32 list \<Rightarrow> u32 list" where
  "extend_schedule index words =
     (let w15 = words ! (index - 15); w2 = words ! (index - 2);
          sigma0 = word_rotr 7 w15 XOR word_rotr 18 w15 XOR drop_bit 3 w15;
          sigma1 = word_rotr 17 w2 XOR word_rotr 19 w2 XOR drop_bit 10 w2
      in words @ [words ! (index - 16) + sigma0 + words ! (index - 7) + sigma1])"

definition schedule :: "u8 list \<Rightarrow> u32 list" where
  "schedule block = fold extend_schedule [16..<64] (map (schedule_word block) [0..<16])"

definition sha256_round ::
    "u32 \<times> u32 \<Rightarrow> u32 \<times> u32 \<times> u32 \<times> u32 \<times> u32 \<times> u32 \<times> u32 \<times> u32 \<Rightarrow>
     u32 \<times> u32 \<times> u32 \<times> u32 \<times> u32 \<times> u32 \<times> u32 \<times> u32" where
  "sha256_round = (\<lambda>(constant, word) (a, b, c, d, e, f, g, h).
     let sum1 = word_rotr 6 e XOR word_rotr 11 e XOR word_rotr 25 e;
         choice = (e AND f) XOR (NOT e AND g);
         temporary1 = h + sum1 + choice + constant + word;
         sum0 = word_rotr 2 a XOR word_rotr 13 a XOR word_rotr 22 a;
         majority = (a AND b) XOR (a AND c) XOR (b AND c);
         temporary2 = sum0 + majority
     in (temporary1 + temporary2, a, b, c, d + temporary1, e, f, g))"

definition sha256_transform :: "u8 list \<Rightarrow> u32 list \<Rightarrow> u32 list" where
  "sha256_transform block state =
     (case fold sha256_round (zip round_constants (schedule block))
             (state ! 0, state ! 1, state ! 2, state ! 3, state ! 4, state ! 5, state ! 6, state ! 7) of
        (a, b, c, d, e, f, g, h) \<Rightarrow>
          [state ! 0 + a, state ! 1 + b, state ! 2 + c, state ! 3 + d,
           state ! 4 + e, state ! 5 + f, state ! 6 + g, state ! 7 + h])"

text \<open>\<open>std::copy_n\<close> into a fixed array at an offset.\<close>

definition write_at :: "nat \<Rightarrow> 'a list \<Rightarrow> 'a list \<Rightarrow> 'a list" where
  "write_at offset xs buffer = take offset buffer @ xs @ drop (offset + length xs) buffer"

text \<open>The loop over whole blocks: the state after them and the bytes left over.\<close>

function absorb_blocks :: "u32 list \<Rightarrow> u8 list \<Rightarrow> u32 list \<times> u8 list" where
  "absorb_blocks state rest =
     (if length rest \<ge> 64 then absorb_blocks (sha256_transform (take 64 rest) state) (drop 64 rest)
      else (state, rest))"
  by pat_completeness auto

termination by (relation "measure (\<lambda>(_, rest). length rest)") auto

declare absorb_blocks.simps [simp del]

lemma absorb_blocks_Nil [simp]: "absorb_blocks state [] = (state, [])"
  by (simp add: absorb_blocks.simps)

definition sha256_update :: "u8 list \<Rightarrow> sha256_hash \<Rightarrow> sha256_hash \<times> bool" where
  "sha256_update input s =
     (if length input > unat (max_u64 - sh_total_bytes s) then (s, False)
      else
        let s = s\<lparr>sh_total_bytes := sh_total_bytes s + of_nat (length input)\<rparr>;
            (s, rest) =
              (if sh_buffer_size s \<noteq> 0 then
                 let copied = min (length input) (64 - sh_buffer_size s);
                     buffer = write_at (sh_buffer_size s) (take copied input) (sh_buffer s);
                     size = sh_buffer_size s + copied
                 in (if size = 64
                     then s\<lparr>sh_buffer := buffer, sh_state := sha256_transform buffer (sh_state s), sh_buffer_size := 0\<rparr>
                     else s\<lparr>sh_buffer := buffer, sh_buffer_size := size\<rparr>,
                     drop copied input)
               else (s, input));
            (state, rest) = absorb_blocks (sh_state s) rest;
            s = s\<lparr>sh_state := state\<rparr>
        in (if rest \<noteq> [] then s\<lparr>sh_buffer_size := length rest, sh_buffer := write_at 0 rest (sh_buffer s)\<rparr> else s,
            True))"

definition sha256_hex :: "u32 \<Rightarrow> string" where
  "sha256_hex word =
     map (\<lambda>shift. ''0123456789abcdef'' ! unat (drop_bit shift word AND 0xF)) [28, 24, 20, 16, 12, 8, 4, 0]"

definition sha256_finish :: "sha256_hash \<Rightarrow> string" where
  "sha256_finish s =
     (let bit_count = sh_total_bytes s * 8;
          buffer = write_at (sh_buffer_size s) [0x80] (sh_buffer s);
          size = sh_buffer_size s + 1;
          (state, buffer, size) =
            (if size > 56 then
               let buffer = write_at size (replicate (64 - size) 0) buffer
               in (sha256_transform buffer (sh_state s), buffer, 0)
             else (sh_state s, buffer, size));
          buffer = write_at size (replicate (56 - size) 0) buffer;
          buffer = fold (\<lambda>index buffer. buffer[63 - index := ucast (drop_bit (index * 8) bit_count AND 0xFF)])
                     [0..<8] buffer;
          state = sha256_transform buffer state
      in concat (map sha256_hex state))"

definition sha256_bytes :: "u8 list \<Rightarrow> string" where
  "sha256_bytes bytes =
     (case sha256_update bytes sha256_initial of (hash, ok) \<Rightarrow> if \<not> ok then [] else sha256_finish hash)"

text \<open>
  \<open>sha256_file\<close>, given what the stream delivers: whether it opens, the reads (each of at most
  64 KiB, an empty one delivers nothing) and whether it ended at the end of the file.
\<close>

datatype sha256_file_result =
    File_digest string | File_open_failed | File_too_large | File_read_failed

fun sha256_file_loop :: "u8 list list \<Rightarrow> sha256_hash \<Rightarrow> sha256_hash option" where
  "sha256_file_loop [] hash = Some hash"
| "sha256_file_loop (bytes # reads) hash =
     (if bytes \<noteq> [] then
        case sha256_update bytes hash of (hash, ok) \<Rightarrow> if \<not> ok then None else sha256_file_loop reads hash
      else sha256_file_loop reads hash)"

definition sha256_file :: "bool \<Rightarrow> u8 list list \<Rightarrow> bool \<Rightarrow> sha256_file_result" where
  "sha256_file opened reads at_eof =
     (if \<not> opened then File_open_failed
      else case sha256_file_loop reads sha256_initial of
             None \<Rightarrow> File_too_large
           | Some hash \<Rightarrow> if \<not> at_eof then File_read_failed else File_digest (sha256_finish hash))"

section \<open>The standard's view\<close>

text \<open>The message padded to whole blocks, and the hash as a fold over them.\<close>

function blocks :: "u8 list \<Rightarrow> u8 list list" where
  "blocks xs = (if length xs \<ge> 64 then take 64 xs # blocks (drop 64 xs) else [])"
  by pat_completeness auto

termination by (relation "measure length") auto

declare blocks.simps [simp del]

definition big_endian :: "u64 \<Rightarrow> u8 list" where
  "big_endian v = map (\<lambda>shift. ucast (drop_bit shift v)) [56, 48, 40, 32, 24, 16, 8, 0]"

definition padded :: "u8 list \<Rightarrow> u8 list" where
  "padded m =
     m @ [0x80] @ replicate (if length m mod 64 < 56 then 55 - length m mod 64 else 119 - length m mod 64) 0 @
     big_endian (of_nat (length m) * 8)"

definition sha256_reference :: "u8 list \<Rightarrow> string" where
  "sha256_reference m = concat (map sha256_hex (fold sha256_transform (blocks (padded m)) (sh_state sha256_initial)))"

lemma blocks_short [simp]: "length xs < 64 \<Longrightarrow> blocks xs = []"
  by (simp add: blocks.simps)

lemma blocks_one: "length b = 64 \<Longrightarrow> blocks (b @ xs) = b # blocks xs"
  by (subst blocks.simps) simp

lemma blocks_append:
  assumes "64 dvd length xs"
  shows "blocks (xs @ ys) = blocks xs @ blocks ys"
  using assms
proof (induction xs rule: blocks.induct)
  case (1 xs)
  show ?case
  proof (cases "length xs \<ge> 64")
    case True
    then have "64 dvd length (drop 64 xs)" using 1 by (simp add: dvd_diff_nat)
    then show ?thesis
      using 1(1) [OF True] True by (simp add: blocks.simps [of "xs @ ys"] blocks.simps [of xs])
  next
    case False
    then have "xs = []" using 1 by (auto dest: dvd_imp_le)
    then show ?thesis by simp
  qed
qed

lemma absorb_blocks_spec:
  "\<exists>pre tail. rest = pre @ tail \<and> 64 dvd length pre \<and> length tail < 64 \<and>
     absorb_blocks state rest = (fold sha256_transform (blocks pre) state, tail)"
proof (induction state rest rule: absorb_blocks.induct)
  case (1 state rest)
  show ?case
  proof (cases "length rest \<ge> 64")
    case True
    then obtain pre tail where p: "drop 64 rest = pre @ tail" "64 dvd length pre" "length tail < 64"
      "absorb_blocks (sha256_transform (take 64 rest) state) (drop 64 rest) =
         (fold sha256_transform (blocks pre) (sha256_transform (take 64 rest) state), tail)"
      using 1 by blast
    have "rest = (take 64 rest @ pre) @ tail" using p(1) by (metis append_take_drop_id append.assoc)
    moreover have "64 dvd length (take 64 rest @ pre)" using True p(2) by simp
    moreover have "absorb_blocks state rest = (fold sha256_transform (blocks (take 64 rest @ pre)) state, tail)"
      using p(4) True by (simp add: absorb_blocks.simps [of state rest] blocks_one)
    ultimately show ?thesis using p(3) by blast
  next
    case False
    then show ?thesis by (intro exI [of _ "[]"] exI [of _ rest]) (simp add: absorb_blocks.simps [of state rest])
  qed
qed

text \<open>The hash object after the bytes \<open>m\<close>.\<close>

definition absorbed :: "u8 list \<Rightarrow> sha256_hash \<Rightarrow> bool" where
  "absorbed m s \<longleftrightarrow>
     (\<exists>pre tail. m = pre @ tail \<and> 64 dvd length pre \<and> length tail < 64 \<and>
        sh_state s = fold sha256_transform (blocks pre) (sh_state sha256_initial) \<and>
        sh_buffer_size s = length tail \<and> take (length tail) (sh_buffer s) = tail) \<and>
     length (sh_buffer s) = 64 \<and> sh_total_bytes s = of_nat (length m)"

lemma absorbedI:
  "m = pre @ tail \<Longrightarrow> 64 dvd length pre \<Longrightarrow> length tail < 64 \<Longrightarrow>
   sh_state s = fold sha256_transform (blocks pre) (sh_state sha256_initial) \<Longrightarrow>
   sh_buffer_size s = length tail \<Longrightarrow> take (length tail) (sh_buffer s) = tail \<Longrightarrow>
   length (sh_buffer s) = 64 \<Longrightarrow> sh_total_bytes s = of_nat (length m) \<Longrightarrow> absorbed m s"
  unfolding absorbed_def by blast

lemma length_write_at: "offset + length xs \<le> length buffer \<Longrightarrow> length (write_at offset xs buffer) = length buffer"
  by (simp add: write_at_def)

lemma take_write_at:
  "offset + length xs \<le> length buffer \<Longrightarrow> take (offset + length xs) (write_at offset xs buffer) = take offset buffer @ xs"
  by (simp add: write_at_def)

lemma take_write_0: "length xs \<le> length buffer \<Longrightarrow> take (length xs) (write_at 0 xs buffer) = xs"
  by (simp add: write_at_def)

lemma absorbed_initial: "absorbed [] sha256_initial"
  by (simp add: absorbed_def sha256_initial_def)

lemma absorbed_update:
  assumes a: "absorbed m s" and fits: "length (m @ input) < 18446744073709551616"
  shows "snd (sha256_update input s) \<and> absorbed (m @ input) (fst (sha256_update input s))"
proof -
  obtain pre tail where p: "m = pre @ tail" "64 dvd length pre" "length tail < 64"
      "sh_state s = fold sha256_transform (blocks pre) (sh_state sha256_initial)"
      "sh_buffer_size s = length tail" "take (length tail) (sh_buffer s) = tail"
    and b: "length (sh_buffer s) = 64" and t: "sh_total_bytes s = of_nat (length m)"
    using a by (auto simp: absorbed_def)
  have "unat (of_nat (length m) :: u64) = length m" using fits by (simp add: unat_of_nat)
  then have ok: "\<not> length input > unat (max_u64 - sh_total_bytes s)"
    using fits t by (simp add: unat_max_u64_minus)
  have total: "sh_total_bytes s + of_nat (length input) = of_nat (length (m @ input))" using t by simp
  let ?copied = "min (length input) (64 - length tail)"
  let ?buffer = "write_at (length tail) (take ?copied input) (sh_buffer s)"
  have lb: "length ?buffer = 64" using b p(3) by (simp add: write_at_def)
  have tb: "take (length tail + ?copied) ?buffer = tail @ take ?copied input"
    using take_write_at [of "length tail" "take ?copied input" "sh_buffer s"] b p(3,6) by simp
  consider (empty) "tail = []" | (part) "tail \<noteq> []" "length tail + ?copied < 64" | (full) "tail \<noteq> []" "length tail + ?copied = 64"
    using p(3) by linarith
  then show ?thesis
  proof cases
    case empty
    obtain pre' tail' where q: "input = pre' @ tail'" "64 dvd length pre'" "length tail' < 64"
      "absorb_blocks (sh_state s) input = (fold sha256_transform (blocks pre') (sh_state s), tail')"
      using absorb_blocks_spec by blast
    have "blocks (pre @ pre') = blocks pre @ blocks pre'" using p(2) by (rule blocks_append)
    moreover have "sha256_update input s =
        (let s' = s\<lparr>sh_total_bytes := of_nat (length (m @ input)),
            sh_state := fold sha256_transform (blocks pre') (sh_state s)\<rparr>
         in (if tail' \<noteq> [] then s'\<lparr>sh_buffer_size := length tail', sh_buffer := write_at 0 tail' (sh_buffer s)\<rparr> else s', True))"
      using ok p(5) empty q(4) total by (simp add: sha256_update_def Let_def)
    ultimately show ?thesis
      using p(1-5) q(1-3) b empty
      by (cases "tail' = []") (auto simp: Let_def write_at_def intro!: absorbedI [of _ "pre @ pre'" tail'])
  next
    case part
    then have c: "?copied = length input" "drop ?copied input = []" "take ?copied input = input" using p(3) by auto
    have "length tail + length input < 64" "take (length tail + length input) ?buffer = tail @ input"
      using part c tb by simp_all
    moreover have "sha256_update input s = (s\<lparr>sh_total_bytes := of_nat (length (m @ input)),
        sh_buffer := ?buffer, sh_buffer_size := length tail + length input\<rparr>, True)"
      using ok p(5) part c total by (simp add: sha256_update_def Let_def)
    ultimately show ?thesis
      using p(1-4) lb by (auto intro!: absorbedI [of _ pre "tail @ input"])
  next
    case full
    then have tk: "?buffer = tail @ take ?copied input" using tb lb by simp
    obtain pre' tail' where q: "drop ?copied input = pre' @ tail'" "64 dvd length pre'" "length tail' < 64"
      "absorb_blocks (sha256_transform ?buffer (sh_state s)) (drop ?copied input) =
         (fold sha256_transform (blocks pre') (sha256_transform ?buffer (sh_state s)), tail')"
      using absorb_blocks_spec by blast
    have "input = take ?copied input @ pre' @ tail'" using q(1) by (metis append_take_drop_id)
    then have m: "m @ input = (pre @ ?buffer @ pre') @ tail'" unfolding p(1) tk by simp
    have bl: "blocks (pre @ ?buffer @ pre') = blocks pre @ ?buffer # blocks pre'"
      unfolding blocks_append [OF p(2)] blocks_one [OF lb] ..
    have upd: "sha256_update input s =
        (let s' = s\<lparr>sh_total_bytes := of_nat (length (m @ input)), sh_buffer := ?buffer, sh_buffer_size := 0,
            sh_state := fold sha256_transform (blocks pre') (sha256_transform ?buffer (sh_state s))\<rparr>
         in (if tail' \<noteq> [] then s'\<lparr>sh_buffer_size := length tail', sh_buffer := write_at 0 tail' ?buffer\<rparr> else s', True))"
      using ok p(5) full q(4) total by (simp add: sha256_update_def Let_def)
    have d: "64 dvd length (pre @ ?buffer @ pre')" using p(2) q(2) lb by simp
    have "absorbed (m @ input) (fst (sha256_update input s))"
      by (rule absorbedI [OF m d q(3)])
        (use q(3) lb bl p(4) in \<open>simp_all add: upd Let_def length_write_at take_write_0\<close>)
    then show ?thesis by (simp add: upd Let_def)
  qed
qed


lemma update_tail:
  "length pre = 56 \<Longrightarrow> k < 8 \<Longrightarrow> (pre @ post)[56 + k := x] = pre @ post[k := x]"
  by (simp add: list_update_append)

lemma big_endian_fill:
  assumes "length buffer = 64"
  shows "fold (\<lambda>index buffer. buffer[63 - index := ucast (drop_bit (index * 8) v AND 0xFF)]) [0..<8] buffer =
    take 56 buffer @ big_endian v"
proof -
  define pre where "pre = take 56 buffer"
  have "length (drop 56 buffer) = Suc (Suc (Suc (Suc (Suc (Suc (Suc (Suc 0)))))))" using assms by simp
  then obtain p0 p1 p2 p3 p4 p5 p6 p7 where "drop 56 buffer = [p0, p1, p2, p3, p4, p5, p6, p7]"
    unfolding length_Suc_conv length_0_conv by blast
  then have b: "buffer = pre @ [p0, p1, p2, p3, p4, p5, p6, p7]" unfolding pre_def by (metis append_take_drop_id)
  have l: "length pre = 56" using assms by (simp add: pre_def)
  have u: "(pre @ post)[63 - i := x] = pre @ post[7 - i := x]" if "i < 8" for i post and x :: u8
    using update_tail [OF l, of "7 - i" post x] that by simp
  have r: "[0..<8] = [0, 1, 2, 3, 4, 5, 6, 7 :: nat]" by (simp add: upt_rec)
  show ?thesis
    unfolding pre_def [symmetric] r
    by (simp add: b byte_of big_endian_def u [of 0, simplified] u [of 1, simplified] u [of 2, simplified]
        u [of 3, simplified] u [of 4, simplified] u [of 5, simplified] u [of 6, simplified] u [of 7, simplified])
qed


lemma big_endian_len [simp]: "length (big_endian v) = 8"
  by (simp add: big_endian_def)

lemma take_prefix_write_at:
  assumes "n \<le> length buffer" and "take n buffer = t" and "n + length xs \<le> length buffer"
  shows "take (n + length xs) (write_at n xs buffer) = t @ xs" and "length (write_at n xs buffer) = length buffer"
  using assms by (simp_all add: take_write_at length_write_at)

lemma finish_short:
  assumes "sh_buffer_size s = n" and "n < 56" and "length (sh_buffer s) = 64" and "take n (sh_buffer s) = t"
  shows "sha256_finish s = concat (map sha256_hex
    (sha256_transform ((t @ [0x80] @ replicate (55 - n) 0) @ big_endian (sh_total_bytes s * 8)) (sh_state s)))"
proof -
  define b1 where "b1 = write_at n [0x80] (sh_buffer s)"
  define b2 where "b2 = write_at (n + 1) (replicate (55 - n) 0) b1"
  have 1: "take (n + 1) b1 = t @ [0x80]" "length b1 = 64"
    using take_prefix_write_at [of n "sh_buffer s" t "[0x80]"] assms unfolding b1_def by simp_all
  have 2: "take 56 b2 = t @ [0x80] @ replicate (55 - n) 0" "length b2 = 64"
    using take_prefix_write_at [of "n + 1" b1 "t @ [0x80]" "replicate (55 - n) 0"] 1 assms(2) unfolding b2_def by simp_all
  have "\<not> n + 1 > 56" "56 - (n + 1) = 55 - n" using assms(2) by simp_all
  then have "sha256_finish s = concat (map sha256_hex (sha256_transform
      (take 56 b2 @ big_endian (sh_total_bytes s * 8)) (sh_state s)))"
    unfolding sha256_finish_def Let_def assms(1) b1_def [symmetric]
    by (simp only: if_False prod.case b2_def [symmetric] big_endian_fill [OF 2(2)])
  then show ?thesis using 2(1) by simp
qed

lemma finish_long:
  assumes "sh_buffer_size s = n" and "\<not> n < 56" and "n < 64" and "length (sh_buffer s) = 64"
    and "take n (sh_buffer s) = t"
  shows "sha256_finish s = concat (map sha256_hex
    (sha256_transform (replicate 56 0 @ big_endian (sh_total_bytes s * 8))
      (sha256_transform (t @ [0x80] @ replicate (63 - n) 0) (sh_state s))))"
proof -
  define b1 where "b1 = write_at n [0x80] (sh_buffer s)"
  define b2 where "b2 = write_at (n + 1) (replicate (63 - n) 0) b1"
  define b3 where "b3 = write_at 0 (replicate 56 0) b2"
  have 1: "take (n + 1) b1 = t @ [0x80]" "length b1 = 64"
    using take_prefix_write_at [of n "sh_buffer s" t "[0x80]"] assms unfolding b1_def by simp_all
  have 2: "b2 = t @ [0x80] @ replicate (63 - n) 0" "length b2 = 64"
    using take_prefix_write_at [of "n + 1" b1 "t @ [0x80]" "replicate (63 - n) 0"] 1 assms(3) unfolding b2_def by simp_all
  have 3: "take 56 b3 = replicate 56 0" "length b3 = 64"
    using take_prefix_write_at [of 0 b2 "[]" "replicate 56 0"] 2(2) unfolding b3_def by simp_all
  have "n + 1 > 56" "64 - (n + 1) = 63 - n" "56 - 0 = (56 :: nat)" using assms(2) by simp_all
  then have "sha256_finish s = concat (map sha256_hex (sha256_transform
      (take 56 b3 @ big_endian (sh_total_bytes s * 8)) (sha256_transform b2 (sh_state s))))"
    unfolding sha256_finish_def Let_def assms(1) b1_def [symmetric]
    by (simp only: if_True prod.case b2_def [symmetric] b3_def [symmetric] big_endian_fill [OF 3(2)])
  then show ?thesis using 2(1) 3(1) by simp
qed

lemma finish_padded:
  assumes a: "absorbed m s"
  shows "sha256_finish s = sha256_reference m"
proof -
  obtain pre tail where p: "m = pre @ tail" "64 dvd length pre" "length tail < 64"
      "sh_state s = fold sha256_transform (blocks pre) (sh_state sha256_initial)"
      "sh_buffer_size s = length tail" "take (length tail) (sh_buffer s) = tail"
    and b: "length (sh_buffer s) = 64" and t: "sh_total_bytes s = of_nat (length m)"
    using a by (auto simp: absorbed_def)
  have "length m mod 64 = length tail mod 64" using p(1,2) by (auto simp: mod_add_eq [symmetric])
  then have md: "length m mod 64 = length tail" using p(3) by simp
  define len where "len = big_endian (of_nat (length m) * 8)"
  have ll: "length len = 8" by (simp add: len_def)
  show ?thesis
  proof (cases "length tail < 56")
    case True
    define last where "last = (tail @ [0x80] @ replicate (55 - length tail) 0) @ len"
    have l: "length last = 64" using True ll by (simp add: last_def)
    have "padded m = pre @ last"
      using True md p(1) by (simp add: padded_def last_def len_def)
    then have "blocks (padded m) = blocks pre @ [last]"
      using blocks_append [OF p(2), of last] blocks_one [OF l, of "[]"] by simp
    then show ?thesis
      using finish_short [OF p(5) True b p(6)] p(4) t by (simp add: sha256_reference_def last_def len_def)
  next
    case False
    define b2 where "b2 = tail @ [0x80] @ replicate (63 - length tail) 0"
    define last where "last = replicate 56 0 @ len"
    have l: "length b2 = 64" "length last = 64" using p(3) ll by (simp_all add: b2_def last_def)
    have "119 - length tail = (63 - length tail) + 56" using p(3) by simp
    then have "replicate (119 - length tail) (0 :: u8) = replicate (63 - length tail) 0 @ replicate 56 0"
      by (metis replicate_add)
    then have "padded m = pre @ b2 @ last"
      using False md p(1) by (simp add: padded_def last_def len_def b2_def)
    then have "blocks (padded m) = blocks pre @ [b2, last]"
      using blocks_append [OF p(2), of "b2 @ last"] blocks_one [OF l(1), of last] blocks_one [OF l(2), of "[]"] by simp
    then show ?thesis
      using finish_long [OF p(5) False p(3) b p(6)] p(4) t
      by (simp add: sha256_reference_def last_def len_def b2_def)
  qed
qed

text \<open>Feeding the hash in pieces, all or nothing.\<close>

fun sha256_update_all :: "u8 list list \<Rightarrow> sha256_hash \<Rightarrow> sha256_hash \<times> bool" where
  "sha256_update_all [] s = (s, True)"
| "sha256_update_all (piece # pieces) s =
     (case sha256_update piece s of (s, ok) \<Rightarrow> if \<not> ok then (s, False) else sha256_update_all pieces s)"

lemma absorbed_update_all:
  assumes "absorbed m s" and "length (m @ concat pieces) < 18446744073709551616"
  shows "snd (sha256_update_all pieces s) \<and> absorbed (m @ concat pieces) (fst (sha256_update_all pieces s))"
  using assms
proof (induction pieces arbitrary: m s)
  case (Cons piece pieces)
  have u: "snd (sha256_update piece s)" "absorbed (m @ piece) (fst (sha256_update piece s))"
    using absorbed_update [OF Cons.prems(1), of piece] Cons.prems(2) by simp_all
  then show ?case using Cons.IH [OF u(2)] Cons.prems(2) by (simp add: case_prod_beta)
qed simp

lemma file_loop_pieces:
  assumes "absorbed m s" and "length (m @ concat reads) < 18446744073709551616"
  shows "\<exists>s'. sha256_file_loop reads s = Some s' \<and> absorbed (m @ concat reads) s'"
  using assms
proof (induction reads arbitrary: m s)
  case (Cons piece reads)
  have u: "snd (sha256_update piece s)" "absorbed (m @ piece) (fst (sha256_update piece s))"
    using absorbed_update [OF Cons.prems(1), of piece] Cons.prems(2) by simp_all
  show ?case
  proof (cases "piece = []")
    case True
    then show ?thesis using Cons by simp
  next
    case False
    then show ?thesis using Cons.IH [OF u(2)] Cons.prems(2) u(1) by (simp add: case_prod_beta)
  qed
qed simp

section \<open>Properties\<close>

text \<open>
  C36: The buffered hash is SHA-256 as the standard writes it, for a message of any length given in
  pieces of any sizes: the padding of the whole message to 64-byte blocks and the compression
  function folded over the blocks; hashing the message at once gives the same digest.
\<close>

theorem sha256_is_reference:
  assumes "length (concat pieces) < 18446744073709551616"
  shows "snd (sha256_update_all pieces sha256_initial) \<and>
    sha256_finish (fst (sha256_update_all pieces sha256_initial)) = sha256_reference (concat pieces) \<and>
    sha256_bytes (concat pieces) = sha256_reference (concat pieces)"
  using absorbed_update_all [OF absorbed_initial, of pieces] absorbed_update [OF absorbed_initial, of "concat pieces"]
    assms finish_padded by (simp add: sha256_bytes_def case_prod_beta)

theorem sha256_is_reference_witness:
  "sha256_finish (fst (sha256_update_all [replicate 40 97, replicate 100 98, []] sha256_initial)) =
     sha256_bytes (replicate 40 97 @ replicate 100 98)"
  using sha256_is_reference [of "[replicate 40 97, replicate 100 98, []]"] by simp

text \<open>
  Hashing a file reads its digest: whatever the sizes of the reads, a stream that opens and ends
  at the end of the file gives the SHA-256 of the bytes that were read, and otherwise an error.
\<close>

theorem sha256_file_exact:
  assumes "length (concat reads) < 18446744073709551616"
  shows "sha256_file opened reads at_eof =
    (if \<not> opened then File_open_failed
     else if at_eof then File_digest (sha256_reference (concat reads)) else File_read_failed)"
  using file_loop_pieces [OF absorbed_initial, of reads] assms finish_padded by (auto simp: sha256_file_def)

theorem sha256_file_exact_witness:
  "sha256_file True [[1, 2], [3], []] True = File_digest (sha256_reference [1, 2, 3])"
  using sha256_file_exact [of "[[1, 2], [3], []]" True True] by simp

end
