(* ===== verification/Base_Text.thy ===== *)
theory Base_Text
  imports Xv_Prelude
begin

text \<open>
  The base library (src/src/base/size_parser.cpp, src/src/base/json_writer.cpp and their headers):
  the sizes of the command lines, and the writer every JSON report goes through.

  Bytes of texts are HOL characters. An operation of the writer returns a sum: the message of the
  \<open>std::logic_error\<close> it throws, or the writer afterwards; a throw happens before anything is written.
  The documents a writer can produce are the type \<open>json\<close>; \<open>writer_of\<close> maps a document under
  construction to the writer that has reached this point, and the calls are shown to simulate on it.
\<close>

section \<open>Text\<close>

text \<open>
  What the output stream prints for an unsigned integer: the decimal digits, without padding.
\<close>

fun decimal :: "nat \<Rightarrow> string" where
  "decimal n = (if n < 10 then [char_of (48 + n)] else decimal (n div 10) @ [char_of (48 + n mod 10)])"

declare decimal.simps [simp del]

definition decimal_int :: "int \<Rightarrow> string" where
  "decimal_int i = (if i < 0 then ''-'' @ decimal (nat (- i)) else decimal (nat i))"

definition is_digit :: "char \<Rightarrow> bool" where
  "is_digit c \<longleftrightarrow> 48 \<le> (of_char c :: nat) \<and> (of_char c :: nat) \<le> 57"

definition digit_value :: "char \<Rightarrow> nat" where
  "digit_value c = of_char c - 48"

definition decimal_value :: "string \<Rightarrow> nat" where
  "decimal_value ds = fold (\<lambda>c n. 10 * n + digit_value c) ds 0"

section \<open>Sizes\<close>

record parsed_size =
  ps_bytes :: "u64 option"
  ps_error :: string

definition to_lower :: "char \<Rightarrow> char" where
  "to_lower c = (if 65 \<le> (of_char c :: nat) \<and> (of_char c :: nat) \<le> 90 then char_of ((of_char c :: nat) + 32) else c)"

definition lowercase :: "string \<Rightarrow> string" where
  "lowercase s = map to_lower s"

text \<open>\<open>std::from_chars\<close> on a run of decimal digits: the number, or out of range.\<close>

definition from_chars_u64 :: "string \<Rightarrow> u64 option" where
  "from_chars_u64 ds = (let n = decimal_value ds in if n < 2 ^ 64 then Some (of_nat n) else None)"

definition parse_size :: "string \<Rightarrow> parsed_size" where
  "parse_size s =
     (if s = [] then \<lparr>ps_bytes = None, ps_error = ''size must not be empty''\<rparr>
      else
        let digit_count = length (takeWhile is_digit s)
        in if digit_count = 0
           then \<lparr>ps_bytes = None, ps_error = ''size must start with a non-negative integer''\<rparr>
           else
             case from_chars_u64 (take digit_count s) of
               None \<Rightarrow> \<lparr>ps_bytes = None, ps_error = ''size integer is out of range''\<rparr>
             | Some number \<Rightarrow>
                 let suffix = lowercase (drop digit_count s);
                     multiplier :: u64 =
                       (if suffix = [] \<or> suffix = ''b'' then 1
                        else if suffix = ''kib'' \<or> suffix = ''ki'' \<or> suffix = ''k'' then 1024
                        else if suffix = ''mib'' \<or> suffix = ''mi'' \<or> suffix = ''m'' then 1024 * 1024
                        else if suffix = ''gib'' \<or> suffix = ''gi'' \<or> suffix = ''g'' then 1024 * 1024 * 1024
                        else 0)
                 in if multiplier = 0
                    then \<lparr>ps_bytes = None, ps_error = ''unknown size suffix; use B, KiB, MiB, or GiB''\<rparr>
                    else if number > max_u64 div multiplier
                    then \<lparr>ps_bytes = None, ps_error = ''size is out of range''\<rparr>
                    else \<lparr>ps_bytes = Some (number * multiplier), ps_error = []\<rparr>)"

section \<open>The JSON writer\<close>

datatype scope_kind = Object_scope | Array_scope

record json_scope =
  js_kind :: scope_kind
  js_first :: bool
  js_expects_value :: bool

text \<open>The scopes are kept with the innermost, the back of the vector, at the head of the list.\<close>

record json_writer =
  jw_output :: string
  jw_scopes :: "json_scope list"
  jw_pretty :: bool
  jw_root_written :: bool

definition json_writer_initial :: "bool \<Rightarrow> json_writer" where
  "json_writer_initial pretty =
     \<lparr>jw_output = [], jw_scopes = [], jw_pretty = pretty, jw_root_written = False\<rparr>"

definition emit :: "string \<Rightarrow> json_writer \<Rightarrow> json_writer" where
  "emit s w = w\<lparr>jw_output := jw_output w @ s\<rparr>"

definition newline_and_indent :: "nat \<Rightarrow> json_writer \<Rightarrow> json_writer" where
  "newline_and_indent depth w = emit (CHR 0x0A # replicate (depth * 2) (CHR '' '')) w"

definition hex_digit :: "nat \<Rightarrow> char" where
  "hex_digit n = ''0123456789abcdef'' ! n"

definition escape_char :: "char \<Rightarrow> string" where
  "escape_char c =
     (if c = CHR 0x22 then [CHR 0x5C, CHR 0x22]
      else if c = CHR 0x5C then [CHR 0x5C, CHR 0x5C]
      else if c = CHR 0x08 then [CHR 0x5C, CHR ''b'']
      else if c = CHR 0x0C then [CHR 0x5C, CHR ''f'']
      else if c = CHR 0x0A then [CHR 0x5C, CHR ''n'']
      else if c = CHR 0x0D then [CHR 0x5C, CHR ''r'']
      else if c = CHR 0x09 then [CHR 0x5C, CHR ''t'']
      else if (of_char c :: nat) < 0x20
      then [CHR 0x5C, CHR ''u'', CHR ''0'', CHR ''0'', hex_digit (of_char c div 16), hex_digit (of_char c mod 16)]
      else [c])"

definition write_escaped :: "string \<Rightarrow> json_writer \<Rightarrow> json_writer" where
  "write_escaped s w = emit [CHR 0x22] (fold (\<lambda>c. emit (escape_char c)) s (emit [CHR 0x22] w))"

definition before_value :: "json_writer \<Rightarrow> string + json_writer" where
  "before_value w =
     (case jw_scopes w of
        [] \<Rightarrow> if jw_root_written w then Inl ''multiple JSON root values''
              else Inr (w\<lparr>jw_root_written := True\<rparr>)
      | scope # rest \<Rightarrow>
          if js_kind scope = Object_scope
          then if \<not> js_expects_value scope then Inl ''JSON object value without key'' else Inr w
          else
            let w = (if \<not> js_first scope then emit '','' w else w);
                w = (if jw_pretty w then newline_and_indent (length (jw_scopes w)) w else w)
            in Inr (w\<lparr>jw_scopes := scope\<lparr>js_first := False\<rparr> # rest\<rparr>))"

definition finish_value :: "json_writer \<Rightarrow> json_writer" where
  "finish_value w =
     (case jw_scopes w of
        [] \<Rightarrow> w
      | scope # rest \<Rightarrow>
          if js_kind scope = Object_scope then w\<lparr>jw_scopes := scope\<lparr>js_expects_value := False\<rparr> # rest\<rparr>
          else w)"

definition push_scope :: "scope_kind \<Rightarrow> json_writer \<Rightarrow> json_writer" where
  "push_scope k w = w\<lparr>jw_scopes := \<lparr>js_kind = k, js_first = True, js_expects_value = False\<rparr> # jw_scopes w\<rparr>"

definition begin_object :: "json_writer \<Rightarrow> string + json_writer" where
  "begin_object w =
     (case before_value w of Inl e \<Rightarrow> Inl e | Inr w \<Rightarrow> Inr (push_scope Object_scope (emit ''{'' w)))"

definition end_object :: "json_writer \<Rightarrow> string + json_writer" where
  "end_object w =
     (case jw_scopes w of
        [] \<Rightarrow> Inl ''invalid JSON object close''
      | scope # rest \<Rightarrow>
          if js_kind scope \<noteq> Object_scope \<or> js_expects_value scope then Inl ''invalid JSON object close''
          else
            let had_values = (\<not> js_first scope);
                w = w\<lparr>jw_scopes := rest\<rparr>;
                w = (if had_values \<and> jw_pretty w then newline_and_indent (length (jw_scopes w)) w else w)
            in Inr (finish_value (emit ''}'' w)))"

definition begin_array :: "json_writer \<Rightarrow> string + json_writer" where
  "begin_array w =
     (case before_value w of Inl e \<Rightarrow> Inl e | Inr w \<Rightarrow> Inr (push_scope Array_scope (emit ''['' w)))"

definition end_array :: "json_writer \<Rightarrow> string + json_writer" where
  "end_array w =
     (case jw_scopes w of
        [] \<Rightarrow> Inl ''invalid JSON array close''
      | scope # rest \<Rightarrow>
          if js_kind scope \<noteq> Array_scope then Inl ''invalid JSON array close''
          else
            let had_values = (\<not> js_first scope);
                w = w\<lparr>jw_scopes := rest\<rparr>;
                w = (if had_values \<and> jw_pretty w then newline_and_indent (length (jw_scopes w)) w else w)
            in Inr (finish_value (emit '']'' w)))"

definition json_key :: "string \<Rightarrow> json_writer \<Rightarrow> string + json_writer" where
  "json_key name w =
     (case jw_scopes w of
        [] \<Rightarrow> Inl ''JSON key outside object or without a value''
      | scope # rest \<Rightarrow>
          if js_kind scope \<noteq> Object_scope \<or> js_expects_value scope
          then Inl ''JSON key outside object or without a value''
          else
            let w = (if \<not> js_first scope then emit '','' w else w);
                w = (if jw_pretty w then newline_and_indent (length (jw_scopes w)) w else w);
                w = write_escaped name w;
                w = emit (if jw_pretty w then '': '' else '':'') w
            in Inr (w\<lparr>jw_scopes := scope\<lparr>js_first := False, js_expects_value := True\<rparr> # rest\<rparr>))"

text \<open>Every scalar is written between \<open>before_value\<close> and \<open>finish_value\<close>.\<close>

definition write_value :: "(json_writer \<Rightarrow> json_writer) \<Rightarrow> json_writer \<Rightarrow> string + json_writer" where
  "write_value f w = (case before_value w of Inl e \<Rightarrow> Inl e | Inr w \<Rightarrow> Inr (finish_value (f w)))"

definition null_value :: "json_writer \<Rightarrow> string + json_writer" where
  "null_value = write_value (emit ''null'')"

definition value_string :: "string \<Rightarrow> json_writer \<Rightarrow> string + json_writer" where
  "value_string s = write_value (write_escaped s)"

definition value_c_string :: "string option \<Rightarrow> json_writer \<Rightarrow> string + json_writer" where
  "value_c_string p = (case p of None \<Rightarrow> null_value | Some s \<Rightarrow> value_string s)"

definition value_bool :: "bool \<Rightarrow> json_writer \<Rightarrow> string + json_writer" where
  "value_bool b = write_value (emit (if b then ''true'' else ''false''))"

definition value_int :: "64 word \<Rightarrow> json_writer \<Rightarrow> string + json_writer" where
  "value_int v = write_value (emit (decimal_int (sint v)))"

definition value_uint :: "u64 \<Rightarrow> json_writer \<Rightarrow> string + json_writer" where
  "value_uint v = write_value (emit (decimal (unat v)))"

text \<open>
  A double is given by the text the stream prints for it at seventeen digits, or by \<open>None\<close> when it
  is not finite.
\<close>

definition value_double :: "string option \<Rightarrow> json_writer \<Rightarrow> string + json_writer" where
  "value_double d = write_value (emit (case d of None \<Rightarrow> ''null'' | Some t \<Rightarrow> t))"

section \<open>Documents\<close>

text \<open>The documents a writer can write, and their text.\<close>

datatype json =
    Json_null | Json_bool bool | Json_int "64 word" | Json_uint u64 | Json_double "string option"
  | Json_string string | Json_array "json list" | Json_object "(string \<times> json) list"

definition escaped :: "string \<Rightarrow> string" where
  "escaped s = CHR 0x22 # concat (map escape_char s) @ [CHR 0x22]"

definition line_break :: "bool \<Rightarrow> nat \<Rightarrow> string" where
  "line_break pretty depth = (if pretty then CHR 0x0A # replicate (depth * 2) (CHR '' '') else [])"

fun joined :: "string list \<Rightarrow> string" where
  "joined [] = []"
| "joined [s] = s"
| "joined (s # t # ss) = s @ '','' @ joined (t # ss)"

definition key_text :: "bool \<Rightarrow> nat \<Rightarrow> string \<Rightarrow> string" where
  "key_text pretty depth k = line_break pretty depth @ escaped k @ (if pretty then '': '' else '':'')"

function json_text :: "bool \<Rightarrow> nat \<Rightarrow> json \<Rightarrow> string" where
  "json_text pretty depth Json_null = ''null''"
| "json_text pretty depth (Json_bool b) = (if b then ''true'' else ''false'')"
| "json_text pretty depth (Json_int i) = decimal_int (sint i)"
| "json_text pretty depth (Json_uint u) = decimal (unat u)"
| "json_text pretty depth (Json_double d) = (case d of None \<Rightarrow> ''null'' | Some t \<Rightarrow> t)"
| "json_text pretty depth (Json_string s) = escaped s"
| "json_text pretty depth (Json_array js) =
     ''['' @ joined (map (\<lambda>j. line_break pretty (Suc depth) @ json_text pretty (Suc depth) j) js) @
     (if js = [] then [] else line_break pretty depth) @ '']''"
| "json_text pretty depth (Json_object ms) =
     ''{'' @ joined (map (\<lambda>m. key_text pretty (Suc depth) (fst m) @ json_text pretty (Suc depth) (snd m)) ms) @
     (if ms = [] then [] else line_break pretty depth) @ ''}''"
  by pat_completeness auto
termination
proof (relation "measure (\<lambda>(_, _, j). size j)")
  have list: "f x \<le> size_list f xs" if "x \<in> set xs" for f :: "'a \<Rightarrow> nat" and x xs
    using that by (induction xs) auto
  show "((pretty, Suc depth, snd m), pretty, depth, Json_object ms) \<in> measure (\<lambda>(_, _, j). size j)"
    if "m \<in> set ms" for pretty depth m ms
    using list [OF that, of "size_prod (\<lambda>x. 0) size"] by (cases m) auto
qed (auto simp: less_Suc_eq_le intro: size_list_estimation')

text \<open>
  A document under construction: the arrays and objects that are open, innermost first, each with
  what it holds so far, and for an object the key that waits for its value.
\<close>

datatype frame = Array_frame "json list" | Object_frame "(string \<times> json) list" "string option"

datatype document = Fresh | Building frame "frame list" | Complete json

fun frame_text :: "bool \<Rightarrow> nat \<Rightarrow> frame \<Rightarrow> string" where
  "frame_text pretty depth (Array_frame js) =
     ''['' @ joined (map (\<lambda>j. line_break pretty depth @ json_text pretty depth j) js)"
| "frame_text pretty depth (Object_frame ms pending) =
     ''{'' @ joined (map (\<lambda>m. key_text pretty depth (fst m) @ json_text pretty depth (snd m)) ms) @
     (case pending of None \<Rightarrow> [] | Some k \<Rightarrow> (if ms = [] then [] else '','') @ key_text pretty depth k)"

fun frame_gap :: "bool \<Rightarrow> nat \<Rightarrow> frame \<Rightarrow> string" where
  "frame_gap pretty depth (Array_frame js) = (if js = [] then [] else '','') @ line_break pretty depth"
| "frame_gap pretty depth (Object_frame ms pending) = []"

fun frames_text :: "bool \<Rightarrow> frame \<Rightarrow> frame list \<Rightarrow> string" where
  "frames_text pretty f [] = frame_text pretty 1 f"
| "frames_text pretty f (g # gs) =
     frames_text pretty g gs @ frame_gap pretty (Suc (length gs)) g @ frame_text pretty (Suc (Suc (length gs))) f"

fun inner_scope :: "frame \<Rightarrow> json_scope" where
  "inner_scope (Array_frame js) = \<lparr>js_kind = Array_scope, js_first = (js = []), js_expects_value = False\<rparr>"
| "inner_scope (Object_frame ms pending) =
     \<lparr>js_kind = Object_scope, js_first = (ms = [] \<and> pending = None), js_expects_value = (pending \<noteq> None)\<rparr>"

fun outer_scope :: "frame \<Rightarrow> json_scope" where
  "outer_scope (Array_frame js) = \<lparr>js_kind = Array_scope, js_first = False, js_expects_value = False\<rparr>"
| "outer_scope (Object_frame ms pending) = \<lparr>js_kind = Object_scope, js_first = False, js_expects_value = True\<rparr>"

text \<open>The writer that is in the middle of a document.\<close>

fun writer_of :: "bool \<Rightarrow> document \<Rightarrow> json_writer" where
  "writer_of pretty Fresh = json_writer_initial pretty"
| "writer_of pretty (Building f fs) =
     \<lparr>jw_output = frames_text pretty f fs, jw_scopes = inner_scope f # map outer_scope fs,
      jw_pretty = pretty, jw_root_written = True\<rparr>"
| "writer_of pretty (Complete j) =
     \<lparr>jw_output = json_text pretty 0 j, jw_scopes = [], jw_pretty = pretty, jw_root_written = True\<rparr>"

text \<open>Every open frame but the innermost is waiting for the one inside it.\<close>

fun waits :: "frame \<Rightarrow> bool" where
  "waits (Array_frame js) = True"
| "waits (Object_frame ms pending) = (pending \<noteq> None)"

fun document_ok :: "document \<Rightarrow> bool" where
  "document_ok (Building f fs) = list_all waits fs"
| "document_ok d = True"

fun put_frame :: "json \<Rightarrow> frame \<Rightarrow> frame option" where
  "put_frame j (Array_frame js) = Some (Array_frame (js @ [j]))"
| "put_frame j (Object_frame ms None) = None"
| "put_frame j (Object_frame ms (Some k)) = Some (Object_frame (ms @ [(k, j)]) None)"

fun put :: "json \<Rightarrow> document \<Rightarrow> document option" where
  "put j Fresh = Some (Complete j)"
| "put j (Building f fs) = map_option (\<lambda>f. Building f fs) (put_frame j f)"
| "put j (Complete _) = None"

fun open_frame :: "frame \<Rightarrow> document \<Rightarrow> document option" where
  "open_frame f Fresh = Some (Building f [])"
| "open_frame f (Building g gs) = (if waits g then Some (Building f (g # gs)) else None)"
| "open_frame f (Complete _) = None"

definition close_frame :: "json \<Rightarrow> frame list \<Rightarrow> document option" where
  "close_frame j fs = (case fs of [] \<Rightarrow> Some (Complete j) | g # gs \<Rightarrow> put j (Building g gs))"

datatype json_call =
    Begin_object | End_object | Begin_array | End_array | Key string
  | Value_string string | Value_c_string "string option" | Value_bool bool | Value_int "64 word"
  | Value_uint u64 | Value_double "string option" | Null_value

fun json_step :: "json_call \<Rightarrow> json_writer \<Rightarrow> string + json_writer" where
  "json_step Begin_object = begin_object"
| "json_step End_object = end_object"
| "json_step Begin_array = begin_array"
| "json_step End_array = end_array"
| "json_step (Key k) = json_key k"
| "json_step (Value_string s) = value_string s"
| "json_step (Value_c_string p) = value_c_string p"
| "json_step (Value_bool b) = value_bool b"
| "json_step (Value_int i) = value_int i"
| "json_step (Value_uint u) = value_uint u"
| "json_step (Value_double d) = value_double d"
| "json_step Null_value = null_value"

fun document_step :: "json_call \<Rightarrow> document \<Rightarrow> document option" where
  "document_step Begin_object d = open_frame (Object_frame [] None) d"
| "document_step End_object d =
     (case d of Building (Object_frame ms None) fs \<Rightarrow> close_frame (Json_object ms) fs | _ \<Rightarrow> None)"
| "document_step Begin_array d = open_frame (Array_frame []) d"
| "document_step End_array d =
     (case d of Building (Array_frame js) fs \<Rightarrow> close_frame (Json_array js) fs | _ \<Rightarrow> None)"
| "document_step (Key k) d =
     (case d of Building (Object_frame ms None) fs \<Rightarrow> Some (Building (Object_frame ms (Some k)) fs) | _ \<Rightarrow> None)"
| "document_step (Value_string s) d = put (Json_string s) d"
| "document_step (Value_c_string p) d =
     put (case p of None \<Rightarrow> Json_null | Some s \<Rightarrow> Json_string s) d"
| "document_step (Value_bool b) d = put (Json_bool b) d"
| "document_step (Value_int i) d = put (Json_int i) d"
| "document_step (Value_uint u) d = put (Json_uint u) d"
| "document_step (Value_double x) d = put (Json_double x) d"
| "document_step Null_value d = put Json_null d"

lemma fold_emit: "fold (\<lambda>c. emit (f c)) s w = emit (concat (map f s)) w"
  by (induction s arbitrary: w) (simp_all add: emit_def)

lemma write_escaped_emit: "write_escaped s = emit (escaped s)"
  by (rule ext) (simp add: write_escaped_def fold_emit escaped_def emit_def)

lemma newline_emit: "(if jw_pretty w then newline_and_indent n w else w) = emit (line_break (jw_pretty w) n) w"
  by (simp add: newline_and_indent_def line_break_def emit_def)

lemma emit_emit: "emit t (emit s w) = emit (s @ t) w"
  by (simp add: emit_def)

lemma joined_snoc: "joined (ss @ [s]) = joined ss @ (if ss = [] then [] else '','') @ s"
  by (induction ss rule: joined.induct) simp_all

lemma emit_sel [simp]:
  "jw_scopes (emit s w) = jw_scopes w" "jw_pretty (emit s w) = jw_pretty w"
  "jw_root_written (emit s w) = jw_root_written w" "jw_output (emit s w) = jw_output w @ s"
  by (simp_all add: emit_def)

text \<open>The writer that has opened the place for a value and not written it yet.\<close>

definition ready :: "bool \<Rightarrow> document \<Rightarrow> json_writer" where
  "ready pretty d =
     (case d of
        Fresh \<Rightarrow> (json_writer_initial pretty)\<lparr>jw_root_written := True\<rparr>
      | Building f fs \<Rightarrow>
          \<lparr>jw_output = frames_text pretty f fs @ frame_gap pretty (Suc (length fs)) f,
           jw_scopes = map outer_scope (f # fs), jw_pretty = pretty, jw_root_written = True\<rparr>
      | Complete j \<Rightarrow> writer_of pretty d)"

definition accepts :: "document \<Rightarrow> bool" where
  "accepts d \<longleftrightarrow> (case d of Fresh \<Rightarrow> True | Building f fs \<Rightarrow> waits f | Complete j \<Rightarrow> False)"

lemma before_value_of:
  "before_value (writer_of pretty d) =
     (if accepts d then Inr (ready pretty d)
      else Inl (case d of Building f fs \<Rightarrow> ''JSON object value without key'' | _ \<Rightarrow> ''multiple JSON root values''))"
proof (cases d)
  case (Building f fs)
  then show ?thesis
    by (cases f)
      (auto simp: before_value_def newline_emit Let_def accepts_def ready_def emit_def)
qed (simp_all add: before_value_def json_writer_initial_def accepts_def ready_def)

definition open_count :: "document \<Rightarrow> nat" where
  "open_count d = (case d of Building f fs \<Rightarrow> Suc (length fs) | _ \<Rightarrow> 0)"

lemma frames_text_last: "\<exists>pre. \<forall>f. frames_text pretty f fs = pre @ frame_text pretty (Suc (length fs)) f"
  by (cases fs) (auto intro: exI [of _ "frames_text _ _ _ @ frame_gap _ _ _"])

lemma put_frame_text:
  assumes "put_frame j f = Some f'"
  shows "frame_text pretty n f' = frame_text pretty n f @ frame_gap pretty n f @ json_text pretty n j"
  using assms by (cases "(j, f)" rule: put_frame.cases) (auto simp: joined_snoc key_text_def)

lemma put_ready:
  assumes "accepts d"
  shows "\<exists>d'. put j d = Some d' \<and>
    finish_value (emit (json_text pretty (open_count d) j) (ready pretty d)) = writer_of pretty d' \<and>
    (document_ok d \<longrightarrow> document_ok d')"
proof (cases d)
  case (Building f fs)
  then obtain f' where f': "put_frame j f = Some f'"
    using assms by (cases f) (auto simp: accepts_def)
  obtain pre where pre: "\<And>f. frames_text pretty f fs = pre @ frame_text pretty (Suc (length fs)) f"
    using frames_text_last by blast
  have "inner_scope f' =
      (if js_kind (outer_scope f) = Object_scope then outer_scope f\<lparr>js_expects_value := False\<rparr> else outer_scope f)"
    using f' by (cases "(j, f)" rule: put_frame.cases) auto
  then show ?thesis
    using Building f' put_frame_text [OF f', of pretty]
    by (auto simp: finish_value_def emit_def ready_def open_count_def pre)
qed (use assms in \<open>auto simp: accepts_def finish_value_def emit_def ready_def open_count_def json_writer_initial_def\<close>)

lemma put_None: "put j d = None \<longleftrightarrow> \<not> accepts d"
  by (cases d; (cases "(j, case d of Building f fs \<Rightarrow> f)" rule: put_frame.cases)?) (auto simp: accepts_def)

text \<open>What one call does to the writer of a document, as the document sees it.\<close>

definition step_matches :: "bool \<Rightarrow> string + json_writer \<Rightarrow> document \<Rightarrow> document option \<Rightarrow> bool" where
  "step_matches pretty r d d' \<longleftrightarrow>
     (case d' of None \<Rightarrow> (\<exists>e. r = Inl e)
      | Some d' \<Rightarrow> r = Inr (writer_of pretty d') \<and> (document_ok d \<longrightarrow> document_ok d'))"

lemma put_step:
  assumes "f = emit (json_text pretty (open_count d) j)"
  shows "step_matches pretty (write_value f (writer_of pretty d)) d (put j d)"
proof (cases "accepts d")
  case True
  then show ?thesis using put_ready [OF True, of j pretty] assms
    by (auto simp: step_matches_def write_value_def before_value_of)
next
  case False
  then show ?thesis using put_None [of j d]
    by (simp add: step_matches_def write_value_def before_value_of)
qed

lemma open_step:
  assumes "inner_scope f = \<lparr>js_kind = k, js_first = True, js_expects_value = False\<rparr>"
    and "\<And>n. frame_text pretty n f = s"
  shows "step_matches pretty
    (case before_value (writer_of pretty d) of Inl e \<Rightarrow> Inl e | Inr w \<Rightarrow> Inr (push_scope k (emit s w))) d
    (open_frame f d)"
  unfolding before_value_of using assms
  by (cases d)
    (auto simp: step_matches_def accepts_def ready_def push_scope_def emit_def json_writer_initial_def)

lemma close_step:
  assumes "frame_text pretty (Suc (length fs)) f @ (if b then line_break pretty (length fs) else []) @ s =
      json_text pretty (length fs) j"
    and "document_ok (Building f fs)"
  shows "step_matches pretty
    (Inr (finish_value (emit s
      (if b \<and> pretty then newline_and_indent (length fs) ((writer_of pretty (Building f fs))\<lparr>jw_scopes := map outer_scope fs\<rparr>)
       else (writer_of pretty (Building f fs))\<lparr>jw_scopes := map outer_scope fs\<rparr>))))
    (Building f fs) (close_frame j fs)"
proof -
  let ?w = "(writer_of pretty (Building f fs))\<lparr>jw_scopes := map outer_scope fs\<rparr>"
  have w: "emit s (if b \<and> pretty then newline_and_indent (length fs) ?w else ?w) =
      emit ((if b then line_break pretty (length fs) else []) @ s) ?w"
    by (auto simp: newline_and_indent_def line_break_def emit_def)
  show ?thesis
  proof (cases fs)
    case Nil
    then show ?thesis using assms(1) unfolding w
      by (auto simp: step_matches_def close_frame_def emit_def finish_value_def)
  next
    case (Cons g gs)
    have acc: "accepts (Building g gs)" using assms(2) Cons by (simp add: accepts_def)
    have "emit ((if b then line_break pretty (length fs) else []) @ s) ?w =
        emit (json_text pretty (length fs) j) (ready pretty (Building g gs))"
      using assms(1) Cons by (simp add: emit_def ready_def)
    then show ?thesis
      using put_ready [OF acc, of j pretty] assms(2) Cons unfolding w
      by (auto simp: step_matches_def close_frame_def open_count_def)
  qed
qed

lemma json_step_of:
  assumes "document_ok d"
  shows "step_matches pretty (json_step c (writer_of pretty d)) d (document_step c d)"
proof (cases c)
  case Begin_object
  then show ?thesis using open_step [of "Object_frame [] None" Object_scope pretty "''{''" d]
    by (simp add: begin_object_def)
next
  case Begin_array
  then show ?thesis using open_step [of "Array_frame []" Array_scope pretty "''[''" d]
    by (simp add: begin_array_def)
next
  case End_object
  show ?thesis
  proof (cases "\<exists>ms fs. d = Building (Object_frame ms None) fs")
    case True
    then obtain ms fs where d: "d = Building (Object_frame ms None) fs" by blast
    show ?thesis
      using close_step [of pretty fs "Object_frame ms None" "ms \<noteq> []" "''}''" "Json_object ms"] assms
      by (auto simp: d End_object end_object_def Let_def)
  next
    case False
    then show ?thesis
      by (cases d; (cases "(Json_null, case d of Building f fs \<Rightarrow> f)" rule: put_frame.cases)?)
        (auto simp: End_object end_object_def step_matches_def json_writer_initial_def)
  qed
next
  case End_array
  show ?thesis
  proof (cases "\<exists>js fs. d = Building (Array_frame js) fs")
    case True
    then obtain js fs where d: "d = Building (Array_frame js) fs" by blast
    show ?thesis
      using close_step [of pretty fs "Array_frame js" "js \<noteq> []" "'']''" "Json_array js"] assms
      by (auto simp: d End_array end_array_def Let_def)
  next
    case False
    then show ?thesis
      by (cases d; (cases "(Json_null, case d of Building f fs \<Rightarrow> f)" rule: put_frame.cases)?)
        (auto simp: End_array end_array_def step_matches_def json_writer_initial_def)
  qed
next
  case (Key k)
  show ?thesis
  proof (cases "\<exists>ms fs. d = Building (Object_frame ms None) fs")
    case True
    then obtain ms fs where d: "d = Building (Object_frame ms None) fs" by blast
    obtain pre where pre: "\<And>f. frames_text pretty f fs = pre @ frame_text pretty (Suc (length fs)) f"
      using frames_text_last by blast
    show ?thesis using assms
      by (auto simp: d Key json_key_def Let_def step_matches_def newline_and_indent_def line_break_def
          write_escaped_emit emit_def pre key_text_def)
  next
    case False
    then show ?thesis
      by (cases d; (cases "(Json_null, case d of Building f fs \<Rightarrow> f)" rule: put_frame.cases)?)
        (auto simp: Key json_key_def step_matches_def json_writer_initial_def)
  qed
qed (simp_all add: value_string_def value_c_string_def value_bool_def value_int_def value_uint_def
  value_double_def null_value_def write_escaped_emit put_step split: option.split)

section \<open>Sequences of calls\<close>

fun run_calls :: "json_call list \<Rightarrow> json_writer \<Rightarrow> string + json_writer" where
  "run_calls [] w = Inr w"
| "run_calls (c # cs) w = (case json_step c w of Inl e \<Rightarrow> Inl e | Inr w' \<Rightarrow> run_calls cs w')"

fun document_run :: "json_call list \<Rightarrow> document \<Rightarrow> document option" where
  "document_run [] d = Some d"
| "document_run (c # cs) d = (case document_step c d of None \<Rightarrow> None | Some d' \<Rightarrow> document_run cs d')"

text \<open>The calls that write a document, a null C string counting as a null.\<close>

fun plain_call :: "json_call \<Rightarrow> json_call" where
  "plain_call (Value_c_string None) = Null_value"
| "plain_call (Value_c_string (Some s)) = Value_string s"
| "plain_call c = c"

fun json_calls :: "json \<Rightarrow> json_call list" where
  "json_calls Json_null = [Null_value]"
| "json_calls (Json_bool b) = [Value_bool b]"
| "json_calls (Json_int i) = [Value_int i]"
| "json_calls (Json_uint u) = [Value_uint u]"
| "json_calls (Json_double d) = [Value_double d]"
| "json_calls (Json_string s) = [Value_string s]"
| "json_calls (Json_array js) = Begin_array # concat (map json_calls js) @ [End_array]"
| "json_calls (Json_object ms) =
     Begin_object # concat (map (\<lambda>m. Key (fst m) # snd m) (map (map_prod id json_calls) ms)) @ [End_object]"

fun frame_calls :: "frame \<Rightarrow> json_call list" where
  "frame_calls (Array_frame js) = Begin_array # concat (map json_calls js)"
| "frame_calls (Object_frame ms pending) =
     Begin_object # concat (map (\<lambda>m. Key (fst m) # snd m) (map (map_prod id json_calls) ms)) @
     (case pending of None \<Rightarrow> [] | Some k \<Rightarrow> [Key k])"

fun document_calls :: "document \<Rightarrow> json_call list" where
  "document_calls Fresh = []"
| "document_calls (Building f fs) = concat (map frame_calls (rev fs)) @ frame_calls f"
| "document_calls (Complete j) = json_calls j"

lemma run_calls_of:
  assumes "document_ok d"
  shows "case document_run cs d of
      None \<Rightarrow> \<exists>e. run_calls cs (writer_of pretty d) = Inl e
    | Some d' \<Rightarrow> run_calls cs (writer_of pretty d) = Inr (writer_of pretty d') \<and> document_ok d'"
  using assms
proof (induction cs arbitrary: d)
  case (Cons c cs)
  show ?case
  proof (cases "document_step c d")
    case None
    then show ?thesis using json_step_of [OF Cons.prems, of pretty c] by (auto simp: step_matches_def)
  next
    case (Some d')
    then have "json_step c (writer_of pretty d) = Inr (writer_of pretty d')" "document_ok d'"
      using json_step_of [OF Cons.prems, of pretty c] Cons.prems by (auto simp: step_matches_def)
    then show ?thesis using Cons.IH [of d'] Some by (simp split: option.splits)
  qed
qed simp

lemma put_calls: "put j d = Some d' \<Longrightarrow> document_calls d' = document_calls d @ json_calls j"
  by (cases d; (cases "(j, case d of Building f fs \<Rightarrow> f)" rule: put_frame.cases)?) auto

lemma close_calls:
  "close_frame j fs = Some d' \<Longrightarrow> document_calls d' = concat (map frame_calls (rev fs)) @ json_calls j"
  using put_calls [of j "Building (hd fs) (tl fs)" d'] by (auto simp: close_frame_def split: list.splits)

lemma step_calls: "document_step c d = Some d' \<Longrightarrow> document_calls d' = document_calls d @ [plain_call c]"
proof (cases c)
  case Begin_object
  then show "document_step c d = Some d' \<Longrightarrow> ?thesis" by (cases d) (auto split: if_splits)
next
  case Begin_array
  then show "document_step c d = Some d' \<Longrightarrow> ?thesis" by (cases d) (auto split: if_splits)
qed (auto dest!: put_calls close_calls split: document.splits frame.splits option.splits)

lemma run_document_calls:
  "document_run cs d = Some d' \<Longrightarrow> document_calls d' = document_calls d @ map plain_call cs"
  by (induction cs arbitrary: d) (auto dest: step_calls split: option.splits)

lemma document_run_append:
  "document_run (cs @ ds) d = (case document_run cs d of None \<Rightarrow> None | Some d' \<Rightarrow> document_run ds d')"
  by (induction cs arbitrary: d) (auto split: option.splits)

lemma document_run_plain: "document_run (map plain_call cs) d = document_run cs d"
proof -
  have "document_step (plain_call c) d = document_step c d" for c d
    by (cases c rule: plain_call.cases) auto
  then show ?thesis by (induction cs arbitrary: d) (auto split: option.splits)
qed

lemma array_run:
  assumes "\<And>j d. j \<in> set js \<Longrightarrow> accepts d \<Longrightarrow> document_run (json_calls j) d = put j d"
  shows "document_run (concat (map json_calls js)) (Building (Array_frame is) fs) =
    Some (Building (Array_frame (is @ js)) fs)"
  using assms
proof (induction js arbitrary: "is")
  case (Cons j js)
  have "document_run (json_calls j) (Building (Array_frame is) fs) = Some (Building (Array_frame (is @ [j])) fs)"
    using Cons.prems by (simp add: accepts_def)
  then show ?case using Cons by (simp add: document_run_append)
qed simp

lemma object_run:
  assumes "\<And>m d. m \<in> set ms \<Longrightarrow> accepts d \<Longrightarrow> document_run (json_calls (snd m)) d = put (snd m) d"
  shows "document_run (concat (map (\<lambda>m. Key (fst m) # snd m) (map (map_prod id json_calls) ms)))
    (Building (Object_frame ns None) fs) = Some (Building (Object_frame (ns @ ms) None) fs)"
  using assms
proof (induction ms arbitrary: ns)
  case (Cons m ms)
  have "document_run (json_calls (snd m)) (Building (Object_frame ns (Some (fst m))) fs) =
      Some (Building (Object_frame (ns @ [m]) None) fs)"
    using Cons.prems by (simp add: accepts_def)
  then show ?case using Cons by (simp add: document_run_append)
qed simp

lemma accepts_open: "accepts d \<Longrightarrow> \<exists>fs. \<forall>f. open_frame f d = Some (Building f fs) \<and> close_frame j fs = put j d"
  by (cases d) (auto simp: accepts_def close_frame_def)

lemma calls_run: "accepts d \<Longrightarrow> document_run (json_calls j) d = put j d"
proof (induction j arbitrary: d)
  case (Json_array js)
  then obtain fs where fs: "\<And>f. open_frame f d = Some (Building f fs)" "close_frame (Json_array js) fs = put (Json_array js) d"
    using accepts_open by blast
  show ?case using array_run [of js "[]" fs] Json_array.IH fs
    by (simp add: document_run_append split: option.splits)
next
  case (Json_object ms)
  then obtain fs where fs: "\<And>f. open_frame f d = Some (Building f fs)" "close_frame (Json_object ms) fs = put (Json_object ms) d"
    using accepts_open by blast
  show ?case using object_run [of ms "[]" fs] Json_object.IH fs
    by (auto simp: document_run_append snds.simps split: option.splits)
qed (auto split: option.splits)

text \<open>
  C39: The JSON writer accepts exactly the call sequences that spell a document. A fresh writer takes a
  sequence of calls without an error and ends with a root value and nothing open if and only if the
  calls are those of a JSON document; then what it has written is the text of that document, commas,
  line breaks and indentation included.
\<close>

theorem json_writer_exact:
  "(\<exists>w. run_calls cs (json_writer_initial pretty) = Inr w \<and> jw_scopes w = [] \<and> jw_root_written w \<and>
     jw_output w = out) \<longleftrightarrow>
   (\<exists>j. map plain_call cs = json_calls j \<and> out = json_text pretty 0 j)"
  (is "?L \<longleftrightarrow> ?R")
proof
  note run = run_calls_of [of Fresh cs pretty, simplified]
  {
    assume ?L
    then obtain d where d: "document_run cs Fresh = Some d" and w: "run_calls cs (json_writer_initial pretty) = Inr (writer_of pretty d)"
      using run by (auto split: option.splits)
    obtain j where "d = Complete j"
      using \<open>?L\<close> w by (cases d) (auto simp: json_writer_initial_def)
    then show ?R using \<open>?L\<close> w run_document_calls [OF d] by (auto intro: exI [of _ j])
  next
    assume ?R
    then obtain j where j: "map plain_call cs = json_calls j" "out = json_text pretty 0 j" by blast
    have "document_run cs Fresh = Some (Complete j)"
      using calls_run [of Fresh j] document_run_plain [of cs Fresh] j(1) by (simp add: accepts_def)
    then show ?L using run j(2) by auto
  }
qed

text \<open>A reader of the strings of JSON, byte by byte: what stands between the quotes, and the rest.\<close>

definition hex_value :: "char \<Rightarrow> nat option" where
  "hex_value c = find_index (\<lambda>d. d = c) ''0123456789abcdef''"

definition simple_escape :: "char \<Rightarrow> char option" where
  "simple_escape c =
     map_of [(CHR 0x22, CHR 0x22), (CHR 0x5C, CHR 0x5C), (CHR ''b'', CHR 0x08), (CHR ''f'', CHR 0x0C),
             (CHR ''n'', CHR 0x0A), (CHR ''r'', CHR 0x0D), (CHR ''t'', CHR 0x09)] c"

fun read_string_body :: "string \<Rightarrow> (string \<times> string) option" where
  "read_string_body [] = None"
| "read_string_body (c # cs) =
     (if c = CHR 0x22 then Some ([], cs)
      else if (of_char c :: nat) < 0x20 then None
      else if c \<noteq> CHR 0x5C then map_option (\<lambda>(s, r). (c # s, r)) (read_string_body cs)
      else case cs of
          [] \<Rightarrow> None
        | e # cs' \<Rightarrow>
            (case simple_escape e of
               Some x \<Rightarrow> map_option (\<lambda>(s, r). (x # s, r)) (read_string_body cs')
             | None \<Rightarrow>
                 (case cs' of
                    z1 # z2 # h1 # h2 # cs'' \<Rightarrow>
                      (case (hex_value z1, hex_value z2, hex_value h1, hex_value h2) of
                         (Some 0, Some 0, Some a, Some b) \<Rightarrow>
                           if e = CHR ''u''
                           then map_option (\<lambda>(s, r). (char_of (16 * a + b) # s, r)) (read_string_body cs'')
                           else None
                       | _ \<Rightarrow> None)
                  | _ \<Rightarrow> None)))"

definition read_string :: "string \<Rightarrow> (string \<times> string) option" where
  "read_string cs = (case cs of [] \<Rightarrow> None | c # cs \<Rightarrow> if c = CHR 0x22 then read_string_body cs else None)"

lemma hex_value_digit: "n < 16 \<Longrightarrow> hex_value (hex_digit n) = Some n"
proof -
  assume "n < 16"
  then have "n \<in> set [0..<16]" by simp
  moreover have "\<forall>n\<in>set [0..<16]. hex_value (hex_digit n) = Some n" by code_simp
  ultimately show ?thesis by blast
qed

lemma hex_value_zero: "hex_value (CHR ''0'') = Some 0"
  by (simp add: hex_value_def)

lemma simple_escape_u: "simple_escape (CHR ''u'') = None"
  by (simp add: simple_escape_def)

lemma read_escape_char:
  "read_string_body (escape_char c @ r) = map_option (\<lambda>(s, r). (c # s, r)) (read_string_body r)"
proof (cases "(of_char c :: nat) < 0x20 \<and> c \<notin> set [CHR 0x08, CHR 0x0C, CHR 0x0A, CHR 0x0D, CHR 0x09]")
  case True
  then have small: "(of_char c :: nat) < 0x20" by blast
  have n: "c \<noteq> CHR 0x22" "c \<noteq> CHR 0x5C"
    using small by (rule contrapos_pn, simp only:, simp)+
  have lt: "(of_char c :: nat) div 16 < 16" "(of_char c :: nat) mod 16 < 16"
    using small by simp_all
  have "16 * ((of_char c :: nat) div 16) + of_char c mod 16 = of_char c" by simp
  then have c: "char_of (16 * ((of_char c :: nat) div 16) + of_char c mod 16) = c" by simp
  have e: "escape_char c =
      [CHR 0x5C, CHR ''u'', CHR ''0'', CHR ''0'', hex_digit (of_char c div 16), hex_digit (of_char c mod 16)]"
    using True n by (simp add: escape_char_def)
  show ?thesis
    unfolding e using c by (simp add: simple_escape_u hex_value_zero hex_value_digit [OF lt(1)] hex_value_digit [OF lt(2)])
next
  case False
  show ?thesis
  proof (cases "c \<in> set [CHR 0x22, CHR 0x5C, CHR 0x08, CHR 0x0C, CHR 0x0A, CHR 0x0D, CHR 0x09]")
    case True
    then consider "c = CHR 0x22" | "c = CHR 0x5C" | "c = CHR 0x08" | "c = CHR 0x0C" | "c = CHR 0x0A"
      | "c = CHR 0x0D" | "c = CHR 0x09" by auto
    then show ?thesis by cases (simp_all add: escape_char_def simple_escape_def)
  next
    case False
    then have n: "c \<noteq> CHR 0x22" "c \<noteq> CHR 0x5C" "\<not> (of_char c :: nat) < 0x20"
      using \<open>\<not> (_ \<and> _)\<close> by auto
    then have "escape_char c = [c]"
      using False by (simp add: escape_char_def)
    then show ?thesis using n by simp
  qed
qed

lemma read_escaped: "read_string (escaped s @ r) = Some (s, r)"
proof -
  have "read_string_body (concat (map escape_char s) @ CHR 0x22 # r) = Some (s, r)"
    by (induction s) (simp_all add: read_escape_char)
  then show ?thesis by (simp add: read_string_def escaped_def)
qed

text \<open>
  C40: Strings are escaped without loss. Whatever bytes a string holds, the text the writer emits for it
  starts and ends the string for a reader of JSON, which reads the same bytes back and finds the rest of
  the document untouched; no control character appears in the text.
\<close>

theorem escaped_string_reads_back:
  "read_string (jw_output (write_escaped s (json_writer_initial pretty)) @ r) = Some (s, r) \<and>
   list_all (\<lambda>c. 0x20 \<le> (of_char c :: nat)) (jw_output (write_escaped s (json_writer_initial pretty)))"
proof -
  have hex: "0x20 \<le> (of_char (hex_digit n) :: nat)" if "n < 16" for n
  proof -
    have "\<forall>n\<in>set [0..<16]. 0x20 \<le> (of_char (hex_digit n) :: nat)" by code_simp
    then show ?thesis using that by simp
  qed
  have "0x20 \<le> (of_char d :: nat)" if "d \<in> set (escape_char c)" for c d
    using that by (auto simp: escape_char_def split: if_splits intro!: hex)
  then have "list_all (\<lambda>c. 0x20 \<le> (of_char c :: nat)) (escaped s)"
    by (auto simp: list_all_iff escaped_def)
  then show ?thesis
    using read_escaped [of s r] by (simp add: write_escaped_emit json_writer_initial_def)
qed

section \<open>Sizes read back\<close>

definition size_unit :: "string \<Rightarrow> nat option" where
  "size_unit s =
     map_of [([], 1), (''b'', 1), (''kib'', 1024), (''ki'', 1024), (''k'', 1024),
             (''mib'', 1048576), (''mi'', 1048576), (''m'', 1048576),
             (''gib'', 1073741824), (''gi'', 1073741824), (''g'', 1073741824)] (lowercase s)"

lemma size_reading:
  "let digits = takeWhile is_digit s; r = parse_size s
   in (ps_error r = []) = (ps_bytes r \<noteq> None) \<and>
      (case size_unit (dropWhile is_digit s) of
         None \<Rightarrow> ps_bytes r = None
       | Some u \<Rightarrow>
           if digits \<noteq> [] \<and> decimal_value digits * u < 2 ^ 64
           then map_option unat (ps_bytes r) = Some (decimal_value digits * u)
           else ps_bytes r = None)"
proof -
  have mult_bound: "a * b < 2 ^ 64 \<Longrightarrow> 0 < b \<Longrightarrow> a < 2 ^ 64" for a b :: nat
    using mult_le_mono2 [of 1 b a] by linarith
  define digits where "digits = takeWhile is_digit s"
  define suffix where "suffix = lowercase (dropWhile is_digit s)"
  define m :: u64 where "m =
    (if suffix = [] \<or> suffix = ''b'' then 1
     else if suffix = ''kib'' \<or> suffix = ''ki'' \<or> suffix = ''k'' then 1024
     else if suffix = ''mib'' \<or> suffix = ''mi'' \<or> suffix = ''m'' then 1024 * 1024
     else if suffix = ''gib'' \<or> suffix = ''gi'' \<or> suffix = ''g'' then 1024 * 1024 * 1024
     else 0)"
  have unit: "size_unit (dropWhile is_digit s) = (if m = 0 then None else Some (unat m))"
    unfolding size_unit_def suffix_def [symmetric] m_def by auto
  have parts: "take (length digits) s = digits" "lowercase (drop (length digits) s) = suffix"
    by (simp_all add: digits_def suffix_def takeWhile_eq_take [symmetric] dropWhile_eq_drop [symmetric])
  have parse: "parse_size s =
      (if s = [] then \<lparr>ps_bytes = None, ps_error = ''size must not be empty''\<rparr>
       else if digits = [] then \<lparr>ps_bytes = None, ps_error = ''size must start with a non-negative integer''\<rparr>
       else case from_chars_u64 digits of
          None \<Rightarrow> \<lparr>ps_bytes = None, ps_error = ''size integer is out of range''\<rparr>
        | Some number \<Rightarrow>
            if m = 0 then \<lparr>ps_bytes = None, ps_error = ''unknown size suffix; use B, KiB, MiB, or GiB''\<rparr>
            else if number > max_u64 div m then \<lparr>ps_bytes = None, ps_error = ''size is out of range''\<rparr>
            else \<lparr>ps_bytes = Some (number * m), ps_error = []\<rparr>)"
    unfolding parse_size_def Let_def digits_def [symmetric] parts m_def [symmetric] length_0_conv ..
  show ?thesis
  proof (cases "m = 0 \<or> digits = [] \<or> 2 ^ 64 \<le> decimal_value digits")
    case True
    then show ?thesis
      unfolding unit parse Let_def digits_def [symmetric]
      using mult_bound [of "decimal_value digits" "unat m"]
      by (auto simp: from_chars_u64_def Let_def unat_gt_0_iff)
  next
    case False
    define number :: u64 where "number = of_nat (decimal_value digits)"
    have number: "from_chars_u64 digits = Some number" "unat number = decimal_value digits"
      using False by (simp_all add: from_chars_u64_def number_def unat_of_nat)
    have "s \<noteq> []" using False by (auto simp: digits_def)
    moreover have "number > max_u64 div m \<longleftrightarrow> 2 ^ 64 \<le> decimal_value digits * unat m"
      using False by (simp add: gt_max_div_iff number(2) mult.commute)
    moreover have "decimal_value digits * unat m < 2 ^ 64 \<Longrightarrow> unat (number * m) = decimal_value digits * unat m"
      by (simp add: unat_mult_u64 number(2))
    ultimately show ?thesis
      unfolding unit parse Let_def digits_def [symmetric] number(1) using False by auto
  qed
qed

text \<open>
  The size of a text, exactly, in every case: it is read if and only if the text is one or more
  digits and a known unit in any case of letters, and the number times the unit fits 64 bits; then the
  result is that product. A result always carries no message and a refusal always carries one.
\<close>

theorem parse_size_exact:
  "let digits = takeWhile is_digit s; r = parse_size s
   in (ps_error r = []) = (ps_bytes r \<noteq> None) \<and>
      (case size_unit (dropWhile is_digit s) of
         None \<Rightarrow> ps_bytes r = None
       | Some u \<Rightarrow>
           if digits \<noteq> [] \<and> decimal_value digits * u < 2 ^ 64
           then map_option unat (ps_bytes r) = Some (decimal_value digits * u)
           else ps_bytes r = None)"
  by (rule size_reading)

lemma decimal_reads_back: "decimal_value (decimal n) = n \<and> list_all is_digit (decimal n) \<and> decimal n \<noteq> []"
proof (induction n rule: decimal.induct)
  case (1 n)
  have digit: "digit_value (char_of (48 + m)) = m \<and> is_digit (char_of (48 + m))" if "m < 10" for m :: nat
    using that by (simp add: digit_value_def is_digit_def)
  show ?case
    by (cases "n < 10"; subst (1 2 3) decimal.simps)
      (use 1 digit [of n] digit [of "n mod 10"] in \<open>auto simp: decimal_value_def\<close>)
qed

text \<open>
  Printed numbers are read back: whatever the 64-bit number and the known unit, in any case of
  letters, printing the number in decimal and parsing it with the unit gives their product, or a
  refusal exactly when the product does not fit.
\<close>

theorem printed_size_reads_back:
  assumes "size_unit suffix = Some u"
  shows "map_option unat (ps_bytes (parse_size (decimal (unat (n :: u64)) @ suffix))) =
    (if unat n * u < 2 ^ 64 then Some (unat n * u) else None)"
proof -
  have suffix: "suffix = [] \<or> \<not> is_digit (hd suffix)"
  proof (cases suffix)
    case (Cons c cs)
    have "\<not> is_digit c"
    proof
      assume "is_digit c"
      then have "to_lower c = c" by (auto simp: is_digit_def to_lower_def)
      moreover have "c \<noteq> CHR ''b'' \<and> c \<noteq> CHR ''k'' \<and> c \<noteq> CHR ''m'' \<and> c \<noteq> CHR ''g''"
        using \<open>is_digit c\<close> by (auto simp: is_digit_def)
      ultimately show False using assms Cons by (auto simp: size_unit_def lowercase_def split: if_splits)
    qed
    then show ?thesis using Cons by simp
  qed simp
  have d: "takeWhile is_digit (decimal (unat n) @ suffix) = decimal (unat n)"
    "dropWhile is_digit (decimal (unat n) @ suffix) = suffix"
    using decimal_reads_back [of "unat n"] suffix
    by (cases suffix; simp add: list_all_iff)+
  show ?thesis
    using size_reading [of "decimal (unat n) @ suffix"] decimal_reads_back [of "unat n"] assms
    unfolding Let_def d by (auto split: if_splits)
qed

theorem printed_size_reads_back_witness:
  "map_option unat (ps_bytes (parse_size (decimal (unat (7 :: u64)) @ ''kib''))) = Some 7168"
proof -
  have "size_unit ''kib'' = Some 1024" by (simp add: size_unit_def lowercase_def to_lower_def)
  from printed_size_reads_back [OF this, of 7] show ?thesis by (simp add: map_option_case)
qed

end
