(* ===== verification/Gemm_Problem.thy ===== *)
theory Gemm_Problem
  imports Access_Plan "HOL-Library.Monad_Syntax"
begin

text \<open>
  The matrix product problem of the out-of-core GEMM service (src/src/gemm/planner.hpp and the first
  half of planner.cpp): the data, \<open>validate_matrix\<close>, \<open>matrix_bounds\<close> and \<open>validate_problem\<close>.
  The specification states over the natural numbers where every element lies; validation is shown to
  be exact and to make every access of a kernel safe.

  The enumerations have one constructor more than the source, for a value outside the enumeration,
  because the code tests for it.
\<close>

section \<open>Data\<close>

datatype matrix_layout = Row_major | Column_major | Layout_out_of_range
datatype matrix_operation = Operation_none | Operation_transpose | Operation_out_of_range
datatype element_type = Fp16 | Bf16 | Fp32 | Fp64 | Element_out_of_range
datatype compute_mode = Strict_fp32 | Fast_tf32 | Compute_fp64 | Compute_out_of_range

fun matrix_layout_name :: "matrix_layout \<Rightarrow> string" where
  "matrix_layout_name Row_major = ''row_major''"
| "matrix_layout_name Column_major = ''column_major''"
| "matrix_layout_name Layout_out_of_range = ''invalid''"

fun matrix_operation_name :: "matrix_operation \<Rightarrow> string" where
  "matrix_operation_name Operation_none = ''none''"
| "matrix_operation_name Operation_transpose = ''transpose''"
| "matrix_operation_name Operation_out_of_range = ''invalid''"

fun element_type_name :: "element_type \<Rightarrow> string" where
  "element_type_name Fp16 = ''fp16''"
| "element_type_name Bf16 = ''bf16''"
| "element_type_name Fp32 = ''fp32''"
| "element_type_name Fp64 = ''fp64''"
| "element_type_name Element_out_of_range = ''invalid''"

fun compute_mode_name :: "compute_mode \<Rightarrow> string" where
  "compute_mode_name Strict_fp32 = ''strict_fp32''"
| "compute_mode_name Fast_tf32 = ''fast_tf32''"
| "compute_mode_name Compute_fp64 = ''fp64''"
| "compute_mode_name Compute_out_of_range = ''invalid''"

fun element_size_bytes :: "element_type \<Rightarrow> u64 option" where
  "element_size_bytes Fp16 = Some 2"
| "element_size_bytes Bf16 = Some 2"
| "element_size_bytes Fp32 = Some 4"
| "element_size_bytes Fp64 = Some 8"
| "element_size_bytes Element_out_of_range = None"

record matrix_view =
  mv_allocation_id :: allocation_id
  mv_allocation_bytes :: u64
  mv_offset_bytes :: u64
  mv_rows :: u64
  mv_columns :: u64
  mv_leading_dimension :: u64
  mv_layout :: matrix_layout
  mv_element_type :: element_type

text \<open>
  A double is its 64-bit pattern. The planner asks one thing of them, whether \<open>beta == 0.0\<close>, which
  holds of the two patterns that are zero up to the sign bit.
\<close>

type_synonym double = "64 word"

definition double_is_zero :: "double \<Rightarrow> bool" where
  "double_is_zero d \<longleftrightarrow> d AND 0x7FFFFFFFFFFFFFFF = 0"

record gemm_problem =
  gp_m :: u64
  gp_n :: u64
  gp_k :: u64
  gp_a :: matrix_view
  gp_b :: matrix_view
  gp_c :: matrix_view
  gp_a_operation :: matrix_operation
  gp_b_operation :: matrix_operation
  gp_compute_mode :: compute_mode
  gp_alpha :: double
  gp_beta :: double

datatype problem_error =
    Pe_none | Pe_zero_dimension | Pe_invalid_allocation | Pe_invalid_layout | Pe_invalid_operation
  | Pe_invalid_element_type | Pe_invalid_compute_mode | Pe_dimension_mismatch
  | Pe_leading_dimension_too_small | Pe_storage_overflow | Pe_storage_out_of_bounds
  | Pe_unsupported_type_combination | Pe_output_aliases_input | Pe_integer_limit_exceeded

text \<open>The operand is a character, and the null character where the source leaves the default.\<close>

record problem_validation =
  pv_error :: problem_error
  pv_operand :: char

fun problem_error_name :: "problem_error \<Rightarrow> string" where
  "problem_error_name Pe_none = ''none''"
| "problem_error_name Pe_zero_dimension = ''zero_dimension''"
| "problem_error_name Pe_invalid_allocation = ''invalid_allocation''"
| "problem_error_name Pe_invalid_layout = ''invalid_layout''"
| "problem_error_name Pe_invalid_operation = ''invalid_operation''"
| "problem_error_name Pe_invalid_element_type = ''invalid_element_type''"
| "problem_error_name Pe_invalid_compute_mode = ''invalid_compute_mode''"
| "problem_error_name Pe_dimension_mismatch = ''dimension_mismatch''"
| "problem_error_name Pe_leading_dimension_too_small = ''leading_dimension_too_small''"
| "problem_error_name Pe_storage_overflow = ''storage_overflow''"
| "problem_error_name Pe_storage_out_of_bounds = ''storage_out_of_bounds''"
| "problem_error_name Pe_unsupported_type_combination = ''unsupported_type_combination''"
| "problem_error_name Pe_output_aliases_input = ''output_aliases_input''"
| "problem_error_name Pe_integer_limit_exceeded = ''integer_limit_exceeded''"

section \<open>Validation\<close>

definition is_valid_layout :: "matrix_layout \<Rightarrow> bool" where
  "is_valid_layout l \<longleftrightarrow> l = Row_major \<or> l = Column_major"

definition is_valid_operation :: "matrix_operation \<Rightarrow> bool" where
  "is_valid_operation p \<longleftrightarrow> p = Operation_none \<or> p = Operation_transpose"

definition is_valid_compute_mode :: "compute_mode \<Rightarrow> bool" where
  "is_valid_compute_mode c \<longleftrightarrow> c = Strict_fp32 \<or> c = Fast_tf32 \<or> c = Compute_fp64"

definition major_count :: "matrix_view \<Rightarrow> u64" where
  "major_count matrix = (if mv_layout matrix = Row_major then mv_rows matrix else mv_columns matrix)"

definition minor_count :: "matrix_view \<Rightarrow> u64" where
  "minor_count matrix = (if mv_layout matrix = Row_major then mv_columns matrix else mv_rows matrix)"

definition problem_valid :: problem_validation where
  "problem_valid = \<lparr>pv_error = Pe_none, pv_operand = CHR 0x00\<rparr>"

definition validate_matrix :: "matrix_view \<Rightarrow> char \<Rightarrow> problem_validation" where
  "validate_matrix matrix operand =
     (let fail = (\<lambda>e. \<lparr>pv_error = e, pv_operand = operand\<rparr>)
      in if \<not> allocation_id_valid (mv_allocation_id matrix) \<or> mv_allocation_bytes matrix = 0
         then fail Pe_invalid_allocation
         else if \<not> is_valid_layout (mv_layout matrix) then fail Pe_invalid_layout
         else
           case element_size_bytes (mv_element_type matrix) of
             None \<Rightarrow> fail Pe_invalid_element_type
           | Some element_bytes \<Rightarrow>
               if mv_rows matrix = 0 \<or> mv_columns matrix = 0 then fail Pe_zero_dimension
               else if mv_leading_dimension matrix < minor_count matrix
               then fail Pe_leading_dimension_too_small
               else if mv_leading_dimension matrix > 2147483647 then fail Pe_integer_limit_exceeded
               else
                 case checked_multiply (major_count matrix - 1) (mv_leading_dimension matrix) of
                   None \<Rightarrow> fail Pe_storage_overflow
                 | Some last_major_offset \<Rightarrow>
                     (case Option.bind (checked_add last_major_offset (minor_count matrix - 1))
                             (\<lambda>last_element. checked_add last_element 1) of
                        None \<Rightarrow> fail Pe_storage_overflow
                      | Some last_element \<Rightarrow>
                          (case Option.bind (checked_multiply last_element element_bytes)
                                  (\<lambda>storage_bytes. checked_add (mv_offset_bytes matrix) storage_bytes) of
                             None \<Rightarrow> fail Pe_storage_overflow
                           | Some storage_end \<Rightarrow>
                               if mv_offset_bytes matrix \<ge> mv_allocation_bytes matrix \<or>
                                  storage_end > mv_allocation_bytes matrix
                               then fail Pe_storage_out_of_bounds
                               else problem_valid)))"

record matrix_bounds_range =
  mb_begin :: u64
  mb_end :: u64

definition matrix_bounds :: "matrix_view \<Rightarrow> matrix_bounds_range option" where
  "matrix_bounds matrix =
     (case element_size_bytes (mv_element_type matrix) of
        None \<Rightarrow> None
      | Some element_bytes \<Rightarrow>
          if mv_rows matrix = 0 \<or> mv_columns matrix = 0 then None
          else do {
            elements \<leftarrow> checked_multiply (major_count matrix - 1) (mv_leading_dimension matrix);
            elements \<leftarrow> checked_add elements (minor_count matrix);
            bytes \<leftarrow> checked_multiply elements element_bytes;
            end_byte \<leftarrow> checked_add (mv_offset_bytes matrix) bytes;
            Some \<lparr>mb_begin = mv_offset_bytes matrix, mb_end = end_byte\<rparr>
          })"

definition operated_shape :: "matrix_view \<Rightarrow> matrix_operation \<Rightarrow> u64 \<times> u64" where
  "operated_shape matrix operation =
     (if operation = Operation_none then (mv_rows matrix, mv_columns matrix)
      else (mv_columns matrix, mv_rows matrix))"

definition bounds_overlap :: "matrix_bounds_range \<Rightarrow> matrix_bounds_range \<Rightarrow> bool" where
  "bounds_overlap left right \<longleftrightarrow> mb_begin left < mb_end right \<and> mb_begin right < mb_end left"

definition supported_types :: "gemm_problem \<Rightarrow> bool" where
  "supported_types problem =
     (let a = mv_element_type (gp_a problem); c = mv_element_type (gp_c problem);
          mode = gp_compute_mode problem
      in case a of
           Fp16 \<Rightarrow> (c = a \<or> c = Fp32) \<and> mode = Strict_fp32
         | Bf16 \<Rightarrow> (c = a \<or> c = Fp32) \<and> mode = Strict_fp32
         | Fp32 \<Rightarrow> c = Fp32 \<and> (mode = Strict_fp32 \<or> mode = Fast_tf32)
         | Fp64 \<Rightarrow> c = Fp64 \<and> mode = Compute_fp64
         | Element_out_of_range \<Rightarrow> False)"

text \<open>The loop over the three matrices: the first validation that fails, if any does.\<close>

fun validate_matrices :: "(matrix_view \<times> char) list \<Rightarrow> problem_validation option" where
  "validate_matrices [] = None"
| "validate_matrices ((matrix, operand) # rest) =
     (let validation = validate_matrix matrix operand
      in if pv_error validation \<noteq> Pe_none then Some validation else validate_matrices rest)"

definition sizes_disagree :: "matrix_view \<Rightarrow> matrix_view \<Rightarrow> bool" where
  "sizes_disagree x y \<longleftrightarrow>
     mv_allocation_id x = mv_allocation_id y \<and> mv_allocation_bytes x \<noteq> mv_allocation_bytes y"

definition validate_problem :: "gemm_problem \<Rightarrow> problem_validation" where
  "validate_problem problem =
     (let fail = (\<lambda>e operand. \<lparr>pv_error = e, pv_operand = operand\<rparr>);
          a = gp_a problem; b = gp_b problem; c = gp_c problem
      in if gp_m problem = 0 \<or> gp_n problem = 0 \<or> gp_k problem = 0 then fail Pe_zero_dimension (CHR 0x00)
         else if \<not> is_valid_operation (gp_a_operation problem) then fail Pe_invalid_operation (CHR ''A'')
         else if \<not> is_valid_operation (gp_b_operation problem) then fail Pe_invalid_operation (CHR ''B'')
         else if \<not> is_valid_compute_mode (gp_compute_mode problem) then fail Pe_invalid_compute_mode (CHR 0x00)
         else
           case validate_matrices [(a, CHR ''A''), (b, CHR ''B''), (c, CHR ''C'')] of
             Some validation \<Rightarrow> validation
           | None \<Rightarrow>
               if sizes_disagree a b \<or> sizes_disagree a c \<or> sizes_disagree b c
               then fail Pe_invalid_allocation (CHR 0x00)
               else if operated_shape a (gp_a_operation problem) \<noteq> (gp_m problem, gp_k problem) \<or>
                       operated_shape b (gp_b_operation problem) \<noteq> (gp_k problem, gp_n problem) \<or>
                       (mv_rows c, mv_columns c) \<noteq> (gp_m problem, gp_n problem)
               then fail Pe_dimension_mismatch (CHR 0x00)
               else if mv_element_type a \<noteq> mv_element_type b
               then fail Pe_unsupported_type_combination (CHR 0x00)
               else if \<not> supported_types problem then fail Pe_unsupported_type_combination (CHR 0x00)
               else
                 (case (matrix_bounds a, matrix_bounds b, matrix_bounds c) of
                    (Some ab, Some bb, Some cb) \<Rightarrow>
                      if (mv_allocation_id a = mv_allocation_id c \<and> bounds_overlap ab cb) \<or>
                         (mv_allocation_id b = mv_allocation_id c \<and> bounds_overlap bb cb)
                      then fail Pe_output_aliases_input (CHR ''C'')
                      else problem_valid
                  | _ \<Rightarrow> fail Pe_storage_overflow (CHR 0x00)))"

section \<open>What a valid problem is\<close>

definition element_bytes_of :: "matrix_view \<Rightarrow> nat" where
  "element_bytes_of M = (case element_size_bytes (mv_element_type M) of None \<Rightarrow> 0 | Some e \<Rightarrow> unat e)"

text \<open>The offset of the first byte of an element of a stored matrix, over the natural numbers.\<close>

definition element_at :: "matrix_view \<Rightarrow> nat \<Rightarrow> nat \<Rightarrow> nat" where
  "element_at M r c =
     unat (mv_offset_bytes M) +
     (if mv_layout M = Row_major then r * unat (mv_leading_dimension M) + c
      else c * unat (mv_leading_dimension M) + r) * element_bytes_of M"

definition storage_end_of :: "matrix_view \<Rightarrow> nat" where
  "storage_end_of M =
     unat (mv_offset_bytes M) +
     ((unat (major_count M) - 1) * unat (mv_leading_dimension M) + unat (minor_count M)) * element_bytes_of M"

definition view_ok :: "matrix_view \<Rightarrow> bool" where
  "view_ok M \<longleftrightarrow>
     allocation_id_valid (mv_allocation_id M) \<and> is_valid_layout (mv_layout M) \<and>
     0 < element_bytes_of M \<and> 0 < unat (mv_rows M) \<and> 0 < unat (mv_columns M) \<and>
     unat (minor_count M) \<le> unat (mv_leading_dimension M) \<and>
     unat (mv_leading_dimension M) \<le> 2147483647 \<and>
     storage_end_of M \<le> unat (mv_allocation_bytes M)"

definition ranges_apart :: "matrix_view \<Rightarrow> matrix_view \<Rightarrow> bool" where
  "ranges_apart X Y \<longleftrightarrow>
     mv_allocation_id X \<noteq> mv_allocation_id Y \<or>
     storage_end_of X \<le> unat (mv_offset_bytes Y) \<or> storage_end_of Y \<le> unat (mv_offset_bytes X)"

definition problem_ok :: "gemm_problem \<Rightarrow> bool" where
  "problem_ok p \<longleftrightarrow>
     0 < unat (gp_m p) \<and> 0 < unat (gp_n p) \<and> 0 < unat (gp_k p) \<and>
     is_valid_operation (gp_a_operation p) \<and> is_valid_operation (gp_b_operation p) \<and>
     view_ok (gp_a p) \<and> view_ok (gp_b p) \<and> view_ok (gp_c p) \<and>
     \<not> sizes_disagree (gp_a p) (gp_b p) \<and> \<not> sizes_disagree (gp_a p) (gp_c p) \<and>
     \<not> sizes_disagree (gp_b p) (gp_c p) \<and>
     operated_shape (gp_a p) (gp_a_operation p) = (gp_m p, gp_k p) \<and>
     operated_shape (gp_b p) (gp_b_operation p) = (gp_k p, gp_n p) \<and>
     mv_rows (gp_c p) = gp_m p \<and> mv_columns (gp_c p) = gp_n p \<and>
     mv_element_type (gp_a p) = mv_element_type (gp_b p) \<and> supported_types p \<and>
     ranges_apart (gp_a p) (gp_c p) \<and> ranges_apart (gp_b p) (gp_c p)"

lemma element_bytes_Some: "element_size_bytes t = Some e \<Longrightarrow> unat e \<in> {2, 4, 8}"
  by (cases t) auto

lemma element_bytes_of_eq:
  "0 < element_bytes_of M \<Longrightarrow> \<exists>e. element_size_bytes (mv_element_type M) = Some e \<and> unat e = element_bytes_of M"
  by (auto simp: element_bytes_of_def split: option.splits)

lemma minus_one_u64: "0 < unat (x :: u64) \<Longrightarrow> unat (x - 1) = unat x - 1"
  by (simp add: unat_gt_0_iff unat_minus_one)

lemma count_pos:
  assumes "mv_rows M \<noteq> 0" "mv_columns M \<noteq> 0"
  shows "0 < unat (major_count M)" "0 < unat (minor_count M)"
  using assms by (simp_all add: major_count_def minor_count_def unat_gt_0_iff)

lemma matrix_bounds_eq:
  assumes "element_size_bytes (mv_element_type M) = Some e" "mv_rows M \<noteq> 0" "mv_columns M \<noteq> 0"
  shows "matrix_bounds M =
    (if storage_end_of M < 18446744073709551616
     then Some \<lparr>mb_begin = mv_offset_bytes M, mb_end = of_nat (storage_end_of M)\<rparr> else None)"
proof -
  let ?ld = "unat (mv_leading_dimension M)" and ?maj = "unat (major_count M)" and ?min = "unat (minor_count M)"
  note pos = count_pos [OF assms(2,3)]
  have e: "element_bytes_of M = unat e" "0 < unat e"
    using assms(1) element_bytes_Some [OF assms(1)] by (auto simp: element_bytes_of_def)
  define E where "E = (?maj - 1) * ?ld"
  have se: "storage_end_of M = unat (mv_offset_bytes M) + (E + ?min) * unat e"
    by (simp add: storage_end_of_def E_def e)
  have chain: "E \<le> E + ?min" "E + ?min \<le> (E + ?min) * unat e"
    "(E + ?min) * unat e \<le> storage_end_of M"
    using e(2) by (simp_all add: se)
  show ?thesis
  proof (cases "storage_end_of M < 18446744073709551616")
    case True
    have b: "E < 18446744073709551616" "E + ?min < 18446744073709551616"
      "(E + ?min) * unat e < 18446744073709551616"
      using True chain by linarith+
    note u = b [THEN unat_of_nat_u64] True [THEN unat_of_nat_u64]
    have 1: "checked_multiply (major_count M - 1) (mv_leading_dimension M) = Some (of_nat E)"
      unfolding checked_multiply_Some_iff minus_one_u64 [OF pos(1)] E_def [symmetric]
      using b by (simp add: u)
    have 2: "checked_add (of_nat E) (minor_count M) = Some (of_nat (E + ?min))"
      using b by (simp add: checked_add_Some_iff u del: of_nat_add)
    have 3: "checked_multiply (of_nat (E + ?min)) e = Some (of_nat ((E + ?min) * unat e))"
      unfolding checked_multiply_Some_iff u using b by simp
    have 4: "checked_add (mv_offset_bytes M) (of_nat ((E + ?min) * unat e)) = Some (of_nat (storage_end_of M))"
      unfolding checked_add_Some_iff u using True by (simp add: se)
    show ?thesis using assms True by (simp add: matrix_bounds_def 1 2 3 4 del: of_nat_add of_nat_mult)
  next
    case False
    have "matrix_bounds M = None"
    proof (rule ccontr)
      assume "matrix_bounds M \<noteq> None"
      then obtain x y z w where s: "checked_multiply (major_count M - 1) (mv_leading_dimension M) = Some x"
        "checked_add x (minor_count M) = Some y" "checked_multiply y e = Some z"
        "checked_add (mv_offset_bytes M) z = Some w"
        using assms by (auto simp: matrix_bounds_def split: bind_splits)
      have "unat w = storage_end_of M"
        using s pos by (simp add: checked_multiply_Some_iff checked_add_Some_iff minus_one_u64 se E_def)
      then show False using False unat_u64_bound [of w] by simp
    qed
    then show ?thesis using False by simp
  qed
qed

text \<open>The checked arithmetic of \<open>validate_matrix\<close> computes the end of the storage, or overflows.\<close>

lemma storage_chain:
  assumes "element_size_bytes (mv_element_type M) = Some e" "mv_rows M \<noteq> 0" "mv_columns M \<noteq> 0"
    and "storage_end_of M < 18446744073709551616"
  shows "\<exists>x y z w. checked_multiply (major_count M - 1) (mv_leading_dimension M) = Some x \<and>
    checked_add x (minor_count M - 1) = Some y \<and> checked_add y 1 = Some z \<and>
    checked_multiply z e = Some w \<and> checked_add (mv_offset_bytes M) w = Some (of_nat (storage_end_of M))"
proof -
  let ?ld = "unat (mv_leading_dimension M)" and ?maj = "unat (major_count M)" and ?min = "unat (minor_count M)"
  note pos = count_pos [OF assms(2,3)]
  have e: "element_bytes_of M = unat e" "0 < unat e"
    using assms(1) element_bytes_Some [OF assms(1)] by (auto simp: element_bytes_of_def)
  define E where "E = (?maj - 1) * ?ld"
  have se: "storage_end_of M = unat (mv_offset_bytes M) + (E + ?min) * unat e"
    by (simp add: storage_end_of_def E_def e)
  have chain: "E \<le> E + ?min" "E + (?min - 1) \<le> E + ?min" "E + ?min \<le> (E + ?min) * unat e"
    "(E + ?min) * unat e \<le> storage_end_of M"
    using e(2) by (simp_all add: se)
  have b: "E < 18446744073709551616" "E + (?min - 1) < 18446744073709551616" "E + ?min < 18446744073709551616"
    "(E + ?min) * unat e < 18446744073709551616"
    using assms(4) chain by linarith+
  note u = b [THEN unat_of_nat_u64] assms(4) [THEN unat_of_nat_u64] minus_one_u64 [OF pos(1)] minus_one_u64 [OF pos(2)]
  show ?thesis
  proof (intro exI conjI)
    show "checked_multiply (major_count M - 1) (mv_leading_dimension M) = Some (of_nat E)"
      unfolding checked_multiply_Some_iff u E_def [symmetric] using b by simp
    show "checked_add (of_nat E) (minor_count M - 1) = Some (of_nat (E + (?min - 1)))"
      unfolding checked_add_Some_iff u using b by simp
    show "checked_add (of_nat (E + (?min - 1))) 1 = Some (of_nat (E + ?min))"
      unfolding checked_add_Some_iff u using b pos by simp
    show "checked_multiply (of_nat (E + ?min)) e = Some (of_nat ((E + ?min) * unat e))"
      unfolding checked_multiply_Some_iff u using b by simp
    show "checked_add (mv_offset_bytes M) (of_nat ((E + ?min) * unat e)) = Some (of_nat (storage_end_of M))"
      unfolding checked_add_Some_iff u using assms(4) by (simp add: se)
  qed
qed

lemma storage_end_gt: 
  assumes "0 < element_bytes_of M" "mv_rows M \<noteq> 0" "mv_columns M \<noteq> 0"
  shows "unat (mv_offset_bytes M) < storage_end_of M"
  using assms count_pos [OF assms(2,3)] by (simp add: storage_end_of_def)

lemma storage_chain_value:
  assumes "element_size_bytes (mv_element_type M) = Some e" "mv_rows M \<noteq> 0" "mv_columns M \<noteq> 0"
    "checked_multiply (major_count M - 1) (mv_leading_dimension M) = Some x"
    "checked_add x (minor_count M - 1) = Some y" "checked_add y 1 = Some z"
    "checked_multiply z e = Some w" "checked_add (mv_offset_bytes M) w = Some v"
  shows "unat v = storage_end_of M"
proof -
  note pos = count_pos [OF assms(2,3)]
  have "element_bytes_of M = unat e" using assms(1) by (simp add: element_bytes_of_def)
  moreover have "unat z = (unat (major_count M) - 1) * unat (mv_leading_dimension M) + unat (minor_count M)"
    using assms(4-6) pos(2)
    by (simp add: checked_multiply_Some_iff checked_add_Some_iff minus_one_u64 [OF pos(1)] minus_one_u64 [OF pos(2)])
  ultimately show ?thesis
    using assms(7,8) by (simp add: storage_end_of_def checked_multiply_Some_iff checked_add_Some_iff)
qed

lemma validate_matrix_iff: "pv_error (validate_matrix M x) = Pe_none \<longleftrightarrow> view_ok M"
proof (cases "\<exists>e. element_size_bytes (mv_element_type M) = Some e \<and> mv_rows M \<noteq> 0 \<and> mv_columns M \<noteq> 0")
  case True
  then obtain e where e: "element_size_bytes (mv_element_type M) = Some e" "mv_rows M \<noteq> 0" "mv_columns M \<noteq> 0"
    by blast
  have pos: "0 < element_bytes_of M" using element_bytes_Some [OF e(1)] e(1) by (auto simp: element_bytes_of_def)
  note gt = storage_end_gt [OF pos e(2,3)]
  show ?thesis
  proof
    assume ok: "view_ok M"
    then have le: "storage_end_of M \<le> unat (mv_allocation_bytes M)" by (simp add: view_ok_def)
    then have lt: "storage_end_of M < 18446744073709551616"
      using unat_u64_bound [of "mv_allocation_bytes M"] by linarith
    obtain x y z w where s: "checked_multiply (major_count M - 1) (mv_leading_dimension M) = Some x"
      "checked_add x (minor_count M - 1) = Some y" "checked_add y 1 = Some z"
      "checked_multiply z e = Some w" "checked_add (mv_offset_bytes M) w = Some (of_nat (storage_end_of M))"
      using storage_chain [OF e lt] by blast
    have "mv_allocation_bytes M \<noteq> 0" using le gt by (auto simp: unat_eq_0_iff)
    moreover have "mv_offset_bytes M < mv_allocation_bytes M"
      using le gt by (simp add: word_less_nat_alt)
    moreover have "\<not> mv_allocation_bytes M < of_nat (storage_end_of M)"
      using le unat_of_nat_u64 [OF lt] by (simp add: word_less_nat_alt)
    ultimately show "pv_error (validate_matrix M x) = Pe_none" for x
      using ok e s
      by (simp add: validate_matrix_def view_ok_def problem_valid_def word_less_nat_alt not_less not_le)
  next
    assume a: "pv_error (validate_matrix M x) = Pe_none"
    obtain y z w v u where s: "checked_multiply (major_count M - 1) (mv_leading_dimension M) = Some y"
      "checked_add y (minor_count M - 1) = Some z" "checked_add z 1 = Some w"
      "checked_multiply w e = Some v" "checked_add (mv_offset_bytes M) v = Some u"
      and g: "allocation_id_valid (mv_allocation_id M)" "is_valid_layout (mv_layout M)"
      "minor_count M \<le> mv_leading_dimension M" "mv_leading_dimension M \<le> 2147483647"
      "u \<le> mv_allocation_bytes M"
      using a e by (auto simp: validate_matrix_def split: if_splits option.splits bind_splits)
    show "view_ok M"
      using g pos e storage_chain_value [OF e s]
      by (simp add: view_ok_def word_le_nat_alt unat_gt_0_iff)
  qed
next
  case False
  then show ?thesis
    by (auto simp: validate_matrix_def view_ok_def element_bytes_of_def unat_gt_0_iff Let_def split: option.splits)
qed

lemma validate_matrices_iff:
  "validate_matrices Ms = None \<longleftrightarrow> list_all (\<lambda>(M, x). view_ok M) Ms"
  by (induction Ms rule: validate_matrices.induct) (simp_all add: Let_def validate_matrix_iff)

lemma validate_matrices_error: "validate_matrices Ms = Some v \<Longrightarrow> pv_error v \<noteq> Pe_none"
  by (induction Ms rule: validate_matrices.induct) (auto simp: Let_def split: if_splits)

lemma view_ok_bounds:
  assumes "view_ok M"
  shows "matrix_bounds M = Some \<lparr>mb_begin = mv_offset_bytes M, mb_end = of_nat (storage_end_of M)\<rparr>"
    and "unat (of_nat (storage_end_of M) :: u64) = storage_end_of M"
proof -
  have pos: "0 < element_bytes_of M" and r: "mv_rows M \<noteq> 0" "mv_columns M \<noteq> 0"
    and le: "storage_end_of M \<le> unat (mv_allocation_bytes M)"
    using assms by (auto simp: view_ok_def unat_gt_0_iff)
  then obtain e where e: "element_size_bytes (mv_element_type M) = Some e"
    using element_bytes_of_eq by blast
  have lt: "storage_end_of M < 18446744073709551616"
    using le unat_u64_bound [of "mv_allocation_bytes M"] by linarith
  show "matrix_bounds M = Some \<lparr>mb_begin = mv_offset_bytes M, mb_end = of_nat (storage_end_of M)\<rparr>"
    using matrix_bounds_eq [OF e r] lt by simp
  show "unat (of_nat (storage_end_of M) :: u64) = storage_end_of M" by (rule unat_of_nat_u64 [OF lt])
qed

lemma overlap_iff:
  assumes "view_ok X" "view_ok Y" "matrix_bounds X = Some bx" "matrix_bounds Y = Some bd"
  shows "\<not> (mv_allocation_id X = mv_allocation_id Y \<and> bounds_overlap bx bd) \<longleftrightarrow> ranges_apart X Y"
  using assms view_ok_bounds [OF assms(1)] view_ok_bounds [OF assms(2)]
  by (auto simp: bounds_overlap_def ranges_apart_def word_less_nat_alt)

lemma validate_problem_iff: "pv_error (validate_problem p) = Pe_none \<longleftrightarrow> problem_ok p"
proof (cases "view_ok (gp_a p) \<and> view_ok (gp_b p) \<and> view_ok (gp_c p)")
  case True
  then have v: "validate_matrices [(gp_a p, CHR ''A''), (gp_b p, CHR ''B''), (gp_c p, CHR ''C'')] = None"
    by (simp add: validate_matrices_iff del: validate_matrices.simps)
  obtain ab bb cb where bs: "matrix_bounds (gp_a p) = Some ab" "matrix_bounds (gp_b p) = Some bb"
    "matrix_bounds (gp_c p) = Some cb"
    using True view_ok_bounds(1) by blast
  note apart = overlap_iff [OF _ _ bs(1,3)] overlap_iff [OF _ _ bs(2,3)]
  have mode: "supported_types p \<Longrightarrow> is_valid_compute_mode (gp_compute_mode p)"
    by (auto simp: supported_types_def is_valid_compute_mode_def Let_def split: element_type.splits)
  show ?thesis
    unfolding validate_problem_def problem_ok_def Let_def v option.case bs prod.case
    using True apart mode by (auto simp: unat_gt_0_iff problem_valid_def)
next
  case False
  then have "validate_matrices [(gp_a p, CHR ''A''), (gp_b p, CHR ''B''), (gp_c p, CHR ''C'')] \<noteq> None"
    by (simp add: validate_matrices_iff del: validate_matrices.simps)
  then obtain v where v: "validate_matrices [(gp_a p, CHR ''A''), (gp_b p, CHR ''B''), (gp_c p, CHR ''C'')] = Some v"
    by blast
  show ?thesis
    unfolding validate_problem_def problem_ok_def Let_def v option.case
    using False validate_matrices_error [OF v] by auto
qed

text \<open>The bytes of an element.\<close>

definition element_span :: "matrix_view \<Rightarrow> nat \<Rightarrow> nat \<Rightarrow> nat set" where
  "element_span M r c = {element_at M r c ..< element_at M r c + element_bytes_of M}"

definition in_view :: "matrix_view \<Rightarrow> nat \<Rightarrow> nat \<Rightarrow> bool" where
  "in_view M r c \<longleftrightarrow> r < unat (mv_rows M) \<and> c < unat (mv_columns M)"

lemma element_in_storage:
  assumes "view_ok M" "in_view M r c"
  shows "unat (mv_offset_bytes M) \<le> element_at M r c" "element_at M r c + element_bytes_of M \<le> storage_end_of M"
proof -
  show "unat (mv_offset_bytes M) \<le> element_at M r c" by (simp add: element_at_def)
  let ?ld = "unat (mv_leading_dimension M)"
  define major where "major = (if mv_layout M = Row_major then r else c)"
  define minor where "minor = (if mv_layout M = Row_major then c else r)"
  have b: "major \<le> unat (major_count M) - 1" "minor < unat (minor_count M)"
    using assms(2) by (auto simp: major_def minor_def major_count_def minor_count_def in_view_def)
  have "major * ?ld + minor + 1 \<le> (unat (major_count M) - 1) * ?ld + unat (minor_count M)"
    using mult_le_mono1 [OF b(1), of ?ld] b(2) by linarith
  then have "(major * ?ld + minor + 1) * element_bytes_of M \<le>
      ((unat (major_count M) - 1) * ?ld + unat (minor_count M)) * element_bytes_of M"
    by (rule mult_le_mono1)
  then show "element_at M r c + element_bytes_of M \<le> storage_end_of M"
    by (simp add: element_at_def storage_end_of_def major_def minor_def algebra_simps split: if_splits)
qed

lemma index_unique:
  assumes "i * d + j = i' * d + (j' :: nat)" "j < d" "j' < d"
  shows "i = i' \<and> j = j'"
proof -
  have "(i * d + j) div d = i" "(i' * d + j') div d = i'" using assms(2,3) by simp_all
  then show ?thesis using assms(1) by auto
qed

lemma elements_disjoint:
  assumes "view_ok M" "in_view M r c" "in_view M r' c'" "(r, c) \<noteq> (r', c')"
  shows "element_span M r c \<inter> element_span M r' c' = {}"
proof -
  let ?ld = "unat (mv_leading_dimension M)" and ?e = "element_bytes_of M"
  define i where "i r c = (if mv_layout M = Row_major then r * ?ld + c else c * ?ld + r)" for r c
  have at: "element_at M r c = unat (mv_offset_bytes M) + i r c * ?e" for r c
    by (simp add: element_at_def i_def)
  have ne: "i r c \<noteq> i r' c'"
  proof (cases "mv_layout M = Row_major")
    case True
    then have "c < ?ld" "c' < ?ld"
      using assms(1-3) by (simp_all add: in_view_def view_ok_def minor_count_def)
    then show ?thesis
      using assms(4) index_unique [of r ?ld c r' c'] unfolding i_def if_P [OF True] by blast
  next
    case False
    then have "r < ?ld" "r' < ?ld"
      using assms(1-3) by (simp_all add: in_view_def view_ok_def minor_count_def)
    then show ?thesis
      using assms(4) index_unique [of c ?ld r c' r'] unfolding i_def if_not_P [OF False] by blast
  qed
  have "i r c * ?e + ?e \<le> i r' c' * ?e \<or> i r' c' * ?e + ?e \<le> i r c * ?e"
    using ne mult_le_mono1 [of "Suc (i r c)" "i r' c'" ?e] mult_le_mono1 [of "Suc (i r' c')" "i r c" ?e]
    by (simp add: nat_neq_iff) (metis add.commute less_eq_Suc_le mult_Suc)
  then show ?thesis by (auto simp: element_span_def at)
qed

text \<open>
  C26: Validation is exact: it accepts a problem if and only if the dimensions are positive and agree, the
  types are a supported combination, every matrix with its strides lies inside its allocation without
  wrap-around, and the storage of the result shares no byte with that of an operand.
\<close>

theorem validate_problem_exact: "pv_error (validate_problem p) = Pe_none \<longleftrightarrow> problem_ok p"
  by (rule validate_problem_iff)

text \<open>
  What an accepted problem guarantees to the kernels: every element of the three matrices lies
  within its allocation, different elements of one matrix share no byte, and no element of the result
  shares a byte with an element of an operand in the same allocation.
\<close>

theorem valid_problem_memory_safe:
  assumes "pv_error (validate_problem p) = Pe_none"
  shows "(M \<in> {gp_a p, gp_b p, gp_c p} \<longrightarrow>
      (in_view M r c \<longrightarrow> element_span M r c \<subseteq> {..< unat (mv_allocation_bytes M)}) \<and>
      (in_view M r c \<longrightarrow> in_view M r' c' \<longrightarrow> (r, c) \<noteq> (r', c') \<longrightarrow>
         element_span M r c \<inter> element_span M r' c' = {})) \<and>
    (M \<in> {gp_a p, gp_b p} \<longrightarrow> mv_allocation_id M = mv_allocation_id (gp_c p) \<longrightarrow>
      in_view M r c \<longrightarrow> in_view (gp_c p) r' c' \<longrightarrow>
      element_span M r c \<inter> element_span (gp_c p) r' c' = {})"
proof -
  have ok: "problem_ok p" using assms by (simp add: validate_problem_iff)
  then have v: "M \<in> {gp_a p, gp_b p, gp_c p} \<Longrightarrow> view_ok M" for M by (auto simp: problem_ok_def)
  have 1: "element_span M r c \<subseteq> {..< unat (mv_allocation_bytes M)}"
    if "view_ok M" "in_view M r c" for M r c
    using element_in_storage(2) [OF that] that(1) by (auto simp: element_span_def view_ok_def)
  have 2: "element_span X r c \<inter> element_span Y r' c' = {}"
    if "view_ok X" "view_ok Y" "ranges_apart X Y" "mv_allocation_id X = mv_allocation_id Y"
      "in_view X r c" "in_view Y r' c'" for X Y
    using element_in_storage [OF that(1,5)] element_in_storage [OF that(2,6)] that(3,4)
    by (auto simp: element_span_def ranges_apart_def)
  have apart: "ranges_apart X (gp_c p)" if "X \<in> {gp_a p, gp_b p}" for X
    using that ok by (auto simp: problem_ok_def)
  have c: "view_ok (gp_c p)" using v by simp
  show ?thesis
    using v [of M] 1 [of M r c] elements_disjoint [of M r c r' c'] 2 [of M "gp_c p"] apart [of M] c
    by blast
qed

text \<open>
  The problem of the witnesses: a product of a 6 by 5 and a transposed 4 by 5 matrix of half-precision
  elements in one allocation, with the result in another.
\<close>

definition view_example :: "u64 \<Rightarrow> u64 \<Rightarrow> u64 \<Rightarrow> u64 \<Rightarrow> u64 \<Rightarrow> element_type \<Rightarrow> matrix_view" where
  "view_example i offset rows columns ld t =
     \<lparr>mv_allocation_id = AllocationId i, mv_allocation_bytes = 400, mv_offset_bytes = offset, mv_rows = rows,
      mv_columns = columns, mv_leading_dimension = ld, mv_layout = Row_major, mv_element_type = t\<rparr>"

definition problem_example :: gemm_problem where
  "problem_example =
     \<lparr>gp_m = 6, gp_n = 4, gp_k = 5, gp_a = view_example 1 0 6 5 8 Fp16, gp_b = view_example 1 96 4 5 5 Fp16,
      gp_c = view_example 2 0 6 4 4 Fp32, gp_a_operation = Operation_none,
      gp_b_operation = Operation_transpose, gp_compute_mode = Strict_fp32,
      gp_alpha = 0x3FF0000000000000, gp_beta = 0\<rparr>"

lemma problem_example_ok: "problem_ok problem_example"
  by (simp add: problem_ok_def problem_example_def view_example_def view_ok_def allocation_id_valid_def
      is_valid_layout_def is_valid_operation_def element_bytes_of_def minor_count_def major_count_def
      storage_end_of_def sizes_disagree_def operated_shape_def supported_types_def ranges_apart_def Let_def)

theorem valid_problem_memory_safe_witness:
  "element_span (gp_a problem_example) 1 2 \<inter> element_span (gp_a problem_example) 2 1 = {} \<and>
   element_at (gp_a problem_example) 1 2 = 20"
proof
  have ok: "pv_error (validate_problem problem_example) = Pe_none"
    using problem_example_ok by (simp add: validate_problem_iff)
  have "in_view (gp_a problem_example) 1 2" "in_view (gp_a problem_example) 2 1"
    by (simp_all add: in_view_def problem_example_def view_example_def)
  then show "element_span (gp_a problem_example) 1 2 \<inter> element_span (gp_a problem_example) 2 1 = {}"
    using valid_problem_memory_safe [OF ok, of "gp_a problem_example" 1 2 2 1] by simp
  show "element_at (gp_a problem_example) 1 2 = 20"
    by (simp add: element_at_def problem_example_def view_example_def element_bytes_of_def)
qed

end
