(* ===== verification/Gemm_Working_Set.thy ===== *)
theory Gemm_Working_Set
  imports Gemm_Problem Access_Plan_Correct "HOL-Library.Product_Lexorder"
begin

text \<open>
  The working set of a tile of the out-of-core matrix product (\<open>append_access\<close>,
  \<open>append_matrix_rectangle\<close>, \<open>fast_normalize_accesses\<close>, \<open>collect_chunks\<close> and
  \<open>enumerate_tile_working_set\<close> of src/src/gemm/planner.cpp): the byte ranges a tile touches, merged and
  ordered, and the chunks that hold them.

  The specification says which bytes the elements of the tile occupy; the lemmas follow the code from
  the segments of a rectangle over the normalisation to the chunks. \<open>None\<close> as the result of
  \<open>enumerate_tile_working_set\<close> would be a call that does not return; it is shown not to occur.
\<close>

section \<open>Data\<close>

datatype beta_mode = User_beta | Accumulate_one

record workspace_signature =
  ws_a_type :: element_type
  ws_b_type :: element_type
  ws_c_type :: element_type
  ws_compute_mode :: compute_mode
  ws_tile_m :: u64
  ws_tile_n :: u64
  ws_tile_k :: u64
  ws_workspace_limit_bytes :: u64

record algorithm_signature =
  as_a_layout :: matrix_layout
  as_b_layout :: matrix_layout
  as_c_layout :: matrix_layout
  as_a_operation :: matrix_operation
  as_b_operation :: matrix_operation
  as_a_leading_dimension :: u64
  as_b_leading_dimension :: u64
  as_c_leading_dimension :: u64
  as_a_alignment_bytes :: u16
  as_b_alignment_bytes :: u16
  as_c_alignment_bytes :: u16
  as_workspace :: workspace_signature

definition workspace_signature_default :: workspace_signature where
  "workspace_signature_default =
     \<lparr>ws_a_type = Fp32, ws_b_type = Fp32, ws_c_type = Fp32, ws_compute_mode = Fast_tf32,
      ws_tile_m = 0, ws_tile_n = 0, ws_tile_k = 0, ws_workspace_limit_bytes = 0\<rparr>"

definition algorithm_signature_default :: algorithm_signature where
  "algorithm_signature_default =
     \<lparr>as_a_layout = Row_major, as_b_layout = Row_major, as_c_layout = Row_major,
      as_a_operation = Operation_none, as_b_operation = Operation_none,
      as_a_leading_dimension = 0, as_b_leading_dimension = 0, as_c_leading_dimension = 0,
      as_a_alignment_bytes = 0, as_b_alignment_bytes = 0, as_c_alignment_bytes = 0,
      as_workspace = workspace_signature_default\<rparr>"

record gemm_tile =
  gt_sequence :: u64
  gt_m_begin :: u64
  gt_n_begin :: u64
  gt_k_begin :: u64
  gt_m_count :: u64
  gt_n_count :: u64
  gt_k_count :: u64
  gt_beta_mode :: beta_mode
  gt_c_access_mode :: access_mode
  gt_resident_bytes :: u64
  gt_chunk_count :: u64
  gt_access_range_count :: u64
  gt_algorithm_signature :: algorithm_signature

datatype working_set_error =
    Wse_none | Wse_invalid_problem | Wse_invalid_tile | Wse_invalid_chunk_size | Wse_range_overflow
  | Wse_too_many_ranges | Wse_access_normalization_failed | Wse_resident_size_overflow

fun working_set_error_name :: "working_set_error \<Rightarrow> string" where
  "working_set_error_name Wse_none = ''none''"
| "working_set_error_name Wse_invalid_problem = ''invalid_problem''"
| "working_set_error_name Wse_invalid_tile = ''invalid_tile''"
| "working_set_error_name Wse_invalid_chunk_size = ''invalid_chunk_size''"
| "working_set_error_name Wse_range_overflow = ''range_overflow''"
| "working_set_error_name Wse_too_many_ranges = ''too_many_ranges''"
| "working_set_error_name Wse_access_normalization_failed = ''access_normalization_failed''"
| "working_set_error_name Wse_resident_size_overflow = ''resident_size_overflow''"

record working_set_result =
  wr_error :: working_set_error
  wr_accesses :: "access_range list"
  wr_chunks :: "chunk_key list"
  wr_resident_bytes :: u64

definition working_set_failure :: "working_set_error \<Rightarrow> working_set_result" where
  "working_set_failure e = \<lparr>wr_error = e, wr_accesses = [], wr_chunks = [], wr_resident_bytes = 0\<rparr>"

section \<open>The ranges of a rectangle\<close>

definition mergeable :: "access_range \<Rightarrow> access_range \<Rightarrow> bool" where
  "mergeable previous access \<longleftrightarrow>
     ar_allocation_id previous = ar_allocation_id access \<and> ar_mode previous = ar_mode access \<and>
     checked_add (ar_offset_bytes previous) (ar_length_bytes previous) = Some (ar_offset_bytes access) \<and>
     checked_add (ar_length_bytes previous) (ar_length_bytes access) \<noteq> None"

definition append_range ::
    "access_range list \<Rightarrow> access_range \<Rightarrow> u64 \<Rightarrow> access_range list option" where
  "append_range ranges access maximum_ranges =
     (if ranges \<noteq> [] \<and> mergeable (last ranges) access
      then Some (butlast ranges @
             [(last ranges)\<lparr>ar_length_bytes :=
                the (checked_add (ar_length_bytes (last ranges)) (ar_length_bytes access))\<rparr>])
      else if length ranges \<ge> unat maximum_ranges then None
      else Some (ranges @ [access]))"

definition physical :: "matrix_operation \<Rightarrow> u64 \<Rightarrow> u64 \<Rightarrow> u64" where
  "physical operation x y = (if operation = Operation_none then x else y)"

text \<open>The byte offset of one segment: five checked steps, any of which may overflow.\<close>

definition segment_offset :: "matrix_view \<Rightarrow> u64 \<Rightarrow> u64 \<Rightarrow> u64 \<Rightarrow> u64 \<Rightarrow> u64 option" where
  "segment_offset matrix element_bytes physical_row physical_column segment =
     (let row_major = (mv_layout matrix = Row_major);
          minor = (if row_major then physical_column else physical_row)
      in do {
           major \<leftarrow> checked_add (if row_major then physical_row else physical_column) segment;
           element_index \<leftarrow> checked_multiply major (mv_leading_dimension matrix);
           element_index \<leftarrow> checked_add element_index minor;
           byte_offset \<leftarrow> checked_multiply element_index element_bytes;
           checked_add (mv_offset_bytes matrix) byte_offset
         })"

function append_segments ::
    "matrix_view \<Rightarrow> u64 \<Rightarrow> u64 \<Rightarrow> u64 \<Rightarrow> u64 \<Rightarrow> access_mode \<Rightarrow> u64 \<Rightarrow> u64 \<Rightarrow> u64 \<Rightarrow> access_range list \<Rightarrow>
     working_set_error + access_range list" where
  "append_segments matrix element_bytes row column segment_bytes mode maximum_ranges segments segment ranges =
     (if segment < segments then
        (case segment_offset matrix element_bytes row column segment of
           None \<Rightarrow> Inl Wse_range_overflow
         | Some byte_offset \<Rightarrow>
             (case append_range ranges
                     \<lparr>ar_allocation_id = mv_allocation_id matrix, ar_offset_bytes = byte_offset,
                      ar_length_bytes = segment_bytes, ar_mode = mode\<rparr> maximum_ranges of
                None \<Rightarrow> Inl Wse_too_many_ranges
              | Some ranges \<Rightarrow>
                  append_segments matrix element_bytes row column segment_bytes mode maximum_ranges segments
                    (segment + 1) ranges))
      else Inr ranges)"
  by pat_completeness auto
termination
proof (relation "measure (\<lambda>(_, _, _, _, _, _, _, segments, segment, _). unat segments - unat segment)", goal_cases)
  case (2 matrix element_bytes row column segment_bytes mode maximum_ranges segments segment)
  then have "unat segment < unat segments" by (simp add: word_less_nat_alt)
  then show ?case using unat_u64_bound [of segments] by (simp add: unat_add_u64)
qed simp

declare append_segments.simps [simp del]

definition append_matrix_rectangle ::
    "matrix_view \<Rightarrow> matrix_operation \<Rightarrow> u64 \<Rightarrow> u64 \<Rightarrow> u64 \<Rightarrow> u64 \<Rightarrow> access_mode \<Rightarrow> u64 \<Rightarrow> access_range list \<Rightarrow>
     working_set_error + access_range list" where
  "append_matrix_rectangle matrix operation logical_row logical_rows logical_column logical_columns mode
       maximum_ranges ranges =
     (let (operated_rows, operated_columns) = operated_shape matrix operation;
          row_end = checked_add logical_row logical_rows;
          column_end = checked_add logical_column logical_columns
      in if logical_rows = 0 \<or> logical_columns = 0 \<or> row_end = None \<or> column_end = None \<or>
            the row_end > operated_rows \<or> the column_end > operated_columns
         then Inl Wse_invalid_tile
         else
           let physical_row = physical operation logical_row logical_column;
               physical_rows = physical operation logical_rows logical_columns;
               physical_column = physical operation logical_column logical_row;
               physical_columns = physical operation logical_columns logical_rows;
               element_bytes = the (element_size_bytes (mv_element_type matrix));
               row_major = (mv_layout matrix = Row_major);
               segments = (if row_major then physical_rows else physical_columns);
               segment_elements = (if row_major then physical_columns else physical_rows)
           in case checked_multiply segment_elements element_bytes of
                None \<Rightarrow> Inl Wse_range_overflow
              | Some segment_bytes \<Rightarrow>
                  append_segments matrix element_bytes physical_row physical_column segment_bytes mode
                    maximum_ranges segments 0 ranges)"

definition allocation_layouts :: "gemm_problem \<Rightarrow> allocation_layout list" where
  "allocation_layouts problem =
     fold (\<lambda>matrix layouts.
         if list_ex (\<lambda>layout. al_id layout = mv_allocation_id matrix) layouts then layouts
         else layouts @ [\<lparr>al_id = mv_allocation_id matrix, al_size_bytes = mv_allocation_bytes matrix\<rparr>])
       [gp_a problem, gp_b problem, gp_c problem] []"

section \<open>Normalisation\<close>

text \<open>The modes are compared by their position in the enumeration.\<close>

fun mode_rank :: "access_mode \<Rightarrow> nat" where
  "mode_rank Read = 0"
| "mode_rank Read_write = 1"
| "mode_rank Write_only = 2"
| "mode_rank Mode_out_of_range = 3"

definition access_key :: "access_range \<Rightarrow> allocation_id \<times> u64 \<times> u64 \<times> nat" where
  "access_key a = (ar_allocation_id a, ar_offset_bytes a, ar_length_bytes a, mode_rank (ar_mode a))"

text \<open>The loop of \<open>fast_normalize_accesses\<close>; \<open>None\<close> stands for \<open>requires_general_normalizer\<close>.\<close>

fun fast_normalize_loop :: "access_range list \<Rightarrow> access_range list \<Rightarrow> access_range list option" where
  "fast_normalize_loop [] ranges = Some ranges"
| "fast_normalize_loop (access # accesses) ranges =
     (if ranges = [] \<or> ar_allocation_id (last ranges) \<noteq> ar_allocation_id access
      then fast_normalize_loop accesses (ranges @ [access])
      else
        let previous = last ranges;
            previous_end = ar_offset_bytes previous + ar_length_bytes previous;
            access_end = ar_offset_bytes access + ar_length_bytes access
        in if ar_offset_bytes access < previous_end \<and> ar_mode previous \<noteq> ar_mode access then None
           else if ar_mode previous = ar_mode access \<and> ar_offset_bytes access \<le> previous_end
           then fast_normalize_loop accesses
                  (butlast ranges @
                   [previous\<lparr>ar_length_bytes := max previous_end access_end - ar_offset_bytes previous\<rparr>])
           else fast_normalize_loop accesses (ranges @ [access]))"

definition fast_normalize_accesses :: "access_range list \<Rightarrow> access_range list option" where
  "fast_normalize_accesses accesses = fast_normalize_loop (sort_key access_key accesses) []"

function chunk_run :: "allocation_id \<Rightarrow> u64 \<Rightarrow> u64 \<Rightarrow> chunk_key list \<Rightarrow> chunk_key list option" where
  "chunk_run i chunk last_chunk chunks =
     (let chunks = chunks @ [ChunkKey i chunk]
      in if chunk = last_chunk then Some chunks
         else if chunk = max_u64 then None
         else chunk_run i (chunk + 1) last_chunk chunks)"
  by pat_completeness auto
termination
proof (relation "measure (\<lambda>(_, chunk, _, _). 18446744073709551615 - unat chunk)", goal_cases)
  case (2 i chunk last_chunk chunks)
  then have "unat chunk < 18446744073709551615"
    using unat_u64_le [of chunk] by (auto simp: unat_eq_iff_u64 unat_max_u64)
  then show ?case by (simp add: unat_add_u64)
qed simp

declare chunk_run.simps [simp del]

fun collect_chunks_loop :: "u64 \<Rightarrow> access_range list \<Rightarrow> chunk_key list \<Rightarrow> chunk_key list option" where
  "collect_chunks_loop chunk_bytes [] chunks = Some chunks"
| "collect_chunks_loop chunk_bytes (access # accesses) chunks =
     Option.bind
       (chunk_run (ar_allocation_id access) (ar_offset_bytes access div chunk_bytes)
          ((ar_offset_bytes access + ar_length_bytes access - 1) div chunk_bytes) chunks)
       (collect_chunks_loop chunk_bytes accesses)"

definition collect_chunks :: "access_range list \<Rightarrow> u64 \<Rightarrow> chunk_key list option" where
  "collect_chunks accesses chunk_bytes =
     map_option (\<lambda>chunks. remdups_adj (sort chunks)) (collect_chunks_loop chunk_bytes accesses [])"

section \<open>The working set of a tile\<close>

definition tile_in_problem :: "gemm_problem \<Rightarrow> gemm_tile \<Rightarrow> bool" where
  "tile_in_problem problem tile \<longleftrightarrow>
     \<not> (gt_m_count tile = 0 \<or> gt_n_count tile = 0 \<or> gt_k_count tile = 0 \<or>
        gt_m_begin tile \<ge> gp_m problem \<or> gt_n_begin tile \<ge> gp_n problem \<or> gt_k_begin tile \<ge> gp_k problem \<or>
        gt_m_count tile > gp_m problem - gt_m_begin tile \<or>
        gt_n_count tile > gp_n problem - gt_n_begin tile \<or>
        gt_k_count tile > gp_k problem - gt_k_begin tile)"

definition result_access_mode :: "gemm_problem \<Rightarrow> u64 \<Rightarrow> access_mode" where
  "result_access_mode problem k_begin =
     (if k_begin = 0 \<and> double_is_zero (gp_beta problem) then Write_only else Read_write)"

definition raw_accesses ::
    "gemm_problem \<Rightarrow> gemm_tile \<Rightarrow> u64 \<Rightarrow> working_set_error + access_range list" where
  "raw_accesses problem tile maximum_access_ranges =
     (case append_matrix_rectangle (gp_a problem) (gp_a_operation problem) (gt_m_begin tile) (gt_m_count tile)
             (gt_k_begin tile) (gt_k_count tile) Read maximum_access_ranges [] of
        Inl e \<Rightarrow> Inl e
      | Inr raw \<Rightarrow>
          (case append_matrix_rectangle (gp_b problem) (gp_b_operation problem) (gt_k_begin tile)
                  (gt_k_count tile) (gt_n_begin tile) (gt_n_count tile) Read maximum_access_ranges raw of
             Inl e \<Rightarrow> Inl e
           | Inr raw \<Rightarrow>
               append_matrix_rectangle (gp_c problem) Operation_none (gt_m_begin tile) (gt_m_count tile)
                 (gt_n_begin tile) (gt_n_count tile) (result_access_mode problem (gt_k_begin tile))
                 maximum_access_ranges raw))"

text \<open>The last step: the size of the chunks, or a refusal that clears the result.\<close>

definition finish_working_set :: "u64 \<Rightarrow> access_range list \<Rightarrow> chunk_key list \<Rightarrow> working_set_result" where
  "finish_working_set chunk_bytes accesses chunks =
     (case checked_multiply (of_nat (length chunks)) chunk_bytes of
        None \<Rightarrow> working_set_failure Wse_resident_size_overflow
      | Some resident \<Rightarrow>
          \<lparr>wr_error = Wse_none, wr_accesses = accesses, wr_chunks = chunks, wr_resident_bytes = resident\<rparr>)"

definition enumerate_tile_working_set ::
    "gemm_problem \<Rightarrow> gemm_tile \<Rightarrow> u64 \<Rightarrow> u64 \<Rightarrow> working_set_result option" where
  "enumerate_tile_working_set problem tile chunk_bytes maximum_access_ranges =
     (if pv_error (validate_problem problem) \<noteq> Pe_none then Some (working_set_failure Wse_invalid_problem)
      else if chunk_bytes = 0 then Some (working_set_failure Wse_invalid_chunk_size)
      else if maximum_access_ranges = 0 \<or> \<not> tile_in_problem problem tile
      then Some (working_set_failure Wse_invalid_tile)
      else
        case raw_accesses problem tile maximum_access_ranges of
          Inl e \<Rightarrow> Some (working_set_failure e)
        | Inr raw \<Rightarrow>
            (case fast_normalize_accesses raw of
               Some ranges \<Rightarrow>
                 (case collect_chunks ranges chunk_bytes of
                    None \<Rightarrow> Some (working_set_failure Wse_resident_size_overflow)
                  | Some chunks \<Rightarrow> Some (finish_working_set chunk_bytes ranges chunks))
             | None \<Rightarrow>
                 (case normalize_and_split_accesses (allocation_layouts problem) raw chunk_bytes of
                    None \<Rightarrow> None
                  | Some normalized \<Rightarrow>
                      if apr_error normalized \<noteq> Ape_none
                      then Some (working_set_failure Wse_access_normalization_failed)
                      else Some (finish_working_set chunk_bytes (apr_normalized_ranges normalized)
                             (map cp_key (apr_chunks normalized))))))"

section \<open>The bytes of a rectangle\<close>

definition stored_at :: "matrix_view \<Rightarrow> nat \<Rightarrow> nat \<Rightarrow> nat" where
  "stored_at M major minor =
     unat (mv_offset_bytes M) + (major * unat (mv_leading_dimension M) + minor) * element_bytes_of M"

definition stored_span :: "matrix_view \<Rightarrow> nat \<Rightarrow> nat \<Rightarrow> nat set" where
  "stored_span M major minor = {stored_at M major minor ..< stored_at M major minor + element_bytes_of M}"

lemma stored_at_element:
  "element_at M r c = (if mv_layout M = Row_major then stored_at M r c else stored_at M c r)"
  by (simp add: element_at_def stored_at_def)

text \<open>Consecutive elements of a segment follow one another without gaps.\<close>

lemma segment_union:
  "{stored_at M j i ..< stored_at M j i + n * element_bytes_of M} = (\<Union>k<n. stored_span M j (i + k))"
proof (induction n)
  case (Suc n)
  have "stored_at M j (i + n) = stored_at M j i + n * element_bytes_of M"
    by (simp add: stored_at_def algebra_simps)
  then have "{stored_at M j i ..< stored_at M j i + Suc n * element_bytes_of M} =
      {stored_at M j i ..< stored_at M j i + n * element_bytes_of M} \<union> stored_span M j (i + n)"
    by (auto simp: stored_span_def)
  then show ?case using Suc by (simp add: lessThan_Suc Un_commute)
qed simp

lemma append_range_touched:
  assumes "append_range rs r mx = Some rs'" and wf: "\<forall>x\<in>set rs. range_wf x" "range_wf r"
  shows "(\<forall>x\<in>set rs'. range_wf x) \<and>
    (touched rs' a p m \<longleftrightarrow> touched rs a p m \<or> (ar_allocation_id r = a \<and> covers r p \<and> ar_mode r = m))"
proof (cases "rs \<noteq> [] \<and> mergeable (last rs) r")
  case True
  then obtain xs l where rs: "rs = xs @ [l]" by (cases rs rule: rev_cases) auto
  have l: "range_wf l" using wf rs by simp
  have m: "mergeable l r" using True rs by simp
  then obtain s where s: "checked_add (ar_length_bytes l) (ar_length_bytes r) = Some s"
    by (auto simp: mergeable_def)
  then have us: "unat s = unat (ar_length_bytes l) + unat (ar_length_bytes r)"
    by (simp add: checked_add_Some_iff)
  have off: "unat (ar_offset_bytes r) = unat (ar_offset_bytes l) + unat (ar_length_bytes l)"
    using m by (simp add: mergeable_def checked_add_Some_iff)
  have rs': "rs' = xs @ [l\<lparr>ar_length_bytes := s\<rparr>]"
    using assms(1) True rs s by (simp add: append_range_def)
  show ?thesis
    using wf l m us off unfolding rs' rs
    by (auto simp: touched_Cons covers_def range_wf_def mergeable_def)
next
  case False
  then have "rs' = rs @ [r]"
    using assms(1) unfolding append_range_def if_not_P [OF False] by (simp split: if_splits)
  then show ?thesis using wf by (auto simp: touched_Cons)
qed

lemma segment_offset_exact:
  assumes ok: "view_ok M" and e: "element_size_bytes (mv_element_type M) = Some e"
    and major: "(if mv_layout M = Row_major then row else column) = x"
    and minor: "(if mv_layout M = Row_major then column else row) = y"
    and bound: "unat x + unat s < unat (major_count M)" "unat y < unat (minor_count M)"
  shows "\<exists>o'. segment_offset M e row column s = Some o' \<and> unat o' = stored_at M (unat x + unat s) (unat y)"
proof -
  let ?ld = "unat (mv_leading_dimension M)"
  have eb: "element_bytes_of M = unat e" using e by (simp add: element_bytes_of_def)
  have pos: "0 < unat e" using element_bytes_Some [OF e] by auto
  define i where "i = (unat x + unat s) * ?ld"
  have "unat x + unat s \<le> unat (major_count M) - 1" using bound(1) by simp
  then have "i \<le> (unat (major_count M) - 1) * ?ld" by (simp add: i_def)
  then have le1: "i + unat y \<le> (unat (major_count M) - 1) * ?ld + unat (minor_count M)"
    using bound(2) by simp
  then have "(i + unat y) * unat e \<le> ((unat (major_count M) - 1) * ?ld + unat (minor_count M)) * unat e"
    by (rule mult_le_mono1)
  then have le2: "unat (mv_offset_bytes M) + (i + unat y) * unat e \<le> storage_end_of M"
    by (simp add: storage_end_of_def eb)
  have "storage_end_of M \<le> unat (mv_allocation_bytes M)" using ok by (simp add: view_ok_def)
  then have lt: "unat (mv_offset_bytes M) + (i + unat y) * unat e < 18446744073709551616"
    using le2 unat_u64_bound [of "mv_allocation_bytes M"] by linarith
  have "i + unat y \<le> (i + unat y) * unat e" using pos by simp
  then have b: "i < 18446744073709551616" "i + unat y < 18446744073709551616"
    "(i + unat y) * unat e < 18446744073709551616"
    using lt by linarith+
  have sum: "unat x + unat s < 18446744073709551616"
    using bound(1) unat_u64_bound [of "major_count M"] by linarith
  note u = b [THEN unat_of_nat_u64] lt [THEN unat_of_nat_u64] sum [THEN unat_of_nat_u64]
  have 1: "checked_add x s = Some (of_nat (unat x + unat s))"
    unfolding checked_add_Some_iff u using sum by simp
  have 2: "checked_multiply (of_nat (unat x + unat s)) (mv_leading_dimension M) = Some (of_nat i)"
    unfolding checked_multiply_Some_iff u i_def [symmetric] using b by simp
  have 3: "checked_add (of_nat i) y = Some (of_nat (i + unat y))"
    unfolding checked_add_Some_iff u using b by simp
  have 4: "checked_multiply (of_nat (i + unat y)) e = Some (of_nat ((i + unat y) * unat e))"
    unfolding checked_multiply_Some_iff u using b by simp
  have 5: "checked_add (mv_offset_bytes M) (of_nat ((i + unat y) * unat e)) =
      Some (of_nat (unat (mv_offset_bytes M) + (i + unat y) * unat e))"
    unfolding checked_add_Some_iff u using lt by simp
  have "segment_offset M e row column s = Some (of_nat (unat (mv_offset_bytes M) + (i + unat y) * unat e))"
    unfolding segment_offset_def Let_def major minor by (simp only: 1 2 3 4 5 bind.bind_lunit)
  moreover have "stored_at M (unat x + unat s) (unat y) = unat (mv_offset_bytes M) + (i + unat y) * unat e"
    by (simp add: stored_at_def i_def eb)
  ultimately show ?thesis using u(4) by auto
qed

text \<open>A rectangle in terms of the stored matrix: majors from \<open>x\<close>, minors from \<open>y\<close>.\<close>

definition stored_rectangle :: "matrix_view \<Rightarrow> nat \<Rightarrow> nat \<Rightarrow> nat \<Rightarrow> nat \<Rightarrow> nat set" where
  "stored_rectangle M x xs y ys = (\<Union>j\<in>{x..<x + xs}. \<Union>k<ys. stored_span M j (y + k))"

lemma append_segments_exact:
  assumes ok: "view_ok M" and e: "element_size_bytes (mv_element_type M) = Some e"
    and major: "(if mv_layout M = Row_major then row else column) = x"
    and minor: "(if mv_layout M = Row_major then column else row) = y"
    and bound: "unat x + unat xs \<le> unat (major_count M)" "unat y + ys \<le> unat (minor_count M)"
    and bytes: "unat len = ys * unat e" "0 < ys" and mode: "md \<noteq> Mode_out_of_range"
    and wf: "\<forall>r\<in>set ranges. range_wf r" and s: "unat s \<le> unat xs"
  shows "case append_segments M e row column len md mx xs s ranges of
      Inl err \<Rightarrow> err = Wse_too_many_ranges
    | Inr ranges' \<Rightarrow> (\<forall>r\<in>set ranges'. range_wf r) \<and>
        (\<forall>a p m. touched ranges' a p m \<longleftrightarrow> touched ranges a p m \<or>
          (a = mv_allocation_id M \<and> m = md \<and>
           p \<in> stored_rectangle M (unat x + unat s) (unat xs - unat s) (unat y) ys))"
  using wf s
proof (induction "unat xs - unat s" arbitrary: s ranges)
  case 0
  then have "\<not> s < xs" by (simp add: word_less_nat_alt)
  then show ?case using 0 by (subst append_segments.simps) (simp add: stored_rectangle_def)
next
  case (Suc n)
  have less: "s < xs" "unat s < unat xs" using Suc.hyps(2) by (simp_all add: word_less_nat_alt)
  have s1: "unat (s + 1) = Suc (unat s)"
    using less(2) unat_u64_bound [of xs] by (simp add: unat_add_u64)
  have eb: "element_bytes_of M = unat e" using e by (simp add: element_bytes_of_def)
  have pos: "0 < unat e" using element_bytes_Some [OF e] by auto
  obtain off where off: "segment_offset M e row column s = Some off"
    "unat off = stored_at M (unat x + unat s) (unat y)"
    using segment_offset_exact [OF ok e major minor, of s] bound less(2) bytes(2) by auto
  let ?r = "\<lparr>ar_allocation_id = mv_allocation_id M, ar_offset_bytes = off, ar_length_bytes = len, ar_mode = md\<rparr>"
  let ?j = "unat x + unat s" and ?ld = "unat (mv_leading_dimension M)"
  have covers: "covers ?r p \<longleftrightarrow> p \<in> (\<Union>k<ys. stored_span M ?j (unat y + k))" for p
    using off(2) bytes(1) by (simp add: covers_def eb segment_union [symmetric])
  have wfr: "range_wf ?r"
  proof -
    have "?j \<le> unat (major_count M) - 1" using bound(1) less(2) by simp
    then have "?j * ?ld + unat y + ys \<le> (unat (major_count M) - 1) * ?ld + unat (minor_count M)"
      using mult_le_mono1 [of ?j "unat (major_count M) - 1" ?ld] bound(2) by linarith
    then have "(?j * ?ld + unat y + ys) * unat e \<le>
        ((unat (major_count M) - 1) * ?ld + unat (minor_count M)) * unat e" by (rule mult_le_mono1)
    then have "unat off + unat len \<le> storage_end_of M"
      using off(2) bytes(1) by (simp add: stored_at_def storage_end_of_def eb algebra_simps)
    moreover have "storage_end_of M \<le> unat (mv_allocation_bytes M)" using ok by (simp add: view_ok_def)
    ultimately show ?thesis
      using bytes pos unat_u64_bound [of "mv_allocation_bytes M"] by (simp add: range_wf_def)
  qed
  have rect: "stored_rectangle M ?j (unat xs - unat s) (unat y) ys =
      (\<Union>k<ys. stored_span M ?j (unat y + k)) \<union>
      stored_rectangle M (unat x + unat (s + 1)) (unat xs - unat (s + 1)) (unat y) ys"
  proof -
    have "{?j..<?j + (unat xs - unat s)} = insert ?j {unat x + unat (s + 1)..<unat x + unat (s + 1) + (unat xs - unat (s + 1))}"
      using less(2) s1 by auto
    then show ?thesis unfolding stored_rectangle_def by simp
  qed
  show ?case
  proof (cases "append_range ranges ?r mx")
    case None
    then show ?thesis using less off by (subst append_segments.simps) simp
  next
    case (Some ranges')
    note t = append_range_touched [OF Some Suc.prems(1) wfr]
    have run: "append_segments M e row column len md mx xs s ranges =
        append_segments M e row column len md mx xs (s + 1) ranges'"
      using less off Some by (subst append_segments.simps) simp
    show ?thesis
      unfolding run rect Un_iff covers [symmetric]
      using Suc.hyps(1) [of "s + 1" ranges'] Suc.hyps(2) t s1 less(2)
      by (auto split: sum.splits)
  qed
qed

section \<open>What a tile reads and writes\<close>

text \<open>The bytes of an element of an operand, by its row and column after the operation.\<close>

definition operand_span :: "matrix_view \<Rightarrow> matrix_operation \<Rightarrow> nat \<Rightarrow> nat \<Rightarrow> nat set" where
  "operand_span M operation i j =
     (if operation = Operation_none then element_span M i j else element_span M j i)"

definition operand_rectangle :: "matrix_view \<Rightarrow> matrix_operation \<Rightarrow> u64 \<Rightarrow> u64 \<Rightarrow> u64 \<Rightarrow> u64 \<Rightarrow> nat set" where
  "operand_rectangle M operation i is j js =
     (\<Union>i'\<in>{unat i ..< unat i + unat is}. \<Union>j'\<in>{unat j ..< unat j + unat js}. operand_span M operation i' j')"

lemma stored_operand:
  fixes i "is" j js :: u64 and M :: matrix_view and op :: matrix_operation
  defines "row \<equiv> mv_layout M = Row_major" and "plain \<equiv> op = Operation_none"
  shows "stored_rectangle M
      (unat (if row then physical op i j else physical op j i)) (unat (if row then physical op is js else physical op js is))
      (unat (if row then physical op j i else physical op i j)) (unat (if row then physical op js is else physical op is js)) =
    operand_rectangle M op i is j js"
proof -
  have shift: "(\<Union>k<(n::nat). f (y + k)) = (\<Union>l\<in>{y..<y + n}. f l)" for f :: "nat \<Rightarrow> nat set" and y n
  proof -
    have "{y..<y + n} = (+) y ` {..<n}" by (simp add: lessThan_atLeast0 add.commute)
    then show ?thesis by simp
  qed
  have swap: "(\<Union>a\<in>A. \<Union>b\<in>B. f a b) = (\<Union>b\<in>B. \<Union>a\<in>A. f a b)" for A B :: "nat set" and f :: "nat \<Rightarrow> nat \<Rightarrow> nat set"
    by blast
  have stored: "stored_rectangle M x xs y ys = (\<Union>j\<in>{x..<x + xs}. \<Union>l\<in>{y..<y + ys}. stored_span M j l)"
    for x xs y ys
    unfolding stored_rectangle_def shift [of "stored_span M _", symmetric] ..
  note defs = stored operand_rectangle_def operand_span_def physical_def
  show ?thesis
  proof (cases row)
    case True
    then have span: "stored_span M a b = element_span M a b" for a b
      by (simp add: stored_span_def element_span_def stored_at_element row_def)
    show ?thesis
    proof (cases plain)
      case False
      then show ?thesis using True unfolding plain_def
        by (simp only: defs span if_True if_False simp_thms) (rule swap)
    qed (use True in \<open>simp only: plain_def defs span if_True simp_thms\<close>)
  next
    case False
    then have span: "stored_span M a b = element_span M b a" for a b
      by (simp add: stored_span_def element_span_def stored_at_element row_def)
    show ?thesis
    proof (cases plain)
      case True
      then show ?thesis using False unfolding plain_def
        by (simp only: defs span if_True if_False simp_thms) (rule swap)
    qed (use False in \<open>simp only: plain_def defs span if_False simp_thms\<close>)
  qed
qed

lemma append_matrix_rectangle_exact:
  assumes ok: "view_ok M" and op: "is_valid_operation op" and md: "md \<noteq> Mode_out_of_range"
    and wf: "\<forall>r\<in>set ranges. range_wf r"
    and shape: "operated_shape M op = (rows, columns)"
    and i: "0 < unat is" "unat i + unat is \<le> unat rows" and j: "0 < unat js" "unat j + unat js \<le> unat columns"
  shows "case append_matrix_rectangle M op i is j js md mx ranges of
      Inl err \<Rightarrow> err = Wse_too_many_ranges
    | Inr ranges' \<Rightarrow> (\<forall>r\<in>set ranges'. range_wf r) \<and>
        (\<forall>a p m. touched ranges' a p m \<longleftrightarrow> touched ranges a p m \<or>
          (a = mv_allocation_id M \<and> m = md \<and> p \<in> operand_rectangle M op i is j js))"
proof -
  obtain e where e: "element_size_bytes (mv_element_type M) = Some e" "unat e = element_bytes_of M"
    using ok element_bytes_of_eq by (auto simp: view_ok_def)
  let ?row = "mv_layout M = Row_major"
  define x where "x = (if ?row then physical op i j else physical op j i)"
  define xs where "xs = (if ?row then physical op is js else physical op js is)"
  define y where "y = (if ?row then physical op j i else physical op i j)"
  define ys where "ys = (if ?row then physical op js is else physical op is js)"
  have sums: "checked_add i is = Some (i + is)" "checked_add j js = Some (j + js)"
    using i(2) j(2) unat_u64_bound [of rows] unat_u64_bound [of columns]
    by (simp_all add: checked_add_Some_iff unat_add_u64)
  have ends: "checked_add i is \<noteq> None" "checked_add j js \<noteq> None"
    "\<not> the (checked_add i is) > rows" "\<not> the (checked_add j js) > columns"
    using i j unat_u64_bound [of rows] unat_u64_bound [of columns]
    by (simp_all add: sums word_less_nat_alt unat_add_u64)
  have bound: "unat x + unat xs \<le> unat (major_count M)" "unat y + unat ys \<le> unat (minor_count M)"
    using i j shape
    by (auto simp: x_def xs_def y_def ys_def physical_def operated_shape_def major_count_def minor_count_def
        split: if_splits)
  have pos: "0 < unat ys" using i j by (simp add: ys_def physical_def)
  have "unat ys * unat e < 18446744073709551616"
  proof -
    have "unat ys \<le> (unat (major_count M) - 1) * unat (mv_leading_dimension M) + unat (minor_count M)"
      using bound(2) by simp
    then have "unat ys * unat e \<le>
        ((unat (major_count M) - 1) * unat (mv_leading_dimension M) + unat (minor_count M)) * unat e"
      by (rule mult_le_mono1)
    also have "\<dots> \<le> storage_end_of M" by (simp add: storage_end_of_def e(2))
    also have "\<dots> \<le> unat (mv_allocation_bytes M)" using ok by (simp add: view_ok_def)
    finally show ?thesis using unat_u64_bound [of "mv_allocation_bytes M"] by linarith
  qed
  then obtain len where len: "checked_multiply ys e = Some len" "unat len = unat ys * unat e"
    using checked_multiply_None_iff [of ys e] by (cases "checked_multiply ys e") (auto simp: checked_multiply_Some_iff)
  have run: "append_matrix_rectangle M op i is j js md mx ranges =
      append_segments M e (physical op i j) (physical op j i) len md mx xs 0 ranges"
    unfolding append_matrix_rectangle_def shape Let_def prod.case e(1) option.sel
      xs_def [symmetric] ys_def [symmetric]
    using sums ends i j len by (simp add: unat_gt_0_iff)
  have major: "(if ?row then physical op i j else physical op j i) = x" by (simp add: x_def)
  have minor: "(if ?row then physical op j i else physical op i j) = y" by (simp add: y_def)
  have rect: "stored_rectangle M (unat x) (unat xs) (unat y) (unat ys) = operand_rectangle M op i is j js"
    unfolding x_def xs_def y_def ys_def by (rule stored_operand)
  show ?thesis
    using append_segments_exact [OF ok e(1) major minor bound len(2) pos md wf, of 0 mx]
    unfolding run by (simp add: rect split: sum.splits)
qed

text \<open>The bytes a tile reads from the operands, and those of its part of the result.\<close>

definition tile_reads :: "gemm_problem \<Rightarrow> gemm_tile \<Rightarrow> allocation_id \<Rightarrow> nat \<Rightarrow> bool" where
  "tile_reads p t a q \<longleftrightarrow>
     (a = mv_allocation_id (gp_a p) \<and>
      q \<in> operand_rectangle (gp_a p) (gp_a_operation p) (gt_m_begin t) (gt_m_count t) (gt_k_begin t) (gt_k_count t)) \<or>
     (a = mv_allocation_id (gp_b p) \<and>
      q \<in> operand_rectangle (gp_b p) (gp_b_operation p) (gt_k_begin t) (gt_k_count t) (gt_n_begin t) (gt_n_count t))"

definition tile_results :: "gemm_problem \<Rightarrow> gemm_tile \<Rightarrow> allocation_id \<Rightarrow> nat \<Rightarrow> bool" where
  "tile_results p t a q \<longleftrightarrow>
     a = mv_allocation_id (gp_c p) \<and>
     q \<in> operand_rectangle (gp_c p) Operation_none (gt_m_begin t) (gt_m_count t) (gt_n_begin t) (gt_n_count t)"

definition tile_touches :: "gemm_problem \<Rightarrow> gemm_tile \<Rightarrow> allocation_id \<Rightarrow> nat \<Rightarrow> access_mode \<Rightarrow> bool" where
  "tile_touches p t a q m \<longleftrightarrow>
     (m = Read \<and> tile_reads p t a q) \<or>
     (m = result_access_mode p (gt_k_begin t) \<and> tile_results p t a q)"

lemma tile_in_problem_iff:
  "tile_in_problem p t \<longleftrightarrow>
     0 < unat (gt_m_count t) \<and> unat (gt_m_begin t) + unat (gt_m_count t) \<le> unat (gp_m p) \<and>
     0 < unat (gt_n_count t) \<and> unat (gt_n_begin t) + unat (gt_n_count t) \<le> unat (gp_n p) \<and>
     0 < unat (gt_k_count t) \<and> unat (gt_k_begin t) + unat (gt_k_count t) \<le> unat (gp_k p)"
proof -
  have *: "\<not> (c = 0 \<or> b \<ge> d \<or> c > d - b) \<longleftrightarrow> 0 < unat c \<and> unat b + unat c \<le> unat d" for b c d :: u64
  proof (cases "b \<ge> d")
    case True
    then show ?thesis by (auto simp: word_le_nat_alt simp flip: unat_gt_0_iff)
  next
    case False
    then have "unat (d - b) = unat d - unat b" by (intro unat_sub_u64) (simp add: word_le_nat_alt)
    then show ?thesis using False by (auto simp: word_le_nat_alt word_less_nat_alt unat_gt_0_iff)
  qed
  show ?thesis
    using * [of "gt_m_count t" "gp_m p" "gt_m_begin t"] * [of "gt_n_count t" "gp_n p" "gt_n_begin t"]
      * [of "gt_k_count t" "gp_k p" "gt_k_begin t"]
    unfolding tile_in_problem_def by blast
qed

lemma raw_accesses_exact:
  assumes ok: "problem_ok p" and t: "tile_in_problem p t"
  shows "case raw_accesses p t mx of
      Inl err \<Rightarrow> err = Wse_too_many_ranges
    | Inr raw \<Rightarrow> (\<forall>r\<in>set raw. range_wf r) \<and> (\<forall>a q m. touched raw a q m \<longleftrightarrow> tile_touches p t a q m)"
proof -
  have v: "view_ok (gp_a p)" "view_ok (gp_b p)" "view_ok (gp_c p)"
    "is_valid_operation (gp_a_operation p)" "is_valid_operation (gp_b_operation p)"
    "operated_shape (gp_a p) (gp_a_operation p) = (gp_m p, gp_k p)"
    "operated_shape (gp_b p) (gp_b_operation p) = (gp_k p, gp_n p)"
    "operated_shape (gp_c p) Operation_none = (gp_m p, gp_n p)"
    using ok by (simp_all add: problem_ok_def operated_shape_def)
  note b = t [unfolded tile_in_problem_iff]
  have cm: "result_access_mode p k \<noteq> Mode_out_of_range" for k by (simp add: result_access_mode_def)
  have none: "is_valid_operation Operation_none" by (simp add: is_valid_operation_def)
  note A = append_matrix_rectangle_exact [OF v(1) v(4) _ _ v(6), of Read _ "gt_m_count t" "gt_m_begin t" "gt_k_count t" "gt_k_begin t" mx]
  note B = append_matrix_rectangle_exact [OF v(2) v(5) _ _ v(7), of Read _ "gt_k_count t" "gt_k_begin t" "gt_n_count t" "gt_n_begin t" mx]
  note C = append_matrix_rectangle_exact [OF v(3) none cm _ v(8), of _ "gt_m_count t" "gt_m_begin t" "gt_n_count t" "gt_n_begin t" "gt_k_begin t" mx]
  show ?thesis
  proof (cases "append_matrix_rectangle (gp_a p) (gp_a_operation p) (gt_m_begin t) (gt_m_count t)
             (gt_k_begin t) (gt_k_count t) Read mx []")
    case (Inl e)
    then show ?thesis using A [of "[]"] b by (simp add: raw_accesses_def)
  next
    case ra: (Inr ra)
    note a = A [of "[]", unfolded ra] 
    have wa: "\<forall>r\<in>set ra. range_wf r" using a b by simp
    show ?thesis
    proof (cases "append_matrix_rectangle (gp_b p) (gp_b_operation p) (gt_k_begin t) (gt_k_count t)
             (gt_n_begin t) (gt_n_count t) Read mx ra")
      case (Inl e)
      then show ?thesis using B [of ra] wa b ra by (simp add: raw_accesses_def)
    next
      case rb: (Inr rb)
      have wb: "\<forall>r\<in>set rb. range_wf r" using B [of ra, unfolded rb] wa b by simp
      have tb: "touched rb x q m \<longleftrightarrow> m = Read \<and> tile_reads p t x q" for x q m
        using B [of ra, unfolded rb] wa a b by (auto simp: tile_reads_def)
      show ?thesis
        using C [of rb] wb b ra rb tb
        by (auto simp: raw_accesses_def tile_touches_def tile_results_def split: sum.splits)
    qed
  qed
qed

section \<open>Normalisation of the ranges of a tile\<close>

definition begins_before :: "access_range \<Rightarrow> access_range \<Rightarrow> bool" where
  "begins_before x y \<longleftrightarrow> ar_allocation_id x < ar_allocation_id y \<or>
     (ar_allocation_id x = ar_allocation_id y \<and> ar_offset_bytes x \<le> ar_offset_bytes y)"

definition single_mode :: "access_range list \<Rightarrow> bool" where
  "single_mode rs \<longleftrightarrow> (\<forall>a p m m'. touched rs a p m \<longrightarrow> touched rs a p m' \<longrightarrow> m = m')"

lemma sort_begins_before: "sorted_wrt begins_before (sort_key access_key rs)"
proof -
  have "sorted_wrt (\<lambda>x y. access_key x \<le> access_key y) (sort_key access_key rs)"
    using sorted_sort_key [of access_key rs] by (simp add: sorted_map)
  then show ?thesis
    by (rule sorted_wrt_mono_rel [rotated]) (auto simp: access_key_def begins_before_def less_eq_prod_def)
qed

lemma touched_sort_key [simp]: "touched (sort_key f rs) = touched rs"
  by (intro ext) (simp add: touched_def)

lemma range_before_snoc:
  assumes "sorted_wrt range_before (out @ [l])" "range_before l r" "range_wf l"
  shows "sorted_wrt range_before ((out @ [l]) @ [r])"
proof -
  have "range_before x r" if "range_before x l" for x
    using that assms(2,3) by (auto simp: range_before_def range_wf_def)
  then show ?thesis using assms by (auto simp: sorted_wrt_append)
qed

lemma fast_normalize_loop_spec:
  assumes "sorted_wrt begins_before rest" and "\<forall>r\<in>set out \<union> set rest. range_wf r"
    and "\<forall>r\<in>set rest. out \<noteq> [] \<longrightarrow> begins_before (last out) r"
    and "sorted_wrt range_before out" and "single_mode (out @ rest)"
  shows "\<exists>res. fast_normalize_loop rest out = Some res \<and> (\<forall>r\<in>set res. range_wf r) \<and>
    sorted_wrt range_before res \<and> touched res = touched (out @ rest)"
  using assms
proof (induction rest arbitrary: out)
  case (Cons r rest)
  have wf: "range_wf r" using Cons.prems by simp
  have begins: "\<forall>s\<in>set rest. begins_before r s" using Cons.prems(1) by simp
  have sorted: "sorted_wrt begins_before rest" using Cons.prems(1) by simp
  show ?case
  proof (cases "out = []")
    case True
    have "\<exists>res. fast_normalize_loop rest [r] = Some res \<and> (\<forall>r\<in>set res. range_wf r) \<and>
        sorted_wrt range_before res \<and> touched res = touched ([r] @ rest)"
      by (rule Cons.IH [OF sorted]) (use Cons.prems begins True in simp_all)
    then show ?thesis using True by simp
  next
    case False
    then obtain xs l where out: "out = xs @ [l]" by (cases out rule: rev_cases) auto
    have lwf: "range_wf l" and lr: "begins_before l r" using Cons.prems out by simp_all
    have push: ?thesis if run: "fast_normalize_loop (r # rest) out = fast_normalize_loop rest (out @ [r])"
      and "range_before l r"
    proof -
      have "\<exists>res. fast_normalize_loop rest (out @ [r]) = Some res \<and> (\<forall>r\<in>set res. range_wf r) \<and>
          sorted_wrt range_before res \<and> touched res = touched ((out @ [r]) @ rest)"
      proof (rule Cons.IH [OF sorted])
        show "sorted_wrt range_before (out @ [r])"
          using range_before_snoc [of xs l r] Cons.prems(4) that(2) lwf out by simp
      qed (use Cons.prems begins in \<open>simp_all del: touched_append\<close>)
      moreover have "(out @ [r]) @ rest = out @ r # rest" by simp
      ultimately show ?thesis unfolding run by (simp only:)
    qed
    show ?thesis
    proof (cases "ar_allocation_id l = ar_allocation_id r")
      case False
      then have "range_before l r" using lr by (auto simp: begins_before_def range_before_def)
      then show ?thesis using False out by (intro push) simp_all
    next
      case same: True
      have off: "unat (ar_offset_bytes l) \<le> unat (ar_offset_bytes r)"
        using lr same by (simp add: begins_before_def word_le_nat_alt)
      have ends: "unat (ar_offset_bytes l + ar_length_bytes l) = unat (ar_offset_bytes l) + unat (ar_length_bytes l)"
        "unat (ar_offset_bytes r + ar_length_bytes r) = unat (ar_offset_bytes r) + unat (ar_length_bytes r)"
        using lwf wf by (simp_all add: range_wf_def unat_add_u64)
      have noconflict: "\<not> (ar_offset_bytes r < ar_offset_bytes l + ar_length_bytes l \<and> ar_mode l \<noteq> ar_mode r)"
      proof
        assume c: "ar_offset_bytes r < ar_offset_bytes l + ar_length_bytes l \<and> ar_mode l \<noteq> ar_mode r"
        have "touched (out @ r # rest) (ar_allocation_id r) (unat (ar_offset_bytes r)) (ar_mode l)"
          using c off same ends by (auto simp: out touched_Cons covers_def word_less_nat_alt)
        moreover have "touched (out @ r # rest) (ar_allocation_id r) (unat (ar_offset_bytes r)) (ar_mode r)"
          using wf by (auto simp: touched_Cons covers_def range_wf_def)
        ultimately show False using Cons.prems(5) c unfolding single_mode_def by blast
      qed
      show ?thesis
      proof (cases "ar_mode l = ar_mode r \<and> ar_offset_bytes r \<le> ar_offset_bytes l + ar_length_bytes l")
        case False
        then have "range_before l r"
          using noconflict same ends by (auto simp: range_before_def word_le_nat_alt word_less_nat_alt not_less not_le)
        moreover have "fast_normalize_loop (r # rest) out = fast_normalize_loop rest (out @ [r])"
          using noconflict False same by (auto simp: out Let_def)
        ultimately show ?thesis by (intro push)
      next
        case True
        let ?l = "l\<lparr>ar_length_bytes := max (ar_offset_bytes l + ar_length_bytes l) (ar_offset_bytes r + ar_length_bytes r) - ar_offset_bytes l\<rparr>"
        have len: "unat (ar_length_bytes ?l) =
            max (unat (ar_offset_bytes l) + unat (ar_length_bytes l)) (unat (ar_offset_bytes r) + unat (ar_length_bytes r)) -
            unat (ar_offset_bytes l)"
          using ends off by (simp add: unat_sub_u64 unat_max)
        have wf': "range_wf ?l"
          using lwf wf len by (auto simp: range_wf_def)
        have cov: "covers ?l p \<longleftrightarrow> covers l p \<or> covers r p" for p
          using True off len ends by (auto simp: covers_def word_le_nat_alt)
        have tl: "touched ((xs @ [?l]) @ rest) a p m \<longleftrightarrow> touched (out @ r # rest) a p m" for a p m
          using True same cov by (auto simp: out touched_Cons)
        have before: "range_before x ?l" if "range_before x l" for x
          using that by (auto simp: range_before_def)
        have run: "fast_normalize_loop (r # rest) out = fast_normalize_loop rest (xs @ [?l])"
          using noconflict True same by (simp add: out Let_def)
        have "\<exists>res. fast_normalize_loop rest (xs @ [?l]) = Some res \<and> (\<forall>r\<in>set res. range_wf r) \<and>
            sorted_wrt range_before res \<and> touched res = touched ((xs @ [?l]) @ rest)"
        proof (rule Cons.IH [OF sorted])
          show "sorted_wrt range_before (xs @ [?l])"
            using Cons.prems(4) before by (auto simp: out sorted_wrt_append)
          show "single_mode ((xs @ [?l]) @ rest)"
            using Cons.prems(5) unfolding single_mode_def tl .
          show "\<forall>r\<in>set rest. xs @ [?l] \<noteq> [] \<longrightarrow> begins_before (last (xs @ [?l])) r"
            using Cons.prems(3) by (auto simp: out begins_before_def)
        qed (use Cons.prems(2) wf' out in auto)
        then show ?thesis unfolding run using tl by (metis ext)
      qed
    qed
  qed
qed (auto simp: single_mode_def)

lemma fast_normalize_spec:
  assumes "\<forall>r\<in>set rs. range_wf r" and "single_mode rs"
  shows "\<exists>res. fast_normalize_accesses rs = Some res \<and> (\<forall>r\<in>set res. range_wf r) \<and>
    sorted_wrt range_before res \<and> touched res = touched rs"
  using fast_normalize_loop_spec [of "sort_key access_key rs" "[]"] assms
  by (simp add: fast_normalize_accesses_def sort_begins_before single_mode_def)

section \<open>The chunks of a tile\<close>

lemma chunk_run_spec:
  assumes "unat c \<le> unat l"
  shows "chunk_run i c l cs = Some (cs @ map (\<lambda>n. ChunkKey i (of_nat n)) [unat c ..< Suc (unat l)])"
  using assms
proof (induction i c l cs rule: chunk_run.induct)
  case (1 i c l cs)
  show ?case
  proof (cases "c = l")
    case True
    then show ?thesis by (subst chunk_run.simps) simp
  next
    case False
    then have lt: "unat c < unat l" using 1(2) by (simp add: unat_eq_iff_u64 order.strict_iff_order)
    then have c: "c \<noteq> max_u64" "unat (c + 1) = Suc (unat c)"
      using unat_u64_bound [of l] by (auto simp: unat_max_u64 unat_add_u64)
    have "[unat c..<Suc (unat l)] = unat c # [Suc (unat c)..<Suc (unat l)]"
      using lt by (simp add: upt_conv_Cons)
    then show ?thesis
      using 1(1) [OF refl False c(1)] False c lt by (subst chunk_run.simps) simp
  qed
qed

definition chunk_keys_of :: "u64 \<Rightarrow> access_range list \<Rightarrow> chunk_key set" where
  "chunk_keys_of cb rs = {ChunkKey a c |a c. \<exists>q m. touched rs a q m \<and> unat c = q div unat cb}"

lemma chunk_keys_of_Cons:
  assumes "range_wf r" "0 < unat cb"
  shows "(\<lambda>n. ChunkKey (ar_allocation_id r) (of_nat n)) `
      {unat (ar_offset_bytes r) div unat cb ..< Suc ((unat (ar_offset_bytes r) + unat (ar_length_bytes r) - 1) div unat cb)} \<union>
    chunk_keys_of cb rs = chunk_keys_of cb (r # rs)" (is "?I \<union> _ = _")
proof -
  let ?o = "unat (ar_offset_bytes r)" and ?l = "unat (ar_length_bytes r)"
  have "?I = {ChunkKey (ar_allocation_id r) c |c. \<exists>q. covers r q \<and> unat c = q div unat cb}"
  proof (intro set_eqI iffI)
    fix k assume "k \<in> ?I"
    then obtain n where n: "k = ChunkKey (ar_allocation_id r) (of_nat n)" "?o div unat cb \<le> n"
      "n \<le> (?o + ?l - 1) div unat cb" by auto
    have "n * unat cb \<le> ?o + ?l - 1"
      using n(3) by (metis div_times_less_eq_dividend le_trans mult_le_mono1)
    moreover have "?o < Suc n * unat cb"
      using n(2) assms(2) by (metis dividend_less_div_times le_imp_less_Suc less_le_trans mult.commute mult_le_mono1 Suc_leI add.commute mult_Suc)
    ultimately have "covers r (max ?o (n * unat cb))" "max ?o (n * unat cb) div unat cb = n"
      using assms n(2) by (auto simp: covers_def range_wf_def max_def mult.commute intro!: div_nat_eqI)
    moreover have "n < 18446744073709551616"
      using n(3) assms(1) div_le_dividend [of "?o + ?l - 1" "unat cb"] unfolding range_wf_def by linarith
    ultimately show "k \<in> {ChunkKey (ar_allocation_id r) c |c. \<exists>q. covers r q \<and> unat c = q div unat cb}"
      using n(1) by (auto simp: unat_of_nat_u64)
  next
    fix k assume "k \<in> {ChunkKey (ar_allocation_id r) c |c. \<exists>q. covers r q \<and> unat c = q div unat cb}"
    then obtain c q where k: "k = ChunkKey (ar_allocation_id r) c" "covers r q" "unat c = q div unat cb" by auto
    have "?o div unat cb \<le> unat c" "unat c \<le> (?o + ?l - 1) div unat cb"
      using k(2) unfolding k(3) covers_def by (auto intro!: div_le_mono)
    then show "k \<in> ?I" using k(1) by (intro image_eqI [of _ _ "unat c"]) auto
  qed
  then show ?thesis unfolding chunk_keys_of_def touched_Cons by (simp only:) blast
qed

lemma collect_chunks_loop_spec:
  assumes "\<forall>r\<in>set rs. range_wf r" "0 < unat cb"
  shows "\<exists>res. collect_chunks_loop cb rs cs = Some res \<and> set res = set cs \<union> chunk_keys_of cb rs"
  using assms(1)
proof (induction rs arbitrary: cs)
  case (Cons r rs)
  let ?o = "unat (ar_offset_bytes r)" and ?l = "unat (ar_length_bytes r)"
  have wf: "range_wf r" using Cons.prems by simp
  then have e: "unat (ar_offset_bytes r + ar_length_bytes r) = ?o + ?l" "ar_offset_bytes r + ar_length_bytes r \<noteq> 0"
    by (auto simp: range_wf_def unat_add_u64 simp flip: unat_gt_0_iff)
  then have last: "unat ((ar_offset_bytes r + ar_length_bytes r - 1) div cb) = (?o + ?l - 1) div unat cb"
    by (simp add: unat_div unat_minus_one)
  have first: "unat (ar_offset_bytes r div cb) = ?o div unat cb" by (rule unat_div)
  have "?o div unat cb \<le> (?o + ?l - 1) div unat cb"
    using wf unfolding range_wf_def by (intro div_le_mono) linarith
  then have run: "chunk_run (ar_allocation_id r) (ar_offset_bytes r div cb)
      ((ar_offset_bytes r + ar_length_bytes r - 1) div cb) cs =
      Some (cs @ map (\<lambda>n. ChunkKey (ar_allocation_id r) (of_nat n))
         [?o div unat cb ..< Suc ((?o + ?l - 1) div unat cb)])"
    by (rule chunk_run_spec [of "ar_offset_bytes r div cb"
        "(ar_offset_bytes r + ar_length_bytes r - 1) div cb", unfolded last first])
  define ks where "ks = map (\<lambda>n. ChunkKey (ar_allocation_id r) (of_nat n))
      [?o div unat cb ..< Suc ((?o + ?l - 1) div unat cb)]"
  have ks: "set ks \<union> chunk_keys_of cb rs = chunk_keys_of cb (r # rs)"
    unfolding ks_def set_map set_upt by (rule chunk_keys_of_Cons [OF wf assms(2)])
  obtain res where res: "collect_chunks_loop cb rs (cs @ ks) = Some res"
    "set res = set (cs @ ks) \<union> chunk_keys_of cb rs"
    using Cons by (meson list.set_intros(2))
  have "collect_chunks_loop cb (r # rs) cs = Some res"
    using res(1) by (simp add: run [folded ks_def])
  moreover have "set res = set cs \<union> chunk_keys_of cb (r # rs)"
    using res(2) ks by auto
  ultimately show ?case by blast
qed (simp add: chunk_keys_of_def)

lemma collect_chunks_spec:
  assumes "\<forall>r\<in>set rs. range_wf r" "0 < unat cb"
  shows "\<exists>cs. collect_chunks rs cb = Some cs \<and> sorted_wrt (<) cs \<and> set cs = chunk_keys_of cb rs"
  using collect_chunks_loop_spec [OF assms, of "[]"]
  by (auto simp: collect_chunks_def sorted_remdups_adj_strict)

section \<open>The working set is exact\<close>

lemma rectangle_in_storage:
  assumes "view_ok M" "operated_shape M op = (rows, columns)"
    and "unat i + unat is \<le> unat rows" "unat j + unat js \<le> unat columns"
    and "q \<in> operand_rectangle M op i is j js"
  shows "unat (mv_offset_bytes M) \<le> q \<and> q < storage_end_of M"
proof -
  obtain r c where q: "q \<in> element_span M r c" "in_view M r c"
    using assms(2-5)
    by (auto simp: operand_rectangle_def operand_span_def operated_shape_def in_view_def split: if_splits)
  then show ?thesis
    using element_in_storage [OF assms(1) q(2)] by (auto simp: element_span_def)
qed

text \<open>In a valid problem no byte is both read as an operand and written as a result.\<close>

lemma tile_modes_apart:
  assumes ok: "problem_ok p" and t: "tile_in_problem p t"
  shows "\<not> (tile_reads p t a q \<and> tile_results p t a q)"
proof
  assume rw: "tile_reads p t a q \<and> tile_results p t a q"
  note b = t [unfolded tile_in_problem_iff]
  have c: "operated_shape (gp_c p) Operation_none = (gp_m p, gp_n p)"
    using ok by (simp add: problem_ok_def operated_shape_def)
  have ok': "view_ok (gp_a p)" "view_ok (gp_b p)" "view_ok (gp_c p)"
    "operated_shape (gp_a p) (gp_a_operation p) = (gp_m p, gp_k p)"
    "operated_shape (gp_b p) (gp_b_operation p) = (gp_k p, gp_n p)"
    "ranges_apart (gp_a p) (gp_c p)" "ranges_apart (gp_b p) (gp_c p)"
    using ok by (simp_all add: problem_ok_def)
  have "unat (mv_offset_bytes (gp_c p)) \<le> q \<and> q < storage_end_of (gp_c p)"
    using rw rectangle_in_storage [OF ok'(3) c] b by (auto simp: tile_results_def)
  moreover have "(a = mv_allocation_id (gp_a p) \<and> unat (mv_offset_bytes (gp_a p)) \<le> q \<and> q < storage_end_of (gp_a p)) \<or>
      (a = mv_allocation_id (gp_b p) \<and> unat (mv_offset_bytes (gp_b p)) \<le> q \<and> q < storage_end_of (gp_b p))"
    using rw rectangle_in_storage [OF ok'(1,4)] rectangle_in_storage [OF ok'(2,5)] b
    unfolding tile_reads_def by blast
  ultimately show False
    using ok'(6,7) rw unfolding ranges_apart_def tile_results_def by (elim disjE) auto
qed

text \<open>
  The working set of a valid tile is found without the general normaliser, and its chunks and ranges
  are those of the bytes the tile touches.
\<close>

lemma enumerate_valid:
  assumes ok: "problem_ok p" and t: "tile_in_problem p t" and cb: "chunk_bytes \<noteq> 0" and mx: "mx \<noteq> 0"
    and raw: "raw_accesses p t mx = Inr raw"
  shows "\<exists>rs cs. enumerate_tile_working_set p t chunk_bytes mx = Some (finish_working_set chunk_bytes rs cs) \<and>
    fast_normalize_accesses raw = Some rs \<and> (\<forall>r\<in>set rs. range_wf r) \<and>
    sorted_wrt range_before rs \<and> (\<forall>a q m. touched rs a q m \<longleftrightarrow> tile_touches p t a q m) \<and>
    sorted_wrt (<) cs \<and> set cs = chunk_keys_of chunk_bytes rs"
proof -
  have r: "\<forall>r\<in>set raw. range_wf r" "\<And>a q m. touched raw a q m \<longleftrightarrow> tile_touches p t a q m"
    using raw_accesses_exact [OF ok t, of mx] by (simp_all add: raw)
  have "single_mode raw"
    using tile_modes_apart [OF ok t] by (auto simp: single_mode_def r(2) tile_touches_def)
  then obtain rs where rs: "fast_normalize_accesses raw = Some rs" "\<forall>r\<in>set rs. range_wf r"
    "sorted_wrt range_before rs" "touched rs = touched raw"
    using fast_normalize_spec [OF r(1)] by blast
  obtain cs where cs: "collect_chunks rs chunk_bytes = Some cs" "sorted_wrt (<) cs" "set cs = chunk_keys_of chunk_bytes rs"
    using collect_chunks_spec [OF rs(2), of chunk_bytes] cb by (auto simp: unat_gt_0_iff)
  have "enumerate_tile_working_set p t chunk_bytes mx = Some (finish_working_set chunk_bytes rs cs)"
    using ok t cb mx raw rs cs by (simp add: enumerate_tile_working_set_def validate_problem_iff)
  then show ?thesis using rs cs r(2) by auto
qed

lemma finish_none:
  "wr_error (finish_working_set cb rs cs) = Wse_none \<Longrightarrow>
     finish_working_set cb rs cs =
       \<lparr>wr_error = Wse_none, wr_accesses = rs, wr_chunks = cs,
        wr_resident_bytes = the (checked_multiply (of_nat (length cs)) cb)\<rparr> \<and>
     checked_multiply (of_nat (length cs)) cb \<noteq> None"
  by (auto simp: finish_working_set_def working_set_failure_def split: option.splits)

lemma enumerate_ok:
  assumes "enumerate_tile_working_set p t cb mx = Some ws" "wr_error ws = Wse_none"
  shows "problem_ok p \<and> tile_in_problem p t \<and> cb \<noteq> 0 \<and> mx \<noteq> 0 \<and>
    (\<exists>raw. raw_accesses p t mx = Inr raw)"
proof -
  have "problem_ok p" "cb \<noteq> 0" "mx \<noteq> 0" "tile_in_problem p t"
    using assms by (auto simp: enumerate_tile_working_set_def working_set_failure_def validate_problem_iff split: if_splits)
  moreover from this have "\<exists>raw. raw_accesses p t mx = Inr raw"
    using assms raw_accesses_exact [of p t mx]
    by (cases "raw_accesses p t mx") (auto simp: enumerate_tile_working_set_def working_set_failure_def validate_problem_iff)
  ultimately show ?thesis by blast
qed

lemma working_set_spec:
  assumes "enumerate_tile_working_set p t cb mx = Some ws" "wr_error ws = Wse_none"
  shows "sorted_wrt range_before (wr_accesses ws) \<and>
    (touched (wr_accesses ws) a q m \<longleftrightarrow> tile_touches p t a q m) \<and>
    sorted_wrt (<) (wr_chunks ws) \<and>
    (ChunkKey a c \<in> set (wr_chunks ws) \<longleftrightarrow> (\<exists>q m. tile_touches p t a q m \<and> unat c = q div unat cb))"
proof -
  obtain raw where v: "problem_ok p" "tile_in_problem p t" "cb \<noteq> 0" "mx \<noteq> 0" "raw_accesses p t mx = Inr raw"
    using enumerate_ok [OF assms] by blast
  obtain rs cs where e: "ws = finish_working_set cb rs cs" "sorted_wrt range_before rs"
    "\<And>a q m. touched rs a q m \<longleftrightarrow> tile_touches p t a q m" "sorted_wrt (<) cs" "set cs = chunk_keys_of cb rs"
    using enumerate_valid [OF v] assms(1) by auto
  have "wr_accesses ws = rs" "wr_chunks ws = cs"
    using finish_none [of cb rs cs] assms(2) unfolding e(1) by auto
  then show ?thesis using e by (simp add: chunk_keys_of_def)
qed

text \<open>
  C25: The working set of a tile is exact. When it is found, its ranges are in order, disjoint and merged,
  and cover precisely the bytes of the elements the tile reads from the operands and writes to the
  result, each with the mode it needs; its chunks are, in order and without repetition, precisely those
  that hold such a byte.
\<close>

theorem working_set_exact:
  assumes "enumerate_tile_working_set p t cb mx = Some ws" "wr_error ws = Wse_none"
  shows "sorted_wrt range_before (wr_accesses ws) \<and>
    (touched (wr_accesses ws) a q m \<longleftrightarrow> tile_touches p t a q m) \<and>
    sorted_wrt (<) (wr_chunks ws) \<and>
    (ChunkKey a c \<in> set (wr_chunks ws) \<longleftrightarrow> (\<exists>q m. tile_touches p t a q m \<and> unat c = q div unat cb))"
  using assms by (rule working_set_spec)

lemma working_set_cases:
  "case enumerate_tile_working_set p t cb mx of
     None \<Rightarrow> False
   | Some ws \<Rightarrow>
       if pv_error (validate_problem p) \<noteq> Pe_none then wr_error ws = Wse_invalid_problem
       else if cb = 0 then wr_error ws = Wse_invalid_chunk_size
       else if mx = 0 \<or> \<not> tile_in_problem p t then wr_error ws = Wse_invalid_tile
       else wr_error ws \<in> {Wse_none, Wse_too_many_ranges, Wse_resident_size_overflow}"
proof (cases "pv_error (validate_problem p) = Pe_none \<and> cb \<noteq> 0 \<and> mx \<noteq> 0 \<and> tile_in_problem p t")
  case True
  then have ok: "problem_ok p" "tile_in_problem p t" "cb \<noteq> 0" "mx \<noteq> 0"
    by (simp_all add: validate_problem_iff)
  show ?thesis
  proof (cases "raw_accesses p t mx")
    case (Inl e)
    then have "e = Wse_too_many_ranges" using raw_accesses_exact [OF ok(1,2), of mx] by simp
    then show ?thesis using True Inl by (simp add: enumerate_tile_working_set_def working_set_failure_def)
  next
    case (Inr raw)
    then show ?thesis
      using enumerate_valid [OF ok Inr] True
      by (auto simp: finish_working_set_def working_set_failure_def split: option.splits)
  qed
next
  case False
  then show ?thesis by (auto simp: enumerate_tile_working_set_def working_set_failure_def)
qed

text \<open>
  The general normaliser is never needed: a problem that passes validation has no byte with two
  modes, so the enumeration always returns, and for a tile of the problem it refuses only because
  there are more ranges than allowed or because the chunks do not fit 64 bits.
\<close>

theorem working_set_total:
  "case enumerate_tile_working_set p t cb mx of
     None \<Rightarrow> False
   | Some ws \<Rightarrow>
       if pv_error (validate_problem p) \<noteq> Pe_none then wr_error ws = Wse_invalid_problem
       else if cb = 0 then wr_error ws = Wse_invalid_chunk_size
       else if mx = 0 then wr_error ws = Wse_invalid_tile
       else if tile_in_problem p t then wr_error ws \<in> {Wse_none, Wse_too_many_ranges, Wse_resident_size_overflow}
       else wr_error ws = Wse_invalid_tile"
  using working_set_cases [of p cb mx t] by (auto split: option.splits if_splits)

text \<open>A tile of the example problem: two rows of the first operand, two of the second.\<close>

definition tile_example :: gemm_tile where
  "tile_example =
     \<lparr>gt_sequence = 0, gt_m_begin = 2, gt_n_begin = 0, gt_k_begin = 0, gt_m_count = 2, gt_n_count = 2, gt_k_count = 5,
      gt_beta_mode = User_beta, gt_c_access_mode = Write_only, gt_resident_bytes = 0, gt_chunk_count = 0,
      gt_access_range_count = 0, gt_algorithm_signature = algorithm_signature_default\<rparr>"

theorem working_set_exact_witness:
  "(case enumerate_tile_working_set problem_example tile_example 64 10 of
      None \<Rightarrow> False
    | Some ws \<Rightarrow> wr_chunks ws =
        [ChunkKey (AllocationId 1) 0, ChunkKey (AllocationId 1) 1, ChunkKey (AllocationId 2) 0] \<and>
        ChunkKey (AllocationId 2) 0 \<in> set (wr_chunks ws)) \<and>
   (\<exists>q m. tile_touches problem_example tile_example (AllocationId 2) q m \<and> q < 64)"
proof -
  obtain ws where ws: "enumerate_tile_working_set problem_example tile_example 64 10 = Some ws"
    "wr_error ws = Wse_none"
    "wr_chunks ws = [ChunkKey (AllocationId 1) 0, ChunkKey (AllocationId 1) 1, ChunkKey (AllocationId 2) 0]"
  proof -
    have "(case enumerate_tile_working_set problem_example tile_example 64 10 of
        None \<Rightarrow> False
      | Some ws \<Rightarrow> wr_error ws = Wse_none \<and> wr_chunks ws =
          [ChunkKey (AllocationId 1) 0, ChunkKey (AllocationId 1) 1, ChunkKey (AllocationId 2) 0])"
      by code_simp
    then show ?thesis using that by (auto split: option.splits)
  qed
  note e = working_set_exact [OF ws(1,2), of "AllocationId 2" _ _ 0]
  have "ChunkKey (AllocationId 2) 0 \<in> set (wr_chunks ws)" using ws(3) by simp
  then obtain q m where "tile_touches problem_example tile_example (AllocationId 2) q m" "0 = q div 64"
    using e by auto
  then show ?thesis using ws by (auto simp: div_eq_0_iff)
qed

end
