(* ===== verification/Gemm_Planner.thy ===== *)
theory Gemm_Planner
  imports Gemm_Working_Set
begin

text \<open>
  The planner of the out-of-core matrix product, the second half of src/src/gemm/planner.cpp: the cut of
  the problem into tiles, the summaries that stand for the working sets of the tiles, the search for a
  tile geometry whose chunks fit the cache, and the plan. The theorems are in \<open>Gemm_Plan_Correct\<close> and
  \<open>Gemm_Summary_Correct\<close>.

  A loop that would not end is \<open>None\<close>; \<open>make_plan\<close> is shown to return. \<open>std::size_t\<close> is \<open>nat\<close>.
\<close>

section \<open>Data\<close>

record tile_geometry =
  tg_m :: u64
  tg_n :: u64
  tg_k :: u64

record planner_config =
  pc_chunk_bytes :: u64
  pc_cache_target_bytes :: u64
  pc_workspace_bytes :: u64
  pc_preferred_geometry :: tile_geometry
  pc_maximum_tiles :: u64
  pc_maximum_access_ranges_per_tile :: u64

record planner_statistics =
  ps_geometry_assessments :: u64
  ps_matrix_rectangle_summaries :: u64
  ps_tile_combinations_assessed :: u64
  ps_legacy_tile_enumerations :: u64

datatype plan_error =
    Ple_none | Ple_invalid_problem | Ple_invalid_chunk_size | Ple_invalid_cache_target
  | Ple_workspace_exceeds_cache | Ple_invalid_preferred_geometry | Ple_tile_count_overflow
  | Ple_too_many_tiles | Ple_working_set_too_large | Ple_working_set_enumeration_failed

fun plan_error_name :: "plan_error \<Rightarrow> string" where
  "plan_error_name Ple_none = ''none''"
| "plan_error_name Ple_invalid_problem = ''invalid_problem''"
| "plan_error_name Ple_invalid_chunk_size = ''invalid_chunk_size''"
| "plan_error_name Ple_invalid_cache_target = ''invalid_cache_target''"
| "plan_error_name Ple_workspace_exceeds_cache = ''workspace_exceeds_cache''"
| "plan_error_name Ple_invalid_preferred_geometry = ''invalid_preferred_geometry''"
| "plan_error_name Ple_tile_count_overflow = ''tile_count_overflow''"
| "plan_error_name Ple_too_many_tiles = ''too_many_tiles''"
| "plan_error_name Ple_working_set_too_large = ''working_set_too_large''"
| "plan_error_name Ple_working_set_enumeration_failed = ''working_set_enumeration_failed''"

record gemm_plan =
  gl_error :: plan_error
  gl_problem_validation :: problem_validation
  gl_working_set_error :: working_set_error
  gl_geometry :: tile_geometry
  gl_cache_bytes_available_to_chunks :: u64
  gl_maximum_resident_bytes :: u64
  gl_statistics :: planner_statistics
  gl_tiles :: "gemm_tile list"

record tile_summary =
  ts_error :: working_set_error
  ts_resident_bytes :: u64
  ts_chunk_count :: u64
  ts_access_range_count :: u64

record geometry_assessment =
  ga_error :: plan_error
  ga_working_set_error :: working_set_error
  ga_maximum_resident_bytes :: u64
  ga_tiles :: "tile_summary list"

definition tile_summary_default :: tile_summary where
  "tile_summary_default =
     \<lparr>ts_error = Wse_none, ts_resident_bytes = 0, ts_chunk_count = 0, ts_access_range_count = 0\<rparr>"

definition geometry_assessment_default :: geometry_assessment where
  "geometry_assessment_default =
     \<lparr>ga_error = Ple_none, ga_working_set_error = Wse_none, ga_maximum_resident_bytes = 0, ga_tiles = []\<rparr>"

definition gemm_plan_default :: gemm_plan where
  "gemm_plan_default =
     \<lparr>gl_error = Ple_none, gl_problem_validation = problem_valid, gl_working_set_error = Wse_none,
      gl_geometry = \<lparr>tg_m = 0, tg_n = 0, tg_k = 0\<rparr>, gl_cache_bytes_available_to_chunks = 0,
      gl_maximum_resident_bytes = 0,
      gl_statistics = \<lparr>ps_geometry_assessments = 0, ps_matrix_rectangle_summaries = 0,
        ps_tile_combinations_assessed = 0, ps_legacy_tile_enumerations = 0\<rparr>,
      gl_tiles = []\<rparr>"

section \<open>Tile geometry\<close>

definition tile_alignment :: "gemm_problem \<Rightarrow> u64" where
  "tile_alignment problem =
     (if mv_element_type (gp_a problem) = Fp16 \<or> mv_element_type (gp_a problem) = Bf16 then 16
      else if gp_compute_mode problem = Compute_fp64 then 4
      else 8)"

definition reduced_dimension :: "u64 \<Rightarrow> u64 \<Rightarrow> u64" where
  "reduced_dimension v alignment =
     (if v \<le> 1 then v
      else
        let reduced = v div 2;
            reduced = (if v > alignment
                       then (let r = max reduced alignment in r - r mod alignment) else reduced);
            reduced = max 1 reduced
        in if reduced \<ge> v then v - 1 else reduced)"

definition ceil_divide :: "u64 \<Rightarrow> u64 \<Rightarrow> u64" where
  "ceil_divide v divisor = v div divisor + (if v mod divisor \<noteq> 0 then 1 else 0)"

definition tile_count :: "gemm_problem \<Rightarrow> tile_geometry \<Rightarrow> u64 option" where
  "tile_count problem geometry =
     (if tg_m geometry = 0 \<or> tg_n geometry = 0 \<or> tg_k geometry = 0 then None
      else
        let m_tiles = ceil_divide (gp_m problem) (tg_m geometry);
            n_tiles = ceil_divide (gp_n problem) (tg_n geometry);
            k_tiles = ceil_divide (gp_k problem) (tg_k geometry)
        in Option.bind (checked_multiply m_tiles n_tiles) (\<lambda>c. checked_multiply c k_tiles))"

definition geometry_volume :: "tile_geometry \<Rightarrow> u64" where
  "geometry_volume geometry =
     (case Option.bind (checked_multiply (tg_m geometry) (tg_n geometry)) (\<lambda>mn. checked_multiply mn (tg_k geometry)) of
        None \<Rightarrow> max_u64
      | Some volume \<Rightarrow> volume)"

text \<open>
  The tiles of one axis, as pairs of begin and count. With a tile of zero the loop would not advance;
  \<open>None\<close> is a loop that does not end.
\<close>

partial_function (option) axis_from :: "u64 \<Rightarrow> u64 \<Rightarrow> u64 \<Rightarrow> (u64 \<times> u64) list option" where
  "axis_from whole tile begin_at =
     (if begin_at < whole then
        let c = min tile (whole - begin_at)
        in Option.bind (axis_from whole tile (begin_at + c)) (\<lambda>rest. Some ((begin_at, c) # rest))
      else Some [])"

definition axis_tiles :: "u64 \<Rightarrow> u64 \<Rightarrow> (u64 \<times> u64) list option" where
  "axis_tiles whole tile = axis_from whole tile 0"

definition make_tile ::
    "gemm_problem \<Rightarrow> tile_geometry \<Rightarrow> u64 \<Rightarrow> u64 \<Rightarrow> u64 \<Rightarrow> u64 \<Rightarrow> gemm_tile" where
  "make_tile problem geometry m_begin n_begin k_begin sequence =
     \<lparr>gt_sequence = sequence, gt_m_begin = m_begin, gt_n_begin = n_begin, gt_k_begin = k_begin,
      gt_m_count = min (tg_m geometry) (gp_m problem - m_begin),
      gt_n_count = min (tg_n geometry) (gp_n problem - n_begin),
      gt_k_count = min (tg_k geometry) (gp_k problem - k_begin),
      gt_beta_mode = (if k_begin = 0 then User_beta else Accumulate_one),
      gt_c_access_mode = (if k_begin = 0 \<and> double_is_zero (gp_beta problem) then Write_only else Read_write),
      gt_resident_bytes = 0, gt_chunk_count = 0, gt_access_range_count = 0,
      gt_algorithm_signature = algorithm_signature_default\<rparr>"

text \<open>A visitor that may ask to stop, called on one tile after another.\<close>

fun visit :: "('t \<Rightarrow> 's \<Rightarrow> ('s \<times> bool) option) \<Rightarrow> 't list \<Rightarrow> 's \<Rightarrow> ('s \<times> bool) option" where
  "visit visitor [] s = Some (s, True)"
| "visit visitor (t # ts) s =
     Option.bind (visitor t s) (\<lambda>(s, go_on). if go_on then visit visitor ts s else Some (s, False))"

definition tiles_of ::
    "gemm_problem \<Rightarrow> tile_geometry \<Rightarrow> (u64 \<times> u64) list \<Rightarrow> (u64 \<times> u64) list \<Rightarrow> (u64 \<times> u64) list \<Rightarrow> gemm_tile list" where
  "tiles_of problem geometry ms ns ks =
     map (\<lambda>(sequence, m, n, k). make_tile problem geometry (fst m) (fst n) (fst k) (of_nat sequence))
       (List.enumerate 0 (List.product ms (List.product ns ks)))"

definition visit_tiles ::
    "gemm_problem \<Rightarrow> tile_geometry \<Rightarrow> (gemm_tile \<Rightarrow> 's \<Rightarrow> ('s \<times> bool) option) \<Rightarrow> 's \<Rightarrow> ('s \<times> bool) option" where
  "visit_tiles problem geometry visitor s = do {
     ms \<leftarrow> axis_tiles (gp_m problem) (tg_m geometry);
     ns \<leftarrow> axis_tiles (gp_n problem) (tg_n geometry);
     ks \<leftarrow> axis_tiles (gp_k problem) (tg_k geometry);
     visit visitor (tiles_of problem geometry ms ns ks) s
   }"

section \<open>The summary of a rectangle\<close>

record segment_scan =
  sc_segment_begin :: u64
  sc_covered_last_chunk :: u64
  sc_has_covered_chunk :: bool

function scan_segments ::
    "u64 \<Rightarrow> u64 \<Rightarrow> u64 \<Rightarrow> u64 \<Rightarrow> u64 \<Rightarrow> segment_scan \<Rightarrow> tile_summary \<Rightarrow> tile_summary" where
  "scan_segments chunk_bytes segment_bytes stride segments segment scan result =
     (if segment < segments then
        (case checked_add (sc_segment_begin scan) (segment_bytes - 1) of
           None \<Rightarrow> result\<lparr>ts_error := Wse_range_overflow\<rparr>
         | Some segment_end \<Rightarrow>
             let first_chunk = sc_segment_begin scan div chunk_bytes;
                 last_chunk = segment_end div chunk_bytes;
                 covered = sc_covered_last_chunk scan;
                 additional =
                   (if \<not> sc_has_covered_chunk scan \<or> first_chunk > covered then last_chunk - first_chunk + 1
                    else if last_chunk > covered then last_chunk - covered
                    else 0)
             in case checked_add (ts_chunk_count result) additional of
                  None \<Rightarrow> result\<lparr>ts_error := Wse_resident_size_overflow\<rparr>
                | Some chunk_count \<Rightarrow>
                    let result = result\<lparr>ts_chunk_count := chunk_count\<rparr>;
                        scan = scan\<lparr>sc_covered_last_chunk := max covered last_chunk, sc_has_covered_chunk := True\<rparr>
                    in if segment + 1 \<noteq> segments then
                         (case checked_add (sc_segment_begin scan) stride of
                            None \<Rightarrow> result\<lparr>ts_error := Wse_range_overflow\<rparr>
                          | Some next_begin \<Rightarrow>
                              scan_segments chunk_bytes segment_bytes stride segments (segment + 1)
                                (scan\<lparr>sc_segment_begin := next_begin\<rparr>) result)
                       else scan_segments chunk_bytes segment_bytes stride segments (segment + 1) scan result)
      else result)"
  by pat_completeness auto
termination
proof (relation "measure (\<lambda>(_, _, _, segments, segment, _, _). unat segments - unat segment)", goal_cases)
  case (2 chunk_bytes segment_bytes stride segments segment scan result)
  then have "unat segment < unat segments" by (simp add: word_less_nat_alt)
  then show ?case using unat_u64_bound [of segments] by (simp add: unat_add_u64)
next
  case (3 chunk_bytes segment_bytes stride segments segment scan result)
  then have "unat segment < unat segments" by (simp add: word_less_nat_alt)
  then show ?case using unat_u64_bound [of segments] by (simp add: unat_add_u64)
qed simp

declare scan_segments.simps [simp del]

definition summarize_matrix_rectangle ::
    "matrix_view \<Rightarrow> matrix_operation \<Rightarrow> u64 \<Rightarrow> u64 \<Rightarrow> u64 \<Rightarrow> u64 \<Rightarrow> u64 \<Rightarrow> u64 \<Rightarrow> tile_summary" where
  "summarize_matrix_rectangle matrix operation logical_row logical_rows logical_column logical_columns
       chunk_bytes maximum_ranges =
     (let fail = (\<lambda>e result. result\<lparr>ts_error := e\<rparr>);
          (operated_rows, operated_columns) = operated_shape matrix operation;
          row_end = checked_add logical_row logical_rows;
          column_end = checked_add logical_column logical_columns
      in if chunk_bytes = 0 \<or> maximum_ranges = 0 \<or> logical_rows = 0 \<or> logical_columns = 0 \<or>
            row_end = None \<or> column_end = None \<or>
            the row_end > operated_rows \<or> the column_end > operated_columns
         then fail Wse_invalid_tile tile_summary_default
         else
           let physical_row = physical operation logical_row logical_column;
               physical_rows = physical operation logical_rows logical_columns;
               physical_column = physical operation logical_column logical_row;
               physical_columns = physical operation logical_columns logical_rows;
               element_bytes = the (element_size_bytes (mv_element_type matrix));
               row_major = (mv_layout matrix = Row_major);
               segments = (if row_major then physical_rows else physical_columns);
               segment_elements = (if row_major then physical_columns else physical_rows)
           in case (checked_multiply segment_elements element_bytes,
                    checked_multiply (mv_leading_dimension matrix) element_bytes) of
                (Some segment_bytes, Some stride) \<Rightarrow>
                  let contiguous = (segment_bytes = stride);
                      result = tile_summary_default\<lparr>ts_access_range_count := (if contiguous then 1 else segments)\<rparr>
                  in if ts_access_range_count result > maximum_ranges then fail Wse_too_many_ranges result
                     else
                       (case do {
                            element_index \<leftarrow> checked_multiply (if row_major then physical_row else physical_column)
                              (mv_leading_dimension matrix);
                            element_index \<leftarrow> checked_add element_index (if row_major then physical_column else physical_row);
                            first_byte \<leftarrow> checked_multiply element_index element_bytes;
                            checked_add (mv_offset_bytes matrix) first_byte
                          } of
                          None \<Rightarrow> fail Wse_range_overflow result
                        | Some first_byte \<Rightarrow>
                            (case do {
                                last_segment_delta \<leftarrow> checked_multiply (segments - 1) stride;
                                last_segment_begin \<leftarrow> checked_add first_byte last_segment_delta;
                                checked_add last_segment_begin (segment_bytes - 1)
                              } of
                               None \<Rightarrow> fail Wse_range_overflow result
                             | Some final_byte \<Rightarrow>
                                 if final_byte \<ge> mv_allocation_bytes matrix then fail Wse_range_overflow result
                                 else
                                   let result =
                                         (if contiguous
                                          then result\<lparr>ts_chunk_count := final_byte div chunk_bytes - first_byte div chunk_bytes + 1\<rparr>
                                          else scan_segments chunk_bytes segment_bytes stride segments 0
                                                 \<lparr>sc_segment_begin = first_byte, sc_covered_last_chunk = 0, sc_has_covered_chunk = False\<rparr>
                                                 result)
                                   in if ts_error result \<noteq> Wse_none then result
                                      else
                                        case checked_multiply (ts_chunk_count result) chunk_bytes of
                                          None \<Rightarrow> fail Wse_resident_size_overflow result
                                        | Some resident \<Rightarrow> result\<lparr>ts_resident_bytes := resident\<rparr>))
              | _ \<Rightarrow> fail Wse_range_overflow tile_summary_default)"

section \<open>The assessment of a geometry\<close>

definition summary_of :: "working_set_result \<Rightarrow> tile_summary" where
  "summary_of working_set =
     tile_summary_default\<lparr>ts_resident_bytes := wr_resident_bytes working_set,
       ts_chunk_count := of_nat (length (wr_chunks working_set)),
       ts_access_range_count := of_nat (length (wr_accesses working_set))\<rparr>"

definition push_summary :: "tile_summary \<Rightarrow> geometry_assessment \<Rightarrow> geometry_assessment" where
  "push_summary summary assessment =
     assessment\<lparr>ga_maximum_resident_bytes := max (ga_maximum_resident_bytes assessment) (ts_resident_bytes summary),
       ga_tiles := ga_tiles assessment @ [summary]\<rparr>"

definition enumerate_visitor ::
    "gemm_problem \<Rightarrow> planner_config \<Rightarrow> gemm_tile \<Rightarrow> geometry_assessment \<times> planner_statistics \<Rightarrow>
     ((geometry_assessment \<times> planner_statistics) \<times> bool) option" where
  "enumerate_visitor problem config tile = (\<lambda>(assessment, statistics).
     let statistics = statistics\<lparr>ps_legacy_tile_enumerations := ps_legacy_tile_enumerations statistics + 1\<rparr>
     in Option.bind
          (enumerate_tile_working_set problem tile (pc_chunk_bytes config) (pc_maximum_access_ranges_per_tile config))
          (\<lambda>working_set.
             Some (if wr_error working_set \<noteq> Wse_none
                   then ((assessment\<lparr>ga_error := Ple_working_set_enumeration_failed,
                                    ga_working_set_error := wr_error working_set\<rparr>, statistics), False)
                   else ((push_summary (summary_of working_set) assessment, statistics), True))))"

text \<open>
  The loops over a matrix of rectangles, in the order of the flat array of summaries; the first error
  ends them.
\<close>

fun summarize_grid ::
    "planner_config \<Rightarrow> matrix_view \<Rightarrow> matrix_operation \<Rightarrow> ((u64 \<times> u64) \<times> (u64 \<times> u64)) list \<Rightarrow>
     geometry_assessment \<Rightarrow> planner_statistics \<Rightarrow> tile_summary list \<Rightarrow>
     tile_summary list \<times> geometry_assessment \<times> planner_statistics" where
  "summarize_grid config matrix operation [] assessment statistics summaries = (summaries, assessment, statistics)"
| "summarize_grid config matrix operation ((rows, columns) # rest) assessment statistics summaries =
     (if ga_error assessment \<noteq> Ple_none then (summaries, assessment, statistics)
      else
        let statistics = statistics\<lparr>ps_matrix_rectangle_summaries := ps_matrix_rectangle_summaries statistics + 1\<rparr>;
            summary = summarize_matrix_rectangle matrix operation (fst rows) (snd rows) (fst columns) (snd columns)
                        (pc_chunk_bytes config) (pc_maximum_access_ranges_per_tile config);
            assessment =
              (if ts_error summary \<noteq> Wse_none \<and> ga_error assessment = Ple_none
               then assessment\<lparr>ga_error := Ple_working_set_enumeration_failed, ga_working_set_error := ts_error summary\<rparr>
               else assessment)
        in summarize_grid config matrix operation rest assessment statistics (summaries @ [summary]))"

definition combine_summaries :: "u64 \<Rightarrow> tile_summary \<Rightarrow> tile_summary \<Rightarrow> tile_summary \<Rightarrow> tile_summary option" where
  "combine_summaries chunk_bytes a b c = do {
     chunks \<leftarrow> checked_add (ts_chunk_count a) (ts_chunk_count b);
     chunks \<leftarrow> checked_add chunks (ts_chunk_count c);
     accesses \<leftarrow> checked_add (ts_access_range_count a) (ts_access_range_count b);
     accesses \<leftarrow> checked_add accesses (ts_access_range_count c);
     resident \<leftarrow> checked_multiply chunks chunk_bytes;
     Some \<lparr>ts_error = Wse_none, ts_resident_bytes = resident, ts_chunk_count = chunks,
           ts_access_range_count = accesses\<rparr>
   }"

text \<open>The triple loop over the tiles, with the index arithmetic of the flat arrays.\<close>

fun combine_tiles ::
    "planner_config \<Rightarrow> tile_summary list \<Rightarrow> tile_summary list \<Rightarrow> tile_summary list \<Rightarrow> nat \<Rightarrow> nat \<Rightarrow>
     (nat \<times> nat \<times> nat) list \<Rightarrow> geometry_assessment \<Rightarrow> planner_statistics \<Rightarrow>
     geometry_assessment \<times> planner_statistics \<times> bool" where
  "combine_tiles config as bs cs n_tiles k_tiles [] assessment statistics = (assessment, statistics, True)"
| "combine_tiles config as bs cs n_tiles k_tiles ((m, n, k) # rest) assessment statistics =
     (let statistics = statistics\<lparr>ps_tile_combinations_assessed := ps_tile_combinations_assessed statistics + 1\<rparr>;
          fail = (\<lambda>e. assessment\<lparr>ga_error := Ple_working_set_enumeration_failed, ga_working_set_error := e,
                                 ga_tiles := []\<rparr>)
      in case combine_summaries (pc_chunk_bytes config) (as ! (m * k_tiles + k)) (bs ! (k * n_tiles + n))
                (cs ! (m * n_tiles + n)) of
           None \<Rightarrow> (fail Wse_resident_size_overflow, statistics, False)
         | Some combined \<Rightarrow>
             if ts_access_range_count combined > pc_maximum_access_ranges_per_tile config
             then (fail Wse_too_many_ranges, statistics, False)
             else combine_tiles config as bs cs n_tiles k_tiles rest (push_summary combined assessment) statistics)"

definition distinct_allocations :: "gemm_problem \<Rightarrow> bool" where
  "distinct_allocations problem \<longleftrightarrow>
     mv_allocation_id (gp_a problem) \<noteq> mv_allocation_id (gp_b problem) \<and>
     mv_allocation_id (gp_a problem) \<noteq> mv_allocation_id (gp_c problem) \<and>
     mv_allocation_id (gp_b problem) \<noteq> mv_allocation_id (gp_c problem)"

definition assess_by_summaries ::
    "gemm_problem \<Rightarrow> planner_config \<Rightarrow> u64 \<Rightarrow> (u64 \<times> u64) list \<Rightarrow> (u64 \<times> u64) list \<Rightarrow> (u64 \<times> u64) list \<Rightarrow>
     planner_statistics \<Rightarrow> geometry_assessment \<times> planner_statistics" where
  "assess_by_summaries problem config count_of_tiles ms ns ks statistics =
     (let (as, assessment, statistics) =
            summarize_grid config (gp_a problem) (gp_a_operation problem) (List.product ms ks)
              geometry_assessment_default statistics [];
          (bs, assessment, statistics) =
            summarize_grid config (gp_b problem) (gp_b_operation problem) (List.product ks ns)
              assessment statistics [];
          (cs, assessment, statistics) =
            summarize_grid config (gp_c problem) Operation_none (List.product ms ns) assessment statistics []
      in if ga_error assessment \<noteq> Ple_none then (assessment, statistics)
         else
           let (assessment, statistics, completed) =
                 combine_tiles config as bs cs (length ns) (length ks)
                   (List.product [0..<length ms] (List.product [0..<length ns] [0..<length ks])) assessment statistics
           in if completed \<and> length (ga_tiles assessment) \<noteq> unat count_of_tiles
              then (assessment\<lparr>ga_error := Ple_working_set_enumeration_failed,
                              ga_working_set_error := Wse_resident_size_overflow\<rparr>, statistics)
              else (assessment, statistics))"

text \<open>
  \<open>std::size_t\<close> has 64 bits, so that the count of tiles always fits it; the third test is kept as the code
  has it.
\<close>

definition assess_geometry ::
    "gemm_problem \<Rightarrow> planner_config \<Rightarrow> tile_geometry \<Rightarrow> planner_statistics \<Rightarrow>
     (geometry_assessment \<times> planner_statistics) option" where
  "assess_geometry problem config geometry statistics =
     (let statistics = statistics\<lparr>ps_geometry_assessments := ps_geometry_assessments statistics + 1\<rparr>;
          failure = (\<lambda>e. Some (geometry_assessment_default\<lparr>ga_error := e\<rparr>, statistics))
      in case tile_count problem geometry of
           None \<Rightarrow> failure Ple_tile_count_overflow
         | Some count_of_tiles \<Rightarrow>
             if count_of_tiles > pc_maximum_tiles config then failure Ple_too_many_tiles
             else if count_of_tiles > max_u64 then failure Ple_tile_count_overflow
             else if \<not> distinct_allocations problem then do {
               ((assessment, statistics), completed) \<leftarrow>
                 visit_tiles problem geometry (enumerate_visitor problem config)
                   (geometry_assessment_default, statistics);
               Some (if \<not> completed \<and> ga_error assessment = Ple_none
                     then assessment\<lparr>ga_error := Ple_working_set_enumeration_failed\<rparr> else assessment, statistics)
             }
             else do {
               ms \<leftarrow> axis_tiles (gp_m problem) (tg_m geometry);
               ns \<leftarrow> axis_tiles (gp_n problem) (tg_n geometry);
               ks \<leftarrow> axis_tiles (gp_k problem) (tg_k geometry);
               Some (assess_by_summaries problem config count_of_tiles ms ns ks statistics)
             })"

section \<open>The signature of an algorithm\<close>

text \<open>The loop of \<open>pointer_alignment\<close>; it starts from one, so that the alignment is never zero.\<close>

function pointer_alignment_from :: "u64 \<Rightarrow> u64 \<Rightarrow> u64" where
  "pointer_alignment_from offset alignment =
     (if alignment < 256 \<and> alignment \<noteq> 0 \<and> offset mod (alignment * 2) = 0
      then pointer_alignment_from offset (alignment * 2) else alignment)"
  by pat_completeness auto
termination
proof (relation "measure (\<lambda>(_, alignment). 256 - unat alignment)", goal_cases)
  case (2 offset alignment)
  then have "unat alignment < 256" "0 < unat alignment"
    by (simp_all add: word_less_nat_alt unat_gt_0_iff)
  then show ?case by (simp add: unat_mult_u64)
qed simp

declare pointer_alignment_from.simps [simp del]

definition pointer_alignment :: "u64 \<Rightarrow> u16" where
  "pointer_alignment offset = (if offset = 0 then 256 else ucast (pointer_alignment_from offset 1))"

definition tile_origin :: "matrix_view \<Rightarrow> matrix_operation \<Rightarrow> u64 \<Rightarrow> u64 \<Rightarrow> u64" where
  "tile_origin matrix operation logical_row logical_column =
     (let physical_row = physical operation logical_row logical_column;
          physical_column = physical operation logical_column logical_row;
          row_major = (mv_layout matrix = Row_major);
          major = (if row_major then physical_row else physical_column);
          minor = (if row_major then physical_column else physical_row);
          element_index = major * mv_leading_dimension matrix + minor
      in mv_offset_bytes matrix + element_index * the (element_size_bytes (mv_element_type matrix)))"

definition make_algorithm_signature :: "gemm_problem \<Rightarrow> gemm_tile \<Rightarrow> u64 \<Rightarrow> algorithm_signature" where
  "make_algorithm_signature problem tile workspace_limit_bytes =
     \<lparr>as_a_layout = mv_layout (gp_a problem), as_b_layout = mv_layout (gp_b problem),
      as_c_layout = mv_layout (gp_c problem), as_a_operation = gp_a_operation problem,
      as_b_operation = gp_b_operation problem,
      as_a_leading_dimension = mv_leading_dimension (gp_a problem),
      as_b_leading_dimension = mv_leading_dimension (gp_b problem),
      as_c_leading_dimension = mv_leading_dimension (gp_c problem),
      as_a_alignment_bytes = pointer_alignment
        (tile_origin (gp_a problem) (gp_a_operation problem) (gt_m_begin tile) (gt_k_begin tile)),
      as_b_alignment_bytes = pointer_alignment
        (tile_origin (gp_b problem) (gp_b_operation problem) (gt_k_begin tile) (gt_n_begin tile)),
      as_c_alignment_bytes = pointer_alignment
        (tile_origin (gp_c problem) Operation_none (gt_m_begin tile) (gt_n_begin tile)),
      as_workspace =
        \<lparr>ws_a_type = mv_element_type (gp_a problem), ws_b_type = mv_element_type (gp_b problem),
         ws_c_type = mv_element_type (gp_c problem), ws_compute_mode = gp_compute_mode problem,
         ws_tile_m = gt_m_count tile, ws_tile_n = gt_n_count tile, ws_tile_k = gt_k_count tile,
         ws_workspace_limit_bytes = workspace_limit_bytes\<rparr>\<rparr>"

section \<open>The plan\<close>

type_synonym candidate = "tile_geometry \<times> geometry_assessment"

definition candidate_fits :: "u64 \<Rightarrow> candidate \<Rightarrow> bool" where
  "candidate_fits available candidate \<longleftrightarrow> ga_maximum_resident_bytes (snd candidate) \<le> available"

definition candidate_volume_key :: "candidate \<Rightarrow> u64 \<times> u64 \<times> u64 \<times> u64 \<times> u64" where
  "candidate_volume_key c =
     (max_u64 - geometry_volume (fst c), ga_maximum_resident_bytes (snd c), tg_m (fst c), tg_n (fst c), tg_k (fst c))"

definition candidate_size_key :: "candidate \<Rightarrow> u64 \<times> u64 \<times> u64 \<times> u64 \<times> u64" where
  "candidate_size_key c =
     (ga_maximum_resident_bytes (snd c), max_u64 - geometry_volume (fst c), tg_m (fst c), tg_n (fst c), tg_k (fst c))"

definition candidate_before :: "u64 \<Rightarrow> bool \<Rightarrow> candidate \<Rightarrow> candidate \<Rightarrow> bool" where
  "candidate_before available has_fitting left right =
     (if has_fitting then
        let left_fits = candidate_fits available left; right_fits = candidate_fits available right
        in if left_fits \<noteq> right_fits then left_fits else candidate_volume_key left < candidate_volume_key right
      else candidate_size_key left < candidate_size_key right)"

text \<open>\<open>std::min_element\<close>: the first of the least elements.\<close>

definition min_element :: "('a \<Rightarrow> 'a \<Rightarrow> bool) \<Rightarrow> 'a \<Rightarrow> 'a list \<Rightarrow> 'a" where
  "min_element before x xs = fold (\<lambda>y best. if before y best then y else best) xs x"

fun add_candidates ::
    "gemm_problem \<Rightarrow> planner_config \<Rightarrow> tile_geometry \<Rightarrow> tile_geometry list \<Rightarrow> candidate list \<Rightarrow> planner_statistics \<Rightarrow>
     (candidate list \<times> planner_statistics) option" where
  "add_candidates problem config geometry [] candidates statistics = Some (candidates, statistics)"
| "add_candidates problem config geometry (g # gs) candidates statistics =
     (if g = geometry \<or> list_ex (\<lambda>c. fst c = g) candidates
      then add_candidates problem config geometry gs candidates statistics
      else
        Option.bind (assess_geometry problem config g statistics) (\<lambda>(assessment, statistics).
          add_candidates problem config geometry gs
            (if ga_error assessment = Ple_none then candidates @ [(g, assessment)] else candidates) statistics))"

definition reduced_geometries :: "bool \<Rightarrow> u64 \<Rightarrow> tile_geometry \<Rightarrow> tile_geometry list" where
  "reduced_geometries requires_full_k alignment geometry =
     [geometry\<lparr>tg_m := reduced_dimension (tg_m geometry) alignment\<rparr>,
      geometry\<lparr>tg_n := reduced_dimension (tg_n geometry) alignment\<rparr>,
      (if requires_full_k then geometry
       else geometry\<lparr>tg_k := reduced_dimension (tg_k geometry) alignment\<rparr>)]"

text \<open>
  The loop that shrinks the tile until its chunks fit. The inner option is the failure
  \<open>working_set_too_large\<close>; the outer one a loop that does not end.
\<close>

partial_function (option) shrink_geometry ::
    "gemm_problem \<Rightarrow> planner_config \<Rightarrow> u64 \<Rightarrow> bool \<Rightarrow> tile_geometry \<Rightarrow> geometry_assessment \<Rightarrow> planner_statistics \<Rightarrow>
     (candidate option \<times> planner_statistics) option" where
  "shrink_geometry problem config available requires_full_k geometry assessment statistics =
     (if ga_maximum_resident_bytes assessment > available then
        Option.bind
          (add_candidates problem config geometry
             (reduced_geometries requires_full_k (tile_alignment problem) geometry) [] statistics)
          (\<lambda>(candidates, statistics).
             case candidates of
               [] \<Rightarrow> Some (None, statistics)
             | c # cs \<Rightarrow>
                 let best = min_element (candidate_before available (list_ex (candidate_fits available) candidates)) c cs
                 in shrink_geometry problem config available requires_full_k (fst best) (snd best) statistics)
      else Some (Some (geometry, assessment), statistics))"

declare axis_from.simps [code] shrink_geometry.simps [code]

definition plan_visitor ::
    "gemm_problem \<Rightarrow> planner_config \<Rightarrow> geometry_assessment \<Rightarrow> gemm_tile \<Rightarrow> gemm_plan \<Rightarrow> (gemm_plan \<times> bool) option" where
  "plan_visitor problem config assessment tile plan =
     Some (if unat (gt_sequence tile) \<ge> length (ga_tiles assessment)
           then (plan\<lparr>gl_working_set_error := Wse_resident_size_overflow\<rparr>, False)
           else
             let working_set = ga_tiles assessment ! unat (gt_sequence tile)
             in if ts_error working_set \<noteq> Wse_none
                then (plan\<lparr>gl_working_set_error := ts_error working_set\<rparr>, False)
                else
                  let tile = tile\<lparr>gt_resident_bytes := ts_resident_bytes working_set,
                                 gt_chunk_count := ts_chunk_count working_set,
                                 gt_access_range_count := ts_access_range_count working_set\<rparr>;
                      tile = tile\<lparr>gt_algorithm_signature :=
                                 make_algorithm_signature problem tile (pc_workspace_bytes config)\<rparr>
                  in (plan\<lparr>gl_maximum_resident_bytes := max (gl_maximum_resident_bytes plan) (gt_resident_bytes tile),
                          gl_tiles := gl_tiles plan @ [tile]\<rparr>, True))"

definition requires_full_k :: "gemm_problem \<Rightarrow> bool" where
  "requires_full_k problem \<longleftrightarrow>
     mv_element_type (gp_c problem) = Fp16 \<or> mv_element_type (gp_c problem) = Bf16"

definition initial_geometry :: "gemm_problem \<Rightarrow> planner_config \<Rightarrow> tile_geometry" where
  "initial_geometry problem config =
     \<lparr>tg_m = min (gp_m problem) (tg_m (pc_preferred_geometry config)),
      tg_n = min (gp_n problem) (tg_n (pc_preferred_geometry config)),
      tg_k = (if requires_full_k problem then gp_k problem
              else min (gp_k problem) (tg_k (pc_preferred_geometry config)))\<rparr>"

definition emit_plan ::
    "gemm_problem \<Rightarrow> planner_config \<Rightarrow> tile_geometry \<Rightarrow> geometry_assessment \<Rightarrow> gemm_plan \<Rightarrow> gemm_plan option" where
  "emit_plan problem config geometry assessment plan =
     Option.bind (visit_tiles problem geometry (plan_visitor problem config assessment) plan)
       (\<lambda>(plan, completed).
          Some (if \<not> completed \<or> length (gl_tiles plan) \<noteq> unat (the (tile_count problem geometry))
                then plan\<lparr>gl_error := Ple_working_set_enumeration_failed, gl_tiles := []\<rparr>
                else plan\<lparr>gl_geometry := geometry\<rparr>))"

definition make_plan :: "gemm_problem \<Rightarrow> planner_config \<Rightarrow> gemm_plan option" where
  "make_plan problem config =
     (let fail = (\<lambda>plan e. Some (plan\<lparr>gl_error := e, gl_tiles := []\<rparr>));
          plan = gemm_plan_default\<lparr>gl_problem_validation := validate_problem problem\<rparr>;
          preferred = pc_preferred_geometry config
      in if pv_error (validate_problem problem) \<noteq> Pe_none then fail plan Ple_invalid_problem
         else if pc_chunk_bytes config = 0 then fail plan Ple_invalid_chunk_size
         else if pc_cache_target_bytes config < pc_chunk_bytes config then fail plan Ple_invalid_cache_target
         else if pc_workspace_bytes config \<ge> pc_cache_target_bytes config then fail plan Ple_workspace_exceeds_cache
         else if tg_m preferred = 0 \<or> tg_n preferred = 0 \<or> tg_k preferred = 0 \<or> pc_maximum_tiles config = 0 \<or>
                 pc_maximum_access_ranges_per_tile config = 0
         then fail plan Ple_invalid_preferred_geometry
         else
           let available = (pc_cache_target_bytes config - pc_workspace_bytes config) div pc_chunk_bytes config *
                             pc_chunk_bytes config;
               plan = plan\<lparr>gl_cache_bytes_available_to_chunks := available\<rparr>
           in if available = 0 then fail plan Ple_workspace_exceeds_cache
              else
                let geometry = initial_geometry problem config
                in case tile_count problem geometry of
                     None \<Rightarrow> fail plan Ple_tile_count_overflow
                   | Some initial_tile_count \<Rightarrow>
                       if initial_tile_count > pc_maximum_tiles config then fail plan Ple_too_many_tiles
                       else
                         Option.bind (assess_geometry problem config geometry (gl_statistics plan))
                           (\<lambda>(assessment, statistics).
                              let plan = plan\<lparr>gl_statistics := statistics\<rparr>
                              in if ga_error assessment \<noteq> Ple_none
                                 then fail (plan\<lparr>gl_working_set_error := ga_working_set_error assessment\<rparr>)
                                        (ga_error assessment)
                                 else
                                   Option.bind
                                     (shrink_geometry problem config available (requires_full_k problem) geometry
                                        assessment statistics)
                                     (\<lambda>(chosen, statistics).
                                        let plan = plan\<lparr>gl_statistics := statistics\<rparr>
                                        in case chosen of
                                             None \<Rightarrow> fail plan Ple_working_set_too_large
                                           | Some (geometry, assessment) \<Rightarrow>
                                               emit_plan problem config geometry assessment plan)))"

end
