(* ===== verification/Gemm_Plan_Correct.thy ===== *)
theory Gemm_Plan_Correct
  imports Gemm_Planner
begin

text \<open>
  What the planner of the out-of-core matrix product guarantees: it returns, its tiles partition the
  product and compute it, and their chunks fit the cache. The lemmas follow the code: one axis, the
  count of the tiles, the two ways of assessing a geometry, the search that shrinks the tile, and the
  emission of the tiles; \<open>plan_facts\<close> collects what is known of a plan that was made.
\<close>

section \<open>One axis\<close>

text \<open>The pieces follow one another from \<open>b\<close> to \<open>w\<close>, none of them empty.\<close>

fun axis_cover :: "nat \<Rightarrow> nat \<Rightarrow> (u64 \<times> u64) list \<Rightarrow> bool" where
  "axis_cover b w [] \<longleftrightarrow> b = w"
| "axis_cover b w ((x, c) # xs) \<longleftrightarrow>
     unat x = b \<and> 0 < unat c \<and> b + unat c \<le> w \<and> axis_cover (b + unat c) w xs"

definition pieces :: "nat \<Rightarrow> nat \<Rightarrow> nat" where
  "pieces n tile = (n + tile - 1) div tile"

lemma pieces_step: "0 < d \<Longrightarrow> pieces (d + x) d = Suc (pieces x d)"
proof -
  assume d: "0 < d"
  then have "d + x + d - 1 = (x + d - 1) + d" by simp
  then show ?thesis using d by (simp only: pieces_def div_add_self2)
qed

lemma axis_from_cover:
  assumes "tile \<noteq> 0" "b \<le> whole"
  shows "\<exists>xs. axis_from whole tile b = Some xs \<and> axis_cover (unat b) (unat whole) xs \<and>
    length xs = pieces (unat whole - unat b) (unat tile) \<and> list_all (\<lambda>(x, c). c = min tile (whole - x)) xs"
  using assms(2)
proof (induction "unat whole - unat b" arbitrary: b rule: less_induct)
  case less
  have t: "0 < unat tile" using assms(1) by (simp add: unat_gt_0_iff)
  show ?case
  proof (cases "b < whole")
    case True
    let ?c = "min tile (whole - b)"
    have lt: "unat b < unat whole" using True by (simp add: word_less_nat_alt)
    have c: "unat ?c = min (unat tile) (unat whole - unat b)"
      using lt by (simp add: unat_min unat_sub_u64)
    have bc: "unat (b + ?c) = unat b + unat ?c"
      using lt c unat_u64_bound [of whole] by (intro unat_add_u64) linarith
    have pos: "0 < unat ?c" "unat b + unat ?c \<le> unat whole" using t lt c by auto
    have dec: "unat whole - unat (b + ?c) < unat whole - unat b" using bc pos lt by linarith
    have le: "b + ?c \<le> whole" using bc pos by (simp add: word_le_nat_alt)
    obtain xs where xs: "axis_from whole tile (b + ?c) = Some xs"
      "axis_cover (unat (b + ?c)) (unat whole) xs"
      "length xs = pieces (unat whole - unat (b + ?c)) (unat tile)"
      "list_all (\<lambda>(x, c). c = min tile (whole - x)) xs"
      using less.hyps [OF dec le] by blast
    have "axis_from whole tile b = Some ((b, ?c) # xs)"
      using True xs(1) by (subst axis_from.simps) (simp add: Let_def)
    moreover have "Suc (pieces (unat whole - unat (b + ?c)) (unat tile)) = pieces (unat whole - unat b) (unat tile)"
    proof (cases "unat tile \<le> unat whole - unat b")
      case True
      then have "unat whole - unat b = unat tile + (unat whole - unat (b + ?c))" using bc c by simp
      then show ?thesis using pieces_step [OF t] by simp
    next
      case False
      then have "unat whole - unat (b + ?c) = 0" using bc c by simp
      moreover have "pieces (unat whole - unat b) (unat tile) = 1"
        using False lt t unfolding pieces_def by (intro div_nat_eqI) auto
      ultimately show ?thesis using t by (simp add: pieces_def)
    qed
    ultimately show ?thesis using xs pos bc by simp
  next
    case False
    then have "unat b = unat whole" using less.prems by (simp add: word_less_nat_alt word_le_nat_alt)
    then show ?thesis using False t by (subst axis_from.simps) (simp add: pieces_def)
  qed
qed

lemma axis_tiles_cover:
  assumes "tile \<noteq> 0"
  shows "\<exists>xs. axis_tiles whole tile = Some xs \<and> axis_cover 0 (unat whole) xs \<and>
    length xs = pieces (unat whole) (unat tile) \<and> list_all (\<lambda>(x, c). c = min tile (whole - x)) xs"
  using axis_from_cover [OF assms, of 0 whole] by (simp add: axis_tiles_def)

lemma axis_cover_le: "axis_cover b w xs \<Longrightarrow> b \<le> w"
  by (induction b w xs rule: axis_cover.induct) auto

lemma axis_cover_mem:
  "axis_cover b w xs \<Longrightarrow> (x, c) \<in> set xs \<Longrightarrow> b \<le> unat x \<and> 0 < unat c \<and> unat x + unat c \<le> w"
  by (induction b w xs rule: axis_cover.induct) (auto dest: axis_cover_le)

text \<open>A position of the axis lies in exactly one piece.\<close>

definition in_piece :: "nat \<Rightarrow> u64 \<times> u64 \<Rightarrow> bool" where
  "in_piece i p \<longleftrightarrow> unat (fst p) \<le> i \<and> i < unat (fst p) + unat (snd p)"

lemma axis_cover_unique:
  "axis_cover b w xs \<Longrightarrow> b \<le> i \<Longrightarrow> i < w \<Longrightarrow> \<exists>p. filter (in_piece i) xs = [p] \<and> p \<in> set xs"
proof (induction b w xs rule: axis_cover.induct)
  case (2 b w x c xs)
  show ?case
  proof (cases "i < b + unat c")
    case True
    have "filter (in_piece i) xs = []"
      using 2(2) True by (auto simp: filter_empty_conv in_piece_def dest: axis_cover_mem)
    moreover have "in_piece i (x, c)" using 2(2,3) True by (auto simp: in_piece_def)
    ultimately show ?thesis by simp
  next
    case False
    then show ?thesis using 2 by (auto simp: in_piece_def)
  qed
qed simp

lemma axis_cover_outside: "axis_cover b w xs \<Longrightarrow> w \<le> i \<Longrightarrow> filter (in_piece i) xs = []"
  by (auto simp: filter_empty_conv in_piece_def dest: axis_cover_mem)

section \<open>The count of the tiles\<close>

lemma ceil_divide_pieces: "d \<noteq> 0 \<Longrightarrow> unat (ceil_divide v d) = pieces (unat v) (unat d)"
proof -
  assume "d \<noteq> 0"
  then have d: "0 < unat d" by (simp add: unat_gt_0_iff)
  define q where "q = unat v div unat d"
  define r where "r = unat v mod unat d"
  have v: "unat v = unat d * q + r" and r: "r < unat d" using d by (simp_all add: q_def r_def)
  have eq: "pieces (unat v) (unat d) = q + (if r \<noteq> 0 then 1 else 0)"
  proof (cases "r = 0")
    case True
    then show ?thesis using v d unfolding pieces_def by (intro div_nat_eqI) auto
  next
    case False
    have s: "unat d * (q + 1) = unat d * q + unat d" "unat d * Suc (q + 1) = unat d * q + unat d + unat d"
      by simp_all
    have "unat d * (q + 1) \<le> unat v + unat d - 1" unfolding s using v False by linarith
    moreover have "unat v + unat d - 1 < unat d * Suc (q + 1)" unfolding s using v r d by linarith
    ultimately have "(unat v + unat d - 1) div unat d = q + 1" by (rule div_nat_eqI)
    then show ?thesis using False by (simp add: pieces_def)
  qed
  have "q < 18446744073709551615" if "r \<noteq> 0"
  proof -
    have "q \<le> unat d * q" using d by simp
    then show ?thesis using v that unat_u64_le [of v] by linarith
  qed
  then show ?thesis
    by (auto simp: ceil_divide_def eq unat_div unat_mod unat_add_u64 unat_eq_iff_u64 q_def r_def split: if_splits)
qed

definition geometry_pos :: "tile_geometry \<Rightarrow> bool" where
  "geometry_pos g \<longleftrightarrow> tg_m g \<noteq> 0 \<and> tg_n g \<noteq> 0 \<and> tg_k g \<noteq> 0"

lemma tile_count_Some:
  "tile_count p g = Some c \<Longrightarrow> geometry_pos g \<and>
     unat c = pieces (unat (gp_m p)) (unat (tg_m g)) * pieces (unat (gp_n p)) (unat (tg_n g)) *
              pieces (unat (gp_k p)) (unat (tg_k g))"
  by (auto simp: tile_count_def geometry_pos_def Let_def bind_eq_Some_conv checked_multiply_Some_iff
      ceil_divide_pieces split: if_splits)

text \<open>The axes of a geometry that has no zero.\<close>

definition axes :: "gemm_problem \<Rightarrow> tile_geometry \<Rightarrow> (u64 \<times> u64) list \<Rightarrow> (u64 \<times> u64) list \<Rightarrow> (u64 \<times> u64) list \<Rightarrow> bool" where
  "axes p g ms ns ks \<longleftrightarrow>
     axis_tiles (gp_m p) (tg_m g) = Some ms \<and> axis_tiles (gp_n p) (tg_n g) = Some ns \<and>
     axis_tiles (gp_k p) (tg_k g) = Some ks"

definition axis_shape :: "u64 \<Rightarrow> u64 \<Rightarrow> (u64 \<times> u64) list \<Rightarrow> bool" where
  "axis_shape whole tile xs \<longleftrightarrow> axis_cover 0 (unat whole) xs \<and>
     list_all (\<lambda>(x, c). c = min tile (whole - x)) xs \<and> length xs = pieces (unat whole) (unat tile)"

lemma axes_exist:
  assumes "geometry_pos g"
  obtains ms ns ks where "axes p g ms ns ks"
  using assms axis_tiles_cover [of "tg_m g" "gp_m p"] axis_tiles_cover [of "tg_n g" "gp_n p"]
    axis_tiles_cover [of "tg_k g" "gp_k p"]
  unfolding geometry_pos_def axes_def by blast

lemma axes_shape:
  assumes "geometry_pos g" "axes p g ms ns ks"
  shows "axis_shape (gp_m p) (tg_m g) ms" "axis_shape (gp_n p) (tg_n g) ns" "axis_shape (gp_k p) (tg_k g) ks"
  using assms axis_tiles_cover [of "tg_m g" "gp_m p"] axis_tiles_cover [of "tg_n g" "gp_n p"]
    axis_tiles_cover [of "tg_k g" "gp_k p"]
  unfolding geometry_pos_def axes_def axis_shape_def by auto

lemma length_tiles_of: "length (tiles_of p g ms ns ks) = length ms * length ns * length ks"
  by (simp add: tiles_of_def)

lemma tile_count_length:
  assumes "tile_count p g = Some c" "axes p g ms ns ks"
  shows "length (tiles_of p g ms ns ks) = unat c"
  using tile_count_Some [OF assms(1)] axes_shape [OF _ assms(2)]
  by (simp add: length_tiles_of axis_shape_def)

lemma product_indices: "List.product xs ys = map (\<lambda>(i, j). (xs ! i, ys ! j)) (List.product [0..<length xs] [0..<length ys])"
proof -
  have pm: "List.product (map f is) (map g js) = map (\<lambda>(i, j). (f i, g j)) (List.product is js)"
    for f :: "nat \<Rightarrow> 'a" and g :: "nat \<Rightarrow> 'b" and "is" js
    by (induction "is") simp_all
  show ?thesis using pm [of "(!) xs" "[0..<length xs]" "(!) ys" "[0..<length ys]"] by (simp add: map_nth)
qed

section \<open>Assessments\<close>

text \<open>What an assessment without an error says of its tiles, whichever way it was made.\<close>

lemma visit_enumerate:
  "visit (enumerate_visitor p c) ts (A, s) \<noteq> None \<and>
   (\<forall>A' s'. visit (enumerate_visitor p c) ts (A, s) = Some ((A', s'), True) \<longrightarrow>
      (\<exists>xs. ga_tiles A' = ga_tiles A @ xs \<and> ga_error A' = ga_error A \<and>
         list_all2 (\<lambda>t x. \<exists>ws. enumerate_tile_working_set p t (pc_chunk_bytes c) (pc_maximum_access_ranges_per_tile c) = Some ws \<and>
            wr_error ws = Wse_none \<and> x = summary_of ws) ts xs \<and>
         ga_maximum_resident_bytes A' = fold (\<lambda>x m. max m (ts_resident_bytes x)) xs (ga_maximum_resident_bytes A))) \<and>
   (\<forall>A' s'. visit (enumerate_visitor p c) ts (A, s) = Some ((A', s'), False) \<longrightarrow> ga_error A' \<noteq> Ple_none)"
proof (induction ts arbitrary: A s)
  case (Cons t ts)
  obtain ws where ws: "enumerate_tile_working_set p t (pc_chunk_bytes c) (pc_maximum_access_ranges_per_tile c) = Some ws"
    using working_set_cases [where p = p and t = t and cb = "pc_chunk_bytes c" and mx = "pc_maximum_access_ranges_per_tile c"]
    by (auto split: option.splits)
  show ?case
  proof (cases "wr_error ws = Wse_none")
    case True
    let ?A = "push_summary (summary_of ws) A"
    let ?s = "s\<lparr>ps_legacy_tile_enumerations := ps_legacy_tile_enumerations s + 1\<rparr>"
    have v: "visit (enumerate_visitor p c) (t # ts) (A, s) = visit (enumerate_visitor p c) ts (?A, ?s)"
      using ws True by (simp add: enumerate_visitor_def Let_def)
    have push: "ga_tiles ?A = ga_tiles A @ [summary_of ws]" "ga_error ?A = ga_error A"
      "ga_maximum_resident_bytes ?A = max (ga_maximum_resident_bytes A) (ts_resident_bytes (summary_of ws))"
      by (simp_all add: push_summary_def)
    show ?thesis
      unfolding v using Cons.IH [of ?A ?s] ws True
      by (fastforce simp: push intro: exI [of _ "summary_of ws # _"])
  next
    case False
    then show ?thesis using ws by (simp add: enumerate_visitor_def Let_def)
  qed
qed simp

lemma summarize_grid_ok:
  "summarize_grid c M op prs A s acc = (xs, A', s') \<Longrightarrow> ga_error A' = Ple_none \<Longrightarrow>
     A' = A \<and> ga_error A = Ple_none \<and> (\<exists>ys. xs = acc @ ys \<and>
       list_all2 (\<lambda>(r, cl) y. y = summarize_matrix_rectangle M op (fst r) (snd r) (fst cl) (snd cl)
           (pc_chunk_bytes c) (pc_maximum_access_ranges_per_tile c) \<and> ts_error y = Wse_none) prs ys)"
proof (induction c M op prs A s acc arbitrary: xs A' s' rule: summarize_grid.induct)
  case (2 c M op rows columns rest A s acc)
  let ?y = "summarize_matrix_rectangle M op (fst rows) (snd rows) (fst columns) (snd columns)
      (pc_chunk_bytes c) (pc_maximum_access_ranges_per_tile c)"
  have A: "ga_error A = Ple_none" using 2(2,3) by (auto split: if_splits)
  show ?case
  proof (cases "ts_error ?y = Wse_none")
    case True
    then show ?thesis using 2 A by (fastforce simp: Let_def)
  next
    case False
    let ?A = "A\<lparr>ga_error := Ple_working_set_enumeration_failed, ga_working_set_error := ts_error ?y\<rparr>"
    have "\<exists>s. summarize_grid c M op rest ?A s (acc @ [?y]) = (xs, A', s')"
      using 2(2) A False by (auto simp: Let_def)
    moreover have "summarize_grid c M op rest ?A s acc = (acc, ?A, s)" for s acc
      by (cases rest) auto
    ultimately have "ga_error A' \<noteq> Ple_none" by auto
    then show ?thesis using 2(3) by simp
  qed
qed auto

lemma combine_tiles_ok:
  "combine_tiles c as bs cs n_tiles k_tiles idx A s = (A', s', b) \<Longrightarrow> ga_error A = Ple_none \<Longrightarrow>
   (b \<longrightarrow> ga_error A' = Ple_none \<and> (\<exists>xs. ga_tiles A' = ga_tiles A @ xs \<and>
      list_all2 (\<lambda>(m, n, k) x.
        combine_summaries (pc_chunk_bytes c) (as ! (m * k_tiles + k)) (bs ! (k * n_tiles + n)) (cs ! (m * n_tiles + n)) = Some x \<and>
        ts_access_range_count x \<le> pc_maximum_access_ranges_per_tile c) idx xs \<and>
      ga_maximum_resident_bytes A' = fold (\<lambda>x m. max m (ts_resident_bytes x)) xs (ga_maximum_resident_bytes A))) \<and>
   (\<not> b \<longrightarrow> ga_error A' \<noteq> Ple_none)"
proof (induction c as bs cs n_tiles k_tiles idx A s arbitrary: A' s' b rule: combine_tiles.induct)
  case (2 c as bs cs n_tiles k_tiles m n k rest A s)
  show ?case
  proof (cases "combine_summaries (pc_chunk_bytes c) (as ! (m * k_tiles + k)) (bs ! (k * n_tiles + n)) (cs ! (m * n_tiles + n))")
    case None
    then show ?thesis using 2(2) by (auto simp: Let_def)
  next
    case (Some x)
    show ?thesis
    proof (cases "ts_access_range_count x > pc_maximum_access_ranges_per_tile c")
      case True
      then show ?thesis using 2(2) Some by (auto simp: Let_def)
    next
      case False
      let ?A = "push_summary x A"
      let ?s = "s\<lparr>ps_tile_combinations_assessed := ps_tile_combinations_assessed s + 1\<rparr>"
      have run: "combine_tiles c as bs cs n_tiles k_tiles rest ?A ?s = (A', s', b)"
        using 2(2) Some False by (simp add: Let_def)
      have push: "ga_tiles ?A = ga_tiles A @ [x]" "ga_error ?A = ga_error A"
        "ga_maximum_resident_bytes ?A = max (ga_maximum_resident_bytes A) (ts_resident_bytes x)"
        by (simp_all add: push_summary_def)
      show ?thesis
        using 2(1) [OF refl refl Some False run] 2(3) Some False
        by (fastforce simp: push not_less intro: exI [of _ "x # _"])
    qed
  qed
qed auto

definition tile_matches :: "gemm_problem \<Rightarrow> planner_config \<Rightarrow> gemm_tile \<Rightarrow> tile_summary \<Rightarrow> bool" where
  "tile_matches p c t x \<longleftrightarrow>
     (\<exists>ws. enumerate_tile_working_set p t (pc_chunk_bytes c) (pc_maximum_access_ranges_per_tile c) = Some ws \<and>
        wr_error ws = Wse_none \<and> x = summary_of ws)"

definition rectangle_summary ::
    "planner_config \<Rightarrow> matrix_view \<Rightarrow> matrix_operation \<Rightarrow> u64 \<times> u64 \<Rightarrow> u64 \<times> u64 \<Rightarrow> tile_summary" where
  "rectangle_summary c M op rows columns =
     summarize_matrix_rectangle M op (fst rows) (snd rows) (fst columns) (snd columns)
       (pc_chunk_bytes c) (pc_maximum_access_ranges_per_tile c)"

definition tile_combines :: "gemm_problem \<Rightarrow> planner_config \<Rightarrow> (u64 \<times> u64) \<times> (u64 \<times> u64) \<times> (u64 \<times> u64) \<Rightarrow> tile_summary \<Rightarrow> bool" where
  "tile_combines p c = (\<lambda>(m, n, k) x.
     let a = rectangle_summary c (gp_a p) (gp_a_operation p) m k;
         b = rectangle_summary c (gp_b p) (gp_b_operation p) k n;
         r = rectangle_summary c (gp_c p) Operation_none m n
     in ts_error a = Wse_none \<and> ts_error b = Wse_none \<and> ts_error r = Wse_none \<and>
        combine_summaries (pc_chunk_bytes c) a b r = Some x \<and>
        ts_access_range_count x \<le> pc_maximum_access_ranges_per_tile c)"

definition assessed :: "gemm_problem \<Rightarrow> planner_config \<Rightarrow> tile_geometry \<Rightarrow> geometry_assessment \<Rightarrow> bool" where
  "assessed p c g A \<longleftrightarrow> geometry_pos g \<and>
     (\<exists>cnt ms ns ks. tile_count p g = Some cnt \<and> cnt \<le> pc_maximum_tiles c \<and> axes p g ms ns ks \<and>
        length (ga_tiles A) = unat cnt \<and>
        ga_maximum_resident_bytes A = fold (\<lambda>x m. max m (ts_resident_bytes x)) (ga_tiles A) 0 \<and>
        (\<forall>x\<in>set (ga_tiles A). ts_error x = Wse_none) \<and>
        (if distinct_allocations p
         then list_all2 (tile_combines p c) (List.product ms (List.product ns ks)) (ga_tiles A)
         else list_all2 (tile_matches p c) (tiles_of p g ms ns ks) (ga_tiles A)))"

lemma grid_nth:
  assumes "list_all2 (\<lambda>(r, cl) y. y = rectangle_summary c M op r cl \<and> ts_error y = Wse_none) (List.product xs ys) zs"
    and "i < length xs" "j < length ys"
  shows "zs ! (i * length ys + j) = rectangle_summary c M op (xs ! i) (ys ! j) \<and>
    ts_error (rectangle_summary c M op (xs ! i) (ys ! j)) = Wse_none"
proof -
  have lt: "i * length ys + j < length xs * length ys"
    using assms(2,3) mult_le_mono1 [of "Suc i" "length xs" "length ys"] by simp
  have divs: "(i * length ys + j) div length ys = i" "(i * length ys + j) mod length ys = j"
    using assms(3) by (auto intro!: div_nat_eqI simp: mult.commute)
  have "List.product xs ys ! (i * length ys + j) = (xs ! i, ys ! j)"
    using product_nth [OF lt] divs by simp
  then show ?thesis
    using list_all2_nthD [OF assms(1), of "i * length ys + j"] lt by auto
qed

lemma list_all2_map_product:
  "list_all2 P (List.product xs (List.product ys zs)) ws \<longleftrightarrow>
   list_all2 (\<lambda>(i, j, k). P (xs ! i, ys ! j, zs ! k))
     (List.product [0..<length xs] (List.product [0..<length ys] [0..<length zs])) ws"
proof -
  have "List.product xs (List.product ys zs) =
      map (\<lambda>(i, j, k). (xs ! i, ys ! j, zs ! k)) (List.product [0..<length xs] (List.product [0..<length ys] [0..<length zs]))"
  proof -
    have pm: "List.product (map f is) (map g js) = map (\<lambda>(i, j). (f i, g j)) (List.product is js)"
      for f :: "nat \<Rightarrow> 'a" and g :: "nat \<times> nat \<Rightarrow> 'b \<times> 'c" and "is" js
      by (induction "is") simp_all
    have "List.product (map ((!) xs) [0..<length xs]) (map (\<lambda>(j, k). (ys ! j, zs ! k)) (List.product [0..<length ys] [0..<length zs])) =
        map (\<lambda>(i, j). (xs ! i, (\<lambda>(j, k). (ys ! j, zs ! k)) j)) (List.product [0..<length xs] (List.product [0..<length ys] [0..<length zs]))"
      by (rule pm)
    then show ?thesis
      unfolding map_nth product_indices [of ys zs, symmetric] by (simp add: case_prod_unfold)
  qed
  then show ?thesis by (simp add: list_all2_map1 case_prod_unfold)
qed

lemma assess_by_summaries_ok:
  assumes "assess_by_summaries p c cnt ms ns ks s = (A, s')" "ga_error A = Ple_none"
  shows "length (ga_tiles A) = unat cnt \<and>
    list_all2 (tile_combines p c) (List.product ms (List.product ns ks)) (ga_tiles A) \<and>
    ga_maximum_resident_bytes A = fold (\<lambda>x m. max m (ts_resident_bytes x)) (ga_tiles A) 0"
proof -
  obtain as A1 s1 where a: "summarize_grid c (gp_a p) (gp_a_operation p) (List.product ms ks)
      geometry_assessment_default s [] = (as, A1, s1)" by (metis prod_cases3)
  obtain bs A2 s2 where b: "summarize_grid c (gp_b p) (gp_b_operation p) (List.product ks ns) A1 s1 [] = (bs, A2, s2)"
    by (metis prod_cases3)
  obtain cs A3 s3 where r: "summarize_grid c (gp_c p) Operation_none (List.product ms ns) A2 s2 [] = (cs, A3, s3)"
    by (metis prod_cases3)
  obtain A4 s4 fin where d: "combine_tiles c as bs cs (length ns) (length ks)
      (List.product [0..<length ms] (List.product [0..<length ns] [0..<length ks])) A3 s3 = (A4, s4, fin)"
    by (metis prod_cases3)
  have e3: "ga_error A3 = Ple_none"
    using assms by (auto simp: assess_by_summaries_def a b r d split: if_splits)
  note R = summarize_grid_ok [OF r e3]
  note B = summarize_grid_ok [OF b] and A' = summarize_grid_ok [OF a]
  have e2: "ga_error A2 = Ple_none" using R by simp
  have e1: "ga_error A1 = Ple_none" using B [OF e2] by simp
  have A3: "A3 = geometry_assessment_default" using R B [OF e2] A' [OF e1] by simp
  note D = combine_tiles_ok [OF d e3]
  have fin and len: "length (ga_tiles A4) = unat cnt" and A4: "A = A4"
    using assms D e3 by (auto simp: assess_by_summaries_def a b r d split: if_splits)
  then obtain xs where xs: "ga_tiles A4 = xs"
    "list_all2 (\<lambda>(m, n, k) x.
        combine_summaries (pc_chunk_bytes c) (as ! (m * length ks + k)) (bs ! (k * length ns + n)) (cs ! (m * length ns + n)) = Some x \<and>
        ts_access_range_count x \<le> pc_maximum_access_ranges_per_tile c)
       (List.product [0..<length ms] (List.product [0..<length ns] [0..<length ks])) xs"
    "ga_maximum_resident_bytes A4 = fold (\<lambda>x m. max m (ts_resident_bytes x)) xs 0"
    using D by (auto simp: A3 geometry_assessment_default_def)
  note ga = grid_nth [of c "gp_a p" "gp_a_operation p" ms ks as]
    and gb = grid_nth [of c "gp_b p" "gp_b_operation p" ks ns bs]
    and gc = grid_nth [of c "gp_c p" Operation_none ms ns cs]
  have rs: "list_all2 (\<lambda>(rr, cl) y. y = rectangle_summary c (gp_a p) (gp_a_operation p) rr cl \<and> ts_error y = Wse_none) (List.product ms ks) as"
    "list_all2 (\<lambda>(rr, cl) y. y = rectangle_summary c (gp_b p) (gp_b_operation p) rr cl \<and> ts_error y = Wse_none) (List.product ks ns) bs"
    "list_all2 (\<lambda>(rr, cl) y. y = rectangle_summary c (gp_c p) Operation_none rr cl \<and> ts_error y = Wse_none) (List.product ms ns) cs"
    using R B [OF e2] A' [OF e1] unfolding rectangle_summary_def by auto
  have "list_all2 (tile_combines p c) (List.product ms (List.product ns ks)) xs"
  proof (rule list_all2_map_product [THEN iffD2], rule list.rel_mono_strong [OF xs(2)])
    fix idx x
    assume "idx \<in> set (List.product [0..<length ms] (List.product [0..<length ns] [0..<length ks]))"
    then obtain m n k where i: "idx = (m, n, k)" "m < length ms" "n < length ns" "k < length ks" by auto
    assume "(case idx of (m, n, k) \<Rightarrow> \<lambda>x.
        combine_summaries (pc_chunk_bytes c) (as ! (m * length ks + k)) (bs ! (k * length ns + n)) (cs ! (m * length ns + n)) = Some x \<and>
        ts_access_range_count x \<le> pc_maximum_access_ranges_per_tile c) x"
    then show "(case idx of (i, j, k) \<Rightarrow> tile_combines p c (ms ! i, ns ! j, ks ! k)) x"
      using ga [OF rs(1) i(2,4)] gb [OF rs(2) i(4,3)] gc [OF rs(3) i(2,3)]
      by (simp add: i(1) tile_combines_def Let_def)
  qed
  then show ?thesis using A4 len xs by simp
qed

lemma combine_facts:
  "combine_summaries cb a b r = Some x \<Longrightarrow>
     ts_error x = Wse_none \<and> checked_multiply (ts_chunk_count x) cb = Some (ts_resident_bytes x)"
  by (auto simp: combine_summaries_def bind_eq_Some_conv)

lemma assess_geometry_ok:
  "\<exists>A s'. assess_geometry p c g s = Some (A, s') \<and> (ga_error A = Ple_none \<longrightarrow> assessed p c g A)"
proof (cases "tile_count p g")
  case None
  then show ?thesis by (simp add: assess_geometry_def Let_def geometry_assessment_default_def)
next
  case (Some cnt)
  show ?thesis
  proof (cases "cnt > pc_maximum_tiles c")
    case True
    then show ?thesis using Some by (simp add: assess_geometry_def Let_def geometry_assessment_default_def)
  next
    case False
    have g: "geometry_pos g" using tile_count_Some [OF Some] by simp
    obtain ms ns ks where ax: "axes p g ms ns ks" using axes_exist [OF g] by blast
    note len = tile_count_length [OF Some ax]
    let ?s = "s\<lparr>ps_geometry_assessments := ps_geometry_assessments s + 1\<rparr>"
    have max: "\<not> cnt > max_u64" by (simp add: not_less)
    show ?thesis
    proof (cases "distinct_allocations p")
      case True
      obtain A s' where r: "assess_by_summaries p c cnt ms ns ks ?s = (A, s')" by (metis surj_pair)
      have run: "assess_geometry p c g s = Some (A, s')"
        using Some False max True ax r by (simp add: assess_geometry_def Let_def axes_def)
      have "assessed p c g A" if e: "ga_error A = Ple_none"
      proof -
        note ok = assess_by_summaries_ok [OF r e]
        have "ts_error x = Wse_none" if x: "x \<in> set (ga_tiles A)" for x
        proof -
          obtain i where i: "i < length (ga_tiles A)" "x = ga_tiles A ! i" using x by (auto simp: in_set_conv_nth)
          have "tile_combines p c (List.product ms (List.product ns ks) ! i) x"
            using list_all2_nthD2 [OF ok [THEN conjunct2, THEN conjunct1] i(1)] i(2) by simp
          then show ?thesis
            by (auto simp: tile_combines_def Let_def dest: combine_facts split: prod.splits)
        qed
        then show ?thesis
          using ok True g Some False ax unfolding assessed_def by (auto simp: not_less)
      qed
      then show ?thesis using run by blast
    next
      case nd: False
      obtain A s' b where r: "visit (enumerate_visitor p c) (tiles_of p g ms ns ks) (geometry_assessment_default, ?s) = Some ((A, s'), b)"
        using visit_enumerate [of p c "tiles_of p g ms ns ks" geometry_assessment_default ?s] by auto
      note v = visit_enumerate [of p c "tiles_of p g ms ns ks" geometry_assessment_default ?s, unfolded r]
      have run: "assess_geometry p c g s =
          Some (if \<not> b \<and> ga_error A = Ple_none then A\<lparr>ga_error := Ple_working_set_enumeration_failed\<rparr> else A, s')"
        using Some False max nd ax r by (simp add: assess_geometry_def Let_def axes_def visit_tiles_def)
      show ?thesis
      proof (cases b)
        case True
        then obtain xs where xs: "ga_tiles A = xs" "list_all2 (tile_matches p c) (tiles_of p g ms ns ks) xs"
          "ga_maximum_resident_bytes A = fold (\<lambda>x m. max m (ts_resident_bytes x)) xs 0" "ga_error A = Ple_none"
          using v unfolding tile_matches_def [abs_def] by (auto simp: geometry_assessment_default_def)
        have none: "\<forall>x\<in>set xs. ts_error x = Wse_none"
        proof
          fix x assume "x \<in> set xs"
          then obtain i where i: "i < length xs" "x = xs ! i" by (auto simp: in_set_conv_nth)
          show "ts_error x = Wse_none"
            using list_all2_nthD2 [OF xs(2) i(1)] i(2)
            by (auto simp: tile_matches_def summary_of_def tile_summary_default_def)
        qed
        have "assessed p c g A"
          using xs nd g Some False ax len none list_all2_lengthD [OF xs(2)]
          unfolding assessed_def by (auto simp: not_less)
        then show ?thesis using run True by simp
      next
        case False
        then have "ga_error A \<noteq> Ple_none" using v by simp
        then show ?thesis using run by simp
      qed
    qed
  qed
qed

lemma add_candidates_ok:
  assumes "\<forall>x\<in>set cs. P (fst x) \<and> assessed p c (fst x) (snd x)" "\<forall>h\<in>set gs. h \<noteq> g \<longrightarrow> P h"
  shows "\<exists>cs' s'. add_candidates p c g gs cs s = Some (cs', s') \<and>
    (\<forall>x\<in>set cs'. P (fst x) \<and> assessed p c (fst x) (snd x))"
  using assms
proof (induction gs arbitrary: cs s)
  case (Cons h gs)
  show ?case
  proof (cases "h = g \<or> list_ex (\<lambda>x. fst x = h) cs")
    case True
    then show ?thesis using Cons by simp
  next
    case False
    obtain A s' where A: "assess_geometry p c h s = Some (A, s')" "ga_error A = Ple_none \<longrightarrow> assessed p c h A"
      using assess_geometry_ok by blast
    then show ?thesis
      using Cons.IH [of "if ga_error A = Ple_none then cs @ [(h, A)] else cs" s'] Cons.prems False
      by (auto split: if_splits)
  qed
qed auto

lemma min_element_in: "min_element before x xs \<in> set (x # xs)"
proof -
  have "fold (\<lambda>y best. if before y best then y else best) xs x \<in> set (x # xs)"
  proof (induction xs arbitrary: x)
    case (Cons a xs)
    then show ?case using Cons [of a] Cons [of x] by auto
  qed simp
  then show ?thesis by (simp add: min_element_def)
qed

section \<open>The search ends\<close>

lemma reduced_dimension_less:
  assumes "v \<noteq> 0" "alignment \<noteq> 0" "reduced_dimension v alignment \<noteq> v"
  shows "unat (reduced_dimension v alignment) < unat v \<and> reduced_dimension v alignment \<noteq> 0"
proof -
  have v: "\<not> v \<le> 1" using assms(3) by (auto simp: reduced_dimension_def)
  then have v2: "1 < unat v" by (simp add: word_le_nat_alt)
  have m1: "unat (v - 1) = unat v - 1" using v2 by (intro minus_one_u64) simp
  let ?r = "max 1 (if v > alignment then max (v div 2) alignment - max (v div 2) alignment mod alignment else v div 2)"
  have eq: "reduced_dimension v alignment = (if ?r \<ge> v then v - 1 else ?r)"
    using v by (simp add: reduced_dimension_def Let_def)
  show ?thesis
  proof (cases "?r \<ge> v")
    case True
    then have "reduced_dimension v alignment = v - 1" unfolding eq by (rule if_P)
    then show ?thesis using m1 v2 by (auto simp flip: unat_gt_0_iff)
  next
    case False
    then have r: "reduced_dimension v alignment = ?r" unfolding eq by (rule if_not_P)
    have "?r < v" using False by (simp only: not_le)
    moreover have "1 \<le> ?r" by simp
    ultimately show ?thesis unfolding r by (metis word_less_nat_alt word_le_0_iff one_neq_zero)
  qed
qed

lemma tile_alignment_pos: "tile_alignment p \<noteq> 0"
  by (simp add: tile_alignment_def)

definition geometry_size :: "tile_geometry \<Rightarrow> nat" where
  "geometry_size g = unat (tg_m g) + unat (tg_n g) + unat (tg_k g)"

lemma reduced_geometries_smaller:
  assumes "geometry_pos g" "h \<in> set (reduced_geometries fk (tile_alignment p) g)" "h \<noteq> g"
  shows "geometry_pos h \<and> geometry_size h < geometry_size g \<and> (fk \<longrightarrow> tg_k h = tg_k g)"
proof -
  have red: "unat (reduced_dimension v (tile_alignment p)) < unat v \<and> reduced_dimension v (tile_alignment p) \<noteq> 0"
    if "v \<noteq> 0" "reduced_dimension v (tile_alignment p) \<noteq> v" for v
    using reduced_dimension_less [OF that(1) tile_alignment_pos that(2)] .
  have "h = g\<lparr>tg_m := reduced_dimension (tg_m g) (tile_alignment p)\<rparr> \<or>
      h = g\<lparr>tg_n := reduced_dimension (tg_n g) (tile_alignment p)\<rparr> \<or>
      (\<not> fk \<and> h = g\<lparr>tg_k := reduced_dimension (tg_k g) (tile_alignment p)\<rparr>)"
    using assms(2,3) by (auto simp: reduced_geometries_def split: if_splits)
  then show ?thesis
  proof (elim disjE)
    assume h: "h = g\<lparr>tg_m := reduced_dimension (tg_m g) (tile_alignment p)\<rparr>"
    then have "reduced_dimension (tg_m g) (tile_alignment p) \<noteq> tg_m g" using assms(3) by auto
    then show ?thesis using red [of "tg_m g"] assms(1) h by (simp add: geometry_pos_def geometry_size_def)
  next
    assume h: "h = g\<lparr>tg_n := reduced_dimension (tg_n g) (tile_alignment p)\<rparr>"
    then have "reduced_dimension (tg_n g) (tile_alignment p) \<noteq> tg_n g" using assms(3) by auto
    then show ?thesis using red [of "tg_n g"] assms(1) h by (simp add: geometry_pos_def geometry_size_def)
  next
    assume h: "\<not> fk \<and> h = g\<lparr>tg_k := reduced_dimension (tg_k g) (tile_alignment p)\<rparr>"
    then have "reduced_dimension (tg_k g) (tile_alignment p) \<noteq> tg_k g" using assms(3) by auto
    then show ?thesis using red [of "tg_k g"] assms(1) h by (simp add: geometry_pos_def geometry_size_def)
  qed
qed

lemma shrink_geometry_ok:
  assumes "assessed p c g A"
  shows "\<exists>r s'. shrink_geometry p c available fk g A s = Some (r, s') \<and>
    (\<forall>g' A'. r = Some (g', A') \<longrightarrow> assessed p c g' A' \<and> ga_maximum_resident_bytes A' \<le> available \<and>
       geometry_size g' \<le> geometry_size g \<and> (fk \<longrightarrow> tg_k g' = tg_k g))"
  using assms
proof (induction "geometry_size g" arbitrary: g A s rule: less_induct)
  case less
  note unf = shrink_geometry.simps [of p c available fk g A s]
  show ?case
  proof (cases "ga_maximum_resident_bytes A > available")
    case False
    have "shrink_geometry p c available fk g A s = Some (Some (g, A), s)"
      unfolding unf using False by simp
    then show ?thesis using less.prems False by (simp add: not_less)
  next
    case True
    have pos: "geometry_pos g" using less.prems by (simp add: assessed_def)
    let ?P = "\<lambda>h. geometry_size h < geometry_size g \<and> (fk \<longrightarrow> tg_k h = tg_k g)"
    obtain cs s' where cs: "add_candidates p c g (reduced_geometries fk (tile_alignment p) g) [] s = Some (cs, s')"
      "\<forall>x\<in>set cs. ?P (fst x) \<and> assessed p c (fst x) (snd x)"
      using add_candidates_ok [of "[]" ?P p c "reduced_geometries fk (tile_alignment p) g" g s]
        reduced_geometries_smaller [OF pos] by auto
    show ?thesis
    proof (cases cs)
      case Nil
      then show ?thesis using True cs by (simp add: unf)
    next
      case (Cons x xs)
      define best where "best = min_element (candidate_before available (list_ex (candidate_fits available) cs)) x xs"
      have "best \<in> set cs" unfolding best_def Cons by (rule min_element_in)
      then have b: "?P (fst best)" "assessed p c (fst best) (snd best)" using cs(2) by auto
      have run: "shrink_geometry p c available fk g A s = shrink_geometry p c available fk (fst best) (snd best) s'"
        using True cs(1) Cons by (simp add: unf Let_def best_def)
      show ?thesis unfolding run using less.hyps [of "fst best" "snd best" s'] b by fastforce
    qed
  qed
qed

section \<open>The plan that is made\<close>

definition planned_tile :: "gemm_problem \<Rightarrow> planner_config \<Rightarrow> gemm_tile \<Rightarrow> tile_summary \<Rightarrow> gemm_tile" where
  "planned_tile p c t x =
     (let t = t\<lparr>gt_resident_bytes := ts_resident_bytes x, gt_chunk_count := ts_chunk_count x,
                gt_access_range_count := ts_access_range_count x\<rparr>
      in t\<lparr>gt_algorithm_signature := make_algorithm_signature p t (pc_workspace_bytes c)\<rparr>)"

lemma planned_tile_sel [simp]:
  "gt_sequence (planned_tile p c t x) = gt_sequence t" "gt_m_begin (planned_tile p c t x) = gt_m_begin t"
  "gt_n_begin (planned_tile p c t x) = gt_n_begin t" "gt_k_begin (planned_tile p c t x) = gt_k_begin t"
  "gt_m_count (planned_tile p c t x) = gt_m_count t" "gt_n_count (planned_tile p c t x) = gt_n_count t"
  "gt_k_count (planned_tile p c t x) = gt_k_count t" "gt_beta_mode (planned_tile p c t x) = gt_beta_mode t"
  "gt_c_access_mode (planned_tile p c t x) = gt_c_access_mode t"
  "gt_resident_bytes (planned_tile p c t x) = ts_resident_bytes x"
  "gt_chunk_count (planned_tile p c t x) = ts_chunk_count x"
  "gt_access_range_count (planned_tile p c t x) = ts_access_range_count x"
  by (simp_all add: planned_tile_def Let_def)

lemma visit_plan:
  fixes p c
  assumes "\<forall>t\<in>set ts. unat (gt_sequence t) < length (ga_tiles A) \<and>
    ts_error (ga_tiles A ! unat (gt_sequence t)) = Wse_none"
  defines "f \<equiv> \<lambda>t. planned_tile p c t (ga_tiles A ! unat (gt_sequence t))"
  shows "visit (plan_visitor p c A) ts plan =
    Some (plan\<lparr>gl_maximum_resident_bytes :=
              fold (\<lambda>t m. max m (gt_resident_bytes t)) (map f ts) (gl_maximum_resident_bytes plan),
            gl_tiles := gl_tiles plan @ map f ts\<rparr>, True)"
  using assms(1)
proof (induction ts arbitrary: plan)
  case (Cons t ts)
  have step: "plan_visitor p c A t plan =
      Some (plan\<lparr>gl_maximum_resident_bytes := max (gl_maximum_resident_bytes plan) (gt_resident_bytes (f t)),
                gl_tiles := gl_tiles plan @ [f t]\<rparr>, True)"
    using Cons.prems by (simp add: plan_visitor_def f_def planned_tile_def Let_def)
  show ?case using Cons by (simp add: step)
qed simp

lemma tiles_of_nth:
  assumes "i < length (tiles_of p g ms ns ks)" "length (tiles_of p g ms ns ks) < 18446744073709551616"
  shows "unat (gt_sequence (tiles_of p g ms ns ks ! i)) = i"
  using assms unat_of_nat_u64 [of i]
  by (simp add: tiles_of_def nth_enumerate_eq make_tile_def split: prod.splits)

definition plan_facts ::
    "gemm_problem \<Rightarrow> planner_config \<Rightarrow> gemm_plan \<Rightarrow> geometry_assessment \<Rightarrow> (u64 \<times> u64) list \<Rightarrow> (u64 \<times> u64) list \<Rightarrow> (u64 \<times> u64) list \<Rightarrow> bool" where
  "plan_facts p c plan A ms ns ks \<longleftrightarrow>
     problem_ok p \<and> pc_chunk_bytes c \<noteq> 0 \<and> pc_maximum_access_ranges_per_tile c \<noteq> 0 \<and>
     pc_workspace_bytes c < pc_cache_target_bytes c \<and>
     gl_cache_bytes_available_to_chunks plan =
       (pc_cache_target_bytes c - pc_workspace_bytes c) div pc_chunk_bytes c * pc_chunk_bytes c \<and>
     assessed p c (gl_geometry plan) A \<and> axes p (gl_geometry plan) ms ns ks \<and>
     ga_maximum_resident_bytes A \<le> gl_cache_bytes_available_to_chunks plan \<and>
     (requires_full_k p \<longrightarrow> tg_k (gl_geometry plan) = gp_k p) \<and>
     gl_tiles plan = map2 (planned_tile p c) (tiles_of p (gl_geometry plan) ms ns ks) (ga_tiles A) \<and>
     gl_maximum_resident_bytes plan = fold (\<lambda>t m. max m (gt_resident_bytes t)) (gl_tiles plan) 0"

lemma emit_plan_ok:
  assumes "assessed p c g A" "gl_tiles plan = []" "gl_maximum_resident_bytes plan = 0"
  shows "\<exists>ms ns ks. axes p g ms ns ks \<and> emit_plan p c g A plan =
    Some (plan\<lparr>gl_maximum_resident_bytes :=
        fold (\<lambda>t m. max m (gt_resident_bytes t)) (map2 (planned_tile p c) (tiles_of p g ms ns ks) (ga_tiles A)) 0,
      gl_tiles := map2 (planned_tile p c) (tiles_of p g ms ns ks) (ga_tiles A), gl_geometry := g\<rparr>)"
proof -
  obtain cnt ms ns ks where a: "tile_count p g = Some cnt" "axes p g ms ns ks"
    "length (ga_tiles A) = unat cnt" "\<forall>x\<in>set (ga_tiles A). ts_error x = Wse_none"
    using assms(1) by (auto simp: assessed_def)
  let ?ts = "tiles_of p g ms ns ks"
  have len: "length ?ts = unat cnt" by (rule tile_count_length [OF a(1,2)])
  have seq: "unat (gt_sequence (?ts ! i)) = i" if "i < length ?ts" for i
    using tiles_of_nth [OF that] len unat_u64_bound [of cnt] by simp
  have ok: "\<forall>t\<in>set ?ts. unat (gt_sequence t) < length (ga_tiles A) \<and>
      ts_error (ga_tiles A ! unat (gt_sequence t)) = Wse_none"
  proof
    fix t assume "t \<in> set ?ts"
    then obtain i where "i < length ?ts" "t = ?ts ! i" by (auto simp: in_set_conv_nth)
    then show "unat (gt_sequence t) < length (ga_tiles A) \<and> ts_error (ga_tiles A ! unat (gt_sequence t)) = Wse_none"
      using seq a(3,4) len by simp
  qed
  have m: "map (\<lambda>t. planned_tile p c t (ga_tiles A ! unat (gt_sequence t))) ?ts =
      map2 (planned_tile p c) ?ts (ga_tiles A)"
    using seq len a(3) by (intro nth_equalityI) simp_all
  have "emit_plan p c g A plan =
    Some (plan\<lparr>gl_maximum_resident_bytes :=
        fold (\<lambda>t m. max m (gt_resident_bytes t)) (map2 (planned_tile p c) ?ts (ga_tiles A)) 0,
      gl_tiles := map2 (planned_tile p c) ?ts (ga_tiles A), gl_geometry := g\<rparr>)"
    using a(1,2) len a(3) assms(2,3) visit_plan [OF ok, of p c plan]
    by (simp add: emit_plan_def visit_tiles_def axes_def m)
  then show ?thesis using a(2) by blast
qed

text \<open>A chain of guards with a last step, for a property of every refusal.\<close>

lemma guard_chain:
  assumes "P x1" "P x2" "P x3" "P x4" "P x5" "P x6" "\<not> r \<Longrightarrow> P y"
    and "b1 \<or> b2 \<or> b3 \<or> b4 \<or> b5 \<or> b6 \<or> \<not> r"
  shows "P (if b1 then x1 else if b2 then x2 else if b3 then x3 else if b4 then x4 else if b5 then x5
    else if b6 then x6 else y)"
  using assms by auto

lemma make_plan_cases:
  "\<exists>plan. make_plan p c = Some plan \<and>
     (if gl_error plan = Ple_none then \<exists>A ms ns ks. plan_facts p c plan A ms ns ks else gl_tiles plan = [])"
proof -
  let ?fail = "\<lambda>plan e. plan\<lparr>gl_error := e, gl_tiles := []\<rparr>"
  define plan0 where "plan0 = gemm_plan_default\<lparr>gl_problem_validation := validate_problem p\<rparr>"
  define available where "available =
    (pc_cache_target_bytes c - pc_workspace_bytes c) div pc_chunk_bytes c * pc_chunk_bytes c"
  define plan1 where "plan1 = plan0\<lparr>gl_cache_bytes_available_to_chunks := available\<rparr>"
  define g0 where "g0 = initial_geometry p c"
  obtain A s where as: "assess_geometry p c g0 (gl_statistics plan1) = Some (A, s)"
    "ga_error A = Ple_none \<longrightarrow> assessed p c g0 A"
    using assess_geometry_ok by blast
  show ?thesis
  proof (cases "pv_error (validate_problem p) = Pe_none \<and> pc_chunk_bytes c \<noteq> 0 \<and>
      \<not> pc_cache_target_bytes c < pc_chunk_bytes c \<and> \<not> pc_workspace_bytes c \<ge> pc_cache_target_bytes c \<and>
      \<not> (tg_m (pc_preferred_geometry c) = 0 \<or> tg_n (pc_preferred_geometry c) = 0 \<or>
         tg_k (pc_preferred_geometry c) = 0 \<or> pc_maximum_tiles c = 0 \<or> pc_maximum_access_ranges_per_tile c = 0) \<and>
      available \<noteq> 0 \<and> tile_count p g0 \<noteq> None \<and> \<not> the (tile_count p g0) > pc_maximum_tiles c \<and>
      ga_error A = Ple_none")
    case False
    have "\<exists>plan e. make_plan p c = Some (?fail plan e) \<and> e \<noteq> Ple_none"
      unfolding make_plan_def Let_def plan0_def [symmetric] available_def [symmetric] plan1_def [symmetric] g0_def [symmetric]
    proof (rule guard_chain [where P = "\<lambda>z. \<exists>plan e. z = Some (?fail plan e) \<and> e \<noteq> Ple_none" and
          r = "tile_count p g0 \<noteq> None \<and> \<not> the (tile_count p g0) > pc_maximum_tiles c \<and> ga_error A = Ple_none"], goal_cases)
      case 7
      then show ?case using as(1) by (cases "tile_count p g0") auto
    next
      case 8
      then show ?case using False by blast
    qed blast+
    then show ?thesis by auto
  next
    case True
    let ?plan2 = "plan1\<lparr>gl_statistics := s\<rparr>"
    obtain r s' where sh: "shrink_geometry p c available (requires_full_k p) g0 A s = Some (r, s')"
      "\<forall>g' A'. r = Some (g', A') \<longrightarrow> assessed p c g' A' \<and> ga_maximum_resident_bytes A' \<le> available \<and>
         geometry_size g' \<le> geometry_size g0 \<and> (requires_full_k p \<longrightarrow> tg_k g' = tg_k g0)"
      using shrink_geometry_ok [of p c g0 A] as(2) True by blast
    obtain cnt where cnt: "tile_count p g0 = Some cnt" "\<not> cnt > pc_maximum_tiles c" using True by auto
    have run: "make_plan p c =
        (case r of None \<Rightarrow> Some (?fail (plan1\<lparr>gl_statistics := s'\<rparr>) Ple_working_set_too_large)
         | Some (g, A) \<Rightarrow> emit_plan p c g A (plan1\<lparr>gl_statistics := s'\<rparr>))"
      using True as(1) sh(1) cnt
      unfolding make_plan_def Let_def plan0_def [symmetric] available_def [symmetric] plan1_def [symmetric] g0_def [symmetric]
      by (simp add: plan1_def split: option.split)
    show ?thesis
    proof (cases r)
      case None
      then show ?thesis unfolding run by simp
    next
      case (Some gA)
      then obtain g A' where r: "r = Some (g, A')" by (cases gA) auto
      have ass: "assessed p c g A'" using sh(2) r by blast
      have "gl_tiles (plan1\<lparr>gl_statistics := s'\<rparr>) = []" "gl_maximum_resident_bytes (plan1\<lparr>gl_statistics := s'\<rparr>) = 0"
        by (simp_all add: plan1_def plan0_def gemm_plan_default_def)
      from emit_plan_ok [OF ass this] obtain ms ns ks where e: "axes p g ms ns ks"
        "emit_plan p c g A' (plan1\<lparr>gl_statistics := s'\<rparr>) =
          Some (plan1\<lparr>gl_statistics := s', gl_maximum_resident_bytes :=
              fold (\<lambda>t m. max m (gt_resident_bytes t)) (map2 (planned_tile p c) (tiles_of p g ms ns ks) (ga_tiles A')) 0,
            gl_tiles := map2 (planned_tile p c) (tiles_of p g ms ns ks) (ga_tiles A'), gl_geometry := g\<rparr>)"
        by auto
      have full: "requires_full_k p \<longrightarrow> tg_k g = gp_k p"
        using sh(2) r by (auto simp: g0_def initial_geometry_def)
      define plan where "plan = plan1\<lparr>gl_statistics := s', gl_maximum_resident_bytes :=
              fold (\<lambda>t m. max m (gt_resident_bytes t)) (map2 (planned_tile p c) (tiles_of p g ms ns ks) (ga_tiles A')) 0,
            gl_tiles := map2 (planned_tile p c) (tiles_of p g ms ns ks) (ga_tiles A'), gl_geometry := g\<rparr>"
      have "plan_facts p c plan A' ms ns ks"
        using True sh(2) r e(1) ass full
        by (simp add: plan_facts_def plan_def validate_problem_iff plan1_def available_def not_le)
      moreover have "make_plan p c = Some plan"
        unfolding run r option.case prod.case e(2) plan_def ..
      moreover have "gl_error plan = Ple_none"
        by (simp add: plan_def plan1_def plan0_def gemm_plan_default_def)
      ultimately show ?thesis by auto
    qed
  qed
qed

lemma make_plan_facts:
  assumes "make_plan p c = Some plan" "gl_error plan = Ple_none"
  obtains A ms ns ks where "plan_facts p c plan A ms ns ks"
  using make_plan_cases [of p c] assms by auto

section \<open>The tiles cover the product\<close>

definition in_tile :: "gemm_tile \<Rightarrow> nat \<Rightarrow> nat \<Rightarrow> nat \<Rightarrow> bool" where
  "in_tile t i j l \<longleftrightarrow>
     in_piece i (gt_m_begin t, gt_m_count t) \<and> in_piece j (gt_n_begin t, gt_n_count t) \<and>
     in_piece l (gt_k_begin t, gt_k_count t)"

text \<open>The part of a tile that the axes determine.\<close>

definition tile_triple :: "gemm_tile \<Rightarrow> (u64 \<times> u64) \<times> (u64 \<times> u64) \<times> (u64 \<times> u64)" where
  "tile_triple t = ((gt_m_begin t, gt_m_count t), (gt_n_begin t, gt_n_count t), (gt_k_begin t, gt_k_count t))"

lemma tiles_of_triples:
  assumes "axis_shape (gp_m p) (tg_m g) ms" "axis_shape (gp_n p) (tg_n g) ns" "axis_shape (gp_k p) (tg_k g) ks"
  shows "map tile_triple (tiles_of p g ms ns ks) = List.product ms (List.product ns ks)"
proof -
  have piece: "(x, min tile (whole - x)) = (x, c)" if "axis_shape whole tile xs" "(x, c) \<in> set xs" for whole tile xs x c
    using that by (auto simp: axis_shape_def list_all_iff)
  have "map tile_triple (tiles_of p g ms ns ks) =
      map (\<lambda>(s, m, n, k). (m, n, k)) (List.enumerate 0 (List.product ms (List.product ns ks)))"
    unfolding tiles_of_def map_map
  proof (rule map_cong [OF refl])
    fix y assume "y \<in> set (List.enumerate 0 (List.product ms (List.product ns ks)))"
    then have "snd y \<in> set (map snd (List.enumerate 0 (List.product ms (List.product ns ks))))"
      unfolding set_map by (rule imageI)
    then have "snd y \<in> set (List.product ms (List.product ns ks))" by (simp only: map_snd_enumerate)
    then obtain s m n k where y: "y = (s, m, n, k)" "m \<in> set ms" "n \<in> set ns" "k \<in> set ks"
      by (cases y) auto
    show "(tile_triple \<circ> (\<lambda>(sequence, m, n, k). make_tile p g (fst m) (fst n) (fst k) (of_nat sequence))) y =
        (case y of (s, m, n, k) \<Rightarrow> (m, n, k))"
      using piece [OF assms(1), of "fst m" "snd m"] piece [OF assms(2), of "fst n" "snd n"]
        piece [OF assms(3), of "fst k" "snd k"] y
      by (simp add: tile_triple_def make_tile_def)
  qed
  also have "\<dots> = List.product ms (List.product ns ks)"
    using map_snd_enumerate [of 0 "List.product ms (List.product ns ks)"] by (simp add: case_prod_unfold cong: map_cong)
  finally show ?thesis .
qed

lemma map_map2_same:
  "length xs = length ys \<Longrightarrow> (\<And>t x. f (h t x) = f t) \<Longrightarrow> map f (map2 h xs ys) = map f xs"
  by (induction xs ys rule: list_induct2) simp_all

lemma map_map2_second:
  "length xs = length ys \<Longrightarrow> (\<And>t x. f (h t x) = g x) \<Longrightarrow> map f (map2 h xs ys) = map g ys"
  by (induction xs ys rule: list_induct2) simp_all

lemma plan_triples:
  assumes "plan_facts p c plan A ms ns ks"
  shows "map tile_triple (gl_tiles plan) = List.product ms (List.product ns ks)"
    and "axis_cover 0 (unat (gp_m p)) ms" "axis_cover 0 (unat (gp_n p)) ns" "axis_cover 0 (unat (gp_k p)) ks"
    and "\<exists>cnt. tile_count p (gl_geometry plan) = Some cnt \<and> length (gl_tiles plan) = unat cnt \<and> cnt \<le> pc_maximum_tiles c"
    and "map gt_sequence (gl_tiles plan) = map of_nat [0..<length (gl_tiles plan)]"
    and "map gt_beta_mode (gl_tiles plan) = map (\<lambda>t. if gt_k_begin t = 0 then User_beta else Accumulate_one) (gl_tiles plan)"
    and "length (ga_tiles A) = length (gl_tiles plan)"
    and "length (tiles_of p (gl_geometry plan) ms ns ks) = length (ga_tiles A)"
proof -
  let ?g = "gl_geometry plan"
  have g: "geometry_pos ?g" and ax: "axes p ?g ms ns ks"
    and tiles: "gl_tiles plan = map2 (planned_tile p c) (tiles_of p ?g ms ns ks) (ga_tiles A)"
    using assms by (simp_all add: plan_facts_def assessed_def)
  obtain cnt where cnt: "tile_count p ?g = Some cnt" "cnt \<le> pc_maximum_tiles c" "length (ga_tiles A) = unat cnt"
    using assms by (auto simp: plan_facts_def assessed_def)
  note shape = axes_shape [OF g ax]
  have len: "length (tiles_of p ?g ms ns ks) = length (ga_tiles A)"
    using tile_count_length [OF cnt(1) ax] cnt(3) by simp
  have same: "map f (gl_tiles plan) = map f (tiles_of p ?g ms ns ks)"
    if "\<And>t x. f (planned_tile p c t x) = f t" for f :: "gemm_tile \<Rightarrow> 'z"
    unfolding tiles using len by (rule map_map2_same) (rule that)
  show "map tile_triple (gl_tiles plan) = List.product ms (List.product ns ks)"
    using same [of tile_triple] tiles_of_triples [OF shape] by (simp add: tile_triple_def)
  show "axis_cover 0 (unat (gp_m p)) ms" "axis_cover 0 (unat (gp_n p)) ns" "axis_cover 0 (unat (gp_k p)) ks"
    using shape by (simp_all add: axis_shape_def)
  show "\<exists>cnt. tile_count p ?g = Some cnt \<and> length (gl_tiles plan) = unat cnt \<and> cnt \<le> pc_maximum_tiles c"
    using cnt len tiles by simp
  show "length (ga_tiles A) = length (gl_tiles plan)" using tiles len by simp
  show "length (tiles_of p ?g ms ns ks) = length (ga_tiles A)" by (rule len)
  have "map gt_sequence (tiles_of p ?g ms ns ks) = map of_nat [0..<length (tiles_of p ?g ms ns ks)]"
    by (rule nth_equalityI) (simp_all add: tiles_of_def nth_enumerate_eq make_tile_def split: prod.splits)
  then show "map gt_sequence (gl_tiles plan) = map of_nat [0..<length (gl_tiles plan)]"
    using same [of gt_sequence] tiles len by simp
  show "map gt_beta_mode (gl_tiles plan) = map (\<lambda>t. if gt_k_begin t = 0 then User_beta else Accumulate_one) (gl_tiles plan)"
  proof (rule nth_equalityI)
    fix i assume "i < length (map gt_beta_mode (gl_tiles plan))"
    then show "map gt_beta_mode (gl_tiles plan) ! i =
        map (\<lambda>t. if gt_k_begin t = 0 then User_beta else Accumulate_one) (gl_tiles plan) ! i"
      using len by (simp add: tiles tiles_of_def nth_enumerate_eq make_tile_def split: prod.splits)
  qed simp
qed

lemma filter_product:
  "filter (\<lambda>(x, y). P x \<and> Q y) (List.product xs ys) = List.product (filter P xs) (filter Q ys)"
proof -
  have "filter (\<lambda>(x, y). P x \<and> Q y) (map (Pair x) ys) = (if P x then map (Pair x) (filter Q ys) else [])" for x
    by (induction ys) auto
  then show ?thesis by (induction xs) auto
qed

text \<open>The tiles that hold a position of the result: those of one row and one column of tiles, for every panel.\<close>

lemma panels:
  assumes "axis_cover 0 m ms" "axis_cover 0 n ns" "i < m" "j < n"
  shows "\<exists>pm pn. filter (\<lambda>(x, y, z). in_piece i x \<and> in_piece j y) (List.product ms (List.product ns ks)) =
    map (\<lambda>k. (pm, pn, k)) ks"
proof -
  obtain pm where pm: "filter (in_piece i) ms = [pm]" using axis_cover_unique [OF assms(1) _ assms(3)] by blast
  obtain pn where pn: "filter (in_piece j) ns = [pn]" using axis_cover_unique [OF assms(2) _ assms(4)] by blast
  have "filter (\<lambda>(x, y, z). in_piece i x \<and> in_piece j y) (List.product ms (List.product ns ks)) =
      filter (\<lambda>(x, y). in_piece i x \<and> (\<lambda>(y, z). in_piece j y \<and> True) y) (List.product ms (List.product ns ks))"
    by (simp add: case_prod_unfold)
  also have "\<dots> = List.product [pm] (List.product [pn] ks)"
    by (simp only: filter_product pm pn) simp
  also have "\<dots> = map (\<lambda>k. (pm, pn, k)) ks" by simp
  finally show ?thesis by blast
qed

section \<open>Executing the plan\<close>

text \<open>
  What a kernel does with a tile, in exact arithmetic over any commutative semiring: it scales the result
  by \<open>beta\<close> when it is the first panel, and adds \<open>alpha\<close> times the product over the panel.
\<close>

definition panel_value ::
    "(nat \<Rightarrow> 'a) \<Rightarrow> 'a \<Rightarrow> 'a \<Rightarrow> u64 \<times> u64 \<Rightarrow> 'a \<Rightarrow> 'a :: comm_semiring_1" where
  "panel_value f alpha beta k v =
     (if fst k = 0 then beta * v else v) + alpha * sum f {unat (fst k) ..< unat (fst k) + unat (snd k)}"

definition execute_tile ::
    "(nat \<Rightarrow> nat \<Rightarrow> 'a) \<Rightarrow> (nat \<Rightarrow> nat \<Rightarrow> 'a) \<Rightarrow> 'a \<Rightarrow> 'a \<Rightarrow> gemm_tile \<Rightarrow> (nat \<Rightarrow> nat \<Rightarrow> 'a) \<Rightarrow> nat \<Rightarrow> nat \<Rightarrow> 'a :: comm_semiring_1" where
  "execute_tile A B alpha beta t C = (\<lambda>i j.
     if in_piece i (gt_m_begin t, gt_m_count t) \<and> in_piece j (gt_n_begin t, gt_n_count t)
     then (case gt_beta_mode t of User_beta \<Rightarrow> beta * C i j | Accumulate_one \<Rightarrow> C i j) +
          alpha * (\<Sum>l = unat (gt_k_begin t)..<unat (gt_k_begin t) + unat (gt_k_count t). A i l * B l j)
     else C i j)"

lemma execute_tiles_pointwise:
  assumes "\<forall>t\<in>set ts. gt_beta_mode t = (if gt_k_begin t = 0 then User_beta else Accumulate_one)"
  shows "fold (execute_tile A B alpha beta) ts C i j =
    fold (\<lambda>(m, n, k). panel_value (\<lambda>l. A i l * B l j) alpha beta k)
      (filter (\<lambda>(m, n, k). in_piece i m \<and> in_piece j n) (map tile_triple ts)) (C i j)"
  using assms
  by (induction ts arbitrary: C) (auto simp: execute_tile_def tile_triple_def panel_value_def)

lemma fold_panels:
  "axis_cover b w ks \<Longrightarrow>
   fold (panel_value f alpha beta) ks v =
     (if b = 0 \<and> ks \<noteq> [] then beta * v else v) + alpha * sum f {b..<w}"
proof (induction b w ks arbitrary: v rule: axis_cover.induct)
  case (2 b w x c xs)
  have x: "x = 0 \<longleftrightarrow> b = 0" using 2(2) by (auto simp flip: unat_eq_0_iff)
  have c: "0 < unat c" "b + unat c \<le> w" using 2(2) by simp_all
  have "sum f {b..<w} = sum f {b..<b + unat c} + sum f {b + unat c..<w}"
    using c by (intro sum.atLeastLessThan_concat [symmetric]) simp_all
  then show ?case
    using 2 x c by (simp add: panel_value_def algebra_simps)
qed simp

lemma plan_executes:
  assumes "plan_facts p c plan G ms ns ks" "i < unat (gp_m p)" "j < unat (gp_n p)"
  shows "fold (execute_tile A B alpha beta) (gl_tiles plan) C i j =
    beta * C i j + alpha * (\<Sum>l<unat (gp_k p). A i l * B l j)"
proof -
  note T = plan_triples [OF assms(1)]
  obtain pm pn where pq: "filter (\<lambda>(x, y, z). in_piece i x \<and> in_piece j y) (List.product ms (List.product ns ks)) =
      map (\<lambda>k. (pm, pn, k)) ks"
    using panels [OF T(2,3) assms(2,3)] by blast
  have mode: "\<forall>t\<in>set (gl_tiles plan). gt_beta_mode t = (if gt_k_begin t = 0 then User_beta else Accumulate_one)"
    using T(7) by simp
  have "0 < unat (gp_k p)" using assms(1) by (simp add: plan_facts_def problem_ok_def)
  then have ne: "ks \<noteq> []" using T(4) by (cases ks) auto
  have "fold (execute_tile A B alpha beta) (gl_tiles plan) C i j =
      fold (panel_value (\<lambda>l. A i l * B l j) alpha beta) ks (C i j)"
    unfolding execute_tiles_pointwise [OF mode] T(1) pq by (simp add: fold_map comp_def)
  also have "\<dots> = beta * C i j + alpha * (\<Sum>l<unat (gp_k p). A i l * B l j)"
    using ne by (simp add: fold_panels [OF T(4)] atLeast0LessThan)
  finally show ?thesis .
qed

text \<open>
  C21: A plan computes the product. Running the tiles of a plan in their order, each adding its panel to
  the result and the first panel scaling it by beta, leaves in every element of the result beta times the
  old value plus alpha times the full inner product, in exact arithmetic.
\<close>

theorem plan_computes_product:
  fixes A B :: "nat \<Rightarrow> nat \<Rightarrow> 'a :: comm_semiring_1"
  assumes "make_plan p c = Some plan" "gl_error plan = Ple_none"
    and "i < unat (gp_m p)" "j < unat (gp_n p)"
  shows "fold (execute_tile A B alpha beta) (gl_tiles plan) C i j =
    beta * C i j + alpha * (\<Sum>l<unat (gp_k p). A i l * B l j)"
proof -
  obtain G ms ns ks where f: "plan_facts p c plan G ms ns ks" using make_plan_facts [OF assms(1,2)] by blast
  show ?thesis by (rule plan_executes [OF f assms(3,4)])
qed

text \<open>
  The tiles of a plan partition the product: every multiplication of an element of a row by one of a
  column belongs to exactly one tile; the tiles are numbered in order and every tile lies inside the
  problem.
\<close>

theorem plan_partitions_product:
  assumes "make_plan p c = Some plan" "gl_error plan = Ple_none"
  shows "(i < unat (gp_m p) \<and> j < unat (gp_n p) \<and> l < unat (gp_k p) \<longrightarrow>
      (\<exists>t. filter (\<lambda>t. in_tile t i j l) (gl_tiles plan) = [t])) \<and>
    map gt_sequence (gl_tiles plan) = map of_nat [0..<length (gl_tiles plan)] \<and>
    list_all (tile_in_problem p) (gl_tiles plan)"
proof -
  obtain G ms ns ks where f: "plan_facts p c plan G ms ns ks" using make_plan_facts [OF assms] by blast
  note T = plan_triples [OF f]
  have "\<exists>t. filter (\<lambda>t. in_tile t i j l) (gl_tiles plan) = [t]"
    if b: "i < unat (gp_m p)" "j < unat (gp_n p)" "l < unat (gp_k p)"
  proof -
    obtain pm pn where pq: "filter (\<lambda>(x, y, z). in_piece i x \<and> in_piece j y) (List.product ms (List.product ns ks)) =
        map (\<lambda>k. (pm, pn, k)) ks"
      using panels [OF T(2,3) b(1,2)] by blast
    obtain pk where pk: "filter (in_piece l) ks = [pk]" using axis_cover_unique [OF T(4) _ b(3)] by blast
    have "map tile_triple (filter (\<lambda>t. in_tile t i j l) (gl_tiles plan)) =
        filter (\<lambda>(x, y, z). in_piece l z) (filter (\<lambda>(x, y, z). in_piece i x \<and> in_piece j y) (map tile_triple (gl_tiles plan)))"
      by (simp add: filter_map filter_filter comp_def in_tile_def tile_triple_def conj_ac)
    also have "\<dots> = [(pm, pn, pk)]"
      unfolding T(1) pq by (simp add: filter_map comp_def pk)
    finally show ?thesis by (cases "filter (\<lambda>t. in_tile t i j l) (gl_tiles plan)") auto
  qed
  moreover have "list_all (tile_in_problem p) (gl_tiles plan)"
    unfolding list_all_iff
  proof
    fix t assume "t \<in> set (gl_tiles plan)"
    then have "tile_triple t \<in> set (List.product ms (List.product ns ks))"
      unfolding T(1) [symmetric] by simp
    then show "tile_in_problem p t"
      using axis_cover_mem [OF T(2)] axis_cover_mem [OF T(3)] axis_cover_mem [OF T(4)]
      by (fastforce simp: tile_triple_def tile_in_problem_iff)
  qed
  ultimately show ?thesis using T(6) by blast
qed

lemma fold_max_ge: "x \<in> set xs \<Longrightarrow> f x \<le> fold (\<lambda>x m. max m (f x)) xs (m :: 'a :: linorder)"
proof (induction xs arbitrary: m)
  case (Cons y ys)
  have mono: "m \<le> fold (\<lambda>x m. max m (f x)) zs m" for zs and m :: 'a
  proof (induction zs arbitrary: m)
    case (Cons a zs)
    show ?case using order_trans [OF max.cobounded1 Cons.IH [of "max m (f a)"]] by simp
  qed simp
  show ?case using Cons mono [of "max m (f y)" ys] by (auto intro: order_trans)
qed simp

lemma fold_max_map: "fold (\<lambda>t m. max m (g t)) xs m = fold (\<lambda>x m. max m x) (map g xs) m"
  by (simp add: fold_map comp_def)

text \<open>
  C22: A plan fits. The chunks of every tile fit the part of the cache that the workspace leaves, the
  recorded maximum is reached by no less than every tile, each size is the number of chunks times the
  chunk size without wrap-around, and there are at most as many tiles as allowed and at least one.
\<close>

theorem plan_fits_cache:
  assumes "make_plan p c = Some plan" "gl_error plan = Ple_none" and "t \<in> set (gl_tiles plan)"
  shows "unat (gt_resident_bytes t) + unat (pc_workspace_bytes c) \<le> unat (pc_cache_target_bytes c) \<and>
    gt_resident_bytes t \<le> gl_maximum_resident_bytes plan \<and>
    gl_maximum_resident_bytes plan \<le> gl_cache_bytes_available_to_chunks plan \<and>
    unat (gt_resident_bytes t) = unat (gt_chunk_count t) * unat (pc_chunk_bytes c) \<and>
    length (gl_tiles plan) \<le> unat (pc_maximum_tiles c)"
proof -
  obtain G ms ns ks where f: "plan_facts p c plan G ms ns ks" using make_plan_facts [OF assms(1,2)] by blast
  note T = plan_triples [OF f]
  let ?g = "gl_geometry plan"
  have tiles: "gl_tiles plan = map2 (planned_tile p c) (tiles_of p ?g ms ns ks) (ga_tiles G)"
    and maxp: "gl_maximum_resident_bytes plan = fold (\<lambda>t m. max m (gt_resident_bytes t)) (gl_tiles plan) 0"
    and ws: "pc_workspace_bytes c < pc_cache_target_bytes c"
    and av: "gl_cache_bytes_available_to_chunks plan =
       (pc_cache_target_bytes c - pc_workspace_bytes c) div pc_chunk_bytes c * pc_chunk_bytes c"
    and le: "ga_maximum_resident_bytes G \<le> gl_cache_bytes_available_to_chunks plan"
    and maxg: "ga_maximum_resident_bytes G = fold (\<lambda>x m. max m (ts_resident_bytes x)) (ga_tiles G) 0"
    using f by (auto simp: plan_facts_def assessed_def)
  note lt = T(9)
  have res: "map gt_resident_bytes (gl_tiles plan) = map ts_resident_bytes (ga_tiles G)"
    and cnt: "map gt_chunk_count (gl_tiles plan) = map ts_chunk_count (ga_tiles G)"
    unfolding tiles by (rule map_map2_second [OF lt], simp)+
  have eq: "gl_maximum_resident_bytes plan = ga_maximum_resident_bytes G"
    unfolding maxp maxg fold_max_map [of gt_resident_bytes] fold_max_map [of ts_resident_bytes] res ..
  have 1: "gt_resident_bytes t \<le> gl_maximum_resident_bytes plan"
    unfolding maxp using assms(3) by (rule fold_max_ge)
  have 2: "gl_maximum_resident_bytes plan \<le> gl_cache_bytes_available_to_chunks plan" using le eq by simp
  have 3: "unat (gl_cache_bytes_available_to_chunks plan) \<le> unat (pc_cache_target_bytes c) - unat (pc_workspace_bytes c)"
    using unat_div_mult_le [of "pc_cache_target_bytes c - pc_workspace_bytes c" "pc_chunk_bytes c"] ws
    by (simp add: av unat_div_mult unat_div unat_sub_u64 word_less_nat_alt)
  obtain n where n: "n < length (gl_tiles plan)" "t = gl_tiles plan ! n"
    using assms(3) by (auto simp: in_set_conv_nth)
  have nth: "gt_resident_bytes t = ts_resident_bytes (ga_tiles G ! n)" "gt_chunk_count t = ts_chunk_count (ga_tiles G ! n)"
    using res cnt n T(8) by (metis length_map nth_map)+
  have 4: "checked_multiply (ts_chunk_count (ga_tiles G ! n)) (pc_chunk_bytes c) = Some (ts_resident_bytes (ga_tiles G ! n))"
  proof (cases "distinct_allocations p")
    case True
    obtain m' n' k' where "list_all2 (tile_combines p c) (List.product m' (List.product n' k')) (ga_tiles G)"
      using f True by (auto simp: plan_facts_def assessed_def)
    then obtain y where "tile_combines p c y (ga_tiles G ! n)"
      using list_all2_nthD2 n(1) T(8) by metis
    then show ?thesis
      by (auto simp: tile_combines_def Let_def dest: combine_facts split: prod.splits)
  next
    case False
    obtain ts where "list_all2 (tile_matches p c) ts (ga_tiles G)"
      using f False by (auto simp: plan_facts_def assessed_def)
    then obtain y where y: "tile_matches p c y (ga_tiles G ! n)"
      using list_all2_nthD2 n(1) T(8) by metis
    then obtain wset where w: "enumerate_tile_working_set p y (pc_chunk_bytes c) (pc_maximum_access_ranges_per_tile c) = Some wset"
      "wr_error wset = Wse_none" "ga_tiles G ! n = summary_of wset" by (auto simp: tile_matches_def)
    obtain raw where v: "problem_ok p" "tile_in_problem p y" "pc_chunk_bytes c \<noteq> 0"
      "pc_maximum_access_ranges_per_tile c \<noteq> 0" "raw_accesses p y (pc_maximum_access_ranges_per_tile c) = Inr raw"
      using enumerate_ok [OF w(1,2)] by blast
    obtain rs cs where "wset = finish_working_set (pc_chunk_bytes c) rs cs"
      using enumerate_valid [OF v] w(1) by auto
    then show ?thesis
      using finish_none [of "pc_chunk_bytes c" rs cs] w(2)
      by (auto simp: w(3) summary_of_def)
  qed
  show ?thesis
    using 1 2 3 4 T(5) ws nth
    by (auto simp: checked_multiply_Some_iff word_le_nat_alt word_less_nat_alt)
qed

text \<open>
  C24: Planning always returns, whatever the problem and the configuration: the search over geometries
  ends, because every step makes one side of the tile shorter; a plan with an error has no tiles.
\<close>

theorem make_plan_returns:
  "case make_plan p c of
     None \<Rightarrow> False
   | Some plan \<Rightarrow> if gl_error plan = Ple_none then gl_tiles plan \<noteq> [] \<and> problem_ok p else gl_tiles plan = []"
proof -
  obtain plan where plan: "make_plan p c = Some plan"
    "if gl_error plan = Ple_none then \<exists>A ms ns ks. plan_facts p c plan A ms ns ks else gl_tiles plan = []"
    using make_plan_cases by blast
  have "gl_tiles plan \<noteq> [] \<and> problem_ok p" if f: "plan_facts p c plan A ms ns ks" for A ms ns ks
  proof -
    note T = plan_triples [OF f]
    have ok: "problem_ok p" using f by (simp add: plan_facts_def)
    then have "ms \<noteq> []" "ns \<noteq> []" "ks \<noteq> []" using T(2-4) by (auto simp: problem_ok_def)
    then have "List.product ms (List.product ns ks) \<noteq> []" by (cases ms; cases ns; cases ks) auto
    then show ?thesis using T(1) ok by auto
  qed
  then show ?thesis using plan by auto
qed

text \<open>
  Results of low precision are not rounded between panels: when the result has half-precision
  elements every tile spans the whole inner dimension, so that each element of the result is written once,
  by a tile that applies the user's beta.
\<close>

theorem low_precision_single_panel:
  assumes "make_plan p c = Some plan" "gl_error plan = Ple_none"
    and "mv_element_type (gp_c p) \<in> {Fp16, Bf16}" and "t \<in> set (gl_tiles plan)"
  shows "gt_k_begin t = 0 \<and> gt_k_count t = gp_k p \<and> gt_beta_mode t = User_beta"
proof -
  obtain G ms ns ks where f: "plan_facts p c plan G ms ns ks" using make_plan_facts [OF assms(1,2)] by blast
  note T = plan_triples [OF f]
  let ?g = "gl_geometry plan"
  have full: "tg_k ?g = gp_k p" using f assms(3) by (auto simp: plan_facts_def requires_full_k_def)
  have g: "geometry_pos ?g" and ax: "axes p ?g ms ns ks" using f by (simp_all add: plan_facts_def assessed_def)
  note shape = axes_shape(3) [OF g ax]
  have "tile_triple t \<in> set (List.product ms (List.product ns ks))"
    unfolding T(1) [symmetric] using assms(4) by simp
  then have k: "(gt_k_begin t, gt_k_count t) \<in> set ks" by (auto simp: tile_triple_def)
  have pos: "0 < unat (gp_k p)" using f by (simp add: plan_facts_def problem_ok_def)
  have mode: "\<forall>t\<in>set (gl_tiles plan). gt_beta_mode t = (if gt_k_begin t = 0 then User_beta else Accumulate_one)"
    using T(7) by simp
  have "ks = [(0, gp_k p)]"
  proof -
    have "length ks = 1"
      using shape pos full by (simp add: axis_shape_def pieces_def) (simp add: div_nat_eqI)
    then obtain x cc where ks: "ks = [(x, cc)]" by (cases ks) auto
    then have "unat x = 0" "unat cc = unat (gp_k p)" using T(4) by auto
    then have "x = 0" "cc = gp_k p" by (simp_all only: unat_eq_0_iff word_unat_eq_iff)
    then show ?thesis using ks by simp
  qed
  then have "gt_k_begin t = 0 \<and> gt_k_count t = gp_k p" using k by auto
  moreover have "gt_beta_mode t = User_beta"
    using mode assms(4) calculation(1) by simp
  ultimately show ?thesis by blast
qed


section \<open>A plan\<close>

text \<open>
  The example problem with every matrix in an allocation of its own and a half-precision result, and a
  cache that holds four chunks of 64 bytes beside the workspace: two tiles of four and two rows.
\<close>

definition half_problem_example :: gemm_problem where
  "half_problem_example = problem_example\<lparr>gp_b := view_example 3 96 4 5 5 Fp16, gp_c := view_example 2 0 6 4 4 Fp16\<rparr>"

definition config_example :: planner_config where
  "config_example =
     \<lparr>pc_chunk_bytes = 64, pc_cache_target_bytes = 300, pc_workspace_bytes = 40,
      pc_preferred_geometry = \<lparr>tg_m = 4, tg_n = 4, tg_k = 3\<rparr>, pc_maximum_tiles = 20,
      pc_maximum_access_ranges_per_tile = 16\<rparr>"

lemma plan_example:
  obtains plan where "make_plan half_problem_example config_example = Some plan" "gl_error plan = Ple_none"
    "map gt_m_count (gl_tiles plan) = [4, 2]"
proof -
  have "(case make_plan half_problem_example config_example of
      None \<Rightarrow> False
    | Some plan \<Rightarrow> gl_error plan = Ple_none \<and> map gt_m_count (gl_tiles plan) = [4, 2])"
    by code_simp
  then show ?thesis using that by (auto split: option.splits)
qed

lemma half_example_dimensions:
  "unat (gp_m half_problem_example) = 6" "unat (gp_n half_problem_example) = 4" "unat (gp_k half_problem_example) = 5"
  "gp_k half_problem_example = 5" "mv_element_type (gp_c half_problem_example) = Fp16"
  by (simp_all add: half_problem_example_def problem_example_def view_example_def)

theorem plan_computes_product_witness:
  "\<exists>plan. make_plan half_problem_example config_example = Some plan \<and>
     fold (execute_tile (\<lambda>i l. i + l) (\<lambda>l j. l * j) 2 3) (gl_tiles plan) (\<lambda>i j. 1) 5 3 = (483 :: nat)"
proof -
  obtain plan where p: "make_plan half_problem_example config_example = Some plan" "gl_error plan = Ple_none"
    using plan_example by blast
  have "fold (execute_tile (\<lambda>i l. i + l) (\<lambda>l j. l * j) 2 3) (gl_tiles plan) (\<lambda>i j. 1) 5 3 =
      3 * 1 + 2 * (\<Sum>l<5. (5 + l) * (l * (3 :: nat)))"
    using plan_computes_product [OF p, of 5 3 "\<lambda>i l. i + l" "\<lambda>l j. l * j" 2 3 "\<lambda>i j. 1 :: nat"]
    by (simp add: half_example_dimensions)
  moreover have "(\<Sum>l<5. (5 + l) * (l * (3 :: nat))) = 240" by (simp add: lessThan_nat_numeral)
  ultimately show ?thesis using p by auto
qed

theorem plan_partitions_product_witness:
  "\<exists>plan. make_plan half_problem_example config_example = Some plan \<and>
     (\<exists>t. filter (\<lambda>t. in_tile t 5 3 4) (gl_tiles plan) = [t])"
proof -
  obtain plan where p: "make_plan half_problem_example config_example = Some plan" "gl_error plan = Ple_none"
    using plan_example by blast
  show ?thesis
    using plan_partitions_product [OF p, of 5 3 4] p(1) by (simp add: half_example_dimensions)
qed

theorem plan_fits_cache_witness:
  "\<exists>plan. make_plan half_problem_example config_example = Some plan \<and>
     unat (gt_resident_bytes (hd (gl_tiles plan))) \<le> 260"
proof -
  obtain plan where p: "make_plan half_problem_example config_example = Some plan" "gl_error plan = Ple_none"
    "map gt_m_count (gl_tiles plan) = [4, 2]"
    using plan_example by blast
  then have "hd (gl_tiles plan) \<in> set (gl_tiles plan)" by (cases "gl_tiles plan") auto
  from plan_fits_cache [OF p(1,2) this] show ?thesis
    using p(1) by (simp add: config_example_def)
qed

theorem low_precision_single_panel_witness:
  "\<exists>plan. make_plan half_problem_example config_example = Some plan \<and>
     gt_k_count (hd (gl_tiles plan)) = 5"
proof -
  obtain plan where p: "make_plan half_problem_example config_example = Some plan" "gl_error plan = Ple_none"
    "map gt_m_count (gl_tiles plan) = [4, 2]"
    using plan_example by blast
  then have "hd (gl_tiles plan) \<in> set (gl_tiles plan)" by (cases "gl_tiles plan") auto
  from low_precision_single_panel [OF p(1,2) _ this] show ?thesis
    using p(1) by (auto simp: half_example_dimensions)
qed

end
