(* ===== verification/Gemm_Summary_Correct.thy ===== *)
theory Gemm_Summary_Correct
  imports Gemm_Plan_Correct
begin

text \<open>
  The two ways of sizing a tile agree: the planner's arithmetic on rectangles (\<open>summarize_matrix_rectangle\<close>,
  \<open>scan_segments\<close>, \<open>combine_summaries\<close>) counts the ranges and chunks that \<open>enumerate_tile_working_set\<close>
  finds. The lemmas give the ranges of a rectangle explicitly, count the chunks of equally spaced
  segments, and show that normalisation leaves separated ranges alone.
\<close>

section \<open>The ranges of a rectangle, explicitly\<close>

text \<open>The first \<open>s\<close> segments of a rectangle, merged when they follow one another without a gap.\<close>

definition segment_range :: "matrix_view \<Rightarrow> access_mode \<Rightarrow> nat \<Rightarrow> nat \<Rightarrow> u64 \<Rightarrow> nat \<Rightarrow> access_range" where
  "segment_range M md x y len s =
     \<lparr>ar_allocation_id = mv_allocation_id M, ar_offset_bytes = of_nat (stored_at M (x + s) y),
      ar_length_bytes = len, ar_mode = md\<rparr>"

definition segment_block :: "matrix_view \<Rightarrow> access_mode \<Rightarrow> nat \<Rightarrow> nat \<Rightarrow> nat \<Rightarrow> u64 \<Rightarrow> nat \<Rightarrow> access_range list" where
  "segment_block M md x y ys len s =
     (if ys = unat (mv_leading_dimension M)
      then if s = 0 then [] else [(segment_range M md x y len 0)\<lparr>ar_length_bytes := of_nat (s * unat len)\<rparr>]
      else map (segment_range M md x y len) [0..<s])"

lemma segment_block_0 [simp]: "segment_block M md x y ys len 0 = []"
  by (simp add: segment_block_def)

lemma stored_at_step:
  "stored_at M (x + s) y = stored_at M x y + s * (unat (mv_leading_dimension M) * element_bytes_of M)"
  by (simp add: stored_at_def algebra_simps)

text \<open>A rectangle that lies in a valid matrix, in stored coordinates.\<close>

definition stored_ok :: "matrix_view \<Rightarrow> nat \<Rightarrow> nat \<Rightarrow> nat \<Rightarrow> nat \<Rightarrow> bool" where
  "stored_ok M x xs y ys \<longleftrightarrow> view_ok M \<and> x + xs \<le> unat (major_count M) \<and> y + ys \<le> unat (minor_count M) \<and>
     0 < xs \<and> 0 < ys"

lemma stored_in_storage:
  assumes "stored_ok M x xs y ys" "s < xs"
  shows "stored_at M (x + s) y + ys * element_bytes_of M \<le> storage_end_of M"
    and "storage_end_of M < 18446744073709551616"
proof -
  let ?ld = "unat (mv_leading_dimension M)" and ?e = "element_bytes_of M"
  have "x + s \<le> unat (major_count M) - 1" using assms unfolding stored_ok_def by linarith
  then have "(x + s) * ?ld + y + ys \<le> (unat (major_count M) - 1) * ?ld + unat (minor_count M)"
    using mult_le_mono1 [of "x + s" "unat (major_count M) - 1" ?ld] assms(1) unfolding stored_ok_def by linarith
  then have "((x + s) * ?ld + y + ys) * ?e \<le> ((unat (major_count M) - 1) * ?ld + unat (minor_count M)) * ?e"
    by (rule mult_le_mono1)
  then show "stored_at M (x + s) y + ys * ?e \<le> storage_end_of M"
    by (simp add: stored_at_def storage_end_of_def algebra_simps)
  have "storage_end_of M \<le> unat (mv_allocation_bytes M)" using assms by (simp add: stored_ok_def view_ok_def)
  then show "storage_end_of M < 18446744073709551616"
    using unat_u64_bound [of "mv_allocation_bytes M"] by linarith
qed

lemma segment_range_offset:
  assumes "stored_ok M x xs y ys" "s < xs"
  shows "unat (ar_offset_bytes (segment_range M md x y len s)) = stored_at M (x + s) y"
  using stored_in_storage [OF assms] by (simp add: segment_range_def unat_of_nat_u64)

lemma stored_gap:
  assumes "stored_ok M x xs y ys" "ys \<noteq> unat (mv_leading_dimension M)"
  shows "stored_at M (x + s) y + ys * element_bytes_of M < stored_at M (x + Suc s) y"
proof -
  have "ys < unat (mv_leading_dimension M)" "0 < element_bytes_of M"
    using assms by (auto simp: stored_ok_def view_ok_def)
  then have "ys * element_bytes_of M < unat (mv_leading_dimension M) * element_bytes_of M" by simp
  then show ?thesis by (simp add: stored_at_def algebra_simps)
qed

lemma segment_block_step:
  assumes ok: "stored_ok M x xs y ys" and len: "unat len = ys * element_bytes_of M" and s: "s < xs"
    and other: "ranges = [] \<or> ar_allocation_id (last ranges) \<noteq> mv_allocation_id M"
    and room: "length ranges + length (segment_block M md x y ys len (Suc s)) \<le> unat mx"
  shows "append_range (ranges @ segment_block M md x y ys len s) (segment_range M md x y len s) mx =
    Some (ranges @ segment_block M md x y ys len (Suc s))"
proof (cases "s = 0")
  case True
  have no: "\<not> (ranges \<noteq> [] \<and> mergeable (last ranges) (segment_range M md x y len s))"
    using other by (auto simp: mergeable_def segment_range_def)
  have "\<not> length ranges \<ge> unat mx" using room True by (simp add: segment_block_def split: if_splits)
  then have "append_range ranges (segment_range M md x y len s) mx = Some (ranges @ [segment_range M md x y len s])"
    unfolding append_range_def if_not_P [OF no] by simp
  then show ?thesis using True by (simp add: segment_block_def segment_range_def)
next
  case s0: False
  note off = segment_range_offset [OF ok s]
  show ?thesis
  proof (cases "ys = unat (mv_leading_dimension M)")
    case True
    let ?l = "(segment_range M md x y len 0)\<lparr>ar_length_bytes := of_nat (s * unat len)\<rparr>"
    have e: "stored_at M (x + s) y = stored_at M x y + s * unat len"
      using stored_at_step [of M x s y] True len by simp
    have sl: "Suc s * unat len \<le> storage_end_of M"
      using stored_in_storage(1) [OF ok s] e len by simp
    have b: "s * unat len < 18446744073709551616" "Suc s * unat len < 18446744073709551616"
      using sl stored_in_storage(2) [OF ok s] by simp_all
    have o0: "unat (ar_offset_bytes ?l) = stored_at M x y"
      using segment_range_offset [OF ok, of 0 md len] s by simp
    have m: "mergeable ?l (segment_range M md x y len s)"
      using off e b unat_of_nat_u64 [OF b(1)] o0 stored_in_storage [OF ok s]
      by (simp add: mergeable_def segment_range_def checked_add_Some_iff checked_add_None_iff)
    have add: "checked_add (of_nat (s * unat len)) len = Some (of_nat (Suc s * unat len))"
      using b unat_of_nat_u64 [OF b(1)] unat_of_nat_u64 [OF b(2)] by (simp add: checked_add_Some_iff del: of_nat_mult)
    show ?thesis
      using m add s0 True
      by (simp add: append_range_def segment_block_def butlast_append segment_range_def del: of_nat_mult of_nat_Suc mult_Suc)
  next
    case False
    have "\<not> mergeable (segment_range M md x y len (s - 1)) (segment_range M md x y len s)"
      using stored_gap [OF ok False, of "s - 1"] s0 off segment_range_offset [OF ok, of "s - 1" md len] s len
      by (auto simp: mergeable_def checked_add_Some_iff segment_range_def)
    then show ?thesis
      using s0 False room by (simp add: append_range_def segment_block_def last_map)
  qed
qed

lemma append_segments_block:
  assumes ok: "stored_ok M (unat x) (unat xs) (unat y) ys" and e: "element_size_bytes (mv_element_type M) = Some e"
    and major: "(if mv_layout M = Row_major then row else column) = x"
    and minor: "(if mv_layout M = Row_major then column else row) = y"
    and len: "unat len = ys * element_bytes_of M"
    and other: "ranges = [] \<or> ar_allocation_id (last ranges) \<noteq> mv_allocation_id M"
    and room: "length ranges + length (segment_block M md (unat x) (unat y) ys len (unat xs)) \<le> unat mx"
    and s: "unat s \<le> unat xs"
  shows "append_segments M e row column len md mx xs s
      (ranges @ segment_block M md (unat x) (unat y) ys len (unat s)) =
    Inr (ranges @ segment_block M md (unat x) (unat y) ys len (unat xs))"
  using s
proof (induction "unat xs - unat s" arbitrary: s)
  case 0
  then have "\<not> s < xs" "unat s = unat xs" by (simp_all add: word_less_nat_alt)
  then show ?case by (subst append_segments.simps) simp
next
  case (Suc n)
  have less: "s < xs" "unat s < unat xs" using Suc.hyps(2) by (simp_all add: word_less_nat_alt)
  have s1: "unat (s + 1) = Suc (unat s)"
    using less(2) unat_u64_bound [of xs] by (simp add: unat_add_u64)
  have v: "view_ok M" "unat x + unat s < unat (major_count M)" "unat y < unat (minor_count M)"
    using ok less(2) by (simp_all add: stored_ok_def)
  obtain off where off: "segment_offset M e row column s = Some off" "unat off = stored_at M (unat x + unat s) (unat y)"
    using segment_offset_exact [OF v(1) e major minor v(2,3)] by blast
  have "unat (of_nat (stored_at M (unat x + unat s) (unat y)) :: u64) = stored_at M (unat x + unat s) (unat y)"
    using stored_in_storage [OF ok less(2)] by (intro unat_of_nat_u64) linarith
  then have seg: "\<lparr>ar_allocation_id = mv_allocation_id M, ar_offset_bytes = off, ar_length_bytes = len, ar_mode = md\<rparr> =
      segment_range M md (unat x) (unat y) len (unat s)"
    using off(2) by (simp add: segment_range_def word_unat_eq_iff)
  have "length (segment_block M md (unat x) (unat y) ys len (Suc (unat s))) \<le>
      length (segment_block M md (unat x) (unat y) ys len (unat xs))"
    using less(2) by (simp add: segment_block_def)
  then have step: "append_range (ranges @ segment_block M md (unat x) (unat y) ys len (unat s))
      (segment_range M md (unat x) (unat y) len (unat s)) mx =
      Some (ranges @ segment_block M md (unat x) (unat y) ys len (Suc (unat s)))"
    using segment_block_step [OF ok len less(2) other] room by simp
  show ?case
    using Suc.hyps(1) [of "s + 1"] Suc.hyps(2) less s1
    by (subst append_segments.simps) (simp add: off(1) seg step)
qed

section \<open>Counting chunks\<close>

lemma div_interval:
  assumes "0 < (cb :: nat)" "0 < len"
  shows "(\<lambda>q. q div cb) ` {l ..< l + len} = {l div cb .. (l + len - 1) div cb}"
proof (intro equalityI subsetI)
  fix c assume "c \<in> {l div cb .. (l + len - 1) div cb}"
  then have c: "l div cb \<le> c" "c \<le> (l + len - 1) div cb" by simp_all
  show "c \<in> (\<lambda>q. q div cb) ` {l ..< l + len}"
  proof (cases "l \<le> c * cb")
    case True
    have "c * cb \<le> l + len - 1" using c(2) assms(1) by (simp add: less_eq_div_iff_mult_less_eq)
    then have "c * cb \<in> {l ..< l + len}" using True assms(2) by auto
    then show ?thesis using assms(1) by (intro image_eqI [of _ _ "c * cb"]) simp_all
  next
    case False
    then have "c \<le> l div cb" using assms(1) by (simp add: less_eq_div_iff_mult_less_eq)
    then have "c = l div cb" using c(1) by simp
    then show ?thesis using assms(2) by (intro image_eqI [of _ _ l]) simp_all
  qed
next
  fix c assume "c \<in> (\<lambda>q. q div cb) ` {l ..< l + len}"
  then obtain q where "c = q div cb" "l \<le> q" "q \<le> l + len - 1" by auto
  then show "c \<in> {l div cb .. (l + len - 1) div cb}" by (simp only: atLeastAtMost_iff div_le_mono simp_thms)
qed

lemma adjacent_intervals: "(\<Union>s<(n :: nat). {a + s * d ..< a + s * d + d}) = {a ..< a + n * d}"
proof (induction n)
  case (Suc n)
  then show ?case by (simp add: lessThan_Suc ivl_disj_un_two(3) Un_commute add.assoc add.commute [of d])
qed simp

definition segments_chunks :: "nat \<Rightarrow> nat \<Rightarrow> nat \<Rightarrow> nat \<Rightarrow> nat \<Rightarrow> nat set" where
  "segments_chunks cb a stride len n = (\<lambda>q. q div cb) ` (\<Union>s<n. {a + s * stride ..< a + s * stride + len})"

lemma segments_chunks_Suc:
  assumes "0 < cb" "0 < len"
  shows "segments_chunks cb a stride len (Suc n) =
    segments_chunks cb a stride len n \<union> {(a + n * stride) div cb .. (a + n * stride + len - 1) div cb}"
  by (simp add: segments_chunks_def lessThan_Suc image_Un div_interval [OF assms] Un_commute)

lemma segments_chunks_le:
  assumes "c \<in> segments_chunks cb a stride len n" "len \<le> stride"
  shows "c \<le> (a + (n - 1) * stride + len - 1) div cb"
proof -
  obtain s q where s: "s < n" "q < a + s * stride + len" "c = q div cb"
    using assms(1) by (auto simp: segments_chunks_def)
  have "s * stride \<le> (n - 1) * stride" using s(1) by (intro mult_le_mono1) simp
  then have "q \<le> a + (n - 1) * stride + len - 1" using s(2) by linarith
  then show ?thesis using s(3) by (simp add: div_le_mono)
qed

lemma finite_segments_chunks [simp]: "finite (segments_chunks cb a stride len n)"
  by (simp add: segments_chunks_def)

text \<open>
  What one segment adds: its chunks are at or after the last chunk covered so far, so that at most one
  of them is known already.
\<close>

lemma segments_chunks_card:
  fixes a stride len cb n :: nat
  defines "f \<equiv> (a + n * stride) div cb" and "l \<equiv> (a + n * stride + len - 1) div cb"
    and "c \<equiv> (a + (n - 1) * stride + len - 1) div cb"
  assumes "0 < cb" "0 < len" "len \<le> stride"
  shows "card (segments_chunks cb a stride len (Suc n)) = card (segments_chunks cb a stride len n) +
      (if n = 0 \<or> f > c then l - f + 1 else l - c)" and "0 < n \<Longrightarrow> c \<le> f" and "f \<le> l"
proof -
  let ?K = "segments_chunks cb a stride len n"
  show fl: "f \<le> l" unfolding f_def l_def using assms(5) by (intro div_le_mono) simp
  have before: "c \<le> f" if n: "0 < n"
  proof -
    have "n * stride = (n - 1) * stride + stride" using n by (cases n) simp_all
    then show ?thesis unfolding c_def f_def using assms(6) by (intro div_le_mono) linarith
  qed
  then show "0 < n \<Longrightarrow> c \<le> f" .
  have split: "segments_chunks cb a stride len (Suc n) = ?K \<union> {f..l}"
    using segments_chunks_Suc [OF assms(4,5), of a stride n] by (simp add: f_def l_def)
  have upper: "\<forall>k\<in>?K. k \<le> c" using segments_chunks_le [OF _ assms(6), of _ cb a n] by (simp add: c_def)
  show "card (segments_chunks cb a stride len (Suc n)) = card ?K + (if n = 0 \<or> f > c then l - f + 1 else l - c)"
  proof (cases "n = 0 \<or> f > c")
    case True
    have "?K = {}" if "n = 0" using that by (simp add: segments_chunks_def)
    then have "?K \<inter> {f..l} = {}" using True upper by fastforce
    then show ?thesis using True split fl by (simp add: card_Un_disjoint)
  next
    case False
    then have n: "0 < n" and fc: "f = c" using before by auto
    have "c \<in> ?K"
      unfolding segments_chunks_def c_def using n assms(5)
      by (intro imageI UN_I [of "n - 1"]) auto
    then have "?K \<union> {f..l} = ?K \<union> {Suc c..l}" using fc fl by (auto simp: atLeastAtMost_insertL [symmetric] not_less_eq_eq)
    moreover have "?K \<inter> {Suc c..l} = {}" using upper by fastforce
    ultimately show ?thesis using False split by (simp add: card_Un_disjoint)
  qed
qed

lemma scan_segments_spec:
  assumes cb: "0 < unat cb" and len: "0 < unat len" "unat len \<le> unat stride"
    and fits: "a + (unat n - 1) * unat stride + unat len < 18446744073709551616"
    and s: "unat s < unat n" and b: "unat (sc_segment_begin scan) = a + unat s * unat stride"
    and cnt: "unat (ts_chunk_count r) = card (segments_chunks (unat cb) a (unat stride) (unat len) (unat s))"
    and has: "sc_has_covered_chunk scan = (0 < unat s)"
    and cov: "0 < unat s \<Longrightarrow> unat (sc_covered_last_chunk scan) = (a + (unat s - 1) * unat stride + unat len - 1) div unat cb"
      "unat s = 0 \<Longrightarrow> sc_covered_last_chunk scan = 0"
    and ok: "ts_error (scan_segments cb len stride n s scan r) = Wse_none"
  shows "unat (ts_chunk_count (scan_segments cb len stride n s scan r)) =
      card (segments_chunks (unat cb) a (unat stride) (unat len) (unat n)) \<and>
    ts_access_range_count (scan_segments cb len stride n s scan r) = ts_access_range_count r"
  using s b cnt has cov ok
proof (induction "unat n - unat s" arbitrary: s scan r)
  case (Suc k)
  let ?b = "sc_segment_begin scan" and ?S = "unat stride" and ?L = "unat len" and ?C = "unat cb"
  have less: "s < n" using Suc.prems(1) by (simp add: word_less_nat_alt)
  have s1: "unat (s + 1) = Suc (unat s)"
    using Suc.prems(1) unat_u64_bound [of n] by (simp add: unat_add_u64)
  have "unat s * ?S \<le> (unat n - 1) * ?S" using Suc.prems(1) by (intro mult_le_mono1) simp
  then have e1: "unat ?b + ?L < 18446744073709551616" using fits Suc.prems(2) by linarith
  have l1: "unat (len - 1) = ?L - 1" using len(1) by (simp add: unat_sub_u64 Suc_le_eq)
  have e: "checked_add ?b (len - 1) = Some (?b + (len - 1))" "unat (?b + (len - 1)) = unat ?b + ?L - 1"
    using e1 len(1) by (simp_all add: checked_add_Some_iff l1 unat_add_u64)
  define f where "f = ?b div cb"
  define l where "l = (?b + (len - 1)) div cb"
  define add where "add = (if \<not> sc_has_covered_chunk scan \<or> f > sc_covered_last_chunk scan then l - f + 1
    else if l > sc_covered_last_chunk scan then l - sc_covered_last_chunk scan else 0)"
  note card = segments_chunks_card [OF cb len(1,2), where a = a and n = "unat s", folded Suc.prems(2)]
  have uf: "unat f = unat ?b div ?C" and ul: "unat l = (unat ?b + ?L - 1) div ?C"
    by (simp_all add: f_def l_def unat_div e(2))
  have small: "unat l - unat f + 1 < 18446744073709551616"
  proof -
    have "unat l \<le> unat ?b + ?L - 1" unfolding ul by simp
    then show ?thesis using e1 len(1) by linarith
  qed
  define c where "c = (a + (unat s - 1) * ?S + ?L - 1) div ?C"
  have uadd: "unat add = (if unat s = 0 \<or> unat f > c then unat l - unat f + 1 else unat l - c)"
    and umax: "unat (max (sc_covered_last_chunk scan) l) = unat l"
  proof -
    have fl: "unat f \<le> unat l" using card(3) by (simp add: uf ul)
    have one: "unat (l - f + 1) = unat l - unat f + 1"
      using fl small by (simp add: unat_add_u64 unat_sub_u64)
    show "unat add = (if unat s = 0 \<or> unat f > c then unat l - unat f + 1 else unat l - c)"
      "unat (max (sc_covered_last_chunk scan) l) = unat l"
    proof (atomize (full), cases "unat s = 0")
      case True
      then show "unat add = (if unat s = 0 \<or> unat f > c then unat l - unat f + 1 else unat l - c) \<and>
          unat (max (sc_covered_last_chunk scan) l) = unat l"
        using Suc.prems(4,6) one by (simp add: add_def)
    next
      case False
      then have v: "unat (sc_covered_last_chunk scan) = c" "sc_has_covered_chunk scan" "c \<le> unat f"
        using Suc.prems(4,5) card(2) by (simp_all add: c_def uf)
      then show "unat add = (if unat s = 0 \<or> unat f > c then unat l - unat f + 1 else unat l - c) \<and>
          unat (max (sc_covered_last_chunk scan) l) = unat l"
        using False one fl by (auto simp: add_def word_less_nat_alt unat_sub_u64 unat_max)
    qed
  qed
  have step: "scan_segments cb len stride n s scan r =
      (case checked_add (ts_chunk_count r) add of
         None \<Rightarrow> r\<lparr>ts_error := Wse_resident_size_overflow\<rparr>
       | Some chunk_count \<Rightarrow>
           let r' = r\<lparr>ts_chunk_count := chunk_count\<rparr>;
               scan' = scan\<lparr>sc_covered_last_chunk := max (sc_covered_last_chunk scan) l, sc_has_covered_chunk := True\<rparr>
           in if s + 1 \<noteq> n then
                (case checked_add ?b stride of
                   None \<Rightarrow> r'\<lparr>ts_error := Wse_range_overflow\<rparr>
                 | Some next_begin \<Rightarrow>
                     scan_segments cb len stride n (s + 1) (scan'\<lparr>sc_segment_begin := next_begin\<rparr>) r')
              else scan_segments cb len stride n (s + 1) scan' r')"
    unfolding scan_segments.simps [of cb len stride n s scan r] if_P [OF less] e(1) option.case add_def f_def l_def Let_def
    by (cases scan) (simp only: segment_scan.simps)
  obtain count where cnt: "checked_add (ts_chunk_count r) add = Some count"
    using Suc.prems(7) by (cases "checked_add (ts_chunk_count r) add") (auto simp: step)
  let ?r = "r\<lparr>ts_chunk_count := count\<rparr>"
  have ucnt: "unat count = card (segments_chunks ?C a ?S ?L (Suc (unat s)))"
    using cnt card(1) by (simp add: checked_add_Some_iff uadd Suc.prems(3) uf ul c_def)
  show ?case
  proof (cases "s + 1 = n")
    case True
    then have "scan_segments cb len stride n s scan r = ?r"
      unfolding step by (simp add: cnt) (subst scan_segments.simps, simp)
    then show ?thesis using True ucnt s1 by simp
  next
    case False
    then have sn: "Suc (unat s) < unat n" using Suc.prems(1) s1 by (auto simp: word_unat_eq_iff)
    have "(unat s + 1) * ?S \<le> (unat n - 1) * ?S" using sn by (intro mult_le_mono1) simp
    then have "unat ?b + ?S < 18446744073709551616" using fits Suc.prems(2) by simp
    then obtain nb where nb: "checked_add ?b stride = Some nb" "unat nb = unat ?b + ?S"
      by (auto simp: checked_add_def gt_max_minus_iff unat_add_u64)
    let ?scan = "scan\<lparr>sc_covered_last_chunk := max (sc_covered_last_chunk scan) l, sc_has_covered_chunk := True,
      sc_segment_begin := nb\<rparr>"
    have run: "scan_segments cb len stride n s scan r = scan_segments cb len stride n (s + 1) ?scan ?r"
      unfolding step using False by (simp add: cnt nb(1) Let_def)
    have "unat (ts_chunk_count (scan_segments cb len stride n (s + 1) ?scan ?r)) =
        card (segments_chunks ?C a ?S ?L (unat n)) \<and>
      ts_access_range_count (scan_segments cb len stride n (s + 1) ?scan ?r) = ts_access_range_count ?r"
    proof (rule Suc.hyps(1))
      show "k = unat n - unat (s + 1)" using Suc.hyps(2) s1 by simp
      show "ts_error (scan_segments cb len stride n (s + 1) ?scan ?r) = Wse_none" using Suc.prems(7) run by simp
      show "unat (sc_covered_last_chunk ?scan) = (a + (unat (s + 1) - 1) * ?S + ?L - 1) div ?C"
        by (simp add: umax ul Suc.prems(2) s1)
    qed (use sn s1 nb(2) Suc.prems(2) ucnt in simp_all)
    then show ?thesis by (simp add: run)
  qed
qed simp

section \<open>A rectangle in stored coordinates\<close>

definition major_of :: "matrix_view \<Rightarrow> matrix_operation \<Rightarrow> u64 \<Rightarrow> u64 \<Rightarrow> u64" where
  "major_of M op i j = (if mv_layout M = Row_major then physical op i j else physical op j i)"

definition minor_of :: "matrix_view \<Rightarrow> matrix_operation \<Rightarrow> u64 \<Rightarrow> u64 \<Rightarrow> u64" where
  "minor_of M op i j = (if mv_layout M = Row_major then physical op j i else physical op i j)"

definition rectangle_in :: "matrix_view \<Rightarrow> matrix_operation \<Rightarrow> u64 \<Rightarrow> u64 \<Rightarrow> u64 \<Rightarrow> u64 \<Rightarrow> bool" where
  "rectangle_in M op i is j js \<longleftrightarrow> view_ok M \<and>
     (case operated_shape M op of (rows, columns) \<Rightarrow>
        0 < unat is \<and> unat i + unat is \<le> unat rows \<and> 0 < unat js \<and> unat j + unat js \<le> unat columns)"

lemma rectangle_stored:
  assumes "rectangle_in M op i is j js"
  shows "stored_ok M (unat (major_of M op i j)) (unat (major_of M op is js))
    (unat (minor_of M op i j)) (unat (minor_of M op is js))"
  using assms
  by (auto simp: stored_ok_def rectangle_in_def major_of_def minor_of_def physical_def operated_shape_def
      major_count_def minor_count_def split: if_splits)

lemma rectangle_guard:
  assumes "rectangle_in M op i is j js" "operated_shape M op = (rows, columns)"
  shows "\<not> (is = 0 \<or> js = 0 \<or> checked_add i is = None \<or> checked_add j js = None \<or>
    the (checked_add i is) > rows \<or> the (checked_add j js) > columns)"
proof -
  have b: "0 < unat is" "unat i + unat is \<le> unat rows" "0 < unat js" "unat j + unat js \<le> unat columns"
    using assms by (simp_all add: rectangle_in_def)
  then have "checked_add i is = Some (i + is)" "checked_add j js = Some (j + js)"
    using unat_u64_bound [of rows] unat_u64_bound [of columns] by (simp_all add: checked_add_Some_iff unat_add_u64)
  then show ?thesis
    using b unat_u64_bound [of rows] unat_u64_bound [of columns]
    by (auto simp: word_less_nat_alt unat_add_u64)
qed

lemma rectangle_bytes:
  assumes "stored_ok M x xs y (unat ys)"
  obtains e len where "element_size_bytes (mv_element_type M) = Some e" "unat e = element_bytes_of M"
    "checked_multiply ys e = Some len" "unat len = unat ys * element_bytes_of M"
proof -
  obtain e where e: "element_size_bytes (mv_element_type M) = Some e" "unat e = element_bytes_of M"
    using assms element_bytes_of_eq by (auto simp: stored_ok_def view_ok_def)
  have "unat ys * unat e < 18446744073709551616"
    using stored_in_storage [OF assms, of 0] assms e(2) by (simp add: stored_ok_def)
  then obtain len where "checked_multiply ys e = Some len" "unat len = unat ys * unat e"
    using checked_multiply_None_iff [of ys e] by (cases "checked_multiply ys e") (auto simp: checked_multiply_Some_iff)
  then show ?thesis using that e by simp
qed

definition rectangle_block :: "matrix_view \<Rightarrow> matrix_operation \<Rightarrow> access_mode \<Rightarrow> u64 \<Rightarrow> u64 \<Rightarrow> u64 \<Rightarrow> u64 \<Rightarrow> access_range list" where
  "rectangle_block M op md i is j js =
     segment_block M md (unat (major_of M op i j)) (unat (minor_of M op i j)) (unat (minor_of M op is js))
       (of_nat (unat (minor_of M op is js) * element_bytes_of M)) (unat (major_of M op is js))"

lemma append_rectangle_block:
  assumes r: "rectangle_in M op i is j js"
    and other: "ranges = [] \<or> ar_allocation_id (last ranges) \<noteq> mv_allocation_id M"
    and room: "length ranges + length (rectangle_block M op md i is j js) \<le> unat mx"
  shows "append_matrix_rectangle M op i is j js md mx ranges = Inr (ranges @ rectangle_block M op md i is j js)"
proof -
  let ?x = "major_of M op i j" and ?xs = "major_of M op is js" and ?y = "minor_of M op i j" and ?ys = "minor_of M op is js"
  note ok = rectangle_stored [OF r]
  obtain e len where e: "element_size_bytes (mv_element_type M) = Some e"
    and len: "checked_multiply ?ys e = Some len" "unat len = unat ?ys * element_bytes_of M"
    by (rule rectangle_bytes [OF ok])
  obtain rows columns where shape: "operated_shape M op = (rows, columns)" by fastforce
  have block: "rectangle_block M op md i is j js =
      segment_block M md (unat ?x) (unat ?y) (unat ?ys) len (unat ?xs)"
    unfolding rectangle_block_def len(2) [symmetric] by simp
  have "append_matrix_rectangle M op i is j js md mx ranges =
      append_segments M e (physical op i j) (physical op j i) len md mx ?xs 0 ranges"
    unfolding append_matrix_rectangle_def shape Let_def prod.case e option.sel
      major_of_def [of M op "is" js, symmetric] minor_of_def [of M op "is" js, symmetric] if_not_P [OF rectangle_guard [OF r shape]]
    by (simp add: len(1))
  moreover have "append_segments M e (physical op i j) (physical op j i) len md mx ?xs 0
      (ranges @ segment_block M md (unat ?x) (unat ?y) (unat ?ys) len (unat (0 :: u64))) =
    Inr (ranges @ segment_block M md (unat ?x) (unat ?y) (unat ?ys) len (unat ?xs))"
    by (rule append_segments_block [OF ok e _ _ len(2) other])
      (use room block in \<open>simp_all add: major_of_def minor_of_def\<close>)
  ultimately show ?thesis by (simp add: block)
qed

section \<open>The summary of a rectangle\<close>

lemma operand_chunks:
  "(\<lambda>q. q div cb) ` operand_rectangle M op i is j js =
   segments_chunks cb (stored_at M (unat (major_of M op i j)) (unat (minor_of M op i j)))
     (unat (mv_leading_dimension M) * element_bytes_of M) (unat (minor_of M op is js) * element_bytes_of M)
     (unat (major_of M op is js))"
proof -
  let ?x = "unat (major_of M op i j)" and ?xs = "unat (major_of M op is js)"
    and ?y = "unat (minor_of M op i j)" and ?ys = "unat (minor_of M op is js)"
  have "operand_rectangle M op i is j js = stored_rectangle M ?x ?xs ?y ?ys"
    unfolding major_of_def minor_of_def by (rule stored_operand [symmetric])
  also have "\<dots> = (\<Union>s<?xs. {stored_at M (?x + s) ?y ..< stored_at M (?x + s) ?y + ?ys * element_bytes_of M})"
  proof -
    have "{?x..<?x + ?xs} = (+) ?x ` {..<?xs}" by (simp add: lessThan_atLeast0 add.commute)
    then show ?thesis by (simp add: stored_rectangle_def segment_union)
  qed
  finally show ?thesis by (simp add: segments_chunks_def stored_at_step)
qed


lemma rectangle_block_length:
  assumes "rectangle_in M op i is j js"
  shows "length (rectangle_block M op md i is j js) =
    (if unat (minor_of M op is js) = unat (mv_leading_dimension M) then 1 else unat (major_of M op is js))"
  using rectangle_stored [OF assms] by (simp add: rectangle_block_def segment_block_def stored_ok_def)

lemma summarize_exact:
  assumes r: "rectangle_in M op i is j js" and cb: "cb \<noteq> 0" and mx: "mx \<noteq> 0"
    and ok: "ts_error (summarize_matrix_rectangle M op i is j js cb mx) = Wse_none"
  shows "unat (ts_access_range_count (summarize_matrix_rectangle M op i is j js cb mx)) =
      length (rectangle_block M op md i is j js) \<and>
    unat (ts_chunk_count (summarize_matrix_rectangle M op i is j js cb mx)) =
      card ((\<lambda>q. q div unat cb) ` operand_rectangle M op i is j js)"
proof -
  let ?x = "major_of M op i j" and ?xs = "major_of M op is js" and ?y = "minor_of M op i j" and ?ys = "minor_of M op is js"
  let ?ld = "mv_leading_dimension M" and ?sm = "summarize_matrix_rectangle M op i is j js cb mx"
  note st = rectangle_stored [OF r]
  obtain e len where e: "element_size_bytes (mv_element_type M) = Some e" "unat e = element_bytes_of M"
    and len: "checked_multiply ?ys e = Some len" "unat len = unat ?ys * element_bytes_of M"
    by (rule rectangle_bytes [OF st])
  obtain rows columns where shape: "operated_shape M op = (rows, columns)" by fastforce
  have guard: "\<not> (cb = 0 \<or> mx = 0 \<or> is = 0 \<or> js = 0 \<or> checked_add i is = None \<or> checked_add j js = None \<or>
    the (checked_add i is) > rows \<or> the (checked_add j js) > columns)"
    using rectangle_guard [OF r shape] cb mx by blast
  note run = summarize_matrix_rectangle_def [of M op i "is" j js cb mx, unfolded shape Let_def prod.case if_not_P [OF guard]
      e(1) option.sel major_of_def [of M op "is" js, symmetric] minor_of_def [of M op "is" js, symmetric]
      major_of_def [of M op i j, symmetric] minor_of_def [of M op i j, symmetric] len(1)]
  obtain stride where stride: "checked_multiply ?ld e = Some stride"
    using ok unfolding run by (cases "checked_multiply ?ld e") auto
  define contiguous where "contiguous \<longleftrightarrow> len = stride"
  define n where "n = (if contiguous then 1 else ?xs)"
  define F where "F = do {
      element_index \<leftarrow> checked_multiply ?x ?ld;
      element_index \<leftarrow> checked_add element_index ?y;
      first_byte \<leftarrow> checked_multiply element_index e;
      checked_add (mv_offset_bytes M) first_byte
    }"
  define L where "L first_byte = do {
      last_segment_delta \<leftarrow> checked_multiply (?xs - 1) stride;
      last_segment_begin \<leftarrow> checked_add first_byte last_segment_delta;
      checked_add last_segment_begin (len - 1)
    }" for first_byte
  define R where "R first final =
      (let result = tile_summary_default\<lparr>ts_access_range_count := n\<rparr>
       in if contiguous then result\<lparr>ts_chunk_count := final div cb - first div cb + 1\<rparr>
          else scan_segments cb len stride ?xs 0
                 \<lparr>sc_segment_begin = first, sc_covered_last_chunk = 0, sc_has_covered_chunk = False\<rparr> result)" for first final
  have run': "?sm =
      (if n > mx then (tile_summary_default\<lparr>ts_access_range_count := n\<rparr>)\<lparr>ts_error := Wse_too_many_ranges\<rparr>
       else case F of None \<Rightarrow> (tile_summary_default\<lparr>ts_access_range_count := n\<rparr>)\<lparr>ts_error := Wse_range_overflow\<rparr>
       | Some first \<Rightarrow>
           (case L first of None \<Rightarrow> (tile_summary_default\<lparr>ts_access_range_count := n\<rparr>)\<lparr>ts_error := Wse_range_overflow\<rparr>
            | Some final \<Rightarrow>
                if final \<ge> mv_allocation_bytes M
                then (tile_summary_default\<lparr>ts_access_range_count := n\<rparr>)\<lparr>ts_error := Wse_range_overflow\<rparr>
                else if ts_error (R first final) \<noteq> Wse_none then R first final
                else case checked_multiply (ts_chunk_count (R first final)) cb of
                    None \<Rightarrow> (R first final)\<lparr>ts_error := Wse_resident_size_overflow\<rparr>
                  | Some resident \<Rightarrow> (R first final)\<lparr>ts_resident_bytes := resident\<rparr>))"
    unfolding run stride option.case prod.case contiguous_def [symmetric] n_def [symmetric] F_def [symmetric]
      L_def [symmetric] R_def Let_def tile_summary.select_convs tile_summary.update_convs
    by (simp cong: option.case_cong if_cong)
  have lt: "\<not> n > mx" using ok unfolding run' by (auto split: if_splits)
  obtain first where first: "F = Some first" using ok unfolding run' by (cases F) (auto split: if_splits)
  obtain final where final: "L first = Some final"
    using ok unfolding run' first by (cases "L first") (auto split: if_splits)
  have small: "\<not> final \<ge> mv_allocation_bytes M" using ok lt final unfolding run' first by (auto split: if_splits)
  have none: "ts_error (R first final) = Wse_none"
    using ok lt final small unfolding run' first by (auto split: if_splits)
  have same: "ts_access_range_count ?sm = ts_access_range_count (R first final)"
    "ts_chunk_count ?sm = ts_chunk_count (R first final)"
    unfolding run' first using lt final small none by (simp_all split: option.splits)
  let ?S = "unat ?ld * element_bytes_of M" and ?L = "unat ?ys * element_bytes_of M"
  let ?a = "stored_at M (unat ?x) (unat ?y)"
  have S: "unat stride = ?S" using stride e(2) by (simp add: checked_multiply_Some_iff)
  have pos: "0 < unat ?ys" "0 < unat ?xs" "unat ?ys \<le> unat ?ld" "0 < element_bytes_of M"
    using st by (auto simp: stored_ok_def view_ok_def)
  have L: "0 < unat len" "unat len \<le> unat stride" using pos by (simp_all add: len(2) S)
  have a: "unat first = ?a"
    using first by (auto simp: F_def bind_eq_Some_conv checked_add_Some_iff checked_multiply_Some_iff stored_at_def e(2))
  have x1: "unat (?xs - 1) = unat ?xs - 1" using pos(2) by (simp add: unat_sub_u64 Suc_le_eq)
  have l1: "unat (len - 1) = unat len - 1" using L(1) by (simp add: unat_sub_u64 Suc_le_eq)
  have fin: "unat final = ?a + (unat ?xs - 1) * unat stride + (unat len - 1)"
    "?a + (unat ?xs - 1) * unat stride + (unat len - 1) < 18446744073709551616"
    using final unfolding L_def
    by (auto simp: bind_eq_Some_conv checked_add_Some_iff checked_multiply_Some_iff a x1 l1)
  have cont: "contiguous \<longleftrightarrow> unat ?ys = unat ?ld"
    using pos(4) by (simp add: contiguous_def word_unat_eq_iff len(2) S)
  have blk: "length (rectangle_block M op md i is j js) = unat n"
    unfolding rectangle_block_length [OF r] n_def cont by simp
  have img: "(\<lambda>q. q div unat cb) ` operand_rectangle M op i is j js =
      segments_chunks (unat cb) ?a (unat stride) (unat len) (unat ?xs)"
    by (simp add: operand_chunks S len(2))
  have c0: "0 < unat cb" using cb by (simp add: unat_gt_0_iff)
  have "unat (ts_access_range_count (R first final)) = unat n \<and>
    unat (ts_chunk_count (R first final)) = card (segments_chunks (unat cb) ?a (unat stride) (unat len) (unat ?xs))"
  proof (cases contiguous)
    case True
    then have "len = stride" by (simp add: contiguous_def)
    then have "(\<Union>s<unat ?xs. {?a + s * unat stride ..< ?a + s * unat stride + unat len}) = {?a ..< ?a + unat ?xs * unat stride}"
      by (simp add: adjacent_intervals)
    moreover have "0 < unat ?xs * unat stride" using pos(2) L by simp
    moreover have "?a + unat ?xs * unat stride - 1 = unat final"
      using fin(1) \<open>len = stride\<close> pos(2) L by (cases "unat ?xs") simp_all
    ultimately have eq: "segments_chunks (unat cb) ?a (unat stride) (unat len) (unat ?xs) =
        {?a div unat cb .. unat final div unat cb}"
      using div_interval [OF c0, of "unat ?xs * unat stride" ?a] by (simp add: segments_chunks_def)
    have le: "?a \<le> unat final" using fin(1) by simp
    then have d: "?a div unat cb \<le> unat final div unat cb" by (rule div_le_mono)
    have "unat final < unat (mv_allocation_bytes M)" using small by (simp add: word_le_nat_alt)
    then have "unat final < 18446744073709551615" using unat_u64_le [of "mv_allocation_bytes M"] by linarith
    then have "unat final div unat cb < 18446744073709551615" using div_le_dividend [of "unat final" "unat cb"] by linarith
    moreover have "unat (final div cb - first div cb) = unat final div unat cb - ?a div unat cb"
      using d by (simp add: unat_sub_u64 unat_div a)
    ultimately have "unat (final div cb - first div cb + 1) = unat final div unat cb - ?a div unat cb + 1"
      by (simp add: unat_add_u64)
    then show ?thesis using True d eq by (simp add: R_def)
  next
    case False
    note sc = scan_segments_spec [OF c0 L, of ?a ?xs 0
        "\<lparr>sc_segment_begin = first, sc_covered_last_chunk = 0, sc_has_covered_chunk = False\<rparr>"
        "tile_summary_default\<lparr>ts_access_range_count := n\<rparr>"]
    have r: "R first final = scan_segments cb len stride ?xs 0
        \<lparr>sc_segment_begin = first, sc_covered_last_chunk = 0, sc_has_covered_chunk = False\<rparr>
        (tile_summary_default\<lparr>ts_access_range_count := n\<rparr>)" using False by (simp add: R_def)
    have "unat final < unat (mv_allocation_bytes M)" using small by (simp add: word_le_nat_alt)
    then have f: "?a + (unat ?xs - 1) * unat stride + unat len < 18446744073709551616"
      using fin(1) L(1) unat_u64_le [of "mv_allocation_bytes M"] by linarith
    show ?thesis unfolding r
      using sc [OF f] pos(2) none[unfolded r] by (simp add: a segments_chunks_def tile_summary_default_def)
  qed
  then show ?thesis by (simp add: same blk img)
qed

section \<open>Normalisation of separated ranges\<close>

text \<open>Two ranges with a byte between them, or in different allocations.\<close>

definition gap_between :: "access_range \<Rightarrow> access_range \<Rightarrow> bool" where
  "gap_between r s \<longleftrightarrow> ar_allocation_id r \<noteq> ar_allocation_id s \<or>
     unat (ar_offset_bytes r) + unat (ar_length_bytes r) < unat (ar_offset_bytes s) \<or>
     unat (ar_offset_bytes s) + unat (ar_length_bytes s) < unat (ar_offset_bytes r)"

lemma gap_between_sym: "gap_between r s \<longleftrightarrow> gap_between s r"
  by (auto simp: gap_between_def)

lemma sorted_wrt_permuted:
  assumes "\<And>x y. P x y \<Longrightarrow> P y x" "mset ys = mset xs" "sorted_wrt P xs"
  shows "sorted_wrt P ys"
  using assms(2,3)
proof (induction ys arbitrary: xs)
  case (Cons y ys)
  have "y \<in> set xs" using Cons.prems(1) by (metis list.set_intros(1) set_mset_mset)
  then obtain us vs where xs: "xs = us @ y # vs" by (meson split_list)
  then have m: "mset ys = mset (us @ vs)" using Cons.prems(1) by simp
  have "sorted_wrt P (us @ vs)" using Cons.prems(2) xs by (auto simp: sorted_wrt_append)
  moreover have "\<forall>z\<in>set (us @ vs). P y z" using Cons.prems(2) xs assms(1) by (auto simp: sorted_wrt_append)
  ultimately show ?case using Cons.IH [OF m] mset_eq_setD [OF m] by simp
qed simp

lemma fast_normalize_separated:
  assumes "sorted_wrt begins_before rest" "sorted_wrt gap_between (out @ rest)" "\<forall>r\<in>set out \<union> set rest. range_wf r"
    and "out \<noteq> [] \<Longrightarrow> \<forall>r\<in>set rest. begins_before (last out) r"
  shows "fast_normalize_loop rest out = Some (out @ rest)"
  using assms
proof (induction rest arbitrary: out)
  case (Cons r rest)
  have next_ok: "fast_normalize_loop rest (out @ [r]) = Some (out @ r # rest)"
    using Cons.IH [of "out @ [r]"] Cons.prems by simp
  show ?case
  proof (cases "out = [] \<or> ar_allocation_id (last out) \<noteq> ar_allocation_id r")
    case True
    then show ?thesis using next_ok by simp
  next
    case False
    then have l: "last out \<in> set out" by simp
    have bb: "begins_before (last out) r" "gap_between (last out) r" "range_wf (last out)"
      using Cons.prems l False by (auto simp: sorted_wrt_append)
    then have "unat (ar_offset_bytes (last out)) + unat (ar_length_bytes (last out)) < unat (ar_offset_bytes r)"
      using False by (auto simp: begins_before_def gap_between_def word_le_nat_alt)
    then have "\<not> ar_offset_bytes r < ar_offset_bytes (last out) + ar_length_bytes (last out)"
      "\<not> ar_offset_bytes r \<le> ar_offset_bytes (last out) + ar_length_bytes (last out)"
      using bb(3) by (simp_all add: range_wf_def word_less_nat_alt word_le_nat_alt unat_add_u64)
    then show ?thesis using False next_ok by (simp add: Let_def)
  qed
qed simp

lemma normalize_separated_length:
  assumes "sorted_wrt gap_between raw" "\<forall>r\<in>set raw. range_wf r"
  shows "fast_normalize_accesses raw = Some (sort_key access_key raw)"
proof -
  have "sorted_wrt gap_between (sort_key access_key raw)"
    by (rule sorted_wrt_permuted [OF _ _ assms(1)]) (simp_all add: gap_between_sym)
  then show ?thesis
    using fast_normalize_separated [of "sort_key access_key raw" "[]"] sort_begins_before [of raw] assms(2)
    by (simp add: fast_normalize_accesses_def)
qed

lemma segment_block_shape:
  assumes ok: "stored_ok M x xs y ys" and len: "unat len = ys * element_bytes_of M"
  shows "\<forall>r\<in>set (segment_block M md x y ys len xs). ar_allocation_id r = mv_allocation_id M"
    and "sorted_wrt gap_between (segment_block M md x y ys len xs)"
proof -
  show "\<forall>r\<in>set (segment_block M md x y ys len xs). ar_allocation_id r = mv_allocation_id M"
    by (auto simp: segment_block_def segment_range_def)
  have "gap_between (segment_range M md x y len i) (segment_range M md x y len j)"
    if ne: "ys \<noteq> unat (mv_leading_dimension M)" and ij: "i < j" "j < xs" for i j
  proof -
    have "stored_at M (x + i) y + ys * element_bytes_of M < stored_at M (x + Suc i) y" by (rule stored_gap [OF ok ne])
    also have "\<dots> \<le> stored_at M (x + j) y"
      unfolding stored_at_step using ij(1) by (intro add_left_mono mult_le_mono1) simp
    finally show ?thesis
      using ij segment_range_offset [OF ok, of i md len] segment_range_offset [OF ok, of j md len] len
      by (simp add: gap_between_def segment_range_def)
  qed
  then show "sorted_wrt gap_between (segment_block M md x y ys len xs)"
    by (simp add: segment_block_def sorted_wrt_iff_nth_less)
qed


section \<open>The summary is the enumeration\<close>

lemma append_range_wf_all:
  assumes "append_matrix_rectangle M op i is j js md mx ranges = Inr out" "\<forall>r\<in>set ranges. range_wf r"
    and "rectangle_in M op i is j js" "is_valid_operation op" "md \<noteq> Mode_out_of_range"
  shows "\<forall>r\<in>set out. range_wf r"
proof -
  obtain rows columns where "operated_shape M op = (rows, columns)" by fastforce
  then show ?thesis
    using append_matrix_rectangle_exact [of M op md ranges rows columns "is" i js j mx] assms
    by (simp add: rectangle_in_def)
qed

text \<open>The keys of the chunks of one allocation.\<close>

definition tagged :: "allocation_id \<Rightarrow> nat set \<Rightarrow> chunk_key set" where
  "tagged x A = {ChunkKey x c |c. unat c \<in> A}"

lemma card_tagged:
  assumes "finite A" "\<forall>a\<in>A. a < 18446744073709551616"
  shows "card (tagged x A) = card A" "finite (tagged x A)"
proof -
  have "ChunkKey x c \<in> (\<lambda>n. ChunkKey x (of_nat n)) ` A" if "unat c \<in> A" for c
    using that by (intro image_eqI [of _ _ "unat c"]) simp_all
  then have eq: "tagged x A = (\<lambda>n. ChunkKey x (of_nat n)) ` A"
    using assms(2) by (auto simp: tagged_def unat_of_nat_u64)
  have "inj_on (\<lambda>n. ChunkKey x (of_nat n)) A"
    using assms(2) by (auto simp: inj_on_def) (metis unat_of_nat_u64)
  then show "card (tagged x A) = card A" "finite (tagged x A)" using assms(1) by (simp_all add: eq card_image)
qed

lemma card_tagged_three:
  assumes "x \<noteq> y" "x \<noteq> z" "y \<noteq> z"
    and "finite A" "\<forall>a\<in>A. a < 18446744073709551616" "finite B" "\<forall>a\<in>B. a < 18446744073709551616"
      "finite C" "\<forall>a\<in>C. a < 18446744073709551616"
  shows "card (tagged x A \<union> tagged y B \<union> tagged z C) = card A + card B + card C"
proof -
  note A = card_tagged [OF assms(4,5), of x] and B = card_tagged [OF assms(6,7), of y] and C = card_tagged [OF assms(8,9), of z]
  have "tagged x A \<inter> tagged y B = {}" "(tagged x A \<union> tagged y B) \<inter> tagged z C = {}"
    using assms(1-3) by (auto simp: tagged_def)
  then show ?thesis using A B C by (simp add: card_Un_disjoint)
qed

lemma tile_rectangles:
  assumes "problem_ok p" "tile_in_problem p t"
  shows "rectangle_in (gp_a p) (gp_a_operation p) (gt_m_begin t) (gt_m_count t) (gt_k_begin t) (gt_k_count t)"
    "rectangle_in (gp_b p) (gp_b_operation p) (gt_k_begin t) (gt_k_count t) (gt_n_begin t) (gt_n_count t)"
    "rectangle_in (gp_c p) Operation_none (gt_m_begin t) (gt_m_count t) (gt_n_begin t) (gt_n_count t)"
  using assms unfolding tile_in_problem_iff
  by (simp_all add: rectangle_in_def problem_ok_def operated_shape_def)

lemma rectangle_block_props:
  assumes "rectangle_in M op i is j js"
  shows "rectangle_block M op md i is j js \<noteq> []"
    and "\<forall>r\<in>set (rectangle_block M op md i is j js). ar_allocation_id r = mv_allocation_id M"
    and "sorted_wrt gap_between (rectangle_block M op md i is j js)"
proof -
  note st = rectangle_stored [OF assms]
  obtain e len where len: "checked_multiply (minor_of M op is js) e = Some len"
    "unat len = unat (minor_of M op is js) * element_bytes_of M"
    by (rule rectangle_bytes [OF st])
  note shape = segment_block_shape [OF st len(2), of md]
  have len: "of_nat (unat (minor_of M op is js) * element_bytes_of M) = len"
    unfolding len(2) [symmetric] by simp
  show "rectangle_block M op md i is j js \<noteq> []"
    using rectangle_block_length [OF assms, of md] st by (auto simp: stored_ok_def split: if_splits)
  show "\<forall>r\<in>set (rectangle_block M op md i is j js). ar_allocation_id r = mv_allocation_id M"
    "sorted_wrt gap_between (rectangle_block M op md i is j js)"
    unfolding rectangle_block_def len by (rule shape)+
qed

lemma rectangle_chunks_bounded:
  assumes "rectangle_in M op i is j js"
  shows "finite ((\<lambda>q. q div cb) ` operand_rectangle M op i is j js)"
    and "\<forall>c\<in>(\<lambda>q. q div cb) ` operand_rectangle M op i is j js. c < 18446744073709551616"
proof -
  obtain rows columns where "operated_shape M op = (rows, columns)" by fastforce
  then have lt: "q < storage_end_of M" if "q \<in> operand_rectangle M op i is j js" for q
    using rectangle_in_storage [of M op rows columns i "is" j js q] assms that by (simp add: rectangle_in_def)
  have "storage_end_of M \<le> unat (mv_allocation_bytes M)" using assms by (simp add: rectangle_in_def view_ok_def)
  then have le: "storage_end_of M < 18446744073709551616" using unat_u64_bound [of "mv_allocation_bytes M"] by linarith
  show "finite ((\<lambda>q. q div cb) ` operand_rectangle M op i is j js)"
    by (rule finite_imageI, rule finite_subset [of _ "{..<storage_end_of M}"]) (auto dest: lt)
  show "\<forall>c\<in>(\<lambda>q. q div cb) ` operand_rectangle M op i is j js. c < 18446744073709551616"
    using le by (auto dest!: lt intro: le_less_trans [OF div_le_dividend])
qed

text \<open>The ranges of a tile before normalisation: one block per matrix.\<close>

definition tile_block_a :: "gemm_problem \<Rightarrow> gemm_tile \<Rightarrow> access_range list" where
  "tile_block_a p t =
     rectangle_block (gp_a p) (gp_a_operation p) Read (gt_m_begin t) (gt_m_count t) (gt_k_begin t) (gt_k_count t)"

definition tile_block_b :: "gemm_problem \<Rightarrow> gemm_tile \<Rightarrow> access_range list" where
  "tile_block_b p t =
     rectangle_block (gp_b p) (gp_b_operation p) Read (gt_k_begin t) (gt_k_count t) (gt_n_begin t) (gt_n_count t)"

definition tile_block_c :: "gemm_problem \<Rightarrow> gemm_tile \<Rightarrow> access_range list" where
  "tile_block_c p t = rectangle_block (gp_c p) Operation_none (result_access_mode p (gt_k_begin t))
     (gt_m_begin t) (gt_m_count t) (gt_n_begin t) (gt_n_count t)"

lemma raw_accesses_blocks:
  assumes ok: "problem_ok p" "distinct_allocations p" "tile_in_problem p t"
    and room: "length (tile_block_a p t) + length (tile_block_b p t) + length (tile_block_c p t) \<le> unat mx"
  shows "raw_accesses p t mx = Inr (tile_block_a p t @ tile_block_b p t @ tile_block_c p t)"
    and "sorted_wrt gap_between (tile_block_a p t @ tile_block_b p t @ tile_block_c p t)"
proof -
  let ?A = "tile_block_a p t" and ?B = "tile_block_b p t" and ?C = "tile_block_c p t"
  let ?md = "result_access_mode p (gt_k_begin t)"
  note R = tile_rectangles [OF ok(1,3)] and ids = ok(2) [unfolded distinct_allocations_def]
  note blocks = tile_block_a_def [of p t, symmetric] tile_block_b_def [of p t, symmetric] tile_block_c_def [of p t, symmetric]
  note PA = rectangle_block_props [OF R(1), of Read, unfolded blocks]
    and PB = rectangle_block_props [OF R(2), of Read, unfolded blocks]
    and PC = rectangle_block_props [OF R(3), of ?md, unfolded blocks]
  note step = append_rectangle_block [OF R(1), where md = Read, unfolded blocks]
    append_rectangle_block [OF R(2), where md = Read, unfolded blocks]
    append_rectangle_block [OF R(3), where md = ?md, unfolded blocks]
  have "ar_allocation_id (last ?A) = mv_allocation_id (gp_a p)" "ar_allocation_id (last ?B) = mv_allocation_id (gp_b p)"
    using PA(1,2) PB(1,2) by simp_all
  then show "raw_accesses p t mx = Inr (?A @ ?B @ ?C)"
    using step(1) [of "[]" mx] step(2) [of ?A mx] step(3) [of "?A @ ?B" mx] PB(1) ids room
    by (simp add: raw_accesses_def)
  show "sorted_wrt gap_between (?A @ ?B @ ?C)"
    using PA(2,3) PB(2,3) PC(2,3) ids by (auto simp: sorted_wrt_append gap_between_def)
qed

lemma tile_chunks_card:
  assumes ok: "problem_ok p" "distinct_allocations p" "tile_in_problem p t"
    and tt: "\<forall>a q m. touched rs a q m \<longleftrightarrow> tile_touches p t a q m"
  shows "card (chunk_keys_of cb rs) =
    card ((\<lambda>q. q div unat cb) ` operand_rectangle (gp_a p) (gp_a_operation p) (gt_m_begin t) (gt_m_count t) (gt_k_begin t) (gt_k_count t)) +
    card ((\<lambda>q. q div unat cb) ` operand_rectangle (gp_b p) (gp_b_operation p) (gt_k_begin t) (gt_k_count t) (gt_n_begin t) (gt_n_count t)) +
    card ((\<lambda>q. q div unat cb) ` operand_rectangle (gp_c p) Operation_none (gt_m_begin t) (gt_m_count t) (gt_n_begin t) (gt_n_count t))"
    (is "_ = card ?ka + card ?kb + card ?kc")
proof -
  note R = tile_rectangles [OF ok(1,3)] and ids = ok(2) [unfolded distinct_allocations_def]
  have "chunk_keys_of cb rs = tagged (mv_allocation_id (gp_a p)) ?ka \<union> tagged (mv_allocation_id (gp_b p)) ?kb \<union>
      tagged (mv_allocation_id (gp_c p)) ?kc"
    unfolding chunk_keys_of_def tagged_def using tt
    by (auto simp: tile_touches_def tile_reads_def tile_results_def image_iff)
  then show ?thesis
    using card_tagged_three ids rectangle_chunks_bounded [OF R(1)] rectangle_chunks_bounded [OF R(2)]
      rectangle_chunks_bounded [OF R(3)] by presburger
qed

lemma combined_is_enumerated:
  fixes p t c
  defines "a \<equiv> rectangle_summary c (gp_a p) (gp_a_operation p) (gt_m_begin t, gt_m_count t) (gt_k_begin t, gt_k_count t)"
    and "b \<equiv> rectangle_summary c (gp_b p) (gp_b_operation p) (gt_k_begin t, gt_k_count t) (gt_n_begin t, gt_n_count t)"
    and "r \<equiv> rectangle_summary c (gp_c p) Operation_none (gt_m_begin t, gt_m_count t) (gt_n_begin t, gt_n_count t)"
    and "cb \<equiv> pc_chunk_bytes c" and "mx \<equiv> pc_maximum_access_ranges_per_tile c"
  assumes ok: "problem_ok p" "distinct_allocations p" "tile_in_problem p t" "cb \<noteq> 0" "mx \<noteq> 0"
    and none: "ts_error a = Wse_none" "ts_error b = Wse_none" "ts_error r = Wse_none"
    and x: "combine_summaries cb a b r = Some x" "ts_access_range_count x \<le> mx"
  shows "\<exists>ws. enumerate_tile_working_set p t cb mx = Some ws \<and> wr_error ws = Wse_none \<and>
    wr_resident_bytes ws = ts_resident_bytes x \<and> length (wr_chunks ws) = unat (ts_chunk_count x) \<and>
    length (wr_accesses ws) = unat (ts_access_range_count x)"
proof -
  let ?md = "result_access_mode p (gt_k_begin t)"
  let ?A = "tile_block_a p t" and ?B = "tile_block_b p t" and ?C = "tile_block_c p t"
  let ?ka = "(\<lambda>q. q div unat cb) ` operand_rectangle (gp_a p) (gp_a_operation p) (gt_m_begin t) (gt_m_count t) (gt_k_begin t) (gt_k_count t)"
  let ?kb = "(\<lambda>q. q div unat cb) ` operand_rectangle (gp_b p) (gp_b_operation p) (gt_k_begin t) (gt_k_count t) (gt_n_begin t) (gt_n_count t)"
  let ?kc = "(\<lambda>q. q div unat cb) ` operand_rectangle (gp_c p) Operation_none (gt_m_begin t) (gt_m_count t) (gt_n_begin t) (gt_n_count t)"
  note R = tile_rectangles [OF ok(1,3)]
  note defs = tile_block_a_def tile_block_b_def tile_block_c_def a_def b_def r_def rectangle_summary_def fst_conv snd_conv cb_def [symmetric] mx_def [symmetric]
  note SA = summarize_exact [OF R(1) ok(4,5) none(1) [unfolded defs], where md = Read, folded defs]
  note SB = summarize_exact [OF R(2) ok(4,5) none(2) [unfolded defs], where md = Read, folded defs]
  note SC = summarize_exact [OF R(3) ok(4,5) none(3) [unfolded defs], where md = "result_access_mode p (gt_k_begin t)", folded defs]
  have sa: "unat (ts_access_range_count a) = length ?A" "unat (ts_chunk_count a) = card ?ka"
    using SA by (simp_all add: defs)
  have sb: "unat (ts_access_range_count b) = length ?B" "unat (ts_chunk_count b) = card ?kb"
    using SB by (simp_all add: defs)
  have sc: "unat (ts_access_range_count r) = length ?C" "unat (ts_chunk_count r) = card ?kc"
    using SC by (simp_all add: defs)
  have cx: "unat (ts_chunk_count x) = card ?ka + card ?kb + card ?kc"
    "unat (ts_access_range_count x) = length ?A + length ?B + length ?C"
    "checked_multiply (ts_chunk_count x) cb = Some (ts_resident_bytes x)"
    using x(1) by (auto simp: combine_summaries_def bind_eq_Some_conv checked_add_Some_iff sa sb sc)
  have room: "length ?A + length ?B + length ?C \<le> unat mx" using x(2) cx(2) by (simp add: word_le_nat_alt)
  note raw = raw_accesses_blocks [OF ok(1-3) room]
  have wf: "\<forall>r\<in>set (?A @ ?B @ ?C). range_wf r" using raw_accesses_exact [OF ok(1,3), of mx] raw(1) by simp
  obtain rs cs where ws: "enumerate_tile_working_set p t cb mx = Some (finish_working_set cb rs cs)"
    and rs: "fast_normalize_accesses (?A @ ?B @ ?C) = Some rs"
    and tt: "\<forall>a q m. touched rs a q m \<longleftrightarrow> tile_touches p t a q m"
    and cs: "sorted_wrt (<) cs" "set cs = chunk_keys_of cb rs"
    using enumerate_valid [OF ok(1,3-5) raw(1)] by blast
  have "rs = sort_key access_key (?A @ ?B @ ?C)" using rs normalize_separated_length [OF raw(2) wf] by simp
  then have "length rs = length (?A @ ?B @ ?C)" by (simp only: length_sort)
  then have len: "length rs = unat (ts_access_range_count x)" using cx(2) by simp
  have "length cs = card (set cs)" using cs(1) by (simp add: distinct_card strict_sorted_iff)
  then have lcs: "length cs = unat (ts_chunk_count x)"
    using tile_chunks_card [OF ok(1-3) tt, of cb] cx(1) cs(2) by simp
  then have "of_nat (length cs) = ts_chunk_count x" by simp
  then have "finish_working_set cb rs cs =
      \<lparr>wr_error = Wse_none, wr_accesses = rs, wr_chunks = cs, wr_resident_bytes = ts_resident_bytes x\<rparr>"
    by (simp add: finish_working_set_def cx(3))
  then show ?thesis using ws len lcs by simp
qed

lemma enumerate_planned [simp]:
  "enumerate_tile_working_set p (planned_tile q c t x) cb mx = enumerate_tile_working_set p t cb mx"
proof -
  have "raw_accesses p (planned_tile q c t x) mx = raw_accesses p t mx"
    "tile_in_problem p (planned_tile q c t x) = tile_in_problem p t"
    unfolding raw_accesses_def tile_in_problem_def planned_tile_sel by (rule refl)+
  then show ?thesis unfolding enumerate_tile_working_set_def by (simp only:)
qed

lemma planned_tile_in_problem:
  assumes "plan_facts p c plan G ms ns ks" "t \<in> set (gl_tiles plan)"
  shows "tile_in_problem p t"
proof -
  note T = plan_triples [OF assms(1)]
  have "tile_triple t \<in> set (List.product ms (List.product ns ks))"
    unfolding T(1) [symmetric] using assms(2) by simp
  then have m: "(gt_m_begin t, gt_m_count t) \<in> set ms" "(gt_n_begin t, gt_n_count t) \<in> set ns"
    "(gt_k_begin t, gt_k_count t) \<in> set ks" by (auto simp: tile_triple_def)
  show ?thesis
    unfolding tile_in_problem_iff
    using axis_cover_mem [OF T(2) m(1)] axis_cover_mem [OF T(3) m(2)] axis_cover_mem [OF T(4) m(3)] by simp
qed

text \<open>
  C23: The summaries are the working sets: for every tile of a plan the bytes, the chunks and the ranges
  the planner computed, by arithmetic on the rectangles of the tile where every matrix has an allocation of
  its own, are those the enumeration of the tile's ranges and chunks finds; in particular the enumeration
  then succeeds.
\<close>

theorem summary_equals_enumeration:
  assumes "make_plan p c = Some plan" "gl_error plan = Ple_none" and "t \<in> set (gl_tiles plan)"
  shows "\<exists>ws. enumerate_tile_working_set p t (pc_chunk_bytes c) (pc_maximum_access_ranges_per_tile c) = Some ws \<and>
    wr_error ws = Wse_none \<and> gt_resident_bytes t = wr_resident_bytes ws \<and>
    gt_chunk_count t = of_nat (length (wr_chunks ws)) \<and>
    gt_access_range_count t = of_nat (length (wr_accesses ws))"
proof -
  obtain G ms ns ks where f: "plan_facts p c plan G ms ns ks" using make_plan_facts [OF assms(1,2)] by blast
  note T = plan_triples [OF f]
  let ?g = "gl_geometry plan"
  have tiles: "gl_tiles plan = map2 (planned_tile p c) (tiles_of p ?g ms ns ks) (ga_tiles G)"
    and ok: "problem_ok p" "pc_chunk_bytes c \<noteq> 0" "pc_maximum_access_ranges_per_tile c \<noteq> 0"
    using f by (simp_all add: plan_facts_def)
  obtain n where n: "n < length (gl_tiles plan)" "t = gl_tiles plan ! n"
    using assms(3) by (auto simp: in_set_conv_nth)
  let ?y = "tiles_of p ?g ms ns ks ! n" and ?x = "ga_tiles G ! n"
  have t: "t = planned_tile p c ?y ?x" unfolding n(2) tiles using n(1) T(8,9) by simp
  have ax: "ms' = ms \<and> ns' = ns \<and> ks' = ks" if "axes p ?g ms' ns' ks'" for ms' ns' ks'
    using that f by (simp add: axes_def plan_facts_def)
  show ?thesis
  proof (cases "distinct_allocations p")
    case True
    have "list_all2 (tile_combines p c) (List.product ms (List.product ns ks)) (ga_tiles G)"
      using f True ax by (auto simp: plan_facts_def assessed_def)
    from list_all2_nthD2 [OF this, of n] have "tile_combines p c (map tile_triple (gl_tiles plan) ! n) ?x"
      unfolding T(1) using n T(8) by simp
    then have "tile_combines p c (tile_triple t) ?x" using n by simp
    then show ?thesis
      using combined_is_enumerated [OF ok(1) True planned_tile_in_problem [OF f assms(3)] ok(2,3), of ?x]
      by (auto simp: tile_combines_def tile_triple_def Let_def t)
  next
    case False
    then have "list_all2 (tile_matches p c) (tiles_of p ?g ms ns ks) (ga_tiles G)"
      using f ax by (auto simp: plan_facts_def assessed_def)
    from list_all2_nthD2 [OF this, of n] have "tile_matches p c ?y ?x" using n T(8) by simp
    then show ?thesis by (auto simp: t tile_matches_def summary_of_def)
  qed
qed

theorem summary_equals_enumeration_witness:
  "\<exists>plan ws. make_plan half_problem_example config_example = Some plan \<and>
     enumerate_tile_working_set half_problem_example (hd (gl_tiles plan)) 64 16 = Some ws \<and>
     gt_chunk_count (hd (gl_tiles plan)) = of_nat (length (wr_chunks ws))"
proof -
  obtain plan where p: "make_plan half_problem_example config_example = Some plan" "gl_error plan = Ple_none"
    "map gt_m_count (gl_tiles plan) = [4, 2]"
    using plan_example by blast
  then have "hd (gl_tiles plan) \<in> set (gl_tiles plan)" by (cases "gl_tiles plan") auto
  from summary_equals_enumeration [OF p(1,2) this] show ?thesis
    using p(1) by (auto simp: config_example_def)
qed

end
