(* ===== verification/Host_Token.thy ===== *)
theory Host_Token
  imports Residency_Core
begin

text \<open>
  The data of the compressed host backing and its content tokens (src/src/residency/compression.hpp, the first part of
  compression.cpp): the enumerations, the container of encoded blocks, and the deterministic token that
  guards every block and every chunk. A byte is an 8-bit word, a span a list; the codec is the interface
  \<open>BlockCodec\<close>, a record of functions and a parameter of what uses it.

  A chunk is cut into blocks of 64 KiB; \<open>piece\<close> is the specification of the cut.
\<close>

unbundle bit_operations_syntax

section \<open>Data\<close>

datatype compression_mode = Mode_disabled | Mode_adaptive | Mode_capacity
datatype compression_codec = Codec_automatic | Codec_lz4
datatype compression_path = Path_raw | Path_cpu_lz4_gpu_decode | Path_nvcomp_gpu_codec
datatype backing_representation = Backing_invalid | Backing_implicit_zero | Backing_raw | Backing_lz4_blocks
datatype codec_status =
    Codec_success | Codec_invalid_argument | Codec_output_too_small | Codec_corrupt_input | Codec_internal_failure

text \<open>A value outside the enumeration falls through the switches over the storage of a block.\<close>

datatype block_storage = Storage_implicit_zero | Storage_raw | Storage_lz4 | Storage_out_of_range

fun compression_mode_name :: "compression_mode \<Rightarrow> string" where
  "compression_mode_name Mode_disabled = ''disabled''"
| "compression_mode_name Mode_adaptive = ''adaptive''"
| "compression_mode_name Mode_capacity = ''capacity''"

fun compression_codec_name :: "compression_codec \<Rightarrow> string" where
  "compression_codec_name Codec_automatic = ''auto''"
| "compression_codec_name Codec_lz4 = ''lz4''"

fun compression_path_name :: "compression_path \<Rightarrow> string" where
  "compression_path_name Path_raw = ''raw''"
| "compression_path_name Path_cpu_lz4_gpu_decode = ''cpu_lz4_gpu_decode''"
| "compression_path_name Path_nvcomp_gpu_codec = ''nvcomp_gpu_codec''"

fun backing_representation_name :: "backing_representation \<Rightarrow> string" where
  "backing_representation_name Backing_invalid = ''invalid''"
| "backing_representation_name Backing_implicit_zero = ''implicit_zero''"
| "backing_representation_name Backing_raw = ''raw''"
| "backing_representation_name Backing_lz4_blocks = ''lz4_blocks''"

fun codec_status_name :: "codec_status \<Rightarrow> string" where
  "codec_status_name Codec_success = ''success''"
| "codec_status_name Codec_invalid_argument = ''invalid_argument''"
| "codec_status_name Codec_output_too_small = ''output_too_small''"
| "codec_status_name Codec_corrupt_input = ''corrupt_input''"
| "codec_status_name Codec_internal_failure = ''internal_failure''"

record content_token =
  ct_high :: u64
  ct_low :: u64

text \<open>
  \<open>BlockCodec\<close> is an interface; its implementation wraps a library. It is a record of functions: an
  operation that writes into a span of \<open>n\<close> bytes gives the byte it leaves at every index.
\<close>

record block_codec =
  bc_codec :: compression_codec
  bc_maximum_compressed_bytes :: "nat \<Rightarrow> nat option"
  bc_compress :: "u8 list \<Rightarrow> nat \<Rightarrow> codec_status \<times> (nat \<Rightarrow> u8) \<times> nat"
  bc_decompress :: "u8 list \<Rightarrow> nat \<Rightarrow> codec_status \<times> (nat \<Rightarrow> u8)"

text \<open>A vector of bytes with its capacity.\<close>

record stored_payload =
  sp_bytes :: "u8 list"
  sp_capacity :: u64

record lz4_block =
  lb_storage :: block_storage
  lb_uncompressed_bytes :: u32
  lb_payload :: stored_payload

record lz4_blocks =
  ls_format_version :: u32
  ls_valid_bytes :: u64
  ls_generation :: u64
  ls_content_token :: content_token
  ls_blocks :: "lz4_block list"

definition lz4_blocks_format_version :: u32 where
  "lz4_blocks_format_version = 1"

definition compression_block_bytes :: u64 where
  "compression_block_bytes = 64 * 1024"

section \<open>Tokens\<close>

definition mix64 :: "u64 \<Rightarrow> u64" where
  "mix64 v =
     (let v = xorshift 30 v;
          v = v * 0xBF58476D1CE4E5B9;
          v = xorshift 27 v;
          v = v * 0x94D049BB133111EB
      in v XOR drop_bit 31 v)"

definition token_low_seed :: u64 where "token_low_seed = 0x585652414D4C4F57"
definition token_high_seed :: u64 where "token_high_seed = 0x585652414D484947"
definition token_low_prime :: u64 where "token_low_prime = 0x100000001B3"
definition token_high_prime :: u64 where "token_high_prime = 0x9E3779B185EBCA87"
definition token_high_word_xor :: u64 where "token_high_word_xor = 0xA5A5A5A5A5A5A5A5"

text \<open>Bytes to a word, the first byte lowest: what \<open>memcpy\<close> and the loop over the tail both give.\<close>

fun gather_word :: "u8 list \<Rightarrow> nat \<Rightarrow> u64 \<Rightarrow> u64" where
  "gather_word [] shift word = word"
| "gather_word (b # bs) shift word = gather_word bs (shift + 8) (word OR push_bit shift (ucast b))"

definition absorb_word :: "u64 \<Rightarrow> u64 \<times> u64 \<Rightarrow> u64 \<times> u64" where
  "absorb_word word = (\<lambda>(low, high).
     (low * token_low_prime + word + 1, high * token_high_prime + (word XOR token_high_word_xor) + 1))"

function absorb_bytes :: "u8 list \<Rightarrow> u64 \<times> u64 \<Rightarrow> u64 \<times> u64" where
  "absorb_bytes bytes s =
     (if length bytes \<ge> 8 then absorb_bytes (drop 8 bytes) (absorb_word (gather_word (take 8 bytes) 0 0) s)
      else if bytes \<noteq> [] then absorb_word (gather_word bytes 0 0) s
      else s)"
  by pat_completeness auto
termination by (relation "measure (\<lambda>(bytes, _). length bytes)") auto

declare absorb_bytes.simps [simp del]

definition finish_token :: "nat \<Rightarrow> u64 \<Rightarrow> u64 \<times> u64 \<Rightarrow> content_token" where
  "finish_token byte_count block_index = (\<lambda>(low, high).
     let position = mix64 (block_index XOR push_bit 32 (of_nat byte_count))
     in \<lparr>ct_high = mix64 (high XOR position), ct_low = mix64 (low + position)\<rparr>)"

definition token_for_block :: "u8 list \<Rightarrow> u64 \<Rightarrow> content_token" where
  "token_for_block bytes block_index =
     finish_token (length bytes) block_index (absorb_bytes bytes (token_low_seed, token_high_seed))"

text \<open>The affine map of one zero word, applied \<open>count\<close> times by squaring.\<close>

function advance_loop :: "u64 \<Rightarrow> u64 \<Rightarrow> u64 \<Rightarrow> u64 \<Rightarrow> u64 \<Rightarrow> u64 \<times> u64" where
  "advance_loop cnt multiplier addend result_multiplier result_addend =
     (if cnt \<noteq> 0 then
        let (result_multiplier, result_addend) =
              (if cnt AND 1 \<noteq> 0
               then (multiplier * result_multiplier, multiplier * result_addend + addend)
               else (result_multiplier, result_addend))
        in advance_loop (drop_bit 1 cnt) (multiplier * multiplier) (multiplier * addend + addend)
             result_multiplier result_addend
      else (result_multiplier, result_addend))"
  by pat_completeness auto
termination
  by (relation "measure (\<lambda>(cnt, _). unat cnt)")
    (auto simp: drop_bit_eq_div unat_div unat_gt_0_iff simp flip: unat_gt_0_iff)

declare advance_loop.simps [simp del]

definition advance :: "u64 \<Rightarrow> u64 \<Rightarrow> u64 \<Rightarrow> u64 \<Rightarrow> u64" where
  "advance initial cnt multiplier addend =
     (let (result_multiplier, result_addend) = advance_loop cnt multiplier addend 1 0
      in result_multiplier * initial + result_addend)"

definition token_for_zero_block :: "nat \<Rightarrow> u64 \<Rightarrow> content_token" where
  "token_for_zero_block byte_count block_index =
     (let words = (of_nat byte_count + 7) div 8;
          low = advance token_low_seed words token_low_prime 1;
          high = advance token_high_seed words token_high_prime (token_high_word_xor + 1)
      in finish_token byte_count block_index (low, high))"

definition combine_token :: "content_token \<Rightarrow> content_token \<Rightarrow> content_token" where
  "combine_token token block =
     \<lparr>ct_high = ct_high token XOR ct_high block, ct_low = ct_low token XOR ct_low block\<rparr>"

definition token_seed :: "u64 \<Rightarrow> content_token" where
  "token_seed valid_bytes =
     \<lparr>ct_high = mix64 (token_high_seed XOR valid_bytes), ct_low = mix64 (token_low_seed + valid_bytes)\<rparr>"

definition block_count_for :: "u64 \<Rightarrow> u64" where
  "block_count_for valid_bytes =
     valid_bytes div compression_block_bytes + (if valid_bytes mod compression_block_bytes = 0 then 0 else 1)"

definition block_valid_bytes :: "u64 \<Rightarrow> u64 \<Rightarrow> u32" where
  "block_valid_bytes valid_bytes block_index =
     (let offset = block_index * compression_block_bytes
      in ucast (min compression_block_bytes (valid_bytes - offset)))"

function content_token_loop :: "u8 list \<Rightarrow> u64 \<Rightarrow> content_token \<Rightarrow> content_token" where
  "content_token_loop bytes block_index result =
     (if bytes \<noteq> [] then
        let n = min (unat compression_block_bytes) (length bytes)
        in content_token_loop (drop n bytes) (block_index + 1)
             (combine_token result (token_for_block (take n bytes) block_index))
      else result)"
  by pat_completeness auto
termination by (relation "measure (\<lambda>(bytes, _). length bytes)") (auto simp: compression_block_bytes_def)

declare content_token_loop.simps [simp del]

definition compute_content_token :: "u8 list \<Rightarrow> content_token" where
  "compute_content_token bytes = content_token_loop bytes 0 (token_seed (of_nat (length bytes)))"

lemma advance_loop_exact:
  "advance_loop cnt m a rm ra = (rm', ra') \<Longrightarrow>
   rm' * x + ra' = ((\<lambda>y. m * y + a) ^^ unat cnt) (rm * x + ra)"
proof (induction cnt m a rm ra arbitrary: rm' ra' rule: advance_loop.induct)
  case (1 cnt m a rm ra)
  show ?case
  proof (cases "cnt = 0")
    case True
    then show ?thesis using 1(2) by (simp add: advance_loop.simps)
  next
    case False
    let ?f = "\<lambda>y. m * y + a"
    obtain s1 s2 where s: "(s1, s2) = (if cnt AND 1 \<noteq> 0 then (m * rm, m * ra + a) else (rm, ra))"
      by (metis surj_pair)
    have ff: "(\<lambda>y. m * m * y + (m * a + a)) = ?f ^^ 2" by (simp add: numeral_2_eq_2 fun_eq_iff algebra_simps)
    have half: "unat (drop_bit 1 cnt) = unat cnt div 2" by (simp add: drop_bit_eq_div unat_div)
    have odd: "(cnt AND 1 \<noteq> 0) = odd (unat cnt)"
      by (simp add: and_one_eq unat_eq_0_iff [symmetric] unat_mod odd_iff_mod_2_eq_one del: unat_eq_0_iff)
    have "advance_loop (drop_bit 1 cnt) (m * m) (m * a + a) s1 s2 = (rm', ra')"
      using 1(2) False by (subst (asm) advance_loop.simps) (simp flip: s)
    then have "rm' * x + ra' = ((\<lambda>y. m * m * y + (m * a + a)) ^^ unat (drop_bit 1 cnt)) (s1 * x + s2)"
      by (rule 1(1) [OF False s refl])
    also have "s1 * x + s2 = (?f ^^ (unat cnt mod 2)) (rm * x + ra)"
      using s odd by (auto simp: algebra_simps odd_iff_mod_2_eq_one split: if_splits)
    finally show ?thesis
      unfolding ff half funpow_mult funpow_add [symmetric, THEN fun_cong, unfolded o_def]
      by simp
  qed
qed


lemma advance_exact: "advance x cnt m a = ((\<lambda>y. m * y + a) ^^ unat cnt) x"
  using advance_loop_exact [of cnt m a 1 0 _ _ x] by (simp add: advance_def split: prod.splits)

lemma gather_zeros: "gather_word (replicate n 0) s w = w"
  by (induction n arbitrary: s) simp_all

lemma absorb_zeros:
  "absorb_bytes (replicate n 0) s = (absorb_word 0 ^^ ((n + 7) div 8)) s"
proof (induction n arbitrary: s rule: less_induct)
  case (less n)
  consider "8 \<le> n" | "n < 8" "n \<noteq> 0" | "n = 0" by linarith
  then show ?case
  proof cases
    case 1
    then have "(n + 7) div 8 = Suc ((n - 8 + 7) div 8)" by linarith
    moreover have "absorb_bytes (replicate n 0) s = absorb_bytes (replicate (n - 8) 0) (absorb_word 0 s)"
      using 1 by (subst absorb_bytes.simps) (simp add: gather_zeros)
    ultimately show ?thesis using less [of "n - 8" "absorb_word 0 s"] 1
      by (simp add: funpow_swap1)
  next
    case 2
    then have "(n + 7) div 8 = 1" by linarith
    then show ?thesis using 2 by (subst absorb_bytes.simps) (simp add: gather_zeros)
  qed (subst absorb_bytes.simps, simp)
qed

lemma absorb_word_zero_pow:
  "(absorb_word 0 ^^ n) (l, h) = (((\<lambda>y. token_low_prime * y + 1) ^^ n) l,
     ((\<lambda>y. token_high_prime * y + (token_high_word_xor + 1)) ^^ n) h)"
  by (induction n) (simp_all add: absorb_word_def algebra_simps)

lemma zero_token_exact:
  assumes "n + 7 < 18446744073709551616"
  shows "token_for_zero_block n i = token_for_block (replicate n 0) i"
proof -
  have "unat ((of_nat n + 7) div 8 :: u64) = (n + 7) div 8"
    using assms by (simp add: unat_div unat_add_u64 unat_of_nat_u64)
  then show ?thesis
    by (simp add: token_for_zero_block_def token_for_block_def advance_exact absorb_zeros absorb_word_zero_pow)
qed

subsection \<open>One changed byte\<close>

lemma mult_token_low_iff: "x * token_low_prime = y * token_low_prime \<longleftrightarrow> x = y"
  by (rule mult_unit_eq_iff [where d = "0xce965057aff6957b"]) (simp add: token_low_prime_def)

lemma mix64_eq_iff [simp]: "mix64 x = mix64 y \<longleftrightarrow> x = y"
  by (simp add: mix64_def Let_def xorshift_eq_iff flip: xorshift_def)

lemma bit_gather_word:
  "bit (gather_word bs s w) n \<longleftrightarrow>
     bit w n \<or> (s \<le> n \<and> n < 64 \<and> (n - s) div 8 < length bs \<and> bit (bs ! ((n - s) div 8)) ((n - s) mod 8))"
proof (induction bs arbitrary: s w)
  case (Cons b bs)
  have shift: "(n - s) div 8 = Suc ((n - (s + 8)) div 8) \<and> (n - s) mod 8 = (n - (s + 8)) mod 8" if le: "s + 8 \<le> n"
  proof -
    obtain m where "n = s + 8 + m" using le_Suc_ex [OF le] by blast
    then have "n - s = m + 8" "n - (s + 8) = m" by simp_all
    then show ?thesis by (simp only: div_add_self2 mod_add_self2 zero_neq_numeral [symmetric] simp_thms)
  qed
  show ?case
  proof (cases "s + 8 \<le> n")
    case True
    then have "\<not> bit b (n - s)" using bit_imp_le_length [of b "n - s"] by auto
    then show ?thesis using True shift Cons.IH [of "s + 8" "w OR push_bit s (ucast b)"]
      by (auto simp: bit_or_iff bit_push_bit_iff bit_ucast_iff dest: bit_imp_le_length)
  next
    case False
    then have "s \<le> n \<Longrightarrow> (n - s) div 8 = 0 \<and> (n - s) mod 8 = n - s" by simp
    then show ?thesis using False Cons.IH [of "s + 8" "w OR push_bit s (ucast b)"]
      by (auto simp: bit_or_iff bit_push_bit_iff bit_ucast_iff dest: bit_imp_le_length)
  qed
qed simp

lemma gather_word_update:
  assumes "i < length bs" "length bs \<le> 8" "v \<noteq> bs ! i"
  shows "gather_word (bs[i := v]) 0 0 \<noteq> gather_word bs 0 0"
proof
  assume eq: "gather_word (bs[i := v]) 0 0 = gather_word bs 0 0"
  have "v = bs ! i"
  proof (rule bit_word_eqI)
    fix n assume n: "n < LENGTH(8)"
    then have "(i * 8 + n) div 8 = i" "(i * 8 + n) mod 8 = n" "i * 8 + n < 64" using assms by auto
    then show "bit v n = bit (bs ! i) n"
      using arg_cong [OF eq, of "\<lambda>w. bit w (i * 8 + n)"] assms(1) by (simp add: bit_gather_word)
  qed
  then show False using assms(3) by simp
qed

lemma absorb_word_low: "fst (absorb_word w s) = fst (absorb_word w' s') \<longleftrightarrow> fst s * token_low_prime + w = fst s' * token_low_prime + w'"
  by (simp add: absorb_word_def split: prod.splits)

lemma absorb_bytes_low:
  assumes "fst s \<noteq> fst s'" shows "fst (absorb_bytes bs s) \<noteq> fst (absorb_bytes bs s')"
  using assms
proof (induction bs s arbitrary: s' rule: absorb_bytes.induct)
  case (1 bs s)
  have step: "fst (absorb_word w s) \<noteq> fst (absorb_word w s')" for w
    using 1(2) by (simp add: absorb_word_low mult_token_low_iff)
  show ?case
    using 1(1) [OF _ step] step 1(2)
    by (subst (1 2) absorb_bytes.simps) simp
qed

lemma absorb_bytes_update:
  assumes "i < length bs" "v \<noteq> bs ! i"
  shows "fst (absorb_bytes (bs[i := v]) s) \<noteq> fst (absorb_bytes bs s)"
  using assms
proof (induction bs s arbitrary: i rule: absorb_bytes.induct)
  case (1 bs s)
  consider (first) "8 \<le> length bs" "i < 8" | (later) "8 \<le> length bs" "8 \<le> i" | (tail) "length bs < 8" "bs \<noteq> []"
    using 1(2) by (cases bs) force+
  then show ?case
  proof cases
    case first
    have "gather_word ((take 8 bs)[i := v]) 0 0 \<noteq> gather_word (take 8 bs) 0 0"
      using first 1(2,3) by (intro gather_word_update) auto
    then have "fst (absorb_word (gather_word (take 8 (bs[i := v])) 0 0) s) \<noteq> fst (absorb_word (gather_word (take 8 bs) 0 0) s)"
      using first by (simp add: absorb_word_low take_update_swap)
    then show ?thesis using first absorb_bytes_low by (subst (1 2) absorb_bytes.simps) simp
  next
    case later
    then show ?thesis using 1(1) [of "i - 8"] 1(2,3)
      by (subst (1 2) absorb_bytes.simps) (simp add: drop_update_swap)
  next
    case tail
    then show ?thesis using gather_word_update [of i bs v] 1(2,3)
      by (subst (1 2) absorb_bytes.simps) (simp add: absorb_word_low)
  qed
qed

lemma block_token_update:
  assumes "i < length bs" "v \<noteq> bs ! i"
  shows "token_for_block (bs[i := v]) k \<noteq> token_for_block bs k"
  using absorb_bytes_update [OF assms, of "(token_low_seed, token_high_seed)"]
  by (auto simp: token_for_block_def finish_token_def Let_def split: prod.splits)

lemma combine_token_left: "combine_token t b = combine_token t b' \<longleftrightarrow> b = b'"
  by (cases b; cases b') (simp add: combine_token_def)

lemma combine_token_right: "combine_token t b = combine_token t' b \<longleftrightarrow> t = t'"
  by (cases t; cases t') (simp add: combine_token_def)

lemma content_loop_inj: "content_token_loop bs k t = content_token_loop bs k t' \<longleftrightarrow> t = t'"
proof (induction bs k t arbitrary: t' rule: content_token_loop.induct)
  case (1 bs k t)
  then show ?case
    by (subst (1 2) content_token_loop.simps) (simp add: Let_def combine_token_right)
qed

lemma content_loop_update:
  assumes "i < length bs" "v \<noteq> bs ! i"
  shows "content_token_loop (bs[i := v]) k t \<noteq> content_token_loop bs k t"
  using assms
proof (induction bs k t arbitrary: i rule: content_token_loop.induct)
  case (1 bs k t)
  let ?n = "min (unat compression_block_bytes) (length bs)"
  have ne: "bs \<noteq> []" using 1(2) by auto
  show ?case
  proof (cases "i < ?n")
    case True
    then have "token_for_block ((take ?n bs)[i := v]) k \<noteq> token_for_block (take ?n bs) k"
      using 1(3) by (intro block_token_update) auto
    then show ?thesis using True ne
      by (subst (1 2) content_token_loop.simps)
        (simp add: Let_def content_loop_inj combine_token_left take_update_swap)
  next
    case False
    then show ?thesis using 1(1) [OF ne refl, of "i - ?n"] 1(2,3) ne
      by (subst (1 2) content_token_loop.simps) (simp add: Let_def drop_update_swap)
  qed
qed


section \<open>The token of a container\<close>

text \<open>
  The decoding buffer has the size of a block and is reused: a block whose storage is outside the
  enumeration leaves it as it was. The loop returns the status and the token of the blocks so far.
\<close>

definition overwrite_prefix :: "u8 list \<Rightarrow> u8 list \<Rightarrow> u8 list" where
  "overwrite_prefix output decoded = output @ drop (length output) decoded"

fun container_token_loop ::
    "block_codec \<Rightarrow> u64 \<Rightarrow> lz4_block list \<Rightarrow> nat \<Rightarrow> u8 list \<Rightarrow> content_token \<Rightarrow> codec_status + content_token" where
  "container_token_loop codec valid_bytes [] index decoded combined = Inr combined"
| "container_token_loop codec valid_bytes (block # blocks) index decoded combined =
     (let expected = block_valid_bytes valid_bytes (of_nat index);
          bytes = sp_bytes (lb_payload block)
      in if lb_uncompressed_bytes block \<noteq> expected then Inl Codec_corrupt_input
         else
           let written =
                 (case lb_storage block of
                    Storage_implicit_zero \<Rightarrow> if bytes \<noteq> [] then None else Some (replicate (unat expected) 0)
                  | Storage_raw \<Rightarrow> if length bytes \<noteq> unat expected then None else Some bytes
                  | Storage_lz4 \<Rightarrow>
                      let result = bc_decompress codec bytes (unat expected)
                      in if bytes = [] \<or> length bytes \<ge> unat expected \<or> fst result \<noteq> Codec_success then None
                         else Some (map (snd result) [0..<unat expected])
                  | Storage_out_of_range \<Rightarrow> Some (take (unat expected) decoded))
           in case written of
                None \<Rightarrow> Inl Codec_corrupt_input
              | Some output \<Rightarrow>
                  container_token_loop codec valid_bytes blocks (Suc index) (overwrite_prefix output decoded)
                    (combine_token combined (token_for_block output (of_nat index))))"

definition compute_lz4_blocks_content_token ::
    "block_codec \<Rightarrow> lz4_blocks \<Rightarrow> codec_status \<times> content_token" where
  "compute_lz4_blocks_content_token codec container =
     (let zero = \<lparr>ct_high = 0, ct_low = 0\<rparr>
      in if ls_format_version container \<noteq> lz4_blocks_format_version \<or> ls_valid_bytes container = 0 \<or>
            length (ls_blocks container) \<noteq> unat (block_count_for (ls_valid_bytes container))
         then (Codec_invalid_argument, zero)
         else case container_token_loop codec (ls_valid_bytes container) (ls_blocks container) 0
                     (replicate (unat compression_block_bytes) 0) (token_seed (ls_valid_bytes container)) of
                Inl status \<Rightarrow> (status, zero)
              | Inr token \<Rightarrow> (Codec_success, token))"

section \<open>The blocks of a byte string\<close>

definition block_size :: nat where
  "block_size = 65536"

lemma unat_block_bytes [simp]: "unat compression_block_bytes = block_size"
  by (simp add: compression_block_bytes_def block_size_def)

definition piece :: "u8 list \<Rightarrow> nat \<Rightarrow> u8 list" where
  "piece bytes i = take block_size (drop (i * block_size) bytes)"

definition piece_count :: "nat \<Rightarrow> nat" where
  "piece_count n = (n + block_size - 1) div block_size"

lemma ceil_div_step: "(n + 65535) div 65536 = n div 65536 + (if n mod 65536 = 0 then 0 else (1 :: nat))"
proof -
  let ?q = "n div 65536" and ?r = "n mod 65536"
  have "n + 65535 = ?q * 65536 + (?r + 65535)" by simp
  then have "(n + 65535) div 65536 = ?q + (?r + 65535) div 65536"
    by (metis add.commute div_mult_self1 zero_neq_numeral)
  moreover have "(?r + 65535) div 65536 = (if ?r = 0 then 0 else 1)"
    using mod_less_divisor [of 65536 n] by (auto intro!: div_nat_eqI)
  ultimately show ?thesis by (simp only:)
qed

lemma piece_count_exact: "unat (block_count_for v) = piece_count (unat v)"
proof -
  let ?v = "unat v"
  have "?v div 65536 < 18446744073709551615" using unat_u64_bound [of v] by linarith
  moreover have "(?v + 65535) div 65536 = ?v div 65536 + (if ?v mod 65536 = 0 then 0 else 1)"
    by (rule ceil_div_step)
  moreover have "(v mod compression_block_bytes = 0) = (?v mod 65536 = 0)"
    by (simp add: compression_block_bytes_def word_unat_eq_iff unat_mod)
  ultimately show ?thesis
    by (simp add: block_count_for_def piece_count_def block_size_def compression_block_bytes_def unat_add_u64 unat_div
        add.commute [of 65535])
qed

lemma piece_count_iff: "i < piece_count n \<longleftrightarrow> i * block_size < n"
  unfolding piece_count_def block_size_def by linarith

lemma length_piece: "length (piece bytes i) = min block_size (length bytes - i * block_size)"
  by (simp add: piece_def)

lemma block_valid_exact:
  assumes "i < piece_count (unat v)"
  shows "unat (block_valid_bytes v (of_nat i)) = min block_size (unat v - i * block_size)"
proof -
  have lt: "i * 65536 < unat v" using assms by (simp add: piece_count_iff block_size_def)
  then have "unat (of_nat i * 65536 :: u64) = i * 65536"
    using unat_u64_bound [of v] by (simp add: unat_mult_u64 unat_of_nat_u64)
  then have m: "unat (min (65536 :: u64) (v - of_nat i * 65536)) = min 65536 (unat v - i * 65536)"
    using lt by (simp add: unat_min unat_sub_u64)
  have "unat (ucast (min (65536 :: u64) (v - of_nat i * 65536)) :: u32) = min 65536 (unat v - i * 65536)"
    unfolding unsigned_ucast_eq m by (simp add: take_bit_eq_mod)
  then show ?thesis by (simp add: block_valid_bytes_def compression_block_bytes_def block_size_def)
qed

lemma block_valid_piece:
  assumes "length bytes = unat v" "i < piece_count (unat v)"
  shows "unat (block_valid_bytes v (of_nat i)) = length (piece bytes i)"
  using block_valid_exact [OF assms(2)] by (simp add: length_piece assms(1))

lemma concat_pieces: "concat (map (piece bytes) [0..<piece_count (length bytes)]) = bytes"
proof -
  have "concat (map (piece bytes) [0..<n]) = take (n * block_size) bytes" for n
    by (induction n) (simp_all add: piece_def take_add [symmetric] add.commute)
  moreover have "length bytes \<le> piece_count (length bytes) * block_size"
    unfolding piece_count_def block_size_def by linarith
  ultimately show ?thesis by simp
qed

lemma pieces_cong: 
  assumes "length xs = length ys" "\<forall>i<piece_count (length xs). piece xs i = piece ys i"
  shows "xs = ys"
proof -
  have "concat (map (piece xs) [0..<piece_count (length xs)]) = concat (map (piece ys) [0..<piece_count (length ys)])"
    using assms by (intro arg_cong [of _ _ concat] map_cong) auto
  then show ?thesis by (simp only: concat_pieces)
qed

text \<open>The token of a byte string, over its blocks.\<close>

lemma content_token_pieces:
  "compute_content_token bytes =
     fold (\<lambda>i t. combine_token t (token_for_block (piece bytes i) (of_nat i))) [0..<piece_count (length bytes)]
       (token_seed (of_nat (length bytes)))"
proof -
  have loop: "content_token_loop (drop (k * block_size) bytes) (of_nat k) t =
      fold (\<lambda>i t. combine_token t (token_for_block (piece bytes i) (of_nat i))) [k..<piece_count (length bytes)] t" for k t
  proof (induction "piece_count (length bytes) - k" arbitrary: k t)
    case 0
    then have "length bytes \<le> k * block_size" using piece_count_iff [of k "length bytes"] by linarith
    then show ?case using 0 by (subst content_token_loop.simps) simp
  next
    case (Suc n)
    then have k: "k < piece_count (length bytes)" by simp
    then have ne: "drop (k * block_size) bytes \<noteq> []" by (simp add: piece_count_iff)
    let ?n = "min block_size (length (drop (k * block_size) bytes))"
    have "drop ?n (drop (k * block_size) bytes) = drop (Suc k * block_size) bytes"
      by (cases "block_size \<le> length bytes - k * block_size") (simp_all add: add.commute)
    moreover have "take ?n (drop (k * block_size) bytes) = piece bytes k"
      by (simp add: piece_def min_def)
    ultimately have "content_token_loop (drop (k * block_size) bytes) (of_nat k) t =
        content_token_loop (drop (Suc k * block_size) bytes) (of_nat (Suc k))
          (combine_token t (token_for_block (piece bytes k) (of_nat k)))"
      using ne by (subst content_token_loop.simps) (simp add: Let_def add.commute)
    then show ?case using Suc.hyps(1) [of "Suc k"] Suc.hyps(2) k by (simp add: upt_conv_Cons)
  qed
  show ?thesis using loop [of 0] by (simp add: compute_content_token_def)
qed


section \<open>Properties\<close>

text \<open>
  C9: The token of a block of zeros, computed by repeated squaring without looking at the bytes, is the
  token of that many zero bytes.
\<close>

theorem zero_block_token:
  assumes "n + 7 < 18446744073709551616"
  shows "token_for_zero_block n i = token_for_block (replicate n 0) i"
  using assms by (rule zero_token_exact)

theorem zero_block_token_witness: "token_for_zero_block 19 3 = token_for_block (replicate 19 0) 3"
  by (rule zero_block_token) simp

text \<open>
  C8: A content token detects every change of one byte, in a tail of any length and in any block.
\<close>

theorem content_token_detects_one_byte:
  assumes "i < length bytes" "v \<noteq> bytes ! i"
  shows "compute_content_token (bytes[i := v]) \<noteq> compute_content_token bytes"
  using content_loop_update [OF assms] by (simp add: compute_content_token_def)

theorem content_token_detects_one_byte_witness:
  "compute_content_token [1, 2, 3, 4, 5, 6, 7, 8, 9, 77, 11] \<noteq> compute_content_token [1, 2, 3, 4, 5, 6, 7, 8, 9, 10, 11]"
  using content_token_detects_one_byte [of 9 "[1, 2, 3, 4, 5, 6, 7, 8, 9, 10, 11]" 77] by simp

end
