(* ===== verification/Host_Ledger.thy ===== *)
theory Host_Ledger
  imports Residency_Core
begin

text \<open>
  The ledger of host memory (\<open>HostBudgetLedger\<close> of src/src/residency/compression.hpp and compression.cpp): reservations
  by category against one limit, and the commit that turns a reservation into authoritative storage.
  The hash map of reservations is a map; an operation returns the ledger, the reservation it was given or
  made (an output parameter), and the status. An object whose implementation has been moved away is not modelled.
\<close>

section \<open>Data\<close>

datatype budget_category = Cat_authoritative | Cat_conversion_scratch | Cat_pinned_staging | Cat_spill

record budget_reservation =
  rv_id :: u64
  rv_category :: budget_category
  rv_bytes :: u64

datatype budget_status =
    Bs_success | Bs_invalid_argument | Bs_limit_exceeded | Bs_reservation_overflow | Bs_allocation_failure
  | Bs_unknown_reservation | Bs_reservation_mismatch

fun host_budget_status_name :: "budget_status \<Rightarrow> string" where
  "host_budget_status_name Bs_success = ''success''"
| "host_budget_status_name Bs_invalid_argument = ''invalid_argument''"
| "host_budget_status_name Bs_limit_exceeded = ''limit_exceeded''"
| "host_budget_status_name Bs_reservation_overflow = ''reservation_overflow''"
| "host_budget_status_name Bs_allocation_failure = ''allocation_failure''"
| "host_budget_status_name Bs_unknown_reservation = ''unknown_reservation''"
| "host_budget_status_name Bs_reservation_mismatch = ''reservation_mismatch''"

record budget_snapshot =
  bn_limit_bytes :: u64
  bn_total_bytes :: u64
  bn_authoritative_bytes :: u64
  bn_conversion_scratch_bytes :: u64
  bn_pinned_staging_bytes :: u64
  bn_spill_bytes :: u64
  bn_peak_bytes :: u64
  bn_authoritative_peak_bytes :: u64
  bn_conversion_scratch_peak_bytes :: u64
  bn_pinned_staging_peak_bytes :: u64
  bn_spill_peak_bytes :: u64
  bn_rejected_bytes :: u64

record host_ledger =
  hl_limit :: u64
  hl_next_id :: u64
  hl_counters :: budget_snapshot
  hl_reservations :: "u64 \<rightharpoonup> (budget_category \<times> u64)"

definition no_reservation :: budget_reservation where
  "no_reservation = \<lparr>rv_id = 0, rv_category = Cat_conversion_scratch, rv_bytes = 0\<rparr>"

section \<open>Operations\<close>

fun category_counter :: "budget_category \<Rightarrow> budget_snapshot \<Rightarrow> u64" where
  "category_counter Cat_authoritative v = bn_authoritative_bytes v"
| "category_counter Cat_conversion_scratch v = bn_conversion_scratch_bytes v"
| "category_counter Cat_pinned_staging v = bn_pinned_staging_bytes v"
| "category_counter Cat_spill v = bn_spill_bytes v"

fun set_category_counter :: "budget_category \<Rightarrow> u64 \<Rightarrow> budget_snapshot \<Rightarrow> budget_snapshot" where
  "set_category_counter Cat_authoritative x v = v\<lparr>bn_authoritative_bytes := x\<rparr>"
| "set_category_counter Cat_conversion_scratch x v = v\<lparr>bn_conversion_scratch_bytes := x\<rparr>"
| "set_category_counter Cat_pinned_staging x v = v\<lparr>bn_pinned_staging_bytes := x\<rparr>"
| "set_category_counter Cat_spill x v = v\<lparr>bn_spill_bytes := x\<rparr>"

fun category_peak_counter :: "budget_category \<Rightarrow> budget_snapshot \<Rightarrow> u64" where
  "category_peak_counter Cat_authoritative v = bn_authoritative_peak_bytes v"
| "category_peak_counter Cat_conversion_scratch v = bn_conversion_scratch_peak_bytes v"
| "category_peak_counter Cat_pinned_staging v = bn_pinned_staging_peak_bytes v"
| "category_peak_counter Cat_spill v = bn_spill_peak_bytes v"

fun set_category_peak_counter :: "budget_category \<Rightarrow> u64 \<Rightarrow> budget_snapshot \<Rightarrow> budget_snapshot" where
  "set_category_peak_counter Cat_authoritative x v = v\<lparr>bn_authoritative_peak_bytes := x\<rparr>"
| "set_category_peak_counter Cat_conversion_scratch x v = v\<lparr>bn_conversion_scratch_peak_bytes := x\<rparr>"
| "set_category_peak_counter Cat_pinned_staging x v = v\<lparr>bn_pinned_staging_peak_bytes := x\<rparr>"
| "set_category_peak_counter Cat_spill x v = v\<lparr>bn_spill_peak_bytes := x\<rparr>"

definition host_ledger_new :: "u64 \<Rightarrow> host_ledger" where
  "host_ledger_new limit_bytes =
     (let limit = (if limit_bytes = 0 then max_u64 else limit_bytes)
      in \<lparr>hl_limit = limit, hl_next_id = 1,
          hl_counters = \<lparr>bn_limit_bytes = limit, bn_total_bytes = 0, bn_authoritative_bytes = 0,
            bn_conversion_scratch_bytes = 0, bn_pinned_staging_bytes = 0, bn_spill_bytes = 0, bn_peak_bytes = 0,
            bn_authoritative_peak_bytes = 0, bn_conversion_scratch_peak_bytes = 0,
            bn_pinned_staging_peak_bytes = 0, bn_spill_peak_bytes = 0, bn_rejected_bytes = 0\<rparr>,
          hl_reservations = Map.empty\<rparr>)"

text \<open>
  \<open>memory\<close> says whether the node of the hash map can be allocated. The reservation is an output
  parameter: it is reset first.
\<close>

definition ledger_reserve ::
    "bool \<Rightarrow> budget_category \<Rightarrow> u64 \<Rightarrow> host_ledger \<Rightarrow> host_ledger \<times> budget_reservation \<times> budget_status" where
  "ledger_reserve memory category bytes ledger =
     (if bytes = 0 then (ledger, no_reservation\<lparr>rv_category := category\<rparr>, Bs_success)
      else
        let counters = hl_counters ledger
        in if bytes > hl_limit ledger - bn_total_bytes counters then
             let room = max_u64 - bn_rejected_bytes counters
             in (ledger\<lparr>hl_counters := counters\<lparr>bn_rejected_bytes := bn_rejected_bytes counters + min room bytes\<rparr>\<rparr>,
                 no_reservation, Bs_limit_exceeded)
           else if hl_next_id ledger = 0 then (ledger, no_reservation, Bs_reservation_overflow)
           else
             let i = hl_next_id ledger;
                 ledger = ledger\<lparr>hl_next_id := i + 1\<rparr>
             in if \<not> memory then (ledger, no_reservation, Bs_allocation_failure)
                else
                  let reservations =
                        (if hl_reservations ledger i = None then (hl_reservations ledger)(i \<mapsto> (category, bytes))
                         else hl_reservations ledger);
                      counters = counters\<lparr>bn_total_bytes := bn_total_bytes counters + bytes\<rparr>;
                      counters = set_category_counter category (category_counter category counters + bytes) counters;
                      counters = set_category_peak_counter category
                        (max (category_peak_counter category counters) (category_counter category counters)) counters;
                      counters = counters\<lparr>bn_peak_bytes := max (bn_peak_bytes counters) (bn_total_bytes counters)\<rparr>
                  in (ledger\<lparr>hl_counters := counters, hl_reservations := reservations\<rparr>,
                      \<lparr>rv_id = i, rv_category = category, rv_bytes = bytes\<rparr>, Bs_success))"

definition ledger_release ::
    "budget_reservation \<Rightarrow> host_ledger \<Rightarrow> host_ledger \<times> budget_reservation \<times> budget_status" where
  "ledger_release reservation ledger =
     (if rv_id reservation = 0 \<and> rv_bytes reservation \<noteq> 0 then (ledger, reservation, Bs_invalid_argument)
      else if rv_bytes reservation = 0 then (ledger, no_reservation, Bs_success)
      else
        case hl_reservations ledger (rv_id reservation) of
          None \<Rightarrow> (ledger, reservation, Bs_unknown_reservation)
        | Some (category, bytes) \<Rightarrow>
            if category \<noteq> rv_category reservation \<or> bytes \<noteq> rv_bytes reservation
            then (ledger, reservation, Bs_reservation_mismatch)
            else
              let counters = hl_counters ledger;
                  counters = counters\<lparr>bn_total_bytes := bn_total_bytes counters - rv_bytes reservation\<rparr>;
                  counters = set_category_counter (rv_category reservation)
                    (category_counter (rv_category reservation) counters - rv_bytes reservation) counters
              in (ledger\<lparr>hl_counters := counters,
                         hl_reservations := (hl_reservations ledger)(rv_id reservation := None)\<rparr>,
                  no_reservation, Bs_success))"

definition ledger_snapshot :: "host_ledger \<Rightarrow> budget_snapshot" where
  "ledger_snapshot ledger = hl_counters ledger"

text \<open>The bookkeeping of a commit, once its checks have passed.\<close>

definition commit_counters :: "budget_category \<Rightarrow> u64 \<Rightarrow> u64 \<Rightarrow> u64 \<Rightarrow> budget_snapshot \<Rightarrow> budget_snapshot" where
  "commit_counters category bytes previous replacement counters =
     (let unused = bytes - replacement;
          counters = set_category_counter category (category_counter category counters - bytes) counters;
          counters = counters\<lparr>bn_authoritative_bytes := bn_authoritative_bytes counters - previous + replacement\<rparr>;
          counters = counters\<lparr>bn_authoritative_peak_bytes :=
            max (bn_authoritative_peak_bytes counters) (bn_authoritative_bytes counters)\<rparr>
      in counters\<lparr>bn_total_bytes := bn_total_bytes counters - previous - unused\<rparr>)"

definition ledger_commit_authoritative ::
    "budget_reservation \<Rightarrow> u64 \<Rightarrow> u64 \<Rightarrow> host_ledger \<Rightarrow> host_ledger \<times> budget_reservation \<times> budget_status" where
  "ledger_commit_authoritative reservation previous replacement ledger =
     (let mismatch = (ledger, reservation, Bs_reservation_mismatch);
          counters = hl_counters ledger
      in if (rv_category reservation \<noteq> Cat_conversion_scratch \<and> rv_category reservation \<noteq> Cat_spill) \<or>
            rv_bytes reservation < replacement \<or> (rv_id reservation = 0 \<and> rv_bytes reservation \<noteq> 0)
         then mismatch
         else if previous > bn_authoritative_bytes counters then mismatch
         else if rv_bytes reservation \<noteq> 0 \<and>
                 hl_reservations ledger (rv_id reservation) \<noteq> Some (rv_category reservation, rv_bytes reservation)
         then mismatch
         else
           (ledger\<lparr>hl_counters := commit_counters (rv_category reservation) (rv_bytes reservation) previous replacement counters,
                   hl_reservations :=
                     (if rv_bytes reservation \<noteq> 0 then (hl_reservations ledger)(rv_id reservation := None)
                      else hl_reservations ledger)\<rparr>,
            no_reservation, Bs_success))"

definition ledger_release_authoritative :: "u64 \<Rightarrow> host_ledger \<Rightarrow> host_ledger \<times> budget_status" where
  "ledger_release_authoritative bytes ledger =
     (let counters = hl_counters ledger
      in if bytes > bn_authoritative_bytes counters \<or> bytes > bn_total_bytes counters
         then (ledger, Bs_reservation_mismatch)
         else (ledger\<lparr>hl_counters := counters\<lparr>bn_authoritative_bytes := bn_authoritative_bytes counters - bytes,
                                             bn_total_bytes := bn_total_bytes counters - bytes\<rparr>\<rparr>, Bs_success))"


section \<open>The books balance\<close>

definition charge :: "budget_category \<Rightarrow> (budget_category \<times> u64) option \<Rightarrow> nat" where
  "charge c r = (case r of None \<Rightarrow> 0 | Some (c', b) \<Rightarrow> if c' = c then unat b else 0)"

lemma charge_simps [simp]: "charge c None = 0" "charge c (Some (c', b)) = (if c' = c then unat b else 0)"
  by (simp_all add: charge_def)

definition reserved :: "(u64 \<rightharpoonup> (budget_category \<times> u64)) \<Rightarrow> budget_category \<Rightarrow> nat" where
  "reserved m c = (\<Sum>i\<in>dom m. charge c (m i))"

lemma reserved_insert:
  assumes "finite (dom m)" "m i = None"
  shows "reserved (m(i \<mapsto> r)) c = reserved m c + charge c (Some r)"
proof -
  have "reserved (m(i \<mapsto> r)) c = charge c (Some r) + (\<Sum>j\<in>dom m. charge c ((m(i \<mapsto> r)) j))"
    using assms by (simp add: reserved_def domIff)
  also have "(\<Sum>j\<in>dom m. charge c ((m(i \<mapsto> r)) j)) = reserved m c"
    unfolding reserved_def using assms(2) by (intro sum.cong) auto
  finally show ?thesis unfolding add.commute [of "reserved m c"] .
qed

lemma reserved_remove:
  assumes "finite (dom m)" "m i = Some r"
  shows "reserved m c = reserved (m(i := None)) c + charge c (Some r)"
proof -
  have "(m(i := None))(i \<mapsto> r) = m" using assms(2) by auto
  then show ?thesis using reserved_insert [of "m(i := None)" i r c] assms(1) by simp
qed

definition held_apart :: "host_ledger \<Rightarrow> bool" where
  "held_apart l \<longleftrightarrow> finite (dom (hl_reservations l)) \<and>
     (\<forall>i c b. hl_reservations l i = Some (c, b) \<longrightarrow>
        i \<noteq> 0 \<and> b \<noteq> 0 \<and> c \<noteq> Cat_authoritative \<and> (hl_next_id l = 0 \<or> i < hl_next_id l))"

definition balanced :: "host_ledger \<Rightarrow> bool" where
  "balanced l \<longleftrightarrow>
     (let s = hl_counters l in
      unat (bn_total_bytes s) = unat (bn_authoritative_bytes s) + unat (bn_conversion_scratch_bytes s) +
        unat (bn_pinned_staging_bytes s) + unat (bn_spill_bytes s) \<and>
      bn_total_bytes s \<le> hl_limit l \<and> bn_limit_bytes s = hl_limit l \<and>
      unat (bn_conversion_scratch_bytes s) = reserved (hl_reservations l) Cat_conversion_scratch \<and>
      unat (bn_pinned_staging_bytes s) = reserved (hl_reservations l) Cat_pinned_staging \<and>
      unat (bn_spill_bytes s) = reserved (hl_reservations l) Cat_spill \<and>
      bn_total_bytes s \<le> bn_peak_bytes s \<and> bn_peak_bytes s \<le> hl_limit l \<and>
      bn_authoritative_bytes s \<le> bn_authoritative_peak_bytes s \<and>
      bn_conversion_scratch_bytes s \<le> bn_conversion_scratch_peak_bytes s \<and>
      bn_pinned_staging_bytes s \<le> bn_pinned_staging_peak_bytes s \<and> bn_spill_bytes s \<le> bn_spill_peak_bytes s)"

definition ledger_ok :: "host_ledger \<Rightarrow> bool" where
  "ledger_ok l \<longleftrightarrow> held_apart l \<and> balanced l"

datatype ledger_op =
    Op_reserve bool budget_category u64
  | Op_release budget_reservation
  | Op_commit budget_reservation u64 u64
  | Op_release_authoritative u64

fun ledger_step :: "ledger_op \<Rightarrow> host_ledger \<Rightarrow> host_ledger" where
  "ledger_step (Op_reserve memory c b) l = fst (ledger_reserve memory c b l)"
| "ledger_step (Op_release r) l = fst (ledger_release r l)"
| "ledger_step (Op_commit r p q) l = fst (ledger_commit_authoritative r p q l)"
| "ledger_step (Op_release_authoritative b) l = fst (ledger_release_authoritative b l)"

fun reserves_authoritative :: "ledger_op \<Rightarrow> bool" where
  "reserves_authoritative (Op_reserve memory c b) = (c = Cat_authoritative)"
| "reserves_authoritative _ = False"

lemmas ledger_ok_defs = ledger_ok_def held_apart_def balanced_def Let_def

lemma ledger_new_ok: "ledger_ok (host_ledger_new limit)"
  by (simp add: ledger_ok_defs host_ledger_new_def reserved_def)

lemma less_successor: "(j :: u64) < i \<Longrightarrow> i + 1 = 0 \<or> j < i + 1"
  using unat_u64_bound [of i] by (cases "unat i = 18446744073709551615")
    (auto simp: word_less_nat_alt unat_add_u64 word_unat_eq_iff unat_word_ariths)

lemma successor_fresh: "i + 1 = 0 \<or> (i :: u64) < i + 1"
  using unat_u64_bound [of i] by (cases "unat i = 18446744073709551615")
    (auto simp: word_less_nat_alt unat_add_u64 word_unat_eq_iff unat_word_ariths)

lemma counters_update_ok:
  assumes "ledger_ok l"
  shows "ledger_ok (l\<lparr>hl_counters := (hl_counters l)\<lparr>bn_rejected_bytes := x\<rparr>\<rparr>)"
  using assms by (simp add: ledger_ok_defs)

lemma next_id_ok:
  assumes "ledger_ok l" "hl_next_id l \<noteq> 0"
  shows "ledger_ok (l\<lparr>hl_next_id := hl_next_id l + 1\<rparr>)"
  using assms less_successor by (auto simp: ledger_ok_def held_apart_def balanced_def Let_def)

lemma granted_ok:
  assumes "ledger_ok l" "c \<noteq> Cat_authoritative" "\<not> b > hl_limit l - bn_total_bytes (hl_counters l)"
    and "hl_next_id l \<noteq> 0" "b \<noteq> 0"
  shows "ledger_ok (fst (ledger_reserve True c b l))"
proof -
  let ?s = "hl_counters l" and ?i = "hl_next_id l" and ?m = "hl_reservations l"
  note inv = assms(1) [unfolded ledger_ok_defs]
  have fresh: "?m ?i = None" using inv assms(4) by (cases "?m ?i") fastforce+
  have total: "unat (bn_total_bytes ?s) + unat b \<le> unat (hl_limit l)"
  proof -
    have "bn_total_bytes ?s \<le> hl_limit l" using inv by blast
    then show ?thesis using assms(3) by (simp add: word_less_nat_alt word_le_nat_alt unat_sub_u64)
  qed
  then have small: "unat (bn_total_bytes ?s) + unat b < 18446744073709551616"
    using unat_u64_bound [of "hl_limit l"] by linarith
  have ut: "unat (bn_total_bytes ?s + b) = unat (bn_total_bytes ?s) + unat b" using small by (rule unat_add_u64)
  have le: "unat (category_counter k ?s) \<le> unat (bn_total_bytes ?s)" for k using inv by (cases k) simp_all
  have uc: "unat (category_counter k ?s + b) = unat (category_counter k ?s) + unat b" for k
    using le [of k] small by (intro unat_add_u64) linarith
  have res: "reserved (?m(?i \<mapsto> (c, b))) k = reserved ?m k + (if c = k then unat b else 0)" for k
    using reserved_insert [of ?m ?i "(c, b)" k] inv fresh by simp
  have run: "fst (ledger_reserve True c b l) =
      l\<lparr>hl_next_id := ?i + 1,
        hl_counters :=
          (let s = ?s\<lparr>bn_total_bytes := bn_total_bytes ?s + b\<rparr>;
               s = set_category_counter c (category_counter c s + b) s;
               s = set_category_peak_counter c (max (category_peak_counter c s) (category_counter c s)) s
           in s\<lparr>bn_peak_bytes := max (bn_peak_bytes s) (bn_total_bytes s)\<rparr>),
        hl_reservations := ?m(?i \<mapsto> (c, b))\<rparr>"
    using assms(3-5) fresh by (simp add: ledger_reserve_def Let_def)
  have held: "held_apart (fst (ledger_reserve True c b l))"
    unfolding run held_apart_def using inv assms(2,4,5) less_successor successor_fresh [of ?i] by auto
  have "balanced (fst (ledger_reserve True c b l))"
    unfolding run balanced_def Let_def
    using inv assms(2) total ut uc [of c] res [of Cat_conversion_scratch] res [of Cat_pinned_staging] res [of Cat_spill]
    by (cases c) (simp_all add: word_le_nat_alt unat_max)
  then show ?thesis using held by (simp add: ledger_ok_def)
qed

lemma reserve_ok:
  assumes "ledger_ok l" "c \<noteq> Cat_authoritative"
  shows "ledger_ok (fst (ledger_reserve memory c b l))"
proof -
  let ?s = "hl_counters l" and ?i = "hl_next_id l"
  consider "b = 0" | "b \<noteq> 0" "b > hl_limit l - bn_total_bytes ?s" | "\<not> b > hl_limit l - bn_total_bytes ?s" "?i = 0"
    | "b \<noteq> 0" "\<not> b > hl_limit l - bn_total_bytes ?s" "?i \<noteq> 0" "\<not> memory"
    | "b \<noteq> 0" "\<not> b > hl_limit l - bn_total_bytes ?s" "?i \<noteq> 0" "memory" by blast
  then show ?thesis
    by cases (use assms counters_update_ok [OF assms(1)] next_id_ok [OF assms(1)] granted_ok [OF assms] in
      \<open>simp_all add: ledger_reserve_def Let_def\<close>)
qed

lemma release_success:
  "snd (snd (ledger_release r l)) = Bs_success \<and> rv_bytes r \<noteq> 0 \<longleftrightarrow>
     rv_bytes r \<noteq> 0 \<and> rv_id r \<noteq> 0 \<and> hl_reservations l (rv_id r) = Some (rv_category r, rv_bytes r)"
  by (cases "hl_reservations l (rv_id r)") (auto simp: ledger_release_def Let_def split: if_splits)

lemma release_refused:
  "\<not> (rv_bytes r \<noteq> 0 \<and> rv_id r \<noteq> 0 \<and> hl_reservations l (rv_id r) = Some (rv_category r, rv_bytes r)) \<Longrightarrow>
     fst (ledger_release r l) = l"
  by (cases "hl_reservations l (rv_id r)") (auto simp: ledger_release_def Let_def split: if_splits)

lemma release_ok:
  assumes "ledger_ok l"
  shows "ledger_ok (fst (ledger_release r l))"
proof (cases "rv_bytes r \<noteq> 0 \<and> rv_id r \<noteq> 0 \<and> hl_reservations l (rv_id r) = Some (rv_category r, rv_bytes r)")
  case False
  then show ?thesis using assms release_refused by simp
next
  case True
  let ?s = "hl_counters l" and ?m = "hl_reservations l" and ?c = "rv_category r" and ?b = "rv_bytes r"
  have m: "?m (rv_id r) = Some (?c, ?b)" using True by simp
  note inv = assms [unfolded ledger_ok_defs]
  have c: "?c \<noteq> Cat_authoritative" "?b \<noteq> 0" using inv m by blast+
  have res: "reserved ?m k = reserved (?m(rv_id r := None)) k + (if ?c = k then unat ?b else 0)" for k
    using reserved_remove [of ?m "rv_id r" "(?c, ?b)" k] inv m by simp
  have le: "unat ?b \<le> unat (category_counter ?c ?s)" using inv res [of ?c] c(1) by (cases ?c) simp_all
  then have le': "unat ?b \<le> unat (bn_total_bytes ?s)" using inv by (cases ?c) simp_all
  have run: "fst (ledger_release r l) =
      l\<lparr>hl_counters :=
          (let s = ?s\<lparr>bn_total_bytes := bn_total_bytes ?s - ?b\<rparr>
           in set_category_counter ?c (category_counter ?c s - ?b) s),
        hl_reservations := ?m(rv_id r := None)\<rparr>"
    using True by (simp add: ledger_release_def Let_def)
  have held: "held_apart (fst (ledger_release r l))"
    unfolding run held_apart_def using inv by auto
  have "balanced (fst (ledger_release r l))"
    unfolding run balanced_def Let_def
    using inv c le le' by (cases ?c) (simp_all add: res word_le_nat_alt unat_sub_u64)
  then show ?thesis using held by (simp add: ledger_ok_def)
qed

lemma commit_ok:
  assumes "ledger_ok l"
  shows "ledger_ok (fst (ledger_commit_authoritative r p q l))"
proof (cases "snd (snd (ledger_commit_authoritative r p q l)) = Bs_success")
  case False
  then have "fst (ledger_commit_authoritative r p q l) = l"
    by (auto simp: ledger_commit_authoritative_def Let_def split: if_splits)
  then show ?thesis using assms by simp
next
  case True
  let ?s = "hl_counters l" and ?m = "hl_reservations l" and ?c = "rv_category r" and ?b = "rv_bytes r"
  note inv = assms [unfolded ledger_ok_defs]
  have g: "?c = Cat_conversion_scratch \<or> ?c = Cat_spill" "q \<le> ?b" "p \<le> bn_authoritative_bytes ?s"
    "?b \<noteq> 0 \<Longrightarrow> ?m (rv_id r) = Some (?c, ?b)"
    using True by (auto simp: ledger_commit_authoritative_def Let_def split: if_splits)
  let ?m' = "if ?b \<noteq> 0 then ?m(rv_id r := None) else ?m"
  define R where "R k = reserved ?m' k" for k
  have res: "reserved ?m k = R k + (if ?c = k then unat ?b else 0)" for k
    using reserved_remove [of ?m "rv_id r" "(?c, ?b)" k] inv g(4) by (simp add: R_def)
  have le: "unat ?b \<le> unat (category_counter ?c ?s)" using inv res [of ?c] g(1) by auto
  have run: "fst (ledger_commit_authoritative r p q l) =
      l\<lparr>hl_counters := commit_counters ?c ?b p q ?s, hl_reservations := ?m'\<rparr>"
    using True by (auto simp: ledger_commit_authoritative_def Let_def split: if_splits)
  have held: "held_apart (fst (ledger_commit_authoritative r p q l))"
    unfolding run held_apart_def using inv by auto
  have q: "unat q \<le> unat ?b" "unat p \<le> unat (bn_authoritative_bytes ?s)" using g by (simp_all add: word_le_nat_alt)
  have tot: "unat (bn_authoritative_bytes ?s) + unat (category_counter ?c ?s) \<le> unat (bn_total_bytes ?s)"
    using inv g(1) by auto
  have a: "unat (bn_authoritative_bytes ?s - p + q) + unat p = unat (bn_authoritative_bytes ?s) + unat q"
    using q le tot unat_u64_bound [of "bn_total_bytes ?s"] by (simp add: unat_add_u64 unat_sub_u64)
  have t: "unat (bn_total_bytes ?s - p - (?b - q)) + unat p + unat ?b = unat (bn_total_bytes ?s) + unat q"
    using q le tot by (simp add: unat_sub_u64)
  have k: "unat (category_counter ?c ?s - ?b) + unat ?b = unat (category_counter ?c ?s)"
    using le by (simp add: unat_sub_u64)
  note r = res [of Cat_conversion_scratch] res [of Cat_pinned_staging] res [of Cat_spill]
  have i: "bn_limit_bytes ?s = hl_limit l" "unat (bn_total_bytes ?s) \<le> unat (hl_limit l)"
    "unat (bn_total_bytes ?s) \<le> unat (bn_peak_bytes ?s)" "unat (bn_peak_bytes ?s) \<le> unat (hl_limit l)"
    "unat (bn_authoritative_bytes ?s) \<le> unat (bn_authoritative_peak_bytes ?s)"
    "unat (bn_conversion_scratch_bytes ?s) \<le> unat (bn_conversion_scratch_peak_bytes ?s)"
    "unat (bn_pinned_staging_bytes ?s) \<le> unat (bn_pinned_staging_peak_bytes ?s)"
    "unat (bn_spill_bytes ?s) \<le> unat (bn_spill_peak_bytes ?s)"
    "unat (bn_total_bytes ?s) = unat (bn_authoritative_bytes ?s) + unat (bn_conversion_scratch_bytes ?s) +
        unat (bn_pinned_staging_bytes ?s) + unat (bn_spill_bytes ?s)"
    "unat (bn_conversion_scratch_bytes ?s) = reserved ?m Cat_conversion_scratch"
    "unat (bn_pinned_staging_bytes ?s) = reserved ?m Cat_pinned_staging"
    "unat (bn_spill_bytes ?s) = reserved ?m Cat_spill"
    using inv unfolding word_le_nat_alt by blast+
  have "balanced (fst (ledger_commit_authoritative r p q l))"
    using g(1)
  proof
    assume c: "?c = Cat_conversion_scratch"
    show ?thesis
      unfolding run balanced_def Let_def commit_counters_def c set_category_counter.simps category_counter.simps
        host_ledger.select_convs host_ledger.update_convs word_le_nat_alt
      using i q a t k [unfolded c category_counter.simps] r [unfolded c]
      by (simp add: R_def [symmetric] unat_max)
  next
    assume c: "?c = Cat_spill"
    show ?thesis
      unfolding run balanced_def Let_def commit_counters_def c set_category_counter.simps category_counter.simps
        host_ledger.select_convs host_ledger.update_convs word_le_nat_alt
      using i q a t k [unfolded c category_counter.simps] r [unfolded c]
      by (simp add: R_def [symmetric] unat_max)
  qed
  then show ?thesis using held by (simp add: ledger_ok_def)
qed

lemma release_authoritative_ok:
  assumes "ledger_ok l"
  shows "ledger_ok (fst (ledger_release_authoritative b l))"
  using assms by (auto simp: ledger_release_authoritative_def ledger_ok_defs word_le_nat_alt word_less_nat_alt unat_sub_u64)

lemma category_update_limit [simp]:
  "bn_limit_bytes (set_category_counter c x s) = bn_limit_bytes s"
  "bn_limit_bytes (set_category_peak_counter c x s) = bn_limit_bytes s"
  by (cases c; simp)+

lemma ledger_limit [simp]:
  "hl_limit (fst (ledger_reserve memory c b l)) = hl_limit l"
  "hl_limit (fst (ledger_release r l)) = hl_limit l"
  "hl_limit (fst (ledger_commit_authoritative r p q l)) = hl_limit l"
  "hl_limit (fst (ledger_release_authoritative b l)) = hl_limit l"
  by (auto simp: ledger_reserve_def ledger_release_def ledger_commit_authoritative_def
      ledger_release_authoritative_def Let_def split: option.splits)

lemma ledger_step_ok:
  "ledger_ok l \<Longrightarrow> \<not> reserves_authoritative op \<Longrightarrow> ledger_ok (ledger_step op l)"
  by (cases op) (simp_all add: reserve_ok release_ok commit_ok release_authoritative_ok)

lemma ledger_run_ok:
  "ledger_ok l \<Longrightarrow> list_all (\<lambda>op. \<not> reserves_authoritative op) ops \<Longrightarrow> ledger_ok (fold ledger_step ops l)"
  by (induction ops arbitrary: l) (simp_all add: ledger_step_ok)


text \<open>
  C7: The books of the host budget balance over any history of reservations, releases and commits, with
  any arguments, as long as nobody reserves in the authoritative category (no code does): over the natural
  numbers, without wrap-around, the total is the sum of the four categories and within the limit, the bytes of
  every other category are the sum of its outstanding reservations, and the peaks are upper bounds.
\<close>

theorem ledger_balances:
  assumes "list_all (\<lambda>op. \<not> reserves_authoritative op) ops"
  shows "let l = fold ledger_step ops (host_ledger_new limit); s = ledger_snapshot l in
    unat (bn_total_bytes s) = unat (bn_authoritative_bytes s) + unat (bn_conversion_scratch_bytes s) +
      unat (bn_pinned_staging_bytes s) + unat (bn_spill_bytes s) \<and>
    unat (bn_total_bytes s) \<le> (if limit = 0 then 18446744073709551615 else unat limit) \<and>
    list_all (\<lambda>c. unat (category_counter c s) = (\<Sum>i\<in>dom (hl_reservations l). charge c (hl_reservations l i)))
      [Cat_conversion_scratch, Cat_pinned_staging, Cat_spill] \<and>
    bn_total_bytes s \<le> bn_peak_bytes s \<and>
    list_all (\<lambda>c. category_counter c s \<le> category_peak_counter c s)
      [Cat_authoritative, Cat_conversion_scratch, Cat_pinned_staging, Cat_spill]"
proof -
  let ?l = "fold ledger_step ops (host_ledger_new limit)"
  have limit: "hl_limit (fold ledger_step ops l) = hl_limit l" for l
  proof (induction ops arbitrary: l)
    case (Cons op ops)
    then show ?case by (cases op) (simp_all add: ledger_limit)
  qed simp
  have "hl_limit ?l = (if limit = 0 then max_u64 else limit)" unfolding limit by (simp add: host_ledger_new_def Let_def)
  then show ?thesis
    using ledger_run_ok [OF ledger_new_ok assms, of limit]
    by (auto simp: ledger_ok_defs ledger_snapshot_def reserved_def word_le_nat_alt unat_max_u64)
qed

theorem ledger_balances_witness:
  "let ops = [Op_reserve True Cat_conversion_scratch 60, Op_reserve True Cat_spill 50, Op_reserve True Cat_pinned_staging 30,
        Op_commit \<lparr>rv_id = 1, rv_category = Cat_conversion_scratch, rv_bytes = 60\<rparr> 0 45];
       s = ledger_snapshot (fold ledger_step ops (host_ledger_new 100))
   in unat (bn_total_bytes s) = unat (bn_authoritative_bytes s) + unat (bn_conversion_scratch_bytes s) +
        unat (bn_pinned_staging_bytes s) + unat (bn_spill_bytes s) \<and>
      bn_total_bytes s = 75 \<and> bn_rejected_bytes s = 50"
proof -
  let ?ops = "[Op_reserve True Cat_conversion_scratch 60, Op_reserve True Cat_spill 50, Op_reserve True Cat_pinned_staging 30,
        Op_commit \<lparr>rv_id = 1, rv_category = Cat_conversion_scratch, rv_bytes = 60\<rparr> 0 45]"
  have "bn_total_bytes (ledger_snapshot (fold ledger_step ?ops (host_ledger_new 100))) = 75"
    "bn_rejected_bytes (ledger_snapshot (fold ledger_step ?ops (host_ledger_new 100))) = 50"
    by code_simp+
  then show ?thesis
    using ledger_balances [of ?ops 100] unfolding Let_def by simp
qed

end
