(* ===== verification/Host_Store.thy ===== *)
theory Host_Store
  imports Host_Token Host_Ledger "HOL-Library.Monad_Syntax"
begin

text \<open>
  The host backing store (\<open>HostBackingStore\<close> of src/src/residency/compression.hpp and compression.cpp): every
  chunk has an immutable image, cut into blocks of 64 KiB that are zero, raw or encoded, and an operation
  builds a new image with the next generation and commits it in exchange for the old one's budget.

  The store is a state that is passed on; the mutex makes an operation atomic. The hash map is a map, a shared immutable
  image a value, an output parameter a component of the result. \<open>memory\<close> says which allocations succeed.
\<close>

section \<open>Data\<close>

datatype backing_status =
    Bk_success | Bk_invalid_configuration | Bk_invalid_argument | Bk_duplicate_chunk | Bk_chunk_not_found
  | Bk_invalid_state | Bk_stale_generation | Bk_generation_overflow | Bk_range_overflow | Bk_range_out_of_bounds
  | Bk_host_budget_exceeded | Bk_allocation_failure | Bk_codec_failure | Bk_corrupt_data | Bk_not_beneficial
  | Bk_internal_failure

fun backing_status_name :: "backing_status \<Rightarrow> string" where
  "backing_status_name Bk_success = ''success''"
| "backing_status_name Bk_invalid_configuration = ''invalid_configuration''"
| "backing_status_name Bk_invalid_argument = ''invalid_argument''"
| "backing_status_name Bk_duplicate_chunk = ''duplicate_chunk''"
| "backing_status_name Bk_chunk_not_found = ''chunk_not_found''"
| "backing_status_name Bk_invalid_state = ''invalid_state''"
| "backing_status_name Bk_stale_generation = ''stale_generation''"
| "backing_status_name Bk_generation_overflow = ''generation_overflow''"
| "backing_status_name Bk_range_overflow = ''range_overflow''"
| "backing_status_name Bk_range_out_of_bounds = ''range_out_of_bounds''"
| "backing_status_name Bk_host_budget_exceeded = ''host_budget_exceeded''"
| "backing_status_name Bk_allocation_failure = ''allocation_failure''"
| "backing_status_name Bk_codec_failure = ''codec_failure''"
| "backing_status_name Bk_corrupt_data = ''corrupt_data''"
| "backing_status_name Bk_not_beneficial = ''not_beneficial''"
| "backing_status_name Bk_internal_failure = ''internal_failure''"

record stored_block =
  sb_storage :: block_storage
  sb_uncompressed_bytes :: u32
  sb_payload :: "stored_payload option"
  sb_token :: content_token

record store_image =
  im_representation :: backing_representation
  im_valid_bytes :: u64
  im_generation :: u64
  im_stored_payload_bytes :: u64
  im_budget_charge_bytes :: u64
  im_content_token :: content_token
  im_blocks :: "stored_block list"

record chunk_info =
  hi_key :: chunk_key
  hi_representation :: backing_representation
  hi_valid_bytes :: u64
  hi_generation :: u64
  hi_stored_payload_bytes :: u64
  hi_budget_charge_bytes :: u64
  hi_content_token :: content_token

record backing_result =
  br_status :: backing_status
  br_chunk :: chunk_info

record host_store =
  hs_chunk_bytes :: u64
  hs_ledger :: host_ledger
  hs_chunks :: "chunk_key \<rightharpoonup> store_image"

text \<open>
  Where memory can run out: the node of the ledger's map, the node of the store's map, and the image under
  construction, whose first allocation stands for all of them.
\<close>

datatype allocation_site = At_ledger_node | At_map_node | At_image

definition no_token :: content_token where
  "no_token = \<lparr>ct_high = 0, ct_low = 0\<rparr>"

definition no_chunk :: chunk_info where
  "no_chunk =
     \<lparr>hi_key = ChunkKey (AllocationId 0) 0, hi_representation = Backing_invalid, hi_valid_bytes = 0, hi_generation = 0,
      hi_stored_payload_bytes = 0, hi_budget_charge_bytes = 0, hi_content_token = no_token\<rparr>"

definition outcome :: "backing_status \<Rightarrow> chunk_info \<Rightarrow> backing_result" where
  "outcome status chunk = \<lparr>br_status = status, br_chunk = chunk\<rparr>"

definition image_info :: "chunk_key \<Rightarrow> store_image \<Rightarrow> chunk_info" where
  "image_info key im =
     \<lparr>hi_key = key, hi_representation = im_representation im, hi_valid_bytes = im_valid_bytes im,
      hi_generation = im_generation im, hi_stored_payload_bytes = im_stored_payload_bytes im,
      hi_budget_charge_bytes = im_budget_charge_bytes im, hi_content_token = im_content_token im\<rparr>"

definition host_store_new :: "u64 \<Rightarrow> u64 \<Rightarrow> host_store" where
  "host_store_new chunk_bytes host_store_cap_bytes =
     \<lparr>hs_chunk_bytes = chunk_bytes, hs_ledger = host_ledger_new host_store_cap_bytes, hs_chunks = Map.empty\<rparr>"

definition configured :: "block_codec \<Rightarrow> host_store \<Rightarrow> bool" where
  "configured codec store \<longleftrightarrow> hs_chunk_bytes store \<noteq> 0 \<and> bc_codec codec = Codec_lz4"

section \<open>Committing an image\<close>

definition reserve_failure :: "budget_status \<Rightarrow> backing_status" where
  "reserve_failure status = (if status = Bs_limit_exceeded then Bk_host_budget_exceeded else Bk_allocation_failure)"

text \<open>The destructor of a reservation guard, and every discarded release.\<close>

definition drop_reservation :: "budget_reservation \<Rightarrow> host_store \<Rightarrow> host_store \<times> budget_reservation" where
  "drop_reservation reservation store =
     (case ledger_release reservation (hs_ledger store) of
        (ledger, reservation, _) \<Rightarrow> (store\<lparr>hs_ledger := ledger\<rparr>, reservation))"

definition end_guard :: "budget_reservation \<Rightarrow> host_store \<Rightarrow> host_store" where
  "end_guard reservation store = fst (drop_reservation reservation store)"

definition commit_reserved ::
    "chunk_key \<Rightarrow> u64 \<Rightarrow> store_image \<Rightarrow> budget_reservation \<Rightarrow> host_store \<Rightarrow>
     host_store \<times> budget_reservation \<times> backing_result" where
  "commit_reserved key expected_generation replacement reservation store =
     (let give_up = (\<lambda>result. case drop_reservation reservation store of
            (store, reservation) \<Rightarrow> (store, reservation, result))
      in case hs_chunks store key of
           None \<Rightarrow> give_up (outcome Bk_chunk_not_found no_chunk)
         | Some found \<Rightarrow>
             if im_generation found \<noteq> expected_generation
             then give_up (outcome Bk_stale_generation (image_info key found))
             else
               case ledger_commit_authoritative reservation (im_budget_charge_bytes found)
                      (im_budget_charge_bytes replacement) (hs_ledger store) of
                 (ledger, reservation, status) \<Rightarrow>
                   if status \<noteq> Bs_success
                   then give_up (outcome Bk_internal_failure (image_info key found))
                   else (store\<lparr>hs_ledger := ledger, hs_chunks := (hs_chunks store)(key \<mapsto> replacement)\<rparr>, reservation,
                         outcome Bk_success (image_info key replacement)))"

definition commit_existing ::
    "(allocation_site \<Rightarrow> bool) \<Rightarrow> chunk_key \<Rightarrow> u64 \<Rightarrow> store_image \<Rightarrow> budget_reservation option \<Rightarrow> host_store \<Rightarrow>
     host_store \<times> budget_reservation \<times> backing_result" where
  "commit_existing memory key expected_generation replacement preallocated store =
     (case preallocated of
        None \<Rightarrow>
          (case ledger_reserve (memory At_ledger_node) Cat_conversion_scratch (im_budget_charge_bytes replacement)
                  (hs_ledger store) of
             (ledger, reservation, status) \<Rightarrow>
               let store = store\<lparr>hs_ledger := ledger\<rparr>
               in if status \<noteq> Bs_success then (store, reservation, outcome (reserve_failure status) no_chunk)
                  else commit_reserved key expected_generation replacement reservation store)
      | Some reservation \<Rightarrow>
          if (rv_category reservation \<noteq> Cat_conversion_scratch \<and> rv_category reservation \<noteq> Cat_spill) \<or>
             rv_bytes reservation < im_budget_charge_bytes replacement
          then (case drop_reservation reservation store of
                  (store, reservation) \<Rightarrow> (store, reservation, outcome Bk_internal_failure no_chunk))
          else commit_reserved key expected_generation replacement reservation store)"

section \<open>Charges\<close>

definition backing_base_charge :: u64 where "backing_base_charge = 256"
definition backing_block_charge :: u64 where "backing_block_charge = 128"

definition maximum_image_charge :: "u64 \<Rightarrow> backing_status + u64" where
  "maximum_image_charge valid_bytes =
     (case do {
          metadata \<leftarrow> checked_multiply (block_count_for valid_bytes) backing_block_charge;
          metadata \<leftarrow> checked_add metadata backing_base_charge;
          checked_add metadata valid_bytes
        } of
        None \<Rightarrow> Inl Bk_range_overflow
      | Some amount \<Rightarrow> Inr amount)"

definition maximum_raw_backing_charge :: "u64 \<Rightarrow> u64 option" where
  "maximum_raw_backing_charge valid_bytes =
     (if valid_bytes = 0 then None
      else case maximum_image_charge valid_bytes of Inl _ \<Rightarrow> None | Inr amount \<Rightarrow> Some amount)"

definition reserve_candidate ::
    "(allocation_site \<Rightarrow> bool) \<Rightarrow> u64 \<Rightarrow> host_store \<Rightarrow> host_store \<times> budget_reservation \<times> backing_status" where
  "reserve_candidate memory valid_bytes store =
     (case maximum_image_charge valid_bytes of
        Inl status \<Rightarrow> (store, no_reservation, status)
      | Inr amount \<Rightarrow>
          (case ledger_reserve (memory At_ledger_node) Cat_conversion_scratch amount (hs_ledger store) of
             (ledger, reservation, status) \<Rightarrow>
               (store\<lparr>hs_ledger := ledger\<rparr>, reservation,
                if status = Bs_success then Bk_success else reserve_failure status)))"

fun sum_payloads :: "stored_block list \<Rightarrow> u64 \<Rightarrow> u64 \<Rightarrow> (u64 \<times> u64) option" where
  "sum_payloads [] payload payload_capacity = Some (payload, payload_capacity)"
| "sum_payloads (block # blocks) payload payload_capacity =
     (case sb_payload block of
        None \<Rightarrow> sum_payloads blocks payload payload_capacity
      | Some p \<Rightarrow> do {
          payload \<leftarrow> checked_add payload (of_nat (length (sp_bytes p)));
          payload_capacity \<leftarrow> checked_add payload_capacity (sp_capacity p);
          sum_payloads blocks payload payload_capacity
        })"

definition charge_image :: "store_image \<Rightarrow> backing_status + store_image" where
  "charge_image im =
     (if im_representation im = Backing_invalid
      then Inr (im\<lparr>im_stored_payload_bytes := 0, im_budget_charge_bytes := 0\<rparr>)
      else
        case do {
            (payload, payload_capacity) \<leftarrow> sum_payloads (im_blocks im) 0 0;
            metadata \<leftarrow> checked_multiply (of_nat (length (im_blocks im))) backing_block_charge;
            metadata \<leftarrow> checked_add metadata backing_base_charge;
            amount \<leftarrow> checked_add metadata payload_capacity;
            Some (payload, amount)
          } of
          None \<Rightarrow> Inl Bk_range_overflow
        | Some (payload, amount) \<Rightarrow>
            Inr (im\<lparr>im_stored_payload_bytes := payload, im_budget_charge_bytes := amount\<rparr>))"

section \<open>Blocks\<close>

definition combine_blocks :: "store_image \<Rightarrow> content_token" where
  "combine_blocks im = fold (\<lambda>block t. combine_token t (sb_token block)) (im_blocks im)
     (token_seed (im_valid_bytes im))"

definition payload_bytes :: "stored_block \<Rightarrow> u8 list" where
  "payload_bytes block = (case sb_payload block of None \<Rightarrow> [] | Some p \<Rightarrow> sp_bytes p)"

text \<open>The output span has \<open>n\<close> bytes; the bytes are the result when the status is success.\<close>

definition decode_block :: "block_codec \<Rightarrow> stored_block \<Rightarrow> nat \<Rightarrow> codec_status + u8 list" where
  "decode_block codec block n =
     (if n \<noteq> unat (sb_uncompressed_bytes block) then Inl Codec_invalid_argument
      else
        case sb_storage block of
          Storage_implicit_zero \<Rightarrow>
            if sb_payload block \<noteq> None \<and> payload_bytes block \<noteq> [] then Inl Codec_corrupt_input
            else Inr (replicate n 0)
        | Storage_raw \<Rightarrow>
            if sb_payload block = None \<or> length (payload_bytes block) \<noteq> n then Inl Codec_corrupt_input
            else Inr (payload_bytes block)
        | Storage_lz4 \<Rightarrow>
            if sb_payload block = None \<or> payload_bytes block = [] then Inl Codec_corrupt_input
            else
              case bc_decompress codec (payload_bytes block) n of
                (status, output) \<Rightarrow> if status = Codec_success then Inr (map output [0..<n]) else Inl status
        | Storage_out_of_range \<Rightarrow> Inl Codec_corrupt_input)"

definition is_all_zero :: "u8 list \<Rightarrow> bool" where
  "is_all_zero bytes \<longleftrightarrow> list_all (\<lambda>v. v = 0) bytes"

definition exact_payload :: "u8 list \<Rightarrow> stored_payload" where
  "exact_payload bytes = \<lparr>sp_bytes = bytes, sp_capacity = of_nat (length bytes)\<rparr>"

definition make_raw_block :: "bool \<Rightarrow> u8 list \<Rightarrow> u64 \<Rightarrow> backing_status + stored_block" where
  "make_raw_block memory input block_index =
     (if \<not> memory then Inl Bk_allocation_failure
      else Inr \<lparr>sb_storage = Storage_raw, sb_uncompressed_bytes = of_nat (length input),
                sb_payload = Some (exact_payload input), sb_token = token_for_block input block_index\<rparr>)"

definition make_zero_block :: "u32 \<Rightarrow> u64 \<Rightarrow> stored_block" where
  "make_zero_block byte_count block_index =
     \<lparr>sb_storage = Storage_implicit_zero, sb_uncompressed_bytes = byte_count, sb_payload = None,
      sb_token = token_for_zero_block (unat byte_count) block_index\<rparr>"

definition make_encoded_block :: "bool \<Rightarrow> u8 list \<Rightarrow> u64 \<Rightarrow> block_codec \<Rightarrow> backing_status + stored_block" where
  "make_encoded_block memory input block_index codec =
     (if is_all_zero input then Inr (make_zero_block (of_nat (length input)) block_index)
      else
        case bc_maximum_compressed_bytes codec (length input) of
          None \<Rightarrow> Inl Bk_codec_failure
        | Some bound \<Rightarrow>
            if bound = 0 then Inl Bk_codec_failure
            else if \<not> memory then Inl Bk_allocation_failure
            else
              case bc_compress codec input bound of
                (status, encoded, written) \<Rightarrow>
                  if status \<noteq> Codec_success \<or> written > bound then Inl Bk_codec_failure
                  else if written \<ge> length input then make_raw_block memory input block_index
                  else Inr \<lparr>sb_storage = Storage_lz4, sb_uncompressed_bytes = of_nat (length input),
                            sb_payload = Some (exact_payload (map encoded [0..<written])),
                            sb_token = token_for_block input block_index\<rparr>)"

text \<open>A loop that builds one value per index and stops at the first failure.\<close>

fun for_blocks :: "(nat \<Rightarrow> 'e + 'b) \<Rightarrow> nat list \<Rightarrow> 'e + 'b list" where
  "for_blocks f [] = Inr []"
| "for_blocks f (i # is) =
     (case f i of
        Inl e \<Rightarrow> Inl e
      | Inr b \<Rightarrow> (case for_blocks f is of Inl e \<Rightarrow> Inl e | Inr bs \<Rightarrow> Inr (b # bs)))"

definition block_indices :: "u64 \<Rightarrow> nat list" where
  "block_indices valid_bytes = [0..<unat (block_count_for valid_bytes)]"

definition validate_image_blocks :: "bool \<Rightarrow> store_image \<Rightarrow> block_codec \<Rightarrow> backing_status" where
  "validate_image_blocks memory im codec =
     (if length (im_blocks im) \<noteq> unat (block_count_for (im_valid_bytes im)) then Bk_corrupt_data
      else if \<not> memory then Bk_allocation_failure
      else
        case for_blocks (\<lambda>index.
            let block = im_blocks im ! index;
                expected = block_valid_bytes (im_valid_bytes im) (of_nat index)
            in if sb_uncompressed_bytes block \<noteq> expected then Inl Bk_corrupt_data
               else case decode_block codec block (unat expected) of
                   Inl _ \<Rightarrow> Inl Bk_corrupt_data
                 | Inr output \<Rightarrow>
                     let actual = token_for_block output (of_nat index)
                     in if actual \<noteq> sb_token block then Inl Bk_corrupt_data else Inr actual)
          (block_indices (im_valid_bytes im)) of
          Inl status \<Rightarrow> status
        | Inr tokens \<Rightarrow>
            if fold (\<lambda>actual token. combine_token token actual) tokens (token_seed (im_valid_bytes im)) =
               im_content_token im
            then Bk_success else Bk_corrupt_data)"


section \<open>Images\<close>

definition blank_image :: "backing_representation \<Rightarrow> u64 \<Rightarrow> u64 \<Rightarrow> store_image" where
  "blank_image representation valid_bytes generation =
     \<lparr>im_representation = representation, im_valid_bytes = valid_bytes, im_generation = generation,
      im_stored_payload_bytes = 0, im_budget_charge_bytes = 0, im_content_token = no_token, im_blocks = []\<rparr>"

definition seal_image :: "store_image \<Rightarrow> backing_status + store_image" where
  "seal_image im = charge_image (im\<lparr>im_content_token := combine_blocks im\<rparr>)"

definition zero_blocks :: "u64 \<Rightarrow> stored_block list" where
  "zero_blocks valid_bytes =
     map (\<lambda>index. make_zero_block (block_valid_bytes valid_bytes (of_nat index)) (of_nat index)) (block_indices valid_bytes)"

definition make_zero_image :: "bool \<Rightarrow> u64 \<Rightarrow> u64 \<Rightarrow> backing_status + store_image" where
  "make_zero_image memory valid_bytes generation =
     (if \<not> memory then Inl Bk_allocation_failure
      else seal_image ((blank_image Backing_implicit_zero valid_bytes generation)\<lparr>im_blocks := zero_blocks valid_bytes\<rparr>))"

definition raw_zero_block :: "u32 \<Rightarrow> content_token \<Rightarrow> stored_block" where
  "raw_zero_block byte_count token =
     \<lparr>sb_storage = Storage_raw, sb_uncompressed_bytes = byte_count,
      sb_payload = Some (exact_payload (replicate (unat byte_count) 0)), sb_token = token\<rparr>"

definition make_raw_zero_image :: "bool \<Rightarrow> u64 \<Rightarrow> u64 \<Rightarrow> backing_status + store_image" where
  "make_raw_zero_image memory valid_bytes generation =
     (if \<not> memory then Inl Bk_allocation_failure
      else seal_image ((blank_image Backing_raw valid_bytes generation)\<lparr>im_blocks :=
        map (\<lambda>index. let byte_count = block_valid_bytes valid_bytes (of_nat index)
                     in raw_zero_block byte_count (token_for_zero_block (unat byte_count) (of_nat index)))
          (block_indices valid_bytes)\<rparr>))"

definition make_raw_image :: "bool \<Rightarrow> u8 list \<Rightarrow> u64 \<Rightarrow> backing_status + store_image" where
  "make_raw_image memory input generation =
     (let valid_bytes = of_nat (length input)
      in if \<not> memory then Inl Bk_allocation_failure
         else
           case for_blocks (\<lambda>index.
               let offset = unat (of_nat index * compression_block_bytes);
                   n = unat (block_valid_bytes valid_bytes (of_nat index))
               in make_raw_block memory (take n (drop offset input)) (of_nat index)) (block_indices valid_bytes) of
             Inl status \<Rightarrow> Inl status
           | Inr blocks \<Rightarrow> seal_image ((blank_image Backing_raw valid_bytes generation)\<lparr>im_blocks := blocks\<rparr>))"

definition make_invalid_image :: "bool \<Rightarrow> u64 \<Rightarrow> u64 \<Rightarrow> backing_status + store_image" where
  "make_invalid_image memory valid_bytes generation =
     (if \<not> memory then Inl Bk_allocation_failure else Inr (blank_image Backing_invalid valid_bytes generation))"

definition next_generation :: "u64 \<Rightarrow> backing_status + u64" where
  "next_generation current = (if current = max_u64 then Inl Bk_generation_overflow else Inr (current + 1))"

section \<open>Registering, erasing and reading\<close>

definition register_chunk ::
    "(allocation_site \<Rightarrow> bool) \<Rightarrow> block_codec \<Rightarrow> chunk_key \<Rightarrow> u64 \<Rightarrow> backing_representation \<Rightarrow> host_store \<Rightarrow>
     host_store \<times> backing_result" where
  "register_chunk memory codec key valid_bytes initial_state store =
     (if \<not> configured codec store then (store, outcome Bk_invalid_configuration no_chunk)
      else if \<not> allocation_id_valid (ck_allocation_id key) \<or> valid_bytes = 0 \<or> valid_bytes > hs_chunk_bytes store \<or>
              initial_state = Backing_lz4_blocks
      then (store, outcome Bk_invalid_argument no_chunk)
      else
        case (if initial_state = Backing_invalid then make_invalid_image (memory At_image) valid_bytes 1
              else if initial_state = Backing_raw then make_raw_zero_image (memory At_image) valid_bytes 1
              else make_zero_image (memory At_image) valid_bytes 1) of
          Inl status \<Rightarrow> (store, outcome status no_chunk)
        | Inr im \<Rightarrow>
            (case ledger_reserve (memory At_ledger_node) Cat_conversion_scratch (im_budget_charge_bytes im)
                    (hs_ledger store) of
               (ledger, reservation, granted) \<Rightarrow>
                 let store = store\<lparr>hs_ledger := ledger\<rparr>
                 in if granted \<noteq> Bs_success then (store, outcome (reserve_failure granted) no_chunk)
                    else if hs_chunks store key \<noteq> None
                    then (end_guard reservation store, outcome Bk_duplicate_chunk no_chunk)
                    else if \<not> memory At_map_node
                    then (end_guard reservation store, outcome Bk_allocation_failure no_chunk)
                    else
                      case ledger_commit_authoritative reservation 0 (im_budget_charge_bytes im) (hs_ledger store) of
                        (ledger, reservation, committed) \<Rightarrow>
                          if committed \<noteq> Bs_success
                          then (end_guard reservation store, outcome Bk_internal_failure no_chunk)
                          else (store\<lparr>hs_ledger := ledger, hs_chunks := (hs_chunks store)(key \<mapsto> im)\<rparr>,
                                outcome Bk_success (image_info key im))))"

definition erase_chunk :: "chunk_key \<Rightarrow> u64 \<Rightarrow> host_store \<Rightarrow> host_store \<times> backing_result" where
  "erase_chunk key expected_generation store =
     (case hs_chunks store key of
        None \<Rightarrow> (store, outcome Bk_chunk_not_found no_chunk)
      | Some found \<Rightarrow>
          let old_info = image_info key found
          in if hi_generation old_info \<noteq> expected_generation then (store, outcome Bk_stale_generation old_info)
             else
               case ledger_release_authoritative (hi_budget_charge_bytes old_info) (hs_ledger store) of
                 (ledger, status) \<Rightarrow>
                   if status \<noteq> Bs_success then (store\<lparr>hs_ledger := ledger\<rparr>, outcome Bk_internal_failure old_info)
                   else (store\<lparr>hs_ledger := ledger, hs_chunks := (hs_chunks store)(key := None)\<rparr>,
                         outcome Bk_success old_info))"

definition inspect_chunk :: "chunk_key \<Rightarrow> host_store \<Rightarrow> backing_result" where
  "inspect_chunk key store =
     (case hs_chunks store key of
        None \<Rightarrow> outcome Bk_chunk_not_found no_chunk
      | Some im \<Rightarrow> outcome Bk_success (image_info key im))"

definition range_fits :: "u64 \<Rightarrow> u64 \<Rightarrow> u64 \<Rightarrow> bool" where
  "range_fits offset range_length limit \<longleftrightarrow> offset \<le> limit \<and> range_length \<le> limit - offset"

definition zero_block_intact :: "store_image \<Rightarrow> nat \<Rightarrow> bool" where
  "zero_block_intact im index \<longleftrightarrow>
     (let block = im_blocks im ! index
      in \<not> (sb_storage block \<noteq> Storage_implicit_zero \<or> (sb_payload block \<noteq> None \<and> payload_bytes block \<noteq> []) \<or>
            sb_uncompressed_bytes block \<noteq> block_valid_bytes (im_valid_bytes im) (of_nat index) \<or>
            sb_token block \<noteq> token_for_zero_block (unat (sb_uncompressed_bytes block)) (of_nat index)))"

text \<open>
  Positions inside a chunk, which \<open>range_fits\<close> has bounded by its valid bytes, are natural numbers from here on.
  The loop of \<open>read\<close> makes progress because the cursor is inside a block; a block that ends at or before the
  cursor would copy nothing and stand still, which is \<open>None\<close>.
\<close>

function read_blocks :: "block_codec \<Rightarrow> store_image \<Rightarrow> nat \<Rightarrow> nat \<Rightarrow> (backing_status + u8 list) option" where
  "read_blocks codec im cursor remaining =
     (if remaining = 0 then Some (Inr [])
      else
        let block_index = cursor div block_size;
            within = cursor mod block_size;
            block = im_blocks im ! block_index;
            n = unat (sb_uncompressed_bytes block)
        in case decode_block codec block n of
             Inl _ \<Rightarrow> Some (Inl Bk_corrupt_data)
           | Inr output \<Rightarrow>
               if token_for_block output (of_nat block_index) \<noteq> sb_token block then Some (Inl Bk_corrupt_data)
               else
                 let copied = min remaining (n - within)
                 in if copied = 0 then None
                    else
                      case read_blocks codec im (cursor + copied) (remaining - copied) of
                        None \<Rightarrow> None
                      | Some (Inl e) \<Rightarrow> Some (Inl e)
                      | Some (Inr rest) \<Rightarrow> Some (Inr (take copied (drop within output) @ rest)))"
  by pat_completeness auto
termination by (relation "measure (\<lambda>(_, _, _, remaining). remaining)") auto

declare read_blocks.simps [simp del]

definition read_chunk ::
    "(allocation_site \<Rightarrow> bool) \<Rightarrow> block_codec \<Rightarrow> chunk_key \<Rightarrow> u64 \<Rightarrow> nat \<Rightarrow> host_store \<Rightarrow>
     (backing_result \<times> u8 list option) option" where
  "read_chunk memory codec key offset n store =
     (case hs_chunks store key of
        None \<Rightarrow> Some (outcome Bk_chunk_not_found no_chunk, None)
      | Some im \<Rightarrow>
          let current = image_info key im;
              failed = (\<lambda>status. Some (outcome status current, None))
          in if im_representation im = Backing_invalid then failed Bk_invalid_state
             else if \<not> range_fits offset (of_nat n) (im_valid_bytes im) then failed Bk_range_out_of_bounds
             else if length (im_blocks im) \<noteq> unat (block_count_for (im_valid_bytes im)) \<or>
                     combine_blocks im \<noteq> im_content_token im
             then failed Bk_corrupt_data
             else if n = 0 then Some (outcome Bk_success current, Some [])
             else if im_representation im = Backing_implicit_zero then
               (if list_all (zero_block_intact im) [0..<length (im_blocks im)]
                then Some (outcome Bk_success current, Some (replicate n 0))
                else failed Bk_corrupt_data)
             else if \<not> memory At_image then failed Bk_allocation_failure
             else
               case read_blocks codec im (unat offset) n of
                 None \<Rightarrow> None
               | Some (Inl status) \<Rightarrow> failed status
               | Some (Inr output) \<Rightarrow> Some (outcome Bk_success current, Some output))"

section \<open>Replacing contents\<close>

definition replace_raw ::
    "(allocation_site \<Rightarrow> bool) \<Rightarrow> chunk_key \<Rightarrow> u64 \<Rightarrow> u8 list \<Rightarrow> budget_reservation option \<Rightarrow> host_store \<Rightarrow>
     host_store \<times> budget_reservation option \<times> backing_result" where
  "replace_raw memory key expected_generation input candidate store =
     (case hs_chunks store key of
        None \<Rightarrow> (store, candidate, outcome Bk_chunk_not_found no_chunk)
      | Some previous \<Rightarrow>
          let current = image_info key previous
          in if im_generation previous \<noteq> expected_generation
             then (store, candidate, outcome Bk_stale_generation current)
             else if length input \<noteq> unat (im_valid_bytes previous)
             then (store, candidate, outcome Bk_invalid_argument current)
             else
               case next_generation expected_generation of
                 Inl status \<Rightarrow> (store, candidate, outcome status current)
               | Inr generation \<Rightarrow>
                   (case candidate of
                      None \<Rightarrow>
                        (case reserve_candidate memory (im_valid_bytes previous) store of
                           (store, local, granted) \<Rightarrow>
                             if granted \<noteq> Bk_success then (end_guard local store, None, outcome granted current)
                             else
                               case make_raw_image (memory At_image) input generation of
                                 Inl status \<Rightarrow> (end_guard local store, None, outcome status current)
                               | Inr replacement \<Rightarrow>
                                   (case commit_existing memory key expected_generation replacement (Some local) store of
                                      (store, local, result) \<Rightarrow> (end_guard local store, None, result)))
                    | Some reservation \<Rightarrow>
                        (case make_raw_image (memory At_image) input generation of
                           Inl status \<Rightarrow> (store, Some reservation, outcome status current)
                         | Inr replacement \<Rightarrow>
                             (case commit_existing memory key expected_generation replacement (Some reservation) store of
                                (store, reservation, result) \<Rightarrow> (store, Some reservation, result)))))"


definition guarded ::
    "(allocation_site \<Rightarrow> bool) \<Rightarrow> chunk_key \<Rightarrow> u64 \<Rightarrow> chunk_info \<Rightarrow> budget_reservation \<Rightarrow>
     backing_status + store_image \<Rightarrow> host_store \<Rightarrow> host_store \<times> backing_result" where
  "guarded memory key expected_generation current guard built store =
     (case built of
        Inl status \<Rightarrow> (end_guard guard store, outcome status current)
      | Inr replacement \<Rightarrow>
          (case commit_existing memory key expected_generation replacement (Some guard) store of
             (store, guard, result) \<Rightarrow> (end_guard guard store, result)))"

text \<open>
  \<open>splice\<close> is the copy of \<open>input\<close> over the bytes from \<open>offset\<close> on; the loop of \<open>write\<close> applies it to
  every block the range meets and advances in the input.
\<close>

definition splice :: "u8 list \<Rightarrow> nat \<Rightarrow> u8 list \<Rightarrow> u8 list" where
  "splice bytes offset input = take offset bytes @ input @ drop (offset + length input) bytes"

fun write_blocks ::
    "bool \<Rightarrow> block_codec \<Rightarrow> bool \<Rightarrow> nat \<Rightarrow> u8 list \<Rightarrow> nat list \<Rightarrow> stored_block list \<Rightarrow> nat \<Rightarrow>
     backing_status + stored_block list \<times> nat" where
  "write_blocks memory codec raw offset input [] blocks source_offset = Inr (blocks, source_offset)"
| "write_blocks memory codec raw offset input (index # indices) blocks source_offset =
     (let block = blocks ! index;
          n = unat (sb_uncompressed_bytes block)
      in case decode_block codec block n of
           Inl _ \<Rightarrow> Inl Bk_corrupt_data
         | Inr decoded \<Rightarrow>
             if token_for_block decoded (of_nat index) \<noteq> sb_token block then Inl Bk_corrupt_data
             else
               let block_begin = index * block_size;
                   write_begin = max offset block_begin;
                   write_end = min (offset + length input) (block_begin + n);
                   within = write_begin - block_begin;
                   copied = write_end - write_begin;
                   decoded = splice decoded within (take copied (drop source_offset input))
               in case (if raw then make_raw_block memory decoded (of_nat index)
                        else make_encoded_block memory decoded (of_nat index) codec) of
                    Inl status \<Rightarrow> Inl status
                  | Inr updated \<Rightarrow>
                      write_blocks memory codec raw offset input indices (blocks[index := updated]) (source_offset + copied))"

definition written_image ::
    "bool \<Rightarrow> block_codec \<Rightarrow> store_image \<Rightarrow> u64 \<Rightarrow> nat \<Rightarrow> u8 list \<Rightarrow> backing_status + store_image" where
  "written_image memory codec previous generation offset input =
     (if \<not> memory then Inl Bk_allocation_failure
      else
        let raw = (im_representation previous = Backing_raw);
            representation = (if raw then Backing_raw else Backing_lz4_blocks);
            blocks = (if im_representation previous = Backing_implicit_zero
                      then zero_blocks (im_valid_bytes previous) else im_blocks previous);
            indices = [offset div block_size..<Suc ((offset + length input - 1) div block_size)]
        in case write_blocks memory codec raw offset input indices blocks 0 of
             Inl status \<Rightarrow> Inl status
           | Inr (blocks, source_offset) \<Rightarrow>
               if source_offset \<noteq> length input then Inl Bk_internal_failure
               else seal_image ((blank_image representation (im_valid_bytes previous) generation)\<lparr>im_blocks := blocks\<rparr>))"

definition write_chunk ::
    "(allocation_site \<Rightarrow> bool) \<Rightarrow> block_codec \<Rightarrow> chunk_key \<Rightarrow> u64 \<Rightarrow> u64 \<Rightarrow> u8 list \<Rightarrow> host_store \<Rightarrow>
     host_store \<times> backing_result" where
  "write_chunk memory codec key expected_generation offset input store =
     (case hs_chunks store key of
        None \<Rightarrow> (store, outcome Bk_chunk_not_found no_chunk)
      | Some previous \<Rightarrow>
          let current = image_info key previous
          in if im_generation previous \<noteq> expected_generation then (store, outcome Bk_stale_generation current)
             else if im_representation previous = Backing_invalid then (store, outcome Bk_invalid_state current)
             else if \<not> range_fits offset (of_nat (length input)) (im_valid_bytes previous)
             then (store, outcome Bk_range_out_of_bounds current)
             else if input = [] then (store, outcome Bk_success current)
             else if offset = 0 \<and> length input = unat (im_valid_bytes previous)
             then (case replace_raw memory key expected_generation input None store of
                     (store, _, result) \<Rightarrow> (store, result))
             else
               case next_generation expected_generation of
                 Inl status \<Rightarrow> (store, outcome status current)
               | Inr generation \<Rightarrow>
                   (case reserve_candidate memory (im_valid_bytes previous) store of
                      (store, guard, granted) \<Rightarrow>
                        if granted \<noteq> Bk_success then (end_guard guard store, outcome granted current)
                        else guarded memory key expected_generation current guard
                               (written_image (memory At_image) codec previous generation (unat offset) input) store))"

definition set_implicit_zero ::
    "(allocation_site \<Rightarrow> bool) \<Rightarrow> chunk_key \<Rightarrow> u64 \<Rightarrow> host_store \<Rightarrow> host_store \<times> backing_result" where
  "set_implicit_zero memory key expected_generation store =
     (case hs_chunks store key of
        None \<Rightarrow> (store, outcome Bk_chunk_not_found no_chunk)
      | Some previous \<Rightarrow>
          let current = image_info key previous
          in if im_generation previous \<noteq> expected_generation then (store, outcome Bk_stale_generation current)
             else
               case next_generation expected_generation of
                 Inl status \<Rightarrow> (store, outcome status current)
               | Inr generation \<Rightarrow>
                   (case Option.bind (checked_multiply (block_count_for (im_valid_bytes previous)) backing_block_charge)
                           (\<lambda>metadata. checked_add metadata backing_base_charge) of
                      None \<Rightarrow> (store, outcome Bk_range_overflow current)
                    | Some metadata_bytes \<Rightarrow>
                        (case ledger_reserve (memory At_ledger_node) Cat_conversion_scratch metadata_bytes
                                (hs_ledger store) of
                           (ledger, guard, granted) \<Rightarrow>
                             let store = store\<lparr>hs_ledger := ledger\<rparr>
                             in if granted \<noteq> Bs_success
                                then (end_guard guard store, outcome (reserve_failure granted) current)
                                else guarded memory key expected_generation current guard
                                       (make_zero_image (memory At_image) (im_valid_bytes previous) generation) store)))"

definition invalidate_chunk ::
    "(allocation_site \<Rightarrow> bool) \<Rightarrow> chunk_key \<Rightarrow> u64 \<Rightarrow> host_store \<Rightarrow> host_store \<times> backing_result" where
  "invalidate_chunk memory key expected_generation store =
     (case hs_chunks store key of
        None \<Rightarrow> (store, outcome Bk_chunk_not_found no_chunk)
      | Some previous \<Rightarrow>
          let current = image_info key previous
          in if im_generation previous \<noteq> expected_generation then (store, outcome Bk_stale_generation current)
             else
               case next_generation expected_generation of
                 Inl status \<Rightarrow> (store, outcome status current)
               | Inr generation \<Rightarrow>
                   (case make_invalid_image (memory At_image) (im_valid_bytes previous) generation of
                      Inl status \<Rightarrow> (store, outcome status current)
                    | Inr replacement \<Rightarrow>
                        (case commit_existing memory key expected_generation replacement None store of
                           (store, _, result) \<Rightarrow> (store, result))))"

section \<open>Compressing and materialising\<close>

definition compressed_image ::
    "bool \<Rightarrow> block_codec \<Rightarrow> store_image \<Rightarrow> u64 \<Rightarrow> backing_status + store_image" where
  "compressed_image memory codec previous generation =
     (if \<not> memory then Inl Bk_allocation_failure
      else
        case for_blocks (\<lambda>index.
            let source = im_blocks previous ! index
            in case decode_block codec source (unat (sb_uncompressed_bytes source)) of
                 Inl _ \<Rightarrow> Inl Bk_corrupt_data
               | Inr output \<Rightarrow> make_encoded_block memory output (of_nat index) codec)
          [0..<length (im_blocks previous)] of
          Inl status \<Rightarrow> Inl status
        | Inr blocks \<Rightarrow>
            let replacement = (blank_image Backing_lz4_blocks (im_valid_bytes previous) generation)\<lparr>im_blocks := blocks\<rparr>
            in if combine_blocks replacement \<noteq> im_content_token previous then Inl Bk_corrupt_data
               else
                 case seal_image replacement of
                   Inl status \<Rightarrow> Inl status
                 | Inr replacement \<Rightarrow>
                     if \<not> list_ex (\<lambda>block. sb_storage block \<noteq> Storage_raw) blocks \<or>
                        im_stored_payload_bytes replacement \<ge> im_valid_bytes previous
                     then Inl Bk_not_beneficial
                     else
                       let validated = validate_image_blocks memory replacement codec
                       in if validated \<noteq> Bk_success then Inl validated else Inr replacement)"

definition compress_chunk ::
    "(allocation_site \<Rightarrow> bool) \<Rightarrow> block_codec \<Rightarrow> chunk_key \<Rightarrow> u64 \<Rightarrow> host_store \<Rightarrow> host_store \<times> backing_result" where
  "compress_chunk memory codec key expected_generation store =
     (case hs_chunks store key of
        None \<Rightarrow> (store, outcome Bk_chunk_not_found no_chunk)
      | Some previous \<Rightarrow>
          let current = image_info key previous
          in if im_generation previous \<noteq> expected_generation then (store, outcome Bk_stale_generation current)
             else if im_representation previous = Backing_invalid then (store, outcome Bk_invalid_state current)
             else if im_representation previous = Backing_implicit_zero \<or> im_representation previous = Backing_lz4_blocks
             then (store, outcome Bk_not_beneficial current)
             else
               case next_generation expected_generation of
                 Inl status \<Rightarrow> (store, outcome status current)
               | Inr generation \<Rightarrow>
                   (case reserve_candidate memory (im_valid_bytes previous) store of
                      (store, guard, granted) \<Rightarrow>
                        if granted \<noteq> Bk_success then (end_guard guard store, outcome granted current)
                        else guarded memory key expected_generation current guard
                               (compressed_image (memory At_image) codec previous generation) store))"

definition materialized_image ::
    "bool \<Rightarrow> block_codec \<Rightarrow> store_image \<Rightarrow> u64 \<Rightarrow> backing_status + store_image" where
  "materialized_image memory codec previous generation =
     (if \<not> memory then Inl Bk_allocation_failure
      else
        case for_blocks (\<lambda>index.
            let n = unat (block_valid_bytes (im_valid_bytes previous) (of_nat index))
            in case (if im_representation previous = Backing_implicit_zero then Inr (replicate n 0)
                     else decode_block codec (im_blocks previous ! index) n) of
                 Inl _ \<Rightarrow> Inl Bk_corrupt_data
               | Inr output \<Rightarrow> make_raw_block memory output (of_nat index))
          (block_indices (im_valid_bytes previous)) of
          Inl status \<Rightarrow> Inl status
        | Inr blocks \<Rightarrow>
            let replacement = (blank_image Backing_raw (im_valid_bytes previous) generation)\<lparr>im_blocks := blocks\<rparr>
            in if combine_blocks replacement \<noteq> im_content_token previous then Inl Bk_corrupt_data
               else seal_image replacement)"

definition materialize_raw ::
    "(allocation_site \<Rightarrow> bool) \<Rightarrow> block_codec \<Rightarrow> chunk_key \<Rightarrow> u64 \<Rightarrow> host_store \<Rightarrow> host_store \<times> backing_result" where
  "materialize_raw memory codec key expected_generation store =
     (case hs_chunks store key of
        None \<Rightarrow> (store, outcome Bk_chunk_not_found no_chunk)
      | Some previous \<Rightarrow>
          let current = image_info key previous
          in if im_generation previous \<noteq> expected_generation then (store, outcome Bk_stale_generation current)
             else if im_representation previous = Backing_invalid then (store, outcome Bk_invalid_state current)
             else if im_representation previous = Backing_raw then (store, outcome Bk_success current)
             else
               case next_generation expected_generation of
                 Inl status \<Rightarrow> (store, outcome status current)
               | Inr generation \<Rightarrow>
                   (case reserve_candidate memory (im_valid_bytes previous) store of
                      (store, guard, granted) \<Rightarrow>
                        if granted \<noteq> Bk_success then (end_guard guard store, outcome granted current)
                        else guarded memory key expected_generation current guard
                               (materialized_image (memory At_image) codec previous generation) store))"

section \<open>Encoded containers\<close>

definition adopt_block :: "block_codec \<Rightarrow> lz4_blocks \<Rightarrow> nat \<Rightarrow> backing_status + stored_block" where
  "adopt_block codec candidate index =
     (let source = ls_blocks candidate ! index;
          bytes = sp_bytes (lb_payload source);
          expected = block_valid_bytes (ls_valid_bytes candidate) (of_nat index)
      in if lb_uncompressed_bytes source \<noteq> expected \<or>
            (lb_storage source = Storage_implicit_zero \<and> bytes \<noteq> []) \<or>
            (lb_storage source = Storage_raw \<and> length bytes \<noteq> unat expected) \<or>
            (lb_storage source = Storage_lz4 \<and> bytes = [])
         then Inl Bk_corrupt_data
         else
           let destination =
                 \<lparr>sb_storage = lb_storage source, sb_uncompressed_bytes = lb_uncompressed_bytes source,
                  sb_payload = (if bytes \<noteq> [] then Some (lb_payload source) else None), sb_token = no_token\<rparr>
           in case decode_block codec destination (unat expected) of
                Inl _ \<Rightarrow> Inl Bk_corrupt_data
              | Inr output \<Rightarrow> Inr (destination\<lparr>sb_token := token_for_block output (of_nat index)\<rparr>))"

definition adopted_image :: "bool \<Rightarrow> block_codec \<Rightarrow> lz4_blocks \<Rightarrow> backing_status + store_image" where
  "adopted_image memory codec candidate =
     (if \<not> memory then Inl Bk_allocation_failure
      else
        case for_blocks (adopt_block codec candidate) [0..<length (ls_blocks candidate)] of
          Inl status \<Rightarrow> Inl status
        | Inr blocks \<Rightarrow>
            let replacement =
                  (blank_image Backing_lz4_blocks (ls_valid_bytes candidate) (ls_generation candidate))
                    \<lparr>im_content_token := ls_content_token candidate, im_blocks := blocks\<rparr>
            in if combine_blocks replacement \<noteq> im_content_token replacement then Inl Bk_corrupt_data
               else
                 case charge_image replacement of
                   Inl status \<Rightarrow> Inl status
                 | Inr replacement \<Rightarrow>
                     if im_stored_payload_bytes replacement > im_valid_bytes replacement then Inl Bk_corrupt_data
                     else Inr replacement)"

definition commit_lz4_blocks ::
    "(allocation_site \<Rightarrow> bool) \<Rightarrow> block_codec \<Rightarrow> chunk_key \<Rightarrow> u64 \<Rightarrow> lz4_blocks \<Rightarrow> budget_reservation option \<Rightarrow>
     host_store \<Rightarrow> host_store \<times> budget_reservation option \<times> backing_result" where
  "commit_lz4_blocks memory codec key expected_generation candidate reservation store =
     (case hs_chunks store key of
        None \<Rightarrow> (store, reservation, outcome Bk_chunk_not_found no_chunk)
      | Some previous \<Rightarrow>
          let current = image_info key previous
          in if im_generation previous \<noteq> expected_generation
             then (store, reservation, outcome Bk_stale_generation current)
             else
               case next_generation expected_generation of
                 Inl status \<Rightarrow> (store, reservation, outcome status current)
               | Inr generation \<Rightarrow>
                   if ls_format_version candidate \<noteq> lz4_blocks_format_version \<or>
                      ls_valid_bytes candidate \<noteq> im_valid_bytes previous \<or> ls_generation candidate \<noteq> generation \<or>
                      length (ls_blocks candidate) \<noteq> unat (block_count_for (ls_valid_bytes candidate))
                   then (store, reservation, outcome Bk_invalid_argument current)
                   else
                     case adopted_image (memory At_image) codec candidate of
                       Inl status \<Rightarrow> (store, reservation, outcome status current)
                     | Inr replacement \<Rightarrow>
                         (case commit_existing memory key expected_generation replacement reservation store of
                            (store, remaining, result) \<Rightarrow> (store, map_option (\<lambda>_. remaining) reservation, result)))"

definition export_block :: "stored_block \<Rightarrow> lz4_block" where
  "export_block block =
     \<lparr>lb_storage = sb_storage block, lb_uncompressed_bytes = sb_uncompressed_bytes block,
      lb_payload = exact_payload (payload_bytes block)\<rparr>"

definition export_lz4_blocks ::
    "(allocation_site \<Rightarrow> bool) \<Rightarrow> block_codec \<Rightarrow> chunk_key \<Rightarrow> host_store \<Rightarrow> backing_status \<times> lz4_blocks option" where
  "export_lz4_blocks memory codec key store =
     (case hs_chunks store key of
        None \<Rightarrow> (Bk_chunk_not_found, None)
      | Some im \<Rightarrow>
          if im_representation im \<noteq> Backing_lz4_blocks then (Bk_invalid_state, None)
          else
            let validated = validate_image_blocks (memory At_image) im codec
            in if validated \<noteq> Bk_success then (validated, None)
               else if \<not> memory At_image then (Bk_allocation_failure, None)
               else (Bk_success,
                 Some \<lparr>ls_format_version = lz4_blocks_format_version, ls_valid_bytes = im_valid_bytes im,
                       ls_generation = im_generation im, ls_content_token = im_content_token im,
                       ls_blocks = map export_block (im_blocks im)\<rparr>))"

section \<open>Prepared replacements\<close>

text \<open>
  The payloads of a prepared image are shared with the list of payloads that is filled; one copy, in the
  image, stands for both. \<open>None\<close> is an object without an implementation.
\<close>

record prepared_raw =
  pr_source_generation :: u64
  pr_image :: store_image
  pr_filled :: bool

definition prepare_raw_replacement ::
    "(allocation_site \<Rightarrow> bool) \<Rightarrow> chunk_key \<Rightarrow> u64 \<Rightarrow> host_store \<Rightarrow> prepared_raw option \<times> backing_result" where
  "prepare_raw_replacement memory key expected_generation store =
     (case hs_chunks store key of
        None \<Rightarrow> (None, outcome Bk_chunk_not_found no_chunk)
      | Some previous \<Rightarrow>
          let current = image_info key previous
          in if im_generation previous \<noteq> expected_generation then (None, outcome Bk_stale_generation current)
             else
               case next_generation expected_generation of
                 Inl status \<Rightarrow> (None, outcome status current)
               | Inr generation \<Rightarrow>
                   if \<not> memory At_image then (None, outcome Bk_allocation_failure current)
                   else
                     case charge_image ((blank_image Backing_raw (im_valid_bytes previous) generation)\<lparr>im_blocks :=
                         map (\<lambda>index. raw_zero_block (block_valid_bytes (im_valid_bytes previous) (of_nat index)) no_token)
                           (block_indices (im_valid_bytes previous))\<rparr>) of
                       Inl status \<Rightarrow> (None, outcome status current)
                     | Inr im \<Rightarrow>
                         (Some \<lparr>pr_source_generation = expected_generation, pr_image = im, pr_filled = False\<rparr>,
                          outcome Bk_success current))"

fun fill_blocks :: "u8 list \<Rightarrow> nat \<Rightarrow> nat \<Rightarrow> stored_block list \<Rightarrow> backing_status \<times> stored_block list" where
  "fill_blocks input index offset [] = (Bk_success, [])"
| "fill_blocks input index offset (block # blocks) =
     (if sb_payload block = None \<or> length (payload_bytes block) \<noteq> unat (sb_uncompressed_bytes block)
      then (Bk_invalid_state, block # blocks)
      else
        let n = length (payload_bytes block);
            bytes = take n (drop offset input);
            block = block\<lparr>sb_payload := map_option (\<lambda>p. p\<lparr>sp_bytes := bytes\<rparr>) (sb_payload block),
                         sb_token := token_for_block bytes (of_nat index)\<rparr>
        in case fill_blocks input (Suc index) (offset + n) blocks of
             (status, blocks) \<Rightarrow> (status, block # blocks))"

definition fill_prepared_raw :: "u8 list \<Rightarrow> prepared_raw option \<Rightarrow> prepared_raw option \<times> backing_status" where
  "fill_prepared_raw input prepared =
     (case prepared of
        None \<Rightarrow> (prepared, Bk_invalid_argument)
      | Some p \<Rightarrow>
          if length input \<noteq> unat (im_valid_bytes (pr_image p)) then (prepared, Bk_invalid_argument)
          else
            case fill_blocks input 0 0 (im_blocks (pr_image p)) of
              (status, blocks) \<Rightarrow>
                let im = (pr_image p)\<lparr>im_blocks := blocks\<rparr>
                in if status \<noteq> Bk_success then (Some (p\<lparr>pr_image := im\<rparr>), status)
                   else (Some (p\<lparr>pr_image := im\<lparr>im_content_token := combine_blocks im\<rparr>, pr_filled := True\<rparr>), Bk_success))"

definition commit_prepared_raw ::
    "(allocation_site \<Rightarrow> bool) \<Rightarrow> chunk_key \<Rightarrow> u64 \<Rightarrow> prepared_raw option \<Rightarrow> budget_reservation option \<Rightarrow> host_store \<Rightarrow>
     host_store \<times> prepared_raw option \<times> budget_reservation option \<times> backing_result" where
  "commit_prepared_raw memory key expected_generation prepared candidate store =
     (case (prepared, candidate) of
        (Some p, Some reservation) \<Rightarrow>
          if \<not> pr_filled p \<or> pr_source_generation p \<noteq> expected_generation
          then (store, prepared, candidate, outcome Bk_invalid_argument no_chunk)
          else
            (case commit_existing memory key expected_generation (pr_image p) (Some reservation) store of
               (store, reservation, result) \<Rightarrow>
                 (store, if br_status result = Bk_success then None else prepared, Some reservation, result))
      | _ \<Rightarrow> (store, prepared, candidate, outcome Bk_invalid_argument no_chunk))"

end
