(* ===== verification/Host_Image.thy ===== *)
theory Host_Image
  imports Host_Store
begin

text \<open>
  What an image of the host backing store holds: \<open>image_holds codec im bytes\<close> says that the blocks of the image decode
  to the pieces of \<open>bytes\<close>, that every token is exact and that the charge is up to date. Every operation
  that builds an image builds one that holds the right bytes, for any codec that is lossless.
\<close>

section \<open>What an image holds\<close>

definition block_holds :: "block_codec \<Rightarrow> nat \<Rightarrow> stored_block \<Rightarrow> u8 list \<Rightarrow> bool" where
  "block_holds codec i b bytes \<longleftrightarrow>
     unat (sb_uncompressed_bytes b) = length bytes \<and> decode_block codec b (length bytes) = Inr bytes \<and>
     sb_token b = token_for_block bytes (of_nat i)"

definition blocks_hold :: "block_codec \<Rightarrow> stored_block list \<Rightarrow> u8 list \<Rightarrow> bool" where
  "blocks_hold codec bs bytes \<longleftrightarrow>
     length bs = piece_count (length bytes) \<and>
     (\<forall>i<piece_count (length bytes). block_holds codec i (bs ! i) (piece bytes i))"

definition image_holds :: "block_codec \<Rightarrow> store_image \<Rightarrow> u8 list \<Rightarrow> bool" where
  "image_holds codec im bytes \<longleftrightarrow>
     im_representation im \<noteq> Backing_invalid \<and> length bytes = unat (im_valid_bytes im) \<and>
     blocks_hold codec (im_blocks im) bytes \<and> im_content_token im = compute_content_token bytes \<and>
     charge_image im = Inr im \<and>
     (im_representation im = Backing_implicit_zero \<longrightarrow>
        bytes = replicate (length bytes) 0 \<and> im_blocks im = zero_blocks (im_valid_bytes im))"

lemma length_piece_le: "length (piece bytes i) \<le> block_size"
  by (simp add: length_piece)

lemma length_piece_u32: "unat (of_nat (length (piece bytes i)) :: u32) = length (piece bytes i)"
  using length_piece_le [of bytes i] by (simp add: unat_of_nat block_size_def)

lemma block_holds_unique: "block_holds codec i b x \<Longrightarrow> block_holds codec i b y \<Longrightarrow> x = y"
  by (simp add: block_holds_def)

lemma image_holds_unique:
  assumes "image_holds codec im x" "image_holds codec im y"
  shows "x = y"
proof (rule pieces_cong)
  show "length x = length y" using assms by (simp add: image_holds_def)
  then show "\<forall>i<piece_count (length x). piece x i = piece y i"
    using assms block_holds_unique by (fastforce simp: image_holds_def blocks_hold_def)
qed

text \<open>The token an image computes from its blocks is the token of its bytes.\<close>

lemma combine_blocks_holds:
  assumes "blocks_hold codec (im_blocks im) bytes" "length bytes = unat (im_valid_bytes im)"
  shows "combine_blocks im = compute_content_token bytes"
proof -
  let ?n = "piece_count (length bytes)"
  have len: "length (im_blocks im) = ?n" using assms(1) by (simp add: blocks_hold_def)
  have "map sb_token (im_blocks im) = map (\<lambda>i. token_for_block (piece bytes i) (of_nat i)) [0..<?n]"
    using assms(1) by (intro nth_equalityI) (simp_all add: blocks_hold_def block_holds_def)
  moreover have "combine_blocks im = fold (\<lambda>b t. combine_token t b) (map sb_token (im_blocks im)) (token_seed (im_valid_bytes im))"
    by (simp add: combine_blocks_def fold_map o_def)
  moreover have "(of_nat (length bytes) :: u64) = im_valid_bytes im" by (simp add: assms(2))
  ultimately show ?thesis by (simp add: content_token_pieces fold_map o_def)
qed

section \<open>Building images\<close>

lemma for_blocks_Inr:
  "for_blocks f is = Inr bs \<Longrightarrow> length bs = length is \<and> (\<forall>k<length is. f (is ! k) = Inr (bs ! k))"
proof (induction "is" arbitrary: bs)
  case (Cons i "is")
  then show ?case by (auto split: sum.splits simp: nth_Cons split: nat.splits)
qed simp

lemma for_upto_Inr:
  assumes "for_blocks f [0..<n] = Inr bs"
  shows "length bs = n" "i < n \<Longrightarrow> f i = Inr (bs ! i)"
  using for_blocks_Inr [OF assms] by auto

lemma charge_image_fixed:
  assumes "charge_image im = Inr im'"
  shows "charge_image im' = Inr im' \<and> im_representation im' = im_representation im \<and>
    im_valid_bytes im' = im_valid_bytes im \<and> im_generation im' = im_generation im \<and>
    im_content_token im' = im_content_token im \<and> im_blocks im' = im_blocks im"
proof (cases "im_representation im = Backing_invalid")
  case True
  then show ?thesis using assms by (auto simp: charge_image_def)
next
  case False
  then show ?thesis using assms by (auto simp: charge_image_def split: option.splits)
qed

lemma seal_image_holds:
  assumes "seal_image im = Inr im'" "im_representation im \<noteq> Backing_invalid"
    and "blocks_hold codec (im_blocks im) bytes" "length bytes = unat (im_valid_bytes im)"
    and "im_representation im = Backing_implicit_zero \<Longrightarrow>
      bytes = replicate (length bytes) 0 \<and> im_blocks im = zero_blocks (im_valid_bytes im)"
  shows "image_holds codec im' bytes"
  using charge_image_fixed [OF assms(1) [unfolded seal_image_def]] assms(2-5) combine_blocks_holds [OF assms(3,4)]
  by (simp add: image_holds_def)

lemma raw_block_holds:
  assumes "make_raw_block memory (piece bytes i) (of_nat i) = Inr b"
  shows "block_holds codec i b (piece bytes i)"
  using assms length_piece_u32 [of bytes i]
  by (auto simp: make_raw_block_def block_holds_def decode_block_def payload_bytes_def exact_payload_def split: if_splits)

lemma zero_block_holds:
  assumes "n \<le> block_size"
  shows "block_holds codec i (make_zero_block (of_nat n) (of_nat i)) (replicate n 0)"
proof -
  have u: "unat (of_nat n :: u32) = n" using assms by (simp add: unat_of_nat block_size_def)
  have "token_for_zero_block n (of_nat i) = token_for_block (replicate n 0) (of_nat i)"
    using assms by (intro zero_token_exact) (simp add: block_size_def)
  then show ?thesis by (simp add: block_holds_def make_zero_block_def decode_block_def u)
qed

text \<open>
  The codec is lossless when what it wrote decodes to what it was given: the documented contract of the
  LZ4 block format.
\<close>

definition codec_lossless :: "block_codec \<Rightarrow> bool" where
  "codec_lossless codec \<longleftrightarrow>
     (\<forall>input capacity encoded written.
        bc_compress codec input capacity = (Codec_success, encoded, written) \<longrightarrow> written \<le> capacity \<longrightarrow>
        input \<noteq> [] \<longrightarrow> written < length input \<longrightarrow>
          0 < written \<and>
          (\<exists>output. bc_decompress codec (map encoded [0..<written]) (length input) = (Codec_success, output) \<and>
             map output [0..<length input] = input))"

lemma encoded_block_holds:
  assumes "codec_lossless codec" "make_encoded_block memory (piece bytes i) (of_nat i) codec = Inr b"
  shows "block_holds codec i b (piece bytes i)"
proof (cases "is_all_zero (piece bytes i)")
  case True
  then have z: "piece bytes i = replicate (length (piece bytes i)) 0"
    by (intro nth_equalityI) (simp_all add: is_all_zero_def list_all_length)
  have "b = make_zero_block (of_nat (length (piece bytes i))) (of_nat i)"
    using assms(2) True by (simp add: make_encoded_block_def)
  then show ?thesis using zero_block_holds [OF length_piece_le [of bytes i], of codec i] z by simp
next
  case False
  let ?in = "piece bytes i"
  have ne: "?in \<noteq> []" using False by (auto simp: is_all_zero_def)
  obtain bound where bound: "bc_maximum_compressed_bytes codec (length ?in) = Some bound"
    using assms(2) False by (cases "bc_maximum_compressed_bytes codec (length ?in)") (simp_all add: make_encoded_block_def)
  obtain status encoded written where r: "bc_compress codec ?in bound = (status, encoded, written)"
    by (metis surj_pair)
  let ?stored = "\<lparr>sb_storage = Storage_lz4, sb_uncompressed_bytes = of_nat (length ?in),
                sb_payload = Some (exact_payload (map encoded [0..<written])), sb_token = token_for_block ?in (of_nat i)\<rparr>"
  have e: "(if status \<noteq> Codec_success \<or> written > bound then Inl Bk_codec_failure
       else if written \<ge> length ?in then make_raw_block memory ?in (of_nat i) else Inr ?stored) = Inr b"
    using assms(2) False bound r by (simp add: make_encoded_block_def split: if_splits)
  then have c: "bc_compress codec ?in bound = (Codec_success, encoded, written)" "written \<le> bound"
    and b: "(if written \<ge> length ?in then make_raw_block memory ?in (of_nat i) else Inr ?stored) = Inr b"
    using r by (simp_all split: if_splits)
  show ?thesis
  proof (cases "written \<ge> length ?in")
    case True
    then show ?thesis using b by (intro raw_block_holds [of memory]) simp
  next
    case False
    then obtain decoded where "0 < written"
      "bc_decompress codec (map encoded [0..<written]) (length ?in) = (Codec_success, decoded)"
      "map decoded [0..<length ?in] = ?in"
      using assms(1) c ne unfolding codec_lossless_def by (meson not_le)
    then show ?thesis
      using b False length_piece_u32 [of bytes i]
      by (auto simp: block_holds_def decode_block_def payload_bytes_def exact_payload_def)
  qed
qed

lemma piece_replicate: "piece (replicate n x) i = replicate (min block_size (n - i * block_size)) x"
  by (simp add: piece_def)

lemma block_bytes_of_nat:
  assumes "i < piece_count (unat v)"
  shows "block_valid_bytes v (of_nat i) = of_nat (min block_size (unat v - i * block_size))"
proof -
  have "unat (of_nat (min block_size (unat v - i * block_size)) :: u32) = min block_size (unat v - i * block_size)"
    by (simp add: unat_of_nat block_size_def)
  then show ?thesis using block_valid_exact [OF assms] by (simp add: word_unat_eq_iff)
qed

lemma length_block_indices: "block_indices v = [0..<piece_count (unat v)]"
  by (simp add: block_indices_def piece_count_exact)

lemma zero_blocks_hold: "blocks_hold codec (zero_blocks v) (replicate (unat v) 0)"
  unfolding blocks_hold_def
proof (intro conjI allI impI)
  show "length (zero_blocks v) = piece_count (length (replicate (unat v) (0 :: u8)))"
    by (simp add: zero_blocks_def length_block_indices)
  fix i assume "i < piece_count (length (replicate (unat v) (0 :: u8)))"
  then have i: "i < piece_count (unat v)" by simp
  then show "block_holds codec i (zero_blocks v ! i) (piece (replicate (unat v) 0) i)"
    using zero_block_holds [of "min block_size (unat v - i * block_size)" codec i]
    by (simp add: zero_blocks_def length_block_indices block_bytes_of_nat piece_replicate)
qed

lemma make_zero_image_holds:
  assumes "make_zero_image memory v g = Inr im"
  shows "image_holds codec im (replicate (unat v) 0)"
proof -
  have "seal_image ((blank_image Backing_implicit_zero v g)\<lparr>im_blocks := zero_blocks v\<rparr>) = Inr im"
    using assms by (simp add: make_zero_image_def split: if_splits)
  then show ?thesis
    by (rule seal_image_holds) (simp_all add: blank_image_def zero_blocks_hold)
qed

lemma make_raw_zero_image_holds:
  assumes "make_raw_zero_image memory v g = Inr im"
  shows "image_holds codec im (replicate (unat v) 0)"
proof -
  let ?bs = "map (\<lambda>index. let n = block_valid_bytes v (of_nat index)
      in raw_zero_block n (token_for_zero_block (unat n) (of_nat index))) (block_indices v)"
  have s: "seal_image ((blank_image Backing_raw v g)\<lparr>im_blocks := ?bs\<rparr>) = Inr im"
    using assms by (simp add: make_raw_zero_image_def split: if_splits)
  have "blocks_hold codec ?bs (replicate (unat v) 0)"
    unfolding blocks_hold_def
  proof (intro conjI allI impI)
    show "length ?bs = piece_count (length (replicate (unat v) (0 :: u8)))" by (simp add: length_block_indices)
    fix i assume "i < piece_count (length (replicate (unat v) (0 :: u8)))"
    then have i: "i < piece_count (unat v)" by simp
    let ?n = "min block_size (unat v - i * block_size)"
    have "token_for_zero_block ?n (of_nat i) = token_for_block (replicate ?n 0) (of_nat i)"
      by (intro zero_token_exact) (simp add: block_size_def min_def)
    then show "block_holds codec i (?bs ! i) (piece (replicate (unat v) 0) i)"
      using i block_valid_exact [OF i]
      by (simp add: length_block_indices raw_zero_block_def piece_replicate block_holds_def Let_def decode_block_def
          payload_bytes_def exact_payload_def)
  qed
  then show ?thesis
    by (intro seal_image_holds [OF s]) (simp_all add: blank_image_def)
qed

lemma make_raw_image_holds:
  assumes "make_raw_image memory bytes g = Inr im" "length bytes < 18446744073709551616"
  shows "image_holds codec im bytes"
proof -
  let ?v = "of_nat (length bytes) :: u64"
  have v: "unat ?v = length bytes" using assms(2) by (rule unat_of_nat_u64)
  obtain bs where f: "for_blocks (\<lambda>index.
        let offset = unat (of_nat index * compression_block_bytes); n = unat (block_valid_bytes ?v (of_nat index))
        in make_raw_block memory (take n (drop offset bytes)) (of_nat index)) [0..<piece_count (length bytes)] = Inr bs"
    and s: "seal_image ((blank_image Backing_raw ?v g)\<lparr>im_blocks := bs\<rparr>) = Inr im"
    using assms(1) by (auto simp: make_raw_image_def length_block_indices v Let_def split: if_splits sum.splits)
  have "blocks_hold codec bs bytes"
    unfolding blocks_hold_def
  proof (intro conjI allI impI)
    show "length bs = piece_count (length bytes)" by (rule for_upto_Inr [OF f])
    fix i assume i: "i < piece_count (length bytes)"
    have "i * block_size < 18446744073709551616" using i assms(2) by (simp add: piece_count_iff)
    then have "unat (of_nat i * compression_block_bytes) = i * block_size"
      using i by (simp add: unat_mult_u64 unat_of_nat_u64 block_size_def)
    moreover have "unat (block_valid_bytes ?v (of_nat i)) = min block_size (length bytes - i * block_size)"
      using block_valid_exact [of i ?v] i v by simp
    ultimately have "make_raw_block memory (piece bytes i) (of_nat i) = Inr (bs ! i)"
      using for_upto_Inr(2) [OF f i] by (simp add: Let_def piece_def min_def split: if_splits)
    then show "block_holds codec i (bs ! i) (piece bytes i)" by (rule raw_block_holds)
  qed
  then show ?thesis
    by (intro seal_image_holds [OF s]) (simp_all add: blank_image_def v)
qed

section \<open>Writing a range\<close>

lemma splice_length: "off + length input \<le> length bytes \<Longrightarrow> length (splice bytes off input) = length bytes"
  by (simp add: splice_def)

lemma splice_nth:
  assumes "off + length input \<le> length bytes" "j < length bytes"
  shows "splice bytes off input ! j = (if off \<le> j \<and> j < off + length input then input ! (j - off) else bytes ! j)"
  using assms by (auto simp: splice_def nth_append min_def add.commute)

lemma piece_index:
  assumes "j < length (piece bytes i)"
  shows "j < block_size" "i * block_size + j < length bytes"
  using assms unfolding length_piece by linarith+

lemma piece_nth: "j < length (piece bytes i) \<Longrightarrow> piece bytes i ! j = bytes ! (i * block_size + j)"
  using piece_index [of j bytes i] by (simp add: piece_def)

lemma length_piece_splice:
  "off + length input \<le> length bytes \<Longrightarrow> length (piece (splice bytes off input) k) = length (piece bytes k)"
  by (simp add: length_piece splice_length)

lemma piece_splice_outside:
  assumes "off + length input \<le> length bytes"
    and "Suc k * block_size \<le> off \<or> off + length input \<le> k * block_size"
  shows "piece (splice bytes off input) k = piece bytes k"
proof (rule nth_equalityI)
  show "length (piece (splice bytes off input) k) = length (piece bytes k)"
    by (rule length_piece_splice [OF assms(1)])
  fix j assume j: "j < length (piece (splice bytes off input) k)"
  then have "j < block_size" "k * block_size + j < length bytes"
    using piece_index [of j bytes k] length_piece_splice [OF assms(1)] by simp_all
  then show "piece (splice bytes off input) k ! j = piece bytes k ! j"
    using assms j by (auto simp: piece_nth splice_nth length_piece_splice)
qed

lemma piece_splice_inside:
  assumes "off + length input \<le> length bytes"
    and "wb = max off (k * block_size)" "we = min (off + length input) (k * block_size + length (piece bytes k))"
    and "wb \<le> we"
  shows "splice (piece bytes k) (wb - k * block_size) (take (we - wb) (drop (wb - off) input)) =
    piece (splice bytes off input) k"
proof -
  let ?p = "piece bytes k" and ?in = "take (we - wb) (drop (wb - off) input)"
  have len: "length ?in = we - wb" using assms(2-4) by simp
  have fits: "wb - k * block_size + length ?in \<le> length ?p"
    using assms(2-4) unfolding len by simp
  show ?thesis
  proof (rule nth_equalityI)
    show "length (splice ?p (wb - k * block_size) ?in) = length (piece (splice bytes off input) k)"
      by (simp only: splice_length [OF fits] length_piece_splice [OF assms(1)])
    fix j assume "j < length (splice ?p (wb - k * block_size) ?in)"
    then have j: "j < length ?p" by (simp only: splice_length [OF fits])
    then have "k * block_size + j < length bytes" by (rule piece_index)
    moreover have "?in ! (j - (wb - k * block_size)) = input ! (k * block_size + j - off)"
      if "wb - k * block_size \<le> j" "j < wb - k * block_size + length ?in"
    proof -
      have "wb - off + (j - (wb - k * block_size)) = k * block_size + j - off" using that(1) assms(2) by linarith
      moreover have "j - (wb - k * block_size) < we - wb" using that unfolding len by linarith
      moreover have "we - off \<le> length input" "off \<le> wb" using assms(2,3) by simp_all
      ultimately show ?thesis using assms(4) by (simp only: nth_take nth_drop)
    qed
    moreover have "(wb - k * block_size \<le> j \<and> j < wb - k * block_size + length ?in) =
        (off \<le> k * block_size + j \<and> k * block_size + j < off + length input)"
      unfolding len using j assms(2-4) by (auto simp: max_def min_def split: if_splits)
    ultimately show "splice ?p (wb - k * block_size) ?in ! j = piece (splice bytes off input) k ! j"
      using j assms(1) splice_nth [OF fits j]
      by (auto simp: piece_nth length_piece_splice splice_nth)
  qed
qed

lemma block_holds_decodes:
  assumes "block_holds codec i b bytes"
  shows "decode_block codec b (unat (sb_uncompressed_bytes b)) = Inr bytes"
    "unat (sb_uncompressed_bytes b) = length bytes" "token_for_block bytes (of_nat i) = sb_token b"
  using assms by (simp_all add: block_holds_def)

lemma made_block_holds:
  assumes "codec_lossless codec"
    and "(if raw then make_raw_block memory (piece bytes i) (of_nat i)
          else make_encoded_block memory (piece bytes i) (of_nat i) codec) = Inr b"
  shows "block_holds codec i b (piece bytes i)"
  using assms raw_block_holds encoded_block_holds by (cases raw) simp_all

lemma case_sum_InrE:
  assumes "(case x of Inl e \<Rightarrow> Inl e | Inr b \<Rightarrow> f b) = Inr r"
  obtains b where "x = Inr b" "f b = Inr r"
  using assms by (cases x) simp_all

lemma write_blocks_Cons:
  assumes "block_holds codec index (blocks ! index) bytes"
  shows "write_blocks memory codec raw off input (index # indices) blocks s =
    (let wb = max off (index * block_size); we = min (off + length input) (index * block_size + length bytes);
         d = splice bytes (wb - index * block_size) (take (we - wb) (drop s input))
     in case (if raw then make_raw_block memory d (of_nat index) else make_encoded_block memory d (of_nat index) codec) of
          Inl status \<Rightarrow> Inl status
        | Inr b \<Rightarrow> write_blocks memory codec raw off input indices (blocks[index := b]) (s + (we - wb)))"
  using block_holds_decodes [OF assms] by (simp add: Let_def)

lemma write_blocks_hold:
  assumes lossless: "codec_lossless codec" and fits: "off + length input \<le> length bytes" and ne: "input \<noteq> []"
    and "k \<le> m" "off div block_size \<le> k" "m = Suc ((off + length input - 1) div block_size)"
    and "length blocks = piece_count (length bytes)"
    and "\<forall>i<piece_count (length bytes). block_holds codec i (blocks ! i) (piece (if i < k then splice bytes off input else bytes) i)"
    and "write_blocks memory codec raw off input [k..<m] blocks (min (off + length input) (max off (k * block_size)) - off) = Inr (blocks', s)"
  shows "s = length input \<and> blocks_hold codec blocks' (splice bytes off input)"
  using assms(4-)
proof (induction "m - k" arbitrary: k blocks)
  case 0
  let ?new = "splice bytes off input"
  have k: "k = m" using 0 by simp
  have beyond: "off + length input \<le> k * block_size"
  proof -
    have "off + length input - 1 < k * block_size"
      unfolding k 0(4) by (simp add: dividend_less_times_div block_size_def)
    then show ?thesis by linarith
  qed
  have "block_holds codec i (blocks ! i) (piece ?new i)" if "i < piece_count (length bytes)" for i
  proof (cases "i < k")
    case True
    then show ?thesis using 0(6) [rule_format, OF that] by simp
  next
    case False
    then have "k * block_size \<le> i * block_size" by simp
    then have "piece ?new i = piece bytes i" using beyond by (intro piece_splice_outside [OF fits]) linarith
    then show ?thesis using 0(6) [rule_format, OF that] False by simp
  qed
  then show ?case using 0(5,7) k beyond by (simp add: blocks_hold_def splice_length [OF fits])
next
  case (Suc d)
  let ?new = "splice bytes off input"
  let ?wb = "max off (k * block_size)" and ?we = "min (off + length input) (k * block_size + length (piece bytes k))"
  have km: "k < m" using Suc.hyps(2) by simp
  have kle: "k \<le> (off + length input - 1) div block_size" using km Suc.prems(3) by simp
  have bpos: "0 < block_size" by (simp add: block_size_def)
  have low: "k * block_size < off + length input"
  proof -
    have "k * block_size \<le> off + length input - 1" using kle bpos by (simp add: less_eq_div_iff_mult_less_eq)
    then show ?thesis using ne by (cases input) simp_all
  qed
  have high: "off < Suc k * block_size"
    using Suc.prems(2) bpos by (metis div_less_iff_less_mult less_Suc_eq_le)
  have kc: "k < piece_count (length bytes)" using low fits by (simp add: piece_count_iff)
  have len: "length (piece bytes k) = min block_size (length bytes - k * block_size)" by (rule length_piece)
  have le: "?wb \<le> ?we" using low high fits by (simp add: len)
  have old: "block_holds codec k (blocks ! k) (piece bytes k)" using Suc.prems(5) [rule_format, OF kc] by simp
  have start: "min (off + length input) ?wb - off = ?wb - off" using low by simp
  have "(case (if raw then make_raw_block memory (piece ?new k) (of_nat k)
        else make_encoded_block memory (piece ?new k) (of_nat k) codec) of
          Inl status \<Rightarrow> Inl status
        | Inr b \<Rightarrow> write_blocks memory codec raw off input [Suc k..<m] (blocks[k := b]) (?wb - off + (?we - ?wb))) =
      Inr (blocks', s)"
    using Suc.prems(6) unfolding start upt_conv_Cons [OF km] write_blocks_Cons [OF old] Let_def
      piece_splice_inside [OF fits refl refl le] .
  then obtain b where b: "(if raw then make_raw_block memory (piece ?new k) (of_nat k)
        else make_encoded_block memory (piece ?new k) (of_nat k) codec) = Inr b"
    and rest: "write_blocks memory codec raw off input [Suc k..<m] (blocks[k := b]) (?wb - off + (?we - ?wb)) = Inr (blocks', s)"
    by (rule case_sum_InrE)
  have next_start: "?wb - off + (?we - ?wb) = min (off + length input) (max off (Suc k * block_size)) - off"
    using le low high fits by (simp add: len)
  have holds: "block_holds codec i (blocks[k := b] ! i) (piece (if i < Suc k then ?new else bytes) i)"
    if "i < piece_count (length bytes)" for i
    using Suc.prems(4) Suc.prems(5) [rule_format, OF that] made_block_holds [OF lossless b] that
    by (cases i k rule: linorder_cases) simp_all
  show ?case
    using Suc.hyps(1) [of "Suc k" "blocks[k := b]"] Suc.hyps(2) Suc.prems km rest holds unfolding next_start
    by simp
qed


section \<open>Images from images\<close>

lemma image_holds_parts:
  assumes "image_holds codec im bytes"
  shows "length bytes = unat (im_valid_bytes im)" "blocks_hold codec (im_blocks im) bytes"
    "length (im_blocks im) = piece_count (length bytes)"
    "i < piece_count (length bytes) \<Longrightarrow> block_holds codec i (im_blocks im ! i) (piece bytes i)"
  using assms by (simp_all add: image_holds_def blocks_hold_def)

lemma written_image_holds:
  assumes "codec_lossless codec" "image_holds codec previous bytes" "off + length input \<le> length bytes" "input \<noteq> []"
    and "written_image memory codec previous generation off input = Inr im"
  shows "image_holds codec im (splice bytes off input)" "im_valid_bytes im = im_valid_bytes previous"
    "im_generation im = generation"
    "im_representation im = (if im_representation previous = Backing_raw then Backing_raw else Backing_lz4_blocks)"
proof -
  let ?raw = "im_representation previous = Backing_raw"
  let ?m = "Suc ((off + length input - 1) div block_size)"
  have blocks: "(if im_representation previous = Backing_implicit_zero then zero_blocks (im_valid_bytes previous)
      else im_blocks previous) = im_blocks previous"
    using assms(2) by (simp add: image_holds_def)
  obtain bs where w: "write_blocks memory codec ?raw off input [off div block_size..<?m] (im_blocks previous) 0 =
      Inr (bs, length input)"
    and s: "seal_image ((blank_image (if ?raw then Backing_raw else Backing_lz4_blocks) (im_valid_bytes previous)
      generation)\<lparr>im_blocks := bs\<rparr>) = Inr im"
    using assms(5) unfolding written_image_def Let_def blocks by (auto split: if_splits sum.splits prod.splits)
  have le: "off div block_size \<le> ?m"
    using assms(4) by (intro le_SucI div_le_mono) (cases input, simp_all)
  have start: "min (off + length input) (max off (off div block_size * block_size)) - off = 0"
    using div_times_less_eq_dividend [of off block_size] by simp
  have old: "\<forall>i<piece_count (length bytes). block_holds codec i (im_blocks previous ! i)
      (piece (if i < off div block_size then splice bytes off input else bytes) i)"
  proof (intro allI impI)
    fix i assume i: "i < piece_count (length bytes)"
    have "Suc i * block_size \<le> off" if "i < off div block_size"
      using that by (simp add: block_size_def Suc_le_eq [symmetric] less_eq_div_iff_mult_less_eq del: Suc_le_eq mult_Suc)
    then have "i < off div block_size \<Longrightarrow> piece (splice bytes off input) i = piece bytes i"
      by (intro piece_splice_outside [OF assms(3)] disjI1)
    then show "block_holds codec i (im_blocks previous ! i)
        (piece (if i < off div block_size then splice bytes off input else bytes) i)"
      using image_holds_parts(4) [OF assms(2) i] by simp
  qed
  have "blocks_hold codec bs (splice bytes off input)"
    using write_blocks_hold [OF assms(1,3,4) le order_refl refl image_holds_parts(3) [OF assms(2)] old, of memory ?raw bs "length input"]
    unfolding start w by simp
  then show "image_holds codec im (splice bytes off input)"
    using image_holds_parts(1) [OF assms(2)] splice_length [OF assms(3)]
    by (intro seal_image_holds [OF s]) (auto simp: blank_image_def split: if_splits)
  show "im_valid_bytes im = im_valid_bytes previous" "im_generation im = generation"
    "im_representation im = (if ?raw then Backing_raw else Backing_lz4_blocks)"
    using charge_image_fixed [OF s [unfolded seal_image_def]] by (simp_all add: blank_image_def)
qed

lemma compressed_image_holds:
  assumes "codec_lossless codec" "image_holds codec previous bytes"
    and "compressed_image memory codec previous generation = Inr im"
  shows "image_holds codec im bytes" "im_valid_bytes im = im_valid_bytes previous" "im_generation im = generation"
    "im_representation im = Backing_lz4_blocks"
proof -
  note p = image_holds_parts [OF assms(2)]
  obtain bs where f: "for_blocks (\<lambda>index.
            let source = im_blocks previous ! index
            in case decode_block codec source (unat (sb_uncompressed_bytes source)) of
                 Inl _ \<Rightarrow> Inl Bk_corrupt_data
               | Inr output \<Rightarrow> make_encoded_block memory output (of_nat index) codec)
          [0..<piece_count (length bytes)] = Inr bs"
    and s: "seal_image ((blank_image Backing_lz4_blocks (im_valid_bytes previous) generation)\<lparr>im_blocks := bs\<rparr>) = Inr im"
    using assms(3) unfolding compressed_image_def p(3) by (auto simp: Let_def split: if_splits sum.splits)
  have "blocks_hold codec bs bytes"
    unfolding blocks_hold_def
  proof (intro conjI allI impI)
    show "length bs = piece_count (length bytes)" by (rule for_upto_Inr [OF f])
    fix i assume i: "i < piece_count (length bytes)"
    have "make_encoded_block memory (piece bytes i) (of_nat i) codec = Inr (bs ! i)"
      using for_upto_Inr(2) [OF f i] block_holds_decodes [OF p(4) [OF i]] by (simp add: Let_def)
    then show "block_holds codec i (bs ! i) (piece bytes i)" by (rule encoded_block_holds [OF assms(1)])
  qed
  then show "image_holds codec im bytes"
    using p(1) by (intro seal_image_holds [OF s]) (simp_all add: blank_image_def)
  show "im_valid_bytes im = im_valid_bytes previous" "im_generation im = generation"
    "im_representation im = Backing_lz4_blocks"
    using charge_image_fixed [OF s [unfolded seal_image_def]] by (simp_all add: blank_image_def)
qed

lemma materialized_image_holds:
  assumes "image_holds codec previous bytes" "materialized_image memory codec previous generation = Inr im"
  shows "image_holds codec im bytes" "im_valid_bytes im = im_valid_bytes previous" "im_generation im = generation"
    "im_representation im = Backing_raw"
proof -
  note p = image_holds_parts [OF assms(1)]
  let ?v = "im_valid_bytes previous"
  obtain bs where f: "for_blocks (\<lambda>index.
            let n = unat (block_valid_bytes ?v (of_nat index))
            in case (if im_representation previous = Backing_implicit_zero then Inr (replicate n 0)
                     else decode_block codec (im_blocks previous ! index) n) of
                 Inl _ \<Rightarrow> Inl Bk_corrupt_data
               | Inr output \<Rightarrow> make_raw_block memory output (of_nat index)) [0..<piece_count (length bytes)] = Inr bs"
    and s: "seal_image ((blank_image Backing_raw ?v generation)\<lparr>im_blocks := bs\<rparr>) = Inr im"
    using assms(2) unfolding materialized_image_def length_block_indices p(1) [symmetric]
    by (auto simp: Let_def split: if_splits sum.splits)
  have "blocks_hold codec bs bytes"
    unfolding blocks_hold_def
  proof (intro conjI allI impI)
    show "length bs = piece_count (length bytes)" by (rule for_upto_Inr [OF f])
    fix i assume i: "i < piece_count (length bytes)"
    have n: "unat (block_valid_bytes ?v (of_nat i)) = length (piece bytes i)"
      using block_valid_piece [OF p(1)] i p(1) by simp
    have "im_representation previous = Backing_implicit_zero \<Longrightarrow> piece bytes i = replicate (length (piece bytes i)) 0"
      using assms(1) piece_replicate [of "length bytes" 0 i] by (simp add: image_holds_def) (metis length_replicate)
    then have "make_raw_block memory (piece bytes i) (of_nat i) = Inr (bs ! i)"
      using for_upto_Inr(2) [OF f i] block_holds_decodes [OF p(4) [OF i]] n
      by (auto simp: Let_def split: if_splits)
    then show "block_holds codec i (bs ! i) (piece bytes i)" by (rule raw_block_holds)
  qed
  then show "image_holds codec im bytes"
    using p(1) by (intro seal_image_holds [OF s]) (simp_all add: blank_image_def)
  show "im_valid_bytes im = im_valid_bytes previous" "im_generation im = generation"
    "im_representation im = Backing_raw"
    using charge_image_fixed [OF s [unfolded seal_image_def]] by (simp_all add: blank_image_def)
qed


section \<open>What is in an image\<close>

definition block_bytes :: "block_codec \<Rightarrow> stored_block \<Rightarrow> u8 list" where
  "block_bytes codec b = (case decode_block codec b (unat (sb_uncompressed_bytes b)) of Inl _ \<Rightarrow> [] | Inr bytes \<Rightarrow> bytes)"

definition image_bytes :: "block_codec \<Rightarrow> store_image \<Rightarrow> u8 list" where
  "image_bytes codec im = concat (map (block_bytes codec) (im_blocks im))"

lemma block_holds_block_bytes: "block_holds codec i b bytes \<Longrightarrow> block_bytes codec b = bytes"
  by (simp add: block_bytes_def block_holds_def)

lemma blocks_hold_bytes:
  assumes "blocks_hold codec bs bytes"
  shows "concat (map (block_bytes codec) bs) = bytes"
proof -
  have "map (block_bytes codec) bs = map (piece bytes) [0..<piece_count (length bytes)]"
    using assms block_holds_block_bytes by (intro nth_equalityI) (force simp: blocks_hold_def)+
  then show ?thesis by (simp add: concat_pieces)
qed

lemma image_bytes_holds: "image_holds codec im bytes \<Longrightarrow> image_bytes codec im = bytes"
  by (simp add: image_bytes_def image_holds_def blocks_hold_bytes)

text \<open>A container of encoded blocks holds what its blocks decode to.\<close>

definition adopted_block :: "lz4_block \<Rightarrow> stored_block" where
  "adopted_block b = \<lparr>sb_storage = lb_storage b, sb_uncompressed_bytes = lb_uncompressed_bytes b,
     sb_payload = (if sp_bytes (lb_payload b) \<noteq> [] then Some (lb_payload b) else None), sb_token = no_token\<rparr>"

definition container_bytes :: "block_codec \<Rightarrow> lz4_blocks \<Rightarrow> u8 list" where
  "container_bytes codec container = concat (map (\<lambda>b. block_bytes codec (adopted_block b)) (ls_blocks container))"

lemma decode_block_token [simp]: "decode_block codec (b\<lparr>sb_token := t\<rparr>) n = decode_block codec b n"
  by (cases "sb_storage b") (simp_all add: decode_block_def payload_bytes_def)

lemma decode_block_length:
  assumes "decode_block codec b n = Inr bytes"
  shows "length bytes = n"
  using assms by (auto simp: decode_block_def split: if_splits block_storage.splits prod.splits)

lemma pieces_of_concat:
  assumes "length bss = piece_count n" "\<forall>i<piece_count n. length (bss ! i) = min block_size (n - i * block_size)"
  shows "length (concat bss) = n \<and> (\<forall>i<piece_count n. piece (concat bss) i = bss ! i)"
  using assms
proof (induction bss arbitrary: n)
  case Nil
  then show ?case using piece_count_iff [of 0 n] by simp
next
  case (Cons b bss)
  let ?m = "n - block_size"
  let ?c = "concat bss"
  have n: "0 < n" using Cons.prems(1) piece_count_iff [of 0 n] by simp
  have count: "Suc i < piece_count n \<longleftrightarrow> i < piece_count ?m" for i
    unfolding piece_count_iff by (auto simp: block_size_def)
  have b: "length b = min block_size n" using Cons.prems(2) n piece_count_iff [of 0 n] by force
  have "length bss = piece_count ?m"
  proof -
    have "i < length bss \<longleftrightarrow> i < piece_count ?m" for i using count [of i] Cons.prems(1) by auto
    then show ?thesis by (metis linorder_neqE_nat less_irrefl)
  qed
  moreover have "\<forall>i<piece_count ?m. length (bss ! i) = min block_size (?m - i * block_size)"
  proof (intro allI impI)
    fix i assume "i < piece_count ?m"
    then show "length (bss ! i) = min block_size (?m - i * block_size)"
      using Cons.prems(2) [rule_format, of "Suc i"] count by (simp add: diff_diff_left)
  qed
  ultimately have ih: "length ?c = ?m \<and> (\<forall>i<piece_count ?m. piece ?c i = bss ! i)" by (rule Cons.IH)
  have "piece (b @ ?c) i = (b # bss) ! i" if "i < piece_count n" for i
  proof (cases i)
    case 0
    then show ?thesis using b ih by (auto simp: piece_def min_def)
  next
    case (Suc j)
    then have j: "j < piece_count ?m" using that count by simp
    then have "length b = block_size" using b by (simp add: piece_count_iff)
    then have "piece (b @ ?c) i = piece ?c j" using Suc by (simp add: piece_def)
    then show ?thesis using ih j Suc by simp
  qed
  then show ?case using ih b n by auto
qed


lemma adopt_block_bytes:
  assumes "adopt_block codec candidate i = Inr b" "i < piece_count (unat (ls_valid_bytes candidate))"
  shows "block_holds codec i b (block_bytes codec (adopted_block (ls_blocks candidate ! i)))"
    "length (block_bytes codec (adopted_block (ls_blocks candidate ! i))) =
       min block_size (unat (ls_valid_bytes candidate) - i * block_size)"
proof -
  let ?s = "ls_blocks candidate ! i" and ?e = "block_valid_bytes (ls_valid_bytes candidate) (of_nat i)"
  have e: "lb_uncompressed_bytes ?s = ?e" using assms(1) by (simp add: adopt_block_def Let_def split: if_splits)
  obtain d where d: "decode_block codec (adopted_block ?s) (unat ?e) = Inr d"
    and b: "b = (adopted_block ?s)\<lparr>sb_token := token_for_block d (of_nat i)\<rparr>"
    using assms(1) by (auto simp: adopt_block_def Let_def adopted_block_def split: if_splits sum.splits)
  have size: "sb_uncompressed_bytes (adopted_block ?s) = ?e" by (simp add: adopted_block_def e)
  have bytes: "block_bytes codec (adopted_block ?s) = d" by (simp add: block_bytes_def size d)
  show "block_holds codec i b (block_bytes codec (adopted_block ?s))"
    unfolding bytes using d size decode_block_length [OF d] by (simp add: block_holds_def b)
  show "length (block_bytes codec (adopted_block ?s)) = min block_size (unat (ls_valid_bytes candidate) - i * block_size)"
    unfolding bytes using decode_block_length [OF d] block_valid_exact [OF assms(2)] by simp
qed

lemma adopted_image_holds:
  assumes "adopted_image memory codec candidate = Inr im"
    and "length (ls_blocks candidate) = piece_count (unat (ls_valid_bytes candidate))"
  shows "image_holds codec im (container_bytes codec candidate)" "im_valid_bytes im = ls_valid_bytes candidate"
    "im_generation im = ls_generation candidate" "im_representation im = Backing_lz4_blocks"
    "ls_content_token candidate = compute_content_token (container_bytes codec candidate)"
proof -
  let ?v = "ls_valid_bytes candidate" and ?bytes = "container_bytes codec candidate"
  let ?bss = "map (\<lambda>b. block_bytes codec (adopted_block b)) (ls_blocks candidate)"
  obtain bs where f: "for_blocks (adopt_block codec candidate) [0..<piece_count (unat ?v)] = Inr bs"
    and t: "combine_blocks ((blank_image Backing_lz4_blocks ?v (ls_generation candidate))
        \<lparr>im_content_token := ls_content_token candidate, im_blocks := bs\<rparr>) = ls_content_token candidate"
    and c: "charge_image ((blank_image Backing_lz4_blocks ?v (ls_generation candidate))
        \<lparr>im_content_token := ls_content_token candidate, im_blocks := bs\<rparr>) = Inr im"
    using assms(1) unfolding adopted_image_def assms(2) by (auto simp: Let_def split: if_splits sum.splits)
  have cut: "length ?bytes = unat ?v \<and> (\<forall>i<piece_count (unat ?v). piece ?bytes i = ?bss ! i)"
    unfolding container_bytes_def
    using assms(2) adopt_block_bytes(2) [OF for_upto_Inr(2) [OF f]] by (intro pieces_of_concat) simp_all
  have h: "blocks_hold codec bs ?bytes"
    unfolding blocks_hold_def
    using cut assms(2) for_upto_Inr(1) [OF f] adopt_block_bytes(1) [OF for_upto_Inr(2) [OF f]] by simp
  let ?im = "(blank_image Backing_lz4_blocks ?v (ls_generation candidate))
        \<lparr>im_content_token := ls_content_token candidate, im_blocks := bs\<rparr>"
  show token: "ls_content_token candidate = compute_content_token ?bytes"
    using combine_blocks_holds [of codec ?im ?bytes] h cut t by (simp add: blank_image_def)
  show "image_holds codec im ?bytes" "im_valid_bytes im = ?v" "im_generation im = ls_generation candidate"
    "im_representation im = Backing_lz4_blocks"
    using charge_image_fixed [OF c] h cut token by (simp_all add: image_holds_def blank_image_def)
qed

section \<open>Prepared replacements\<close>

definition prepared_blocks :: "u64 \<Rightarrow> stored_block list \<Rightarrow> bool" where
  "prepared_blocks v bs \<longleftrightarrow> length bs = piece_count (unat v) \<and>
     (\<forall>i<length bs. sb_storage (bs ! i) = Storage_raw \<and>
        unat (sb_uncompressed_bytes (bs ! i)) = min block_size (unat v - i * block_size) \<and>
        (\<exists>p. sb_payload (bs ! i) = Some p \<and> length (sp_bytes p) = unat (sb_uncompressed_bytes (bs ! i))))"

text \<open>
  A prepared image has all its payloads, and its charge is up to date; once it is filled it holds the
  bytes it was filled with.
\<close>

definition prepared_ok :: "block_codec \<Rightarrow> prepared_raw \<Rightarrow> bool" where
  "prepared_ok codec p \<longleftrightarrow>
     im_representation (pr_image p) = Backing_raw \<and> prepared_blocks (im_valid_bytes (pr_image p)) (im_blocks (pr_image p)) \<and>
     charge_image (pr_image p) = Inr (pr_image p) \<and> pr_source_generation p \<noteq> max_u64 \<and>
     im_generation (pr_image p) = pr_source_generation p + 1 \<and>
     (pr_filled p \<longrightarrow> image_holds codec (pr_image p) (image_bytes codec (pr_image p)))"

lemma prepare_ok:
  assumes "prepare_raw_replacement memory key g store = (Some p, result)"
  shows "prepared_ok codec p \<and> \<not> pr_filled p \<and> pr_source_generation p = g \<and>
    (\<exists>previous. hs_chunks store key = Some previous \<and> im_valid_bytes (pr_image p) = im_valid_bytes previous)"
proof -
  obtain previous where previous: "hs_chunks store key = Some previous"
    using assms by (auto simp: prepare_raw_replacement_def split: option.splits)
  let ?v = "im_valid_bytes previous"
  let ?bs = "map (\<lambda>index. raw_zero_block (block_valid_bytes ?v (of_nat index)) no_token) (block_indices ?v)"
  obtain generation im where generation: "next_generation g = Inr generation"
    and c: "charge_image ((blank_image Backing_raw ?v generation)\<lparr>im_blocks := ?bs\<rparr>) = Inr im"
    and p: "p = \<lparr>pr_source_generation = g, pr_image = im, pr_filled = False\<rparr>"
    using assms previous
    by (auto simp: prepare_raw_replacement_def Let_def split: if_splits sum.splits)
  have "prepared_blocks ?v ?bs"
    by (auto simp: prepared_blocks_def length_block_indices raw_zero_block_def block_valid_exact exact_payload_def)
  then show ?thesis
    using charge_image_fixed [OF c] generation previous
    by (auto simp: prepared_ok_def p blank_image_def next_generation_def split: if_splits)
qed

lemma fill_blocks_hold:
  assumes "\<forall>i<length bs. sb_storage (bs ! i) = Storage_raw \<and>
        unat (sb_uncompressed_bytes (bs ! i)) = length (piece input (k + i)) \<and>
        (\<exists>p. sb_payload (bs ! i) = Some p \<and> length (sp_bytes p) = unat (sb_uncompressed_bytes (bs ! i)))"
    and "k + length bs = piece_count (length input)"
    and "fill_blocks input k (k * block_size) bs = (status, bs')"
  shows "status = Bk_success \<and> length bs' = length bs \<and>
    (\<forall>i<length bs. block_holds codec (k + i) (bs' ! i) (piece input (k + i)) \<and> 
       sb_uncompressed_bytes (bs' ! i) = sb_uncompressed_bytes (bs ! i) \<and> sb_storage (bs' ! i) = sb_storage (bs ! i) \<and>
       map_option sp_capacity (sb_payload (bs' ! i)) = map_option sp_capacity (sb_payload (bs ! i)))"
  using assms
proof (induction bs arbitrary: k bs' status)
  case (Cons b bs)
  have b: "sb_storage b = Storage_raw" "unat (sb_uncompressed_bytes b) = length (piece input k)"
    using Cons.prems(1) [rule_format, of 0] by simp_all
  obtain p where p: "sb_payload b = Some p" "length (sp_bytes p) = length (piece input k)"
    using Cons.prems(1) [rule_format, of 0] b by auto
  let ?n = "length (piece input k)"
  have take: "take ?n (drop (k * block_size) input) = piece input k"
    by (simp add: piece_def min_def)
  let ?b = "b\<lparr>sb_payload := Some (p\<lparr>sp_bytes := piece input k\<rparr>), sb_token := token_for_block (piece input k) (of_nat k)\<rparr>"
  have kc: "k < piece_count (length input)" using Cons.prems(2) by simp
  obtain status' bs'' where r: "fill_blocks input (Suc k) (k * block_size + ?n) bs = (status', bs'')"
    by (metis surj_pair)
  have out: "status = status'" "bs' = ?b # bs''"
    using Cons.prems(3) b p r take by (simp_all add: payload_bytes_def Let_def)
  have next_block: "bs = [] \<or> ?n = block_size"
    using Cons.prems(2) piece_count_iff [of "Suc k" "length input"] by (cases bs) (auto simp: length_piece)
  then have ih: "status' = Bk_success \<and> length bs'' = length bs \<and>
    (\<forall>i<length bs. block_holds codec (Suc k + i) (bs'' ! i) (piece input (Suc k + i)) \<and> 
       sb_uncompressed_bytes (bs'' ! i) = sb_uncompressed_bytes (bs ! i) \<and> sb_storage (bs'' ! i) = sb_storage (bs ! i) \<and>
       map_option sp_capacity (sb_payload (bs'' ! i)) = map_option sp_capacity (sb_payload (bs ! i)))"
  proof
    assume "bs = []"
    then show ?thesis using r by simp
  next
    assume "?n = block_size"
    then show ?thesis
      using Cons.prems(1,2) r by (intro Cons.IH) (auto simp: add.commute dest: spec [of _ "Suc _"])
  qed
  have "block_holds codec k ?b (piece input k)"
    using b p by (simp add: block_holds_def decode_block_def payload_bytes_def)
  then show ?case
    using ih p b unfolding out by (auto simp: nth_Cons split: nat.splits)
qed simp


lemma sum_payloads_cong:
  assumes "length bs = length cs"
    and "\<forall>i<length bs. map_option (\<lambda>p. (length (sp_bytes p), sp_capacity p)) (sb_payload (bs ! i)) =
      map_option (\<lambda>p. (length (sp_bytes p), sp_capacity p)) (sb_payload (cs ! i))"
  shows "sum_payloads bs x y = sum_payloads cs x y"
  using assms
proof (induction bs cs arbitrary: x y rule: list_induct2)
  case (Cons b bs c cs)
  have "map_option (\<lambda>p. (length (sp_bytes p), sp_capacity p)) (sb_payload b) =
      map_option (\<lambda>p. (length (sp_bytes p), sp_capacity p)) (sb_payload c)"
    using Cons.prems [rule_format, of 0] by simp
  moreover have "sum_payloads bs = sum_payloads cs"
    using Cons.prems [rule_format, of "Suc _"] by (intro ext Cons.IH) simp
  ultimately show ?case by (cases "sb_payload b"; cases "sb_payload c") simp_all
qed simp

lemma charge_image_cong:
  assumes "charge_image im = Inr im" "im_representation im \<noteq> Backing_invalid"
    and "sum_payloads bs 0 0 = sum_payloads (im_blocks im) 0 0" "length bs = length (im_blocks im)"
  shows "charge_image (im\<lparr>im_blocks := bs, im_content_token := t\<rparr>) = Inr (im\<lparr>im_blocks := bs, im_content_token := t\<rparr>)"
proof -
  define E where "E = do {
            (payload, payload_capacity) \<leftarrow> sum_payloads (im_blocks im) 0 0;
            metadata \<leftarrow> checked_multiply (of_nat (length (im_blocks im))) backing_block_charge;
            metadata \<leftarrow> checked_add metadata backing_base_charge;
            amount \<leftarrow> checked_add metadata payload_capacity;
            Some (payload, amount)
          }"
  have "(case E of None \<Rightarrow> Inl Bk_range_overflow
        | Some (payload, amount) \<Rightarrow>
            Inr (im\<lparr>im_stored_payload_bytes := payload, im_budget_charge_bytes := amount\<rparr>)) = Inr im"
    using assms(1,2) unfolding E_def by (simp add: charge_image_def)
  then obtain payload amount where E: "E = Some (payload, amount)"
    and im: "im\<lparr>im_stored_payload_bytes := payload, im_budget_charge_bytes := amount\<rparr> = im"
    by (cases E) auto
  have "charge_image (im\<lparr>im_blocks := bs, im_content_token := t\<rparr>) =
      (case E of None \<Rightarrow> Inl Bk_range_overflow
        | Some (payload, amount) \<Rightarrow>
            Inr ((im\<lparr>im_blocks := bs, im_content_token := t\<rparr>)
              \<lparr>im_stored_payload_bytes := payload, im_budget_charge_bytes := amount\<rparr>))"
    using assms(2-4) unfolding E_def by (simp add: charge_image_def)
  moreover have "im_stored_payload_bytes im = payload" "im_budget_charge_bytes im = amount"
    by (subst im [symmetric], simp)+
  ultimately show ?thesis unfolding E by simp
qed

lemma raw_payload:
  "block_holds codec i b bytes \<Longrightarrow> sb_storage b = Storage_raw \<Longrightarrow> \<exists>p. sb_payload b = Some p \<and> sp_bytes p = bytes"
  by (cases "sb_payload b") (auto simp: block_holds_def decode_block_def payload_bytes_def split: if_splits)

lemma fill_prepared_ok:
  assumes "prepared_ok codec p" "length input = unat (im_valid_bytes (pr_image p))"
    and "fill_prepared_raw input (Some p) = (p', status)"
  shows "status = Bk_success \<and> (\<exists>q. p' = Some q \<and> prepared_ok codec q \<and> pr_filled q \<and>
    pr_source_generation q = pr_source_generation p \<and> image_bytes codec (pr_image q) = input \<and>
    im_budget_charge_bytes (pr_image q) = im_budget_charge_bytes (pr_image p) \<and>
    im_valid_bytes (pr_image q) = im_valid_bytes (pr_image p))"
proof -
  let ?im = "pr_image p" and ?v = "im_valid_bytes (pr_image p)"
  have blocks: "prepared_blocks ?v (im_blocks ?im)" and c: "charge_image ?im = Inr ?im"
    and raw: "im_representation ?im = Backing_raw"
    using assms(1) by (simp_all add: prepared_ok_def)
  have n: "length (im_blocks ?im) = piece_count (length input)" using blocks assms(2) by (simp add: prepared_blocks_def)
  have pre: "\<forall>i<length (im_blocks ?im). sb_storage (im_blocks ?im ! i) = Storage_raw \<and>
        unat (sb_uncompressed_bytes (im_blocks ?im ! i)) = length (piece input (0 + i)) \<and>
        (\<exists>p. sb_payload (im_blocks ?im ! i) = Some p \<and> length (sp_bytes p) = unat (sb_uncompressed_bytes (im_blocks ?im ! i)))"
    using blocks assms(2) by (auto simp: prepared_blocks_def length_piece)
  obtain st bs where f: "fill_blocks input 0 (0 * block_size) (im_blocks ?im) = (st, bs)" by (metis surj_pair)
  note filled = fill_blocks_hold [OF pre _ f, of codec, unfolded add_0, OF n]
  have holds: "blocks_hold codec bs input" using filled n by (simp add: blocks_hold_def)
  let ?q = "p\<lparr>pr_image := ?im\<lparr>im_blocks := bs, im_content_token := combine_blocks (?im\<lparr>im_blocks := bs\<rparr>)\<rparr>, pr_filled := True\<rparr>"
  have run: "fill_prepared_raw input (Some p) = (Some ?q, Bk_success)"
    using f filled assms(2) by (simp add: fill_prepared_raw_def Let_def)
  have payload: "\<forall>i<length bs. map_option (\<lambda>p. (length (sp_bytes p), sp_capacity p)) (sb_payload (bs ! i)) =
      map_option (\<lambda>p. (length (sp_bytes p), sp_capacity p)) (sb_payload (im_blocks ?im ! i))"
  proof (intro allI impI)
    fix i assume "i < length bs"
    then have i: "i < length (im_blocks ?im)" using filled by simp
    obtain x where x: "sb_payload (im_blocks ?im ! i) = Some x" "length (sp_bytes x) = length (piece input i)"
      using pre i by auto
    have h: "block_holds codec i (bs ! i) (piece input i)" "sb_storage (bs ! i) = Storage_raw"
      "map_option sp_capacity (sb_payload (bs ! i)) = map_option sp_capacity (sb_payload (im_blocks ?im ! i))"
      using filled pre i by metis+
    then show "map_option (\<lambda>p. (length (sp_bytes p), sp_capacity p)) (sb_payload (bs ! i)) =
      map_option (\<lambda>p. (length (sp_bytes p), sp_capacity p)) (sb_payload (im_blocks ?im ! i))"
      using raw_payload [OF h(1,2)] x by fastforce
  qed
  have charge: "charge_image (?im\<lparr>im_blocks := bs, im_content_token := t\<rparr>) = Inr (?im\<lparr>im_blocks := bs, im_content_token := t\<rparr>)" for t
    using filled raw by (intro charge_image_cong [OF c] sum_payloads_cong [OF _ payload]) simp_all
  have im: "image_holds codec (pr_image ?q) input"
    using holds charge raw assms(2) combine_blocks_holds [of codec "?im\<lparr>im_blocks := bs\<rparr>" input]
    by (simp add: image_holds_def)
  have "prepared_blocks ?v bs"
    unfolding prepared_blocks_def
  proof (intro conjI allI impI)
    show "length bs = piece_count (unat ?v)" using filled n assms(2) by simp
    fix i assume i: "i < length bs"
    have h: "block_holds codec i (bs ! i) (piece input i)" "sb_storage (bs ! i) = Storage_raw"
      using filled pre i by metis+
    then show "sb_storage (bs ! i) = Storage_raw"
      "unat (sb_uncompressed_bytes (bs ! i)) = min block_size (unat ?v - i * block_size)"
      using assms(2) by (simp_all add: block_holds_def length_piece)
    show "\<exists>p. sb_payload (bs ! i) = Some p \<and> length (sp_bytes p) = unat (sb_uncompressed_bytes (bs ! i))"
      using raw_payload [OF h] h(1) by (auto simp: block_holds_def)
  qed
  then have "prepared_ok codec ?q"
    using assms(1) im image_bytes_holds [OF im] charge by (simp add: prepared_ok_def)
  then show ?thesis using run assms(3) image_bytes_holds [OF im] by auto
qed

end
