(* ===== verification/Host_Store_Steps.thy ===== *)
theory Host_Store_Steps
  imports Host_Image
begin

text \<open>
  The invariant of the host backing store, and what every operation does to it. \<open>store_ok\<close> says that the books of the budget
  balance, that the authoritative bytes are the charges of the chunks, and that every image holds its
  bytes; \<open>settles\<close> is the promise of an operation, and every operation has a lemma that it keeps it.
\<close>

section \<open>The budget of the chunks\<close>

definition charges :: "(chunk_key \<rightharpoonup> store_image) \<Rightarrow> nat" where
  "charges m = (\<Sum>k\<in>dom m. case m k of None \<Rightarrow> 0 | Some im \<Rightarrow> unat (im_budget_charge_bytes im))"

lemma charges_update:
  assumes "finite (dom m)"
  shows "charges (m(k \<mapsto> im)) + (case m k of None \<Rightarrow> 0 | Some old \<Rightarrow> unat (im_budget_charge_bytes old)) =
    charges m + unat (im_budget_charge_bytes im)"
proof -
  let ?f = "\<lambda>m k. case m k of None \<Rightarrow> 0 | Some im \<Rightarrow> unat (im_budget_charge_bytes im)"
  have rest: "(\<Sum>j\<in>dom m - {k}. ?f (m(k \<mapsto> im)) j) = (\<Sum>j\<in>dom m - {k}. ?f m j)" by (intro sum.cong) auto
  have "charges (m(k \<mapsto> im)) = unat (im_budget_charge_bytes im) + (\<Sum>j\<in>dom m - {k}. ?f m j)"
    using assms rest by (simp add: charges_def sum.insert_remove)
  moreover have "charges m = ?f m k + (\<Sum>j\<in>dom m - {k}. ?f m j)"
  proof (cases "k \<in> dom m")
    case True
    then show ?thesis using assms by (simp add: charges_def sum.remove)
  next
    case False
    then have "dom m - {k} = dom m" "?f m k = 0" by (auto simp: domIff)
    then show ?thesis by (simp add: charges_def)
  qed
  ultimately show ?thesis by simp
qed

lemma charges_remove:
  assumes "finite (dom m)" "m k = Some im"
  shows "charges (m(k := None)) + unat (im_budget_charge_bytes im) = charges m"
  using charges_update [of "m(k := None)" k im] assms by (simp add: fun_upd_idem)

definition authoritative :: "host_ledger \<Rightarrow> nat" where
  "authoritative l = unat (bn_authoritative_bytes (hl_counters l))"

lemma category_update_other [simp]:
  "c \<noteq> Cat_authoritative \<Longrightarrow> bn_authoritative_bytes (set_category_counter c x s) = bn_authoritative_bytes s"
  "bn_authoritative_bytes (set_category_peak_counter c x s) = bn_authoritative_bytes s"
  by (cases c; simp)+

lemma reserve_authoritative:
  "c \<noteq> Cat_authoritative \<Longrightarrow> authoritative (fst (ledger_reserve memory c b l)) = authoritative l"
  by (simp add: authoritative_def ledger_reserve_def Let_def)

lemma release_authoritative:
  assumes "ledger_ok l"
  shows "authoritative (fst (ledger_release r l)) = authoritative l"
proof (cases "rv_bytes r \<noteq> 0 \<and> rv_id r \<noteq> 0 \<and> hl_reservations l (rv_id r) = Some (rv_category r, rv_bytes r)")
  case True
  then have "rv_category r \<noteq> Cat_authoritative" using assms by (auto simp: ledger_ok_def held_apart_def)
  then show ?thesis using True by (simp add: authoritative_def ledger_release_def Let_def)
qed (simp add: release_refused)

lemma commit_authoritative:
  assumes "ledger_ok l" "ledger_commit_authoritative r p q l = (l', r', Bs_success)"
  shows "authoritative l' + unat p = authoritative l + unat q" "r' = no_reservation"
    "hl_reservations l' = hl_reservations (fst (ledger_release r l))"
proof -
  let ?s = "hl_counters l" and ?m = "hl_reservations l" and ?c = "rv_category r" and ?b = "rv_bytes r"
  note inv = assms(1) [unfolded ledger_ok_defs]
  have g: "?c = Cat_conversion_scratch \<or> ?c = Cat_spill" "q \<le> ?b" "p \<le> bn_authoritative_bytes ?s"
    "?b \<noteq> 0 \<Longrightarrow> rv_id r \<noteq> 0 \<and> ?m (rv_id r) = Some (?c, ?b)"
    and run: "l' = l\<lparr>hl_counters := commit_counters ?c ?b p q ?s, 
      hl_reservations := if ?b \<noteq> 0 then ?m(rv_id r := None) else ?m\<rparr>" "r' = no_reservation"
    using assms(2) by (auto simp: ledger_commit_authoritative_def Let_def split: if_splits)
  have "unat ?b \<le> unat (category_counter ?c ?s)"
    using reserved_remove [of ?m "rv_id r" "(?c, ?b)" ?c] inv g(1,4) by (cases "?b = 0") auto
  then have "unat (bn_authoritative_bytes ?s) + unat q \<le> unat (bn_total_bytes ?s)"
    using inv g(1,2) by (auto simp: word_le_nat_alt)
  then have "unat (bn_authoritative_bytes ?s - p + q) + unat p = unat (bn_authoritative_bytes ?s) + unat q"
    using g(3) unat_u64_bound [of "bn_total_bytes ?s"] by (simp add: unat_add_u64 unat_sub_u64 word_le_nat_alt)
  moreover have "bn_authoritative_bytes (commit_counters ?c ?b p q ?s) = bn_authoritative_bytes ?s - p + q"
    using g(1) by (auto simp: commit_counters_def Let_def)
  ultimately show "authoritative l' + unat p = authoritative l + unat q" by (simp add: authoritative_def run)
  show "r' = no_reservation" by (rule run(2))
  show "hl_reservations l' = hl_reservations (fst (ledger_release r l))"
    using g(4) by (simp add: run ledger_release_def Let_def)
qed

lemma commit_refused:
  "ledger_commit_authoritative r p q l = (l', r', st) \<Longrightarrow> st \<noteq> Bs_success \<Longrightarrow> l' = l \<and> r' = r"
  by (auto simp: ledger_commit_authoritative_def Let_def split: if_splits)

lemma release_no_reservation [simp]: "ledger_release no_reservation l = (l, no_reservation, Bs_success)"
  by (simp add: ledger_release_def no_reservation_def)

lemma release_twice:
  assumes "ledger_release r l = (l', r', st)"
  shows "fst (ledger_release r' l') = l'"
proof (cases "r' = no_reservation")
  case False
  then have "r' = r \<and> l' = l \<and> \<not> (rv_bytes r \<noteq> 0 \<and> rv_id r \<noteq> 0 \<and> hl_reservations l (rv_id r) = Some (rv_category r, rv_bytes r))"
    using assms by (auto simp: ledger_release_def Let_def split: if_splits option.splits)
  then show ?thesis using release_refused by blast
qed simp

lemma reserve_release:
  assumes "ledger_ok l" "c \<noteq> Cat_authoritative" "ledger_reserve memory c b l = (l', r, st)"
  shows "hl_reservations (fst (ledger_release r l')) = hl_reservations l" "st \<noteq> Bs_success \<Longrightarrow> hl_reservations l' = hl_reservations l"
    "st = Bs_success \<Longrightarrow> rv_category r = c \<and> rv_bytes r = b" "st \<noteq> Bs_success \<Longrightarrow> r = no_reservation"
proof -
  have fresh: "hl_next_id l \<noteq> 0 \<Longrightarrow> hl_reservations l (hl_next_id l) = None"
    using assms(1) by (cases "hl_reservations l (hl_next_id l)") (fastforce simp: ledger_ok_def held_apart_def)+
  show "hl_reservations (fst (ledger_release r l')) = hl_reservations l" "st \<noteq> Bs_success \<Longrightarrow> hl_reservations l' = hl_reservations l"
    "st = Bs_success \<Longrightarrow> rv_category r = c \<and> rv_bytes r = b" "st \<noteq> Bs_success \<Longrightarrow> r = no_reservation"
    using assms(3) fresh
    by (auto simp: ledger_reserve_def ledger_release_def Let_def no_reservation_def fun_upd_idem split: if_splits)
qed


section \<open>The invariant of the store\<close>

definition image_ok :: "block_codec \<Rightarrow> store_image \<Rightarrow> bool" where
  "image_ok codec im \<longleftrightarrow>
     (if im_representation im = Backing_invalid
      then im_budget_charge_bytes im = 0 \<and> im_stored_payload_bytes im = 0 \<and> im_content_token im = no_token
      else image_holds codec im (image_bytes codec im))"

definition store_ok :: "block_codec \<Rightarrow> host_store \<Rightarrow> bool" where
  "store_ok codec s \<longleftrightarrow>
     ledger_ok (hs_ledger s) \<and> finite (dom (hs_chunks s)) \<and> authoritative (hs_ledger s) = charges (hs_chunks s) \<and>
     (\<forall>k im. hs_chunks s k = Some im \<longrightarrow>
        image_ok codec im \<and> im_valid_bytes im \<noteq> 0 \<and> im_valid_bytes im \<le> hs_chunk_bytes s \<and>
        allocation_id_valid (ck_allocation_id k))"

lemma store_ok_chunk:
  assumes "store_ok codec s" "hs_chunks s k = Some im"
  shows "image_ok codec im" "im_valid_bytes im \<noteq> 0" "im_valid_bytes im \<le> hs_chunk_bytes s"
    "allocation_id_valid (ck_allocation_id k)"
  using assms by (auto simp: store_ok_def)

lemma image_holds_ok: "image_holds codec im bytes \<Longrightarrow> image_ok codec im"
  using image_bytes_holds [of codec im bytes] by (simp add: image_ok_def) (simp add: image_holds_def)

lemma image_ok_holds:
  "image_ok codec im \<Longrightarrow> im_representation im \<noteq> Backing_invalid \<Longrightarrow> image_holds codec im (image_bytes codec im)"
  by (simp add: image_ok_def)

lemma store_new_ok: "store_ok codec (host_store_new c cap)"
  using ledger_new_ok [of cap]
  by (simp add: store_ok_def host_store_new_def charges_def authoritative_def host_ledger_new_def Let_def)

lemma ledger_change_ok:
  assumes "store_ok codec s" "ledger_ok l" "authoritative l = authoritative (hs_ledger s)"
  shows "store_ok codec (s\<lparr>hs_ledger := l\<rparr>)"
  using assms by (simp add: store_ok_def)

lemma drop_reservation_ok:
  assumes "store_ok codec s" "drop_reservation r s = (s', r')"
  shows "store_ok codec s'" "hs_chunks s' = hs_chunks s"
    "hl_reservations (hs_ledger s') = hl_reservations (fst (ledger_release r (hs_ledger s)))" "end_guard r' s' = s'"
proof -
  obtain l st where l: "ledger_release r (hs_ledger s) = (l, r', st)" and s': "s' = s\<lparr>hs_ledger := l\<rparr>"
    using assms(2) by (auto simp: drop_reservation_def split: prod.splits)
  have ok: "ledger_ok (hs_ledger s)" using assms(1) by (simp add: store_ok_def)
  show "store_ok codec s'" unfolding s'
    using release_ok [OF ok, of r] release_authoritative [OF ok, of r] by (intro ledger_change_ok [OF assms(1)]) (simp_all add: l)
  show "hs_chunks s' = hs_chunks s" "hl_reservations (hs_ledger s') = hl_reservations (fst (ledger_release r (hs_ledger s)))"
    by (simp_all add: s' l)
  show "end_guard r' s' = s'"
    using release_twice [OF l] by (cases "ledger_release r' l") (simp add: end_guard_def drop_reservation_def s')
qed

lemma end_guard_ok:
  assumes "store_ok codec s"
  shows "store_ok codec (end_guard r s)" "hs_chunks (end_guard r s) = hs_chunks s"
    "hl_reservations (hs_ledger (end_guard r s)) = hl_reservations (fst (ledger_release r (hs_ledger s)))"
  using drop_reservation_ok(1-3) [OF assms, of r] by (cases "drop_reservation r s"; simp add: end_guard_def)+

lemma reserve_step_ok:
  assumes "store_ok codec s" "c \<noteq> Cat_authoritative" "ledger_reserve memory c b (hs_ledger s) = (l, r, st)"
  shows "store_ok codec (s\<lparr>hs_ledger := l\<rparr>)"
  using reserve_ok [of "hs_ledger s" c memory b] reserve_authoritative [of c memory b "hs_ledger s"] assms
  by (intro ledger_change_ok [OF assms(1)]) (simp_all add: store_ok_def)

text \<open>
  A commit exchanges the image of a chunk of the expected generation, or changes nothing; in both cases the
  reservation is given back, and the guard that still holds it has nothing left to release.
\<close>

lemma commit_reserved_ok:
  assumes "store_ok codec s" "image_ok codec im" "im_valid_bytes im \<noteq> 0"
    and "\<And>old. hs_chunks s key = Some old \<Longrightarrow> im_generation old = g \<Longrightarrow> im_valid_bytes im \<le> hs_chunk_bytes s"
    and "commit_reserved key g im r s = (s', r', result)"
  shows "store_ok codec s'"
    "hs_chunks s' = (if br_status result = Bk_success then (hs_chunks s)(key \<mapsto> im) else hs_chunks s)"
    "br_status result = Bk_success \<Longrightarrow> \<exists>old. hs_chunks s key = Some old \<and> im_generation old = g \<and> br_chunk result = image_info key im"
    "hl_reservations (hs_ledger s') = hl_reservations (fst (ledger_release r (hs_ledger s)))" "end_guard r' s' = s'"
proof -
  have "store_ok codec s' \<and> hs_chunks s' = (if br_status result = Bk_success then (hs_chunks s)(key \<mapsto> im) else hs_chunks s) \<and>
    (br_status result = Bk_success \<longrightarrow>
       (\<exists>old. hs_chunks s key = Some old \<and> im_generation old = g \<and> br_chunk result = image_info key im)) \<and>
    hl_reservations (hs_ledger s') = hl_reservations (fst (ledger_release r (hs_ledger s))) \<and> end_guard r' s' = s'"
    (is ?goal)
  proof -
    have dropped: ?goal if "drop_reservation r s = (s', r')" "br_status result \<noteq> Bk_success"
      using drop_reservation_ok [OF assms(1) that(1)] that(2) by simp
    show ?goal
    proof (cases "hs_chunks s key")
      case None
      then show ?thesis using assms(5) by (intro dropped) (auto simp: commit_reserved_def outcome_def split: prod.splits)
    next
      case (Some old)
      show ?thesis
      proof (cases "im_generation old = g")
        case False
        then show ?thesis using assms(5) Some
          by (intro dropped) (auto simp: commit_reserved_def outcome_def split: prod.splits)
      next
        case True
        obtain l r1 st where c: "ledger_commit_authoritative r (im_budget_charge_bytes old) (im_budget_charge_bytes im)
            (hs_ledger s) = (l, r1, st)" by (metis surj_pair)
        show ?thesis
        proof (cases "st = Bs_success")
          case False
          then show ?thesis using assms(5) Some True c
            by (intro dropped) (auto simp: commit_reserved_def outcome_def Let_def split: prod.splits)
        next
          case st: True
          have s': "s' = s\<lparr>hs_ledger := l, hs_chunks := (hs_chunks s)(key \<mapsto> im)\<rparr>" "r' = r1"
            "result = outcome Bk_success (image_info key im)"
            using assms(5) Some True c st by (simp_all add: commit_reserved_def)
          have ok: "ledger_ok (hs_ledger s)" using assms(1) by (simp add: store_ok_def)
          note committed = commit_authoritative [OF ok c [unfolded st]]
          have "ledger_ok l" using commit_ok [OF ok, of r "im_budget_charge_bytes old" "im_budget_charge_bytes im"] c by simp
          moreover have "authoritative l = charges ((hs_chunks s)(key \<mapsto> im))"
            using charges_update [of "hs_chunks s" key im] committed(1) assms(1) Some by (simp add: store_ok_def)
          ultimately have "store_ok codec s'"
            using assms(1-4) Some True by (auto simp: store_ok_def s')
          then show ?thesis
            using committed Some True
            by (simp add: s' outcome_def end_guard_def drop_reservation_def)
        qed
      qed
    qed
  qed
  then show "store_ok codec s'"
    "hs_chunks s' = (if br_status result = Bk_success then (hs_chunks s)(key \<mapsto> im) else hs_chunks s)"
    "br_status result = Bk_success \<Longrightarrow> \<exists>old. hs_chunks s key = Some old \<and> im_generation old = g \<and> br_chunk result = image_info key im"
    "hl_reservations (hs_ledger s') = hl_reservations (fst (ledger_release r (hs_ledger s)))" "end_guard r' s' = s'"
    by blast+
qed


text \<open>
  What every operation promises: the invariant, and the chunks it had unless it succeeds, with one image
  replaced by one that satisfies \<open>P\<close> if it does. \<open>held\<close> is the reservations it leaves.
\<close>

definition settles ::
    "block_codec \<Rightarrow> chunk_key \<Rightarrow> (store_image \<Rightarrow> bool) \<Rightarrow> (u64 \<rightharpoonup> budget_category \<times> u64) \<Rightarrow> host_store \<Rightarrow>
     host_store \<Rightarrow> backing_result \<Rightarrow> bool" where
  "settles codec key P held s s' result \<longleftrightarrow>
     store_ok codec s' \<and> hl_reservations (hs_ledger s') = held \<and>
     (if br_status result = Bk_success
      then \<exists>im. P im \<and> hs_chunks s' = (hs_chunks s)(key \<mapsto> im) \<and> br_chunk result = image_info key im
      else hs_chunks s' = hs_chunks s)"

lemma settles_failed:
  "store_ok codec s \<Longrightarrow> hl_reservations (hs_ledger s) = held \<Longrightarrow> st \<noteq> Bk_success \<Longrightarrow> settles codec key P held s s (outcome st c)"
  by (simp add: settles_def outcome_def)

lemma settles_unchanged:
  "store_ok codec s \<Longrightarrow> hl_reservations (hs_ledger s) = held \<Longrightarrow> hs_chunks s key = Some im \<Longrightarrow> P im \<Longrightarrow>
   settles codec key P held s s (outcome Bk_success (image_info key im))"
  by (auto simp: settles_def outcome_def fun_upd_idem)

definition replaces :: "block_codec \<Rightarrow> host_store \<Rightarrow> chunk_key \<Rightarrow> u64 \<Rightarrow> store_image \<Rightarrow> bool" where
  "replaces codec s key g im \<longleftrightarrow> image_ok codec im \<and> im_valid_bytes im \<noteq> 0 \<and>
     (\<forall>old. hs_chunks s key = Some old \<longrightarrow> im_generation old = g \<longrightarrow> im_valid_bytes im \<le> hs_chunk_bytes s)"

lemma commit_reserved_settles:
  assumes "store_ok codec s" "replaces codec s key g im" "commit_reserved key g im r s = (s', r', result)"
  shows "settles codec key (\<lambda>i. i = im) (hl_reservations (fst (ledger_release r (hs_ledger s)))) s s' result"
    "end_guard r' s' = s'"
  using commit_reserved_ok [OF assms(1) _ _ _ assms(3)] assms(2)
  by (auto simp: settles_def replaces_def)

lemma commit_existing_settles:
  assumes "store_ok codec s" "replaces codec s key g im" "commit_existing memory key g im (Some r) s = (s', r', result)"
  shows "settles codec key (\<lambda>i. i = im) (hl_reservations (fst (ledger_release r (hs_ledger s)))) s s' result"
    "end_guard r' s' = s'"
proof -
  have "settles codec key (\<lambda>i. i = im) (hl_reservations (fst (ledger_release r (hs_ledger s)))) s s' result \<and>
      end_guard r' s' = s'"
  proof (cases "(rv_category r \<noteq> Cat_conversion_scratch \<and> rv_category r \<noteq> Cat_spill) \<or> rv_bytes r < im_budget_charge_bytes im")
    case True
    then have "drop_reservation r s = (s', r')" "result = outcome Bk_internal_failure no_chunk"
      using assms(3) by (auto simp: commit_existing_def split: prod.splits)
    then show ?thesis using drop_reservation_ok [OF assms(1)] by (simp add: settles_def outcome_def)
  next
    case False
    then have "commit_reserved key g im r s = (s', r', result)"
      using assms(3) by (simp add: commit_existing_def split: if_splits)
    then show ?thesis using commit_reserved_settles [OF assms(1,2)] by blast
  qed
  then show "settles codec key (\<lambda>i. i = im) (hl_reservations (fst (ledger_release r (hs_ledger s)))) s s' result"
    "end_guard r' s' = s'" by blast+
qed

lemma reserve_failure_fails [simp]: "reserve_failure st \<noteq> Bk_success"
  by (simp add: reserve_failure_def)

lemma replaces_ledger [simp]: "replaces codec (s\<lparr>hs_ledger := l\<rparr>) key g im = replaces codec s key g im"
  by (simp add: replaces_def)

lemma settles_ledger:
  "settles codec key P held (s\<lparr>hs_ledger := l\<rparr>) s' result = settles codec key P held s s' result"
  by (simp add: settles_def)

lemma settles_mono: "settles codec key P held s s' result \<Longrightarrow> (\<And>im. P im \<Longrightarrow> Q im) \<Longrightarrow> settles codec key Q held s s' result"
  by (auto simp: settles_def split: if_splits)

lemma commit_fresh_settles:
  assumes "store_ok codec s" "replaces codec s key g im" "commit_existing memory key g im None s = (s', r', result)"
  shows "settles codec key (\<lambda>i. i = im) (hl_reservations (hs_ledger s)) s s' result"
proof -
  obtain l r st where r: "ledger_reserve (memory At_ledger_node) Cat_conversion_scratch (im_budget_charge_bytes im) (hs_ledger s) =
      (l, r, st)" by (metis surj_pair)
  have l: "ledger_ok (hs_ledger s)" using assms(1) by (simp add: store_ok_def)
  have ok: "store_ok codec (s\<lparr>hs_ledger := l\<rparr>)" by (rule reserve_step_ok [OF assms(1) _ r]) simp
  show ?thesis
  proof (cases "st = Bs_success")
    case True
    then have "commit_reserved key g im r (s\<lparr>hs_ledger := l\<rparr>) = (s', r', result)"
      using assms(3) r by (simp add: commit_existing_def)
    from commit_reserved_settles(1) [OF ok _ this] show ?thesis
      using assms(2) reserve_release(1) [OF l _ r] by (simp add: settles_ledger)
  next
    case False
    then have "s' = s\<lparr>hs_ledger := l\<rparr>" "br_status result \<noteq> Bk_success"
      using assms(3) r by (auto simp: commit_existing_def outcome_def)
    then show ?thesis using ok False reserve_release(2) [OF l _ r] by (simp add: settles_def)
  qed
qed

text \<open>A guard: reserve, build, commit, and release what is left.\<close>

lemma guarded_settles:
  assumes "store_ok codec s" "\<And>im. built = Inr im \<Longrightarrow> replaces codec s key g im \<and> P im"
    and "\<And>st. built = Inl st \<Longrightarrow> st \<noteq> Bk_success"
    and "guarded memory key g current r built s = (s', result)"
  shows "settles codec key P (hl_reservations (fst (ledger_release r (hs_ledger s)))) s s' result"
proof (cases built)
  case (Inl st)
  then show ?thesis
    using assms(3,4) end_guard_ok [OF assms(1), of r] by (auto simp: guarded_def settles_def outcome_def)
next
  case (Inr im)
  obtain s1 r1 where c: "commit_existing memory key g im (Some r) s = (s1, r1, result)" and s': "s' = end_guard r1 s1"
    using assms(4) Inr by (auto simp: guarded_def split: prod.splits)
  note commit_existing_settles [OF assms(1) _ c]
  then show ?thesis
    using assms(2) [OF Inr] s' by (auto intro: settles_mono)
qed

lemma reserved_guard_settles:
  assumes "store_ok codec s" "\<And>im. built = Inr im \<Longrightarrow> replaces codec s key g im \<and> P im"
    and "\<And>st. built = Inl st \<Longrightarrow> st \<noteq> Bk_success"
    and "reserve_candidate memory v s = (s1, r, granted)"
    and "(if granted \<noteq> Bk_success then (end_guard r s1, outcome granted current)
          else guarded memory key g current r built s1) = (s', result)"
  shows "settles codec key P (hl_reservations (hs_ledger s)) s s' result"
proof (cases "maximum_image_charge v")
  case (Inl st)
  then have g: "granted = Bk_range_overflow" "s1 = s" "r = no_reservation"
    using assms(4) by (auto simp: reserve_candidate_def maximum_image_charge_def split: option.splits)
  then have "s' = s" "result = outcome granted current"
    using assms(5) by (simp_all add: end_guard_def drop_reservation_def)
  then show ?thesis using assms(1) g by (simp add: settles_failed)
next
  case (Inr amount)
  obtain l st where r: "ledger_reserve (memory At_ledger_node) Cat_conversion_scratch amount (hs_ledger s) = (l, r, st)"
    and s1: "s1 = s\<lparr>hs_ledger := l\<rparr>" and granted: "granted = (if st = Bs_success then Bk_success else reserve_failure st)"
    using assms(4) Inr by (auto simp: reserve_candidate_def split: prod.splits)
  have l: "ledger_ok (hs_ledger s)" using assms(1) by (simp add: store_ok_def)
  have ok: "store_ok codec s1" unfolding s1 by (rule reserve_step_ok [OF assms(1) _ r]) simp
  show ?thesis
  proof (cases "st = Bs_success")
    case True
    then have "guarded memory key g current r built s1 = (s', result)" using assms(5) granted by simp
    from guarded_settles [OF ok _ assms(3) this, of P] show ?thesis
      using assms(2) reserve_release(1) [OF l _ r] unfolding s1 by (simp add: settles_ledger)
  next
    case False
    then have "s' = end_guard r s1" "br_status result \<noteq> Bk_success"
      using assms(5) granted by (auto simp: outcome_def reserve_failure_def split: if_splits)
    then show ?thesis using end_guard_ok [OF ok, of r] reserve_release(1) [OF l _ r] s1 by (simp add: settles_def)
  qed
qed


section \<open>The abstract store\<close>

record chunk_view =
  cv_representation :: backing_representation
  cv_valid_bytes :: u64
  cv_generation :: u64
  cv_contents :: "u8 list option"

definition image_view :: "block_codec \<Rightarrow> store_image \<Rightarrow> chunk_view" where
  "image_view codec im =
     \<lparr>cv_representation = im_representation im, cv_valid_bytes = im_valid_bytes im, cv_generation = im_generation im,
      cv_contents = (if im_representation im = Backing_invalid then None else Some (image_bytes codec im))\<rparr>"

definition store_view :: "block_codec \<Rightarrow> host_store \<Rightarrow> chunk_key \<rightharpoonup> chunk_view" where
  "store_view codec s = (\<lambda>k. map_option (image_view codec) (hs_chunks s k))"

lemma held_view:
  assumes "image_holds codec im bytes"
  shows "image_view codec im = \<lparr>cv_representation = im_representation im, cv_valid_bytes = im_valid_bytes im,
    cv_generation = im_generation im, cv_contents = Some bytes\<rparr>"
  using assms image_bytes_holds [OF assms] by (simp add: image_view_def image_holds_def)

lemma for_blocks_Inl: "for_blocks f is = Inl e \<Longrightarrow> \<exists>i. f i = Inl e"
  by (induction "is") (auto split: sum.splits)

lemma seal_image_Inl: "seal_image im = Inl st \<Longrightarrow> st \<noteq> Bk_success"
  by (auto simp: seal_image_def charge_image_def split: if_splits option.splits)

lemma make_raw_block_Inl: "make_raw_block memory b i = Inl st \<Longrightarrow> st \<noteq> Bk_success"
  by (auto simp: make_raw_block_def split: if_splits)

lemma make_encoded_block_Inl: "make_encoded_block memory b i codec = Inl st \<Longrightarrow> st \<noteq> Bk_success"
  by (auto simp: make_encoded_block_def make_raw_block_def split: if_splits option.splits prod.splits)

lemma make_image_Inl:
  "make_zero_image memory v g = Inl st \<Longrightarrow> st \<noteq> Bk_success"
  "make_raw_zero_image memory v g = Inl st \<Longrightarrow> st \<noteq> Bk_success"
  "make_invalid_image memory v g = Inl st \<Longrightarrow> st \<noteq> Bk_success"
  "make_raw_image memory input g = Inl st \<Longrightarrow> st \<noteq> Bk_success"
  by (auto simp: make_zero_image_def make_raw_zero_image_def make_invalid_image_def make_raw_image_def Let_def
      dest!: for_blocks_Inl make_raw_block_Inl seal_image_Inl split: if_splits sum.splits)

lemma write_blocks_Inl:
  "write_blocks memory codec raw off input is bs s = Inl st \<Longrightarrow> st \<noteq> Bk_success"
proof (induction "is" arbitrary: bs s)
  case (Cons i "is")
  show ?case
  proof (cases "decode_block codec (bs ! i) (unat (sb_uncompressed_bytes (bs ! i)))")
    case (Inl e)
    then show ?thesis using Cons.prems by (auto simp: Let_def)
  next
    case (Inr d)
    then show ?thesis
      using Cons make_raw_block_Inl make_encoded_block_Inl
      by (auto simp: Let_def split: if_splits sum.splits)
  qed
qed simp

lemma derived_image_Inl:
  "written_image memory codec previous g off input = Inl st \<Longrightarrow> st \<noteq> Bk_success"
  "materialized_image memory codec previous g = Inl st \<Longrightarrow> st \<noteq> Bk_success"
  "compressed_image memory codec previous g = Inl st \<Longrightarrow> st \<noteq> Bk_success"
  "adopted_image memory codec candidate = Inl st \<Longrightarrow> st \<noteq> Bk_success"
proof -
  show "written_image memory codec previous g off input = Inl st \<Longrightarrow> st \<noteq> Bk_success"
    using write_blocks_Inl seal_image_Inl
    by (fastforce simp: written_image_def Let_def split: if_splits sum.splits prod.splits)
  show "materialized_image memory codec previous g = Inl st \<Longrightarrow> st \<noteq> Bk_success"
    by (auto simp: materialized_image_def Let_def dest!: for_blocks_Inl make_raw_block_Inl seal_image_Inl
        split: if_splits sum.splits)
  show "compressed_image memory codec previous g = Inl st \<Longrightarrow> st \<noteq> Bk_success"
    by (auto simp: compressed_image_def Let_def dest!: for_blocks_Inl make_encoded_block_Inl seal_image_Inl
        split: if_splits sum.splits)
  show "adopted_image memory codec candidate = Inl st \<Longrightarrow> st \<noteq> Bk_success"
    by (auto simp: adopted_image_def adopt_block_def Let_def charge_image_def dest!: for_blocks_Inl
        split: if_splits sum.splits option.splits)
qed

lemma seal_image_fields:
  assumes "seal_image ((blank_image rep v g)\<lparr>im_blocks := bs\<rparr>) = Inr im"
  shows "im_representation im = rep \<and> im_valid_bytes im = v \<and> im_generation im = g"
  using charge_image_fixed [OF assms [unfolded seal_image_def]] by (simp add: blank_image_def)

lemma made_image_fields:
  "make_zero_image memory v g = Inr im \<Longrightarrow> im_representation im = Backing_implicit_zero \<and> im_valid_bytes im = v \<and> im_generation im = g"
  "make_raw_zero_image memory v g = Inr im \<Longrightarrow> im_representation im = Backing_raw \<and> im_valid_bytes im = v \<and> im_generation im = g"
  "make_raw_image memory input g = Inr im \<Longrightarrow>
     im_representation im = Backing_raw \<and> im_valid_bytes im = of_nat (length input) \<and> im_generation im = g"
  by (auto simp: make_zero_image_def make_raw_zero_image_def make_raw_image_def Let_def
      dest!: seal_image_fields split: if_splits sum.splits)

lemma invalid_image_ok:
  assumes "make_invalid_image memory v g = Inr im"
  shows "image_ok codec im" "image_view codec im =
    \<lparr>cv_representation = Backing_invalid, cv_valid_bytes = v, cv_generation = g, cv_contents = None\<rparr>" "im_valid_bytes im = v"
  using assms by (auto simp: make_invalid_image_def image_ok_def image_view_def blank_image_def split: if_splits)


section \<open>The operations\<close>

lemma next_generation_Inr: "next_generation g = Inr h \<Longrightarrow> h = g + 1"
  by (simp add: next_generation_def split: if_splits)

lemma next_generation_Inl: "next_generation g = Inl st \<Longrightarrow> st \<noteq> Bk_success"
  by (auto simp: next_generation_def split: if_splits)

lemma replaces_held:
  assumes "store_ok codec s" "hs_chunks s key = Some old" "image_ok codec im" "im_valid_bytes im = im_valid_bytes old"
  shows "replaces codec s key g im"
  using assms store_ok_chunk [OF assms(1,2)] by (simp add: replaces_def)

lemma register_settles:
  assumes "store_ok codec s" "register_chunk memory codec key v rep s = (s', result)"
  shows "settles codec key (\<lambda>im. image_view codec im = \<lparr>cv_representation = rep, cv_valid_bytes = v, cv_generation = 1,
      cv_contents = (if rep = Backing_invalid then None else Some (replicate (unat v) 0))\<rparr>)
    (hl_reservations (hs_ledger s)) s s' result"
    (is "settles codec key ?P ?held s s' result")
proof (cases "\<not> configured codec s \<or> \<not> allocation_id_valid (ck_allocation_id key) \<or> v = 0 \<or> v > hs_chunk_bytes s \<or>
    rep = Backing_lz4_blocks")
  case True
  then show ?thesis using assms by (auto simp: register_chunk_def intro!: settles_failed split: if_splits)
next
  case False
  define built where "built = (if rep = Backing_invalid then make_invalid_image (memory At_image) v 1
              else if rep = Backing_raw then make_raw_zero_image (memory At_image) v 1
              else make_zero_image (memory At_image) v 1)"
  show ?thesis
  proof (cases built)
    case (Inl st)
    then have "s' = s" "result = outcome st no_chunk"
      using assms(2) False by (simp_all add: register_chunk_def flip: built_def)
    moreover have "st \<noteq> Bk_success" using Inl make_image_Inl by (auto simp: built_def split: if_splits)
    ultimately show ?thesis using settles_failed [OF assms(1) refl] by simp
  next
    case (Inr im)
    have im: "image_ok codec im" "?P im" "im_valid_bytes im = v"
    proof -
      have "image_ok codec im \<and> ?P im \<and> im_valid_bytes im = v"
      proof (cases "rep = Backing_invalid")
        case True
        then show ?thesis using Inr invalid_image_ok by (simp add: built_def)
      next
        case rep: False
        then have "image_holds codec im (replicate (unat v) 0)"
          using Inr make_raw_zero_image_holds make_zero_image_holds by (auto simp: built_def split: if_splits)
        moreover have "im_representation im = rep \<and> im_valid_bytes im = v \<and> im_generation im = 1"
          using Inr rep False made_image_fields by (cases rep) (auto simp: built_def)
        ultimately show ?thesis using image_holds_ok held_view rep by simp
      qed
      then show "image_ok codec im" "?P im" "im_valid_bytes im = v" by blast+
    qed
    obtain l r st where r: "ledger_reserve (memory At_ledger_node) Cat_conversion_scratch (im_budget_charge_bytes im) (hs_ledger s) =
        (l, r, st)" by (metis surj_pair)
    have l: "ledger_ok (hs_ledger s)" using assms(1) by (simp add: store_ok_def)
    let ?s = "s\<lparr>hs_ledger := l\<rparr>"
    have ok: "store_ok codec ?s" by (rule reserve_step_ok [OF assms(1) _ r]) simp
    have held: "hl_reservations (fst (ledger_release r l)) = ?held" by (rule reserve_release(1) [OF l _ r]) simp
    have run: "register_chunk memory codec key v rep s =
       (if st \<noteq> Bs_success then (?s, outcome (reserve_failure st) no_chunk)
                    else if hs_chunks s key \<noteq> None
                    then (end_guard r ?s, outcome Bk_duplicate_chunk no_chunk)
                    else if \<not> memory At_map_node
                    then (end_guard r ?s, outcome Bk_allocation_failure no_chunk)
                    else
                      case ledger_commit_authoritative r 0 (im_budget_charge_bytes im) l of
                        (l', r', committed) \<Rightarrow>
                          if committed \<noteq> Bs_success
                          then (end_guard r' ?s, outcome Bk_internal_failure no_chunk)
                          else (?s\<lparr>hs_ledger := l', hs_chunks := (hs_chunks s)(key \<mapsto> im)\<rparr>,
                                outcome Bk_success (image_info key im)))"
      unfolding register_chunk_def built_def [symmetric] using False Inr r
      by (auto simp: Let_def dest!: commit_refused split: prod.splits)
    have dropped: "settles codec key ?P ?held s (end_guard r ?s) (outcome e no_chunk)" if "e \<noteq> Bk_success" for e
      using end_guard_ok [OF ok, of r] held that by (simp add: settles_def outcome_def)
    show ?thesis
    proof (cases "st = Bs_success \<and> hs_chunks s key = None \<and> memory At_map_node")
      case False
      then show ?thesis
        using assms(2) dropped ok reserve_release(2) [OF l _ r] unfolding run
        by (auto simp: settles_def outcome_def split: if_splits)
    next
      case True
      obtain l' r' committed where c: "ledger_commit_authoritative r 0 (im_budget_charge_bytes im) l = (l', r', committed)"
        by (metis surj_pair)
      have lok: "ledger_ok l" using ok by (simp add: store_ok_def)
      show ?thesis
      proof (cases "committed = Bs_success")
        case committed: False
        have "r' = r" using commit_refused [OF c committed] by simp
        then show ?thesis using assms(2) True c committed dropped unfolding run by auto
      next
        case committed: True
        then have s': "s' = ?s\<lparr>hs_ledger := l', hs_chunks := (hs_chunks s)(key \<mapsto> im)\<rparr>" "result = outcome Bk_success (image_info key im)"
          using assms(2) True c unfolding run by auto
        note committed_facts = commit_authoritative [OF lok c [unfolded committed]]
        have "ledger_ok l'" using commit_ok [OF lok, of r 0 "im_budget_charge_bytes im"] c by simp
        moreover have "authoritative l' = charges ((hs_chunks s)(key \<mapsto> im))"
          using charges_update [of "hs_chunks s" key im] committed_facts(1) ok True by (simp add: store_ok_def)
        ultimately have "store_ok codec s'" using ok im False by (auto simp: store_ok_def s')
        then show ?thesis using committed_facts held im by (auto simp: settles_def s' outcome_def)
      qed
    qed
  qed
qed

lemma erase_settles:
  assumes "store_ok codec s" "erase_chunk key g s = (s', result)"
  shows "store_ok codec s' \<and> hl_reservations (hs_ledger s') = hl_reservations (hs_ledger s) \<and>
    hs_chunks s' = (if br_status result = Bk_success then (hs_chunks s)(key := None) else hs_chunks s) \<and>
    (br_status result = Bk_success \<longrightarrow> (\<exists>old. hs_chunks s key = Some old \<and> im_generation old = g))"
proof (cases "\<exists>old. hs_chunks s key = Some old \<and> im_generation old = g")
  case False
  then show ?thesis using assms by (auto simp: erase_chunk_def outcome_def image_info_def Let_def split: option.splits)
next
  case True
  then obtain old where old: "hs_chunks s key = Some old" "im_generation old = g" by blast
  let ?b = "im_budget_charge_bytes old" and ?l = "hs_ledger s"
  obtain l st where r: "ledger_release_authoritative ?b ?l = (l, st)" by (metis surj_pair)
  have lok: "ledger_ok ?l" using assms(1) by (simp add: store_ok_def)
  have l: "ledger_ok l" using release_authoritative_ok [OF lok, of ?b] r by simp
  show ?thesis
  proof (cases "st = Bs_success")
    case False
    then have "l = ?l" using r by (auto simp: ledger_release_authoritative_def Let_def split: if_splits)
    then show ?thesis using assms old r False by (auto simp: erase_chunk_def image_info_def outcome_def)
  next
    case st: True
    have s': "s' = s\<lparr>hs_ledger := l, hs_chunks := (hs_chunks s)(key := None)\<rparr>" "br_status result = Bk_success"
      using assms(2) old r st by (auto simp: erase_chunk_def image_info_def outcome_def)
    have "hl_reservations l = hl_reservations ?l \<and> authoritative l + unat ?b = authoritative ?l"
      using r st by (auto simp: ledger_release_authoritative_def authoritative_def Let_def unat_sub_u64 word_less_nat_alt
          split: if_splits)
    then show ?thesis
      using assms(1) l charges_remove [of "hs_chunks s" key old] old s' by (auto simp: store_ok_def)
  qed
qed


text \<open>What \<open>im\<close> holds, seen from outside.\<close>

abbreviation shows_view :: "block_codec \<Rightarrow> backing_representation \<Rightarrow> u64 \<Rightarrow> u64 \<Rightarrow> u8 list \<Rightarrow> store_image \<Rightarrow> bool" where
  "shows_view codec rep v g bytes im \<equiv> image_view codec im =
     \<lparr>cv_representation = rep, cv_valid_bytes = v, cv_generation = g, cv_contents = Some bytes\<rparr>"

lemma built_replaces:
  assumes "store_ok codec s" "hs_chunks s key = Some old"
    and "image_holds codec im bytes" "im_valid_bytes im = im_valid_bytes old" "im_generation im = g" "im_representation im = rep"
  shows "replaces codec s key h im \<and> shows_view codec rep (im_valid_bytes old) g bytes im"
  using replaces_held [OF assms(1,2) image_holds_ok [OF assms(3)]] held_view [OF assms(3)] assms(4-6) by simp

text \<open>
  The ledgers whose reservations an operation may leave. One that was given a reservation uses it up when it succeeds; when
  it fails it has given the reservation back, or has not touched it.
\<close>

definition ledgers_left :: "budget_reservation option \<Rightarrow> bool \<Rightarrow> host_store \<Rightarrow> host_ledger set" where
  "ledgers_left candidate success s = (case candidate of
     None \<Rightarrow> {hs_ledger s}
   | Some r \<Rightarrow> if success then {fst (ledger_release r (hs_ledger s))}
       else {hs_ledger s, fst (ledger_release r (hs_ledger s))})"

definition left_over :: "host_store \<Rightarrow> budget_reservation option \<Rightarrow> backing_result \<Rightarrow> (u64 \<rightharpoonup> budget_category \<times> u64) set" where
  "left_over s candidate result = hl_reservations ` ledgers_left candidate (br_status result = Bk_success) s"

lemma left_over_self: "candidate = None \<or> br_status result \<noteq> Bk_success \<Longrightarrow> hl_reservations (hs_ledger s) \<in> left_over s candidate result"
  by (auto simp: left_over_def ledgers_left_def split: option.splits)

lemma left_over_failed [simp]: "st \<noteq> Bk_success \<Longrightarrow> hl_reservations (hs_ledger s) \<in> left_over s candidate (outcome st c)"
  by (rule left_over_self) (simp add: outcome_def)

lemma left_over_given: "hl_reservations (fst (ledger_release r (hs_ledger s))) \<in> left_over s (Some r) result"
  by (simp add: left_over_def ledgers_left_def)

lemma left_over_none [simp]: "left_over s None result = {hl_reservations (hs_ledger s)}"
  by (simp add: left_over_def ledgers_left_def)

lemma replace_settles:
  assumes "store_ok codec s" "replace_raw memory key g input candidate s = (s', candidate', result)"
  shows "\<exists>held\<in>left_over s candidate result. settles codec key
    (\<lambda>im. \<exists>old. hs_chunks s key = Some old \<and> im_generation old = g \<and> length input = unat (im_valid_bytes old) \<and>
       shows_view codec Backing_raw (im_valid_bytes old) (g + 1) input im) held s s' result"
    (is "\<exists>held\<in>_. settles codec key ?P held s s' result")
proof -
  have early: ?thesis if "s' = s" "\<exists>st c. result = outcome st c \<and> st \<noteq> Bk_success"
    using that by (auto intro!: settles_failed assms(1) bexI [OF _ left_over_failed])
  show ?thesis
  proof (cases "hs_chunks s key")
    case None
    then show ?thesis using assms(2) by (intro early) (auto simp: replace_raw_def)
  next
    case (Some old)
    consider (bad) "im_generation old \<noteq> g \<or> length input \<noteq> unat (im_valid_bytes old) \<or> (\<exists>st. next_generation g = Inl st)"
      | (go) h where "im_generation old = g" "length input = unat (im_valid_bytes old)" "next_generation g = Inr h"
      by (cases "next_generation g") auto
    then show ?thesis
    proof cases
      case bad
      then show ?thesis using assms(2) Some
        by (intro early) (auto simp: replace_raw_def Let_def dest: next_generation_Inl split: if_splits sum.splits)
    next
      case go
      have h: "h = g + 1" by (rule next_generation_Inr [OF go(3)])
      have built: "replaces codec s key g im \<and> ?P im" if "make_raw_image (memory At_image) input h = Inr im" for im
      proof -
        have "length input < 18446744073709551616" using go(2) unat_u64_bound by simp
        then have "image_holds codec im input" by (rule make_raw_image_holds [OF that])
        then show ?thesis
          using built_replaces [OF assms(1) Some, of im input h Backing_raw g] made_image_fields(3) [OF that] go h Some by simp
      qed
      show ?thesis
      proof (cases candidate)
        case None
        obtain s1 r granted where r: "reserve_candidate memory (im_valid_bytes old) s = (s1, r, granted)" by (metis surj_pair)
        have "(if granted \<noteq> Bk_success then (end_guard r s1, outcome granted (image_info key old))
          else guarded memory key g (image_info key old) r (make_raw_image (memory At_image) input h) s1) = (s', result)"
          using assms(2) Some None go r by (auto simp: replace_raw_def guarded_def split: if_splits sum.splits prod.splits)
        from reserved_guard_settles [OF assms(1) built _ r this] show ?thesis
          using None by (auto dest: make_image_Inl)
      next
        case cand: (Some r)
        show ?thesis
        proof (cases "make_raw_image (memory At_image) input h")
          case (Inl st)
          then show ?thesis using assms(2) Some cand go make_image_Inl(4) [OF Inl] by (intro early) (auto simp: replace_raw_def)
        next
          case (Inr im)
          obtain r' where "commit_existing memory key g im (Some r) s = (s', r', result)"
            using assms(2) Some cand go Inr by (auto simp: replace_raw_def split: prod.splits)
          from commit_existing_settles(1) [OF assms(1) _ this] show ?thesis
            using built [OF Inr] left_over_given [of r s result] unfolding cand by (blast intro: settles_mono)
        qed
      qed
    qed
  qed
qed

lemma write_settles:
  assumes "codec_lossless codec" "store_ok codec s" "length input < 18446744073709551616"
    and "write_chunk memory codec key g off input s = (s', result)"
  shows "settles codec key
    (\<lambda>im. \<exists>old. hs_chunks s key = Some old \<and> im_generation old = g \<and> im_representation old \<noteq> Backing_invalid \<and>
       unat off + length input \<le> unat (im_valid_bytes old) \<and>
       (if input = [] then im = old
        else shows_view codec (if unat off = 0 \<and> length input = unat (im_valid_bytes old) \<or> im_representation old = Backing_raw
              then Backing_raw else Backing_lz4_blocks) (im_valid_bytes old) (g + 1)
            (splice (image_bytes codec old) (unat off) input) im))
    (hl_reservations (hs_ledger s)) s s' result"
    (is "settles codec key ?P ?held s s' result")
proof -
  have early: ?thesis if "s' = s" "\<exists>st c. result = outcome st c \<and> st \<noteq> Bk_success"
    using that by (auto intro!: settles_failed assms(2))
  show ?thesis
  proof (cases "hs_chunks s key")
    case None
    then show ?thesis using assms(4) by (intro early) (auto simp: write_chunk_def)
  next
    case (Some old)
    let ?v = "im_valid_bytes old" and ?len = "of_nat (length input) :: u64"
    consider (bad) "im_generation old \<noteq> g \<or> im_representation old = Backing_invalid \<or> \<not> range_fits off ?len ?v"
      | (go) "im_generation old = g" "im_representation old \<noteq> Backing_invalid" "range_fits off ?len ?v" by blast
    then show ?thesis
    proof cases
      case bad
      then show ?thesis using assms(4) Some
        by (intro early) (auto simp: write_chunk_def Let_def split: if_splits)
    next
      case go
      have range: "unat off + length input \<le> unat ?v"
        using go(3) assms(3) by (auto simp: range_fits_def word_le_nat_alt unat_sub_u64 unat_of_nat_u64)
      have old: "image_holds codec old (image_bytes codec old)"
        by (rule image_ok_holds [OF store_ok_chunk(1) [OF assms(2) Some] go(2)])
      note len = image_holds_parts(1) [OF old]
      consider (empty) "input = []" | (whole) "input \<noteq> []" "off = 0" "length input = unat ?v"
        | (part) "input \<noteq> []" "\<not> (off = 0 \<and> length input = unat ?v)" by blast
      then show ?thesis
      proof cases
        case empty
        then have "s' = s" "result = outcome Bk_success (image_info key old)"
          using assms(4) Some go by (simp_all add: write_chunk_def)
        then show ?thesis using settles_unchanged [OF assms(2) refl Some, of ?P] Some go range empty by simp
      next
        case whole
        obtain c where "replace_raw memory key g input None s = (s', c, result)"
          using assms(4) Some go whole by (auto simp: write_chunk_def split: prod.splits)
        from replace_settles [OF assms(2) this] show ?thesis
          using Some go whole range len by (auto simp: splice_def elim!: settles_mono)
      next
        case part
        show ?thesis
        proof (cases "next_generation g")
          case (Inl st)
          then show ?thesis using assms(4) Some go part next_generation_Inl [OF Inl]
            by (intro early) (auto simp: write_chunk_def Let_def split: if_splits)
        next
          case (Inr h)
          obtain s1 r granted where r: "reserve_candidate memory ?v s = (s1, r, granted)" by (metis surj_pair)
          have run: "(if granted \<noteq> Bk_success then (end_guard r s1, outcome granted (image_info key old))
            else guarded memory key g (image_info key old) r
              (written_image (memory At_image) codec old h (unat off) input) s1) = (s', result)"
            using assms(4) Some go part r Inr by (auto simp: write_chunk_def Let_def split: if_splits)
          have built: "replaces codec s key g im \<and> ?P im"
            if w: "written_image (memory At_image) codec old h (unat off) input = Inr im" for im
          proof -
            have fits: "unat off + length input \<le> length (image_bytes codec old)" using range len by simp
            note wi = written_image_holds [OF assms(1) old fits part(1) w]
            have "\<not> (unat off = 0 \<and> length input = unat ?v)" using part(2) by (simp add: unat_eq_0)
            then show ?thesis
              using built_replaces [OF assms(2) Some wi] Some go range part(1) next_generation_Inr [OF Inr] by auto
          qed
          show ?thesis by (rule reserved_guard_settles [OF assms(2) built derived_image_Inl(1) r run])
        qed
      qed
    qed
  qed
qed


lemma set_zero_settles:
  assumes "store_ok codec s" "set_implicit_zero memory key g s = (s', result)"
  shows "settles codec key
    (\<lambda>im. \<exists>old. hs_chunks s key = Some old \<and> im_generation old = g \<and>
       shows_view codec Backing_implicit_zero (im_valid_bytes old) (g + 1) (replicate (unat (im_valid_bytes old)) 0) im)
    (hl_reservations (hs_ledger s)) s s' result"
    (is "settles codec key ?P ?held s s' result")
proof -
  have early: ?thesis if "s' = s" "\<exists>st c. result = outcome st c \<and> st \<noteq> Bk_success"
    using that by (auto intro!: settles_failed assms(1))
  show ?thesis
  proof (cases "hs_chunks s key")
    case None
    then show ?thesis using assms(2) by (intro early) (auto simp: set_implicit_zero_def)
  next
    case (Some old)
    let ?v = "im_valid_bytes old"
    define metadata where "metadata = Option.bind (checked_multiply (block_count_for ?v) backing_block_charge)
                           (\<lambda>metadata. checked_add metadata backing_base_charge)"
    show ?thesis
    proof (cases "im_generation old = g \<and> (\<exists>h. next_generation g = Inr h) \<and> metadata \<noteq> None")
      case False
      then show ?thesis using assms(2) Some
        by (intro early) (auto simp: set_implicit_zero_def Let_def simp flip: metadata_def dest: next_generation_Inl
            split: if_splits sum.splits)
    next
      case True
      then obtain h b where g: "im_generation old = g" and h: "next_generation g = Inr h" and b: "metadata = Some b" by blast
      obtain l r st where r: "ledger_reserve (memory At_ledger_node) Cat_conversion_scratch b (hs_ledger s) = (l, r, st)"
        by (metis surj_pair)
      let ?s = "s\<lparr>hs_ledger := l\<rparr>" and ?built = "make_zero_image (memory At_image) ?v h"
      have lok: "ledger_ok (hs_ledger s)" using assms(1) by (simp add: store_ok_def)
      have ok: "store_ok codec ?s" by (rule reserve_step_ok [OF assms(1) _ r]) simp
      have run: "(if st \<noteq> Bs_success then (end_guard r ?s, outcome (reserve_failure st) (image_info key old))
           else guarded memory key g (image_info key old) r ?built ?s) = (s', result)"
        using assms(2) Some g h b r by (simp add: set_implicit_zero_def Let_def flip: metadata_def)
      show ?thesis
      proof (cases "st = Bs_success")
        case False
        then show ?thesis using run end_guard_ok [OF ok, of r] reserve_release(1) [OF lok _ r]
          by (auto simp: settles_def outcome_def)
      next
        case st: True
        have built: "replaces codec ?s key g im \<and> ?P im" if m: "?built = Inr im" for im
          using built_replaces [OF assms(1) Some make_zero_image_holds [OF m], of h Backing_implicit_zero g]
            made_image_fields(1) [OF m] Some g next_generation_Inr [OF h] by simp
        have "guarded memory key g (image_info key old) r ?built ?s = (s', result)" using run st by simp
        from guarded_settles [OF ok built make_image_Inl(1) this] show ?thesis
          using reserve_release(1) [OF lok _ r] by (simp add: settles_ledger)
      qed
    qed
  qed
qed

lemma invalidate_settles:
  assumes "store_ok codec s" "invalidate_chunk memory key g s = (s', result)"
  shows "settles codec key
    (\<lambda>im. \<exists>old. hs_chunks s key = Some old \<and> im_generation old = g \<and>
       image_view codec im = \<lparr>cv_representation = Backing_invalid, cv_valid_bytes = im_valid_bytes old,
         cv_generation = g + 1, cv_contents = None\<rparr>)
    (hl_reservations (hs_ledger s)) s s' result"
    (is "settles codec key ?P ?held s s' result")
proof -
  have early: ?thesis if "s' = s" "\<exists>st c. result = outcome st c \<and> st \<noteq> Bk_success"
    using that by (auto intro!: settles_failed assms(1))
  show ?thesis
  proof (cases "\<exists>old h im. hs_chunks s key = Some old \<and> im_generation old = g \<and> next_generation g = Inr h \<and>
      make_invalid_image (memory At_image) (im_valid_bytes old) h = Inr im")
    case False
    then show ?thesis using assms(2)
      by (intro early) (auto simp: invalidate_chunk_def Let_def dest: next_generation_Inl make_image_Inl
          split: option.splits if_splits sum.splits)
  next
    case True
    then obtain old h im where a: "hs_chunks s key = Some old" "im_generation old = g" "next_generation g = Inr h"
      and m: "make_invalid_image (memory At_image) (im_valid_bytes old) h = Inr im" by blast
    obtain r where c: "commit_existing memory key g im None s = (s', r, result)"
      using assms(2) a m by (auto simp: invalidate_chunk_def split: prod.splits)
    have "replaces codec s key g im" using invalid_image_ok [OF m] by (intro replaces_held [OF assms(1) a(1)])
    from commit_fresh_settles [OF assms(1) this c] show ?thesis
      using a invalid_image_ok(2) [OF m] next_generation_Inr [OF a(3)] by (auto elim!: settles_mono)
  qed
qed

lemma compress_settles:
  assumes "codec_lossless codec" "store_ok codec s" "compress_chunk memory codec key g s = (s', result)"
  shows "settles codec key
    (\<lambda>im. \<exists>old. hs_chunks s key = Some old \<and> im_generation old = g \<and> im_representation old = Backing_raw \<and>
       shows_view codec Backing_lz4_blocks (im_valid_bytes old) (g + 1) (image_bytes codec old) im)
    (hl_reservations (hs_ledger s)) s s' result"
    (is "settles codec key ?P ?held s s' result")
proof -
  have early: ?thesis if "s' = s" "\<exists>st c. result = outcome st c \<and> st \<noteq> Bk_success"
    using that by (auto intro!: settles_failed assms(2))
  show ?thesis
  proof (cases "\<exists>old h. hs_chunks s key = Some old \<and> im_generation old = g \<and> im_representation old = Backing_raw \<and>
      next_generation g = Inr h")
    case False
    then show ?thesis using assms(3)
      by (intro early, simp_all add: compress_chunk_def Let_def split: option.splits if_splits sum.splits)
        (use next_generation_Inl in \<open>blast | metis backing_representation.exhaust\<close>)+
  next
    case True
    then obtain old h where a: "hs_chunks s key = Some old" "im_generation old = g" "im_representation old = Backing_raw"
      "next_generation g = Inr h" by blast
    obtain s1 r granted where r: "reserve_candidate memory (im_valid_bytes old) s = (s1, r, granted)" by (metis surj_pair)
    have run: "(if granted \<noteq> Bk_success then (end_guard r s1, outcome granted (image_info key old))
        else guarded memory key g (image_info key old) r (compressed_image (memory At_image) codec old h) s1) = (s', result)"
      using assms(3) a r by (simp add: compress_chunk_def Let_def)
    have old: "image_holds codec old (image_bytes codec old)"
      by (rule image_ok_holds [OF store_ok_chunk(1) [OF assms(2) a(1)]]) (simp add: a(3))
    have built: "replaces codec s key g im \<and> ?P im" if m: "compressed_image (memory At_image) codec old h = Inr im" for im
      using built_replaces [OF assms(2) a(1) compressed_image_holds [OF assms(1) old m]] a next_generation_Inr [OF a(4)] by simp
    show ?thesis by (rule reserved_guard_settles [OF assms(2) built derived_image_Inl(3) r run])
  qed
qed

lemma materialize_settles:
  assumes "store_ok codec s" "materialize_raw memory codec key g s = (s', result)"
  shows "settles codec key
    (\<lambda>im. \<exists>old. hs_chunks s key = Some old \<and> im_generation old = g \<and> im_representation old \<noteq> Backing_invalid \<and>
       (if im_representation old = Backing_raw then im = old
        else shows_view codec Backing_raw (im_valid_bytes old) (g + 1) (image_bytes codec old) im))
    (hl_reservations (hs_ledger s)) s s' result"
    (is "settles codec key ?P ?held s s' result")
proof -
  have early: ?thesis if "s' = s" "\<exists>st c. result = outcome st c \<and> st \<noteq> Bk_success"
    using that by (auto intro!: settles_failed assms(1))
  show ?thesis
  proof (cases "\<exists>old. hs_chunks s key = Some old \<and> im_generation old = g \<and> im_representation old \<noteq> Backing_invalid \<and>
      (im_representation old = Backing_raw \<or> (\<exists>h. next_generation g = Inr h))")
    case False
    then show ?thesis using assms(2)
      by (intro early) (auto simp: materialize_raw_def Let_def dest: next_generation_Inl
          split: option.splits if_splits sum.splits)
  next
    case True
    then obtain old where a: "hs_chunks s key = Some old" "im_generation old = g" "im_representation old \<noteq> Backing_invalid"
      and h: "im_representation old = Backing_raw \<or> (\<exists>h. next_generation g = Inr h)" by blast
    show ?thesis
    proof (cases "im_representation old = Backing_raw")
      case True
      then have "s' = s" "result = outcome Bk_success (image_info key old)"
        using assms(2) a by (simp_all add: materialize_raw_def)
      then show ?thesis using settles_unchanged [OF assms(1) refl a(1), of ?P] a True by simp
    next
      case False
      then obtain h where h: "next_generation g = Inr h" using h by blast
      obtain s1 r granted where r: "reserve_candidate memory (im_valid_bytes old) s = (s1, r, granted)" by (metis surj_pair)
      have run: "(if granted \<noteq> Bk_success then (end_guard r s1, outcome granted (image_info key old))
          else guarded memory key g (image_info key old) r (materialized_image (memory At_image) codec old h) s1) = (s', result)"
        using assms(2) a h r False by (simp add: materialize_raw_def Let_def)
      have old: "image_holds codec old (image_bytes codec old)"
        by (rule image_ok_holds [OF store_ok_chunk(1) [OF assms(1) a(1)] a(3)])
      have built: "replaces codec s key g im \<and> ?P im" if m: "materialized_image (memory At_image) codec old h = Inr im" for im
        using built_replaces [OF assms(1) a(1) materialized_image_holds [OF old m]] a next_generation_Inr [OF h] False by simp
      show ?thesis by (rule reserved_guard_settles [OF assms(1) built derived_image_Inl(2) r run])
    qed
  qed
qed

lemma commit_lz4_settles:
  assumes "store_ok codec s" "commit_lz4_blocks memory codec key g container candidate s = (s', candidate', result)"
  shows "\<exists>held\<in>left_over s candidate result. settles codec key
    (\<lambda>im. \<exists>old. hs_chunks s key = Some old \<and> im_generation old = g \<and> ls_valid_bytes container = im_valid_bytes old \<and>
       ls_content_token container = compute_content_token (container_bytes codec container) \<and>
       shows_view codec Backing_lz4_blocks (im_valid_bytes old) (g + 1) (container_bytes codec container) im) held s s' result"
    (is "\<exists>held\<in>_. settles codec key ?P held s s' result")
proof -
  have early: ?thesis if "s' = s" "\<exists>st c. result = outcome st c \<and> st \<noteq> Bk_success"
    using that by (auto intro!: settles_failed assms(1) bexI [OF _ left_over_failed])
  show ?thesis
  proof (cases "\<exists>old h im. hs_chunks s key = Some old \<and> im_generation old = g \<and> next_generation g = Inr h \<and>
      ls_format_version container = lz4_blocks_format_version \<and> ls_valid_bytes container = im_valid_bytes old \<and>
      ls_generation container = h \<and> length (ls_blocks container) = unat (block_count_for (ls_valid_bytes container)) \<and>
      adopted_image (memory At_image) codec container = Inr im")
    case False
    then show ?thesis using assms(2)
      by (intro early) (auto simp: commit_lz4_blocks_def Let_def dest: next_generation_Inl derived_image_Inl
          split: option.splits if_splits sum.splits)
  next
    case True
    then obtain old im where a: "hs_chunks s key = Some old" "im_generation old = g" "next_generation g = Inr (ls_generation container)"
        "ls_format_version container = lz4_blocks_format_version" "ls_valid_bytes container = im_valid_bytes old"
        "length (ls_blocks container) = unat (block_count_for (ls_valid_bytes container))"
        "adopted_image (memory At_image) codec container = Inr im" by blast
    have n: "length (ls_blocks container) = piece_count (unat (ls_valid_bytes container))"
      using a(6) by (simp add: piece_count_exact)
    note ai = adopted_image_holds [OF a(7) n]
    have im: "replaces codec s key g im" "?P im"
      using built_replaces [OF assms(1) a(1) ai(1) _ ai(3,4)] ai(2,5) a next_generation_Inr [OF a(3)] by simp_all
    obtain r' where c: "commit_existing memory key g im candidate s = (s', r', result)"
      using assms(2) a by (auto simp: commit_lz4_blocks_def split: prod.splits)
    show ?thesis
    proof (cases candidate)
      case None
      have "settles codec key ?P (hl_reservations (hs_ledger s)) s s' result"
        by (rule settles_mono [OF commit_fresh_settles [OF assms(1) im(1) c [unfolded None]]]) (use im(2) in simp)
      then show ?thesis using left_over_self [of candidate result s] None by blast
    next
      case (Some r)
      have "settles codec key ?P (hl_reservations (fst (ledger_release r (hs_ledger s)))) s s' result"
        by (rule settles_mono [OF commit_existing_settles(1) [OF assms(1) im(1) c [unfolded Some]]]) (use im(2) in simp)
      then show ?thesis using left_over_given [of r s result] unfolding Some by blast
    qed
  qed
qed


text \<open>
  A prepared replacement is bound to the generation of the chunk it was prepared for, not to its key: that the
  chunk has the size of the prepared image is up to the caller.
\<close>

definition prepared_for :: "block_codec \<Rightarrow> host_store \<Rightarrow> chunk_key \<Rightarrow> prepared_raw \<Rightarrow> bool" where
  "prepared_for codec s key p \<longleftrightarrow> prepared_ok codec p \<and>
     (\<forall>old. hs_chunks s key = Some old \<longrightarrow> im_generation old = pr_source_generation p \<longrightarrow>
        im_valid_bytes (pr_image p) = im_valid_bytes old)"

lemma commit_prepared_settles:
  assumes "store_ok codec s" "prepared_for codec s key p"
    and "commit_prepared_raw memory key g (Some p) candidate s = (s', p', candidate', result)"
  shows "\<exists>held\<in>left_over s candidate result. settles codec key
    (\<lambda>im. \<exists>old. hs_chunks s key = Some old \<and> im_generation old = g \<and>
       shows_view codec Backing_raw (im_valid_bytes old) (g + 1) (image_bytes codec (pr_image p)) im) held s s' result"
    (is "\<exists>held\<in>_. settles codec key ?P held s s' result")
proof -
  have early: ?thesis if "s' = s" "\<exists>st c. result = outcome st c \<and> st \<noteq> Bk_success"
    using that by (auto intro!: settles_failed assms(1) bexI [OF _ left_over_failed])
  show ?thesis
  proof (cases "\<exists>r. candidate = Some r \<and> pr_filled p \<and> pr_source_generation p = g")
    case False
    then show ?thesis using assms(3)
      by (intro early) (auto simp: commit_prepared_raw_def split: option.splits if_splits)
  next
    case True
    then obtain r where a: "candidate = Some r" "pr_filled p" "pr_source_generation p = g" by blast
    let ?im = "pr_image p"
    have im: "image_holds codec ?im (image_bytes codec ?im)" "im_generation ?im = g + 1" "im_representation ?im = Backing_raw"
      using assms(2) a by (auto simp: prepared_for_def prepared_ok_def)
    obtain r' where c: "commit_existing memory key g ?im (Some r) s = (s', r', result)"
      using assms(3) a by (auto simp: commit_prepared_raw_def split: prod.splits)
    show ?thesis
    proof (cases "\<exists>old. hs_chunks s key = Some old \<and> im_generation old = g")
      case True
      then obtain old where old: "hs_chunks s key = Some old" "im_generation old = g" by blast
      have v: "im_valid_bytes ?im = im_valid_bytes old" using assms(2) a old by (simp add: prepared_for_def)
      have rep: "replaces codec s key g ?im \<and> ?P ?im"
        using built_replaces [OF assms(1) old(1) im(1) v im(2,3)] old by simp
      have "settles codec key ?P (hl_reservations (fst (ledger_release r (hs_ledger s)))) s s' result"
        by (rule settles_mono [OF commit_existing_settles(1) [OF assms(1) conjunct1 [OF rep] c]]) (use rep in simp)
      then show ?thesis using left_over_given [of r s result] unfolding a(1) by blast
    next
      case False
      then have "settles codec key ?P (hl_reservations (fst (ledger_release r (hs_ledger s)))) s s' result"
        using c drop_reservation_ok [OF assms(1)]
        by (auto simp: commit_existing_def commit_reserved_def settles_def outcome_def split: if_splits prod.splits option.splits)
      then show ?thesis using left_over_given [of r s result] unfolding a(1) by blast
    qed
  qed
qed

end
