(* ===== verification/Host_Store_Correct.thy ===== *)
theory Host_Store_Correct
  imports Host_Store_Steps
begin

text \<open>
  The correctness of the host backing store over its histories. The specification is a map from keys to views
  (representation, size, generation, contents) with one equation per operation (\<open>spec_step\<close>); an operation that succeeds does
  what the equation says, and one that fails changes no chunk and adds no reservation.
  \<open>store_reachable\<close> is the step relation of the histories. Reading and exporting give the contents of a chunk.
\<close>

section \<open>Histories\<close>

datatype store_op =
    Do_register chunk_key u64 backing_representation
  | Do_erase chunk_key u64
  | Do_replace chunk_key u64 "u8 list" "budget_reservation option"
  | Do_write chunk_key u64 u64 "u8 list"
  | Do_set_zero chunk_key u64
  | Do_invalidate chunk_key u64
  | Do_compress chunk_key u64
  | Do_materialize chunk_key u64
  | Do_commit_lz4 chunk_key u64 lz4_blocks "budget_reservation option"
  | Do_commit_prepared chunk_key u64 prepared_raw "budget_reservation option"

fun store_step ::
    "(allocation_site \<Rightarrow> bool) \<Rightarrow> block_codec \<Rightarrow> store_op \<Rightarrow> host_store \<Rightarrow> host_store \<times> backing_result" where
  "store_step memory codec (Do_register key v rep) s = register_chunk memory codec key v rep s"
| "store_step memory codec (Do_erase key g) s = erase_chunk key g s"
| "store_step memory codec (Do_replace key g input r) s =
     (case replace_raw memory key g input r s of (s, _, result) \<Rightarrow> (s, result))"
| "store_step memory codec (Do_write key g off input) s = write_chunk memory codec key g off input s"
| "store_step memory codec (Do_set_zero key g) s = set_implicit_zero memory key g s"
| "store_step memory codec (Do_invalidate key g) s = invalidate_chunk memory key g s"
| "store_step memory codec (Do_compress key g) s = compress_chunk memory codec key g s"
| "store_step memory codec (Do_materialize key g) s = materialize_raw memory codec key g s"
| "store_step memory codec (Do_commit_lz4 key g container r) s =
     (case commit_lz4_blocks memory codec key g container r s of (s, _, result) \<Rightarrow> (s, result))"
| "store_step memory codec (Do_commit_prepared key g p r) s =
     (case commit_prepared_raw memory key g (Some p) r s of (s, _, _, result) \<Rightarrow> (s, result))"

fun op_allowed :: "block_codec \<Rightarrow> host_store \<Rightarrow> store_op \<Rightarrow> bool" where
  "op_allowed codec s (Do_write key g off input) = (length input < 18446744073709551616)"
| "op_allowed codec s (Do_commit_prepared key g p r) = prepared_for codec s key p"
| "op_allowed codec s _ = True"

fun reservation_given :: "store_op \<Rightarrow> budget_reservation option" where
  "reservation_given (Do_replace key g input r) = r"
| "reservation_given (Do_commit_lz4 key g container r) = r"
| "reservation_given (Do_commit_prepared key g p r) = r"
| "reservation_given _ = None"

text \<open>The specification: a map of chunks, and one equation per operation that succeeds.\<close>

definition revise :: "chunk_key \<Rightarrow> (chunk_view \<Rightarrow> chunk_view) \<Rightarrow> (chunk_key \<rightharpoonup> chunk_view) \<Rightarrow> chunk_key \<rightharpoonup> chunk_view" where
  "revise key f m = (case m key of None \<Rightarrow> m | Some v \<Rightarrow> m(key \<mapsto> f v))"

definition successor :: "backing_representation \<Rightarrow> u8 list option \<Rightarrow> chunk_view \<Rightarrow> chunk_view" where
  "successor rep contents v =
     v\<lparr>cv_representation := rep, cv_generation := cv_generation v + 1, cv_contents := contents\<rparr>"

fun spec_step :: "block_codec \<Rightarrow> store_op \<Rightarrow> (chunk_key \<rightharpoonup> chunk_view) \<Rightarrow> chunk_key \<rightharpoonup> chunk_view" where
  "spec_step codec (Do_register key v rep) m =
     m(key \<mapsto> \<lparr>cv_representation = rep, cv_valid_bytes = v, cv_generation = 1,
       cv_contents = (if rep = Backing_invalid then None else Some (replicate (unat v) 0))\<rparr>)"
| "spec_step codec (Do_erase key g) m = m(key := None)"
| "spec_step codec (Do_replace key g input r) m = revise key (successor Backing_raw (Some input)) m"
| "spec_step codec (Do_write key g off input) m =
     revise key (\<lambda>v. if input = [] then v
       else successor (if off = 0 \<and> length input = unat (cv_valid_bytes v) \<or> cv_representation v = Backing_raw
                       then Backing_raw else Backing_lz4_blocks)
              (map_option (\<lambda>bytes. splice bytes (unat off) input) (cv_contents v)) v) m"
| "spec_step codec (Do_set_zero key g) m =
     revise key (\<lambda>v. successor Backing_implicit_zero (Some (replicate (unat (cv_valid_bytes v)) 0)) v) m"
| "spec_step codec (Do_invalidate key g) m = revise key (successor Backing_invalid None) m"
| "spec_step codec (Do_compress key g) m = revise key (\<lambda>v. successor Backing_lz4_blocks (cv_contents v) v) m"
| "spec_step codec (Do_materialize key g) m =
     revise key (\<lambda>v. if cv_representation v = Backing_raw then v else successor Backing_raw (cv_contents v) v) m"
| "spec_step codec (Do_commit_lz4 key g container r) m =
     revise key (successor Backing_lz4_blocks (Some (container_bytes codec container))) m"
| "spec_step codec (Do_commit_prepared key g p r) m =
     revise key (successor Backing_raw (Some (image_bytes codec (pr_image p)))) m"

lemma settles_view:
  assumes "settles codec key P held s s' result"
    and "\<And>im. P im \<Longrightarrow> (store_view codec s)(key \<mapsto> image_view codec im) = spec"
  shows "store_ok codec s' \<and> hl_reservations (hs_ledger s') = held \<and>
    (br_status result \<noteq> Bk_success \<longrightarrow> hs_chunks s' = hs_chunks s) \<and>
    store_view codec s' = (if br_status result = Bk_success then spec else store_view codec s)"
proof (cases "br_status result = Bk_success")
  case True
  then obtain im where "P im" "hs_chunks s' = (hs_chunks s)(key \<mapsto> im)" using assms(1) by (auto simp: settles_def)
  moreover from this have "store_view codec s' = (store_view codec s)(key \<mapsto> image_view codec im)"
    by (auto simp: store_view_def)
  ultimately show ?thesis using assms True by (simp add: settles_def)
next
  case False
  then show ?thesis using assms(1) by (simp add: settles_def store_view_def)
qed

lemma revise_view:
  assumes "hs_chunks s key = Some old" "image_view codec im = f (image_view codec old)"
  shows "(store_view codec s)(key \<mapsto> image_view codec im) = revise key f (store_view codec s)"
  using assms by (simp add: revise_def store_view_def)

lemma view_sel [simp]:
  "cv_representation (image_view codec im) = im_representation im"
  "cv_valid_bytes (image_view codec im) = im_valid_bytes im"
  "cv_generation (image_view codec im) = im_generation im"
  "im_representation im \<noteq> Backing_invalid \<Longrightarrow> cv_contents (image_view codec im) = Some (image_bytes codec im)"
  by (simp_all add: image_view_def)

lemma successor_view:
  "successor rep contents (image_view codec im) =
     \<lparr>cv_representation = rep, cv_valid_bytes = im_valid_bytes im, cv_generation = im_generation im + 1, cv_contents = contents\<rparr>"
  by (simp add: successor_def image_view_def)

lemma settles_revise:
  assumes "settles codec key P held s s' result"
    and "\<And>im. P im \<Longrightarrow> \<exists>old. hs_chunks s key = Some old \<and> image_view codec im = f (image_view codec old)"
  shows "store_ok codec s' \<and> hl_reservations (hs_ledger s') = held \<and>
    (br_status result \<noteq> Bk_success \<longrightarrow> hs_chunks s' = hs_chunks s) \<and>
    store_view codec s' = (if br_status result = Bk_success then revise key f (store_view codec s) else store_view codec s)"
proof (rule settles_view [OF assms(1)])
  fix im assume "P im"
  then show "(store_view codec s)(key \<mapsto> image_view codec im) = revise key f (store_view codec s)"
    using assms(2) revise_view by blast
qed

lemma candidate_revise:
  assumes "\<exists>held\<in>left_over s r result. settles codec key P held s s' result"
    and "\<And>im. P im \<Longrightarrow> \<exists>old. hs_chunks s key = Some old \<and> image_view codec im = f (image_view codec old)"
  shows "store_ok codec s' \<and> hl_reservations (hs_ledger s') \<in> left_over s r result \<and>
    (br_status result \<noteq> Bk_success \<longrightarrow> hs_chunks s' = hs_chunks s) \<and>
    store_view codec s' = (if br_status result = Bk_success then revise key f (store_view codec s) else store_view codec s)"
  using assms(1)
proof
  fix held assume "held \<in> left_over s r result" and h: "settles codec key P held s s' result"
  then show ?thesis using settles_revise [OF h assms(2)] by simp
qed

definition steps_as :: "block_codec \<Rightarrow> store_op \<Rightarrow> host_store \<Rightarrow> host_store \<Rightarrow> backing_result \<Rightarrow> bool" where
  "steps_as codec op s s' result \<longleftrightarrow>
     store_ok codec s' \<and> hl_reservations (hs_ledger s') \<in> left_over s (reservation_given op) result \<and>
     (br_status result \<noteq> Bk_success \<longrightarrow> hs_chunks s' = hs_chunks s) \<and>
     store_view codec s' =
       (if br_status result = Bk_success then spec_step codec op (store_view codec s) else store_view codec s)"

lemma settles_steps:
  assumes "settles codec key P (hl_reservations (hs_ledger s)) s s' result"
    and "spec_step codec op (store_view codec s) = revise key f (store_view codec s)"
    and "\<And>im. P im \<Longrightarrow> \<exists>old. hs_chunks s key = Some old \<and> image_view codec im = f (image_view codec old)"
    and "reservation_given op = None"
  shows "steps_as codec op s s' result"
  using settles_revise [OF assms(1,3)] assms(2,4) by (simp add: steps_as_def)

lemma candidate_steps:
  assumes "\<exists>held\<in>left_over s r result. settles codec key P held s s' result"
    and "spec_step codec op (store_view codec s) = revise key f (store_view codec s)" "reservation_given op = r"
    and "\<And>im. P im \<Longrightarrow> \<exists>old. hs_chunks s key = Some old \<and> image_view codec im = f (image_view codec old)"
  shows "steps_as codec op s s' result"
  using candidate_revise [OF assms(1,4)] assms(2,3) by (simp add: steps_as_def)

lemma store_step_facts:
  assumes "codec_lossless codec" "store_ok codec s" "op_allowed codec s op"
    and "store_step memory codec op s = (s', result)"
  shows "steps_as codec op s s' result"
proof (cases op)
  case (Do_register key v rep)
  then show ?thesis
    using settles_view [OF register_settles [OF assms(2), of memory key v rep s' result]] assms(4) by (simp add: steps_as_def)
next
  case (Do_erase key g)
  then have e: "erase_chunk key g s = (s', result)" using assms(4) by simp
  from erase_settles [OF assms(2) this] show ?thesis
    using Do_erase by (auto simp: store_view_def fun_upd_def steps_as_def)
next
  case (Do_replace key g input r)
  then obtain r' where "replace_raw memory key g input r s = (s', r', result)" using assms(4) by (auto split: prod.splits)
  then show ?thesis
    by (rule candidate_steps [OF replace_settles [OF assms(2)], OF _ spec_step.simps(3) [of codec key g input r, folded Do_replace]])
      (auto simp: successor_view Do_replace)
next
  case (Do_write key g off input)
  then have w: "write_chunk memory codec key g off input s = (s', result)" "length input < 18446744073709551616"
    using assms(3,4) by simp_all
  show ?thesis
    by (rule settles_steps [OF write_settles [OF assms(1,2) w(2,1)], OF spec_step.simps(4) [of codec key g off input, folded Do_write]])
      (erule exE, elim conjE, rule exI, rule conjI, assumption,
        cases "input = []", simp, simp add: successor_view unat_eq_0, simp add: Do_write)
next
  case (Do_set_zero key g)
  then have "set_implicit_zero memory key g s = (s', result)" using assms(4) by simp
  then show ?thesis
    by (rule settles_steps [OF set_zero_settles [OF assms(2)], OF _ spec_step.simps(5) [of codec key g, folded Do_set_zero]])
      (auto simp: successor_view Do_set_zero)
next
  case (Do_invalidate key g)
  then have "invalidate_chunk memory key g s = (s', result)" using assms(4) by simp
  then show ?thesis
    by (rule settles_steps [OF invalidate_settles [OF assms(2)], OF _ spec_step.simps(6) [of codec key g, folded Do_invalidate]])
      (auto simp: successor_view Do_invalidate)
next
  case (Do_compress key g)
  then have "compress_chunk memory codec key g s = (s', result)" using assms(4) by simp
  then show ?thesis
    by (rule settles_steps [OF compress_settles [OF assms(1,2)], OF _ spec_step.simps(7) [of codec key g, folded Do_compress]])
      (auto simp: successor_view Do_compress)
next
  case (Do_materialize key g)
  then have "materialize_raw memory codec key g s = (s', result)" using assms(4) by simp
  then show ?thesis
    by (rule settles_steps [OF materialize_settles [OF assms(2)], OF _ spec_step.simps(8) [of codec key g, folded Do_materialize]])
      (erule exE, elim conjE, rule exI, rule conjI, assumption,
        case_tac "im_representation old = Backing_raw", simp, simp add: successor_view, simp add: Do_materialize)
next
  case (Do_commit_lz4 key g container r)
  then obtain r' where "commit_lz4_blocks memory codec key g container r s = (s', r', result)"
    using assms(4) by (auto split: prod.splits)
  then show ?thesis
    by (rule candidate_steps [OF commit_lz4_settles [OF assms(2)],
          OF _ spec_step.simps(9) [of codec key g container r, folded Do_commit_lz4]])
      (auto simp: successor_view Do_commit_lz4)
next
  case (Do_commit_prepared key g p r)
  then obtain p' r' where run: "commit_prepared_raw memory key g (Some p) r s = (s', p', r', result)"
    using assms(4) by (auto split: prod.splits)
  have "prepared_for codec s key p" using assms(3) Do_commit_prepared by simp
  then show ?thesis
    by (rule candidate_steps [OF commit_prepared_settles [OF assms(2) _ run],
          OF _ spec_step.simps(10) [of codec key g p r, folded Do_commit_prepared]])
      (auto simp: successor_view Do_commit_prepared)
qed


section \<open>Reading\<close>

lemma read_blocks_exact:
  assumes "image_holds codec im bytes" "cursor + remaining \<le> length bytes"
  shows "read_blocks codec im cursor remaining = Some (Inr (take remaining (drop cursor bytes)))"
  using assms(2)
proof (induction remaining arbitrary: cursor rule: less_induct)
  case (less remaining)
  show ?case
  proof (cases "remaining = 0")
    case True
    then show ?thesis by (simp add: read_blocks.simps)
  next
    case False
    let ?i = "cursor div block_size" and ?w = "cursor mod block_size"
    let ?n = "length (piece bytes ?i)" and ?c = "min remaining (length (piece bytes (cursor div block_size)) - cursor mod block_size)"
    have cursor: "?i * block_size + ?w = cursor" "?w < block_size" by (simp_all add: block_size_def)
    have "0 < remaining" using False by simp
    then have i: "?i < piece_count (length bytes)" using cursor(1) less.prems unfolding piece_count_iff by linarith
    have pos: "0 < ?c" and inside: "?c \<le> block_size - ?w"
    proof -
      have "?w < length (piece bytes ?i)" using cursor \<open>0 < remaining\<close> less.prems unfolding length_piece by linarith
      then show "0 < ?c" "?c \<le> block_size - ?w" using \<open>0 < remaining\<close> by (simp_all add: length_piece)
    qed
    have "take ?c (drop ?w (piece bytes ?i)) = take ?c (drop (?w + ?i * block_size) bytes)"
      unfolding piece_def drop_take drop_drop take_take using inside by (simp add: min_absorb1)
    then have taken: "take ?c (drop ?w (piece bytes ?i)) = take ?c (drop cursor bytes)"
      using cursor(1) by (simp add: add.commute)
    have "read_blocks codec im (cursor + ?c) (remaining - ?c) = Some (Inr (take (remaining - ?c) (drop (cursor + ?c) bytes)))"
      using pos less.prems False by (intro less.IH) auto
    moreover have "take ?c (drop cursor bytes) @ take (remaining - ?c) (drop (cursor + ?c) bytes) = take remaining (drop cursor bytes)"
      using take_add [of ?c "remaining - ?c" "drop cursor bytes"] by (simp add: add.commute)
    moreover note block_holds_decodes [OF image_holds_parts(4) [OF assms(1) i]]
    ultimately show ?thesis
      using False pos taken by (subst read_blocks.simps) (simp add: Let_def)
  qed
qed

lemma zero_blocks_intact:
  assumes "im_blocks im = zero_blocks (im_valid_bytes im)"
  shows "list_all (zero_block_intact im) [0..<length (im_blocks im)]"
  unfolding list_all_length
  by (simp add: assms zero_blocks_def length_block_indices zero_block_intact_def make_zero_block_def Let_def)

lemma read_chunk_exact:
  assumes "store_ok codec s" "n < 18446744073709551616"
  shows "read_chunk memory codec key off n s =
    (case hs_chunks s key of
       None \<Rightarrow> Some (outcome Bk_chunk_not_found no_chunk, None)
     | Some im \<Rightarrow>
         if im_representation im = Backing_invalid then Some (outcome Bk_invalid_state (image_info key im), None)
         else if unat off + n > unat (im_valid_bytes im) then Some (outcome Bk_range_out_of_bounds (image_info key im), None)
         else if n \<noteq> 0 \<and> im_representation im \<noteq> Backing_implicit_zero \<and> \<not> memory At_image
         then Some (outcome Bk_allocation_failure (image_info key im), None)
         else Some (outcome Bk_success (image_info key im), Some (take n (drop (unat off) (image_bytes codec im)))))"
proof (cases "hs_chunks s key")
  case None
  then show ?thesis by (simp add: read_chunk_def)
next
  case (Some im)
  show ?thesis
  proof (cases "im_representation im = Backing_invalid")
    case True
    then show ?thesis using Some by (simp add: read_chunk_def)
  next
    case False
    let ?bytes = "image_bytes codec im"
    have h: "image_holds codec im ?bytes" by (rule image_ok_holds [OF store_ok_chunk(1) [OF assms(1) Some] False])
    note parts = image_holds_parts [OF h]
    have range: "range_fits off (of_nat n) (im_valid_bytes im) \<longleftrightarrow> unat off + n \<le> unat (im_valid_bytes im)"
      using assms(2) unat_u64_bound [of "im_valid_bytes im"]
      by (auto simp: range_fits_def word_le_nat_alt unat_sub_u64 unat_of_nat_u64)
    have whole: "length (im_blocks im) = unat (block_count_for (im_valid_bytes im))"
      "combine_blocks im = im_content_token im"
      using parts combine_blocks_holds [OF parts(2,1)] h by (simp_all add: piece_count_exact image_holds_def)
    have zero: "take n (drop (unat off) ?bytes) = replicate n 0"
      "list_all (zero_block_intact im) [0..<length (im_blocks im)]"
      if "im_representation im = Backing_implicit_zero" "unat off + n \<le> unat (im_valid_bytes im)"
    proof -
      have z: "?bytes = replicate (length ?bytes) 0" "im_blocks im = zero_blocks (im_valid_bytes im)"
        using h that(1) unfolding image_holds_def by blast+
      show "take n (drop (unat off) ?bytes) = replicate n 0"
        by (subst z(1)) (use that(2) parts(1) in simp)
      show "list_all (zero_block_intact im) [0..<length (im_blocks im)]" by (rule zero_blocks_intact [OF z(2)])
    qed
    show ?thesis
      using Some False range whole zero read_blocks_exact [OF h, of "unat off" n] parts(1)
      by (auto simp: read_chunk_def Let_def)
  qed
qed


section \<open>Exporting\<close>

lemma for_blocks_all:
  "\<forall>i\<in>set is. f i = Inr (g i) \<Longrightarrow> for_blocks f is = Inr (map g is)"
  by (induction "is") simp_all

lemma validate_holds:
  assumes "image_holds codec im bytes"
  shows "validate_image_blocks True im codec = Bk_success"
proof -
  note parts = image_holds_parts [OF assms]
  let ?n = "piece_count (length bytes)"
  have n: "unat (block_count_for (im_valid_bytes im)) = ?n" using parts(1) by (simp add: piece_count_exact)
  have idx: "block_indices (im_valid_bytes im) = [0..<?n]" using parts(1) by (simp add: length_block_indices)
  define f where "f = (\<lambda>index.
            let block = im_blocks im ! index;
                expected = block_valid_bytes (im_valid_bytes im) (of_nat index)
            in if sb_uncompressed_bytes block \<noteq> expected then Inl Bk_corrupt_data
               else case decode_block codec block (unat expected) of
                   Inl _ \<Rightarrow> Inl Bk_corrupt_data
                 | Inr output \<Rightarrow>
                     let actual = token_for_block output (of_nat index)
                     in if actual \<noteq> sb_token block then Inl Bk_corrupt_data else Inr actual)"
  have "f i = Inr (sb_token (im_blocks im ! i))" if i: "i < ?n" for i
  proof -
    note d = block_holds_decodes [OF parts(4) [OF i]]
    have "unat (block_valid_bytes (im_valid_bytes im) (of_nat i)) = length (piece bytes i)"
      using block_valid_piece [OF parts(1)] i parts(1) by simp
    then have "sb_uncompressed_bytes (im_blocks im ! i) = block_valid_bytes (im_valid_bytes im) (of_nat i)"
      using d(2) by (simp add: word_unat_eq_iff)
    then show ?thesis using d(1,3) by (simp add: f_def Let_def)
  qed
  then have "for_blocks f [0..<?n] = Inr (map (\<lambda>i. sb_token (im_blocks im ! i)) [0..<?n])"
    by (intro for_blocks_all) simp
  moreover have "map (\<lambda>i. sb_token (im_blocks im ! i)) [0..<?n] = map sb_token (im_blocks im)"
    using parts(3) by (intro nth_equalityI) simp_all
  moreover have "fold (\<lambda>actual token. combine_token token actual) (map sb_token (im_blocks im)) (token_seed (im_valid_bytes im)) =
      im_content_token im"
    using combine_blocks_holds [OF parts(2,1)] assms by (simp add: combine_blocks_def fold_map o_def image_holds_def)
  ultimately show ?thesis
    unfolding validate_image_blocks_def f_def [symmetric] idx n using parts(3) by simp
qed

lemma exported_block:
  assumes "block_holds codec i b bytes" "bytes \<noteq> []"
  shows "block_bytes codec (adopted_block (export_block b)) = bytes"
proof -
  note d = block_holds_decodes [OF assms(1)]
  have "decode_block codec (adopted_block (export_block b)) (unat (sb_uncompressed_bytes b)) = Inr bytes"
    using d(1,2) assms(2)
    by (cases "sb_storage b"; cases "sb_payload b")
      (auto simp: decode_block_def adopted_block_def export_block_def exact_payload_def payload_bytes_def split: if_splits prod.splits)
  then show ?thesis by (simp add: block_bytes_def adopted_block_def export_block_def)
qed

lemma export_exact:
  assumes "store_ok codec s" "hs_chunks s key = Some im" "im_representation im = Backing_lz4_blocks"
    and "export_lz4_blocks memory codec key s = (status, container)" "memory At_image"
  shows "status = Bk_success \<and> (\<exists>c. container = Some c \<and> container_bytes codec c = image_bytes codec im \<and>
    ls_content_token c = compute_content_token (image_bytes codec im) \<and>
    ls_valid_bytes c = im_valid_bytes im \<and> ls_generation c = im_generation im)"
proof -
  have h: "image_holds codec im (image_bytes codec im)"
    by (rule image_ok_holds [OF store_ok_chunk(1) [OF assms(1,2)]]) (simp add: assms(3))
  note parts = image_holds_parts [OF h]
  let ?bytes = "image_bytes codec im"
  have "map (\<lambda>b. block_bytes codec (adopted_block (export_block b))) (im_blocks im) = map (piece ?bytes) [0..<piece_count (length ?bytes)]"
  proof (rule nth_equalityI)
    fix i assume "i < length (map (\<lambda>b. block_bytes codec (adopted_block (export_block b))) (im_blocks im))"
    then have i: "i < piece_count (length ?bytes)" using parts(3) by simp
    then have "piece ?bytes i \<noteq> []" by (simp add: piece_def piece_count_iff block_size_def)
    from exported_block [OF parts(4) [OF i] this] show
      "map (\<lambda>b. block_bytes codec (adopted_block (export_block b))) (im_blocks im) ! i =
         map (piece ?bytes) [0..<piece_count (length ?bytes)] ! i"
      using i parts(3) by simp
  qed (simp add: parts(3))
  then have "concat (map (\<lambda>b. block_bytes codec (adopted_block (export_block b))) (im_blocks im)) = ?bytes"
    by (simp add: concat_pieces)
  then show ?thesis
    using assms(2-5) validate_holds [OF h] h
    by (auto simp: export_lz4_blocks_def container_bytes_def o_def image_holds_def)
qed

section \<open>Reachable stores\<close>

text \<open>
  A store is used through its operations and, for reservations of their own, through the ledger that
  \<open>budget()\<close> hands to its clients.
\<close>

fun client_op :: "ledger_op \<Rightarrow> bool" where
  "client_op (Op_reserve memory c b) = (c \<noteq> Cat_authoritative)"
| "client_op (Op_release r) = True"
| "client_op _ = False"

inductive store_reachable :: "block_codec \<Rightarrow> host_store \<Rightarrow> bool" for codec where
  created: "store_reachable codec (host_store_new chunk_bytes cap)"
| stepped: "store_reachable codec s \<Longrightarrow> op_allowed codec s op \<Longrightarrow> store_reachable codec (fst (store_step memory codec op s))"
| budget: "store_reachable codec s \<Longrightarrow> client_op op \<Longrightarrow> store_reachable codec (s\<lparr>hs_ledger := ledger_step op (hs_ledger s)\<rparr>)"

lemma reachable_ok:
  assumes "codec_lossless codec" "store_reachable codec s"
  shows "store_ok codec s"
  using assms(2)
proof induction
  case (created chunk_bytes cap)
  show ?case by (rule store_new_ok)
next
  case (stepped s op memory)
  obtain s' result where "store_step memory codec op s = (s', result)" by (metis surj_pair)
  with store_step_facts [OF assms(1) stepped.IH stepped.hyps(2) this] show ?case by (simp add: steps_as_def)
next
  case (budget s op)
  then have "ledger_ok (hs_ledger s)" by (simp add: store_ok_def)
  then show ?case
    using budget reserve_ok release_ok reserve_authoritative release_authoritative
    by (cases op) (auto intro!: ledger_change_ok)
qed

text \<open>A codec for the witnesses: it encodes a block of equal bytes as one byte and gives up on the others.\<close>

definition run_codec :: block_codec where
  "run_codec = \<lparr>bc_codec = Codec_lz4, bc_maximum_compressed_bytes = (\<lambda>n. Some (n + 1)),
     bc_compress = (\<lambda>input capacity.
       if input \<noteq> [] \<and> list_all (\<lambda>b. b = hd input) input then (Codec_success, \<lambda>_. hd input, 1)
       else (Codec_success, \<lambda>_. 0, length input)),
     bc_decompress = (\<lambda>encoded n. (Codec_success, \<lambda>_. hd encoded))\<rparr>"

lemma run_codec_lossless: "codec_lossless run_codec"
proof -
  have "map (\<lambda>_. hd input) [0..<length input] = input" if "list_all (\<lambda>b. b = hd input) input" for input :: "u8 list"
    using that by (intro nth_equalityI) (simp_all add: list_all_length)
  then show ?thesis by (auto simp: codec_lossless_def run_codec_def split: if_splits)
qed

section \<open>Properties\<close>

text \<open>
  C2: The store refines a map of chunks. In every reachable state, an operation that reports success has the effect the
  specification gives it on representation, size, generation and contents of its chunk, and on no other chunk (a write is
  the splice of its input, compression and materialisation keep the contents, a commit installs what the
  container or the prepared image holds); an operation that reports anything else changes nothing.
\<close>

theorem store_refines_map:
  assumes "codec_lossless codec" "store_reachable codec s" "op_allowed codec s op"
    and "store_step memory codec op s = (s', result)"
  shows "store_view codec s' =
    (if br_status result = Bk_success then spec_step codec op (store_view codec s) else store_view codec s)"
  using store_step_facts [OF assms(1) reachable_ok [OF assms(1,2)] assms(3,4)] by (simp add: steps_as_def)

definition sample_key :: chunk_key where
  "sample_key = ChunkKey (AllocationId 1) 0"

definition sample_store :: host_store where
  "sample_store = fst (store_step (\<lambda>_. True) run_codec (Do_register sample_key 3 Backing_invalid) (host_store_new 10 0))"

definition sample_filled :: host_store where
  "sample_filled = fst (store_step (\<lambda>_. True) run_codec (Do_replace sample_key 1 [9, 9, 9] None) sample_store)"

definition sample_encoded :: host_store where
  "sample_encoded = fst (store_step (\<lambda>_. True) run_codec (Do_compress sample_key 2) sample_filled)"

lemma sample_reachable:
  "store_reachable run_codec sample_store" "store_reachable run_codec sample_filled" "store_reachable run_codec sample_encoded"
proof -
  show "store_reachable run_codec sample_store"
    unfolding sample_store_def by (intro store_reachable.stepped store_reachable.created) simp
  then show "store_reachable run_codec sample_filled"
    unfolding sample_filled_def by (intro store_reachable.stepped) simp_all
  then show "store_reachable run_codec sample_encoded"
    unfolding sample_encoded_def by (intro store_reachable.stepped) simp_all
qed

lemma sample_store_chunk:
  "store_view run_codec sample_store sample_key =
     Some \<lparr>cv_representation = Backing_invalid, cv_valid_bytes = 3, cv_generation = 1, cv_contents = None\<rparr>"
  by code_simp

lemma sample_filled_facts:
  "(case store_step (\<lambda>_. True) run_codec (Do_replace sample_key 1 [9, 9, 9] None) sample_store of (s, result) \<Rightarrow>
      (br_status result, map_option (\<lambda>im. (im_representation im, im_valid_bytes im, image_bytes run_codec im)) (hs_chunks s sample_key),
       unat (bn_authoritative_bytes (ledger_snapshot (hs_ledger s))))) =
   (Bk_success, Some (Backing_raw, 3, [9, 9, 9]), 387)"
  by code_simp

theorem store_refines_map_witness:
  "case store_step (\<lambda>_. True) run_codec (Do_replace sample_key 1 [9, 9, 9] None) sample_store of
     (s', result) \<Rightarrow> br_status result = Bk_success \<and>
       store_view run_codec s' sample_key = Some \<lparr>cv_representation = Backing_raw, cv_valid_bytes = 3,
         cv_generation = 2, cv_contents = Some [9, 9, 9]\<rparr>"
proof -
  let ?step = "store_step (\<lambda>_. True) run_codec (Do_replace sample_key 1 [9, 9, 9] None) sample_store"
  have status: "br_status (snd ?step) = Bk_success" using sample_filled_facts by (simp add: case_prod_beta)
  then have "store_view run_codec (fst ?step) =
      spec_step run_codec (Do_replace sample_key 1 [9, 9, 9] None) (store_view run_codec sample_store)"
    using store_refines_map [OF run_codec_lossless sample_reachable(1), of "Do_replace sample_key 1 [9, 9, 9] None" "\<lambda>_. True"
        "fst ?step" "snd ?step"] by simp
  then show ?thesis
    using status sample_store_chunk by (simp add: case_prod_beta revise_def successor_def)
qed

text \<open>
  C3: The books of a reachable store agree with its chunks: the authoritative bytes of the ledger are the sum of the
  charges of the chunks, everything charged fits the limit, and a chunk that is not invalid has its
  valid bytes, charged for exactly what it stores, under the content token of those bytes.
\<close>

theorem store_books_agree:
  assumes "codec_lossless codec" "store_reachable codec s"
  shows "unat (bn_authoritative_bytes (ledger_snapshot (hs_ledger s))) =
      (\<Sum>k\<in>dom (hs_chunks s). unat (im_budget_charge_bytes (the (hs_chunks s k)))) \<and>
    bn_total_bytes (ledger_snapshot (hs_ledger s)) \<le> hl_limit (hs_ledger s) \<and>
    (\<forall>k im. hs_chunks s k = Some im \<longrightarrow>
       0 < im_valid_bytes im \<and> im_valid_bytes im \<le> hs_chunk_bytes s \<and>
       (if im_representation im = Backing_invalid then im_budget_charge_bytes im = 0
        else length (image_bytes codec im) = unat (im_valid_bytes im) \<and>
             im_content_token im = compute_content_token (image_bytes codec im) \<and> charge_image im = Inr im))"
proof (intro conjI allI impI)
  note ok = reachable_ok [OF assms]
  have "charges (hs_chunks s) = (\<Sum>k\<in>dom (hs_chunks s). unat (im_budget_charge_bytes (the (hs_chunks s k))))"
    unfolding charges_def by (intro sum.cong) auto
  then show "unat (bn_authoritative_bytes (ledger_snapshot (hs_ledger s))) =
      (\<Sum>k\<in>dom (hs_chunks s). unat (im_budget_charge_bytes (the (hs_chunks s k))))"
    using ok by (simp add: store_ok_def authoritative_def ledger_snapshot_def)
  show "bn_total_bytes (ledger_snapshot (hs_ledger s)) \<le> hl_limit (hs_ledger s)"
    using ok by (simp add: store_ok_def ledger_ok_def balanced_def ledger_snapshot_def Let_def)
  fix k im assume k: "hs_chunks s k = Some im"
  show "0 < im_valid_bytes im" "im_valid_bytes im \<le> hs_chunk_bytes s"
    using store_ok_chunk [OF ok k] by (simp_all add: word_gt_0)
  show "if im_representation im = Backing_invalid then im_budget_charge_bytes im = 0
        else length (image_bytes codec im) = unat (im_valid_bytes im) \<and>
             im_content_token im = compute_content_token (image_bytes codec im) \<and> charge_image im = Inr im"
    using store_ok_chunk(1) [OF ok k] by (auto simp: image_ok_def image_holds_def)
qed

theorem store_books_agree_witness:
  "unat (bn_authoritative_bytes (ledger_snapshot (hs_ledger sample_filled))) = 387 \<and>
   (\<Sum>k\<in>dom (hs_chunks sample_filled). unat (im_budget_charge_bytes (the (hs_chunks sample_filled k)))) = 387"
proof -
  have "unat (bn_authoritative_bytes (ledger_snapshot (hs_ledger sample_filled))) = 387"
    using sample_filled_facts by (simp add: case_prod_beta sample_filled_def)
  then show ?thesis using store_books_agree [OF run_codec_lossless sample_reachable(2)] by simp
qed

definition sample_grant :: "host_ledger \<times> budget_reservation \<times> budget_status" where
  "sample_grant = ledger_reserve True Cat_spill 1000 (hs_ledger sample_store)"

definition sample_reserved :: host_store where
  "sample_reserved = sample_store\<lparr>hs_ledger := ledger_step (Op_reserve True Cat_spill 1000) (hs_ledger sample_store)\<rparr>"

text \<open>
  C4: No operation leaks budget, and a failure leaves no trace. The reservations after an operation are those before it,
  but for the one it was given, if it was given one: a success has used it up, a failure has given it back or has not
  touched it. If the operation fails, every image is as before, and every counter of bytes in use is as before or, where
  the given reservation was given back, as its release leaves it.
\<close>

theorem store_failure_is_clean:
  assumes "codec_lossless codec" "store_reachable codec s" "op_allowed codec s op"
    and "store_step memory codec op s = (s', result)"
  shows "\<exists>l\<in>ledgers_left (reservation_given op) (br_status result = Bk_success) s.
    hl_reservations (hs_ledger s') = hl_reservations l \<and>
    (br_status result \<noteq> Bk_success \<longrightarrow>
       hs_chunks s' = hs_chunks s \<and>
       bn_total_bytes (hl_counters (hs_ledger s')) = bn_total_bytes (hl_counters l) \<and>
       (\<forall>c. category_counter c (hl_counters (hs_ledger s')) = category_counter c (hl_counters l)))"
proof -
  note ok = reachable_ok [OF assms(1,2)]
  have step: "steps_as codec op s s' result" by (rule store_step_facts [OF assms(1) ok assms(3,4)])
  then obtain l where l: "l \<in> ledgers_left (reservation_given op) (br_status result = Bk_success) s"
    "hl_reservations (hs_ledger s') = hl_reservations l" by (auto simp: steps_as_def left_over_def)
  have lok: "ledger_ok (hs_ledger s)" using ok by (simp add: store_ok_def)
  have books: "balanced l" "authoritative l = authoritative (hs_ledger s)"
    using l(1) lok release_ok [OF lok] release_authoritative [OF lok]
    by (auto simp: ledgers_left_def ledger_ok_def split: option.splits if_splits)
  have same: "category_counter c (hl_counters (hs_ledger s')) = category_counter c (hl_counters l)"
    "bn_total_bytes (hl_counters (hs_ledger s')) = bn_total_bytes (hl_counters l)"
    if f: "br_status result \<noteq> Bk_success" for c
  proof -
    have "hs_chunks s' = hs_chunks s" using step f by (simp add: steps_as_def)
    then have b: "balanced (hs_ledger s')" "authoritative (hs_ledger s') = authoritative l"
      using step ok books(2) by (simp_all add: steps_as_def store_ok_def ledger_ok_def)
    then show "category_counter c (hl_counters (hs_ledger s')) = category_counter c (hl_counters l)"
      using books(1) l(2) by (cases c) (simp_all add: balanced_def Let_def authoritative_def word_unat_eq_iff)
    show "bn_total_bytes (hl_counters (hs_ledger s')) = bn_total_bytes (hl_counters l)"
      using b books(1) l(2) by (simp add: balanced_def Let_def authoritative_def word_unat_eq_iff)
  qed
  show ?thesis using l same step by (intro bexI [OF _ l(1)]) (simp add: steps_as_def)
qed

theorem store_failure_is_clean_witness:
  "(case store_step (\<lambda>site. site \<noteq> At_image) run_codec (Do_replace sample_key 1 [9, 9, 9] None) sample_store of
     (s', result) \<Rightarrow> br_status result = Bk_allocation_failure \<and> hs_chunks s' = hs_chunks sample_store \<and>
       hl_reservations (hs_ledger s') = hl_reservations (hs_ledger sample_store)) \<and>
   (case store_step (\<lambda>_. True) run_codec (Do_replace sample_key 1 [9, 9, 9] (Some (fst (snd sample_grant)))) sample_reserved of
     (s', result) \<Rightarrow> br_status result = Bk_success \<and>
       hl_reservations (hs_ledger s') = hl_reservations (fst (ledger_release (fst (snd sample_grant)) (hs_ledger sample_reserved))))"
proof -
  let ?failed = "store_step (\<lambda>site. site \<noteq> At_image) run_codec (Do_replace sample_key 1 [9, 9, 9] None) sample_store"
  let ?given = "store_step (\<lambda>_. True) run_codec (Do_replace sample_key 1 [9, 9, 9] (Some (fst (snd sample_grant)))) sample_reserved"
  have status: "br_status (snd ?failed) = Bk_allocation_failure" "br_status (snd ?given) = Bk_success" by code_simp+
  have reached: "store_reachable run_codec sample_reserved"
    unfolding sample_reserved_def by (rule store_reachable.budget [OF sample_reachable(1)]) simp
  show ?thesis
    using store_failure_is_clean [OF run_codec_lossless sample_reachable(1), of "Do_replace sample_key 1 [9, 9, 9] None" "\<lambda>site. site \<noteq> At_image"
        "fst ?failed" "snd ?failed"]
      store_failure_is_clean [OF run_codec_lossless reached, of "Do_replace sample_key 1 [9, 9, 9] (Some (fst (snd sample_grant)))" "\<lambda>_. True"
        "fst ?given" "snd ?given"] status
    by (simp add: case_prod_beta ledgers_left_def)
qed

text \<open>
  C5: A read of a reachable store always returns, and says exactly what it should: an unknown chunk, an invalid
  one, a range past the valid bytes and a failed allocation have their own status, and otherwise the bytes are the
  range of the contents of the chunk; no verification of a stored block ever fails.
\<close>

theorem read_returns_contents:
  assumes "codec_lossless codec" "store_reachable codec s" "n < 18446744073709551616"
  shows "read_chunk memory codec key off n s =
    (case hs_chunks s key of
       None \<Rightarrow> Some (outcome Bk_chunk_not_found no_chunk, None)
     | Some im \<Rightarrow>
         let current = image_info key im
         in if im_representation im = Backing_invalid then Some (outcome Bk_invalid_state current, None)
            else if unat off + n > unat (im_valid_bytes im) then Some (outcome Bk_range_out_of_bounds current, None)
            else if n \<noteq> 0 \<and> im_representation im \<noteq> Backing_implicit_zero \<and> \<not> memory At_image
            then Some (outcome Bk_allocation_failure current, None)
            else Some (outcome Bk_success current, Some (take n (drop (unat off) (image_bytes codec im)))))"
  unfolding Let_def by (rule read_chunk_exact [OF reachable_ok [OF assms(1,2)] assms(3)])

theorem read_returns_contents_witness:
  "map_option snd (read_chunk (\<lambda>_. True) run_codec sample_key 1 2 sample_filled) = Some (Some [9, 9])"
proof -
  obtain im where "hs_chunks sample_filled sample_key = Some im" "im_representation im = Backing_raw" "im_valid_bytes im = 3"
    "image_bytes run_codec im = [9, 9, 9]"
    using sample_filled_facts by (auto simp: case_prod_beta sample_filled_def)
  then show ?thesis
    using read_returns_contents [OF run_codec_lossless sample_reachable(2), of 2 "\<lambda>_. True" sample_key 1] by (simp add: Let_def)
qed

text \<open>
  C6: An encoded chunk survives the round trip through a container: with memory available the export of a chunk
  in a reachable store succeeds, and a commit of the exported container to a chunk of a (possibly other) store,
  when it succeeds, gives that chunk the same bytes and the same content token.
\<close>

theorem export_commit_round_trip:
  assumes "codec_lossless codec" "store_reachable codec s" "store_reachable codec t" "memory At_image"
    and "hs_chunks s key = Some im" "im_representation im = Backing_lz4_blocks"
    and "export_lz4_blocks memory codec key s = (status, container)"
    and "commit_lz4_blocks memory' codec key' g (the container) candidate t = (t', candidate', result)"
  shows "status = Bk_success \<and> container \<noteq> None \<and>
    (br_status result = Bk_success \<longrightarrow>
       (\<exists>im'. hs_chunks t' key' = Some im' \<and> image_bytes codec im' = image_bytes codec im \<and>
              im_content_token im' = im_content_token im \<and> im_generation im' = im_generation im))"
proof -
  note ok = reachable_ok [OF assms(1,2)] and tok = reachable_ok [OF assms(1,3)]
  obtain c where c: "status = Bk_success" "container = Some c" "container_bytes codec c = image_bytes codec im"
    "ls_content_token c = compute_content_token (image_bytes codec im)" "ls_generation c = im_generation im"
    using export_exact [OF ok assms(5,6,7,4)] by blast
  have run: "commit_lz4_blocks memory' codec key' g c candidate t = (t', candidate', result)" using assms(8) c(2) by simp
  have step: "steps_as codec (Do_commit_lz4 key' g c candidate) t t' result"
    using run by (intro store_step_facts [OF assms(1) tok, where memory = memory']) simp_all
  have token: "im_content_token im = compute_content_token (image_bytes codec im)"
    using store_ok_chunk(1) [OF ok assms(5)] assms(6) by (simp add: image_ok_def image_holds_def)
  have "\<exists>im'. hs_chunks t' key' = Some im' \<and> image_bytes codec im' = image_bytes codec im \<and>
              im_content_token im' = im_content_token im \<and> im_generation im' = im_generation im"
    if success: "br_status result = Bk_success"
  proof -
    obtain old where old: "hs_chunks t key' = Some old" "im_generation old = g" "next_generation g = Inr (ls_generation c)"
      using run success
      by (auto simp: commit_lz4_blocks_def outcome_def Let_def dest: next_generation_Inl split: option.splits if_splits sum.splits)
    have "store_view codec t' key' = map_option (successor Backing_lz4_blocks (Some (image_bytes codec im))) (store_view codec t key')"
      using step success old(1) c(3) by (simp add: steps_as_def revise_def store_view_def)
    then obtain im' where im': "hs_chunks t' key' = Some im'"
      "image_view codec im' = successor Backing_lz4_blocks (Some (image_bytes codec im)) (image_view codec old)"
      using old(1) by (auto simp: store_view_def)
    then have v: "im_representation im' = Backing_lz4_blocks" "image_bytes codec im' = image_bytes codec im"
      "im_generation im' = im_generation old + 1"
      by (simp_all add: image_view_def successor_def split: if_splits)
    have "store_ok codec t'" using step by (simp add: steps_as_def)
    then have "im_content_token im' = compute_content_token (image_bytes codec im')"
      using store_ok_chunk(1) im'(1) v(1) by (fastforce simp: image_ok_def image_holds_def)
    then show ?thesis
      using im'(1) v token c(5) old next_generation_Inr [OF old(3)] by auto
  qed
  then show ?thesis using c by auto
qed

theorem export_commit_round_trip_witness:
  "case commit_lz4_blocks (\<lambda>_. True) run_codec sample_key 2
       (the (snd (export_lz4_blocks (\<lambda>_. True) run_codec sample_key sample_encoded))) None sample_filled of
     (t', _, result) \<Rightarrow> br_status result = Bk_success \<and>
       image_bytes run_codec (the (hs_chunks t' sample_key)) = [9, 9, 9] \<and>
       im_representation (the (hs_chunks t' sample_key)) = Backing_lz4_blocks"
proof -
  let ?e = "export_lz4_blocks (\<lambda>_. True) run_codec sample_key sample_encoded"
  let ?c = "commit_lz4_blocks (\<lambda>_. True) run_codec sample_key 2 (the (snd ?e)) None sample_filled"
  have src: "map_option (\<lambda>im. (im_representation im, image_bytes run_codec im)) (hs_chunks sample_encoded sample_key) =
      Some (Backing_lz4_blocks, [9, 9, 9])" by code_simp
  then obtain im where im: "hs_chunks sample_encoded sample_key = Some im" "im_representation im = Backing_lz4_blocks"
    "image_bytes run_codec im = [9, 9, 9]" by auto
  have status: "(case ?c of (t, _, result) \<Rightarrow> (br_status result, map_option im_representation (hs_chunks t sample_key))) =
      (Bk_success, Some Backing_lz4_blocks)" by code_simp
  show ?thesis
    using export_commit_round_trip [OF run_codec_lossless sample_reachable(3,2), of "\<lambda>_. True" sample_key im "fst ?e" "snd ?e"
        "\<lambda>_. True" sample_key 2 None "fst ?c" "fst (snd ?c)" "snd (snd ?c)"] im status
    by (auto simp: case_prod_beta)
qed

end
