(* ===== verification/State_Triples.thy ===== *)
theory State_Triples
  imports Main "HOL-Library.State_Monad"
begin

text \<open>
  Programs of the state monad and triples for them. \<open>triple_on view P f Q\<close> states that f, run in a state whose view satisfies
  P, gives a result and a state whose view satisfies Q with it; the view is the part of the state the facts are about. A
  program that leaves the view alone is quiet. The rules follow the shape of a program; those for quiet programs are
  the collection \<open>quiets\<close>.
\<close>

definition modify :: "('s \<Rightarrow> 's) \<Rightarrow> ('s, unit) state" where
  "modify f = State_Monad.bind State_Monad.get (\<lambda>s. State_Monad.set (f s))"

definition triple_on :: "('s \<Rightarrow> 'v) \<Rightarrow> ('v \<Rightarrow> bool) \<Rightarrow> ('s, 'a) state \<Rightarrow> ('a \<Rightarrow> 'v \<Rightarrow> bool) \<Rightarrow> bool" where
  "triple_on view P f Q \<longleftrightarrow> (\<forall>s. P (view s) \<longrightarrow> Q (fst (run_state f s)) (view (snd (run_state f s))))"

definition quiet_on :: "('s \<Rightarrow> 'v) \<Rightarrow> ('s, 'a) state \<Rightarrow> bool" where
  "quiet_on view f \<longleftrightarrow> (\<forall>s. view (snd (run_state f s)) = view s)"

named_theorems quiets

lemma tripleI:
  assumes "\<And>s. P (view s) \<Longrightarrow> Q (fst (run_state f s)) (view (snd (run_state f s)))"
  shows "triple_on view P f Q"
  using assms by (auto simp: triple_on_def)

lemma tripleD:
  assumes "triple_on view P f Q" "P (view s)" "run_state f s = (x, s')"
  shows "Q x (view s')"
  using assms unfolding triple_on_def by (metis fst_conv snd_conv)

lemma triple_bind:
  assumes "triple_on view P f R" and "\<And>x. triple_on view (R x) (g x) Q"
  shows "triple_on view P (State_Monad.bind f g) Q"
  using assms by (simp add: triple_on_def State_Monad.bind_def split: prod.splits) (metis fst_conv snd_conv)

lemma triple_return: "(\<And>b. P b \<Longrightarrow> Q x b) \<Longrightarrow> triple_on view P (State_Monad.return x) Q"
  by (simp add: triple_on_def State_Monad.return_def)

lemma triple_if:
  assumes "c \<Longrightarrow> triple_on view P f Q" and "\<not> c \<Longrightarrow> triple_on view P g Q"
  shows "triple_on view P (if c then f else g) Q"
  using assms by simp

lemma triple_conseq:
  assumes "triple_on view P' f Q'" "\<And>b. P b \<Longrightarrow> P' b" "\<And>x b. Q' x b \<Longrightarrow> Q x b"
  shows "triple_on view P f Q"
  using assms by (simp add: triple_on_def)

lemma triple_pre:
  assumes "triple_on view P' f Q" "\<And>b. P b \<Longrightarrow> P' b"
  shows "triple_on view P f Q"
  using assms by (simp add: triple_on_def)

lemma triple_fact:
  assumes "\<And>b. P b \<Longrightarrow> c" and "c \<Longrightarrow> triple_on view P f Q"
  shows "triple_on view P f Q"
  using assms by (auto simp: triple_on_def)

lemma triple_get:
  assumes "\<And>s. triple_on view (\<lambda>b. P b \<and> b = view s) (g s) Q"
  shows "triple_on view P (State_Monad.bind State_Monad.get g) Q"
  using assms by (auto simp: triple_on_def State_Monad.bind_def State_Monad.get_def)

lemma triple_quiet:
  assumes "quiet_on view f"
  shows "triple_on view P f (\<lambda>_. P)"
  using assms by (simp add: triple_on_def quiet_on_def)

lemma triple_hush:
  assumes "quiet_on view f" and "\<And>x b. P b \<Longrightarrow> Q x b"
  shows "triple_on view P f Q"
  using assms by (simp add: triple_on_def quiet_on_def)

lemma triple_after:
  assumes "triple_on view P f (\<lambda>_. R)" and "triple_on view R g Q"
  shows "triple_on view P (State_Monad.bind f (\<lambda>_. g)) Q"
  using assms by (rule triple_bind)

lemma triple_quietly:
  assumes "quiet_on view f" and "triple_on view P g Q"
  shows "triple_on view P (State_Monad.bind f (\<lambda>_. g)) Q"
  using triple_quiet [OF assms(1)] assms(2) by (rule triple_bind)

lemma run_modify: "snd (run_state (modify f) s) = f s"
  by (simp add: modify_def State_Monad.bind_def State_Monad.get_def State_Monad.set_def)

lemma triple_modify:
  assumes "\<And>b. P b \<Longrightarrow> Q () (g b)" and "\<And>s. view (f s) = g (view s)"
  shows "triple_on view P (modify f) Q"
  using assms by (simp add: triple_on_def run_modify)

lemma quiet_modify:
  assumes "\<And>s. view (f s) = view s"
  shows "quiet_on view (modify f)"
  using assms by (simp add: quiet_on_def modify_def State_Monad.bind_def State_Monad.get_def State_Monad.set_def)

lemma quiet_return [quiets]: "quiet_on view (State_Monad.return x)"
  by (simp add: quiet_on_def State_Monad.return_def)

lemma quiet_bind [quiets]:
  assumes "quiet_on view f" "\<And>x. quiet_on view (g x)"
  shows "quiet_on view (State_Monad.bind f g)"
  using assms by (auto simp: quiet_on_def State_Monad.bind_def split: prod.splits) (metis snd_conv)

lemma quiet_if [quiets]: "quiet_on view f \<Longrightarrow> quiet_on view g \<Longrightarrow> quiet_on view (if c then f else g)"
  by simp

lemma quiet_get [quiets]: "quiet_on view State_Monad.get"
  by (simp add: quiet_on_def State_Monad.get_def)

lemma quiet_cases [quiets]:
  "quiet_on view f \<Longrightarrow> (\<And>x. quiet_on view (g x)) \<Longrightarrow> quiet_on view (case z of None \<Rightarrow> f | Some x \<Rightarrow> g x)"
  "(\<And>x. quiet_on view (h x)) \<Longrightarrow> (\<And>x. quiet_on view (g x)) \<Longrightarrow> quiet_on view (case w of Inl x \<Rightarrow> h x | Inr x \<Rightarrow> g x)"
  "(\<And>x y. quiet_on view (k x y)) \<Longrightarrow> quiet_on view (case p of (x, y) \<Rightarrow> k x y)"
  by (simp_all split: option.split sum.split prod.split)

lemma triple_bind_pair:
  assumes "triple_on view P f R" and "\<And>x y. triple_on view (R (x, y)) (g x y) Q"
  shows "triple_on view P (State_Monad.bind f (\<lambda>(x, y). g x y)) Q"
  by (rule triple_bind [OF assms(1)]) (use assms(2) in auto)

lemma triple_on_success:
  assumes "c \<Longrightarrow> triple_on view P f Q" and "\<not> c \<Longrightarrow> triple_on view P' f' Q"
  shows "triple_on view (if c then P else P') (if c then f else f') Q" "triple_on view (if c then P else P') (if \<not> c then f' else f) Q"
  using assms by simp_all

lemma triple_knowing:
  assumes "c \<Longrightarrow> triple_on view P f Q"
  shows "triple_on view (\<lambda>b. P b \<and> c) f Q" "triple_on view (\<lambda>b. c \<and> P b) f Q"
  using assms by (auto simp: triple_on_def)

lemma triple_ex:
  assumes "\<And>x. triple_on view (P x) f Q"
  shows "triple_on view (\<lambda>b. \<exists>x. P x b) f Q"
  using assms by (auto simp: triple_on_def)

text \<open>Running a program one step at a time; the congruence keeps the simplifier out of what comes later.\<close>

lemma bind_weak: "f = f' \<Longrightarrow> State_Monad.bind f g = State_Monad.bind f' g"
  by simp

lemma run_basics:
  "run_state State_Monad.get s = (s, s)" "run_state (State_Monad.set x) s = ((), x)"
  "run_state (State_Monad.return v) s = (v, s)" "run_state (modify f) s = ((), f s)"
  by (simp_all add: modify_def State_Monad.bind_def State_Monad.get_def State_Monad.set_def State_Monad.return_def)

end
