(* ===== verification/Torch_Allocator.thy ===== *)
theory Torch_Allocator
  imports Base_Text State_Triples "HOL-Library.AList"
begin

text \<open>
The PyTorch pluggable allocator (src/src/torch/allocator.cpp, src/src/torch/plugin.cpp). An allocation is one CUDA
  virtual-memory segment: an address range that is reserved, a physical handle that is created and mapped into it, and
  access rights on it. A deallocation waits for the allocation stream, then unmaps, releases and frees in that order.
  What cannot be undone is kept in the registry as quarantined and poisons the allocator, which then refuses to allocate.

  The operations are programs of the state monad over the record \<open>allocator\<close>, whose history holds every driver call
  made and its reply. \<open>allocate\<close> is cut into \<open>register_segment\<close>, \<open>set_up_segment\<close>, \<open>activate_segment\<close> and the failure exits
  \<open>return_address\<close> and \<open>fail_setup\<close>; \<open>deallocate\<close> into \<open>free_in_context\<close>, \<open>fence\<close>, \<open>unmap_segment\<close> and
  \<open>retire_segment\<close>, with the exit \<open>abandon\<close>. The process mutex makes the operations atomic.
\<close>

section \<open>The CUDA driver\<close>

text \<open>
  The driver is a parameter: a function from the history of the calls made so far, newest first, and a call to
  its reply. A reply has a result code and the value left in the output variable of the call.
\<close>

datatype cuda_call =
    Load_driver | Ctx_get_current | Ctx_get_device | Ctx_push u64 | Ctx_pop | Stream_is_capturing u64
  | Get_granularity int | Address_reserve u64 | Address_free u64 u64 | Mem_create u64 int | Mem_release u64
  | Mem_map u64 u64 u64 | Mem_unmap u64 u64 | Set_access u64 u64 int
  | Event_create | Event_record u64 u64 | Event_synchronize u64 | Event_destroy u64

record cuda_reply =
  rp_code :: int
  rp_value :: u64

type_synonym cuda_history = "(cuda_call \<times> cuda_reply) list"
type_synonym cuda_driver = "cuda_history \<Rightarrow> cuda_call \<Rightarrow> cuda_reply"

record error_texts =
  et_name :: "int \<Rightarrow> string option"
  et_description :: "int \<Rightarrow> string option"

definition cuda_success :: int where "cuda_success = 0"
definition cuda_out_of_memory :: int where "cuda_out_of_memory = 2"

section \<open>Data\<close>

datatype allocator_status =
    Ta_success | Ta_invalid_argument | Ta_incompatible_abi | Ta_unavailable | Ta_out_of_memory | Ta_cuda_error
  | Ta_context_mismatch | Ta_capture_unsupported | Ta_unknown_pointer | Ta_quarantined | Ta_internal_error

record last_error =
  le_status :: allocator_status
  le_native_code :: int
  le_stage :: string
  le_operation :: string
  le_message :: string

record segment =
  sg_address :: u64
  sg_requested_bytes :: u64
  sg_mapped_bytes :: u64
  sg_handle :: u64
  sg_context :: u64
  sg_allocation_stream :: u64
  sg_device :: int
  sg_reservation_active :: bool
  sg_mapped :: bool
  sg_access_set :: bool
  sg_active :: bool
  sg_quarantined :: bool

record allocator_stats =
  st_allocation_calls :: u64
  st_free_calls :: u64
  st_allocation_failures :: u64
  st_free_failures :: u64
  st_requested_bytes_total :: u64
  st_requested_bytes_current :: u64
  st_requested_bytes_peak :: u64
  st_mapped_bytes_total :: u64
  st_mapped_bytes_current :: u64
  st_mapped_bytes_peak :: u64
  st_active_segments :: u64
  st_active_segments_peak :: u64
  st_reservations :: u64
  st_handles_created :: u64
  st_maps :: u64
  st_set_access_calls :: u64
  st_event_boundaries :: u64
  st_unmaps :: u64
  st_handle_releases :: u64
  st_reservation_frees :: u64
  st_capture_rejections :: u64
  st_context_mismatches :: u64
  st_size_mismatches :: u64
  st_stream_mismatches :: u64
  st_oom_failures :: u64
  st_quarantined_segments :: u64
  st_quarantined_mapped_bytes :: u64
  st_unsafe_unmaps :: u64
  st_last_native_error :: int
  st_last_status :: allocator_status

datatype errno_value = Errno_unset | ENOMEM | EINVAL

record allocator =
  al_segments :: "(u64 \<times> segment) list"
  al_emergency_quarantine :: "segment option"
  al_registry_limit :: u64
  al_poisoned :: bool
  al_stats :: allocator_stats
  al_last_error :: last_error
  al_poison_error :: last_error
  al_errno :: errno_value
  al_history :: cuda_history

definition no_error :: last_error where
  "no_error = \<lparr>le_status = Ta_success, le_native_code = 0, le_stage = [], le_operation = [], le_message = []\<rparr>"

definition stats_init :: allocator_stats where
  "stats_init = \<lparr>st_allocation_calls = 0, st_free_calls = 0, st_allocation_failures = 0, st_free_failures = 0,
     st_requested_bytes_total = 0, st_requested_bytes_current = 0, st_requested_bytes_peak = 0,
     st_mapped_bytes_total = 0, st_mapped_bytes_current = 0, st_mapped_bytes_peak = 0, st_active_segments = 0,
     st_active_segments_peak = 0, st_reservations = 0, st_handles_created = 0, st_maps = 0, st_set_access_calls = 0,
     st_event_boundaries = 0, st_unmaps = 0, st_handle_releases = 0, st_reservation_frees = 0,
     st_capture_rejections = 0, st_context_mismatches = 0, st_size_mismatches = 0, st_stream_mismatches = 0,
     st_oom_failures = 0, st_quarantined_segments = 0, st_quarantined_mapped_bytes = 0, st_unsafe_unmaps = 0,
     st_last_native_error = 0, st_last_status = Ta_success\<rparr>"

definition allocator_new :: "u64 \<Rightarrow> cuda_history \<Rightarrow> allocator" where
  "allocator_new registry_limit history =
     \<lparr>al_segments = [], al_emergency_quarantine = None, al_registry_limit = registry_limit, al_poisoned = False,
      al_stats = stats_init, al_last_error = no_error, al_poison_error = no_error, al_errno = Errno_unset,
      al_history = history\<rparr>"

section \<open>Helpers\<close>

definition copy_text :: "nat \<Rightarrow> string \<Rightarrow> string" where
  "copy_text capacity source = take (capacity - 1) (takeWhile (\<lambda>c. c \<noteq> CHR 0x00) source)"

definition counter_add :: "u64 \<Rightarrow> u64 \<Rightarrow> u64" where
  "counter_add left right = (if right > max_u64 - left then max_u64 else left + right)"

definition counter_subtract :: "u64 \<Rightarrow> u64 \<Rightarrow> u64" where
  "counter_subtract v decrement = (if decrement > v then 0 else v - decrement)"

definition align_up :: "u64 \<Rightarrow> u64 \<Rightarrow> u64 option" where
  "align_up v alignment =
     (if alignment = 0 then None
      else
        let remainder = v mod alignment
        in if remainder = 0 then Some v
           else let increment = alignment - remainder
                in if v > max_u64 - increment then None else Some (v + increment))"

type_synonym 'a allocating = "(allocator, 'a) state"

definition with_stats :: "(allocator_stats \<Rightarrow> allocator_stats) \<Rightarrow> unit allocating" where
  "with_stats f = modify (\<lambda>s. s\<lparr>al_stats := f (al_stats s)\<rparr>)"

definition add_counter :: "((u64 \<Rightarrow> u64) \<Rightarrow> allocator_stats \<Rightarrow> allocator_stats) \<Rightarrow> u64 \<Rightarrow> unit allocating" where
  "add_counter field increment = with_stats (field (\<lambda>v. counter_add v increment))"

definition subtract_counter :: "((u64 \<Rightarrow> u64) \<Rightarrow> allocator_stats \<Rightarrow> allocator_stats) \<Rightarrow> u64 \<Rightarrow> unit allocating" where
  "subtract_counter field decrement = with_stats (field (\<lambda>v. counter_subtract v decrement))"

definition set_errno :: "errno_value \<Rightarrow> unit allocating" where
  "set_errno v = modify (\<lambda>s. s\<lparr>al_errno := v\<rparr>)"

definition invoke :: "cuda_driver \<Rightarrow> cuda_call \<Rightarrow> cuda_reply allocating" where
  "invoke driver c = do {
     s \<leftarrow> State_Monad.get;
     let r = driver (al_history s) c;
     State_Monad.set (s\<lparr>al_history := (c, r) # al_history s\<rparr>);
     State_Monad.return r
   }"

definition change_segment :: "u64 \<Rightarrow> segment \<Rightarrow> unit allocating" where
  "change_segment address segment = modify (\<lambda>s. s\<lparr>al_segments := AList.update address segment (al_segments s)\<rparr>)"

definition erase_segment :: "u64 \<Rightarrow> unit allocating" where
  "erase_segment address = modify (\<lambda>s. s\<lparr>al_segments := AList.delete address (al_segments s)\<rparr>)"

section \<open>Diagnostics and quarantine\<close>

definition restore_poison_diagnostic :: "unit allocating" where
  "restore_poison_diagnostic = modify (\<lambda>s.
     if \<not> al_poisoned s then s
     else s\<lparr>al_stats := (al_stats s)\<lparr>st_last_status := Ta_quarantined,
                                     st_last_native_error := le_native_code (al_poison_error s)\<rparr>,
            al_last_error := al_poison_error s\<rparr>)"

definition record_failure :: "allocator_status \<Rightarrow> string \<Rightarrow> string \<Rightarrow> string \<Rightarrow> int \<Rightarrow> unit allocating" where
  "record_failure status stage operation message native_code = do {
     s \<leftarrow> State_Monad.get;
     if al_poisoned s then restore_poison_diagnostic
     else modify (\<lambda>s. s\<lparr>al_stats := (al_stats s)\<lparr>st_last_status := status, st_last_native_error := native_code\<rparr>,
            al_last_error := \<lparr>le_status = status, le_native_code = native_code, le_stage = copy_text 32 stage,
              le_operation = copy_text 64 operation, le_message = copy_text 256 message\<rparr>\<rparr>)
   }"

definition cuda_message :: "error_texts \<Rightarrow> int \<Rightarrow> string" where
  "cuda_message texts code =
     (let text = (case et_name texts code of
                    None \<Rightarrow> ''CUDA driver error '' @ decimal_int code
                  | Some name \<Rightarrow>
                      (case et_description texts code of
                         None \<Rightarrow> name
                       | Some description \<Rightarrow> name @ '': '' @ description))
      in take 255 text)"

definition record_cuda_failure :: "error_texts \<Rightarrow> string \<Rightarrow> string \<Rightarrow> int \<Rightarrow> unit allocating" where
  "record_cuda_failure texts stage operation code = do {
     let status = (if code = cuda_out_of_memory then Ta_out_of_memory else Ta_cuda_error);
     (if code = cuda_out_of_memory
      then do { add_counter st_oom_failures_update 1; set_errno ENOMEM }
      else State_Monad.return ());
     record_failure status stage operation (cuda_message texts code) code
   }"

definition poison_current_failure :: "unit allocating" where
  "poison_current_failure = do {
     modify (\<lambda>s.
       if al_poisoned s then s
       else
         let e = (al_last_error s)\<lparr>le_status := Ta_quarantined\<rparr>;
             e = (if le_status (al_last_error s) = Ta_success
                  then e\<lparr>le_stage := copy_text 32 ''allocator'', le_operation := copy_text 64 ''quarantine'',
                         le_message := copy_text 256
                           ''an unsafe cleanup boundary quarantined the allocator process boundary''\<rparr>
                  else e)
         in s\<lparr>al_poison_error := e, al_poisoned := True\<rparr>);
     restore_poison_diagnostic
   }"

definition quarantine :: "segment \<Rightarrow> unit allocating" where
  "quarantine segment = do {
     s \<leftarrow> State_Monad.get;
     case map_of (al_segments s) (sg_address segment) of
       None \<Rightarrow> State_Monad.return ()
     | Some found \<Rightarrow> do {
         (if \<not> sg_quarantined found
          then do {
            change_segment (sg_address segment) (segment\<lparr>sg_quarantined := True\<rparr>);
            add_counter st_quarantined_segments_update 1;
            (if sg_mapped segment then add_counter st_quarantined_mapped_bytes_update (sg_mapped_bytes segment)
             else State_Monad.return ())
          }
          else State_Monad.return ());
         poison_current_failure
       }
   }"

definition quarantine_untracked :: "segment \<Rightarrow> unit allocating" where
  "quarantine_untracked segment = do {
     modify (\<lambda>s. s\<lparr>al_emergency_quarantine := Some (segment\<lparr>sg_quarantined := True\<rparr>)\<rparr>);
     add_counter st_quarantined_segments_update 1;
     (if sg_mapped segment then add_counter st_quarantined_mapped_bytes_update (sg_mapped_bytes segment)
      else State_Monad.return ());
     poison_current_failure
   }"

definition capture_is_safe :: "cuda_driver \<Rightarrow> error_texts \<Rightarrow> u64 \<Rightarrow> string \<Rightarrow> bool allocating" where
  "capture_is_safe driver texts stream operation = do {
     r \<leftarrow> invoke driver (Stream_is_capturing stream);
     if rp_code r \<noteq> cuda_success
     then do {
       record_cuda_failure texts ''stream'' ''cuStreamIsCapturing'' (rp_code r);
       State_Monad.return False
     }
     else if rp_value r \<noteq> 0
     then do {
       add_counter st_capture_rejections_update 1;
       record_failure Ta_capture_unsupported ''stream'' operation
         ''new or released VMM segments are not supported during CUDA stream capture'' cuda_success;
       set_errno ENOMEM;
       State_Monad.return False
     }
     else State_Monad.return True
   }"

definition rollback_segment :: "cuda_driver \<Rightarrow> error_texts \<Rightarrow> segment \<Rightarrow> (segment \<times> bool) allocating" where
  "rollback_segment driver texts segment = do {
     (segment, unmapped) \<leftarrow>
       (if sg_mapped segment
        then do {
          r \<leftarrow> invoke driver (Mem_unmap (sg_address segment) (sg_mapped_bytes segment));
          if rp_code r = cuda_success
          then do {
            add_counter st_unmaps_update 1;
            subtract_counter st_mapped_bytes_current_update (sg_mapped_bytes segment);
            State_Monad.return (segment\<lparr>sg_mapped := False, sg_access_set := False\<rparr>, True)
          }
          else do { record_cuda_failure texts ''rollback'' ''cuMemUnmap'' (rp_code r); State_Monad.return (segment, False) }
        }
        else State_Monad.return (segment, True));
     (segment, released) \<leftarrow>
       (if sg_handle segment \<noteq> 0
        then do {
          r \<leftarrow> invoke driver (Mem_release (sg_handle segment));
          if rp_code r = cuda_success
          then do { add_counter st_handle_releases_update 1; State_Monad.return (segment\<lparr>sg_handle := 0\<rparr>, True) }
          else do { record_cuda_failure texts ''rollback'' ''cuMemRelease'' (rp_code r); State_Monad.return (segment, False) }
        }
        else State_Monad.return (segment, True));
     (segment, freed) \<leftarrow>
       (if sg_reservation_active segment \<and> \<not> sg_mapped segment \<and> sg_handle segment = 0
        then do {
          r \<leftarrow> invoke driver (Address_free (sg_address segment) (sg_mapped_bytes segment));
          if rp_code r = cuda_success
          then do {
            add_counter st_reservation_frees_update 1;
            State_Monad.return (segment\<lparr>sg_reservation_active := False\<rparr>, True)
          }
          else do { record_cuda_failure texts ''rollback'' ''cuMemAddressFree'' (rp_code r); State_Monad.return (segment, False) }
        }
        else State_Monad.return (segment, True));
     State_Monad.return (segment, unmapped \<and> released \<and> freed \<and>
       \<not> sg_mapped segment \<and> sg_handle segment = 0 \<and> \<not> sg_reservation_active segment)
   }"

definition retire_active_telemetry :: "segment \<Rightarrow> unit allocating" where
  "retire_active_telemetry segment =
     (if \<not> sg_active segment then State_Monad.return ()
      else do {
        subtract_counter st_requested_bytes_current_update (sg_requested_bytes segment);
        subtract_counter st_active_segments_update 1
      })"


section \<open>Allocating\<close>

text \<open>
  What the registry does with a new entry: it stores it, or throws \<open>std::bad_alloc\<close>, or throws something else. Nothing
  else in the two operations throws, so that their outer handlers are not reached.
\<close>

datatype registry_outcome = Reg_stores | Reg_bad_alloc | Reg_other_exception

definition fail_allocation ::
    "allocator_status \<Rightarrow> string \<Rightarrow> string \<Rightarrow> string \<Rightarrow> errno_value \<Rightarrow> u64 allocating" where
  "fail_allocation status stage operation message errno = do {
     add_counter st_allocation_failures_update 1;
     record_failure status stage operation message cuda_success;
     set_errno errno;
     State_Monad.return 0
   }"

definition fail_cuda :: "error_texts \<Rightarrow> string \<Rightarrow> string \<Rightarrow> int \<Rightarrow> u64 allocating" where
  "fail_cuda texts stage operation code = do {
     add_counter st_allocation_failures_update 1;
     record_cuda_failure texts stage operation code;
     State_Monad.return 0
   }"

text \<open>The address that could not be registered is given back, or kept in the emergency quarantine.\<close>

definition return_address ::
    "cuda_driver \<Rightarrow> error_texts \<Rightarrow> segment \<Rightarrow> unit allocating \<Rightarrow> unit allocating" where
  "return_address driver texts segment diagnose = do {
     r \<leftarrow> invoke driver (Address_free (sg_address segment) (sg_mapped_bytes segment));
     if rp_code r = cuda_success
     then do { add_counter st_reservation_frees_update 1; diagnose }
     else do { record_cuda_failure texts ''rollback'' ''cuMemAddressFree'' (rp_code r); quarantine_untracked segment }
   }"

definition fail_setup :: "cuda_driver \<Rightarrow> error_texts \<Rightarrow> segment \<Rightarrow> string \<Rightarrow> int \<Rightarrow> u64 allocating" where
  "fail_setup driver texts segment operation code = do {
     record_cuda_failure texts ''allocation'' operation code;
     add_counter st_allocation_failures_update 1;
     (failed, rolled_back) \<leftarrow> rollback_segment driver texts segment;
     (if rolled_back then erase_segment (sg_address segment)
      else do { change_segment (sg_address segment) failed; quarantine failed });
     State_Monad.return 0
   }"

definition activate_segment :: "segment \<Rightarrow> u64 allocating" where
  "activate_segment segment = do {
     change_segment (sg_address segment) (segment\<lparr>sg_active := True\<rparr>);
     add_counter st_requested_bytes_total_update (sg_requested_bytes segment);
     add_counter st_requested_bytes_current_update (sg_requested_bytes segment);
     with_stats (\<lambda>t. t\<lparr>st_requested_bytes_peak := max (st_requested_bytes_peak t) (st_requested_bytes_current t)\<rparr>);
     add_counter st_active_segments_update 1;
     with_stats (\<lambda>t. t\<lparr>st_active_segments_peak := max (st_active_segments_peak t) (st_active_segments t),
       st_last_status := Ta_success, st_last_native_error := 0\<rparr>);
     modify (\<lambda>s. s\<lparr>al_last_error := no_error\<rparr>);
     State_Monad.return (sg_address segment)
   }"

text \<open>From the registered reservation to the active segment.\<close>

definition set_up_segment :: "cuda_driver \<Rightarrow> error_texts \<Rightarrow> segment \<Rightarrow> u64 allocating" where
  "set_up_segment driver texts segment = do {
     let address = sg_address segment;
     let mapped_bytes = sg_mapped_bytes segment;
     r \<leftarrow> invoke driver (Mem_create mapped_bytes (sg_device segment));
     let segment = segment\<lparr>sg_handle := rp_value r\<rparr>;
     change_segment address segment;
     if rp_code r \<noteq> cuda_success then fail_setup driver texts segment ''cuMemCreate'' (rp_code r)
     else do {
       add_counter st_handles_created_update 1;
       r \<leftarrow> invoke driver (Mem_map address mapped_bytes (sg_handle segment));
       if rp_code r \<noteq> cuda_success then fail_setup driver texts segment ''cuMemMap'' (rp_code r)
       else do {
         let segment = segment\<lparr>sg_mapped := True\<rparr>;
         change_segment address segment;
         add_counter st_maps_update 1;
         add_counter st_mapped_bytes_total_update mapped_bytes;
         add_counter st_mapped_bytes_current_update mapped_bytes;
         with_stats (\<lambda>t. t\<lparr>st_mapped_bytes_peak := max (st_mapped_bytes_peak t) (st_mapped_bytes_current t)\<rparr>);
         r \<leftarrow> invoke driver (Set_access address mapped_bytes (sg_device segment));
         if rp_code r \<noteq> cuda_success then fail_setup driver texts segment ''cuMemSetAccess'' (rp_code r)
         else do {
           let segment = segment\<lparr>sg_access_set := True\<rparr>;
           change_segment address segment;
           add_counter st_set_access_calls_update 1;
           activate_segment segment
         }
       }
     }
   }"

definition register_segment ::
    "cuda_driver \<Rightarrow> error_texts \<Rightarrow> registry_outcome \<Rightarrow> segment \<Rightarrow> u64 allocating" where
  "register_segment driver texts registry initial = do {
     s \<leftarrow> State_Monad.get;
     if unat (al_registry_limit s) \<le> length (al_segments s) \<or> registry = Reg_bad_alloc
     then do {
       add_counter st_allocation_failures_update 1;
       add_counter st_oom_failures_update 1;
       return_address driver texts initial (record_failure Ta_out_of_memory ''host'' ''segment registry''
         ''host memory allocation failed while tracking a CUDA VMM segment'' cuda_success);
       set_errno ENOMEM;
       State_Monad.return 0
     }
     else if registry = Reg_other_exception
     then do {
       add_counter st_allocation_failures_update 1;
       return_address driver texts initial (record_failure Ta_internal_error ''registry'' ''insert''
         ''unexpected failure while tracking a CUDA VMM segment'' cuda_success);
       set_errno ENOMEM;
       State_Monad.return 0
     }
     else if map_of (al_segments s) (sg_address initial) \<noteq> None
     then do {
       return_address driver texts initial (record_failure Ta_internal_error ''registry'' ''insert''
         ''CUDA returned a virtual address already present in the segment registry'' cuda_success);
       add_counter st_allocation_failures_update 1;
       set_errno ENOMEM;
       State_Monad.return 0
     }
     else do {
       change_segment (sg_address initial) initial;
       set_up_segment driver texts initial
     }
   }"

definition allocate ::
    "cuda_driver \<Rightarrow> error_texts \<Rightarrow> registry_outcome \<Rightarrow> u64 \<Rightarrow> int \<Rightarrow> u64 \<Rightarrow> u64 allocating" where
  "allocate driver texts registry bytes device stream = do {
     add_counter st_allocation_calls_update 1;
     s \<leftarrow> State_Monad.get;
     if al_poisoned s
     then fail_allocation Ta_quarantined ''allocator'' ''allocate''
       ''a prior cleanup failure quarantined the allocator process boundary'' ENOMEM
     else if bytes = 0 \<or> device < 0
     then fail_allocation Ta_invalid_argument ''allocation'' ''validate''
       ''allocation size must be nonzero and device ordinal must be nonnegative'' EINVAL
     else do {
       loaded \<leftarrow> invoke driver Load_driver;
       if rp_code loaded \<noteq> cuda_success
       then fail_allocation Ta_unavailable ''loader'' ''CUDA Driver API''
         ''required CUDA VMM, context, event, or stream-capture symbols are unavailable'' ENOMEM
       else do {
         r \<leftarrow> invoke driver Ctx_get_current;
         let context = rp_value r;
         if rp_code r \<noteq> cuda_success then fail_cuda texts ''context'' ''cuCtxGetCurrent'' (rp_code r)
         else if context = 0
         then do {
           address \<leftarrow> fail_allocation Ta_context_mismatch ''context'' ''cuCtxGetCurrent''
             ''PyTorch has no current CUDA context on the allocator callback thread'' ENOMEM;
           add_counter st_context_mismatches_update 1;
           State_Monad.return address
         }
         else do {
           r \<leftarrow> invoke driver Ctx_get_device;
           let current_device = sint (rp_value r);
           if rp_code r \<noteq> cuda_success then fail_cuda texts ''context'' ''cuCtxGetDevice'' (rp_code r)
           else if current_device \<noteq> device
           then do {
             add_counter st_context_mismatches_update 1;
             fail_allocation Ta_context_mismatch ''context'' ''cuCtxGetDevice''
               ''allocator device does not match the current PyTorch CUDA context'' ENOMEM
           }
           else do {
             safe \<leftarrow> capture_is_safe driver texts stream ''allocate'';
             if \<not> safe then do { add_counter st_allocation_failures_update 1; State_Monad.return 0 }
             else do {
               r \<leftarrow> invoke driver (Get_granularity current_device);
               if rp_code r \<noteq> cuda_success
               then fail_cuda texts ''allocation'' ''cuMemGetAllocationGranularity'' (rp_code r)
               else
                 case align_up bytes (rp_value r) of
                   None \<Rightarrow> fail_allocation Ta_invalid_argument ''allocation'' ''align''
                     ''allocation size overflows the CUDA VMM granularity'' ENOMEM
                 | Some mapped_bytes \<Rightarrow>
                     if mapped_bytes = 0
                     then fail_allocation Ta_invalid_argument ''allocation'' ''align''
                       ''allocation size overflows the CUDA VMM granularity'' ENOMEM
                     else do {
                       r \<leftarrow> invoke driver (Address_reserve mapped_bytes);
                       if rp_code r \<noteq> cuda_success
                       then fail_cuda texts ''allocation'' ''cuMemAddressReserve'' (rp_code r)
                       else do {
                         add_counter st_reservations_update 1;
                         register_segment driver texts registry
                           \<lparr>sg_address = rp_value r, sg_requested_bytes = bytes, sg_mapped_bytes = mapped_bytes,
                            sg_handle = 0, sg_context = context, sg_allocation_stream = stream, sg_device = device,
                            sg_reservation_active = True, sg_mapped = False, sg_access_set = False, sg_active = False,
                            sg_quarantined = False\<rparr>
                       }
                     }
             }
           }
         }
       }
     }
   }"


section \<open>Freeing\<close>

text \<open>Pops the context that was pushed; the result says whether that failed.\<close>

definition restore_context :: "cuda_driver \<Rightarrow> error_texts \<Rightarrow> segment \<Rightarrow> bool \<Rightarrow> bool allocating" where
  "restore_context driver texts stored pushed =
     (if \<not> pushed then State_Monad.return False
      else do {
        r \<leftarrow> invoke driver Ctx_pop;
        if rp_code r \<noteq> cuda_success \<or> rp_value r \<noteq> sg_context stored
        then do {
          (if rp_code r \<noteq> cuda_success then record_cuda_failure texts ''context'' ''cuCtxPopCurrent'' (rp_code r)
           else record_failure Ta_context_mismatch ''context'' ''cuCtxPopCurrent''
             ''CUDA popped a context other than the captured context'' cuda_success);
          poison_current_failure;
          State_Monad.return True
        }
        else State_Monad.return False
      })"

text \<open>The exit of every path that must not touch the segment any more.\<close>

definition abandon :: "cuda_driver \<Rightarrow> error_texts \<Rightarrow> segment \<Rightarrow> bool \<Rightarrow> unit allocating" where
  "abandon driver texts stored pushed = do {
     restore_context driver texts stored pushed;
     quarantine stored
   }"

definition success_unless_poisoned :: "unit allocating" where
  "success_unless_poisoned = do {
     s \<leftarrow> State_Monad.get;
     if al_poisoned s then restore_poison_diagnostic
     else modify (\<lambda>s. s\<lparr>al_stats := (al_stats s)\<lparr>st_last_status := Ta_success, st_last_native_error := 0\<rparr>,
            al_last_error := no_error\<rparr>)
   }"

text \<open>The work queued on the allocation stream has completed when the result is true.\<close>

definition fence :: "cuda_driver \<Rightarrow> error_texts \<Rightarrow> segment \<Rightarrow> (bool \<times> u64) allocating" where
  "fence driver texts stored = do {
     r \<leftarrow> invoke driver Event_create;
     let completion = rp_value r;
     if rp_code r \<noteq> cuda_success
     then do {
       add_counter st_free_failures_update 1;
       record_cuda_failure texts ''fence'' ''cuEventCreate'' (rp_code r);
       State_Monad.return (False, 0)
     }
     else do {
       r \<leftarrow> invoke driver (Event_record completion (sg_allocation_stream stored));
       if rp_code r \<noteq> cuda_success
       then do {
         add_counter st_free_failures_update 1;
         record_cuda_failure texts ''fence'' ''cuEventRecord'' (rp_code r);
         invoke driver (Event_destroy completion);
         State_Monad.return (False, 0)
       }
       else do {
         r \<leftarrow> invoke driver (Event_synchronize completion);
         if rp_code r \<noteq> cuda_success
         then do {
           add_counter st_free_failures_update 1;
           record_cuda_failure texts ''fence'' ''cuEventSynchronize'' (rp_code r);
           invoke driver (Event_destroy completion);
           State_Monad.return (False, 0)
         }
         else do { add_counter st_event_boundaries_update 1; State_Monad.return (True, completion) }
       }
     }
   }"

text \<open>After the unmapping: the handle, the reservation and the registry entry.\<close>

definition retire_segment :: "cuda_driver \<Rightarrow> error_texts \<Rightarrow> segment \<Rightarrow> bool \<Rightarrow> bool \<Rightarrow> unit allocating" where
  "retire_segment driver texts stored pushed cleanup_failed = do {
     (stored, cleanup_failed) \<leftarrow>
       (if sg_handle stored \<noteq> 0
        then do {
          r \<leftarrow> invoke driver (Mem_release (sg_handle stored));
          if rp_code r = cuda_success
          then do {
            change_segment (sg_address stored) (stored\<lparr>sg_handle := 0\<rparr>);
            add_counter st_handle_releases_update 1;
            State_Monad.return (stored\<lparr>sg_handle := 0\<rparr>, cleanup_failed)
          }
          else do { record_cuda_failure texts ''cleanup'' ''cuMemRelease'' (rp_code r); State_Monad.return (stored, True) }
        }
        else State_Monad.return (stored, cleanup_failed));
     (stored, cleanup_failed) \<leftarrow>
       (if sg_reservation_active stored \<and> sg_handle stored = 0
        then do {
          r \<leftarrow> invoke driver (Address_free (sg_address stored) (sg_mapped_bytes stored));
          if rp_code r = cuda_success
          then do {
            change_segment (sg_address stored) (stored\<lparr>sg_reservation_active := False\<rparr>);
            add_counter st_reservation_frees_update 1;
            State_Monad.return (stored\<lparr>sg_reservation_active := False\<rparr>, cleanup_failed)
          }
          else do { record_cuda_failure texts ''cleanup'' ''cuMemAddressFree'' (rp_code r); State_Monad.return (stored, True) }
        }
        else State_Monad.return (stored, cleanup_failed));
     restore_failed \<leftarrow> restore_context driver texts stored pushed;
     if sg_handle stored \<noteq> 0 \<or> sg_reservation_active stored
     then do { add_counter st_free_failures_update 1; quarantine stored }
     else do {
       retire_active_telemetry stored;
       erase_segment (sg_address stored);
       if cleanup_failed \<or> restore_failed then add_counter st_free_failures_update 1
       else success_unless_poisoned
     }
   }"

definition unmap_segment :: "cuda_driver \<Rightarrow> error_texts \<Rightarrow> segment \<Rightarrow> bool \<Rightarrow> u64 \<Rightarrow> unit allocating" where
  "unmap_segment driver texts stored pushed completion = do {
     r \<leftarrow> invoke driver (Event_destroy completion);
     let destroy_failed = (rp_code r \<noteq> cuda_success);
     (if destroy_failed then record_cuda_failure texts ''cleanup'' ''cuEventDestroy'' (rp_code r) else State_Monad.return ());
     r \<leftarrow> invoke driver (Mem_unmap (sg_address stored) (sg_mapped_bytes stored));
     if rp_code r \<noteq> cuda_success
     then do {
       add_counter st_free_failures_update 1;
       record_cuda_failure texts ''cleanup'' ''cuMemUnmap'' (rp_code r);
       stored \<leftarrow>
         (if sg_handle stored \<noteq> 0
          then do {
            r \<leftarrow> invoke driver (Mem_release (sg_handle stored));
            if rp_code r = cuda_success
            then do {
              change_segment (sg_address stored) (stored\<lparr>sg_handle := 0\<rparr>);
              add_counter st_handle_releases_update 1;
              State_Monad.return (stored\<lparr>sg_handle := 0\<rparr>)
            }
            else do { record_cuda_failure texts ''cleanup'' ''cuMemRelease'' (rp_code r); State_Monad.return stored }
          }
          else State_Monad.return stored);
       abandon driver texts stored pushed
     }
     else do {
       let stored = stored\<lparr>sg_mapped := False, sg_access_set := False\<rparr>;
       change_segment (sg_address stored) stored;
       add_counter st_unmaps_update 1;
       subtract_counter st_mapped_bytes_current_update (sg_mapped_bytes stored);
       retire_segment driver texts stored pushed destroy_failed
     }
   }"

definition free_in_context :: "cuda_driver \<Rightarrow> error_texts \<Rightarrow> segment \<Rightarrow> bool \<Rightarrow> unit allocating" where
  "free_in_context driver texts stored pushed = do {
     r \<leftarrow> invoke driver Ctx_get_device;
     if rp_code r \<noteq> cuda_success \<or> sint (rp_value r) \<noteq> sg_device stored
     then do {
       add_counter st_free_failures_update 1;
       (if rp_code r \<noteq> cuda_success then record_cuda_failure texts ''context'' ''cuCtxGetDevice'' (rp_code r)
        else record_failure Ta_context_mismatch ''context'' ''cuCtxGetDevice''
          ''captured segment context no longer belongs to its original CUDA device'' cuda_success);
       abandon driver texts stored pushed
     }
     else do {
       safe \<leftarrow> capture_is_safe driver texts (sg_allocation_stream stored) ''free'';
       if \<not> safe then do { add_counter st_free_failures_update 1; abandon driver texts stored pushed }
       else do {
         (fenced, completion) \<leftarrow> fence driver texts stored;
         if \<not> fenced then abandon driver texts stored pushed
         else unmap_segment driver texts stored pushed completion
       }
     }
   }"

definition deallocate :: "cuda_driver \<Rightarrow> error_texts \<Rightarrow> u64 \<Rightarrow> u64 \<Rightarrow> int \<Rightarrow> u64 \<Rightarrow> unit allocating" where
  "deallocate driver texts address bytes device stream = do {
     add_counter st_free_calls_update 1;
     if address = 0 then success_unless_poisoned
     else do {
       s \<leftarrow> State_Monad.get;
       case map_of (al_segments s) address of
         None \<Rightarrow> do {
           add_counter st_free_failures_update 1;
           record_failure Ta_unknown_pointer ''registry'' ''free'' ''pointer is not an xVRAM PyTorch segment'' cuda_success
         }
       | Some stored \<Rightarrow>
           if sg_quarantined stored
           then do {
             add_counter st_free_failures_update 1;
             record_failure Ta_quarantined ''registry'' ''free''
               ''segment was already quarantined after an earlier unsafe cleanup boundary'' cuda_success
           }
           else do {
             (if bytes \<noteq> sg_requested_bytes stored then add_counter st_size_mismatches_update 1 else State_Monad.return ());
             (if stream \<noteq> sg_allocation_stream stored then add_counter st_stream_mismatches_update 1 else State_Monad.return ());
             (if device \<noteq> sg_device stored then add_counter st_context_mismatches_update 1 else State_Monad.return ());
             r \<leftarrow> invoke driver Ctx_get_current;
             if rp_code r \<noteq> cuda_success
             then do {
               add_counter st_free_failures_update 1;
               record_cuda_failure texts ''context'' ''cuCtxGetCurrent'' (rp_code r);
               quarantine stored
             }
             else if rp_value r \<noteq> sg_context stored
             then do {
               add_counter st_context_mismatches_update 1;
               r \<leftarrow> invoke driver (Ctx_push (sg_context stored));
               if rp_code r \<noteq> cuda_success
               then do {
                 add_counter st_free_failures_update 1;
                 record_cuda_failure texts ''context'' ''cuCtxPushCurrent'' (rp_code r);
                 quarantine stored
               }
               else free_in_context driver texts stored True
             }
             else free_in_context driver texts stored False
           }
     }
   }"

section \<open>Telemetry\<close>

definition live_allocation_count :: "allocator \<Rightarrow> nat" where
  "live_allocation_count s = length (al_segments s) + (if al_emergency_quarantine s = None then 0 else 1)"

definition count_if :: "bool \<Rightarrow> ((u64 \<Rightarrow> u64) \<Rightarrow> allocator_stats \<Rightarrow> allocator_stats) \<Rightarrow> u64 \<Rightarrow> allocator_stats \<Rightarrow> allocator_stats" where
  "count_if condition field increment t = (if condition then field (\<lambda>v. counter_add v increment) t else t)"

definition count_resources :: "segment \<Rightarrow> allocator_stats \<Rightarrow> allocator_stats" where
  "count_resources segment t =
     (let t = count_if (sg_reservation_active segment) st_reservations_update 1 t;
          t = count_if (sg_handle segment \<noteq> 0) st_handles_created_update 1 t;
          t = count_if (sg_mapped segment) st_mapped_bytes_current_update (sg_mapped_bytes segment) t;
          t = count_if (sg_mapped segment) st_mapped_bytes_total_update (sg_mapped_bytes segment) t;
          t = count_if (sg_mapped segment) st_maps_update 1 t
      in count_if (sg_access_set segment) st_set_access_calls_update 1 t)"

definition count_quarantined :: "bool \<Rightarrow> segment \<Rightarrow> allocator_stats \<Rightarrow> allocator_stats" where
  "count_quarantined quarantined segment t =
     (let t = count_if quarantined st_quarantined_segments_update 1 t
      in count_if (quarantined \<and> sg_mapped segment) st_quarantined_mapped_bytes_update (sg_mapped_bytes segment) t)"

definition count_segment :: "segment \<Rightarrow> allocator_stats \<Rightarrow> allocator_stats" where
  "count_segment segment t =
     (let t = count_if (sg_active segment) st_requested_bytes_current_update (sg_requested_bytes segment) t;
          t = count_if (sg_active segment) st_requested_bytes_total_update (sg_requested_bytes segment) t;
          t = count_if (sg_active segment) st_active_segments_update 1 t
      in count_quarantined (sg_quarantined segment) segment (count_resources segment t))"

definition reset_stats :: "unit allocating" where
  "reset_stats = modify (\<lambda>s.
     let t = fold (\<lambda>(_, segment). count_segment segment) (al_segments s) stats_init;
         t = (case al_emergency_quarantine s of
                None \<Rightarrow> t
              | Some segment \<Rightarrow> count_quarantined True segment (count_resources segment t));
         t = t\<lparr>st_requested_bytes_peak := st_requested_bytes_current t,
               st_mapped_bytes_peak := st_mapped_bytes_current t,
               st_active_segments_peak := st_active_segments t\<rparr>
     in if al_poisoned s
        then s\<lparr>al_stats := t\<lparr>st_last_status := Ta_quarantined, st_last_native_error := le_native_code (al_poison_error s)\<rparr>,
               al_last_error := al_poison_error s\<rparr>
        else s\<lparr>al_stats := t, al_last_error := no_error\<rparr>)"

section \<open>The plugin's entry points\<close>

text \<open>
  The plugin has one allocator for the life of the process; there is none when its construction ran out of memory. A
  caller's structure is the bytes of its memory, whose first four are the size it declares, lowest byte first;
  \<open>encoding\<close> is the object representation of the structure that is copied into it.
\<close>

definition declared_size :: "u8 list \<Rightarrow> nat" where
  "declared_size memory = foldr (\<lambda>b v. unat b + 256 * v) (take 4 memory) 0"

definition copy_versioned_structure ::
    "u8 list option \<Rightarrow> nat \<Rightarrow> u8 list \<Rightarrow> allocator_status \<times> u8 list option" where
  "copy_versioned_structure output_memory output_size encoding =
     (case output_memory of
        None \<Rightarrow> (Ta_incompatible_abi, None)
      | Some memory \<Rightarrow>
          if output_size < 8 \<or> declared_size memory < 8 then (Ta_incompatible_abi, Some memory)
          else
            let copied = min output_size (min (declared_size memory) (length encoding))
            in (Ta_success, Some (take copied encoding @ drop copied memory)))"

definition torch_alloc ::
    "cuda_driver \<Rightarrow> error_texts \<Rightarrow> registry_outcome \<Rightarrow> u64 \<Rightarrow> int \<Rightarrow> u64 \<Rightarrow> allocator option \<Rightarrow> u64 \<times> allocator option" where
  "torch_alloc driver texts registry bytes device stream plugin =
     (case plugin of
        None \<Rightarrow> (0, None)
      | Some s \<Rightarrow>
          let (address, s) = run_state (allocate driver texts registry bytes device stream) s in (address, Some s))"

definition torch_free ::
    "cuda_driver \<Rightarrow> error_texts \<Rightarrow> u64 \<Rightarrow> u64 \<Rightarrow> int \<Rightarrow> u64 \<Rightarrow> allocator option \<Rightarrow> allocator option" where
  "torch_free driver texts address bytes device stream plugin =
     (case plugin of
        None \<Rightarrow> None
      | Some s \<Rightarrow> Some (snd (run_state (deallocate driver texts address bytes device stream) s)))"

definition torch_get_stats ::
    "(allocator_stats \<Rightarrow> u8 list) \<Rightarrow> u8 list option \<Rightarrow> nat \<Rightarrow> allocator option \<Rightarrow> allocator_status \<times> u8 list option" where
  "torch_get_stats encoding output_memory output_size plugin =
     (case plugin of
        None \<Rightarrow> (Ta_out_of_memory, output_memory)
      | Some s \<Rightarrow> copy_versioned_structure output_memory output_size (encoding (al_stats s)))"

definition torch_reset_stats :: "allocator option \<Rightarrow> allocator_status \<times> allocator option" where
  "torch_reset_stats plugin =
     (case plugin of
        None \<Rightarrow> (Ta_out_of_memory, None)
      | Some s \<Rightarrow> (Ta_success, Some (snd (run_state reset_stats s))))"

definition torch_get_last_error ::
    "(last_error \<Rightarrow> u8 list) \<Rightarrow> u8 list option \<Rightarrow> nat \<Rightarrow> allocator option \<Rightarrow> allocator_status \<times> u8 list option" where
  "torch_get_last_error encoding output_memory output_size plugin =
     (case output_memory of
        None \<Rightarrow> (Ta_incompatible_abi, None)
      | Some memory \<Rightarrow>
          if output_size < 8 \<or> declared_size memory < 8 then (Ta_incompatible_abi, output_memory)
          else
            case plugin of
              None \<Rightarrow> (Ta_out_of_memory, output_memory)
            | Some s \<Rightarrow>
                let value_bytes = encoding (al_last_error s);
                    copied = min output_size (min (declared_size memory) (length value_bytes))
                in (Ta_success, Some (take copied value_bytes @ drop copied memory)))"

end
