(* ===== verification/Torch_Books.thy ===== *)
theory Torch_Books
  imports Torch_Allocator
begin

text \<open>
What the PyTorch allocator has on its books, and the triples of its driver calls (\<open>triple P f Q\<close>, from \<open>State_Triples\<close>); a history of driver calls determines what the driver holds
  (\<open>resources\<close>) and whether every call was legal (\<open>legal_history\<close>). \<open>settled\<close> says that the books and the driver agree
  between two operations, \<open>afloat\<close> that they agree up to the one segment an operation is working on; the lemmas \<open>call_\<close>
  give the triple of each driver call and the lemmas \<open>book_\<close> those of the changes to the registry.
\<close>

section \<open>Triples\<close>

text \<open>
  The facts below are about four fields of the allocator; the telemetry and the diagnostics are left out by \<open>books_of\<close>.
  Triples and quiet programs of the allocator are about its books.
\<close>

record books =
  bk_segments :: "(u64 \<times> segment) list"
  bk_emergency :: "segment option"
  bk_poisoned :: bool
  bk_history :: cuda_history

definition books_of :: "allocator \<Rightarrow> books" where
  "books_of s = \<lparr>bk_segments = al_segments s, bk_emergency = al_emergency_quarantine s,
     bk_poisoned = al_poisoned s, bk_history = al_history s\<rparr>"

abbreviation triple :: "(books \<Rightarrow> bool) \<Rightarrow> 'a allocating \<Rightarrow> ('a \<Rightarrow> books \<Rightarrow> bool) \<Rightarrow> bool" where
  "triple \<equiv> triple_on books_of"

abbreviation quiet :: "'a allocating \<Rightarrow> bool" where
  "quiet \<equiv> quiet_on books_of"

lemma run_invoke:
  "fst (run_state (invoke driver c) s) = driver (bk_history (books_of s)) c"
  "books_of (snd (run_state (invoke driver c) s)) =
     (books_of s)\<lparr>bk_history := (c, driver (bk_history (books_of s)) c) # bk_history (books_of s)\<rparr>"
  by (simp_all add: invoke_def books_of_def State_Monad.bind_def State_Monad.get_def State_Monad.set_def
      State_Monad.return_def Let_def)

lemma triple_invoke:
  assumes "\<And>b r. P b \<Longrightarrow> r = driver (bk_history b) c \<Longrightarrow> Q r (b\<lparr>bk_history := (c, r) # bk_history b\<rparr>)"
  shows "triple P (invoke driver c) Q"
  using assms unfolding triple_on_def run_invoke by blast

lemma triple_change:
  assumes "\<And>b. P b \<Longrightarrow> Q () (b\<lparr>bk_segments := AList.update a g (bk_segments b)\<rparr>)"
  shows "triple P (change_segment a g) Q"
  unfolding change_segment_def
  by (rule triple_modify [where g = "\<lambda>b. b\<lparr>bk_segments := AList.update a g (bk_segments b)\<rparr>"], erule assms)
    (simp add: books_of_def)

lemma triple_erase:
  assumes "\<And>b. P b \<Longrightarrow> Q () (b\<lparr>bk_segments := AList.delete a (bk_segments b)\<rparr>)"
  shows "triple P (erase_segment a) Q"
  unfolding erase_segment_def
  by (rule triple_modify [where g = "\<lambda>b. b\<lparr>bk_segments := AList.delete a (bk_segments b)\<rparr>"], erule assms)
    (simp add: books_of_def)

subsection \<open>Telemetry and diagnostics\<close>

lemma quiet_counters [quiets]:
  "quiet (with_stats f)" "quiet (add_counter field n)" "quiet (subtract_counter field n)" "quiet (set_errno e)"
  by (auto simp: with_stats_def add_counter_def subtract_counter_def set_errno_def books_of_def intro!: quiet_modify)

lemma quiet_diagnostics [quiets]:
  "quiet restore_poison_diagnostic" "quiet (record_failure st stage op message code)"
  "quiet (record_cuda_failure texts stage op code)" "quiet success_unless_poisoned" "quiet (retire_active_telemetry g)"
  by (auto simp: restore_poison_diagnostic_def record_failure_def record_cuda_failure_def success_unless_poisoned_def
      retire_active_telemetry_def books_of_def Let_def intro!: quiets quiet_modify)

lemma triple_poison:
  assumes "\<And>b. P b \<Longrightarrow> Q () (b\<lparr>bk_poisoned := True\<rparr>)"
  shows "triple P poison_current_failure Q"
  unfolding poison_current_failure_def
proof (rule triple_after)
  show "triple P (modify (\<lambda>s.
       if al_poisoned s then s
       else
         let e = (al_last_error s)\<lparr>le_status := Ta_quarantined\<rparr>;
             e = (if le_status (al_last_error s) = Ta_success
                  then e\<lparr>le_stage := copy_text 32 ''allocator'', le_operation := copy_text 64 ''quarantine'',
                         le_message := copy_text 256
                           ''an unsafe cleanup boundary quarantined the allocator process boundary''\<rparr>
                  else e)
         in s\<lparr>al_poison_error := e, al_poisoned := True\<rparr>)) (\<lambda>_. Q ())"
    by (rule triple_modify [where g = "\<lambda>b. b\<lparr>bk_poisoned := True\<rparr>"], erule assms) (simp add: books_of_def Let_def)
qed (intro triple_hush quiets, simp)

lemma triple_quarantine:
  assumes "\<And>b. P b \<Longrightarrow> \<exists>found. map_of (bk_segments b) (sg_address g) = Some found \<and> \<not> sg_quarantined found"
    and "\<And>b. P b \<Longrightarrow> Q () (b\<lparr>bk_segments := AList.update (sg_address g) (g\<lparr>sg_quarantined := True\<rparr>) (bk_segments b),
           bk_poisoned := True\<rparr>)"
  shows "triple P (quarantine g) Q"
  unfolding quarantine_def
proof (rule triple_get)
  fix s
  show "triple (\<lambda>b. P b \<and> b = books_of s) (case map_of (al_segments s) (sg_address g) of
       None \<Rightarrow> State_Monad.return ()
     | Some found \<Rightarrow> do {
         (if \<not> sg_quarantined found
          then do {
            change_segment (sg_address g) (g\<lparr>sg_quarantined := True\<rparr>);
            add_counter st_quarantined_segments_update 1;
            (if sg_mapped g then add_counter st_quarantined_mapped_bytes_update (sg_mapped_bytes g)
             else State_Monad.return ())
          }
          else State_Monad.return ());
         poison_current_failure
       }) Q"
  proof (rule triple_fact [where c = "\<exists>found. map_of (al_segments s) (sg_address g) = Some found \<and> \<not> sg_quarantined found"])
    show "\<exists>found. map_of (al_segments s) (sg_address g) = Some found \<and> \<not> sg_quarantined found"
      if "P b \<and> b = books_of s" for b
      using assms(1) [of b] that by (auto simp: books_of_def)
    assume "\<exists>found. map_of (al_segments s) (sg_address g) = Some found \<and> \<not> sg_quarantined found"
    then obtain found where "map_of (al_segments s) (sg_address g) = Some found" "\<not> sg_quarantined found" by blast
    then have branch: "?thesis \<longleftrightarrow> triple (\<lambda>b. P b \<and> b = books_of s) (do {
         do {
            change_segment (sg_address g) (g\<lparr>sg_quarantined := True\<rparr>);
            add_counter st_quarantined_segments_update 1;
            (if sg_mapped g then add_counter st_quarantined_mapped_bytes_update (sg_mapped_bytes g)
             else State_Monad.return ())
         };
         poison_current_failure
       }) Q" by simp
    let ?R = "\<lambda>b. Q () (b\<lparr>bk_poisoned := True\<rparr>)"
    show ?thesis unfolding branch
    proof (rule triple_after [where R = ?R])
      show "triple ?R poison_current_failure Q" by (rule triple_poison)
      show "triple (\<lambda>b. P b \<and> b = books_of s) (do {
            change_segment (sg_address g) (g\<lparr>sg_quarantined := True\<rparr>);
            add_counter st_quarantined_segments_update 1;
            (if sg_mapped g then add_counter st_quarantined_mapped_bytes_update (sg_mapped_bytes g)
             else State_Monad.return ())
         }) (\<lambda>_. ?R)"
        by (rule triple_after [where R = ?R], rule triple_change, drule conjunct1, erule assms(2))
          (intro triple_hush quiets, assumption)
    qed
  qed
qed

lemma triple_quarantine_untracked:
  assumes "\<And>b. P b \<Longrightarrow> Q () (b\<lparr>bk_emergency := Some (g\<lparr>sg_quarantined := True\<rparr>), bk_poisoned := True\<rparr>)"
  shows "triple P (quarantine_untracked g) Q"
  unfolding quarantine_untracked_def
proof (rule triple_after)
  show "triple P (modify (\<lambda>s. s\<lparr>al_emergency_quarantine := Some (g\<lparr>sg_quarantined := True\<rparr>)\<rparr>))
     (\<lambda>_ b. Q () (b\<lparr>bk_poisoned := True\<rparr>))"
    by (rule triple_modify [where g = "\<lambda>b. b\<lparr>bk_emergency := Some (g\<lparr>sg_quarantined := True\<rparr>)\<rparr>"])
      (auto simp: books_of_def dest!: assms)
qed (auto intro!: triple_after triple_quiet quiets triple_poison)

section \<open>What the driver holds\<close>

text \<open>
  A history determines what the driver holds for the process: the reserved address ranges, the ranges that are mapped,
  the physical handles, the events and the number of contexts pushed. An event is given up by the call that destroys it
  and a pushed context by the call that pops it, whatever they return; every other call counts only when it succeeds.
\<close>

record vmm =
  vm_reserved :: "u64 \<rightharpoonup> u64"
  vm_mapped :: "u64 \<rightharpoonup> u64"
  vm_handles :: "u64 set"
  vm_events :: "u64 set"
  vm_pushed :: nat

definition vmm_empty :: vmm where
  "vmm_empty = \<lparr>vm_reserved = Map.empty, vm_mapped = Map.empty, vm_handles = {}, vm_events = {}, vm_pushed = 0\<rparr>"

fun effect_of_success :: "cuda_call \<Rightarrow> u64 \<Rightarrow> vmm \<Rightarrow> vmm" where
  "effect_of_success (Address_reserve n) value v = v\<lparr>vm_reserved := (vm_reserved v)(value \<mapsto> n)\<rparr>"
| "effect_of_success (Address_free a n) value v = v\<lparr>vm_reserved := (vm_reserved v)(a := None)\<rparr>"
| "effect_of_success (Mem_create n d) value v = v\<lparr>vm_handles := insert value (vm_handles v)\<rparr>"
| "effect_of_success (Mem_release h) value v = v\<lparr>vm_handles := vm_handles v - {h}\<rparr>"
| "effect_of_success (Mem_map a n h) value v = v\<lparr>vm_mapped := (vm_mapped v)(a \<mapsto> n)\<rparr>"
| "effect_of_success (Mem_unmap a n) value v = v\<lparr>vm_mapped := (vm_mapped v)(a := None)\<rparr>"
| "effect_of_success Event_create value v = v\<lparr>vm_events := insert value (vm_events v)\<rparr>"
| "effect_of_success (Ctx_push c) value v = v\<lparr>vm_pushed := Suc (vm_pushed v)\<rparr>"
| "effect_of_success _ value v = v"

fun effect_of_attempt :: "cuda_call \<Rightarrow> vmm \<Rightarrow> vmm" where
  "effect_of_attempt (Event_destroy e) v = v\<lparr>vm_events := vm_events v - {e}\<rparr>"
| "effect_of_attempt Ctx_pop v = v\<lparr>vm_pushed := vm_pushed v - 1\<rparr>"
| "effect_of_attempt _ v = v"

definition effect :: "vmm \<Rightarrow> cuda_call \<Rightarrow> cuda_reply \<Rightarrow> vmm" where
  "effect v c r = (if rp_code r = cuda_success then effect_of_success c (rp_value r) (effect_of_attempt c v)
     else effect_of_attempt c v)"

fun resources :: "cuda_history \<Rightarrow> vmm" where
  "resources [] = vmm_empty"
| "resources ((c, r) # h) = effect (resources h) c r"

text \<open>A call is legal when what it names is held and is in the state the call needs.\<close>

fun legal :: "vmm \<Rightarrow> cuda_call \<Rightarrow> bool" where
  "legal v (Address_free a n) \<longleftrightarrow> vm_reserved v a = Some n \<and> vm_mapped v a = None"
| "legal v (Mem_release h) \<longleftrightarrow> h \<in> vm_handles v"
| "legal v (Mem_map a n h) \<longleftrightarrow> vm_reserved v a = Some n \<and> vm_mapped v a = None \<and> h \<in> vm_handles v"
| "legal v (Mem_unmap a n) \<longleftrightarrow> vm_mapped v a = Some n"
| "legal v (Set_access a n d) \<longleftrightarrow> vm_mapped v a = Some n"
| "legal v (Event_record e s) \<longleftrightarrow> e \<in> vm_events v"
| "legal v (Event_synchronize e) \<longleftrightarrow> e \<in> vm_events v"
| "legal v (Event_destroy e) \<longleftrightarrow> e \<in> vm_events v"
| "legal v Ctx_pop \<longleftrightarrow> vm_pushed v > 0"
| "legal v _ \<longleftrightarrow> True"

fun legal_history :: "cuda_history \<Rightarrow> bool" where
  "legal_history [] \<longleftrightarrow> True"
| "legal_history ((c, r) # h) \<longleftrightarrow> legal_history h \<and> legal (resources h) c"

text \<open>
  The documented behaviour of the driver that the allocator relies on: a reserved range and a created handle are new and
  not zero, and a failed creation leaves the handle at zero.
\<close>

fun honest_reply :: "vmm \<Rightarrow> cuda_call \<Rightarrow> cuda_reply \<Rightarrow> bool" where
  "honest_reply v (Address_reserve n) r \<longleftrightarrow>
     (if rp_code r = cuda_success then rp_value r \<noteq> 0 \<and> vm_reserved v (rp_value r) = None else True)"
| "honest_reply v (Mem_create n d) r \<longleftrightarrow>
     (if rp_code r = cuda_success then rp_value r \<noteq> 0 \<and> rp_value r \<notin> vm_handles v else rp_value r = 0)"
| "honest_reply v _ r \<longleftrightarrow> True"

definition honest :: "cuda_driver \<Rightarrow> bool" where
  "honest driver \<longleftrightarrow> (\<forall>h c. legal_history h \<longrightarrow> honest_reply (resources h) c (driver h c))"

section \<open>What the allocator has on its books\<close>

definition holdings :: "books \<Rightarrow> u64 \<rightharpoonup> segment" where
  "holdings b = (case bk_emergency b of
     None \<Rightarrow> map_of (bk_segments b)
   | Some e \<Rightarrow> (map_of (bk_segments b))(sg_address e \<mapsto> e))"

definition reservation :: "segment \<Rightarrow> u64 option" where
  "reservation g = (if sg_reservation_active g then Some (sg_mapped_bytes g) else None)"

definition mapping :: "segment \<Rightarrow> u64 option" where
  "mapping g = (if sg_mapped g then Some (sg_mapped_bytes g) else None)"

text \<open>The driver holds what the segments record, each handle belongs to one segment, and nothing else is held.\<close>

definition recorded :: "(u64 \<rightharpoonup> segment) \<Rightarrow> (segment \<Rightarrow> u64 option) \<Rightarrow> u64 \<rightharpoonup> u64" where
  "recorded m f k = Option.bind (m k) f"

definition handles_of :: "(u64 \<rightharpoonup> segment) \<Rightarrow> u64 set" where
  "handles_of m = {h. h \<noteq> 0 \<and> (\<exists>k g. m k = Some g \<and> sg_handle g = h)}"

definition exclusive :: "(u64 \<rightharpoonup> segment) \<Rightarrow> bool" where
  "exclusive m \<longleftrightarrow> (\<forall>k k' g g'. m k = Some g \<longrightarrow> m k' = Some g' \<longrightarrow> sg_handle g = sg_handle g' \<longrightarrow> sg_handle g \<noteq> 0 \<longrightarrow> k = k')"

definition accounts :: "vmm \<Rightarrow> (u64 \<rightharpoonup> segment) \<Rightarrow> bool" where
  "accounts v m \<longleftrightarrow> vm_reserved v = recorded m reservation \<and> vm_mapped v = recorded m mapping \<and>
     vm_handles v = handles_of m \<and> exclusive m"

definition usable :: "segment \<Rightarrow> bool" where
  "usable g \<longleftrightarrow> sg_mapped g \<and> sg_access_set g \<and> sg_active g \<and> sg_handle g \<noteq> 0 \<and>
     sg_requested_bytes g \<le> sg_mapped_bytes g"

definition sound :: "(u64 \<rightharpoonup> segment) \<Rightarrow> bool \<Rightarrow> bool" where
  "sound m poisoned \<longleftrightarrow> (\<forall>k g. m k = Some g \<longrightarrow>
     sg_address g = k \<and> k \<noteq> 0 \<and> sg_reservation_active g \<and> (if sg_quarantined g then poisoned else usable g))"

definition well_keyed :: "books \<Rightarrow> bool" where
  "well_keyed b \<longleftrightarrow> (\<forall>e. bk_emergency b = Some e \<longrightarrow> sg_quarantined e \<and> map_of (bk_segments b) (sg_address e) = None)"

text \<open>
  Between two operations the books are settled on a map of segments. Inside one, they are \<open>afloat\<close> with one segment whose
  entry may lag behind the driver, on the map of the others, with the events E and n contexts pushed; the segment is
  in the registry, or nowhere yet.
\<close>

definition settled :: "(u64 \<rightharpoonup> segment) \<Rightarrow> bool \<Rightarrow> books \<Rightarrow> bool" where
  "settled m p b \<longleftrightarrow> well_keyed b \<and> holdings b = m \<and> bk_poisoned b = p \<and> sound m p \<and>
     legal_history (bk_history b) \<and> accounts (resources (bk_history b)) m \<and>
     vm_events (resources (bk_history b)) = {} \<and> vm_pushed (resources (bk_history b)) = 0"

definition in_place :: "bool \<Rightarrow> u64 \<Rightarrow> books \<Rightarrow> bool" where
  "in_place registered a b \<longleftrightarrow>
     (if registered then \<exists>found. map_of (bk_segments b) a = Some found \<and> \<not> sg_quarantined found
      else map_of (bk_segments b) a = None \<and> bk_emergency b = None)"

definition afloat ::
    "bool \<Rightarrow> (u64 \<rightharpoonup> segment) \<Rightarrow> bool \<Rightarrow> u64 set \<Rightarrow> nat \<Rightarrow> segment \<Rightarrow> books \<Rightarrow> bool" where
  "afloat registered m p E n g b \<longleftrightarrow> well_keyed b \<and> (holdings b)(sg_address g := None) = m \<and>
     (\<forall>e. bk_emergency b = Some e \<longrightarrow> sg_address e \<noteq> sg_address g) \<and> in_place registered (sg_address g) b \<and>
     bk_poisoned b = p \<and> sound m p \<and> legal_history (bk_history b) \<and>
     accounts (resources (bk_history b)) (m(sg_address g \<mapsto> g)) \<and>
     vm_events (resources (bk_history b)) = E \<and> vm_pushed (resources (bk_history b)) = n \<and>
     sg_address g \<noteq> 0 \<and> \<not> sg_quarantined g"

subsection \<open>The effect of each call on the account\<close>

lemma recorded_update: "recorded (m(a \<mapsto> g)) f = (recorded m f)(a := f g)"
  by (auto simp: recorded_def)

lemma recorded_none: "m a = None \<Longrightarrow> (recorded m f)(a := None) = recorded m f"
  by (auto simp: recorded_def)

lemma recorded_at: "recorded m f a = Option.bind (m a) f"
  by (simp add: recorded_def)

lemma handles_of_update:
  assumes "m a = None"
  shows "handles_of (m(a \<mapsto> g)) = handles_of m \<union> ({sg_handle g} - {0})"
  using assms by (auto simp: handles_of_def) (metis option.distinct(1))

lemma exclusive_update:
  assumes "m a = None"
  shows "exclusive (m(a \<mapsto> g)) \<longleftrightarrow> exclusive m \<and> sg_handle g \<notin> handles_of m"
proof
  assume ex: "exclusive (m(a \<mapsto> g))"
  have "exclusive m"
    unfolding exclusive_def
  proof (intro allI impI)
    fix k k' x x'
    assume x: "m k = Some x" "m k' = Some x'" "sg_handle x = sg_handle x'" "sg_handle x \<noteq> 0"
    then have "k \<noteq> a" "k' \<noteq> a" using assms by auto
    then show "k = k'" using ex [unfolded exclusive_def, rule_format, of k x k' x'] x by simp
  qed
  moreover have "sg_handle g \<notin> handles_of m"
  proof
    assume "sg_handle g \<in> handles_of m"
    then obtain k x where x: "m k = Some x" "sg_handle x = sg_handle g" "sg_handle g \<noteq> 0" by (auto simp: handles_of_def)
    then have "k \<noteq> a" using assms by auto
    then have "(m(a \<mapsto> g)) k = Some x" "(m(a \<mapsto> g)) a = Some g" using x(1) by simp_all
    then have "k = a" using ex x(2,3) unfolding exclusive_def by metis
    then show False using \<open>k \<noteq> a\<close> by contradiction
  qed
  ultimately show "exclusive m \<and> sg_handle g \<notin> handles_of m" ..
next
  assume "exclusive m \<and> sg_handle g \<notin> handles_of m"
  then show "exclusive (m(a \<mapsto> g))" by (auto simp: exclusive_def handles_of_def) metis
qed

lemma zero_not_handle [simp]: "0 \<notin> handles_of m"
  by (simp add: handles_of_def)

text \<open>The account with one more segment, in terms of the account of the others.\<close>

lemma accounts_with:
  assumes "m a = None"
  shows "accounts v (m(a \<mapsto> g)) \<longleftrightarrow> vm_reserved v = (recorded m reservation)(a := reservation g) \<and>
     vm_mapped v = (recorded m mapping)(a := mapping g) \<and> vm_handles v = handles_of m \<union> ({sg_handle g} - {0}) \<and>
     exclusive m \<and> sg_handle g \<notin> handles_of m"
  using assms by (simp add: accounts_def recorded_update handles_of_update exclusive_update)

lemma accounts_drop:
  assumes "m a = None" "sg_handle g = 0" "\<not> sg_reservation_active g" "\<not> sg_mapped g"
  shows "accounts v (m(a \<mapsto> g)) \<longleftrightarrow> accounts v m"
  using assms by (simp add: accounts_with recorded_none reservation_def mapping_def) (simp add: accounts_def)

lemma accounts_other_fields [simp]:
  "accounts (v\<lparr>vm_events := E\<rparr>) m = accounts v m" "accounts (v\<lparr>vm_pushed := n\<rparr>) m = accounts v m"
  by (simp_all add: accounts_def)

lemma accounts_segment:
  assumes "accounts v m" "m a = Some g"
  shows "vm_reserved v a = reservation g" "vm_mapped v a = mapping g" "sg_handle g \<noteq> 0 \<Longrightarrow> sg_handle g \<in> vm_handles v"
  using assms by (auto simp: accounts_def recorded_def handles_of_def)

subsection \<open>Moving between the two conditions\<close>

lemma sound_others: "sound m p \<Longrightarrow> sound (m(a := None)) p"
  by (auto simp: sound_def)

lemma sound_poisoned: "sound m p \<Longrightarrow> sound m True"
  by (auto simp: sound_def)

lemma sound_with:
  assumes "sound m p" "sg_address g \<noteq> 0" "sg_reservation_active g" "if sg_quarantined g then p else usable g"
  shows "sound (m(sg_address g \<mapsto> g)) p"
  using assms by (auto simp: sound_def)

lemma holdings_update:
  assumes "\<And>e. bk_emergency b = Some e \<Longrightarrow> sg_address e \<noteq> a"
  shows "holdings (b\<lparr>bk_segments := AList.update a g (bk_segments b)\<rparr>) = (holdings b)(a \<mapsto> g)"
  using assms by (auto simp: holdings_def update_conv' split: option.splits)

lemma holdings_delete:
  assumes "\<And>e. bk_emergency b = Some e \<Longrightarrow> sg_address e \<noteq> a"
  shows "holdings (b\<lparr>bk_segments := AList.delete a (bk_segments b)\<rparr>) = (holdings b)(a := None)"
  using assms by (auto simp: holdings_def delete_conv' split: option.splits)

lemma holdings_frame [simp]:
  "holdings (b\<lparr>bk_poisoned := p\<rparr>) = holdings b" "holdings (b\<lparr>bk_history := h\<rparr>) = holdings b"
  by (cases "bk_emergency b"; simp add: holdings_def)+

lemma well_keyed_frame [simp]:
  "well_keyed (b\<lparr>bk_poisoned := p\<rparr>) = well_keyed b" "well_keyed (b\<lparr>bk_history := h\<rparr>) = well_keyed b"
  by (simp_all add: well_keyed_def)

lemma well_keyed_change:
  assumes "well_keyed b" "\<And>e. bk_emergency b = Some e \<Longrightarrow> sg_address e \<noteq> a"
  shows "well_keyed (b\<lparr>bk_segments := AList.update a g (bk_segments b)\<rparr>)"
    "well_keyed (b\<lparr>bk_segments := AList.delete a (bk_segments b)\<rparr>)"
  using assms by (auto simp: well_keyed_def update_conv' delete_conv')

lemma in_place_frame [simp]:
  "in_place k a (b\<lparr>bk_poisoned := p\<rparr>) = in_place k a b" "in_place k a (b\<lparr>bk_history := h\<rparr>) = in_place k a b"
  by (simp_all add: in_place_def)

lemma afloat_call:
  assumes "afloat k m p E n g b" "legal (resources (bk_history b)) c"
    and "accounts (effect (resources (bk_history b)) c r) (m(sg_address g \<mapsto> g'))"
    and "sg_address g' = sg_address g" "sg_quarantined g' = sg_quarantined g"
    and "vm_events (effect (resources (bk_history b)) c r) = E'" "vm_pushed (effect (resources (bk_history b)) c r) = n'"
  shows "afloat k m p E' n' g' (b\<lparr>bk_history := (c, r) # bk_history b\<rparr>)"
  using assms by (simp add: afloat_def)

lemma afloat_account:
  assumes "afloat k m p E n g b"
  shows "m (sg_address g) = None"
    and "vm_reserved (resources (bk_history b)) = (recorded m reservation)(sg_address g := reservation g)"
    and "vm_mapped (resources (bk_history b)) = (recorded m mapping)(sg_address g := mapping g)"
    and "vm_handles (resources (bk_history b)) = handles_of m \<union> ({sg_handle g} - {0})"
    and "exclusive m" "sg_handle g \<notin> handles_of m"
    and "vm_events (resources (bk_history b)) = E" "vm_pushed (resources (bk_history b)) = n"
    and "legal_history (bk_history b)"
proof -
  show n: "m (sg_address g) = None" using assms by (auto simp: afloat_def)
  have "accounts (resources (bk_history b)) (m(sg_address g \<mapsto> g))" using assms by (simp add: afloat_def)
  then show "vm_reserved (resources (bk_history b)) = (recorded m reservation)(sg_address g := reservation g)"
    "vm_mapped (resources (bk_history b)) = (recorded m mapping)(sg_address g := mapping g)"
    "vm_handles (resources (bk_history b)) = handles_of m \<union> ({sg_handle g} - {0})"
    "exclusive m" "sg_handle g \<notin> handles_of m"
    unfolding accounts_with [of m "sg_address g", OF n] by blast+
qed (use assms in \<open>simp_all add: afloat_def\<close>)

lemma afloat_accounts_with:
  assumes "afloat k m p E n g b"
  shows "accounts v (m(sg_address g \<mapsto> g')) \<longleftrightarrow> vm_reserved v = (recorded m reservation)(sg_address g := reservation g') \<and>
     vm_mapped v = (recorded m mapping)(sg_address g := mapping g') \<and>
     vm_handles v = handles_of m \<union> ({sg_handle g'} - {0}) \<and> sg_handle g' \<notin> handles_of m"
  using afloat_account [OF assms] by (simp add: accounts_with)

lemma afloat_same:
  assumes "afloat k m p E n g b" "sg_address g' = sg_address g" "sg_handle g' = sg_handle g"
    "reservation g' = reservation g" "mapping g' = mapping g" "sg_quarantined g' = sg_quarantined g"
  shows "afloat k m p E n g' b"
proof -
  have "accounts (resources (bk_history b)) (m(sg_address g \<mapsto> g'))"
    unfolding afloat_accounts_with [OF assms(1)] using afloat_account [OF assms(1)] assms by simp
  then show ?thesis using assms by (simp add: afloat_def)
qed

subsection \<open>One call\<close>

lemma settled_idle:
  assumes "\<And>v. legal v c" "\<And>v r. effect v c r = v"
  shows "triple (settled m p) (invoke driver c) (\<lambda>_. settled m p)"
  by (rule triple_invoke) (simp add: settled_def assms)

lemma call_idle:
  assumes "\<And>v. legal v c" "\<And>v r. effect v c r = v"
  shows "triple (afloat k m p E n g) (invoke driver c) (\<lambda>_. afloat k m p E n g)"
  by (rule triple_invoke) (simp add: afloat_def assms)

lemma call_reserve:
  assumes "honest driver" "\<not> p"
  shows "triple (settled m p) (invoke driver (Address_reserve bytes)) (\<lambda>r b.
     if rp_code r \<noteq> cuda_success then settled m p b
     else \<forall>g. sg_address g = rp_value r \<longrightarrow> sg_mapped_bytes g = bytes \<longrightarrow> sg_handle g = 0 \<longrightarrow> sg_reservation_active g \<longrightarrow>
       \<not> sg_mapped g \<longrightarrow> \<not> sg_quarantined g \<longrightarrow> afloat False m p {} 0 g b)"
proof (rule triple_invoke)
  fix b r assume b: "settled m p b" and r: "r = driver (bk_history b) (Address_reserve bytes)"
  let ?b = "b\<lparr>bk_history := (Address_reserve bytes, r) # bk_history b\<rparr>" and ?v = "resources (bk_history b)"
  have h: "honest_reply ?v (Address_reserve bytes) r" using assms(1) b r unfolding honest_def settled_def by blast
  have acc: "accounts ?v m" and snd: "sound m p" and hold: "holdings b = m" using b by (auto simp: settled_def)
  have e: "bk_emergency b = None"
  proof (cases "bk_emergency b")
    case (Some e)
    then have "sg_quarantined e" "m (sg_address e) = Some e" using b by (auto simp: settled_def well_keyed_def holdings_def)
    then have p using snd unfolding sound_def by metis
    then show ?thesis using \<open>\<not> p\<close> by contradiction
  qed
  have "afloat False m p {} 0 g ?b"
    if ok: "rp_code r = cuda_success" and g: "sg_address g = rp_value r" "sg_mapped_bytes g = bytes" "sg_handle g = 0"
      "sg_reservation_active g" "\<not> sg_mapped g" "\<not> sg_quarantined g" for g
  proof -
    have new: "vm_reserved ?v (rp_value r) = None" "rp_value r \<noteq> 0" using h ok by simp_all
    have none: "m (rp_value r) = None"
      using new(1) acc snd by (cases "m (rp_value r)") (auto simp: accounts_def recorded_def sound_def reservation_def)
    have "accounts (effect ?v (Address_reserve bytes) r) (m(rp_value r \<mapsto> g))"
      unfolding accounts_with [of m "rp_value r", OF none]
      using acc ok g by (auto simp: effect_def accounts_def recorded_none none reservation_def mapping_def)
    then show ?thesis
      using b none new g e hold ok by (auto simp: afloat_def settled_def effect_def in_place_def holdings_def)
  qed
  moreover have "settled m p ?b" if "rp_code r \<noteq> cuda_success" using b that by (simp add: settled_def effect_def)
  ultimately show "if rp_code r \<noteq> cuda_success then settled m p ?b
     else \<forall>g. sg_address g = rp_value r \<longrightarrow> sg_mapped_bytes g = bytes \<longrightarrow> sg_handle g = 0 \<longrightarrow> sg_reservation_active g \<longrightarrow>
       \<not> sg_mapped g \<longrightarrow> \<not> sg_quarantined g \<longrightarrow> afloat False m p {} 0 g ?b" by auto
qed

lemma call_create:
  assumes "honest driver" "sg_handle g = 0"
  shows "triple (afloat k m p E n g) (invoke driver (Mem_create bytes device))
     (\<lambda>r b. afloat k m p E n (g\<lparr>sg_handle := rp_value r\<rparr>) b \<and> (rp_code r = cuda_success \<longleftrightarrow> rp_value r \<noteq> 0))"
proof (rule triple_invoke)
  fix b r assume b: "afloat k m p E n g b" and r: "r = driver (bk_history b) (Mem_create bytes device)"
  let ?v = "resources (bk_history b)"
  have h: "honest_reply ?v (Mem_create bytes device) r" using assms(1) b r unfolding honest_def afloat_def by blast
  show "afloat k m p E n (g\<lparr>sg_handle := rp_value r\<rparr>) (b\<lparr>bk_history := (Mem_create bytes device, r) # bk_history b\<rparr>) \<and>
      (rp_code r = cuda_success \<longleftrightarrow> rp_value r \<noteq> 0)"
  proof
    have "accounts (effect ?v (Mem_create bytes device) r) (m(sg_address g \<mapsto> g\<lparr>sg_handle := rp_value r\<rparr>))"
      unfolding afloat_accounts_with [OF b]
      using h afloat_account [OF b] \<open>sg_handle g = 0\<close>
      by (auto simp: effect_def reservation_def mapping_def split: if_splits)
    then show "afloat k m p E n (g\<lparr>sg_handle := rp_value r\<rparr>) (b\<lparr>bk_history := (Mem_create bytes device, r) # bk_history b\<rparr>)"
      by (rule afloat_call [OF b, rotated]) (use afloat_account [OF b] in \<open>simp_all add: effect_def\<close>)
  qed (use h in \<open>auto split: if_splits\<close>)
qed

text \<open>The calls that move the segment from one stage to the next: on success the segment changes, otherwise it stays.\<close>

lemma call_moves:
  assumes "\<And>v. vm_reserved v = (recorded m reservation)(sg_address g := reservation g) \<Longrightarrow>
      vm_mapped v = (recorded m mapping)(sg_address g := mapping g) \<Longrightarrow>
      vm_handles v = handles_of m \<union> ({sg_handle g} - {0}) \<Longrightarrow> sg_handle g \<notin> handles_of m \<Longrightarrow> m (sg_address g) = None \<Longrightarrow>
      legal v c \<and> vm_reserved (effect_of_success c x v) = (recorded m reservation)(sg_address g := reservation g') \<and>
      vm_mapped (effect_of_success c x v) = (recorded m mapping)(sg_address g := mapping g') \<and>
      vm_handles (effect_of_success c x v) = handles_of m \<union> ({sg_handle g'} - {0}) \<and> sg_handle g' \<notin> handles_of m \<and>
      vm_events (effect_of_success c x v) = vm_events v \<and> vm_pushed (effect_of_success c x v) = vm_pushed v"
    and "\<And>v. effect_of_attempt c v = v" "\<And>v x. effect_of_success c x v = effect_of_success c 0 v"
    and "sg_address g' = sg_address g" "sg_quarantined g' = sg_quarantined g"
  shows "triple (afloat k m p E n g) (invoke driver c)
     (\<lambda>r. if rp_code r = cuda_success then afloat k m p E n g' else afloat k m p E n g)"
proof (rule triple_invoke)
  fix b r assume b: "afloat k m p E n g b"
  let ?v = "resources (bk_history b)"
  note a = afloat_account [OF b]
  have m: "legal ?v c \<and> vm_reserved (effect_of_success c x ?v) = (recorded m reservation)(sg_address g := reservation g') \<and>
      vm_mapped (effect_of_success c x ?v) = (recorded m mapping)(sg_address g := mapping g') \<and>
      vm_handles (effect_of_success c x ?v) = handles_of m \<union> ({sg_handle g'} - {0}) \<and> sg_handle g' \<notin> handles_of m \<and>
      vm_events (effect_of_success c x ?v) = vm_events ?v \<and> vm_pushed (effect_of_success c x ?v) = vm_pushed ?v" for x
    using assms(1) [OF a(2-4,6) a(1)] assms(3) [of x ?v] assms(3) by metis
  have ok: "afloat k m p E n g' (b\<lparr>bk_history := (c, r) # bk_history b\<rparr>)" if "rp_code r = cuda_success"
  proof -
    have "accounts (effect ?v c r) (m(sg_address g \<mapsto> g'))"
      unfolding afloat_accounts_with [OF b] using m [of "rp_value r"] that by (simp add: effect_def assms(2))
    then show ?thesis
      by (rule afloat_call [OF b, rotated])
        (use m [of "rp_value r"] a(7,8) assms(4,5) that in \<open>simp_all add: effect_def assms(2)\<close>)
  qed
  have "afloat k m p E n g (b\<lparr>bk_history := (c, r) # bk_history b\<rparr>)" if "rp_code r \<noteq> cuda_success"
    using b m [of 0] that by (simp add: afloat_def effect_def assms(2))
  then show "(if rp_code r = cuda_success then afloat k m p E n g' else afloat k m p E n g)
      (b\<lparr>bk_history := (c, r) # bk_history b\<rparr>)" using ok by simp
qed

lemma call_map:
  assumes "sg_reservation_active g" "\<not> sg_mapped g" "sg_handle g \<noteq> 0"
  shows "triple (afloat k m p E n g) (invoke driver (Mem_map (sg_address g) (sg_mapped_bytes g) (sg_handle g)))
     (\<lambda>r. if rp_code r = cuda_success then afloat k m p E n (g\<lparr>sg_mapped := True\<rparr>) else afloat k m p E n g)"
  by (rule call_moves) (use assms in \<open>simp_all add: reservation_def mapping_def\<close>)

lemma call_access:
  assumes "sg_mapped g"
  shows "triple (afloat k m p E n g) (invoke driver (Set_access (sg_address g) (sg_mapped_bytes g) device))
     (\<lambda>r. afloat k m p E n g)"
  using call_moves [of m g "Set_access (sg_address g) (sg_mapped_bytes g) device" 0 g k p E n driver] assms
  by (simp add: mapping_def)

lemma call_unmap:
  assumes "sg_mapped g"
  shows "triple (afloat k m p E n g) (invoke driver (Mem_unmap (sg_address g) (sg_mapped_bytes g)))
     (\<lambda>r. if rp_code r = cuda_success then afloat k m p E n (g\<lparr>sg_mapped := False, sg_access_set := False\<rparr>)
       else afloat k m p E n g)"
  by (rule call_moves) (use assms in \<open>simp_all add: reservation_def mapping_def\<close>)

lemma call_release:
  assumes "sg_handle g \<noteq> 0"
  shows "triple (afloat k m p E n g) (invoke driver (Mem_release (sg_handle g)))
     (\<lambda>r. if rp_code r = cuda_success then afloat k m p E n (g\<lparr>sg_handle := 0\<rparr>) else afloat k m p E n g)"
  by (rule call_moves) (use assms in \<open>auto simp: reservation_def mapping_def\<close>)

lemma call_free:
  assumes "sg_reservation_active g" "\<not> sg_mapped g"
  shows "triple (afloat k m p E n g) (invoke driver (Address_free (sg_address g) (sg_mapped_bytes g)))
     (\<lambda>r. if rp_code r = cuda_success then afloat k m p E n (g\<lparr>sg_reservation_active := False\<rparr>) else afloat k m p E n g)"
  by (rule call_moves) (use assms in \<open>simp_all add: reservation_def mapping_def\<close>)

lemma call_event:
  "triple (afloat k m p {} n g) (invoke driver Event_create)
     (\<lambda>r. if rp_code r = cuda_success then afloat k m p {rp_value r} n g else afloat k m p {} n g)"
  by (rule triple_invoke) (auto simp: afloat_def effect_def)

lemma call_with_event:
  "triple (afloat k m p {e} n g) (invoke driver (Event_record e stream)) (\<lambda>_. afloat k m p {e} n g)"
  "triple (afloat k m p {e} n g) (invoke driver (Event_synchronize e)) (\<lambda>_. afloat k m p {e} n g)"
  "triple (afloat k m p {e} n g) (invoke driver (Event_destroy e)) (\<lambda>_. afloat k m p {} n g)"
  by (rule triple_invoke; simp add: afloat_def effect_def)+

lemma call_push:
  "triple (afloat k m p E 0 g) (invoke driver (Ctx_push context))
     (\<lambda>r. afloat k m p E (if rp_code r = cuda_success then 1 else 0) g)"
  by (rule triple_invoke) (simp add: afloat_def effect_def)

lemma call_pop:
  "triple (afloat k m p E 1 g) (invoke driver Ctx_pop) (\<lambda>_. afloat k m p E 0 g)"
  by (rule triple_invoke) (simp add: afloat_def effect_def)

lemma idle_calls:
  "legal v Load_driver" "legal v Ctx_get_current" "legal v Ctx_get_device" "legal v (Stream_is_capturing s)"
  "legal v (Get_granularity d)"
  "effect v Load_driver r = v" "effect v Ctx_get_current r = v" "effect v Ctx_get_device r = v"
  "effect v (Stream_is_capturing s) r = v" "effect v (Get_granularity d) r = v"
  by (simp_all add: effect_def)

subsection \<open>The books\<close>

lemma book_change:
  assumes "sg_address x = sg_address g" "\<not> sg_quarantined x"
  shows "triple (afloat k m p E n g) (change_segment (sg_address g) x) (\<lambda>_. afloat True m p E n g)"
proof (rule triple_change)
  fix b assume b: "afloat k m p E n g b"
  then have e: "sg_address e \<noteq> sg_address g" if "bk_emergency b = Some e" for e using that by (simp add: afloat_def)
  show "afloat True m p E n g (b\<lparr>bk_segments := AList.update (sg_address g) x (bk_segments b)\<rparr>)"
    using b assms by (simp add: afloat_def holdings_update e well_keyed_change in_place_def update_conv' )
qed

lemma book_activate:
  assumes "sg_address x = sg_address g" "sg_handle x = sg_handle g" "reservation x = reservation g" "mapping x = mapping g"
    and "\<not> sg_quarantined x" "sg_reservation_active x" "usable x"
  shows "triple (afloat k m p {} 0 g) (change_segment (sg_address g) x) (\<lambda>_. settled (m(sg_address g \<mapsto> x)) p)"
proof (rule triple_change)
  fix b assume b: "afloat k m p {} 0 g b"
  then have e: "sg_address e \<noteq> sg_address g" if "bk_emergency b = Some e" for e using that by (simp add: afloat_def)
  have a: "accounts (resources (bk_history b)) (m(sg_address g \<mapsto> x))"
    unfolding afloat_accounts_with [OF b] using afloat_account [OF b] assms by simp
  have s: "sound (m(sg_address g \<mapsto> x)) p"
    using sound_with [of m p x] b assms by (simp add: afloat_def)
  have "(holdings b)(sg_address g \<mapsto> x) = m(sg_address g \<mapsto> x)" using b by (auto simp: afloat_def)
  then show "settled (m(sg_address g \<mapsto> x)) p (b\<lparr>bk_segments := AList.update (sg_address g) x (bk_segments b)\<rparr>)"
    using b a s by (simp add: settled_def afloat_def holdings_update e well_keyed_change)
qed

lemma book_erase:
  assumes "sg_handle g = 0" "\<not> sg_reservation_active g" "\<not> sg_mapped g"
  shows "triple (afloat k m p {} 0 g) (erase_segment (sg_address g)) (\<lambda>_. settled m p)"
proof (rule triple_erase)
  fix b assume b: "afloat k m p {} 0 g b"
  then have e: "sg_address e \<noteq> sg_address g" if "bk_emergency b = Some e" for e using that by (simp add: afloat_def)
  show "settled m p (b\<lparr>bk_segments := AList.delete (sg_address g) (bk_segments b)\<rparr>)"
    using b accounts_drop [of m "sg_address g" g] afloat_account(1) [OF b] assms
    by (simp add: settled_def afloat_def holdings_delete e well_keyed_change)
qed

lemma afloat_sunk:
  assumes "afloat False m p {} 0 g b" "sg_handle g = 0" "\<not> sg_reservation_active g" "\<not> sg_mapped g"
  shows "settled m p b"
proof -
  have "holdings b (sg_address g) = None" using assms(1) by (simp add: afloat_def in_place_def holdings_def)
  then have "holdings b = m" using assms(1) by (auto simp: afloat_def)
  then show ?thesis
    using assms accounts_drop [of m "sg_address g" g] afloat_account(1) [OF assms(1)] by (simp add: settled_def afloat_def)
qed

text \<open>The segment that could not be cleaned up is on the books, quarantined, and the allocator is poisoned.\<close>

definition condemned :: "(u64 \<rightharpoonup> segment) \<Rightarrow> segment \<Rightarrow> books \<Rightarrow> bool" where
  "condemned m g = settled (m(sg_address g \<mapsto> g\<lparr>sg_quarantined := True\<rparr>)) True"

lemma afloat_condemned:
  assumes b: "afloat k m p {} 0 g b" and "sg_reservation_active g"
    and "well_keyed b'" "holdings b' = (holdings b)(sg_address g \<mapsto> g\<lparr>sg_quarantined := True\<rparr>)" "bk_poisoned b'"
    and "bk_history b' = bk_history b"
  shows "condemned m g b'"
proof -
  let ?g = "g\<lparr>sg_quarantined := True\<rparr>"
  have a: "accounts (resources (bk_history b)) (m(sg_address g \<mapsto> ?g))"
    unfolding afloat_accounts_with [OF b] using afloat_account [OF b] by (simp add: reservation_def mapping_def)
  have "sound (m(sg_address g \<mapsto> ?g)) True"
    using sound_with [of m True ?g] sound_poisoned [of m p] b assms(2) by (simp add: afloat_def)
  moreover have "(holdings b)(sg_address g \<mapsto> ?g) = m(sg_address g \<mapsto> ?g)" using b by (auto simp: afloat_def)
  ultimately show ?thesis
    using assms a by (simp add: condemned_def settled_def afloat_def)
qed

lemma book_quarantine:
  assumes "sg_reservation_active g"
  shows "triple (afloat True m p {} 0 g) (quarantine g) (\<lambda>_. condemned m g)"
proof (rule triple_quarantine)
  fix b assume b: "afloat True m p {} 0 g b"
  then show "\<exists>found. map_of (bk_segments b) (sg_address g) = Some found \<and> \<not> sg_quarantined found"
    by (simp add: afloat_def in_place_def)
  have e: "sg_address e \<noteq> sg_address g" if "bk_emergency b = Some e" for e using b that by (simp add: afloat_def)
  show "condemned m g (b\<lparr>bk_segments := AList.update (sg_address g) (g\<lparr>sg_quarantined := True\<rparr>) (bk_segments b),
      bk_poisoned := True\<rparr>)"
    by (rule afloat_condemned [OF b assms])
      (use b in \<open>simp_all add: holdings_update e well_keyed_change afloat_def\<close>)
qed

lemma book_quarantine_untracked:
  assumes "sg_reservation_active g"
  shows "triple (afloat False m p {} 0 g) (quarantine_untracked g) (\<lambda>_. condemned m g)"
proof (rule triple_quarantine_untracked)
  fix b assume b: "afloat False m p {} 0 g b"
  show "condemned m g (b\<lparr>bk_emergency := Some (g\<lparr>sg_quarantined := True\<rparr>), bk_poisoned := True\<rparr>)"
    by (rule afloat_condemned [OF b assms])
      (use b in \<open>simp_all add: afloat_def in_place_def holdings_def well_keyed_def\<close>)
qed

lemma afloat_poison:
  assumes "afloat k m p E n g b"
  shows "afloat k m True E n g (b\<lparr>bk_poisoned := True\<rparr>)"
  using assms sound_poisoned by (auto simp: afloat_def)

end
