(* ===== verification/Torch_Steps.thy ===== *)
theory Torch_Steps
  imports Torch_Books
begin

text \<open>
The operations of the PyTorch allocator, path by path: from books that agree with the driver, an allocation leaves the
  new segment on them, or nothing new, or one condemned segment and a poisoned allocator (\<open>allocated\<close>); a deallocation of
  an active segment removes it or condemns it (\<open>released\<close>).
\<close>

section \<open>Allocating\<close>

definition kin :: "segment \<Rightarrow> segment \<Rightarrow> bool" where
  "kin g g' \<longleftrightarrow> sg_address g' = sg_address g \<and> sg_mapped_bytes g' = sg_mapped_bytes g"

definition failed_cleanly :: "(u64 \<rightharpoonup> segment) \<Rightarrow> bool \<Rightarrow> u64 \<Rightarrow> books \<Rightarrow> bool" where
  "failed_cleanly m p a b \<longleftrightarrow> settled m p b \<or> (\<exists>g. sg_address g = a \<and> m a = None \<and> condemned m g b)"

lemma failed_cleanlyI:
  "settled m p b \<Longrightarrow> failed_cleanly m p a b"
  "condemned m g b \<Longrightarrow> m (sg_address g) = None \<Longrightarrow> failed_cleanly m p (sg_address g) b"
  by (auto simp: failed_cleanly_def)

lemma book_quarantine_failed:
  assumes "sg_reservation_active g"
  shows "triple (afloat True m p {} 0 g) (quarantine g) (\<lambda>_. failed_cleanly m p (sg_address g))"
proof (rule triple_fact [where c = "m (sg_address g) = None"])
  show "m (sg_address g) = None" if "afloat True m p {} 0 g b" for b using afloat_account(1) [OF that] .
  assume "m (sg_address g) = None"
  then show ?thesis by (intro triple_conseq [OF book_quarantine [OF assms]]) (simp, rule failed_cleanlyI(2))
qed

lemma rollback_unmap:
  "triple (afloat k m p {} 0 g)
     (if sg_mapped g
      then do {
        r \<leftarrow> invoke driver (Mem_unmap (sg_address g) (sg_mapped_bytes g));
        if rp_code r = cuda_success
        then do {
          add_counter st_unmaps_update 1;
          subtract_counter st_mapped_bytes_current_update (sg_mapped_bytes g);
          State_Monad.return (g\<lparr>sg_mapped := False, sg_access_set := False\<rparr>, True)
        }
        else do { record_cuda_failure texts ''rollback'' ''cuMemUnmap'' (rp_code r); State_Monad.return (g, False) }
      }
      else State_Monad.return (g, True))
     (\<lambda>(g', u) b. afloat k m p {} 0 g' b \<and> kin g g' \<and> sg_reservation_active g' = sg_reservation_active g \<and>
       u = (\<not> sg_mapped g'))"
  by (rule triple_if)
    (auto intro!: triple_bind [OF call_unmap] triple_on_success triple_quietly quiets triple_return simp: kin_def)

lemma rollback_release:
  "triple (afloat k m p {} 0 g)
     (if sg_handle g \<noteq> 0
      then do {
        r \<leftarrow> invoke driver (Mem_release (sg_handle g));
        if rp_code r = cuda_success
        then do { add_counter st_handle_releases_update 1; State_Monad.return (g\<lparr>sg_handle := 0\<rparr>, True) }
        else do { record_cuda_failure texts ''rollback'' ''cuMemRelease'' (rp_code r); State_Monad.return (g, False) }
      }
      else State_Monad.return (g, True))
     (\<lambda>(g', u) b. afloat k m p {} 0 g' b \<and> kin g g' \<and> sg_reservation_active g' = sg_reservation_active g \<and>
       sg_mapped g' = sg_mapped g \<and> u = (sg_handle g' = 0))"
  by (rule triple_if)
    (auto intro!: triple_bind [OF call_release] triple_on_success triple_quietly quiets triple_return simp: kin_def)

lemma rollback_free:
  "triple (afloat k m p {} 0 g)
     (if sg_reservation_active g \<and> \<not> sg_mapped g \<and> sg_handle g = 0
      then do {
        r \<leftarrow> invoke driver (Address_free (sg_address g) (sg_mapped_bytes g));
        if rp_code r = cuda_success
        then do { add_counter st_reservation_frees_update 1; State_Monad.return (g\<lparr>sg_reservation_active := False\<rparr>, True) }
        else do { record_cuda_failure texts ''rollback'' ''cuMemAddressFree'' (rp_code r); State_Monad.return (g, False) }
      }
      else State_Monad.return (g, True))
     (\<lambda>(g', u) b. afloat k m p {} 0 g' b \<and> kin g g' \<and> sg_handle g' = sg_handle g \<and> sg_mapped g' = sg_mapped g \<and>
       (\<not> sg_reservation_active g' \<longrightarrow> sg_reservation_active g \<longrightarrow> u \<and> \<not> sg_mapped g' \<and> sg_handle g' = 0))"
  by (rule triple_if)
    (auto intro!: triple_bind [OF call_free] triple_on_success triple_quietly quiets triple_return simp: kin_def)

lemma rollback_outcome:
  assumes "sg_reservation_active g"
  shows "triple (afloat k m p {} 0 g) (rollback_segment driver texts g)
     (\<lambda>(g', ok) b. afloat k m p {} 0 g' b \<and> kin g g' \<and>
       (if ok then sg_handle g' = 0 \<and> \<not> sg_reservation_active g' \<and> \<not> sg_mapped g' else sg_reservation_active g'))"
  unfolding rollback_segment_def
  apply (rule triple_bind_pair, rule rollback_unmap)
  apply (unfold prod.case, rule triple_knowing)
  apply (rule triple_bind_pair, rule rollback_release)
  apply (unfold prod.case, rule triple_knowing)
  apply (rule triple_bind_pair, rule rollback_free)
  apply (unfold prod.case, rule triple_knowing)
  apply (rule triple_return)
  using assms by (auto simp: kin_def)

lemma fail_setup_outcome:
  assumes "sg_reservation_active g"
  shows "triple (afloat True m p {} 0 g) (fail_setup driver texts g op code)
     (\<lambda>x b. x = 0 \<and> failed_cleanly m p (sg_address g) b)"
  unfolding fail_setup_def
proof (rule triple_quietly [OF quiet_diagnostics(3)], rule triple_quietly [OF quiet_counters(2)],
    rule triple_bind_pair [OF rollback_outcome [OF assms]], unfold prod.case, rule triple_knowing(1))
  fix g' ok
  assume g': "kin g g' \<and> (if ok then sg_handle g' = 0 \<and> \<not> sg_reservation_active g' \<and> \<not> sg_mapped g' else sg_reservation_active g')"
  then have a: "sg_address g = sg_address g'" by (simp add: kin_def)
  have "triple (afloat True m p {} 0 g') (if ok then erase_segment (sg_address g)
      else do { change_segment (sg_address g) g'; quarantine g' }) (\<lambda>_. failed_cleanly m p (sg_address g))"
  proof (rule triple_if)
    assume ok
    then show "triple (afloat True m p {} 0 g') (erase_segment (sg_address g)) (\<lambda>_. failed_cleanly m p (sg_address g))"
      unfolding a using g' by (auto intro!: triple_conseq [OF book_erase] failed_cleanlyI)
  next
    assume "\<not> ok"
    have "triple (afloat True m p {} 0 g') (change_segment (sg_address g') g') (\<lambda>_. afloat True m p {} 0 g')"
      by (rule triple_fact [where c = "\<not> sg_quarantined g'"]) (auto simp: afloat_def intro: book_change)
    then show "triple (afloat True m p {} 0 g') (do { change_segment (sg_address g) g'; quarantine g' })
        (\<lambda>_. failed_cleanly m p (sg_address g))"
      unfolding a using g' \<open>\<not> ok\<close> by (auto intro: triple_after book_quarantine_failed)
  qed
  then show "triple (afloat True m p {} 0 g') (do {
      (if ok then erase_segment (sg_address g) else do { change_segment (sg_address g) g'; quarantine g' });
      State_Monad.return 0 }) (\<lambda>x b. x = 0 \<and> failed_cleanly m p (sg_address g) b)"
    by (rule triple_after) (rule triple_return, simp)
qed

text \<open>The segment that an allocation of these arguments yields, at the address it returns.\<close>

definition serves :: "u64 \<Rightarrow> int \<Rightarrow> u64 \<Rightarrow> u64 \<Rightarrow> segment \<Rightarrow> bool" where
  "serves bytes device stream x g \<longleftrightarrow> x \<noteq> 0 \<and> sg_address g = x \<and> sg_requested_bytes g = bytes \<and>
     (\<exists>granularity. align_up bytes granularity = Some (sg_mapped_bytes g)) \<and> sg_device g = device \<and>
     sg_allocation_stream g = stream \<and> sg_reservation_active g \<and> usable g \<and> \<not> sg_quarantined g"

definition allocated :: "(u64 \<rightharpoonup> segment) \<Rightarrow> bool \<Rightarrow> (segment \<Rightarrow> bool) \<Rightarrow> u64 \<Rightarrow> books \<Rightarrow> bool" where
  "allocated m p good x b \<longleftrightarrow>
     (if x = 0 then \<exists>a. failed_cleanly m p a b
      else \<exists>g. good g \<and> sg_address g = x \<and> m x = None \<and> settled (m(x \<mapsto> g)) p b)"

lemma triple_zero:
  assumes "triple P f (\<lambda>_ b. \<exists>a. failed_cleanly m p a b)"
  shows "triple P (do { f; State_Monad.return 0 }) (allocated m p good)"
  by (rule triple_after [OF assms], rule triple_return) (simp add: allocated_def)

lemma fail_setup_allocated:
  assumes "sg_reservation_active g"
  shows "triple (afloat True m p {} 0 g) (fail_setup driver texts g op code) (allocated m p good)"
  by (rule triple_conseq [OF fail_setup_outcome [OF assms]]) (auto simp: allocated_def)

lemma activate_outcome:
  assumes "sg_reservation_active g" "usable (g\<lparr>sg_active := True\<rparr>)" "good (g\<lparr>sg_active := True\<rparr>)"
  shows "triple (afloat True m p {} 0 g) (activate_segment g) (allocated m p good)"
  unfolding activate_segment_def
proof (rule triple_fact [where c = "m (sg_address g) = None \<and> sg_address g \<noteq> 0 \<and> \<not> sg_quarantined g"])
  let ?g = "g\<lparr>sg_active := True\<rparr>"
  show "m (sg_address g) = None \<and> sg_address g \<noteq> 0 \<and> \<not> sg_quarantined g" if "afloat True m p {} 0 g b" for b
    using afloat_account(1) [OF that] that by (simp add: afloat_def)
  assume g: "m (sg_address g) = None \<and> sg_address g \<noteq> 0 \<and> \<not> sg_quarantined g"
  have "quiet (modify (\<lambda>s. s\<lparr>al_last_error := no_error\<rparr>))" by (rule quiet_modify) (simp add: books_of_def)
  moreover have "allocated m p good (sg_address g) b" if "settled (m(sg_address g \<mapsto> ?g)) p b" for b
    using assms g that by (auto simp: allocated_def intro!: exI [of _ ?g])
  ultimately show "triple (afloat True m p {} 0 g) (do {
     change_segment (sg_address g) ?g;
     add_counter st_requested_bytes_total_update (sg_requested_bytes g);
     add_counter st_requested_bytes_current_update (sg_requested_bytes g);
     with_stats (\<lambda>t. t\<lparr>st_requested_bytes_peak := max (st_requested_bytes_peak t) (st_requested_bytes_current t)\<rparr>);
     add_counter st_active_segments_update 1;
     with_stats (\<lambda>t. t\<lparr>st_active_segments_peak := max (st_active_segments_peak t) (st_active_segments t),
       st_last_status := Ta_success, st_last_native_error := 0\<rparr>);
     modify (\<lambda>s. s\<lparr>al_last_error := no_error\<rparr>);
     State_Monad.return (sg_address g)
   }) (allocated m p good)"
    using assms(1,2) g
    by (intro triple_after [OF book_activate] triple_quietly quiets triple_return)
      (simp_all add: reservation_def mapping_def)
qed

lemma set_up_outcome:
  assumes "honest driver" "sg_reservation_active g" "sg_handle g = 0" "\<not> sg_mapped g"
    and "sg_requested_bytes g \<le> sg_mapped_bytes g"
    and good: "\<And>h. h \<noteq> 0 \<Longrightarrow> good (g\<lparr>sg_handle := h, sg_mapped := True, sg_access_set := True, sg_active := True\<rparr>)"
  shows "triple (afloat True m p {} 0 g) (set_up_segment driver texts g) (allocated m p good)"
  unfolding set_up_segment_def Let_def
proof (rule triple_fact [where c = "\<not> sg_quarantined g"], simp add: afloat_def,
    rule triple_bind [OF call_create [OF assms(1,3)]], rule triple_knowing(1))
  fix r assume r: "rp_code r = cuda_success \<longleftrightarrow> rp_value r \<noteq> 0" and q: "\<not> sg_quarantined g"
  let ?h = "g\<lparr>sg_handle := rp_value r\<rparr>" let ?m = "?h\<lparr>sg_mapped := True\<rparr>" let ?a = "?m\<lparr>sg_access_set := True\<rparr>"
  note keep = book_change [of ?h ?h] book_change [of ?m ?m] book_change [of ?a ?a]
  have access: "triple (afloat True m p {} 0 ?m) (invoke driver (Set_access (sg_address g) (sg_mapped_bytes g) (sg_device ?m)))
      (\<lambda>_. afloat True m p {} 0 ?m)"
    using call_access [of ?m True m p "{}" 0 driver "sg_device g"] by simp
  have map: "triple (afloat True m p {} 0 ?h) (invoke driver (Mem_map (sg_address g) (sg_mapped_bytes g) (sg_handle ?h)))
      (\<lambda>s. if rp_code s = cuda_success then afloat True m p {} 0 ?m else afloat True m p {} 0 ?h)" if "rp_value r \<noteq> 0"
    using call_map [of ?h True m p "{}" 0 driver] assms that by simp
  have fail: "triple (afloat True m p {} 0 x) (fail_setup driver texts x op code) (allocated m p good)"
    if "sg_reservation_active x" for x op code
    using fail_setup_allocated [OF that] .
  have set: "triple (afloat True m p {} 0 ?m) (change_segment (sg_address g) ?a) (\<lambda>_. afloat True m p {} 0 ?a)"
  proof (rule triple_conseq)
    show "triple (afloat True m p {} 0 ?m) (change_segment (sg_address g) ?a) (\<lambda>_. afloat True m p {} 0 ?m)"
      using book_change [of ?a ?m True m p "{}" 0] q by simp
  qed (auto elim: afloat_same simp: reservation_def mapping_def)
  have last: "triple (afloat True m p {} 0 ?a) (activate_segment ?a) (allocated m p good)" if "rp_value r \<noteq> 0"
    by (rule activate_outcome) (use assms(2,5) good [OF that] that in \<open>simp_all add: usable_def\<close>)
  have store: "triple (afloat True m p {} 0 x) (change_segment (sg_address g) x) (\<lambda>_. afloat True m p {} 0 x)"
    if "x = ?h \<or> x = ?m" for x
    using book_change [of x x True m p "{}" 0] that q by auto
  show "triple (afloat True m p {} 0 ?h)
     (do {
       change_segment (sg_address g) ?h;
       if rp_code r \<noteq> cuda_success then fail_setup driver texts ?h ''cuMemCreate'' (rp_code r)
       else do {
         add_counter st_handles_created_update 1;
         s \<leftarrow> invoke driver (Mem_map (sg_address g) (sg_mapped_bytes g) (sg_handle ?h));
         if rp_code s \<noteq> cuda_success then fail_setup driver texts ?h ''cuMemMap'' (rp_code s)
         else do {
           change_segment (sg_address g) ?m;
           add_counter st_maps_update 1;
           add_counter st_mapped_bytes_total_update (sg_mapped_bytes g);
           add_counter st_mapped_bytes_current_update (sg_mapped_bytes g);
           with_stats (\<lambda>t. t\<lparr>st_mapped_bytes_peak := max (st_mapped_bytes_peak t) (st_mapped_bytes_current t)\<rparr>);
           s \<leftarrow> invoke driver (Set_access (sg_address g) (sg_mapped_bytes g) (sg_device ?m));
           if rp_code s \<noteq> cuda_success then fail_setup driver texts ?m ''cuMemSetAccess'' (rp_code s)
           else do {
             change_segment (sg_address g) ?a;
             add_counter st_set_access_calls_update 1;
             activate_segment ?a
           }
         }
       }
     }) (allocated m p good)"
    apply (rule triple_after [OF store], simp)
    apply (rule triple_if, rule fail, simp add: assms)
    apply (rule triple_quietly, rule quiets)
    apply (rule triple_bind [OF map], use r in simp)
    apply (rule triple_on_success(2))
     prefer 2
     apply (rule fail, simp add: assms)
    apply (rule triple_after [OF store], simp)
    apply (intro triple_quietly quiets)
    apply (rule triple_bind [OF access])
    apply (rule triple_if, rule fail, simp add: assms)
    apply (rule triple_after [OF set])
    apply (rule triple_quietly, rule quiets, rule last)
    using r by simp
qed

lemma return_address_outcome:
  assumes "sg_reservation_active g" "sg_handle g = 0" "\<not> sg_mapped g" "quiet diagnose"
  shows "triple (afloat False m p {} 0 g) (return_address driver texts g diagnose) (\<lambda>_ b. \<exists>a. failed_cleanly m p a b)"
  unfolding return_address_def
proof (rule triple_bind [OF call_free], rule assms, rule assms, rule triple_on_success(1))
  have "settled m p b" if "afloat False m p {} 0 (g\<lparr>sg_reservation_active := False\<rparr>) b" for b
    using afloat_sunk [OF that] assms by simp
  then show "triple (afloat False m p {} 0 (g\<lparr>sg_reservation_active := False\<rparr>))
      (do { add_counter st_reservation_frees_update 1; diagnose }) (\<lambda>_ b. \<exists>a. failed_cleanly m p a b)"
    by (intro triple_quietly quiets triple_hush assms) (auto simp: failed_cleanly_def)
  have condemn: "triple (afloat False m p {} 0 g) (quarantine_untracked g) (\<lambda>_ b. \<exists>a. failed_cleanly m p a b)"
    if "m (sg_address g) = None"
    by (rule triple_conseq [OF book_quarantine_untracked [OF assms(1)]]) (use that in \<open>auto intro: failed_cleanlyI(2)\<close>)
  have "triple (afloat False m p {} 0 g) (quarantine_untracked g) (\<lambda>_ b. \<exists>a. failed_cleanly m p a b)"
    by (rule triple_fact [OF _ condemn]) (rule afloat_account(1))
  then show "triple (afloat False m p {} 0 g) (do {
      record_cuda_failure texts ''rollback'' ''cuMemAddressFree'' (rp_code r); quarantine_untracked g })
      (\<lambda>_ b. \<exists>a. failed_cleanly m p a b)" for r
    by (intro triple_quietly quiets)
qed

lemma return_address_zero:
  assumes "sg_reservation_active g" "sg_handle g = 0" "\<not> sg_mapped g" "quiet diagnose" "quiet f"
  shows "triple (afloat False m p {} 0 g) (do { return_address driver texts g diagnose; f; State_Monad.return 0 })
    (allocated m p good)"
  by (rule triple_after [OF return_address_outcome [OF assms(1-4)]], rule triple_quietly [OF assms(5)], rule triple_return)
    (simp add: allocated_def)

lemma register_outcome:
  assumes "honest driver" "sg_reservation_active g" "sg_handle g = 0" "\<not> sg_mapped g"
    and "sg_requested_bytes g \<le> sg_mapped_bytes g"
    and good: "\<And>h. h \<noteq> 0 \<Longrightarrow> good (g\<lparr>sg_handle := h, sg_mapped := True, sg_access_set := True, sg_active := True\<rparr>)"
  shows "triple (afloat False m p {} 0 g) (register_segment driver texts registry g) (allocated m p good)"
  unfolding register_segment_def
proof (rule triple_get, rule triple_if)
  fix s :: allocator
  let ?P = "\<lambda>b. afloat False m p {} 0 g b \<and> b = books_of s"
  have lift: "triple ?P f Q" if "triple (afloat False m p {} 0 g) f Q" for f :: "u64 allocating" and Q
    using that by (rule triple_pre) simp
  show "triple ?P (do {
       add_counter st_allocation_failures_update 1;
       add_counter st_oom_failures_update 1;
       return_address driver texts g (record_failure Ta_out_of_memory ''host'' ''segment registry''
         ''host memory allocation failed while tracking a CUDA VMM segment'' cuda_success);
       set_errno ENOMEM;
       State_Monad.return 0 }) (allocated m p good)"
    using assms by (intro lift triple_quietly return_address_zero quiets)
  show "triple ?P (if registry = Reg_other_exception
     then do {
       add_counter st_allocation_failures_update 1;
       return_address driver texts g (record_failure Ta_internal_error ''registry'' ''insert''
         ''unexpected failure while tracking a CUDA VMM segment'' cuda_success);
       set_errno ENOMEM;
       State_Monad.return 0
     }
     else if map_of (al_segments s) (sg_address g) \<noteq> None
     then do {
       return_address driver texts g (record_failure Ta_internal_error ''registry'' ''insert''
         ''CUDA returned a virtual address already present in the segment registry'' cuda_success);
       add_counter st_allocation_failures_update 1;
       set_errno ENOMEM;
       State_Monad.return 0
     }
     else do {
       change_segment (sg_address g) g;
       set_up_segment driver texts g
     }) (allocated m p good)"
  proof (intro triple_if)
    show "triple ?P (do {
       add_counter st_allocation_failures_update 1;
       return_address driver texts g (record_failure Ta_internal_error ''registry'' ''insert''
         ''unexpected failure while tracking a CUDA VMM segment'' cuda_success);
       set_errno ENOMEM;
       State_Monad.return 0 }) (allocated m p good)"
      using assms by (intro lift triple_quietly return_address_zero quiets)
    show "triple ?P (do {
       return_address driver texts g (record_failure Ta_internal_error ''registry'' ''insert''
         ''CUDA returned a virtual address already present in the segment registry'' cuda_success);
       add_counter st_allocation_failures_update 1;
       set_errno ENOMEM;
       State_Monad.return 0 }) (allocated m p good)"
      using return_address_zero [OF assms(2-4), where f = "do { add_counter st_allocation_failures_update 1; set_errno ENOMEM }"]
      by (intro lift) (simp add: bind_assoc quiets)
    have "triple (afloat False m p {} 0 g) (change_segment (sg_address g) g) (\<lambda>_. afloat True m p {} 0 g)"
      by (rule triple_fact [where c = "\<not> sg_quarantined g"]) (auto simp: afloat_def intro: book_change)
    moreover have "triple (afloat True m p {} 0 g) (set_up_segment driver texts g) (allocated m p good)"
      using assms(1-5) good by (rule set_up_outcome)
    ultimately show "triple ?P (do { change_segment (sg_address g) g; set_up_segment driver texts g }) (allocated m p good)"
      by (intro lift triple_after)
  qed
qed

lemma allocated_settled: "settled m p b \<Longrightarrow> allocated m p good 0 b"
  by (auto simp: allocated_def failed_cleanly_def)

lemma fails_settled:
  "triple (settled m p) (fail_allocation st stage op message e) (allocated m p good)"
  "triple (settled m p) (fail_cuda texts stage op code) (allocated m p good)"
  unfolding fail_allocation_def fail_cuda_def
  by (intro triple_quietly quiets triple_return allocated_settled; assumption)+

lemma capture_settled:
  "triple (settled m p) (capture_is_safe driver texts stream op) (\<lambda>_. settled m p)"
  unfolding capture_is_safe_def
proof (rule triple_bind)
  show "triple (settled m p) (invoke driver (Stream_is_capturing stream)) (\<lambda>_. settled m p)"
    by (rule settled_idle) (rule idle_calls)+
qed (intro triple_if triple_quietly quiets triple_return; assumption)+

lemma align_up_ge:
  assumes "align_up v a = Some w"
  shows "v \<le> w"
proof -
  have "v \<le> v + (a - v mod a)" if "\<not> max_u64 - (a - v mod a) < v"
    using that by (simp add: max_u64_alt not_less) (metis word_plus_mono_right add.commute diff_add_cancel word_n1_ge plus_minus_no_overflow_ab word_le_plus_either)
  then show ?thesis using assms by (auto simp: align_up_def Let_def split: if_splits)
qed

lemma reserved_outcome:
  assumes "honest driver" "\<not> p" "align_up bytes unit = Some n" "0 \<le> device"
  shows "triple (settled m p) (do {
       r \<leftarrow> invoke driver (Address_reserve n);
       if rp_code r \<noteq> cuda_success
       then fail_cuda texts ''allocation'' ''cuMemAddressReserve'' (rp_code r)
       else do {
         add_counter st_reservations_update 1;
         register_segment driver texts registry
           \<lparr>sg_address = rp_value r, sg_requested_bytes = bytes, sg_mapped_bytes = n,
            sg_handle = 0, sg_context = context, sg_allocation_stream = stream, sg_device = device,
            sg_reservation_active = True, sg_mapped = False, sg_access_set = False, sg_active = False,
            sg_quarantined = False\<rparr>
       }
     }) (allocated m p (\<lambda>g. serves bytes device stream (sg_address g) g))"
proof (rule triple_bind [OF call_reserve [OF assms(1,2)]])
  fix r
  let ?g = "\<lparr>sg_address = rp_value r, sg_requested_bytes = bytes, sg_mapped_bytes = n,
            sg_handle = 0, sg_context = context, sg_allocation_stream = stream, sg_device = device,
            sg_reservation_active = True, sg_mapped = False, sg_access_set = False, sg_active = False,
            sg_quarantined = False\<rparr>"
  let ?Q = "allocated m p (\<lambda>g. serves bytes device stream (sg_address g) g)"
  let ?P = "\<lambda>b. if rp_code r \<noteq> cuda_success then settled m p b
     else \<forall>g. sg_address g = rp_value r \<longrightarrow> sg_mapped_bytes g = n \<longrightarrow> sg_handle g = 0 \<longrightarrow> sg_reservation_active g \<longrightarrow>
       \<not> sg_mapped g \<longrightarrow> \<not> sg_quarantined g \<longrightarrow> afloat False m p {} 0 g b"
  have "triple (settled m p) (fail_cuda texts ''allocation'' ''cuMemAddressReserve'' (rp_code r)) ?Q"
    by (rule fails_settled)
  moreover have "triple (afloat False m p {} 0 ?g) (register_segment driver texts registry ?g) ?Q"
  proof (rule triple_fact [where c = "rp_value r \<noteq> 0"])
    show "rp_value r \<noteq> 0" if "afloat False m p {} 0 ?g b" for b using that by (simp add: afloat_def)
    assume "rp_value r \<noteq> 0"
    then show "triple (afloat False m p {} 0 ?g) (register_segment driver texts registry ?g) ?Q"
      using align_up_ge [OF assms(3)] assms by (intro register_outcome) (auto simp: serves_def usable_def)
  qed
  ultimately show "triple ?P (if rp_code r \<noteq> cuda_success
       then fail_cuda texts ''allocation'' ''cuMemAddressReserve'' (rp_code r)
       else do { add_counter st_reservations_update 1; register_segment driver texts registry ?g }) ?Q"
    by (cases "rp_code r = cuda_success") (auto intro!: triple_quietly quiets elim!: triple_pre)
qed

lemma allocate_outcome:
  assumes "honest driver"
  shows "triple (settled m p) (allocate driver texts registry bytes device stream)
     (allocated m p (\<lambda>g. serves bytes device stream (sg_address g) g))"
proof -
  let ?Q = "allocated m p (\<lambda>g. serves bytes device stream (sg_address g) g)"
  have idle: "triple (settled m p) (State_Monad.bind (invoke driver c) f) ?Q"
    if "\<And>v. legal v c" "\<And>v r. effect v c r = v" "\<And>r. triple (settled m p) (f r) ?Q" for c f
    by (rule triple_bind [OF settled_idle]) (rule that)+
  have capture: "triple (settled m p) (State_Monad.bind (capture_is_safe driver texts stream op) f) ?Q"
    if "\<And>ok. triple (settled m p) (f ok) ?Q" for op f
    by (rule triple_bind [OF capture_settled that])
  have zero: "triple (settled m p) (do { f; State_Monad.return 0 }) ?Q" if "quiet f" for f
    by (rule triple_quietly [OF that], rule triple_return, rule allocated_settled)
  have mismatch: "triple (settled m p) (do { a \<leftarrow> fail_allocation st stage op message e; add_counter field 1; State_Monad.return a }) ?Q"
    for st stage op message e field
    unfolding fail_allocation_def by (simp add: bind_assoc, intro triple_quietly quiets triple_return allocated_settled)
  have later: "triple (\<lambda>b. settled m p b \<and> b = books_of s) f ?Q" if "triple (settled m p) f ?Q" for s f
    using that by (rule triple_pre) simp
  have healthy: "triple (\<lambda>b. settled m p b \<and> b = books_of s) f ?Q"
    if "\<not> al_poisoned s" "\<not> p \<Longrightarrow> triple (settled m p) f ?Q" for s f
  proof (rule triple_fact [where c = "\<not> p"])
    show "\<not> p" if "settled m p b \<and> b = books_of s" for b
      using that \<open>\<not> al_poisoned s\<close> by (auto simp: settled_def books_of_def)
  qed (use that in \<open>blast intro: later\<close>)
  show ?thesis
    unfolding allocate_def Let_def
    apply (rule triple_quietly, rule quiets)
    apply (rule triple_get, rule triple_if)
     apply (rule later, rule fails_settled)
    apply (rule healthy, assumption)
    apply (rule triple_if, rule fails_settled)
    apply (rule idle, (rule idle_calls)+, rule triple_if, rule fails_settled)
    apply (rule idle, (rule idle_calls)+, rule triple_if, rule fails_settled)
    apply (rule triple_if, rule mismatch)
    apply (rule idle, (rule idle_calls)+, rule triple_if, rule fails_settled)
    apply (rule triple_if, rule triple_quietly, rule quiets, rule fails_settled)
    apply (rule capture, rule triple_if, rule zero, rule quiets)
    apply (rule idle, (rule idle_calls)+, rule triple_if, rule fails_settled)
    apply (split option.split, intro conjI allI impI, rule fails_settled)
    apply (rule triple_if, rule fails_settled)
    apply (rule reserved_outcome [OF assms])
    by auto
qed

section \<open>Freeing\<close>

text \<open>What a deallocation of an active segment leaves: the segment is gone, or it is condemned.\<close>

definition released :: "(u64 \<rightharpoonup> segment) \<Rightarrow> bool \<Rightarrow> u64 \<Rightarrow> books \<Rightarrow> bool" where
  "released m p a b \<longleftrightarrow> (\<exists>p'. (p \<longrightarrow> p') \<and> settled m p' b) \<or> (\<exists>g. sg_address g = a \<and> m a = None \<and> condemned m g b)"

lemma book_quarantine_released:
  assumes "sg_reservation_active g"
  shows "triple (afloat True m p {} 0 g) (quarantine g) (\<lambda>_. released m q (sg_address g))"
proof (rule triple_fact [where c = "m (sg_address g) = None"])
  show "m (sg_address g) = None" if "afloat True m p {} 0 g b" for b using afloat_account(1) [OF that] .
  assume "m (sg_address g) = None"
  then show ?thesis by (intro triple_conseq [OF book_quarantine [OF assms]]) (auto simp: released_def)
qed

lemma poison_afloat:
  "triple (afloat k m p E n g) poison_current_failure (\<lambda>_. afloat k m True E n g)"
  by (rule triple_poison) (rule afloat_poison)

lemma restore_outcome:
  "triple (afloat k m p {} (if pushed then 1 else 0) g) (restore_context driver texts g pushed)
     (\<lambda>_ b. \<exists>p'. (p \<longrightarrow> p') \<and> afloat k m p' {} 0 g b)"
proof (cases pushed)
  case True
  have failing: "triple (afloat k m p {} 0 g) (do { f; poison_current_failure; State_Monad.return True })
      (\<lambda>_ b. \<exists>p'. (p \<longrightarrow> p') \<and> afloat k m p' {} 0 g b)" if "quiet f" for f
    by (rule triple_quietly [OF that], rule triple_after [OF poison_afloat], rule triple_return) auto
  have "triple (afloat k m p {} 1 g) (restore_context driver texts g True)
     (\<lambda>_ b. \<exists>p'. (p \<longrightarrow> p') \<and> afloat k m p' {} 0 g b)"
    unfolding restore_context_def if_not_P [OF not_not [THEN iffD2, OF TrueI]]
    by (rule triple_bind [OF call_pop], rule triple_if, rule failing, intro quiets)
      (rule triple_return, auto)
  then show ?thesis using True by simp
next
  case False
  then show ?thesis unfolding restore_context_def by (simp, intro triple_return) auto
qed

lemma abandon_outcome:
  assumes "sg_reservation_active g"
  shows "triple (afloat True m p {} (if pushed then 1 else 0) g) (abandon driver texts g pushed)
     (\<lambda>_. released m q (sg_address g))"
  unfolding abandon_def
proof (rule triple_bind [OF restore_outcome], rule triple_ex)
  show "triple (\<lambda>b. (p \<longrightarrow> p') \<and> afloat True m p' {} 0 g b) (quarantine g)
      (\<lambda>_. released m q (sg_address g))" for p' failed
    by (rule triple_knowing(2), rule book_quarantine_released [OF assms])
qed

lemma fence_outcome:
  "triple (afloat k m p {} n g) (fence driver texts g)
     (\<lambda>(ok, e). if ok then afloat k m p {e} n g else afloat k m p {} n g)"
  unfolding fence_def Let_def
proof (rule triple_bind [OF call_event], rule triple_on_success(2))
  fix r
  let ?e = "rp_value r" and ?Q = "\<lambda>(ok, e). if ok then afloat k m p {e} n g else afloat k m p {} n g"
  have lost: "triple (afloat k m p {?e} n g) (do { add_counter field 1; record_cuda_failure texts st op code;
      invoke driver (Event_destroy ?e); State_Monad.return (False, 0) }) ?Q" for field st op code
    by (intro triple_quietly quiets triple_bind [OF call_with_event(3)] triple_return) simp
  show "triple (afloat k m p {?e} n g)
     (do {
       r \<leftarrow> invoke driver (Event_record ?e (sg_allocation_stream g));
       if rp_code r \<noteq> cuda_success
       then do {
         add_counter st_free_failures_update 1;
         record_cuda_failure texts ''fence'' ''cuEventRecord'' (rp_code r);
         invoke driver (Event_destroy ?e);
         State_Monad.return (False, 0)
       }
       else do {
         r \<leftarrow> invoke driver (Event_synchronize ?e);
         if rp_code r \<noteq> cuda_success
         then do {
           add_counter st_free_failures_update 1;
           record_cuda_failure texts ''fence'' ''cuEventSynchronize'' (rp_code r);
           invoke driver (Event_destroy ?e);
           State_Monad.return (False, 0)
         }
         else do { add_counter st_event_boundaries_update 1; State_Monad.return (True, ?e) }
       }
     }) ?Q"
    by (rule triple_bind [OF call_with_event(1)], rule triple_if, rule lost,
        rule triple_bind [OF call_with_event(2)], rule triple_if, rule lost) (intro triple_quietly quiets triple_return, simp)
  show "triple (afloat k m p {} n g) (do {
       add_counter st_free_failures_update 1;
       record_cuda_failure texts ''fence'' ''cuEventCreate'' (rp_code r);
       State_Monad.return (False, 0)
     }) ?Q"
    by (intro triple_quietly quiets triple_return) simp
qed

lemma release_step:
  "triple (afloat True m p {} n g)
     (if sg_handle g \<noteq> 0
      then do {
        r \<leftarrow> invoke driver (Mem_release (sg_handle g));
        if rp_code r = cuda_success
        then do {
          change_segment (sg_address g) (g\<lparr>sg_handle := 0\<rparr>);
          add_counter st_handle_releases_update 1;
          State_Monad.return (f True (g\<lparr>sg_handle := 0\<rparr>))
        }
        else do { record_cuda_failure texts ''cleanup'' ''cuMemRelease'' (rp_code r); State_Monad.return (f False g) }
      }
      else State_Monad.return (f True g))
     (\<lambda>x b. \<exists>g' ok. x = f ok g' \<and> afloat True m p {} n g' b \<and> kin g g' \<and> sg_mapped g' = sg_mapped g \<and>
       sg_reservation_active g' = sg_reservation_active g)"
proof -
  have change: "triple (afloat True m p {} n (g\<lparr>sg_handle := 0\<rparr>)) (change_segment (sg_address g) (g\<lparr>sg_handle := 0\<rparr>))
      (\<lambda>_. afloat True m p {} n (g\<lparr>sg_handle := 0\<rparr>))"
    by (rule triple_fact [where c = "\<not> sg_quarantined g"], simp add: afloat_def)
      (use book_change [of "g\<lparr>sg_handle := 0\<rparr>" "g\<lparr>sg_handle := 0\<rparr>"] in simp)
  show ?thesis
    by (rule triple_if, rule triple_bind [OF call_release], assumption, rule triple_on_success(1), rule triple_after [OF change])
      (intro triple_quietly quiets triple_return; auto simp: kin_def)+
qed

lemma retire_outcome:
  assumes "sg_reservation_active g" "\<not> sg_mapped g"
  shows "triple (afloat True m p {} (if pushed then 1 else 0) g) (retire_segment driver texts g pushed failed)
     (\<lambda>_. released m p (sg_address g))"
proof -
  let ?n = "if pushed then 1 else 0 :: nat" and ?Q = "\<lambda>_. released m p (sg_address g)"
  have release: "triple (afloat True m p {} ?n g)
     (if sg_handle g \<noteq> 0
      then do {
        r \<leftarrow> invoke driver (Mem_release (sg_handle g));
        if rp_code r = cuda_success
        then do {
          change_segment (sg_address g) (g\<lparr>sg_handle := 0\<rparr>);
          add_counter st_handle_releases_update 1;
          State_Monad.return (g\<lparr>sg_handle := 0\<rparr>, failed)
        }
        else do { record_cuda_failure texts ''cleanup'' ''cuMemRelease'' (rp_code r); State_Monad.return (g, True) }
      }
      else State_Monad.return (g, failed))
     (\<lambda>(h, f) b. afloat True m p {} ?n h b \<and> kin g h \<and> \<not> sg_mapped h \<and> sg_reservation_active h)"
    by (rule triple_conseq [OF release_step [where f = "\<lambda>ok g. (g, if ok then failed else True)", unfolded if_True if_False]])
      (use assms in auto)
  have free: "triple (afloat True m p {} ?n h)
     (if sg_reservation_active h \<and> sg_handle h = 0
        then do {
          r \<leftarrow> invoke driver (Address_free (sg_address h) (sg_mapped_bytes h));
          if rp_code r = cuda_success
          then do {
            change_segment (sg_address h) (h\<lparr>sg_reservation_active := False\<rparr>);
            add_counter st_reservation_frees_update 1;
            State_Monad.return (h\<lparr>sg_reservation_active := False\<rparr>, f)
          }
          else do { record_cuda_failure texts ''cleanup'' ''cuMemAddressFree'' (rp_code r); State_Monad.return (h, True) }
        }
        else State_Monad.return (h, f))
     (\<lambda>(i, f) b. afloat True m p {} ?n i b \<and> kin h i \<and> \<not> sg_mapped i \<and> (sg_reservation_active i \<or> sg_handle i = 0))"
    if "\<not> sg_mapped h" "sg_reservation_active h" for h f
  proof -
    have change: "triple (afloat True m p {} ?n (h\<lparr>sg_reservation_active := False\<rparr>))
        (change_segment (sg_address h) (h\<lparr>sg_reservation_active := False\<rparr>))
        (\<lambda>_. afloat True m p {} ?n (h\<lparr>sg_reservation_active := False\<rparr>))"
      by (rule triple_fact [where c = "\<not> sg_quarantined h"], simp add: afloat_def)
        (use book_change [of "h\<lparr>sg_reservation_active := False\<rparr>" "h\<lparr>sg_reservation_active := False\<rparr>"] in simp)
    show ?thesis
      by (rule triple_if, rule triple_bind [OF call_free], use that in simp, use that in simp, rule triple_on_success(1),
          rule triple_after [OF change])
        (intro triple_quietly quiets triple_return; use that in \<open>auto simp: kin_def\<close>)+
  qed
  have close: "triple (\<lambda>b. \<exists>p'. (p \<longrightarrow> p') \<and> afloat True m p' {} 0 i b)
      (if sg_handle i \<noteq> 0 \<or> sg_reservation_active i
       then do { add_counter st_free_failures_update 1; quarantine i }
       else do {
         retire_active_telemetry i;
         erase_segment (sg_address i);
         if f \<or> restore_failed then add_counter st_free_failures_update 1 else success_unless_poisoned
       }) ?Q"
    if "kin g i" "\<not> sg_mapped i" "sg_reservation_active i \<or> sg_handle i = 0" for i f restore_failed
  proof (rule triple_ex, rule triple_knowing(2), rule triple_if)
    fix p' assume "p \<longrightarrow> p'"
    have a: "sg_address g = sg_address i" using that by (simp add: kin_def)
    show "triple (afloat True m p' {} 0 i) (do { add_counter st_free_failures_update 1; quarantine i }) ?Q"
      if "sg_handle i \<noteq> 0 \<or> sg_reservation_active i"
      unfolding a using that \<open>sg_reservation_active i \<or> sg_handle i = 0\<close>
      by (intro triple_quietly quiets book_quarantine_released) auto
    have "triple (settled m p') (if f \<or> restore_failed then add_counter st_free_failures_update 1 else success_unless_poisoned) ?Q"
      by (intro triple_if triple_hush quiets) (use \<open>p \<longrightarrow> p'\<close> in \<open>auto simp: released_def\<close>)
    then show "triple (afloat True m p' {} 0 i) (do {
         retire_active_telemetry i;
         erase_segment (sg_address i);
         if f \<or> restore_failed then add_counter st_free_failures_update 1 else success_unless_poisoned
       }) ?Q" if "\<not> (sg_handle i \<noteq> 0 \<or> sg_reservation_active i)"
      using that \<open>\<not> sg_mapped i\<close> by (intro triple_quietly quiets triple_after [OF book_erase]) auto
  qed
  show ?thesis
    unfolding retire_segment_def
    apply (rule triple_bind_pair, rule release)
    apply (unfold prod.case, rule triple_knowing(1))
    apply (rule triple_bind_pair, rule free, simp, simp)
    apply (unfold prod.case, rule triple_knowing(1))
    apply (rule triple_bind, rule restore_outcome)
    apply (rule close)
      apply (auto simp: kin_def)
    done
qed

lemma unmap_outcome:
  assumes "sg_reservation_active g" "sg_mapped g"
  shows "triple (afloat True m p {e} (if pushed then 1 else 0) g) (unmap_segment driver texts g pushed e)
     (\<lambda>_. released m p (sg_address g))"
proof -
  let ?n = "if pushed then 1 else 0 :: nat" and ?Q = "\<lambda>_. released m p (sg_address g)"
  let ?u = "g\<lparr>sg_mapped := False, sg_access_set := False\<rparr>"
  have change: "triple (afloat True m p {} ?n ?u) (change_segment (sg_address ?u) ?u) (\<lambda>_. afloat True m p {} ?n ?u)"
    by (rule triple_fact [where c = "\<not> sg_quarantined g"], simp add: afloat_def) (rule book_change, simp_all)
  have retire: "triple (afloat True m p {} ?n ?u) (retire_segment driver texts ?u pushed failed) ?Q" for failed
    using retire_outcome [of ?u m p pushed driver texts failed] assms by simp
  have release: "triple (afloat True m p {} ?n g)
     (if sg_handle g \<noteq> 0
      then do {
        r \<leftarrow> invoke driver (Mem_release (sg_handle g));
        if rp_code r = cuda_success
        then do {
          change_segment (sg_address g) (g\<lparr>sg_handle := 0\<rparr>);
          add_counter st_handle_releases_update 1;
          State_Monad.return (g\<lparr>sg_handle := 0\<rparr>)
        }
        else do { record_cuda_failure texts ''cleanup'' ''cuMemRelease'' (rp_code r); State_Monad.return g }
      }
      else State_Monad.return g)
     (\<lambda>h b. afloat True m p {} ?n h b \<and> kin g h \<and> sg_reservation_active h)"
    by (rule triple_conseq [OF release_step [where f = "\<lambda>ok g. g"]]) (use assms in auto)
  have give_up: "triple (afloat True m p {} ?n h) (abandon driver texts h pushed) ?Q"
    if "kin g h \<and> sg_reservation_active h" for h
    using abandon_outcome [of h m p pushed driver texts p] that by (simp add: kin_def)
  show ?thesis
    unfolding unmap_segment_def Let_def
    apply (rule triple_bind [OF call_with_event(3)])
    apply (rule triple_quietly, intro quiets)
    apply (rule triple_bind [OF call_unmap], rule assms)
    apply (rule triple_on_success(2))
     apply (rule triple_after [OF change])
     apply (intro triple_quietly quiets)
     apply (rule retire)
    apply (intro triple_quietly quiets)
    apply (rule triple_bind [OF release])
    apply (rule triple_knowing(1), rule give_up, assumption)
    done
qed

lemma capture_afloat:
  "triple (afloat k m p E n g) (capture_is_safe driver texts stream op) (\<lambda>_. afloat k m p E n g)"
  unfolding capture_is_safe_def
proof (rule triple_bind)
  show "triple (afloat k m p E n g) (invoke driver (Stream_is_capturing stream)) (\<lambda>_. afloat k m p E n g)"
    by (rule call_idle) (rule idle_calls)+
qed (intro triple_if triple_quietly quiets triple_return; assumption)+

lemma free_outcome:
  assumes "sg_reservation_active g" "sg_mapped g"
  shows "triple (afloat True m p {} (if pushed then 1 else 0) g) (free_in_context driver texts g pushed)
     (\<lambda>_. released m p (sg_address g))"
proof -
  let ?n = "if pushed then 1 else 0 :: nat"
  have device: "triple (afloat True m p {} ?n g) (invoke driver Ctx_get_device) (\<lambda>_. afloat True m p {} ?n g)"
    by (rule call_idle) (rule idle_calls)+
  note give_up = abandon_outcome [OF assms(1), of m p pushed driver texts p]
  show ?thesis
    unfolding free_in_context_def
    apply (rule triple_bind [OF device])
    apply (rule triple_if, intro triple_quietly quiets, rule give_up)
    apply (rule triple_bind [OF capture_afloat])
    apply (rule triple_if, intro triple_quietly quiets, rule give_up)
    apply (rule triple_bind_pair [OF fence_outcome], unfold prod.case)
    apply (rule triple_on_success(2))
     apply (rule unmap_outcome [OF assms])
    apply (rule give_up)
    done
qed

lemma settled_afloat:
  assumes "settled m p b" "map_of (bk_segments b) a = Some g" "\<not> sg_quarantined g"
  shows "afloat True (m(a := None)) p {} 0 g b" "sg_address g = a" "sg_reservation_active g" "usable g"
proof -
  have m: "m a = Some g"
    using assms by (cases "bk_emergency b") (auto simp: settled_def holdings_def well_keyed_def)
  then have s: "sg_address g = a \<and> a \<noteq> 0 \<and> sg_reservation_active g \<and> usable g"
    using assms unfolding settled_def sound_def by metis
  then show "sg_address g = a" "sg_reservation_active g" "usable g" by simp_all
  have "(m(a := None))(a \<mapsto> g) = m" using m by auto
  then show "afloat True (m(a := None)) p {} 0 g b"
    using assms s sound_others [of m p a] by (auto simp: afloat_def settled_def in_place_def well_keyed_def)
qed

lemma deallocate_found:
  assumes "\<not> sg_quarantined g" "sg_address g = a" "sg_reservation_active g" "usable g"
  shows "triple (afloat True m p {} 0 g) (do {
       (if bytes \<noteq> sg_requested_bytes g then add_counter st_size_mismatches_update 1 else State_Monad.return ());
       (if stream \<noteq> sg_allocation_stream g then add_counter st_stream_mismatches_update 1 else State_Monad.return ());
       (if device \<noteq> sg_device g then add_counter st_context_mismatches_update 1 else State_Monad.return ());
       r \<leftarrow> invoke driver Ctx_get_current;
       if rp_code r \<noteq> cuda_success
       then do {
         add_counter st_free_failures_update 1;
         record_cuda_failure texts ''context'' ''cuCtxGetCurrent'' (rp_code r);
         quarantine g
       }
       else if rp_value r \<noteq> sg_context g
       then do {
         add_counter st_context_mismatches_update 1;
         r \<leftarrow> invoke driver (Ctx_push (sg_context g));
         if rp_code r \<noteq> cuda_success
         then do {
           add_counter st_free_failures_update 1;
           record_cuda_failure texts ''context'' ''cuCtxPushCurrent'' (rp_code r);
           quarantine g
         }
         else free_in_context driver texts g True
       }
       else free_in_context driver texts g False
     }) (\<lambda>_. released m p a)"
proof -
  have current: "triple (afloat True m p {} 0 g) (invoke driver Ctx_get_current) (\<lambda>_. afloat True m p {} 0 g)"
    by (rule call_idle) (rule idle_calls)+
  have q: "triple (afloat True m p {} 0 g) (quarantine g) (\<lambda>_. released m p a)"
    using book_quarantine_released [OF assms(3)] assms(2) by simp
  have free: "triple (afloat True m p {} (if pushed then 1 else 0) g) (free_in_context driver texts g pushed) (\<lambda>_. released m p a)"
    for pushed using free_outcome [of g m p pushed driver texts] assms by (simp add: usable_def)
  have push: "triple (afloat True m p {} (if rp_code r = cuda_success then 1 else 0) g)
      (if rp_code r \<noteq> cuda_success
         then do {
           add_counter st_free_failures_update 1;
           record_cuda_failure texts ''context'' ''cuCtxPushCurrent'' (rp_code r);
           quarantine g
         }
         else free_in_context driver texts g True) (\<lambda>_. released m p a)" for r
    using free [of True] q by (cases "rp_code r = cuda_success") (simp_all, intro triple_quietly quiets)
  show ?thesis
    apply (intro triple_quietly [rotated] quiets)
    apply (rule triple_bind [OF current])
    apply (rule triple_if, intro triple_quietly quiets, rule q)
    apply (rule triple_if, intro triple_quietly quiets)
     apply (rule triple_bind [OF call_push], rule push)
    using free [of False] by simp
qed

text \<open>An address is active when an allocation has returned it and it was neither freed nor quarantined since.\<close>

definition active_in :: "(u64 \<rightharpoonup> segment) \<Rightarrow> u64 \<Rightarrow> bool" where
  "active_in m a \<longleftrightarrow> (case m a of Some g \<Rightarrow> \<not> sg_quarantined g | None \<Rightarrow> False)"

lemma settled_active:
  assumes "settled m p b"
  shows "active_in m a \<longleftrightarrow> (case map_of (bk_segments b) a of Some g \<Rightarrow> \<not> sg_quarantined g | None \<Rightarrow> False)"
proof (cases "bk_emergency b")
  case None
  then show ?thesis using assms by (auto simp: active_in_def settled_def holdings_def)
next
  case (Some e)
  then have m: "m = (map_of (bk_segments b))(sg_address e \<mapsto> e)" and e: "sg_quarantined e"
    "map_of (bk_segments b) (sg_address e) = None"
    using assms by (auto simp: settled_def holdings_def well_keyed_def)
  show ?thesis unfolding active_in_def m using e by (cases "a = sg_address e") simp_all
qed

lemma deallocate_outcome:
  "triple (settled m p) (deallocate driver texts a bytes device stream)
     (\<lambda>_. if active_in m a then released (m(a := None)) p a else settled m p)"
proof -
  let ?Q = "\<lambda>_::unit. if active_in m a then released (m(a := None)) p a else settled m p"
  have unmoved: "triple P f ?Q" if "quiet f" "\<And>b. P b \<Longrightarrow> settled m p b \<and> \<not> active_in m a" for f P
    by (rule triple_hush [OF that(1)]) (use that(2) in auto)
  have zero: "\<not> active_in m 0" if "settled m p b" for b
    using that by (auto simp: settled_def sound_def active_in_def split: option.split)
  show ?thesis
    unfolding deallocate_def
  proof (rule triple_quietly, rule quiets, rule triple_if)
    assume "a = 0"
    show "triple (settled m p) success_unless_poisoned ?Q"
      by (intro unmoved quiets) (simp add: zero \<open>a = 0\<close>)
  next
    assume "a \<noteq> 0"
    show "triple (settled m p) (do {
       s \<leftarrow> State_Monad.get;
       case map_of (al_segments s) a of
         None \<Rightarrow> do {
           add_counter st_free_failures_update 1;
           record_failure Ta_unknown_pointer ''registry'' ''free'' ''pointer is not an xVRAM PyTorch segment'' cuda_success
         }
       | Some stored \<Rightarrow>
           if sg_quarantined stored
           then do {
             add_counter st_free_failures_update 1;
             record_failure Ta_quarantined ''registry'' ''free''
               ''segment was already quarantined after an earlier unsafe cleanup boundary'' cuda_success
           }
           else do {
             (if bytes \<noteq> sg_requested_bytes stored then add_counter st_size_mismatches_update 1 else State_Monad.return ());
             (if stream \<noteq> sg_allocation_stream stored then add_counter st_stream_mismatches_update 1 else State_Monad.return ());
             (if device \<noteq> sg_device stored then add_counter st_context_mismatches_update 1 else State_Monad.return ());
             r \<leftarrow> invoke driver Ctx_get_current;
             if rp_code r \<noteq> cuda_success
             then do {
               add_counter st_free_failures_update 1;
               record_cuda_failure texts ''context'' ''cuCtxGetCurrent'' (rp_code r);
               quarantine stored
             }
             else if rp_value r \<noteq> sg_context stored
             then do {
               add_counter st_context_mismatches_update 1;
               r \<leftarrow> invoke driver (Ctx_push (sg_context stored));
               if rp_code r \<noteq> cuda_success
               then do {
                 add_counter st_free_failures_update 1;
                 record_cuda_failure texts ''context'' ''cuCtxPushCurrent'' (rp_code r);
                 quarantine stored
               }
               else free_in_context driver texts stored True
             }
             else free_in_context driver texts stored False
           }
     }) ?Q"
    proof (rule triple_get, split option.split, intro conjI allI impI triple_if)
      fix s :: allocator and g assume g: "map_of (al_segments s) a = Some g" and q: "\<not> sg_quarantined g"
      have b: "bk_segments (books_of s) = al_segments s" by (simp add: books_of_def)
      show "triple (\<lambda>b. settled m p b \<and> b = books_of s) (do {
             (if bytes \<noteq> sg_requested_bytes g then add_counter st_size_mismatches_update 1 else State_Monad.return ());
             (if stream \<noteq> sg_allocation_stream g then add_counter st_stream_mismatches_update 1 else State_Monad.return ());
             (if device \<noteq> sg_device g then add_counter st_context_mismatches_update 1 else State_Monad.return ());
             r \<leftarrow> invoke driver Ctx_get_current;
             if rp_code r \<noteq> cuda_success
             then do {
               add_counter st_free_failures_update 1;
               record_cuda_failure texts ''context'' ''cuCtxGetCurrent'' (rp_code r);
               quarantine g
             }
             else if rp_value r \<noteq> sg_context g
             then do {
               add_counter st_context_mismatches_update 1;
               r \<leftarrow> invoke driver (Ctx_push (sg_context g));
               if rp_code r \<noteq> cuda_success
               then do {
                 add_counter st_free_failures_update 1;
                 record_cuda_failure texts ''context'' ''cuCtxPushCurrent'' (rp_code r);
                 quarantine g
               }
               else free_in_context driver texts g True
             }
             else free_in_context driver texts g False
           }) ?Q"
      proof (rule triple_fact [where c = "settled m p (books_of s)"], blast)
        assume st: "settled m p (books_of s)"
        note c = settled_afloat [OF st, unfolded b, OF g q]
        have act: "active_in m a" using settled_active [OF st] g q by (simp add: b)
        show ?thesis
          by (rule triple_conseq [OF deallocate_found [OF q c(2-4), of "m(a := None)" p]]) (use c(1) act in auto)
      qed
    qed (intro unmoved quiets; use settled_active in \<open>auto simp: books_of_def\<close>)+
  qed
qed

end
