(* ===== verification/Torch_Allocator_Correct.thy ===== *)
theory Torch_Allocator_Correct
  imports Torch_Steps
begin

text \<open>
The properties of the PyTorch allocator over every reachable state (\<open>torch_reachable\<close>): the books and the driver agree
  and every call is legal, an allocation is all or nothing, a deallocation releases or condemns, a poisoned allocator
  refuses, and memory is given back only behind a fence of its stream. The last section evaluates one allocation
  and its release with a concrete driver.
\<close>

section \<open>Reachable states\<close>

inductive torch_reachable :: "cuda_driver \<Rightarrow> error_texts \<Rightarrow> u64 \<Rightarrow> allocator \<Rightarrow> bool"
  for driver :: cuda_driver and texts :: error_texts and limit :: u64 where
  start: "torch_reachable driver texts limit (allocator_new limit [])"
| alloc: "torch_reachable driver texts limit s \<Longrightarrow>
    torch_reachable driver texts limit (snd (run_state (allocate driver texts registry bytes device stream) s))"
| dealloc: "torch_reachable driver texts limit s \<Longrightarrow>
    torch_reachable driver texts limit (snd (run_state (deallocate driver texts address bytes device stream) s))"
| reset: "torch_reachable driver texts limit s \<Longrightarrow> torch_reachable driver texts limit (snd (run_state reset_stats s))"

lemma quiet_reset: "quiet reset_stats"
  unfolding reset_stats_def by (rule quiet_modify) (simp add: books_of_def Let_def)

lemma triple_result:
  assumes "triple P f Q" "P (books_of s)"
  shows "Q (fst (run_state f s)) (books_of (snd (run_state f s)))"
  using assms by (simp add: triple_on_def)

lemma condemned_settled: "condemned m g b \<Longrightarrow> \<exists>m p. settled m p b"
  by (auto simp: condemned_def)

lemma reachable_settled:
  assumes "torch_reachable driver texts limit s" "honest driver"
  shows "\<exists>m p. settled m p (books_of s)"
  using assms
proof (induction rule: torch_reachable.induct)
  case start
  have "settled Map.empty False (books_of (allocator_new limit []))"
    by (auto simp: settled_def books_of_def allocator_new_def well_keyed_def holdings_def sound_def accounts_def
        vmm_empty_def recorded_def handles_of_def exclusive_def)
  then show ?case by blast
next
  case (alloc s registry bytes device stream)
  then obtain m p where "settled m p (books_of s)" by blast
  from triple_result [OF allocate_outcome [where texts = texts and registry = registry and bytes = bytes and device = device and stream = stream, OF alloc.prems] this]
  show ?case by (auto simp: allocated_def failed_cleanly_def split: if_splits dest: condemned_settled)
next
  case (dealloc s address bytes device stream)
  then obtain m p where "settled m p (books_of s)" by blast
  from triple_result [OF deallocate_outcome [where driver = driver and texts = texts and a = address and bytes = bytes and device = device and stream = stream] this]
  show ?case by (auto simp: released_def split: if_splits dest: condemned_settled)
next
  case (reset s)
  then show ?case using quiet_reset by (simp add: quiet_on_def)
qed

lemma settled_holdings:
  assumes "settled m p (books_of s)"
  shows "m = holdings (books_of s)" "p = al_poisoned s"
  using assms by (auto simp: settled_def books_of_def)

lemma reachable_books:
  assumes "torch_reachable driver texts limit s" "honest driver"
  shows "settled (holdings (books_of s)) (al_poisoned s) (books_of s)"
proof -
  obtain m p where "settled m p (books_of s)" using reachable_settled [OF assms] by blast
  then show ?thesis using settled_holdings [of m p s] by simp
qed

lemma condemned_holdings:
  assumes "condemned m g (books_of s)" "m (sg_address g) = None"
  shows "\<exists>g'. sg_address g' = sg_address g \<and> sg_quarantined g' \<and> holdings (books_of s) = m(sg_address g \<mapsto> g')" "al_poisoned s"
  using assms settled_holdings [of _ _ s] by (auto simp: condemned_def intro!: exI [of _ "g\<lparr>sg_quarantined := True\<rparr>"])

section \<open>The properties\<close>

text \<open>
  C10: with a driver that behaves as documented, after any sequence of allocations, deallocations and resets, with any
  driver failures, every call the allocator has made named resources that were held and in the state the call needs (nothing
  is unmapped, released or freed twice, and no reserved range is freed while mapped), the resources now held are
  exactly those on the allocator's books, no event is left over and every context that was pushed was popped.
\<close>

theorem torch_books_agree:
  assumes "honest driver" "torch_reachable driver texts limit s"
  shows "legal_history (al_history s) \<and> accounts (resources (al_history s)) (holdings (books_of s)) \<and>
    vm_events (resources (al_history s)) = {} \<and> vm_pushed (resources (al_history s)) = 0"
  using reachable_books [OF assms(2,1)] by (simp add: settled_def books_of_def)

text \<open>
  C11: an allocation that returns an address adds exactly one segment to the books: at that address, not in use
  before, of the requested size rounded up to the driver's granularity, created, mapped, accessible and active, and the
  allocator is as poisoned as before. One that returns null leaves the books as they were, or leaves one more quarantined
  segment and the allocator poisoned.
\<close>

theorem allocate_all_or_nothing:
  assumes "honest driver" "torch_reachable driver texts limit s"
    and "run_state (allocate driver texts registry bytes device stream) s = (x, s')"
  shows "if x \<noteq> 0
    then al_poisoned s' = al_poisoned s \<and> holdings (books_of s) x = None \<and>
      (\<exists>g. serves bytes device stream x g \<and> holdings (books_of s') = (holdings (books_of s))(x \<mapsto> g))
    else al_poisoned s' = al_poisoned s \<and> holdings (books_of s') = holdings (books_of s) \<or>
      al_poisoned s' \<and> (\<exists>g. sg_quarantined g \<and> holdings (books_of s) (sg_address g) = None \<and>
        holdings (books_of s') = (holdings (books_of s))(sg_address g \<mapsto> g))"
proof -
  let ?m = "holdings (books_of s)"
  have r: "allocated ?m (al_poisoned s) (\<lambda>g. serves bytes device stream (sg_address g) g) x (books_of s')"
    using triple_result [OF allocate_outcome [where texts = texts and registry = registry and bytes = bytes and device = device and stream = stream, OF assms(1)] reachable_books [OF assms(2,1)]] assms(3) by simp
  show ?thesis
  proof (cases "x = 0")
    case True
    then obtain a where "failed_cleanly ?m (al_poisoned s) a (books_of s')" using r by (auto simp: allocated_def)
    then consider "settled ?m (al_poisoned s) (books_of s')"
      | g where "condemned ?m g (books_of s')" "?m (sg_address g) = None" by (auto simp: failed_cleanly_def)
    then show ?thesis
    proof cases
      case 1
      then show ?thesis using True settled_holdings [of ?m _ s'] by simp
    next
      case 2
      then show ?thesis using True condemned_holdings [OF 2] by auto
    qed
  next
    case False
    then show ?thesis using r settled_holdings [of _ _ s'] by (auto simp: allocated_def)
  qed
qed

text \<open>
  C12: a deallocation of an active address takes exactly its segment off the books, all its resources given
  back, or leaves the segment quarantined and the allocator poisoned. Any other address (null, unknown, already freed,
  quarantined) leaves books and driver resources alone.
\<close>

theorem deallocate_releases_or_condemns:
  assumes "honest driver" "torch_reachable driver texts limit s"
    and "run_state (deallocate driver texts a bytes device stream) s = ((), s')"
  shows "if active_in (holdings (books_of s)) a
    then holdings (books_of s') = (holdings (books_of s))(a := None) \<or>
      al_poisoned s' \<and> (\<exists>g. sg_quarantined g \<and> sg_address g = a \<and> holdings (books_of s') = (holdings (books_of s))(a \<mapsto> g))
    else al_poisoned s' = al_poisoned s \<and> holdings (books_of s') = holdings (books_of s)"
proof -
  let ?m = "holdings (books_of s)"
  have r: "if active_in ?m a then released (?m(a := None)) (al_poisoned s) a (books_of s')
      else settled ?m (al_poisoned s) (books_of s')"
    using triple_result [OF deallocate_outcome [where driver = driver and texts = texts and a = a and bytes = bytes and device = device and stream = stream] reachable_books [OF assms(2,1)]]
      assms(3) by (simp split: if_splits)
  show ?thesis
  proof (cases "active_in ?m a")
    case True
    then consider p' where "settled (?m(a := None)) p' (books_of s')"
      | g where "sg_address g = a" "condemned (?m(a := None)) g (books_of s')" using r by (auto simp: released_def)
    then show ?thesis
    proof cases
      case 1
      then show ?thesis using True settled_holdings [of "?m(a := None)" p' s'] by simp
    next
      case 2
      then show ?thesis using True condemned_holdings [OF 2(2)] by auto
    qed
  next
    case False
    then show ?thesis using r settled_holdings [of ?m _ s'] by simp
  qed
qed

theorem poisoned_allocator_refuses:
  assumes "al_poisoned s" "run_state (allocate driver texts registry bytes device stream) s = (x, s')"
  shows "x = 0 \<and> al_poisoned s' \<and> al_history s' = al_history s \<and> al_segments s' = al_segments s \<and>
    al_emergency_quarantine s' = al_emergency_quarantine s \<and> al_last_error s' = al_poison_error s \<and>
    al_errno s' = ENOMEM \<and> st_last_status (al_stats s') = Ta_quarantined"
  using assms
  by (auto simp: allocate_def fail_allocation_def add_counter_def with_stats_def modify_def record_failure_def
      restore_poison_diagnostic_def set_errno_def State_Monad.bind_def State_Monad.get_def State_Monad.set_def
      State_Monad.return_def)

section \<open>The fence\<close>

fun touches_memory :: "cuda_call \<Rightarrow> bool" where
  "touches_memory (Mem_unmap a n) \<longleftrightarrow> True"
| "touches_memory (Mem_release h) \<longleftrightarrow> True"
| "touches_memory (Address_free a n) \<longleftrightarrow> True"
| "touches_memory _ \<longleftrightarrow> False"

text \<open>The last three calls made, the latest first, are the fence of a stream, and all three succeeded.\<close>

definition fence_first :: "u64 \<Rightarrow> cuda_history \<Rightarrow> bool" where
  "fence_first stream h \<longleftrightarrow>
     (case h of
        (c3, r3) # (c2, r2) # (c1, r1) # _ \<Rightarrow>
          c1 = Event_create \<and> c2 = Event_record (rp_value r1) stream \<and> c3 = Event_synchronize (rp_value r1) \<and>
          rp_code r1 = cuda_success \<and> rp_code r2 = cuda_success \<and> rp_code r3 = cuda_success
      | _ \<Rightarrow> False)"

fun completed :: "u64 \<Rightarrow> cuda_history \<Rightarrow> bool" where
  "completed stream [] \<longleftrightarrow> False"
| "completed stream (x # h) \<longleftrightarrow> fence_first stream (x # h) \<or> completed stream h"

fun fenced :: "u64 \<Rightarrow> cuda_history \<Rightarrow> bool" where
  "fenced stream [] \<longleftrightarrow> True"
| "fenced stream ((c, r) # h) \<longleftrightarrow> fenced stream h \<and> (if touches_memory c then completed stream h else True)"

definition so_far :: "u64 \<Rightarrow> cuda_history \<Rightarrow> bool \<Rightarrow> books \<Rightarrow> bool" where
  "so_far stream h finished b \<longleftrightarrow>
     (\<exists>recent. bk_history b = recent @ h \<and> fenced stream recent \<and> (finished \<longrightarrow> completed stream recent))"

definition silent :: "'a allocating \<Rightarrow> bool" where
  "silent f \<longleftrightarrow> (\<forall>s. al_history (snd (run_state f s)) = al_history s)"

definition tame :: "u64 \<Rightarrow> cuda_history \<Rightarrow> bool \<Rightarrow> 'a allocating \<Rightarrow> bool" where
  "tame stream h finished f \<longleftrightarrow> triple (so_far stream h finished) f (\<lambda>_. so_far stream h finished)"

named_theorems tames

lemma silent_tame: "silent f \<Longrightarrow> tame stream h finished f"
  by (simp add: silent_def tame_def triple_on_def so_far_def books_of_def)

lemma silent_quiet: "quiet f \<Longrightarrow> silent f"
  by (simp add: silent_def quiet_on_def books_of_def)

lemma tame_invoke:
  assumes "touches_memory c \<longrightarrow> finished"
  shows "tame stream h finished (invoke driver c)"
  unfolding tame_def
proof (rule triple_invoke)
  fix b r assume "so_far stream h finished b"
  then obtain recent where "bk_history b = recent @ h" "fenced stream recent" "finished \<longrightarrow> completed stream recent"
    by (auto simp: so_far_def)
  then show "so_far stream h finished (b\<lparr>bk_history := (c, r) # bk_history b\<rparr>)"
    using assms by (auto simp: so_far_def intro!: exI [of _ "(c, r) # recent"])
qed

lemma tame_bind [tames]:
  assumes "tame stream h finished f" "\<And>x. tame stream h finished (g x)"
  shows "tame stream h finished (State_Monad.bind f g)"
  using assms unfolding tame_def by (rule triple_bind)

lemma tame_if [tames]: "tame stream h finished f \<Longrightarrow> tame stream h finished g \<Longrightarrow> tame stream h finished (if c then f else g)"
  by simp

lemma tame_option [tames]:
  assumes "tame stream h finished f" "\<And>x. tame stream h finished (g x)"
  shows "tame stream h finished (case v of None \<Rightarrow> f | Some x \<Rightarrow> g x)"
  using assms by (cases v) simp_all

lemma tame_pair [tames]:
  assumes "\<And>x y. tame stream h finished (f x y)"
  shows "tame stream h finished (case v of (x, y) \<Rightarrow> f x y)"
  using assms by (cases v) simp

lemma silent_atoms:
  "silent (change_segment a g)" "silent (erase_segment a)" "silent poison_current_failure" "silent (State_Monad.return x)"
  "silent State_Monad.get" "silent (with_stats f)" "silent (add_counter field n)" "silent (subtract_counter field n)"
  "silent (set_errno e)" "silent restore_poison_diagnostic" "silent (record_failure st stage op message code)"
  "silent (record_cuda_failure texts stage op code)" "silent success_unless_poisoned" "silent (retire_active_telemetry seg)"
  by (auto simp: silent_def change_segment_def erase_segment_def poison_current_failure_def restore_poison_diagnostic_def
      modify_def State_Monad.bind_def State_Monad.get_def State_Monad.set_def State_Monad.return_def Let_def
      intro!: silent_quiet [unfolded silent_def, rule_format] quiets)

lemmas tame_atoms [tames] = silent_atoms [THEN silent_tame]

lemma tame_quarantine [tames]: "tame stream h finished (quarantine g)"
  unfolding quarantine_def by (intro tames)

lemma tame_restore: "tame stream h finished (restore_context driver texts g pushed)"
  unfolding restore_context_def by (intro tames tame_invoke) simp

lemma tame_abandon: "tame stream h finished (abandon driver texts g pushed)"
  unfolding abandon_def by (intro tames tame_restore)

lemma tame_capture: "tame stream h finished (capture_is_safe driver texts s op)"
  unfolding capture_is_safe_def by (intro tames tame_invoke) simp

lemma tame_finished: "tame stream h True (invoke driver c)"
  by (simp add: tame_invoke)

lemma tame_retire: "tame stream h True (retire_segment driver texts g pushed failed)"
  unfolding retire_segment_def by (intro tames tame_restore tame_finished)

lemma tame_unmap: "tame stream h True (unmap_segment driver texts g pushed e)"
  unfolding unmap_segment_def Let_def by (intro tames tame_abandon tame_retire tame_finished)

lemma so_far_weaken: "so_far stream h finished b \<Longrightarrow> so_far stream h False b"
  by (auto simp: so_far_def)

definition trail :: "u64 \<Rightarrow> cuda_history \<Rightarrow> cuda_history \<Rightarrow> books \<Rightarrow> bool" where
  "trail stream h latest b \<longleftrightarrow> (\<exists>recent. bk_history b = latest @ recent @ h \<and> fenced stream recent)"

lemma trail_call: "triple (trail stream h latest) (invoke driver c) (\<lambda>r. trail stream h ((c, r) # latest))"
  by (rule triple_invoke) (auto simp: trail_def)

lemma fenced_append: "\<forall>(c, r) \<in> set latest. \<not> touches_memory c \<Longrightarrow> fenced stream recent \<Longrightarrow> fenced stream (latest @ recent)"
  by (induction latest) auto

lemma trail_so_far:
  assumes "trail stream h latest b" "\<forall>(c, r) \<in> set latest. \<not> touches_memory c"
    and "finished \<Longrightarrow> \<forall>recent. completed stream (latest @ recent)"
  shows "so_far stream h finished b"
proof -
  obtain recent where "bk_history b = latest @ recent @ h" "fenced stream recent" using assms(1) by (auto simp: trail_def)
  then show ?thesis
    unfolding so_far_def using fenced_append [OF assms(2)] assms(3) by (intro exI [of _ "latest @ recent"]) auto
qed

lemma fence_finishes:
  "triple (so_far (sg_allocation_stream g) h False) (fence driver texts g)
     (\<lambda>(ok, e). so_far (sg_allocation_stream g) h ok)"
proof -
  let ?s = "sg_allocation_stream g" and ?Q = "\<lambda>(ok, e). so_far (sg_allocation_stream g) h ok"
  have start: "so_far ?s h False b \<Longrightarrow> trail ?s h [] b" for b by (auto simp: trail_def so_far_def)
  have lost: "triple (trail ?s h latest) (do { add_counter field 1; record_cuda_failure texts st op code;
      invoke driver (Event_destroy e); State_Monad.return (False, 0) }) ?Q"
    if "\<forall>(c, r) \<in> set latest. \<not> touches_memory c" for latest field st op code e
    by (rule triple_quietly, rule quiets, rule triple_quietly, rule quiets, rule triple_bind [OF trail_call], rule triple_return)
      (use that in \<open>auto elim!: trail_so_far\<close>)
  show ?thesis
    unfolding fence_def Let_def
    apply (rule triple_pre [where P' = "trail ?s h []"])
     apply (rule triple_bind [OF trail_call], rule triple_if)
      apply (intro triple_quietly quiets triple_return)
      apply (auto intro: trail_so_far) [1]
     apply (rule triple_bind [OF trail_call], rule triple_if, rule lost)
      apply simp
     apply (rule triple_bind [OF trail_call], rule triple_if, rule lost)
      apply simp
     apply (intro triple_quietly quiets triple_return)
     apply (auto intro!: trail_so_far simp: fence_first_def) [1]
    apply (rule start, assumption)
    done
qed

lemma free_fenced:
  "triple (so_far (sg_allocation_stream g) h False) (free_in_context driver texts g pushed)
     (\<lambda>_. so_far (sg_allocation_stream g) h False)"
proof -
  let ?s = "sg_allocation_stream g"
  have idle: "triple (so_far ?s h False) (invoke driver Ctx_get_device) (\<lambda>_. so_far ?s h False)"
    using tame_invoke [of Ctx_get_device False] by (simp add: tame_def)
  have give_up: "triple (so_far ?s h False) (abandon driver texts g pushed) (\<lambda>_. so_far ?s h False)"
    using tame_abandon by (simp add: tame_def)
  have capture: "triple (so_far ?s h False) (capture_is_safe driver texts s op) (\<lambda>_. so_far ?s h False)" for s op
    using tame_capture by (simp add: tame_def)
  have unmap: "triple (so_far ?s h ok) (unmap_segment driver texts g pushed e) (\<lambda>_. so_far ?s h False)" if ok for ok e
    by (rule triple_conseq [OF tame_unmap [unfolded tame_def]]) (use that in \<open>auto intro: so_far_weaken\<close>)
  have give_up': "triple (so_far ?s h ok) (abandon driver texts g pushed) (\<lambda>_. so_far ?s h False)" for ok
    by (rule triple_pre [OF give_up]) (rule so_far_weaken)
  show ?thesis
    unfolding free_in_context_def
    apply (rule triple_bind [OF idle])
    apply (rule triple_if, intro triple_quietly quiets, rule give_up)
    apply (rule triple_bind [OF capture])
    apply (rule triple_if, intro triple_quietly quiets, rule give_up)
    apply (rule triple_bind_pair [OF fence_finishes], unfold prod.case)
    apply (rule triple_if, rule give_up')
    apply (rule unmap, simp)
    done
qed

lemma deallocate_trail:
  assumes "map_of (al_segments s) a = Some g"
  shows "so_far (sg_allocation_stream g) (al_history s) False
    (books_of (snd (run_state (deallocate driver texts a bytes device stream) s)))"
proof -
  let ?P = "so_far (sg_allocation_stream g) (al_history s) False"
  let ?now = "\<lambda>b. b = books_of s"
  have start: "?P b" if "?now b" for b using that by (auto simp: so_far_def books_of_def)
  have quietly: "triple ?now f (\<lambda>_. ?P)" if "quiet f" for f by (rule triple_hush [OF that]) (rule start)
  have "triple ?P (quarantine g) (\<lambda>_. ?P)" using tame_quarantine by (simp add: tame_def)
  moreover have "triple ?P (invoke driver Ctx_get_current) (\<lambda>_. ?P)" "triple ?P (invoke driver (Ctx_push c)) (\<lambda>_. ?P)" for c
    using tame_invoke [of Ctx_get_current False] tame_invoke [of "Ctx_push c" False] by (simp_all add: tame_def)
  ultimately have found: "triple ?P (do {
       (if bytes \<noteq> sg_requested_bytes g then add_counter st_size_mismatches_update 1 else State_Monad.return ());
       (if stream \<noteq> sg_allocation_stream g then add_counter st_stream_mismatches_update 1 else State_Monad.return ());
       (if device \<noteq> sg_device g then add_counter st_context_mismatches_update 1 else State_Monad.return ());
       r \<leftarrow> invoke driver Ctx_get_current;
       if rp_code r \<noteq> cuda_success
       then do {
         add_counter st_free_failures_update 1;
         record_cuda_failure texts ''context'' ''cuCtxGetCurrent'' (rp_code r);
         quarantine g
       }
       else if rp_value r \<noteq> sg_context g
       then do {
         add_counter st_context_mismatches_update 1;
         r \<leftarrow> invoke driver (Ctx_push (sg_context g));
         if rp_code r \<noteq> cuda_success
         then do {
           add_counter st_free_failures_update 1;
           record_cuda_failure texts ''context'' ''cuCtxPushCurrent'' (rp_code r);
           quarantine g
         }
         else free_in_context driver texts g True
       }
       else free_in_context driver texts g False
     }) (\<lambda>_. ?P)"
    by (intro triple_quietly quiets triple_bind [where R = "\<lambda>_. ?P"] triple_if free_fenced) simp_all
  show ?thesis
  proof (cases "a = 0")
    case True
    have "triple ?now (deallocate driver texts a bytes device stream) (\<lambda>_. ?P)"
      unfolding deallocate_def using True by (simp, intro quietly quiets)
    then show ?thesis by (simp add: triple_on_def)
  next
    case False
    have same: "al_segments t = al_segments s" if "?now b \<and> b = books_of t" for b and t :: allocator
      using that by (auto simp: books_of_def)
    have quietly': "triple (\<lambda>b. ?now b \<and> b = books_of t) f (\<lambda>_. ?P)" if "quiet f" for f t
      by (rule triple_pre [OF quietly [OF that]]) simp
    have "triple ?now (deallocate driver texts a bytes device stream) (\<lambda>_. ?P)"
      unfolding deallocate_def
      apply (rule triple_quietly, rule quiets, subst if_not_P [OF False], rule triple_get)
      apply (rule triple_fact, rule same, assumption)
      apply (simp only: assms option.case)
      apply (rule triple_if, rule quietly', intro quiets)
      apply (rule triple_pre [OF found], rule start, simp)
      done
    then show ?thesis by (simp add: triple_on_def)
  qed
qed

text \<open>
  C13: among the driver calls of a deallocation, every call that unmaps, releases or frees memory comes after an event
  was created, recorded on the stream of the allocation and synchronized, all three successfully.
\<close>

theorem deallocate_waits_for_stream:
  assumes "map_of (al_segments s) a = Some g"
    and "run_state (deallocate driver texts a bytes device stream) s = (u, s')"
  shows "\<exists>recent. al_history s' = recent @ al_history s \<and> fenced (sg_allocation_stream g) recent"
  using deallocate_trail [OF assms(1), of driver texts bytes device stream] assms(2)
  by (auto simp: so_far_def books_of_def)

section \<open>A concrete driver\<close>

definition example_driver :: cuda_driver where
  "example_driver h c =
     (let new = 4096 * (of_nat (length h) + 1) :: u64
      in case c of
        Address_reserve n \<Rightarrow>
          if new = 0 \<or> vm_reserved (resources h) new \<noteq> None then \<lparr>rp_code = 2, rp_value = 0\<rparr>
          else \<lparr>rp_code = 0, rp_value = new\<rparr>
      | Mem_create n d \<Rightarrow>
          if new = 0 \<or> new \<in> vm_handles (resources h) then \<lparr>rp_code = 2, rp_value = 0\<rparr>
          else \<lparr>rp_code = 0, rp_value = new\<rparr>
      | Get_granularity d \<Rightarrow> \<lparr>rp_code = 0, rp_value = 4096\<rparr>
      | Ctx_get_current \<Rightarrow> \<lparr>rp_code = 0, rp_value = 7\<rparr>
      | Event_create \<Rightarrow> \<lparr>rp_code = 0, rp_value = 9\<rparr>
      | _ \<Rightarrow> \<lparr>rp_code = 0, rp_value = 0\<rparr>)"

definition example_texts :: error_texts where
  "example_texts = \<lparr>et_name = (\<lambda>_. None), et_description = (\<lambda>_. None)\<rparr>"

lemma example_honest: "honest example_driver"
  unfolding honest_def
proof (intro allI impI)
  show "honest_reply (resources h) c (example_driver h c)" for h c
    by (cases c) (simp_all add: example_driver_def Let_def cuda_success_def)
qed

lemma run_driver:
  "run_state (invoke driver c) s =
     (driver (al_history s) c, s\<lparr>al_history := (c, driver (al_history s) c) # al_history s\<rparr>)"
  by (simp_all add: invoke_def State_Monad.bind_def State_Monad.get_def State_Monad.set_def State_Monad.return_def Let_def)

lemmas run_steps = run_basics run_driver

lemmas run_counters = with_stats_def add_counter_def subtract_counter_def set_errno_def

lemma example_align: "align_up 5000 4096 = Some 8192"
  by code_simp

definition example_segment :: segment where
  "example_segment = \<lparr>sg_address = 24576, sg_requested_bytes = 5000, sg_mapped_bytes = 8192, sg_handle = 28672,
     sg_context = 7, sg_allocation_stream = 3, sg_device = 0, sg_reservation_active = True, sg_mapped = True,
     sg_access_set = True, sg_active = True, sg_quarantined = False\<rparr>"

definition example_allocated :: allocator where
  "example_allocated = snd (run_state (allocate example_driver example_texts Reg_stores 5000 0 3) (allocator_new 4 []))"

lemma example_reachable: "torch_reachable example_driver example_texts 4 example_allocated"
  unfolding example_allocated_def by (intro torch_reachable.intros)

lemma example_allocation:
  "fst (run_state (allocate example_driver example_texts Reg_stores 5000 0 3) (allocator_new 4 [])) = 24576"
  "al_segments example_allocated = [(24576, example_segment)] \<and> \<not> al_poisoned example_allocated \<and>
   al_emergency_quarantine example_allocated = None"
  unfolding example_allocated_def
  by (simp_all add: allocate_def run_steps run_counters allocator_new_def example_driver_def cuda_success_def
      capture_is_safe_def example_align register_segment_def set_up_segment_def activate_segment_def change_segment_def
      effect_def vmm_empty_def Let_def example_segment_def cong: bind_weak)

lemma example_holdings: "holdings (books_of example_allocated) = [24576 \<mapsto> example_segment]"
  using example_allocation(2) by (simp add: holdings_def books_of_def)

lemma example_deallocation:
  "al_segments (snd (run_state (deallocate example_driver example_texts 24576 5000 0 3) example_allocated)) = []"
  "al_poisoned (snd (run_state (deallocate example_driver example_texts 24576 5000 0 3) example_allocated)) = False"
  by (simp_all add: deallocate_def free_in_context_def fence_def unmap_segment_def retire_segment_def restore_context_def
      run_steps run_counters example_driver_def cuda_success_def example_allocation(2)
      capture_is_safe_def change_segment_def erase_segment_def retire_active_telemetry_def success_unless_poisoned_def
      effect_def vmm_empty_def Let_def example_segment_def cong: bind_weak)

theorem torch_books_agree_witness:
  "legal_history (al_history example_allocated) \<and>
   vm_reserved (resources (al_history example_allocated)) 24576 = Some 8192 \<and>
   28672 \<in> vm_handles (resources (al_history example_allocated))"
proof -
  have t: "legal_history (al_history example_allocated) \<and>
      accounts (resources (al_history example_allocated)) [24576 \<mapsto> example_segment]"
    using torch_books_agree [OF example_honest example_reachable] by (simp add: example_holdings)
  then show ?thesis
    using accounts_segment [of "resources (al_history example_allocated)" "[24576 \<mapsto> example_segment]" 24576 example_segment]
    by (simp add: example_segment_def reservation_def)
qed

theorem allocate_all_or_nothing_witness:
  "\<exists>g. serves 5000 0 3 24576 g \<and> holdings (books_of example_allocated) = (holdings (books_of (allocator_new 4 [])))(24576 \<mapsto> g)"
proof -
  have "run_state (allocate example_driver example_texts Reg_stores 5000 0 3) (allocator_new 4 []) = (24576, example_allocated)"
    using example_allocation(1) by (simp add: example_allocated_def prod_eq_iff)
  then show ?thesis
    using allocate_all_or_nothing [OF example_honest torch_reachable.start] by simp
qed

theorem deallocate_releases_or_condemns_witness:
  "let s' = snd (run_state (deallocate example_driver example_texts 24576 5000 0 3) example_allocated)
   in \<not> al_poisoned s' \<and> holdings (books_of s') = Map.empty"
proof -
  have "active_in (holdings (books_of example_allocated)) 24576"
    by (simp add: active_in_def example_holdings) (simp add: example_segment_def)
  then show ?thesis
    using deallocate_releases_or_condemns [OF example_honest example_reachable, of 24576 5000 0 3] example_deallocation(2)
    by (simp add: prod_eq_iff example_holdings Let_def)
qed

theorem poisoned_allocator_refuses_witness:
  "fst (run_state (allocate example_driver example_texts Reg_stores 5000 0 3) (example_allocated\<lparr>al_poisoned := True\<rparr>)) = 0"
  using poisoned_allocator_refuses [of "example_allocated\<lparr>al_poisoned := True\<rparr>" example_driver example_texts Reg_stores 5000 0 3]
  by (simp add: prod_eq_iff)

theorem deallocate_waits_for_stream_witness:
  "\<exists>recent. al_history (snd (run_state (deallocate example_driver example_texts 24576 5000 0 3) example_allocated)) =
     recent @ al_history example_allocated \<and> fenced 3 recent"
  using deallocate_waits_for_stream [of example_allocated 24576 example_segment example_driver example_texts 5000 0 3]
    example_allocation(2) by (simp add: prod_eq_iff) (simp add: example_segment_def)

section \<open>The caller's structures\<close>

text \<open>A copy into a caller's structure writes neither past the size passed nor past the size the structure declares.\<close>

lemma copy_versioned_structure_bounds:
  assumes "copy_versioned_structure (Some memory) output_size encoding = (status, Some memory')" "output_size \<le> length memory"
  shows "length memory' = length memory" "drop (min output_size (declared_size memory)) memory' =
    drop (min output_size (declared_size memory)) memory"
  using assms by (auto simp: copy_versioned_structure_def Let_def min_def split: if_splits)

end
