(* ===== verification/Sdk_Status.thy ===== *)
theory Sdk_Status
  imports Residency_Core
begin

text \<open>
What the interfaces of the SDK share: status codes and errors with their C representation (src/src/sdk/status.hpp,
  status.cpp), deadlines (deadline.hpp) and the configuration of a session (include/xvram/xvram.h).
\<close>

section \<open>Status codes and errors\<close>

datatype xvram_status =
    Xs_success | Xs_invalid_argument | Xs_incompatible_abi | Xs_unsupported | Xs_unavailable | Xs_host_out_of_memory
  | Xs_device_out_of_memory | Xs_budget_pressure | Xs_busy | Xs_not_ready | Xs_timeout | Xs_corruption
  | Xs_callback_failed | Xs_cuda_error | Xs_cublas_error | Xs_poisoned | Xs_cleanup_failed | Xs_closed | Xs_cancelled
  | Xs_internal | Xs_other u32

datatype native_error_domain =
    Nd_none | Nd_cuda | Nd_cublas | Nd_platform | Nd_callback | Nd_internal | Nd_other u32

record sdk_error =
  se_status :: xvram_status
  se_native_domain :: native_error_domain
  se_native_code :: int
  se_stage :: string
  se_operation :: string
  se_native_name :: string
  se_message :: string

definition no_sdk_error :: sdk_error where
  "no_sdk_error = \<lparr>se_status = Xs_success, se_native_domain = Nd_none, se_native_code = 0, se_stage = [],
     se_operation = [], se_native_name = [], se_message = []\<rparr>"

definition is_error :: "sdk_error \<Rightarrow> bool" where
  "is_error e \<longleftrightarrow> se_status e \<noteq> Xs_success"

definition make_error :: "xvram_status \<Rightarrow> string \<Rightarrow> string \<Rightarrow> string \<Rightarrow> sdk_error" where
  "make_error status stage operation message =
     no_sdk_error\<lparr>se_status := status, se_stage := stage, se_operation := operation, se_message := message\<rparr>"

definition make_native_error ::
    "xvram_status \<Rightarrow> native_error_domain \<Rightarrow> int \<Rightarrow> string \<Rightarrow> string \<Rightarrow> string \<Rightarrow> string \<Rightarrow> sdk_error" where
  "make_native_error status domain code stage operation native_name message =
     (make_error status stage operation message)\<lparr>se_native_domain := domain, se_native_code := code,
       se_native_name := native_name\<rparr>"

text \<open>What was thrown; the strings of the error are assigned under the assumption that this succeeds.\<close>

datatype thrown = Bad_alloc | Std_exception string | Unknown_exception

fun exception_error :: "string \<Rightarrow> thrown \<Rightarrow> sdk_error" where
  "exception_error operation Bad_alloc = make_error Xs_host_out_of_memory ''sdk'' operation ''host allocation failed''"
| "exception_error operation (Std_exception what) = make_error Xs_internal ''sdk'' operation what"
| "exception_error operation Unknown_exception =
     make_error Xs_internal ''sdk'' operation ''unknown C++ exception at ABI boundary''"

fun status_name :: "xvram_status \<Rightarrow> string" where
  "status_name Xs_success = ''success''"
| "status_name Xs_invalid_argument = ''invalid_argument''"
| "status_name Xs_incompatible_abi = ''incompatible_abi''"
| "status_name Xs_unsupported = ''unsupported''"
| "status_name Xs_unavailable = ''unavailable''"
| "status_name Xs_host_out_of_memory = ''host_out_of_memory''"
| "status_name Xs_device_out_of_memory = ''device_out_of_memory''"
| "status_name Xs_budget_pressure = ''budget_pressure''"
| "status_name Xs_busy = ''busy''"
| "status_name Xs_not_ready = ''not_ready''"
| "status_name Xs_timeout = ''timeout''"
| "status_name Xs_corruption = ''corruption''"
| "status_name Xs_callback_failed = ''callback_failed''"
| "status_name Xs_cuda_error = ''cuda_error''"
| "status_name Xs_cublas_error = ''cublas_error''"
| "status_name Xs_poisoned = ''poisoned''"
| "status_name Xs_cleanup_failed = ''cleanup_failed''"
| "status_name Xs_closed = ''closed''"
| "status_name Xs_cancelled = ''cancelled''"
| "status_name Xs_internal = ''internal''"
| "status_name (Xs_other code) = ''unknown''"

text \<open>A character array of the C interface is the list of its characters.\<close>

record error_info =
  ei_struct_size :: u32
  ei_status :: xvram_status
  ei_native_domain :: native_error_domain
  ei_native_code :: int
  ei_stage :: string
  ei_operation :: string
  ei_native_name :: string
  ei_message :: string

definition fixed_text :: "nat \<Rightarrow> string \<Rightarrow> string" where
  "fixed_text size_of_array source =
     (let n = min (length source) (size_of_array - 1)
      in take n source @ replicate (size_of_array - n) (CHR 0x00))"

definition write_error_info :: "sdk_error \<Rightarrow> u32 \<Rightarrow> error_info" where
  "write_error_info e caller_size =
     \<lparr>ei_struct_size = caller_size, ei_status = se_status e, ei_native_domain = se_native_domain e,
      ei_native_code = se_native_code e, ei_stage = fixed_text 32 (se_stage e),
      ei_operation = fixed_text 64 (se_operation e), ei_native_name = fixed_text 64 (se_native_name e),
      ei_message = fixed_text 256 (se_message e)\<rparr>"

text \<open>The texts of an error fill their arrays exactly and are terminated inside them, whatever their length.\<close>

lemma fixed_text_fits:
  assumes "0 < n"
  shows "length (fixed_text n source) = n" "CHR 0x00 \<in> set (fixed_text n source)"
    "takeWhile (\<lambda>c. c \<noteq> CHR 0x00) (fixed_text n source) = takeWhile (\<lambda>c. c \<noteq> CHR 0x00) (take (n - 1) source)"
proof -
  have n: "n - min (length source) (n - 1) = Suc (n - min (length source) (n - 1) - 1)" using assms by simp
  show "length (fixed_text n source) = n" using assms by (simp add: fixed_text_def Let_def)
  show "CHR 0x00 \<in> set (fixed_text n source)" unfolding fixed_text_def Let_def by (subst n) simp
  have "takeWhile (\<lambda>c. c \<noteq> CHR 0x00) (xs @ CHR 0x00 # ys) = takeWhile (\<lambda>c. c \<noteq> CHR 0x00) xs" for xs ys :: string
    by (induction xs) auto
  then show "takeWhile (\<lambda>c. c \<noteq> CHR 0x00) (fixed_text n source) = takeWhile (\<lambda>c. c \<noteq> CHR 0x00) (take (n - 1) source)"
    unfolding fixed_text_def Let_def by (subst n) (simp add: min_def)
qed

lemma status_name_injective:
  assumes "status_name a = status_name b" "\<And>c. a \<noteq> Xs_other c" "\<And>c. b \<noteq> Xs_other c"
  shows "a = b"
  using assms by (cases a; cases b) simp_all

section \<open>Deadlines\<close>

text \<open>
  A time point of the monotonic clock is its count of nanoseconds, a signed 64-bit number that is not negative; the
  conversion to milliseconds truncates.
\<close>

record submission_deadline =
  sd_submitted_at :: int
  sd_deadline_at :: int
  sd_has_deadline :: bool

definition time_point_max :: int where
  "time_point_max = 9223372036854775807"

definition create_deadline :: "u64 \<Rightarrow> int \<Rightarrow> bool \<times> submission_deadline" where
  "create_deadline deadline_ms submitted_at =
     (let out = \<lparr>sd_submitted_at = submitted_at, sd_deadline_at = 0, sd_has_deadline = False\<rparr>
      in if deadline_ms = 0 then (True, out)
         else
           let remaining_ms = (time_point_max - submitted_at) div 1000000
           in if remaining_ms < 0 \<or> uint deadline_ms > remaining_ms then (False, out)
              else (True, out\<lparr>sd_deadline_at := submitted_at + uint deadline_ms * 1000000, sd_has_deadline := True\<rparr>))"

definition deadline_expired :: "submission_deadline \<Rightarrow> int \<Rightarrow> bool" where
  "deadline_expired d now \<longleftrightarrow> sd_has_deadline d \<and> now \<ge> sd_deadline_at d"

definition timeout_error :: "string \<Rightarrow> string \<Rightarrow> sdk_error" where
  "timeout_error stage operation = make_error Xs_timeout stage operation
     ''operation missed its submission-relative deadline before a safe launch boundary''"

definition validate_submission_deadline :: "u64 \<Rightarrow> int \<Rightarrow> string \<Rightarrow> sdk_error" where
  "validate_submission_deadline deadline_ms now operation =
     (if \<not> fst (create_deadline deadline_ms now)
      then make_error Xs_invalid_argument ''deadline'' operation ''deadline_ms cannot be represented by the monotonic clock''
      else no_sdk_error)"

text \<open>
  A deadline is accepted exactly when its instant is representable; it is then that instant, and without a deadline
  nothing expires.
\<close>

lemma create_deadline_exact:
  assumes "0 \<le> submitted_at" "submitted_at \<le> time_point_max"
  shows "fst (create_deadline ms submitted_at) \<longleftrightarrow> ms = 0 \<or> submitted_at + uint ms * 1000000 \<le> time_point_max"
    and "fst (create_deadline ms submitted_at) \<Longrightarrow>
      deadline_expired (snd (create_deadline ms submitted_at)) now \<longleftrightarrow> ms \<noteq> 0 \<and> now \<ge> submitted_at + uint ms * 1000000"
proof -
  have "uint ms \<le> (time_point_max - submitted_at) div 1000000 \<longleftrightarrow> submitted_at + uint ms * 1000000 \<le> time_point_max"
    by linarith
  moreover have "\<not> (time_point_max - submitted_at) div 1000000 < 0" using assms by simp
  ultimately show "fst (create_deadline ms submitted_at) \<longleftrightarrow> ms = 0 \<or> submitted_at + uint ms * 1000000 \<le> time_point_max"
    by (auto simp: create_deadline_def Let_def)
  show "fst (create_deadline ms submitted_at) \<Longrightarrow>
      deadline_expired (snd (create_deadline ms submitted_at)) now \<longleftrightarrow> ms \<noteq> 0 \<and> now \<ge> submitted_at + uint ms * 1000000"
    by (auto simp: create_deadline_def deadline_expired_def Let_def split: if_splits)
qed

section \<open>The configuration of a session\<close>

text \<open>The enumerations of the C interface are 32-bit numbers, and the code tests their values.\<close>

record session_config =
  sc_struct_size :: u32
  sc_flags :: u32
  sc_device_ordinal :: int
  sc_context_mode :: u32
  sc_chunk_size_bytes :: u64
  sc_cache_target_bytes :: u64
  sc_device_headroom_bytes :: u64
  sc_workspace_cap_bytes :: u64
  sc_budget_poll_ms :: u64
  sc_max_transaction_ms :: u64
  sc_staging_slots :: u32
  sc_cache_policy :: u32
  sc_prefetch_distance :: u32
  sc_reserved0 :: u32
  sc_reserved :: "u64 list"

definition session_config_size :: nat where
  "session_config_size = 112"

definition session_config_init :: session_config where
  "session_config_init = \<lparr>sc_struct_size = 112, sc_flags = 0, sc_device_ordinal = 0, sc_context_mode = 0,
     sc_chunk_size_bytes = 67108864, sc_cache_target_bytes = 0, sc_device_headroom_bytes = 536870912,
     sc_workspace_cap_bytes = 4194304, sc_budget_poll_ms = 100, sc_max_transaction_ms = 0, sc_staging_slots = 4,
     sc_cache_policy = 0, sc_prefetch_distance = 2, sc_reserved0 = 0, sc_reserved = [0, 0, 0, 0]\<rparr>"

definition all_zero :: "u64 list \<Rightarrow> bool" where
  "all_zero values = list_all (\<lambda>v. v = 0) values"

definition max_i64 :: u64 where
  "max_i64 = 9223372036854775807"

end
