(* ===== verification/Compat_Adapter.thy ===== *)
theory Compat_Adapter
  imports Sdk_Status Gemm_Problem State_Triples
begin

text \<open>
The CUDA compatibility adapter (src/src/cuda_compat/adapter.cpp, backend.hpp): a registry of device addresses, matrix
  library handles and a lifecycle in front of a backend. The backend is a parameter, a function from the calls made so
  far, newest first, to its reply.

  The adapter runs its calls one at a time on a worker thread, in the order in which they were queued. A call is
  \<open>call_adapter\<close> applied to its job, in one step; only the scalars of a product are read by the calling thread, in
  \<open>blas_sgemm\<close>. What throws is a value: a job returns \<open>Inl\<close> what it threw, or \<open>Inr\<close> its error and what it wrote through
  its output pointers. Addresses are 64-bit numbers.
\<close>

section \<open>The backend\<close>

record compat_allocation =
  ca_id :: allocation_id
  ca_address :: u64
  ca_bytes :: u64

record compat_config =
  cc_struct_size :: u32
  cc_flags :: u32
  cc_session :: session_config
  cc_stall_timeout_ms :: u64
  cc_cublas_library :: string
  cc_cublas_lt_library :: string
  cc_reserved :: "u64 list"

definition compat_config_size :: nat where
  "compat_config_size = 2208"

text \<open>
  The part of the telemetry that is copied from the backend's. Of the telemetry of the runtime the adapter reads two
  fields; its other fields are copied with them and not represented.
\<close>

record backend_fields =
  bf_cuda_free_bytes_end :: u64
  bf_cublas_version :: u32
  bf_device_ordinal :: int
  bf_device_count :: u32
  bf_device_name :: string
  bf_total_vram_bytes :: u64
  bf_host_physical_bytes :: u64
  bf_host_available_bytes :: u64
  bf_host_store_cap_bytes :: u64
  bf_host_headroom_bytes :: u64
  bf_effective_chunk_bytes :: u64
  bf_tiles_submitted :: u64
  bf_tiles_retired :: u64
  bf_retired_va_reservations :: u64
  bf_retired_va_reservations_freed :: u64
  bf_retired_va_bytes :: u64
  bf_retired_va_bytes_freed :: u64
  bf_host_backing_bytes :: u64
  bf_host_backing_peak_bytes :: u64
  bf_host_budget_bytes :: u64
  bf_cleanup_operations_drained :: u32
  bf_cleanup_events_drained :: u32
  bf_cleanup_completed :: u32
  bf_quarantined :: u32

record backend_snapshot =
  bs_fields :: backend_fields
  bs_progress_sequence :: u64

datatype backend_call =
    B_factory | B_initialize compat_config | B_allocate u64 | B_release allocation_id
  | B_write allocation_id u64 u64 u64 | B_read allocation_id u64 u64 u64 | B_gemm gemm_problem | B_synchronize | B_close

text \<open>
  The reply to a call: whether it threw, or its error and whether the error poisons; the allocation it filled in; the
  snapshots it published meanwhile. The factory replies whether it returned a backend.
\<close>

record backend_reply =
  cb_thrown :: "thrown option"
  cb_error :: sdk_error
  cb_poison :: bool
  cb_allocation :: compat_allocation
  cb_snapshots :: "backend_snapshot list"
  cb_present :: bool

type_synonym backend_history = "(backend_call \<times> backend_reply) list"
type_synonym backend = "backend_history \<Rightarrow> backend_call \<Rightarrow> backend_reply"

section \<open>The adapter's data\<close>

datatype compat_state = Cc_uninitialized | Cc_initializing | Cc_ready | Cc_poisoned | Cc_closed

record compat_telemetry =
  ct_state :: compat_state
  ct_backend :: backend_fields
  ct_calls_attempted :: u64
  ct_calls_submitted :: u64
  ct_calls_completed :: u64
  ct_calls_rejected :: u64
  ct_allocations_created :: u64
  ct_allocations_released :: u64
  ct_live_allocations :: u64
  ct_logical_bytes :: u64
  ct_logical_bytes_peak :: u64
  ct_handles_created :: u64
  ct_handles_destroyed :: u64
  ct_live_handles :: u64
  ct_h2d_bytes :: u64
  ct_d2h_bytes :: u64
  ct_gemm_calls :: u64
  ct_progress_sequence :: u64

record entry =
  en_allocation :: compat_allocation
  en_reserved_bytes :: u64
  en_live :: bool

record blas_handle =
  bh_math_mode :: u32
  bh_live :: bool

text \<open>
  The map of allocations is the list of its entries in the order of their addresses; a handle is known by the address of
  its object, of eight bytes. \<open>ad_torn\<close> belongs to the host: it tells of the next errors to be stored whether copying
  them into the adapter throws, and what the copy has then left; beyond the list every copy succeeds.
\<close>

record compat_adapter =
  ad_backend :: bool
  ad_config :: compat_config
  ad_telemetry :: compat_telemetry
  ad_error :: sdk_error
  ad_torn :: "sdk_error option list"
  ad_backend_progress :: u64
  ad_attempted :: bool
  ad_accepting :: bool
  ad_fail_next_enqueue :: bool
  ad_mutation_active :: bool
  ad_allocations :: "(u64 \<times> entry) list"
  ad_handles :: "(u64 \<times> blas_handle) list"
  ad_history :: backend_history

definition handle_size :: u64 where "handle_size = 8"

definition backend_fields_init :: backend_fields where
  "backend_fields_init = \<lparr>bf_cuda_free_bytes_end = 0, bf_cublas_version = 0, bf_device_ordinal = 0, bf_device_count = 0,
     bf_device_name = replicate 128 (CHR 0x00), bf_total_vram_bytes = 0, bf_host_physical_bytes = 0,
     bf_host_available_bytes = 0, bf_host_store_cap_bytes = 0, bf_host_headroom_bytes = 0, bf_effective_chunk_bytes = 0,
     bf_tiles_submitted = 0, bf_tiles_retired = 0, bf_retired_va_reservations = 0, bf_retired_va_reservations_freed = 0,
     bf_retired_va_bytes = 0, bf_retired_va_bytes_freed = 0, bf_host_backing_bytes = 0, bf_host_backing_peak_bytes = 0,
     bf_host_budget_bytes = 0, bf_cleanup_operations_drained = 0, bf_cleanup_events_drained = 0,
     bf_cleanup_completed = 0, bf_quarantined = 0\<rparr>"

definition compat_telemetry_init :: compat_telemetry where
  "compat_telemetry_init = \<lparr>ct_state = Cc_uninitialized, ct_backend = backend_fields_init,
     ct_calls_attempted = 0, ct_calls_submitted = 0, ct_calls_completed = 0, ct_calls_rejected = 0,
     ct_allocations_created = 0, ct_allocations_released = 0, ct_live_allocations = 0, ct_logical_bytes = 0,
     ct_logical_bytes_peak = 0, ct_handles_created = 0, ct_handles_destroyed = 0, ct_live_handles = 0, ct_h2d_bytes = 0,
     ct_d2h_bytes = 0, ct_gemm_calls = 0, ct_progress_sequence = 0\<rparr>"

definition compat_config_init :: compat_config where
  "compat_config_init = \<lparr>cc_struct_size = 2208, cc_flags = 0, cc_session = session_config_init, cc_stall_timeout_ms = 5000,
     cc_cublas_library = replicate 1024 (CHR 0x00), cc_cublas_lt_library = replicate 1024 (CHR 0x00),
     cc_reserved = [0, 0, 0, 0]\<rparr>"

definition compat_adapter_new :: compat_adapter where
  "compat_adapter_new = \<lparr>ad_backend = False, ad_config = compat_config_init, ad_telemetry = compat_telemetry_init,
     ad_error = no_sdk_error, ad_torn = [], ad_backend_progress = 0, ad_attempted = False, ad_accepting = False,
     ad_fail_next_enqueue = False, ad_mutation_active = False, ad_allocations = [], ad_handles = [], ad_history = []\<rparr>"

section \<open>Configuration\<close>

definition invalid :: "string \<Rightarrow> string \<Rightarrow> sdk_error" where
  "invalid operation message = make_error Xs_invalid_argument ''compat_preflight'' operation message"

definition unsupported :: "string \<Rightarrow> string \<Rightarrow> sdk_error" where
  "unsupported operation message = make_error Xs_unsupported ''compat_preflight'' operation message"

definition valid_config :: "compat_config \<Rightarrow> bool" where
  "valid_config v \<longleftrightarrow>
     (let s = cc_session v
      in cc_flags v = 0 \<and> all_zero (cc_reserved v) \<and> unat (sc_struct_size s) \<ge> session_config_size \<and> sc_flags s = 0 \<and>
         sc_device_ordinal s \<ge> 0 \<and> sc_context_mode s = 0 \<and>
         sc_chunk_size_bytes s > 0 \<and> and (sc_chunk_size_bytes s) (sc_chunk_size_bytes s - 1) = 0 \<and>
         sc_staging_slots s \<ge> 2 \<and> sc_staging_slots s \<le> 8 \<and> sc_prefetch_distance s \<le> 8 \<and>
         sc_budget_poll_ms s > 0 \<and> sc_cache_policy s \<le> 1 \<and> sc_reserved0 s = 0 \<and>
         all_zero (sc_reserved s) \<and> sc_budget_poll_ms s \<le> max_i64 \<and>
         sc_max_transaction_ms s \<le> 250 \<and> cc_stall_timeout_ms v > 0 \<and> cc_stall_timeout_ms v \<le> max_i64)"

definition terminated :: "string \<Rightarrow> bool" where
  "terminated text = list_ex (\<lambda>c. c = CHR 0x00) text"

definition path_of :: "string \<Rightarrow> string" where
  "path_of text = takeWhile (\<lambda>c. c \<noteq> CHR 0x00) text"

section \<open>Pointers\<close>

definition upper_bound_before :: "u64 \<Rightarrow> (u64 \<times> entry) list \<Rightarrow> (u64 \<times> entry) option" where
  "upper_bound_before address allocations =
     (let before = takeWhile (\<lambda>(base, _). base \<le> address) allocations
      in if before = [] then None else Some (last before))"

definition lookup_live :: "(u64 \<times> entry) list \<Rightarrow> u64 \<Rightarrow> u64 \<Rightarrow> entry option" where
  "lookup_live allocations address len =
     (case upper_bound_before address allocations of
        None \<Rightarrow> None
      | Some (base, e) \<Rightarrow>
          let offset = address - base
          in if en_live e \<and> offset \<le> ca_bytes (en_allocation e) \<and> len \<le> ca_bytes (en_allocation e) - offset
             then Some e else None)"

definition touches_managed :: "(u64 \<times> entry) list \<Rightarrow> u64 \<Rightarrow> u64 \<Rightarrow> bool" where
  "touches_managed allocations address len =
     (let extent = max 1 len
      in if extent > max_u64 - address then True
         else
           let stop = address + extent
           in list_ex (\<lambda>(base, e). base + en_reserved_bytes e > address)
                (takeWhile (\<lambda>(base, _). base < stop) allocations))"

definition find_handle :: "(u64 \<times> blas_handle) list \<Rightarrow> u64 \<Rightarrow> blas_handle option" where
  "find_handle handles pointer =
     (case find (\<lambda>(address, _). address = pointer) handles of
        None \<Rightarrow> None
      | Some (_, h) \<Rightarrow> if bh_live h then Some h else None)"

definition is_host :: "compat_adapter \<Rightarrow> u64 \<Rightarrow> u64 \<Rightarrow> bool" where
  "is_host s pointer bytes =
     (if pointer = 0 \<or> touches_managed (ad_allocations s) pointer bytes then False
      else
        let extent = max bytes 1
        in if extent > max_u64 - pointer then False
           else list_all (\<lambda>(address, _). \<not> (pointer < address + handle_size \<and> address < pointer + extent)) (ad_handles s))"

section \<open>Steps\<close>

type_synonym 'a adapting = "(compat_adapter, 'a) state"

definition with_telemetry :: "(compat_telemetry \<Rightarrow> compat_telemetry) \<Rightarrow> unit adapting" where
  "with_telemetry f = modify (\<lambda>s. s\<lparr>ad_telemetry := f (ad_telemetry s)\<rparr>)"

definition set_state :: "compat_state \<Rightarrow> unit adapting" where
  "set_state v = with_telemetry (ct_state_update (\<lambda>_. v))"

text \<open>The first error of the list of torn ones is the one stored now.\<close>

definition copy_error :: "sdk_error \<Rightarrow> bool adapting" where
  "copy_error e = do {
     s \<leftarrow> State_Monad.get;
     let torn = (if ad_torn s = [] then None else hd (ad_torn s));
     modify (\<lambda>s. s\<lparr>ad_torn := tl (ad_torn s), ad_error := (case torn of None \<Rightarrow> e | Some left \<Rightarrow> left)\<rparr>);
     State_Monad.return (torn = None)
   }"

definition record_error :: "sdk_error \<Rightarrow> bool \<Rightarrow> xvram_status adapting" where
  "record_error e rejected =
     (if \<not> is_error e then State_Monad.return Xs_success
      else do {
        copied \<leftarrow> copy_error e;
        (if copied \<and> rejected then with_telemetry (ct_calls_rejected_update (\<lambda>n. n + 1)) else State_Monad.return ());
        State_Monad.return (se_status e)
      })"

definition reject_initialize :: "sdk_error \<Rightarrow> xvram_status adapting" where
  "reject_initialize e = do {
     with_telemetry (ct_calls_attempted_update (\<lambda>n. n + 1));
     record_error e True
   }"

definition take_snapshot :: "backend_snapshot \<Rightarrow> compat_adapter \<Rightarrow> compat_adapter" where
  "take_snapshot source s =
     (let t = (ad_telemetry s)\<lparr>ct_backend := bs_fields source\<rparr>
      in if bs_progress_sequence source > ad_backend_progress s
         then s\<lparr>ad_telemetry := t\<lparr>ct_progress_sequence := ct_progress_sequence t +
                  (bs_progress_sequence source - ad_backend_progress s)\<rparr>,
                ad_backend_progress := bs_progress_sequence source\<rparr>
         else s\<lparr>ad_telemetry := t\<rparr>)"

text \<open>One call of the backend, with the snapshots it publishes.\<close>

definition ask :: "backend \<Rightarrow> backend_call \<Rightarrow> backend_reply adapting" where
  "ask backend c = do {
     s \<leftarrow> State_Monad.get;
     let r = backend (ad_history s) c;
     State_Monad.set (fold take_snapshot (cb_snapshots r) (s\<lparr>ad_history := (c, r) # ad_history s\<rparr>));
     State_Monad.return r
   }"

definition outcome_of :: "backend_reply \<Rightarrow> sdk_error adapting" where
  "outcome_of r = do {
     (if is_error (cb_error r) \<and> cb_poison r then set_state Cc_poisoned else State_Monad.return ());
     State_Monad.return (cb_error r)
   }"

text \<open>A mutation that throws leaves the flag set, which the caller's handler reads.\<close>

definition perform :: "backend \<Rightarrow> backend_call \<Rightarrow> (thrown + sdk_error \<times> compat_allocation) adapting" where
  "perform backend c = do {
     modify (\<lambda>s. s\<lparr>ad_mutation_active := True\<rparr>);
     r \<leftarrow> ask backend c;
     case cb_thrown r of
       Some t \<Rightarrow> State_Monad.return (Inl t)
     | None \<Rightarrow> do {
         modify (\<lambda>s. s\<lparr>ad_mutation_active := False\<rparr>);
         e \<leftarrow> outcome_of r;
         State_Monad.return (Inr (e, cb_allocation r))
       }
   }"

text \<open>What a job returns: its error and the values it wrote through the output pointers, or what it threw.\<close>

type_synonym job_result = "thrown + sdk_error \<times> u64 list"

definition call_adapter :: "string \<Rightarrow> bool \<Rightarrow> job_result adapting \<Rightarrow> (xvram_status \<times> u64 list) adapting" where
  "call_adapter operation needs_ready job = do {
     with_telemetry (ct_calls_attempted_update (\<lambda>n. n + 1));
     s \<leftarrow> State_Monad.get;
     if \<not> ad_accepting s
     then do {
       status \<leftarrow> record_error (make_error
         (if ct_state (ad_telemetry s) = Cc_uninitialized then Xs_not_ready else Xs_closed) ''compat'' operation
         ''explicit initialization is required and a closed adapter cannot reopen'') True;
       State_Monad.return (status, [])
     }
     else if ad_fail_next_enqueue s
     then do {
       modify (\<lambda>s. s\<lparr>ad_fail_next_enqueue := False\<rparr>);
       status \<leftarrow> record_error (exception_error operation Bad_alloc) True;
       State_Monad.return (status, [])
     }
     else if needs_ready \<and> ct_state (ad_telemetry s) \<noteq> Cc_ready
     then do {
       status \<leftarrow> record_error (make_error
         (if ct_state (ad_telemetry s) = Cc_poisoned then Xs_poisoned else Xs_closed) ''compat'' operation
         ''adapter does not admit data operations in this lifecycle state'') True;
       State_Monad.return (status, [])
     }
     else do {
       with_telemetry (ct_calls_submitted_update (\<lambda>n. n + 1));
       result \<leftarrow> job;
       case result of
         Inr (e, outputs) \<Rightarrow> do {
           status \<leftarrow> record_error e (is_error e);
           (if \<not> is_error e then with_telemetry (ct_calls_completed_update (\<lambda>n. n + 1)) else State_Monad.return ());
           State_Monad.return (status, outputs)
         }
       | Inl t \<Rightarrow> do {
           status \<leftarrow> record_error (exception_error operation t) True;
           s \<leftarrow> State_Monad.get;
           (if ad_mutation_active s then set_state Cc_poisoned else State_Monad.return ());
           modify (\<lambda>s. s\<lparr>ad_mutation_active := False\<rparr>);
           State_Monad.return (status, [])
         }
     }
   }"

definition refuse :: "sdk_error \<Rightarrow> job_result adapting" where
  "refuse e = State_Monad.return (Inr (e, []))"

definition succeed :: "u64 list \<Rightarrow> job_result adapting" where
  "succeed outputs = State_Monad.return (Inr (no_sdk_error, outputs))"

section \<open>Lifecycle\<close>

definition close_backend :: "backend \<Rightarrow> sdk_error adapting" where
  "close_backend backend = do {
     s \<leftarrow> State_Monad.get;
     e \<leftarrow> (if \<not> ad_backend s then State_Monad.return no_sdk_error
       else do {
         r \<leftarrow> ask backend B_close;
         case cb_thrown r of
           Some t \<Rightarrow> State_Monad.return (exception_error ''backend_close'' t)
         | None \<Rightarrow> outcome_of r
       });
     modify (\<lambda>s. s\<lparr>ad_backend := False\<rparr>);
     State_Monad.return e
   }"

definition finish_close :: "sdk_error \<Rightarrow> unit adapting" where
  "finish_close e = do {
     modify (\<lambda>s. s\<lparr>ad_allocations := map (\<lambda>(a, x). (a, x\<lparr>en_live := False\<rparr>)) (ad_allocations s),
       ad_handles := map (\<lambda>(a, h). (a, h\<lparr>bh_live := False\<rparr>)) (ad_handles s)\<rparr>);
     (if \<not> is_error e
      then with_telemetry (\<lambda>t. t\<lparr>ct_allocations_released := ct_allocations_created t,
        ct_handles_destroyed := ct_handles_created t, ct_live_allocations := 0, ct_live_handles := 0,
        ct_logical_bytes := 0, ct_backend := (ct_backend t)\<lparr>bf_cleanup_completed := 1\<rparr>\<rparr>)
      else State_Monad.return ());
     set_state Cc_closed
   }"

text \<open>The worker drains its queue and closes the backend if nothing else has.\<close>

definition stop_worker :: "backend \<Rightarrow> unit adapting" where
  "stop_worker backend = do {
     modify (\<lambda>s. s\<lparr>ad_accepting := False\<rparr>);
     s \<leftarrow> State_Monad.get;
     if ad_backend s
     then do {
       e \<leftarrow> close_backend backend;
       record_error e False;
       finish_close e
     }
     else State_Monad.return ()
   }"

definition initialize_job :: "backend \<Rightarrow> job_result adapting" where
  "initialize_job backend = do {
     r \<leftarrow> ask backend B_factory;
     case cb_thrown r of
       Some t \<Rightarrow> State_Monad.return (Inl t)
     | None \<Rightarrow> do {
         modify (\<lambda>s. s\<lparr>ad_backend := cb_present r\<rparr>);
         if \<not> cb_present r
         then refuse (make_error Xs_internal ''compat'' ''initialize'' ''backend factory returned null'')
         else do {
           s \<leftarrow> State_Monad.get;
           r \<leftarrow> ask backend (B_initialize (ad_config s));
           case cb_thrown r of
             Some t \<Rightarrow> State_Monad.return (Inl t)
           | None \<Rightarrow> do {
               (if \<not> is_error (cb_error r) then set_state Cc_ready
                else do {
                  close_backend backend;
                  set_state Cc_closed
                });
               refuse (cb_error r)
             }
         }
       }
   }"

text \<open>
  An initialization can throw outside of a call: while the text of a rejection is made, while a library path is converted,
  and while the worker thread is created. \<open>faults\<close> is what the host throws there, if it does.
\<close>

datatype initialize_site = Making_rejection | Core_path | Lt_path | Making_thread

definition start_worker ::
    "backend \<Rightarrow> compat_config \<Rightarrow> (initialize_site \<Rightarrow> thrown option) \<Rightarrow> (thrown + xvram_status) adapting" where
  "start_worker backend config faults = do {
     modify (\<lambda>s. s\<lparr>ad_attempted := True, ad_config := config\<rparr>);
     set_state Cc_initializing;
     case faults Making_thread of
       Some t \<Rightarrow> State_Monad.return (Inl t)
     | None \<Rightarrow> do {
       modify (\<lambda>s. s\<lparr>ad_accepting := True\<rparr>);
       (status, _) \<leftarrow> call_adapter ''initialize'' False (initialize_job backend);
       (if status \<noteq> Xs_success
        then do {
          call_adapter ''initialize_cleanup'' False (do {
            close_backend backend;
            set_state Cc_closed;
            succeed []
          });
          stop_worker backend
        }
        else State_Monad.return ());
       State_Monad.return (Inr status)
     }
   }"

text \<open>
  The library paths are both absent or both absolute; \<open>absolute\<close> tells which paths the file system takes for absolute
  ones.
\<close>

definition library_paths_valid ::
    "(string \<Rightarrow> bool) \<Rightarrow> (initialize_site \<Rightarrow> thrown option) \<Rightarrow> string \<Rightarrow> string \<Rightarrow> thrown + bool" where
  "library_paths_valid absolute faults core lt =
     (if (core \<noteq> []) \<noteq> (lt \<noteq> []) then Inr False
      else if core = [] then Inr True
      else
        case faults Core_path of
          Some t \<Rightarrow> Inl t
        | None \<Rightarrow>
            if \<not> absolute core then Inr False
            else case faults Lt_path of Some t \<Rightarrow> Inl t | None \<Rightarrow> Inr (absolute lt))"

definition refuse_initialize :: "(initialize_site \<Rightarrow> thrown option) \<Rightarrow> sdk_error \<Rightarrow> (thrown + xvram_status) adapting" where
  "refuse_initialize faults e =
     (case faults Making_rejection of
        Some t \<Rightarrow> State_Monad.return (Inl t)
      | None \<Rightarrow> do {
          status \<leftarrow> reject_initialize e;
          State_Monad.return (Inr status)
        })"

definition initialize_body ::
    "backend \<Rightarrow> (string \<Rightarrow> bool) \<Rightarrow> (initialize_site \<Rightarrow> thrown option) \<Rightarrow> compat_config option \<Rightarrow>
     (thrown + xvram_status) adapting" where
  "initialize_body backend absolute faults config =
     (case config of
        None \<Rightarrow> refuse_initialize faults (invalid ''initialize'' ''configuration prefix is missing'')
      | Some config \<Rightarrow>
          if unat (cc_struct_size config) < compat_config_size
          then refuse_initialize faults (invalid ''initialize'' ''configuration prefix is missing'')
          else if \<not> valid_config config
          then refuse_initialize faults (invalid ''initialize'' ''unsupported configuration or nonzero reserved fields'')
          else if \<not> terminated (cc_cublas_library config) \<or> \<not> terminated (cc_cublas_lt_library config)
          then refuse_initialize faults (invalid ''initialize'' ''library paths must be NUL terminated'')
          else
            case library_paths_valid absolute faults (path_of (cc_cublas_library config)) (path_of (cc_cublas_lt_library config)) of
              Inl t \<Rightarrow> State_Monad.return (Inl t)
            | Inr valid \<Rightarrow>
                if \<not> valid
                then refuse_initialize faults (invalid ''initialize'' ''library paths must be an absolute core/Lt pair'')
                else do {
                  s \<leftarrow> State_Monad.get;
                  if ad_attempted s
                  then refuse_initialize faults (make_error Xs_closed ''compat'' ''initialize''
                    ''only one initialization attempt is permitted'')
                  else start_worker backend config faults
                })"

text \<open>What was thrown ends in the handler, which closes the adapter whatever state it was in.\<close>

definition adapter_initialize ::
    "backend \<Rightarrow> (string \<Rightarrow> bool) \<Rightarrow> (initialize_site \<Rightarrow> thrown option) \<Rightarrow> compat_config option \<Rightarrow> xvram_status adapting" where
  "adapter_initialize backend absolute faults config = do {
     result \<leftarrow> initialize_body backend absolute faults config;
     case result of
       Inl t \<Rightarrow> do {
         set_state Cc_closed;
         record_error (exception_error ''initialize'' t) True
       }
     | Inr status \<Rightarrow> State_Monad.return status
   }"

definition adapter_shutdown :: "backend \<Rightarrow> xvram_status adapting" where
  "adapter_shutdown backend = do {
     s \<leftarrow> State_Monad.get;
     if \<not> ad_accepting s then State_Monad.return Xs_success
     else do {
       (status, _) \<leftarrow> call_adapter ''shutdown'' False (do {
         e \<leftarrow> close_backend backend;
         finish_close e;
         refuse e
       });
       stop_worker backend;
       State_Monad.return status
     }
   }"

definition error_info_size :: nat where "error_info_size = 440"

definition adapter_get_error :: "u32 option \<Rightarrow> compat_adapter \<Rightarrow> xvram_status \<times> error_info option" where
  "adapter_get_error caller_size s =
     (case caller_size of
        None \<Rightarrow> (Xs_invalid_argument, None)
      | Some n \<Rightarrow>
          if unat n < error_info_size then (Xs_invalid_argument, None)
          else (Xs_success, Some (write_error_info (ad_error s) n)))"

definition compat_telemetry_size :: nat where "compat_telemetry_size = 760"

definition adapter_get_telemetry :: "u32 option \<Rightarrow> compat_adapter \<Rightarrow> xvram_status \<times> compat_telemetry option" where
  "adapter_get_telemetry caller_size s =
     (case caller_size of
        None \<Rightarrow> (Xs_invalid_argument, None)
      | Some n \<Rightarrow>
          if unat n < compat_telemetry_size then (Xs_invalid_argument, None) else (Xs_success, Some (ad_telemetry s)))"

section \<open>Memory\<close>

text \<open>Gives back what the registry will not hold; only an exception changes the outcome.\<close>

definition give_back :: "backend \<Rightarrow> allocation_id \<Rightarrow> job_result adapting \<Rightarrow> job_result adapting" where
  "give_back backend owned rest = do {
     released \<leftarrow> perform backend (B_release owned);
     case released of
       Inl t \<Rightarrow> State_Monad.return (Inl t)
     | Inr _ \<Rightarrow> rest
   }"

definition emplace :: "u64 \<Rightarrow> entry \<Rightarrow> (u64 \<times> entry) list \<Rightarrow> (u64 \<times> entry) list" where
  "emplace base e allocations =
     (if base \<in> set (map fst allocations) then allocations else insort_key fst (base, e) allocations)"

definition set_live :: "u64 \<Rightarrow> bool \<Rightarrow> (u64 \<times> entry) list \<Rightarrow> (u64 \<times> entry) list" where
  "set_live base live allocations = map (\<lambda>(a, e). (a, if a = base then e\<lparr>en_live := live\<rparr> else e)) allocations"

definition register_allocation :: "backend \<Rightarrow> u64 \<Rightarrow> compat_allocation \<Rightarrow> u64 \<Rightarrow> thrown option \<Rightarrow> job_result adapting" where
  "register_allocation backend bytes allocation reserved registry_failure =
     (case registry_failure of
        Some t \<Rightarrow> give_back backend (ca_id allocation) (refuse (exception_error ''allocation_registry'' t))
      | None \<Rightarrow> do {
          modify (\<lambda>s. s\<lparr>ad_allocations := emplace (ca_address allocation)
            \<lparr>en_allocation = allocation, en_reserved_bytes = reserved, en_live = True\<rparr> (ad_allocations s)\<rparr>);
          with_telemetry (\<lambda>t. t\<lparr>ct_allocations_created := ct_allocations_created t + 1,
            ct_live_allocations := ct_live_allocations t + 1, ct_logical_bytes := ct_logical_bytes t + bytes,
            ct_logical_bytes_peak := max (ct_logical_bytes_peak t) (ct_logical_bytes t + bytes)\<rparr>);
          succeed [ca_address allocation]
        })"

definition admit_allocation :: "backend \<Rightarrow> u64 \<Rightarrow> compat_allocation \<Rightarrow> thrown option \<Rightarrow> job_result adapting" where
  "admit_allocation backend bytes allocation registry_failure = do {
     s \<leftarrow> State_Monad.get;
     let observed = bf_effective_chunk_bytes (ct_backend (ad_telemetry s));
     let chunk = (if observed = 0 then sc_chunk_size_bytes (cc_session (ad_config s)) else observed);
     if bytes > max_u64 - (chunk - 1)
     then give_back backend (ca_id allocation) (refuse (invalid ''cudaMalloc'' ''allocation reservation rounding overflows''))
     else do {
       let reserved = ((bytes + chunk - 1) div chunk) * chunk;
       if ca_address allocation = 0 \<or> ca_bytes allocation \<noteq> bytes \<or> reserved > max_u64 - ca_address allocation \<or>
          touches_managed (ad_allocations s) (ca_address allocation) reserved
       then give_back backend (ca_id allocation) (do {
         set_state Cc_poisoned;
         refuse (make_error Xs_corruption ''compat'' ''cudaMalloc'' ''backend reused an owned or retired virtual range'')
       })
       else register_allocation backend bytes allocation reserved registry_failure
     }
   }"

definition malloc_job :: "backend \<Rightarrow> u64 \<Rightarrow> u64 \<Rightarrow> thrown option \<Rightarrow> job_result adapting" where
  "malloc_job backend output_pointer bytes registry_failure = do {
     s \<leftarrow> State_Monad.get;
     if \<not> is_host s output_pointer 8 \<or> bytes = 0 \<or> bytes > max_u64 - (sc_chunk_size_bytes (cc_session (ad_config s)) - 1)
     then refuse (invalid ''cudaMalloc'' ''a host output pointer and positive representable size are required'')
     else do {
       allocated \<leftarrow> perform backend (B_allocate bytes);
       case allocated of
         Inl t \<Rightarrow> State_Monad.return (Inl t)
       | Inr (e, allocation) \<Rightarrow>
           if is_error e then refuse e else admit_allocation backend bytes allocation registry_failure
     }
   }"

definition malloc_device :: "backend \<Rightarrow> thrown option \<Rightarrow> u64 \<Rightarrow> u64 \<Rightarrow> (xvram_status \<times> u64 list) adapting" where
  "malloc_device backend registry_failure output_pointer bytes =
     call_adapter ''cudaMalloc'' True (malloc_job backend output_pointer bytes registry_failure)"

definition free_job :: "backend \<Rightarrow> u64 \<Rightarrow> job_result adapting" where
  "free_job backend pointer =
     (if pointer = 0 then succeed []
      else do {
        s \<leftarrow> State_Monad.get;
        case lookup_live (ad_allocations s) pointer 1 of
          None \<Rightarrow> refuse (invalid ''cudaFree'' ''pointer is not a live allocation base'')
        | Some e \<Rightarrow>
            if ca_address (en_allocation e) \<noteq> pointer
            then refuse (invalid ''cudaFree'' ''pointer is not a live allocation base'')
            else do {
              released \<leftarrow> perform backend (B_release (ca_id (en_allocation e)));
              case released of
                Inl t \<Rightarrow> State_Monad.return (Inl t)
              | Inr (error, _) \<Rightarrow>
                  if is_error error then refuse error
                  else do {
                    modify (\<lambda>s. s\<lparr>ad_allocations := set_live pointer False (ad_allocations s)\<rparr>);
                    with_telemetry (\<lambda>t. t\<lparr>ct_allocations_released := ct_allocations_released t + 1,
                      ct_live_allocations := ct_live_allocations t - 1,
                      ct_logical_bytes := ct_logical_bytes t - ca_bytes (en_allocation e)\<rparr>);
                    succeed []
                  }
            }
      })"

definition free_device :: "backend \<Rightarrow> u64 \<Rightarrow> (xvram_status \<times> u64 list) adapting" where
  "free_device backend pointer = call_adapter ''cudaFree'' True (free_job backend pointer)"

definition copy_job :: "backend \<Rightarrow> u64 \<Rightarrow> u64 \<Rightarrow> u64 \<Rightarrow> u32 \<Rightarrow> job_result adapting" where
  "copy_job backend destination source bytes kind =
     (if kind \<noteq> 1 \<and> kind \<noteq> 2
      then refuse (unsupported ''cudaMemcpy'' ''only explicit host-to-device and device-to-host copies are supported'')
      else if bytes = 0 then succeed []
      else do {
        let device = (if kind = 1 then destination else source);
        let host_pointer = (if kind = 1 then source else destination);
        s \<leftarrow> State_Monad.get;
        case lookup_live (ad_allocations s) device bytes of
          None \<Rightarrow> refuse (invalid ''cudaMemcpy'' ''copy must pair one live managed range with a host range'')
        | Some e \<Rightarrow>
            if \<not> is_host s host_pointer bytes
            then refuse (invalid ''cudaMemcpy'' ''copy must pair one live managed range with a host range'')
            else do {
              let offset = device - ca_address (en_allocation e);
              copied \<leftarrow> perform backend
                (if kind = 1 then B_write (ca_id (en_allocation e)) offset source bytes
                 else B_read (ca_id (en_allocation e)) offset destination bytes);
              case copied of
                Inl t \<Rightarrow> State_Monad.return (Inl t)
              | Inr (error, _) \<Rightarrow>
                  if is_error error then refuse error
                  else do {
                    with_telemetry (\<lambda>t. if kind = 1 then t\<lparr>ct_h2d_bytes := ct_h2d_bytes t + bytes\<rparr>
                      else t\<lparr>ct_d2h_bytes := ct_d2h_bytes t + bytes\<rparr>);
                    succeed []
                  }
            }
      })"

definition memcpy_device :: "backend \<Rightarrow> u64 \<Rightarrow> u64 \<Rightarrow> u64 \<Rightarrow> u32 \<Rightarrow> (xvram_status \<times> u64 list) adapting" where
  "memcpy_device backend destination source bytes kind =
     call_adapter ''cudaMemcpy'' True (copy_job backend destination source bytes kind)"

section \<open>The device\<close>

definition u32_of_int :: "int \<Rightarrow> u64" where
  "u32_of_int v = ucast (of_int v :: u32)"

definition get_device_job :: "u64 \<Rightarrow> job_result adapting" where
  "get_device_job output_pointer = do {
     s \<leftarrow> State_Monad.get;
     if \<not> is_host s output_pointer 4 then refuse (invalid ''cudaGetDevice'' ''host output required'')
     else succeed [u32_of_int (sc_device_ordinal (cc_session (ad_config s)))]
   }"

definition get_device_count_job :: "u64 \<Rightarrow> job_result adapting" where
  "get_device_count_job output_pointer = do {
     s \<leftarrow> State_Monad.get;
     if \<not> is_host s output_pointer 4 then refuse (invalid ''cudaGetDeviceCount'' ''host output required'')
     else succeed [ucast (bf_device_count (ct_backend (ad_telemetry s)))]
   }"

definition set_device_job :: "int \<Rightarrow> job_result adapting" where
  "set_device_job device = do {
     s \<leftarrow> State_Monad.get;
     if device = sc_device_ordinal (cc_session (ad_config s)) then succeed []
     else refuse (unsupported ''cudaSetDevice'' ''only the initialized device may be selected'')
   }"

definition synchronize_job :: "backend \<Rightarrow> job_result adapting" where
  "synchronize_job backend = do {
     synchronized \<leftarrow> perform backend B_synchronize;
     case synchronized of
       Inl t \<Rightarrow> State_Monad.return (Inl t)
     | Inr (error, _) \<Rightarrow> refuse error
   }"

definition mem_get_info_job :: "u64 \<Rightarrow> u64 \<Rightarrow> job_result adapting" where
  "mem_get_info_job free_pointer total_pointer = do {
     s \<leftarrow> State_Monad.get;
     if \<not> is_host s free_pointer 8 \<or> \<not> is_host s total_pointer 8 \<or> free_pointer = total_pointer
     then refuse (invalid ''cudaMemGetInfo'' ''distinct host outputs required'')
     else succeed [bf_cuda_free_bytes_end (ct_backend (ad_telemetry s)), bf_total_vram_bytes (ct_backend (ad_telemetry s))]
   }"

section \<open>The matrix library\<close>

text \<open>\<open>created\<close> is the address of the new handle object, or what its allocation or the growth of the list threw.\<close>

definition blas_create_job :: "thrown + u64 \<Rightarrow> u64 \<Rightarrow> job_result adapting" where
  "blas_create_job created output_pointer = do {
     s \<leftarrow> State_Monad.get;
     if \<not> is_host s output_pointer 8 then refuse (invalid ''cublasCreate'' ''host output required'')
     else
       case created of
         Inl t \<Rightarrow> State_Monad.return (Inl t)
       | Inr address \<Rightarrow> do {
           modify (\<lambda>s. s\<lparr>ad_handles := ad_handles s @ [(address, \<lparr>bh_math_mode = 0, bh_live = True\<rparr>)]\<rparr>);
           with_telemetry (\<lambda>t. t\<lparr>ct_handles_created := ct_handles_created t + 1,
             ct_live_handles := ct_live_handles t + 1\<rparr>);
           succeed [address]
         }
   }"

definition change_handle :: "u64 \<Rightarrow> (blas_handle \<Rightarrow> blas_handle) \<Rightarrow> unit adapting" where
  "change_handle pointer f =
     modify (\<lambda>s. s\<lparr>ad_handles := map (\<lambda>(a, h). (a, if a = pointer then f h else h)) (ad_handles s)\<rparr>)"

definition blas_destroy_job :: "u64 \<Rightarrow> job_result adapting" where
  "blas_destroy_job pointer = do {
     s \<leftarrow> State_Monad.get;
     if find_handle (ad_handles s) pointer = None
     then refuse (invalid ''cublasDestroy'' ''unknown or destroyed handle'')
     else do {
       change_handle pointer (bh_live_update (\<lambda>_. False));
       with_telemetry (\<lambda>t. t\<lparr>ct_handles_destroyed := ct_handles_destroyed t + 1,
         ct_live_handles := ct_live_handles t - 1\<rparr>);
       succeed []
     }
   }"

definition blas_get_version_job :: "u64 \<Rightarrow> u64 \<Rightarrow> job_result adapting" where
  "blas_get_version_job pointer output_pointer = do {
     s \<leftarrow> State_Monad.get;
     if find_handle (ad_handles s) pointer = None \<or> \<not> is_host s output_pointer 4
     then refuse (invalid ''cublasGetVersion'' ''live handle and host output required'')
     else succeed [ucast (bf_cublas_version (ct_backend (ad_telemetry s)))]
   }"

definition blas_set_stream_job :: "u64 \<Rightarrow> u64 \<Rightarrow> job_result adapting" where
  "blas_set_stream_job pointer stream = do {
     s \<leftarrow> State_Monad.get;
     if find_handle (ad_handles s) pointer = None then refuse (invalid ''cublasSetStream'' ''live handle required'')
     else if stream = 0 then succeed []
     else refuse (unsupported ''cublasSetStream'' ''only the default stream is supported'')
   }"

definition blas_get_stream_job :: "u64 \<Rightarrow> u64 \<Rightarrow> job_result adapting" where
  "blas_get_stream_job pointer output_pointer = do {
     s \<leftarrow> State_Monad.get;
     if find_handle (ad_handles s) pointer = None \<or> \<not> is_host s output_pointer 8
     then refuse (invalid ''cublasGetStream'' ''live handle and host output required'')
     else succeed [0]
   }"

definition blas_set_pointer_mode_job :: "u64 \<Rightarrow> u32 \<Rightarrow> job_result adapting" where
  "blas_set_pointer_mode_job pointer mode = do {
     s \<leftarrow> State_Monad.get;
     if find_handle (ad_handles s) pointer = None then refuse (invalid ''cublasSetPointerMode'' ''live handle required'')
     else if mode = 0 then succeed []
     else refuse (unsupported ''cublasSetPointerMode'' ''only host pointer mode is supported'')
   }"

definition blas_get_pointer_mode_job :: "u64 \<Rightarrow> u64 \<Rightarrow> job_result adapting" where
  "blas_get_pointer_mode_job pointer output_pointer = do {
     s \<leftarrow> State_Monad.get;
     if find_handle (ad_handles s) pointer = None \<or> \<not> is_host s output_pointer 4
     then refuse (invalid ''cublasGetPointerMode'' ''live handle and host output required'')
     else succeed [0]
   }"

definition blas_set_math_mode_job :: "u64 \<Rightarrow> u32 \<Rightarrow> job_result adapting" where
  "blas_set_math_mode_job pointer mode = do {
     s \<leftarrow> State_Monad.get;
     if find_handle (ad_handles s) pointer = None then refuse (invalid ''cublasSetMathMode'' ''live handle required'')
     else if mode \<noteq> 0 \<and> mode \<noteq> 2
     then refuse (unsupported ''cublasSetMathMode'' ''only default and pedantic FP32 math modes are supported'')
     else do {
       change_handle pointer (bh_math_mode_update (\<lambda>_. mode));
       succeed []
     }
   }"

definition blas_get_math_mode_job :: "u64 \<Rightarrow> u64 \<Rightarrow> job_result adapting" where
  "blas_get_math_mode_job pointer output_pointer = do {
     s \<leftarrow> State_Monad.get;
     case find_handle (ad_handles s) pointer of
       None \<Rightarrow> refuse (invalid ''cublasGetMathMode'' ''live handle and host output required'')
     | Some h \<Rightarrow>
         if \<not> is_host s output_pointer 4
         then refuse (invalid ''cublasGetMathMode'' ''live handle and host output required'')
         else succeed [ucast (bh_math_mode h)]
   }"

record sgemm_arguments =
  sa_handle :: u64
  sa_op_a :: u32
  sa_op_b :: u32
  sa_m :: int
  sa_n :: int
  sa_k :: int
  sa_alpha :: u64
  sa_a :: u64
  sa_lda :: int
  sa_b :: u64
  sa_ldb :: int
  sa_beta :: u64
  sa_c :: u64
  sa_ldc :: int

text \<open>A double is finite unless its exponent is all ones.\<close>

definition double_is_finite :: "double \<Rightarrow> bool" where
  "double_is_finite d \<longleftrightarrow> and d 0x7FF0000000000000 \<noteq> 0x7FF0000000000000"

definition sgemm_matrix :: "entry \<Rightarrow> u64 \<Rightarrow> u64 \<Rightarrow> u64 \<Rightarrow> int \<Rightarrow> matrix_view" where
  "sgemm_matrix e pointer rows columns leading =
     \<lparr>mv_allocation_id = ca_id (en_allocation e), mv_allocation_bytes = ca_bytes (en_allocation e),
      mv_offset_bytes = pointer - ca_address (en_allocation e), mv_rows = rows, mv_columns = columns,
      mv_leading_dimension = of_int leading, mv_layout = Column_major, mv_element_type = Fp32\<rparr>"

definition sgemm_problem :: "sgemm_arguments \<Rightarrow> entry \<Rightarrow> entry \<Rightarrow> entry \<Rightarrow> double \<Rightarrow> double \<Rightarrow> gemm_problem" where
  "sgemm_problem args ae be ce alpha beta =
     (let m = of_int (sa_m args); n = of_int (sa_n args); k = of_int (sa_k args); ta = (sa_op_a args \<noteq> 0); tb = (sa_op_b args \<noteq> 0)
      in \<lparr>gp_m = m, gp_n = n, gp_k = k,
          gp_a = sgemm_matrix ae (sa_a args) (if ta then k else m) (if ta then m else k) (sa_lda args),
          gp_b = sgemm_matrix be (sa_b args) (if tb then n else k) (if tb then k else n) (sa_ldb args),
          gp_c = sgemm_matrix ce (sa_c args) m n (sa_ldc args),
          gp_a_operation = (if ta then Operation_transpose else Operation_none),
          gp_b_operation = (if tb then Operation_transpose else Operation_none),
          gp_compute_mode = Strict_fp32, gp_alpha = alpha, gp_beta = beta\<rparr>)"

definition aligned_together :: "u64 \<Rightarrow> u64 \<Rightarrow> u64 \<Rightarrow> bool" where
  "aligned_together a b c \<longleftrightarrow> or (or a b) c mod 4 = 0"

definition submit_sgemm :: "backend \<Rightarrow> gemm_problem \<Rightarrow> job_result adapting" where
  "submit_sgemm backend problem =
     (if \<not> double_is_finite (gp_alpha problem) \<or> \<not> double_is_finite (gp_beta problem)
      then refuse (unsupported ''cublasSgemm'' ''finite host scalars are required'')
      else
        let validation = validate_problem problem
        in if pv_error validation \<noteq> Pe_none
           then refuse (make_error Xs_invalid_argument ''compat_preflight'' ''cublasSgemm''
             (problem_error_name (pv_error validation)))
           else do {
             multiplied \<leftarrow> perform backend (B_gemm problem);
             case multiplied of
               Inl t \<Rightarrow> State_Monad.return (Inl t)
             | Inr (error, _) \<Rightarrow>
                 if is_error error then refuse error
                 else do {
                   with_telemetry (ct_gemm_calls_update (\<lambda>n. n + 1));
                   succeed []
                 }
           })"

definition sgemm_job ::
    "backend \<Rightarrow> sgemm_arguments \<Rightarrow> bool \<Rightarrow> (double \<times> double) option \<Rightarrow> job_result adapting" where
  "sgemm_job backend args initialized scalars =
     (if \<not> initialized
      then refuse (make_error Xs_not_ready ''compat_preflight'' ''cublasSgemm''
        ''initialization must finish before submitting a GEMM'')
      else do {
        s \<leftarrow> State_Monad.get;
        if find_handle (ad_handles s) (sa_handle args) = None
        then refuse (invalid ''cublasSgemm'' ''live adapter handle required'')
        else if sa_op_a args > 1 \<or> sa_op_b args > 1 \<or> sa_m args \<le> 0 \<or> sa_n args \<le> 0 \<or> sa_k args \<le> 0
        then refuse (unsupported ''cublasSgemm'' ''positive dimensions and N/T operations are required'')
        else
          case scalars of
            None \<Rightarrow> refuse (invalid ''cublasSgemm'' ''alpha and beta must be host pointers'')
          | Some (alpha, beta) \<Rightarrow>
              if sa_lda args < (if sa_op_a args = 0 then sa_m args else sa_k args) \<or>
                 sa_ldb args < (if sa_op_b args = 0 then sa_k args else sa_n args) \<or> sa_ldc args < sa_m args
              then refuse (invalid ''cublasSgemm'' ''leading dimension is too small'')
              else
                case (lookup_live (ad_allocations s) (sa_a args) 4, lookup_live (ad_allocations s) (sa_b args) 4,
                      lookup_live (ad_allocations s) (sa_c args) 4) of
                  (Some ae, Some be, Some ce) \<Rightarrow>
                    if \<not> aligned_together (sa_a args) (sa_b args) (sa_c args)
                    then refuse (invalid ''cublasSgemm'' ''FP32 matrices must be aligned'')
                    else submit_sgemm backend (sgemm_problem args ae be ce alpha beta)
                | _ \<Rightarrow> refuse (invalid ''cublasSgemm'' ''all matrices must be live adapter allocations'')
      })"

text \<open>
  The scalars are read by the calling thread; \<open>scalar_at\<close> is the value of the float at an address of the host, widened to
  a double.
\<close>

definition blas_sgemm :: "backend \<Rightarrow> (u64 \<Rightarrow> double) \<Rightarrow> sgemm_arguments \<Rightarrow> (xvram_status \<times> u64 list) adapting" where
  "blas_sgemm backend scalar_at args = do {
     s \<leftarrow> State_Monad.get;
     let initialized = (ct_state (ad_telemetry s) = Cc_ready);
     let scalars = (if initialized \<and> is_host s (sa_alpha args) 4 \<and> is_host s (sa_beta args) 4
                    then Some (scalar_at (sa_alpha args), scalar_at (sa_beta args)) else None);
     call_adapter ''cublasSgemm'' True (sgemm_job backend args initialized scalars)
   }"

text \<open>The other entry points.\<close>

datatype simple_request =
    Get_device u64 | Get_device_count u64 | Set_device int | Synchronize | Mem_get_info u64 u64
  | Blas_create "thrown + u64" u64 | Blas_destroy u64 | Blas_get_version u64 u64 | Blas_set_stream u64 u64
  | Blas_get_stream u64 u64 | Blas_set_pointer_mode u64 u32 | Blas_get_pointer_mode u64 u64 | Blas_set_math_mode u64 u32
  | Blas_get_math_mode u64 u64

fun simple_call :: "backend \<Rightarrow> simple_request \<Rightarrow> (xvram_status \<times> u64 list) adapting" where
  "simple_call backend (Get_device p) = call_adapter ''cudaGetDevice'' True (get_device_job p)"
| "simple_call backend (Get_device_count p) = call_adapter ''cudaGetDeviceCount'' True (get_device_count_job p)"
| "simple_call backend (Set_device d) = call_adapter ''cudaSetDevice'' True (set_device_job d)"
| "simple_call backend Synchronize = call_adapter ''cudaDeviceSynchronize'' True (synchronize_job backend)"
| "simple_call backend (Mem_get_info f t) = call_adapter ''cudaMemGetInfo'' True (mem_get_info_job f t)"
| "simple_call backend (Blas_create created p) = call_adapter ''cublasCreate'' True (blas_create_job created p)"
| "simple_call backend (Blas_destroy h) = call_adapter ''cublasDestroy'' True (blas_destroy_job h)"
| "simple_call backend (Blas_get_version h p) = call_adapter ''cublasGetVersion'' True (blas_get_version_job h p)"
| "simple_call backend (Blas_set_stream h s) = call_adapter ''cublasSetStream'' True (blas_set_stream_job h s)"
| "simple_call backend (Blas_get_stream h p) = call_adapter ''cublasGetStream'' True (blas_get_stream_job h p)"
| "simple_call backend (Blas_set_pointer_mode h m) = call_adapter ''cublasSetPointerMode'' True (blas_set_pointer_mode_job h m)"
| "simple_call backend (Blas_get_pointer_mode h p) = call_adapter ''cublasGetPointerMode'' True (blas_get_pointer_mode_job h p)"
| "simple_call backend (Blas_set_math_mode h m) = call_adapter ''cublasSetMathMode'' True (blas_set_math_mode_job h m)"
| "simple_call backend (Blas_get_math_mode h p) = call_adapter ''cublasGetMathMode'' True (blas_get_math_mode_job h p)"

end
