(* ===== verification/Compat_Registry.thy ===== *)
theory Compat_Registry
  imports Compat_Adapter
begin

text \<open>
The registry of the CUDA compatibility adapter as a set of disjoint address ranges: what a lookup finds, what the search
  for managed memory finds, and that a new range keeps the ranges disjoint.
\<close>

section \<open>The registry of addresses\<close>

definition entry_ok :: "u64 \<Rightarrow> entry \<Rightarrow> bool" where
  "entry_ok a e \<longleftrightarrow> ca_address (en_allocation e) = a \<and> a \<noteq> 0 \<and> ca_bytes (en_allocation e) \<noteq> 0 \<and>
     ca_bytes (en_allocation e) \<le> en_reserved_bytes e \<and> unat a + unat (en_reserved_bytes e) < 2 ^ 64"

text \<open>The entries are in the order of their addresses, and the ranges they reserve do not meet, live or not.\<close>

definition registry_ok :: "(u64 \<times> entry) list \<Rightarrow> bool" where
  "registry_ok xs \<longleftrightarrow> sorted (map fst xs) \<and> distinct (map fst xs) \<and> (\<forall>(a, e) \<in> set xs. entry_ok a e) \<and>
     (\<forall>(a, e) \<in> set xs. \<forall>(b, f) \<in> set xs. a < b \<longrightarrow> unat a + unat (en_reserved_bytes e) \<le> unat b)"

lemma takeWhile_sorted:
  assumes "sorted (map fst xs)" "\<And>k k'. Q k' \<Longrightarrow> k \<le> k' \<Longrightarrow> Q k"
  shows "takeWhile (\<lambda>(k, _). Q k) xs = filter (\<lambda>(k, _). Q k) xs"
  using assms(1)
proof (induction xs)
  case (Cons x xs)
  have "filter (\<lambda>(k, _). Q k) xs = []" if "\<not> Q (fst x)"
    using Cons.prems assms(2) that by (auto simp: filter_empty_conv)
  then show ?case using Cons by (cases x) auto
qed simp

lemma last_of_sorted:
  assumes "sorted (map fst xs)" "xs \<noteq> []"
  shows "last xs \<in> set xs" "\<forall>x \<in> set xs. fst x \<le> fst (last xs)"
proof -
  show "last xs \<in> set xs" using assms by simp
  show "\<forall>x \<in> set xs. fst x \<le> fst (last xs)" using assms by (induction xs) auto
qed

lemma registry_entry:
  assumes "registry_ok xs" "(a, e) \<in> set xs"
  shows "entry_ok a e"
  using assms by (auto simp: registry_ok_def)

lemma registry_apart:
  assumes "registry_ok xs" "(a, e) \<in> set xs" "(b, f) \<in> set xs" "a < b"
  shows "unat a + unat (en_reserved_bytes e) \<le> unat b"
  using assms unfolding registry_ok_def by fast

lemma registry_unique:
  assumes "registry_ok xs" "(a, e) \<in> set xs" "(a, f) \<in> set xs"
  shows "e = f"
  using assms by (auto simp: registry_ok_def dest: eq_key_imp_eq_value)

text \<open>Looking up a range finds the live entry that contains it, if there is one, and nothing otherwise.\<close>

definition holds_range :: "u64 \<Rightarrow> u64 \<Rightarrow> u64 \<Rightarrow> entry \<Rightarrow> bool" where
  "holds_range p n a e \<longleftrightarrow> en_live e \<and> unat a \<le> unat p \<and> unat p + unat n \<le> unat a + unat (ca_bytes (en_allocation e))"

lemma word_range:
  fixes p a n room :: u64
  assumes "a \<le> p" "unat a + unat room < 2 ^ 64"
  shows "p - a \<le> room \<and> n \<le> room - (p - a) \<longleftrightarrow> unat p + unat n \<le> unat a + unat room"
proof -
  have d: "unat (p - a) = unat p - unat a" "unat a \<le> unat p" using assms(1) by (simp_all add: unat_sub word_le_nat_alt)
  show ?thesis
  proof (cases "p - a \<le> room")
    case True
    then have "unat (room - (p - a)) = unat room - (unat p - unat a)" by (simp add: unat_sub d)
    then show ?thesis using True d by (auto simp: word_le_nat_alt)
  next
    case False
    then show ?thesis using d by (auto simp: word_le_nat_alt)
  qed
qed

lemma lookup_live_exact:
  assumes "registry_ok xs" "n \<noteq> 0"
  shows "lookup_live xs p n = Some e \<longleftrightarrow> (\<exists>a. (a, e) \<in> set xs \<and> holds_range p n a e)"
proof -
  let ?ys = "filter (\<lambda>(b, _). b \<le> p) xs"
  have s: "sorted (map fst xs)" using assms(1) by (simp add: registry_ok_def)
  have ys: "takeWhile (\<lambda>(b, _). b \<le> p) xs = ?ys" by (rule takeWhile_sorted [OF s]) auto
  have sy: "sorted (map fst ?ys)" using s by (rule sorted_filter)
  have range: "holds_range p n a f \<longleftrightarrow> en_live f \<and> a \<le> p \<and>
      p - a \<le> ca_bytes (en_allocation f) \<and> n \<le> ca_bytes (en_allocation f) - (p - a)" if "(a, f) \<in> set xs" for a f
  proof (cases "a \<le> p")
    case True
    have "unat a + unat (ca_bytes (en_allocation f)) < 2 ^ 64"
      using registry_entry [OF assms(1) that] by (auto simp: entry_ok_def word_le_nat_alt)
    then show ?thesis using word_range [OF True] True by (auto simp: holds_range_def word_le_nat_alt)
  qed (simp add: holds_range_def word_le_nat_alt)
  show ?thesis
  proof (cases "?ys = []")
    case True
    then have "\<not> (\<exists>a. (a, e) \<in> set xs \<and> holds_range p n a e)" using range by (fastforce simp: filter_empty_conv)
    then show ?thesis using True by (simp add: lookup_live_def upper_bound_before_def ys)
  next
    case False
    obtain b f where l: "last ?ys = (b, f)" by (cases "last ?ys")
    then have bf: "(b, f) \<in> set xs" "b \<le> p" using last_of_sorted(1) [OF sy False] by auto
    have most: "a \<le> b" if "(a, e) \<in> set xs" "a \<le> p" for a
      using last_of_sorted(2) [OF sy False] that l by fastforce
    have "a = b \<and> e = f" if "(a, e) \<in> set xs" "holds_range p n a e" for a
    proof -
      have "a \<le> p" using range that by blast
      then have "a \<le> b" using most that by blast
      moreover have "\<not> a < b"
      proof
        assume "a < b"
        then have "unat a + unat (en_reserved_bytes e) \<le> unat b" using registry_apart [OF assms(1) that(1) bf(1)] by blast
        moreover have "unat (ca_bytes (en_allocation e)) \<le> unat (en_reserved_bytes e)"
          using registry_entry [OF assms(1) that(1)] by (simp add: entry_ok_def word_le_nat_alt)
        moreover have "unat n > 0" using assms(2) by (simp add: unat_gt_0)
        ultimately show False using that(2) bf(2) by (simp add: holds_range_def word_le_nat_alt)
      qed
      ultimately have "a = b" by simp
      then show ?thesis using registry_unique [OF assms(1) _ bf(1)] that(1) by blast
    qed
    then have "(\<exists>a. (a, e) \<in> set xs \<and> holds_range p n a e) \<longleftrightarrow> e = f \<and> holds_range p n b f" using bf by blast
    moreover have "lookup_live xs p n = Some e \<longleftrightarrow> e = f \<and> holds_range p n b f"
      using False l range [OF bf(1)] bf(2) by (auto simp: lookup_live_def upper_bound_before_def ys Let_def)
    ultimately show ?thesis by simp
  qed
qed

lemma lookup_live_Some:
  assumes "registry_ok xs" "n \<noteq> 0" "lookup_live xs p n = Some e"
  shows "(ca_address (en_allocation e), e) \<in> set xs" "en_live e"
    "unat (p - ca_address (en_allocation e)) + unat n \<le> unat (ca_bytes (en_allocation e))"
proof -
  obtain a where a: "(a, e) \<in> set xs" "holds_range p n a e" using lookup_live_exact [OF assms(1,2)] assms(3) by blast
  have "ca_address (en_allocation e) = a" using registry_entry [OF assms(1) a(1)] by (simp add: entry_ok_def)
  moreover have "unat (p - a) = unat p - unat a" using a(2) by (simp add: holds_range_def unat_sub word_le_nat_alt)
  ultimately show "(ca_address (en_allocation e), e) \<in> set xs" "en_live e"
    "unat (p - ca_address (en_allocation e)) + unat n \<le> unat (ca_bytes (en_allocation e))"
    using a by (auto simp: holds_range_def)
qed

text \<open>A range is free of managed memory exactly when it does not wrap and meets no reserved range.\<close>

lemma touches_managed_exact:
  assumes "registry_ok xs"
  shows "touches_managed xs p n \<longleftrightarrow> \<not> (unat p + unat (max 1 n) < 2 ^ 64 \<and>
    (\<forall>(b, e) \<in> set xs. unat p + unat (max 1 n) \<le> unat b \<or> unat b + unat (en_reserved_bytes e) \<le> unat p))"
proof (cases "max 1 n > max_u64 - p")
  case True
  then have "\<not> unat p + unat (max 1 n) < 2 ^ 64" by (simp add: word_less_nat_alt unat_max_u64_minus)
  then show ?thesis using True by (simp add: touches_managed_def Let_def)
next
  case False
  then have f: "unat p + unat (max 1 n) < 2 ^ 64" using unat_u64_le [of p]
    by (simp add: word_less_nat_alt unat_max_u64_minus)
  then have stop: "unat (p + max 1 n) = unat p + unat (max 1 n)" by (simp add: unat_word_ariths)
  have s: "sorted (map fst xs)" using assms by (simp add: registry_ok_def)
  have "takeWhile (\<lambda>(b, _). b < p + max 1 n) xs = filter (\<lambda>(b, _). b < p + max 1 n) xs"
    by (rule takeWhile_sorted [OF s]) auto
  then have "touches_managed xs p n \<longleftrightarrow> (\<exists>b e. (b, e) \<in> set xs \<and> b < p + max 1 n \<and> p < b + en_reserved_bytes e)"
    using False by (auto simp: touches_managed_def Let_def list_ex_iff)
  moreover have sum: "unat (b + en_reserved_bytes e) = unat b + unat (en_reserved_bytes e)" if "(b, e) \<in> set xs" for b e
    using registry_entry [OF assms that] by (simp add: entry_ok_def unat_word_ariths)
  ultimately have "touches_managed xs p n \<longleftrightarrow>
      (\<exists>b e. (b, e) \<in> set xs \<and> unat b < unat p + unat (max 1 n) \<and> unat p < unat b + unat (en_reserved_bytes e))"
    unfolding word_less_nat_alt stop by (metis sum)
  then show ?thesis using f by (force simp: not_le)
qed

lemma emplace_new:
  assumes "registry_ok xs" "\<not> touches_managed xs a (en_reserved_bytes e)"
  shows "emplace a e xs = insort_key fst (a, e) xs" "a \<notin> set (map fst xs)"
proof -
  have apart: "a \<noteq> b" if "(b, f) \<in> set xs" for b f
  proof
    assume "a = b"
    have "(1 :: u64) \<le> max 1 (en_reserved_bytes e)" by simp
    then have "unat (1 :: u64) \<le> unat (max 1 (en_reserved_bytes e))" unfolding word_le_nat_alt .
    then have "unat (max 1 (en_reserved_bytes e)) > 0" by simp
    moreover have "unat (en_reserved_bytes f) > 0"
      using registry_entry [OF assms(1) that] by (auto simp: entry_ok_def unat_gt_0)
    ultimately show False using assms(2) that \<open>a = b\<close> unfolding touches_managed_exact [OF assms(1)] by fastforce
  qed
  show "a \<notin> set (map fst xs)"
  proof
    assume "a \<in> set (map fst xs)"
    then obtain f where "(a, f) \<in> set xs" by auto
    then show False using apart by blast
  qed
  then show "emplace a e xs = insort_key fst (a, e) xs" by (simp add: emplace_def)
qed

lemma distinct_keys_insort: "distinct (map fst (insort_key fst (a, e) xs)) \<longleftrightarrow> a \<notin> set (map fst xs) \<and> distinct (map fst xs)"
  by (induction xs) (auto simp: set_insort_key)

lemma registry_emplace:
  assumes "registry_ok xs" "\<not> touches_managed xs a (en_reserved_bytes e)" "entry_ok a e"
  shows "registry_ok (emplace a e xs)" "set (emplace a e xs) = insert (a, e) (set xs)"
proof -
  note new = emplace_new [OF assms(1,2)]
  show set: "set (emplace a e xs) = insert (a, e) (set xs)" by (simp add: new(1) set_insort_key)
  have r: "max 1 (en_reserved_bytes e) = en_reserved_bytes e"
  proof -
    have "unat (ca_bytes (en_allocation e)) > 0" "unat (ca_bytes (en_allocation e)) \<le> unat (en_reserved_bytes e)"
      using assms(3) by (auto simp: entry_ok_def unat_gt_0 word_le_nat_alt)
    then have "1 \<le> en_reserved_bytes e" by (simp add: word_le_nat_alt)
    then show ?thesis by (simp add: max_def)
  qed
  have apart: "unat a + unat (en_reserved_bytes e) \<le> unat b \<or> unat b + unat (en_reserved_bytes f) \<le> unat a" if "(b, f) \<in> set xs" for b f
    using assms(2) that unfolding touches_managed_exact [OF assms(1)] r by auto
  show "registry_ok (emplace a e xs)"
    unfolding registry_ok_def set
  proof (intro conjI)
    show "sorted (map fst (emplace a e xs))" using assms(1) by (simp add: new(1) sorted_insort_key registry_ok_def)
    show "distinct (map fst (emplace a e xs))"
      using assms(1) new(2) unfolding new(1) by (simp add: distinct_keys_insort registry_ok_def)
    show "\<forall>(b, f) \<in> insert (a, e) (set xs). entry_ok b f" using assms(1,3) by (simp add: registry_ok_def)
    show "\<forall>(b, f) \<in> insert (a, e) (set xs). \<forall>(c, g) \<in> insert (a, e) (set xs). b < c \<longrightarrow>
        unat b + unat (en_reserved_bytes f) \<le> unat c"
    proof (clarify)
      fix b f c g assume bf: "(b, f) \<in> insert (a, e) (set xs)" and cg: "(c, g) \<in> insert (a, e) (set xs)" and "b < c"
      show "unat b + unat (en_reserved_bytes f) \<le> unat c"
      proof (cases "(b, f) \<in> set xs")
        case True
        show ?thesis
        proof (cases "(c, g) \<in> set xs")
          case True
          then show ?thesis using registry_apart [OF assms(1) \<open>(b, f) \<in> set xs\<close>] \<open>b < c\<close> by blast
        next
          case False
          then show ?thesis using apart [OF \<open>(b, f) \<in> set xs\<close>] cg \<open>b < c\<close> by (auto simp: word_less_nat_alt)
        qed
      next
        case False
        then have "b = a" "f = e" "(c, g) \<in> set xs" using bf cg \<open>b < c\<close> by auto
        then show ?thesis using apart [of c g] \<open>b < c\<close> by (auto simp: word_less_nat_alt)
      qed
    qed
  qed
qed

end
