(* ===== verification/Compat_Use.thy ===== *)
theory Compat_Use
  imports Compat_Registry
begin

text \<open>
What the CUDA compatibility adapter may ask of its backend, and the part of the adapter's state the proofs are about.

  A history of calls determines the allocations that the backend serves and the phase of its life; \<open>allowed\<close> is the
  contract of a call after a history. \<open>core_ok\<close>, \<open>running\<close>, \<open>in_job\<close> and \<open>between_calls\<close> are the invariants of the
  adapter, from what always holds to what holds between two calls. The last section has the rules for its steps.
\<close>

section \<open>What the adapter asks of its backend\<close>

text \<open>A history of calls determines the allocations the backend serves, and how far its life has come.\<close>

definition call_fails :: "backend_reply \<Rightarrow> bool" where
  "call_fails r \<longleftrightarrow> cb_thrown r \<noteq> None \<or> is_error (cb_error r)"

fun served :: "backend_history \<Rightarrow> allocation_id \<rightharpoonup> u64" where
  "served [] = Map.empty"
| "served ((c, r) # h) =
     (if call_fails r then served h
      else case c of
        B_allocate n \<Rightarrow> (served h)(ca_id (cb_allocation r) \<mapsto> n)
      | B_release i \<Rightarrow> (served h)(i := None)
      | _ \<Rightarrow> served h)"

datatype backend_phase = Ph_none | Ph_created | Ph_open | Ph_closed

fun phase :: "backend_history \<Rightarrow> backend_phase" where
  "phase [] = Ph_none"
| "phase ((c, r) # h) =
     (case c of
        B_factory \<Rightarrow> if cb_thrown r = None \<and> cb_present r then Ph_created else phase h
      | B_initialize _ \<Rightarrow> if call_fails r then phase h else Ph_open
      | B_close \<Rightarrow> Ph_closed
      | _ \<Rightarrow> phase h)"

fun data_call :: "backend_call \<Rightarrow> bool" where
  "data_call B_factory \<longleftrightarrow> False"
| "data_call (B_initialize c) \<longleftrightarrow> False"
| "data_call B_close \<longleftrightarrow> False"
| "data_call _ \<longleftrightarrow> True"

text \<open>A data call that threw or failed with poison leaves the backend in an unknown state.\<close>

definition spoils :: "backend_call \<Rightarrow> backend_reply \<Rightarrow> bool" where
  "spoils c r \<longleftrightarrow> data_call c \<and> (cb_thrown r \<noteq> None \<or> is_error (cb_error r) \<and> cb_poison r)"

definition spoiled :: "backend_history \<Rightarrow> bool" where
  "spoiled h \<longleftrightarrow> list_ex (\<lambda>(c, r). spoils c r) h"

definition in_served_range :: "(allocation_id \<rightharpoonup> u64) \<Rightarrow> allocation_id \<Rightarrow> u64 \<Rightarrow> u64 \<Rightarrow> bool" where
  "in_served_range m i offset bytes \<longleftrightarrow>
     (case m i of None \<Rightarrow> False | Some room \<Rightarrow> bytes \<noteq> 0 \<and> unat offset + unat bytes \<le> unat room)"

fun allowed :: "backend_history \<Rightarrow> backend_call \<Rightarrow> bool" where
  "allowed h B_factory \<longleftrightarrow> phase h = Ph_none"
| "allowed h (B_initialize config) \<longleftrightarrow> phase h = Ph_created \<and> valid_config config"
| "allowed h B_close \<longleftrightarrow> phase h = Ph_created \<or> phase h = Ph_open"
| "allowed h B_synchronize \<longleftrightarrow> phase h = Ph_open \<and> \<not> spoiled h"
| "allowed h (B_allocate n) \<longleftrightarrow> phase h = Ph_open \<and> \<not> spoiled h \<and> n \<noteq> 0"
| "allowed h (B_release i) \<longleftrightarrow> phase h = Ph_open \<and> \<not> spoiled h \<and> served h i \<noteq> None"
| "allowed h (B_write i offset source bytes) \<longleftrightarrow> phase h = Ph_open \<and> \<not> spoiled h \<and> in_served_range (served h) i offset bytes"
| "allowed h (B_read i offset destination bytes) \<longleftrightarrow>
     phase h = Ph_open \<and> \<not> spoiled h \<and> in_served_range (served h) i offset bytes"
| "allowed h (B_gemm p) \<longleftrightarrow> phase h = Ph_open \<and> \<not> spoiled h \<and> pv_error (validate_problem p) = Pe_none \<and>
     list_all (\<lambda>M. served h (mv_allocation_id M) = Some (mv_allocation_bytes M)) [gp_a p, gp_b p, gp_c p]"

fun allowed_history :: "backend_history \<Rightarrow> bool" where
  "allowed_history [] \<longleftrightarrow> True"
| "allowed_history ((c, r) # h) \<longleftrightarrow> allowed_history h \<and> allowed h c"

text \<open>The backend gives a new allocation an identity that it does not serve already.\<close>

definition fresh_ids :: "backend \<Rightarrow> bool" where
  "fresh_ids backend \<longleftrightarrow> (\<forall>h n. if call_fails (backend h (B_allocate n)) then True
     else served h (ca_id (cb_allocation (backend h (B_allocate n)))) = None)"

section \<open>The view of the adapter\<close>

record compat_view =
  vw_state :: compat_state
  vw_config :: compat_config
  vw_backend :: bool
  vw_attempted :: bool
  vw_accepting :: bool
  vw_mutation :: bool
  vw_fail :: bool
  vw_allocations :: "(u64 \<times> entry) list"
  vw_history :: backend_history
  vw_created :: u64
  vw_released :: u64
  vw_live :: u64
  vw_bytes :: u64

definition view_of :: "compat_adapter \<Rightarrow> compat_view" where
  "view_of s = \<lparr>vw_state = ct_state (ad_telemetry s), vw_config = ad_config s, vw_backend = ad_backend s,
     vw_attempted = ad_attempted s, vw_accepting = ad_accepting s, vw_mutation = ad_mutation_active s, vw_fail = ad_fail_next_enqueue s,
     vw_allocations = ad_allocations s, vw_history = ad_history s,
     vw_created = ct_allocations_created (ad_telemetry s), vw_released = ct_allocations_released (ad_telemetry s),
     vw_live = ct_live_allocations (ad_telemetry s), vw_bytes = ct_logical_bytes (ad_telemetry s)\<rparr>"

abbreviation triple :: "(compat_view \<Rightarrow> bool) \<Rightarrow> 'a adapting \<Rightarrow> ('a \<Rightarrow> compat_view \<Rightarrow> bool) \<Rightarrow> bool" where
  "triple \<equiv> triple_on view_of"

abbreviation quiet :: "'a adapting \<Rightarrow> bool" where
  "quiet \<equiv> quiet_on view_of"

definition live_entries :: "(u64 \<times> entry) list \<Rightarrow> entry list" where
  "live_entries xs = filter en_live (map snd xs)"

definition live_bytes :: "(u64 \<times> entry) list \<Rightarrow> u64" where
  "live_bytes xs = sum_list (map (\<lambda>e. ca_bytes (en_allocation e)) (live_entries xs))"

text \<open>The live entries are allocations that the backend serves, each under an identity of its own.\<close>

definition backed :: "(u64 \<times> entry) list \<Rightarrow> (allocation_id \<rightharpoonup> u64) \<Rightarrow> bool" where
  "backed xs m \<longleftrightarrow> (\<forall>(a, e) \<in> set xs. en_live e \<longrightarrow> m (ca_id (en_allocation e)) = Some (ca_bytes (en_allocation e))) \<and>
     (\<forall>(a, e) \<in> set xs. \<forall>(b, f) \<in> set xs.
        en_live e \<longrightarrow> en_live f \<longrightarrow> ca_id (en_allocation e) = ca_id (en_allocation f) \<longrightarrow> a = b)"

definition tallied :: "compat_view \<Rightarrow> bool" where
  "tallied v \<longleftrightarrow> vw_live v = of_nat (length (live_entries (vw_allocations v))) \<and> vw_bytes v = live_bytes (vw_allocations v) \<and>
     vw_created v = vw_released v + vw_live v"

text \<open>What always holds, what holds while the adapter runs its queue, and what holds while it serves data calls.\<close>

definition core_ok :: "compat_view \<Rightarrow> bool" where
  "core_ok v \<longleftrightarrow> registry_ok (vw_allocations v) \<and> allowed_history (vw_history v) \<and>
     (vw_backend v \<longleftrightarrow> phase (vw_history v) = Ph_created \<or> phase (vw_history v) = Ph_open) \<and>
     (vw_state v \<noteq> Cc_closed \<longrightarrow> tallied v)"

definition running :: "compat_view \<Rightarrow> bool" where
  "running v \<longleftrightarrow> core_ok v \<and> vw_attempted v \<and> vw_accepting v \<and> phase (vw_history v) = Ph_open \<and>
     (vw_state v = Cc_ready \<or> vw_state v = Cc_poisoned \<or> vw_state v = Cc_closed) \<and> tallied v \<and> valid_config (vw_config v)"

definition serving :: "compat_view \<Rightarrow> bool" where
  "serving v \<longleftrightarrow> \<not> spoiled (vw_history v) \<and> backed (vw_allocations v) (served (vw_history v))"

definition data_ready :: "compat_view \<Rightarrow> bool" where
  "data_ready v \<longleftrightarrow> running v \<and> serving v \<and> vw_state v = Cc_ready \<and> \<not> vw_mutation v"

definition in_job :: "compat_view \<Rightarrow> bool" where
  "in_job v \<longleftrightarrow> running v \<and> (vw_state v = Cc_ready \<longrightarrow> \<not> vw_mutation v \<longrightarrow> serving v)"

definition job_done :: "job_result \<Rightarrow> compat_view \<Rightarrow> bool" where
  "job_done result v \<longleftrightarrow> in_job v \<and> (case result of Inl t \<Rightarrow> True | Inr x \<Rightarrow> \<not> vw_mutation v)"

text \<open>
  Between two calls the adapter either runs or holds no backend, before its only initialization or after its close. An
  initialization that threw has marked it closed, while it runs or before it was ever initialized.
\<close>

definition stopped :: "compat_view \<Rightarrow> bool" where
  "stopped v \<longleftrightarrow> core_ok v \<and> \<not> vw_accepting v \<and> \<not> vw_backend v \<and>
     (if vw_attempted v then vw_state v = Cc_closed
      else (vw_state v = Cc_uninitialized \<or> vw_state v = Cc_closed) \<and> tallied v \<and> vw_history v = [] \<and> vw_allocations v = [])"

definition between_calls :: "compat_view \<Rightarrow> bool" where
  "between_calls v \<longleftrightarrow> \<not> vw_mutation v \<and> (stopped v \<or> in_job v)"

lemma ready_done: "data_ready v \<Longrightarrow> job_done result v"
  by (simp add: data_ready_def in_job_def job_done_def split: sum.splits)

section \<open>Steps\<close>

lemma quiet_with_telemetry:
  assumes "\<And>t. ct_state (f t) = ct_state t" "\<And>t. ct_allocations_created (f t) = ct_allocations_created t"
    "\<And>t. ct_allocations_released (f t) = ct_allocations_released t" "\<And>t. ct_live_allocations (f t) = ct_live_allocations t"
    "\<And>t. ct_logical_bytes (f t) = ct_logical_bytes t"
  shows "quiet (with_telemetry f)"
  unfolding with_telemetry_def by (rule quiet_modify) (simp add: view_of_def assms)

lemma quiet_copy_error [quiets]: "quiet (copy_error e)"
  unfolding copy_error_def Let_def by (intro quiets quiet_modify) (simp add: view_of_def)

lemma quiet_record [quiets]: "quiet (record_error e rejected)"
proof -
  have "quiet (with_telemetry (ct_calls_rejected_update (\<lambda>n. n + 1)))" by (rule quiet_with_telemetry) simp_all
  then show ?thesis unfolding record_error_def by (intro quiets)
qed

lemma quiet_calls [quiets]:
  "quiet (with_telemetry (ct_calls_attempted_update f))" "quiet (with_telemetry (ct_calls_submitted_update f))"
  "quiet (with_telemetry (ct_calls_completed_update f))" "quiet (with_telemetry (ct_gemm_calls_update f))"
  by (rule quiet_with_telemetry; simp)+

lemma quiet_refuse [quiets]: "quiet (refuse e)" "quiet (succeed outputs)"
  by (simp_all add: refuse_def succeed_def quiets)

lemma view_snapshots: "view_of (fold take_snapshot xs s) = view_of s"
  by (induction xs arbitrary: s) (simp_all add: take_snapshot_def view_of_def Let_def)

lemma run_ask:
  "fst (run_state (ask backend c) s) = backend (vw_history (view_of s)) c"
  "view_of (snd (run_state (ask backend c) s)) =
     (view_of s)\<lparr>vw_history := (c, backend (vw_history (view_of s)) c) # vw_history (view_of s)\<rparr>"
  by (simp_all add: ask_def State_Monad.bind_def State_Monad.get_def State_Monad.set_def State_Monad.return_def Let_def
      view_snapshots) (simp_all add: view_of_def)

lemma triple_ask:
  assumes "\<And>v r. P v \<Longrightarrow> r = backend (vw_history v) c \<Longrightarrow> Q r (v\<lparr>vw_history := (c, r) # vw_history v\<rparr>)"
  shows "triple P (ask backend c) Q"
  using assms unfolding triple_on_def run_ask by blast

lemma triple_state:
  assumes "\<And>v. P v \<Longrightarrow> Q () (v\<lparr>vw_state := st\<rparr>)"
  shows "triple P (set_state st) Q"
  unfolding set_state_def with_telemetry_def
  by (rule triple_modify [where g = "\<lambda>v. v\<lparr>vw_state := st\<rparr>"], erule assms) (simp add: view_of_def)

lemma triple_mutation:
  assumes "\<And>v. P v \<Longrightarrow> Q () (v\<lparr>vw_mutation := m\<rparr>)"
  shows "triple P (modify (\<lambda>s. s\<lparr>ad_mutation_active := m\<rparr>)) Q"
  by (rule triple_modify [where g = "\<lambda>v. v\<lparr>vw_mutation := m\<rparr>"], erule assms) (simp add: view_of_def)

text \<open>The view after a call of the backend inside a mutation.\<close>

definition asked :: "compat_view \<Rightarrow> backend_call \<Rightarrow> backend_reply \<Rightarrow> compat_view" where
  "asked v c r = v\<lparr>vw_history := (c, r) # vw_history v, vw_mutation := cb_thrown r \<noteq> None,
     vw_state := if cb_thrown r = None \<and> is_error (cb_error r) \<and> cb_poison r then Cc_poisoned else vw_state v\<rparr>"

definition answer :: "backend_reply \<Rightarrow> thrown + sdk_error \<times> compat_allocation" where
  "answer r = (case cb_thrown r of Some t \<Rightarrow> Inl t | None \<Rightarrow> Inr (cb_error r, cb_allocation r))"

lemma perform_exact:
  assumes "\<And>r. r = backend (vw_history v) c \<Longrightarrow> Q (answer r) (asked v c r)"
  shows "triple (\<lambda>b. b = v) (perform backend c) Q"
proof -
  let ?r = "backend (vw_history v) c"
  have ok: "triple (\<lambda>b. b = v\<lparr>vw_mutation := True, vw_history := (c, ?r) # vw_history v\<rparr>)
     (case cb_thrown ?r of
       Some t \<Rightarrow> State_Monad.return (Inl t)
     | None \<Rightarrow> do {
         modify (\<lambda>s. s\<lparr>ad_mutation_active := False\<rparr>);
         e \<leftarrow> outcome_of ?r;
         State_Monad.return (Inr (e, cb_allocation ?r))
       }) Q"
  proof (cases "cb_thrown ?r")
    case None
    have "triple (\<lambda>b. b = v\<lparr>vw_history := (c, ?r) # vw_history v, vw_mutation := False\<rparr>) (outcome_of ?r)
        (\<lambda>e b. e = cb_error ?r \<and> b = asked v c ?r)"
      unfolding outcome_of_def
      by (rule triple_after [where R = "\<lambda>b. b = asked v c ?r"], rule triple_if)
        (auto intro!: triple_state triple_return simp: asked_def None)
    then have "triple (\<lambda>b. b = v\<lparr>vw_history := (c, ?r) # vw_history v, vw_mutation := False\<rparr>)
        (do { e \<leftarrow> outcome_of ?r; State_Monad.return (Inr (e, cb_allocation ?r)) }) Q"
      by (rule triple_bind) (rule triple_return, use assms [OF refl] in \<open>auto simp: answer_def None\<close>)
    then show ?thesis
      by (simp add: None) (rule triple_after [OF triple_mutation], simp_all)
  next
    case (Some t)
    then show ?thesis
      using assms [OF refl] by (cases v) (auto intro!: triple_return simp: answer_def asked_def)
  qed
  show ?thesis
    unfolding perform_def
    by (rule triple_after [OF triple_mutation [where Q = "\<lambda>_ b. b = v\<lparr>vw_mutation := True\<rparr>"]], simp,
        rule triple_bind [OF triple_ask [where Q = "\<lambda>r b. r = ?r \<and> b = v\<lparr>vw_mutation := True, vw_history := (c, ?r) # vw_history v\<rparr>"]],
        simp, rule triple_knowing(2), simp add: ok)
qed

end
