(* ===== verification/Compat_Jobs.thy ===== *)
theory Compat_Jobs
  imports Compat_Use
begin

text \<open>
Every job of the CUDA compatibility adapter keeps the invariant of its state and asks of the backend only what is allowed:
  allocation, release, copies in both directions, products and the calls that only read or write the adapter's own data.
\<close>

section \<open>Data calls\<close>

lemma backed_same:
  assumes "backed xs m" "\<And>a e. (a, e) \<in> set xs \<Longrightarrow> en_live e \<Longrightarrow> m' (ca_id (en_allocation e)) = m (ca_id (en_allocation e))"
  shows "backed xs m'"
  using assms unfolding backed_def by fastforce

text \<open>A data call that is allowed leaves the adapter poisoned, or in need of the handler, or ready.\<close>

lemma asked_done:
  assumes "data_ready v" "data_call c" "allowed (vw_history v) c"
    and "\<not> call_fails r \<Longrightarrow> backed (vw_allocations v) (served ((c, r) # vw_history v))"
  shows "in_job (asked v c r)" "answer r = Inr x \<Longrightarrow> \<not> vw_mutation (asked v c r)"
proof -
  have phase: "phase ((c, r) # vw_history v) = phase (vw_history v)" using assms(2) by (cases c) simp_all
  have running: "running (asked v c r)"
    using assms(1,3) phase by (auto simp: data_ready_def running_def core_ok_def asked_def tallied_def)
  moreover have "serving (asked v c r)" if "vw_state (asked v c r) = Cc_ready" "\<not> vw_mutation (asked v c r)"
  proof -
    have thrown: "cb_thrown r = None" and mild: "\<not> (is_error (cb_error r) \<and> cb_poison r)" using that assms(1) by (auto simp: asked_def split: if_splits)
    then have "\<not> spoiled ((c, r) # vw_history v)" using assms(1) by (simp add: spoiled_def spoils_def data_ready_def serving_def)
    moreover have "backed (vw_allocations v) (served ((c, r) # vw_history v))"
      using assms(1,4) by (cases "call_fails r") (simp_all add: data_ready_def serving_def)
    ultimately show ?thesis by (simp add: serving_def asked_def)
  qed
  ultimately show "in_job (asked v c r)" by (simp add: in_job_def)
  show "answer r = Inr x \<Longrightarrow> \<not> vw_mutation (asked v c r)" by (simp add: answer_def asked_def split: option.splits)
qed


lemma live_emplace:
  assumes "en_live e"
  shows "length (live_entries (insort_key fst (a, e) xs)) = Suc (length (live_entries xs))"
    "live_bytes (insort_key fst (a, e) xs) = ca_bytes (en_allocation e) + live_bytes xs"
  using assms by (induction xs) (auto simp: live_entries_def live_bytes_def)

lemma set_live_same: "a \<notin> set (map fst xs) \<Longrightarrow> set_live a l xs = xs"
  by (induction xs) (auto simp: set_live_def)

lemma live_set_dead:
  assumes "(a, e) \<in> set xs" "en_live e" "distinct (map fst xs)"
  shows "length (live_entries xs) = Suc (length (live_entries (set_live a False xs)))"
    "live_bytes xs = ca_bytes (en_allocation e) + live_bytes (set_live a False xs)"
proof -
  have "length (live_entries xs) = Suc (length (live_entries (set_live a False xs))) \<and>
     live_bytes xs = ca_bytes (en_allocation e) + live_bytes (set_live a False xs)"
    using assms
  proof (induction xs)
    case (Cons x xs)
    obtain b f where x: "x = (b, f)" by (cases x)
    show ?case
    proof (cases "a = b")
      case True
      then have "set_live a False xs = xs" using Cons.prems(3) x by (simp add: set_live_same)
      moreover have "f = e" using True Cons.prems(1,3) x by force
      moreover have "set_live a False (x # xs) = (b, f\<lparr>en_live := False\<rparr>) # set_live a False xs" using True x by (simp add: set_live_def)
      ultimately show ?thesis using Cons.prems(2) x by (simp add: live_entries_def live_bytes_def)
    next
      case False
      then have "set_live a False (x # xs) = x # set_live a False xs" using x by (simp add: set_live_def)
      then show ?thesis using Cons False x by (auto simp: live_entries_def live_bytes_def)
    qed
  qed simp
  then show "length (live_entries xs) = Suc (length (live_entries (set_live a False xs)))"
    "live_bytes xs = ca_bytes (en_allocation e) + live_bytes (set_live a False xs)" by blast+
qed

lemma keys_set_live: "map fst (set_live a l xs) = map fst xs"
  by (induction xs) (auto simp: set_live_def)

lemma set_live_iff:
  "(b, f) \<in> set (set_live a l xs) \<longleftrightarrow> (\<exists>e. (b, e) \<in> set xs \<and> f = (if b = a then e\<lparr>en_live := l\<rparr> else e))"
  by (induction xs) (auto simp: set_live_def split: if_splits)

lemma set_dead_live:
  assumes "(b, f) \<in> set (set_live a False xs)" "en_live f"
  shows "(b, f) \<in> set xs" "b \<noteq> a"
proof -
  obtain e where e: "(b, e) \<in> set xs" "f = (if b = a then e\<lparr>en_live := False\<rparr> else e)" using assms(1) unfolding set_live_iff by blast
  then show "b \<noteq> a" using assms(2) by auto
  then show "(b, f) \<in> set xs" using e by simp
qed

lemma registry_relabel:
  assumes "registry_ok xs" "\<And>a e. en_allocation (f a e) = en_allocation e" "\<And>a e. en_reserved_bytes (f a e) = en_reserved_bytes e"
  shows "registry_ok (map (\<lambda>(a, e). (a, f a e)) xs)"
proof -
  have keys: "map fst (map (\<lambda>(a, e). (a, f a e)) xs) = map fst xs" by (induction xs) auto
  have "entry_ok a (f a e) \<longleftrightarrow> entry_ok a e" for a e by (simp add: entry_ok_def assms(2,3))
  then show ?thesis using assms(1) unfolding registry_ok_def keys by (simp add: case_prod_beta assms(3))
qed

lemma registry_set_live: "registry_ok xs \<Longrightarrow> registry_ok (set_live a l xs)"
  unfolding set_live_def by (rule registry_relabel) simp_all

text \<open>Rounding a size up to chunks neither wraps nor loses a byte.\<close>

lemma rounded_up:
  fixes bytes chunk :: u64
  assumes "chunk \<noteq> 0" "\<not> bytes > max_u64 - (chunk - 1)"
  shows "bytes \<le> ((bytes + chunk - 1) div chunk) * chunk"
proof -
  have c: "unat (chunk - 1) = unat chunk - 1" "unat chunk > 0" using assms(1) by (simp_all add: unat_minus_one unat_gt_0)
  have "unat bytes + (unat chunk - 1) < 2 ^ 64"
    using assms(2) unat_u64_le [of "chunk - 1"] c by (simp add: word_less_nat_alt unat_max_u64_minus)
  then have sum: "unat (bytes + chunk - 1) = unat bytes + (unat chunk - 1)"
    using c(1) unat_word_ariths(1) [of bytes "chunk - 1"] by (simp add: add_diff_eq)
  let ?q = "unat (bytes + chunk - 1) div unat chunk"
  have small: "?q * unat chunk \<le> unat (bytes + chunk - 1)" by (rule div_times_less_eq_dividend)
  have "unat (((bytes + chunk - 1) div chunk) * chunk) = ?q * unat chunk"
  proof -
    have "?q * unat chunk < 18446744073709551616" using small unat_u64_le [of "bytes + chunk - 1"] by linarith
    moreover have "unat ((bytes + chunk - 1) div chunk) = ?q" by (simp add: unat_div)
    ultimately show ?thesis unfolding unat_word_ariths(2) by simp
  qed
  moreover have "unat bytes \<le> ?q * unat chunk"
  proof -
    have "unat (bytes + chunk - 1) = ?q * unat chunk + unat (bytes + chunk - 1) mod unat chunk" by simp
    moreover have "unat (bytes + chunk - 1) mod unat chunk < unat chunk" using c(2) by simp
    ultimately show ?thesis using sum by linarith
  qed
  ultimately show ?thesis by (simp add: word_le_nat_alt)
qed


section \<open>Jobs\<close>

definition calm :: "compat_view \<Rightarrow> bool" where
  "calm v \<longleftrightarrow> in_job v \<and> \<not> vw_mutation v"

lemma job_done_Inr: "job_done (Inr x) v \<longleftrightarrow> calm v"
  by (simp add: job_done_def calm_def)

lemma ready_calm: "data_ready v \<Longrightarrow> calm v"
  by (simp add: data_ready_def calm_def in_job_def)

lemma triple_refuse: "(\<And>v. P v \<Longrightarrow> calm v) \<Longrightarrow> triple P (refuse e) job_done" "(\<And>v. P v \<Longrightarrow> calm v) \<Longrightarrow> triple P (succeed os) job_done"
  unfolding refuse_def succeed_def by (rule triple_return; simp add: job_done_Inr)+

lemma asked_failed:
  assumes "data_ready v" "data_call c" "allowed (vw_history v) c" "call_fails r"
  shows "in_job (asked v c r)" "cb_thrown r = None \<Longrightarrow> calm (asked v c r)"
proof -
  show *: "in_job (asked v c r)" using assms by (intro asked_done) auto
  show "cb_thrown r = None \<Longrightarrow> calm (asked v c r)" using * by (simp add: calm_def asked_def)
qed

lemma asked_served: "\<not> call_fails r \<Longrightarrow> asked v c r = v\<lparr>vw_history := (c, r) # vw_history v, vw_mutation := False\<rparr>"
  by (simp add: asked_def call_fails_def)

lemma job_call:
  assumes P: "\<And>v. P v \<Longrightarrow> data_ready v \<and> allowed (vw_history v) c" "data_call c"
    and next_step: "\<And>v. P v \<Longrightarrow> cb_thrown (backend (vw_history v) c) = None \<Longrightarrow>
      triple (\<lambda>b. b = asked v c (backend (vw_history v) c))
        (g (cb_error (backend (vw_history v) c), cb_allocation (backend (vw_history v) c))) job_done"
  shows "triple P (do { x \<leftarrow> perform backend c; case x of Inl t \<Rightarrow> State_Monad.return (Inl t) | Inr y \<Rightarrow> g y }) job_done"
proof -
  have "triple (\<lambda>b. b = v) (do { x \<leftarrow> perform backend c; case x of Inl t \<Rightarrow> State_Monad.return (Inl t) | Inr y \<Rightarrow> g y }) job_done"
    if "P v" for v
  proof (rule triple_bind [OF perform_exact [where Q = "\<lambda>x b. x = answer (backend (vw_history v) c) \<and> b = asked v c (backend (vw_history v) c)"]])
    let ?r = "backend (vw_history v) c"
    show "triple (\<lambda>b. x = answer ?r \<and> b = asked v c ?r)
        (case x of Inl t \<Rightarrow> State_Monad.return (Inl t) | Inr y \<Rightarrow> g y) job_done" for x
    proof (rule triple_knowing(2))
      assume x: "x = answer ?r"
      show "triple (\<lambda>b. b = asked v c ?r) (case x of Inl t \<Rightarrow> State_Monad.return (Inl t) | Inr y \<Rightarrow> g y) job_done"
      proof (cases "cb_thrown ?r")
        case None
        then show ?thesis using next_step [OF that] by (simp add: x answer_def)
      next
        case (Some t)
        have "in_job (asked v c ?r)" using P that Some by (intro asked_failed) (auto simp: call_fails_def)
        then show ?thesis by (auto intro!: triple_return simp: x answer_def Some job_done_def)
      qed
    qed
  qed simp
  then show ?thesis unfolding triple_on_def by blast
qed

lemma job_call_checked:
  assumes P: "\<And>v. P v \<Longrightarrow> data_ready v \<and> allowed (vw_history v) c" "data_call c"
    and next_step: "\<And>v. P v \<Longrightarrow> \<not> call_fails (backend (vw_history v) c) \<Longrightarrow>
      triple (\<lambda>b. b = v\<lparr>vw_history := (c, backend (vw_history v) c) # vw_history v, vw_mutation := False\<rparr>)
        (h (cb_allocation (backend (vw_history v) c))) job_done"
  shows "triple P (do { x \<leftarrow> perform backend c; case x of Inl t \<Rightarrow> State_Monad.return (Inl t)
     | Inr (e, a) \<Rightarrow> if is_error e then refuse e else h a }) job_done"
proof (rule job_call [where g = "\<lambda>(e, a). if is_error e then refuse e else h a", OF P])
  fix v assume v: "P v" and n: "cb_thrown (backend (vw_history v) c) = None"
  let ?r = "backend (vw_history v) c"
  show "triple (\<lambda>b. b = asked v c ?r)
     (case (cb_error ?r, cb_allocation ?r) of (e, a) \<Rightarrow> if is_error e then refuse e else h a) job_done"
  proof (cases "is_error (cb_error ?r)")
    case True
    then have "calm (asked v c ?r)" using P v n by (intro asked_failed) (auto simp: call_fails_def)
    then show ?thesis using True by (auto intro: triple_refuse)
  next
    case False
    then have f: "\<not> call_fails ?r" using n by (simp add: call_fails_def)
    then show ?thesis using False next_step [OF v f] by (simp add: asked_served)
  qed
qed auto

text \<open>Reading the state.\<close>

lemma job_get:
  assumes "\<And>s. P (view_of s) \<Longrightarrow> triple (\<lambda>b. b = view_of s) (g s) Q"
  shows "triple P (State_Monad.bind State_Monad.get g) Q"
  using assms by (auto simp: triple_on_def State_Monad.bind_def State_Monad.get_def)

lemma backed_release:
  assumes "backed xs m" "\<And>a e. (a, e) \<in> set xs \<Longrightarrow> en_live e \<Longrightarrow> ca_id (en_allocation e) \<noteq> i"
  shows "backed xs (m(i := None))"
  using assms by (intro backed_same [OF assms(1)]) auto

text \<open>An allocation of the backend that the registry does not hold.\<close>

definition unregistered :: "compat_view \<Rightarrow> allocation_id \<Rightarrow> bool" where
  "unregistered v i \<longleftrightarrow> served (vw_history v) i \<noteq> None \<and>
     (\<forall>(a, e) \<in> set (vw_allocations v). en_live e \<longrightarrow> ca_id (en_allocation e) \<noteq> i)"

lemma triple_give_back:
  assumes "triple calm rest job_done"
  shows "triple (\<lambda>v. data_ready v \<and> unregistered v i) (give_back backend i rest) job_done"
proof -
  have "triple (\<lambda>v. data_ready v \<and> unregistered v i) (do { x \<leftarrow> perform backend (B_release i);
     case x of Inl t \<Rightarrow> State_Monad.return (Inl t) | Inr y \<Rightarrow> rest }) job_done"
  proof (rule job_call)
    fix v assume v: "data_ready v \<and> unregistered v i"
    then show a: "data_ready v \<and> allowed (vw_history v) (B_release i)"
      by (simp add: data_ready_def running_def serving_def unregistered_def)
    assume n: "cb_thrown (backend (vw_history v) (B_release i)) = None"
    have "in_job (asked v (B_release i) (backend (vw_history v) (B_release i)))"
    proof (rule asked_done)
      assume "\<not> call_fails (backend (vw_history v) (B_release i))"
      then show "backed (vw_allocations v) (served ((B_release i, backend (vw_history v) (B_release i)) # vw_history v))"
        using v by (auto intro!: backed_release simp: unregistered_def data_ready_def serving_def)
    qed (use a in auto)
    then have "calm (asked v (B_release i) (backend (vw_history v) (B_release i)))" using n by (simp add: calm_def asked_def)
    then show "triple (\<lambda>b. b = asked v (B_release i) (backend (vw_history v) (B_release i))) rest job_done"
      using assms by (auto elim: triple_pre)
  qed simp
  then show ?thesis by (simp add: give_back_def)
qed

lemma poison_calm: "calm v \<Longrightarrow> calm (v\<lparr>vw_state := Cc_poisoned\<rparr>)"
  by (auto simp: calm_def in_job_def running_def core_ok_def tallied_def)

lemma triple_poisoning: "triple calm (do { set_state Cc_poisoned; refuse e }) job_done"
  by (rule triple_after [where R = calm], rule triple_state) (simp_all add: poison_calm triple_refuse)


lemma view_simps [simp]:
  "vw_state (view_of s) = ct_state (ad_telemetry s)" "vw_config (view_of s) = ad_config s"
  "vw_allocations (view_of s) = ad_allocations s" "vw_accepting (view_of s) = ad_accepting s"
  "vw_mutation (view_of s) = ad_mutation_active s" "vw_backend (view_of s) = ad_backend s"
  "vw_fail (view_of s) = ad_fail_next_enqueue s" "vw_attempted (view_of s) = ad_attempted s" "vw_history (view_of s) = ad_history s"
  by (simp_all add: view_of_def)

lemma calm_admitted:
  assumes "data_ready v" "unregistered v (ca_id a)" "served (vw_history v) (ca_id a) = Some (ca_bytes a)" "ca_bytes a \<noteq> 0"
    and "ca_address a \<noteq> 0" "\<not> reserved > max_u64 - ca_address a" "ca_bytes a \<le> reserved"
    and "\<not> touches_managed (vw_allocations v) (ca_address a) reserved"
  shows "calm (v\<lparr>vw_allocations := emplace (ca_address a) \<lparr>en_allocation = a, en_reserved_bytes = reserved, en_live = True\<rparr> (vw_allocations v),
     vw_created := vw_created v + 1, vw_live := vw_live v + 1, vw_bytes := vw_bytes v + ca_bytes a\<rparr>)"
proof -
  let ?e = "\<lparr>en_allocation = a, en_reserved_bytes = reserved, en_live = True\<rparr>"
  let ?xs = "vw_allocations v"
  let ?ys = "emplace (ca_address a) ?e ?xs"
  have reg: "registry_ok ?xs" using assms(1) by (simp add: data_ready_def running_def core_ok_def)
  have "unat (ca_address a) + unat reserved < 2 ^ 64"
    using assms(6) unat_u64_le [of "ca_address a"] by (simp add: word_less_nat_alt unat_max_u64_minus)
  then have ok: "entry_ok (ca_address a) ?e" using assms(4,5,7) by (simp add: entry_ok_def)
  have touch: "\<not> touches_managed ?xs (ca_address a) (en_reserved_bytes ?e)" using assms(8) by simp
  note placed = registry_emplace [OF reg touch ok] and new = emplace_new [OF reg touch]
  have "backed ?ys (served (vw_history v))"
    using assms(1,2,3) unfolding backed_def placed(2) data_ready_def serving_def unregistered_def by auto
  moreover have "of_nat (length (live_entries ?ys)) = of_nat (length (live_entries ?xs)) + (1 :: u64)"
    by (simp add: new(1) live_emplace)
  moreover have "live_bytes ?ys = live_bytes ?xs + ca_bytes a" by (simp add: new(1) live_emplace)
  ultimately show ?thesis
    using assms(1) placed(1) by (auto simp: calm_def in_job_def data_ready_def running_def core_ok_def tallied_def serving_def)
qed

lemma triple_register:
  assumes v: "data_ready v" "unregistered v (ca_id a)" "served (vw_history v) (ca_id a) = Some bytes" "bytes \<noteq> 0"
    and fits: "bytes \<le> reserved"
    and sound: "\<not> (ca_address a = 0 \<or> ca_bytes a \<noteq> bytes \<or> reserved > max_u64 - ca_address a \<or>
      touches_managed (vw_allocations v) (ca_address a) reserved)"
  shows "triple (\<lambda>b. b = v) (register_allocation backend bytes a reserved failure) job_done"
proof (cases failure)
  case None
  let ?e = "\<lparr>en_allocation = a, en_reserved_bytes = reserved, en_live = True\<rparr>"
  let ?placed = "v\<lparr>vw_allocations := emplace (ca_address a) ?e (vw_allocations v)\<rparr>"
  have c: "calm (?placed\<lparr>vw_created := vw_created v + 1, vw_live := vw_live v + 1, vw_bytes := vw_bytes v + bytes\<rparr>)"
    using calm_admitted [of v a reserved] v fits sound by simp
  have "triple (\<lambda>b. b = v) (modify (\<lambda>s. s\<lparr>ad_allocations := emplace (ca_address a) ?e (ad_allocations s)\<rparr>)) (\<lambda>_ b. b = ?placed)"
    by (rule triple_modify [where g = "\<lambda>b. b\<lparr>vw_allocations := emplace (ca_address a) ?e (vw_allocations b)\<rparr>"])
      (simp_all add: view_of_def)
  moreover have "triple (\<lambda>b. b = ?placed) (with_telemetry (\<lambda>t. t\<lparr>ct_allocations_created := ct_allocations_created t + 1,
      ct_live_allocations := ct_live_allocations t + 1, ct_logical_bytes := ct_logical_bytes t + bytes,
      ct_logical_bytes_peak := max (ct_logical_bytes_peak t) (ct_logical_bytes t + bytes)\<rparr>)) (\<lambda>_. calm)"
    unfolding with_telemetry_def
    by (rule triple_modify [where g = "\<lambda>b. b\<lparr>vw_created := vw_created b + 1, vw_live := vw_live b + 1, vw_bytes := vw_bytes b + bytes\<rparr>"])
      (use c in \<open>simp_all add: view_of_def\<close>)
  ultimately show ?thesis
    unfolding register_allocation_def None option.case by (intro triple_after triple_refuse)
next
  case (Some t)
  have "triple (\<lambda>v. data_ready v \<and> unregistered v (ca_id a)) (give_back backend (ca_id a) (refuse (exception_error ''allocation_registry'' t))) job_done"
    by (rule triple_give_back) (simp add: triple_refuse)
  then show ?thesis using v by (auto simp: register_allocation_def Some elim: triple_pre)
qed

lemma triple_admit:
  assumes "bytes \<noteq> 0"
  shows "triple (\<lambda>v. data_ready v \<and> unregistered v (ca_id a) \<and> served (vw_history v) (ca_id a) = Some bytes)
    (admit_allocation backend bytes a failure) job_done"
  unfolding admit_allocation_def
  apply (rule job_get)
  subgoal premises v for s
  proof -
    have chunk: "(if observed = 0 then sc_chunk_size_bytes (cc_session (ad_config s)) else observed) \<noteq> 0" for observed
      using v by (auto simp: data_ready_def running_def valid_config_def Let_def)
    have given: "triple (\<lambda>b. b = view_of s) (give_back backend (ca_id a) rest) job_done" if "triple calm rest job_done" for rest
      by (rule triple_pre [OF triple_give_back [OF that]]) (use v in simp)
    show ?thesis
      unfolding Let_def
      by (intro triple_if given triple_refuse triple_poisoning triple_register rounded_up chunk)
        (use v assms in \<open>simp_all\<close>)
  qed
  done

lemma ready_served:
  assumes "backed (vw_allocations v) (served ((c, r) # vw_history v))" "data_ready v" "\<not> call_fails r" "data_call c" "allowed (vw_history v) c"
  shows "data_ready (v\<lparr>vw_history := (c, r) # vw_history v, vw_mutation := False\<rparr>)"
proof -
  have "phase ((c, r) # vw_history v) = phase (vw_history v)" using assms(4) by (cases c) simp_all
  moreover have "\<not> spoils c r" using assms(3) by (simp add: spoils_def call_fails_def)
  ultimately show ?thesis using assms by (simp add: data_ready_def running_def core_ok_def tallied_def serving_def spoiled_def)
qed

lemma triple_malloc:
  assumes "fresh_ids backend"
  shows "triple data_ready (malloc_job backend output_pointer bytes failure) job_done"
  unfolding malloc_job_def
proof (rule job_get)
  fix s assume r: "data_ready (view_of s)"
  have refused: "triple (\<lambda>b. b = view_of s) (refuse e) job_done" for e using r by (intro triple_refuse) (simp add: ready_calm)
  have "triple (\<lambda>b. b = view_of s) (do { allocated \<leftarrow> perform backend (B_allocate bytes);
       case allocated of
         Inl t \<Rightarrow> State_Monad.return (Inl t)
       | Inr (e, allocation) \<Rightarrow> if is_error e then refuse e else admit_allocation backend bytes allocation failure }) job_done"
    if n: "bytes \<noteq> 0"
  proof (rule job_call_checked)
    fix v assume v: "v = view_of s"
    show "data_ready v \<and> allowed (vw_history v) (B_allocate bytes)"
      using r n v by (simp add: data_ready_def running_def serving_def)
    let ?r = "backend (vw_history v) (B_allocate bytes)"
    let ?i = "ca_id (cb_allocation ?r)"
    let ?w = "v\<lparr>vw_history := (B_allocate bytes, ?r) # vw_history v, vw_mutation := False\<rparr>"
    assume f: "\<not> call_fails ?r"
    then have fresh: "served (vw_history v) ?i = None" using assms by (simp add: fresh_ids_def)
    have apart: "ca_id (en_allocation e) \<noteq> ?i" if "(a, e) \<in> set (vw_allocations v)" "en_live e" for a e
    proof
      assume "ca_id (en_allocation e) = ?i"
      moreover have "backed (vw_allocations v) (served (vw_history v))" using r v by (simp add: data_ready_def serving_def)
      then have "served (vw_history v) (ca_id (en_allocation e)) = Some (ca_bytes (en_allocation e))"
        using that unfolding backed_def by fast
      ultimately show False using fresh by simp
    qed
    have "backed (vw_allocations v) (served ((B_allocate bytes, ?r) # vw_history v))"
    proof (rule backed_same)
      show "backed (vw_allocations v) (served (vw_history v))" using r v by (simp add: data_ready_def serving_def)
      show "served ((B_allocate bytes, ?r) # vw_history v) (ca_id (en_allocation e)) = served (vw_history v) (ca_id (en_allocation e))"
        if "(a, e) \<in> set (vw_allocations v)" "en_live e" for a e
        using apart [OF that] f by simp
    qed
    then have "data_ready ?w" by (rule ready_served) (use r v f n in \<open>simp_all add: data_ready_def running_def serving_def\<close>)
    moreover have "unregistered ?w ?i" "served (vw_history ?w) ?i = Some bytes"
      using f apart by (auto simp: unregistered_def)
    ultimately show "triple (\<lambda>b. b = ?w) (admit_allocation backend bytes (cb_allocation ?r) failure) job_done"
      by (intro triple_pre [OF triple_admit [OF n]]) simp
  qed simp
  then show "triple (\<lambda>b. b = view_of s)
     (if \<not> is_host s output_pointer 8 \<or> bytes = 0 \<or> bytes > max_u64 - (sc_chunk_size_bytes (cc_session (ad_config s)) - 1)
      then refuse (invalid ''cudaMalloc'' ''a host output pointer and positive representable size are required'')
      else do { allocated \<leftarrow> perform backend (B_allocate bytes);
       case allocated of
         Inl t \<Rightarrow> State_Monad.return (Inl t)
       | Inr (e, allocation) \<Rightarrow> if is_error e then refuse e else admit_allocation backend bytes allocation failure }) job_done"
    using refused by simp
qed


lemma registered_live:
  assumes "data_ready v" "n \<noteq> 0" "lookup_live (vw_allocations v) p n = Some e"
  shows "(ca_address (en_allocation e), e) \<in> set (vw_allocations v)" "en_live e"
    "served (vw_history v) (ca_id (en_allocation e)) = Some (ca_bytes (en_allocation e))"
    "unat (p - ca_address (en_allocation e)) + unat n \<le> unat (ca_bytes (en_allocation e))"
proof -
  have reg: "registry_ok (vw_allocations v)" using assms(1) by (simp add: data_ready_def running_def core_ok_def)
  note found = lookup_live_Some [OF reg assms(2,3)]
  show "(ca_address (en_allocation e), e) \<in> set (vw_allocations v)" "en_live e"
    "unat (p - ca_address (en_allocation e)) + unat n \<le> unat (ca_bytes (en_allocation e))" by (fact found)+
  have "backed (vw_allocations v) (served (vw_history v))" using assms(1) by (simp add: data_ready_def serving_def)
  then show "served (vw_history v) (ca_id (en_allocation e)) = Some (ca_bytes (en_allocation e))"
    using found(1,2) unfolding backed_def by fast
qed

lemma calm_released:
  assumes "data_ready v" "(a, e) \<in> set (vw_allocations v)" "en_live e" "served h' = (served (vw_history v))(ca_id (en_allocation e) := None)"
    and "phase h' = Ph_open" "\<not> spoiled h'" "allowed_history h'"
  shows "calm (v\<lparr>vw_history := h', vw_mutation := False, vw_allocations := set_live a False (vw_allocations v),
     vw_released := vw_released v + 1, vw_live := vw_live v - 1, vw_bytes := vw_bytes v - ca_bytes (en_allocation e)\<rparr>)"
proof -
  let ?xs = "vw_allocations v"
  have reg: "registry_ok ?xs" and b: "backed ?xs (served (vw_history v))"
    using assms(1) by (simp_all add: data_ready_def running_def core_ok_def serving_def)
  have "distinct (map fst ?xs)" using reg by (simp add: registry_ok_def)
  note live = live_set_dead [OF assms(2,3) this]
  have "backed (set_live a False ?xs) (served h')"
    unfolding backed_def
  proof (intro conjI ballI; clarify)
    fix b f assume "(b, f) \<in> set (set_live a False ?xs)" "en_live f"
    note bf = set_dead_live [OF this]
    then have "ca_id (en_allocation f) \<noteq> ca_id (en_allocation e)"
      using b assms(2,3) \<open>en_live f\<close> unfolding backed_def by fast
    moreover have "served (vw_history v) (ca_id (en_allocation f)) = Some (ca_bytes (en_allocation f))"
      using b bf \<open>en_live f\<close> unfolding backed_def by fast
    ultimately show "served h' (ca_id (en_allocation f)) = Some (ca_bytes (en_allocation f))" by (simp add: assms(4))
  next
    fix b f c g assume "(b, f) \<in> set (set_live a False ?xs)" "(c, g) \<in> set (set_live a False ?xs)" "en_live f" "en_live g"
      and same: "ca_id (en_allocation f) = ca_id (en_allocation g)"
    then have "(b, f) \<in> set ?xs" "(c, g) \<in> set ?xs" by (blast dest: set_dead_live)+
    then show "b = c" using b \<open>en_live f\<close> \<open>en_live g\<close> same unfolding backed_def by fast
  qed
  moreover have "of_nat (length (live_entries (set_live a False ?xs))) = of_nat (length (live_entries ?xs)) - (1 :: u64)"
    by (simp add: live)
  moreover have "live_bytes (set_live a False ?xs) = live_bytes ?xs - ca_bytes (en_allocation e)" by (simp add: live)
  ultimately show ?thesis
    using assms registry_set_live [OF reg]
    by (auto simp: calm_def in_job_def data_ready_def running_def core_ok_def tallied_def serving_def)
qed

text \<open>A job that finds what it works on in the registry.\<close>

lemma triple_found:
  assumes "triple P f Q" "\<And>e. x = Some e \<Longrightarrow> triple P (g e) Q"
  shows "triple P (case x of None \<Rightarrow> f | Some e \<Rightarrow> g e) Q"
  using assms by (simp split: option.split)

lemma triple_free: "triple data_ready (free_job backend pointer) job_done"
proof -
  have freed: "triple (\<lambda>b. b = view_of s) (do {
        released \<leftarrow> perform backend (B_release (ca_id (en_allocation e)));
        case released of
          Inl t \<Rightarrow> State_Monad.return (Inl t)
        | Inr (error, _) \<Rightarrow>
            if is_error error then refuse error
            else do {
              modify (\<lambda>s. s\<lparr>ad_allocations := set_live pointer False (ad_allocations s)\<rparr>);
              with_telemetry (\<lambda>t. t\<lparr>ct_allocations_released := ct_allocations_released t + 1,
                ct_live_allocations := ct_live_allocations t - 1,
                ct_logical_bytes := ct_logical_bytes t - ca_bytes (en_allocation e)\<rparr>);
              succeed []
            }
      }) job_done"
    if r: "data_ready (view_of s)" and found: "lookup_live (ad_allocations s) pointer 1 = Some e" "ca_address (en_allocation e) = pointer" for s e
  proof (rule job_call_checked)
    note here = registered_live [OF r, of 1 pointer e, simplified, OF found(1)]
    fix v assume v: "v = view_of s"
    then show a: "data_ready v \<and> allowed (vw_history v) (B_release (ca_id (en_allocation e)))"
      using r here(3) by (simp add: data_ready_def running_def serving_def)
    let ?r = "backend (vw_history v) (B_release (ca_id (en_allocation e)))"
    let ?h = "(B_release (ca_id (en_allocation e)), ?r) # vw_history v"
    let ?w = "v\<lparr>vw_history := ?h, vw_mutation := False\<rparr>"
    let ?freed = "?w\<lparr>vw_allocations := set_live pointer False (vw_allocations v)\<rparr>"
    assume f: "\<not> call_fails ?r"
    have c: "calm (?freed\<lparr>vw_released := vw_released v + 1, vw_live := vw_live v - 1, vw_bytes := vw_bytes v - ca_bytes (en_allocation e)\<rparr>)"
      using calm_released [of v pointer e ?h] a f here(1,2) found(2) v
      by (simp add: data_ready_def running_def core_ok_def serving_def spoiled_def spoils_def call_fails_def)
    have "triple (\<lambda>b. b = ?w) (modify (\<lambda>s. s\<lparr>ad_allocations := set_live pointer False (ad_allocations s)\<rparr>)) (\<lambda>_ b. b = ?freed)"
      by (rule triple_modify [where g = "\<lambda>b. b\<lparr>vw_allocations := set_live pointer False (vw_allocations b)\<rparr>"])
        (simp_all add: view_of_def)
    moreover have "triple (\<lambda>b. b = ?freed) (with_telemetry (\<lambda>t. t\<lparr>ct_allocations_released := ct_allocations_released t + 1,
        ct_live_allocations := ct_live_allocations t - 1, ct_logical_bytes := ct_logical_bytes t - ca_bytes (en_allocation e)\<rparr>)) (\<lambda>_. calm)"
      unfolding with_telemetry_def
      by (rule triple_modify [where g = "\<lambda>b. b\<lparr>vw_released := vw_released b + 1, vw_live := vw_live b - 1,
            vw_bytes := vw_bytes b - ca_bytes (en_allocation e)\<rparr>"]) (use c in \<open>simp_all add: view_of_def\<close>)
    ultimately show "triple (\<lambda>b. b = ?w) (do {
        modify (\<lambda>s. s\<lparr>ad_allocations := set_live pointer False (ad_allocations s)\<rparr>);
        with_telemetry (\<lambda>t. t\<lparr>ct_allocations_released := ct_allocations_released t + 1,
          ct_live_allocations := ct_live_allocations t - 1, ct_logical_bytes := ct_logical_bytes t - ca_bytes (en_allocation e)\<rparr>);
        succeed [] }) job_done"
      by (intro triple_after triple_refuse)
  qed simp
  show ?thesis
    unfolding free_job_def
    by (intro triple_if triple_refuse job_get triple_found freed) (auto simp: ready_calm)
qed


text \<open>A call that leaves the allocations as they are.\<close>

fun keeps_allocations :: "backend_call \<Rightarrow> bool" where
  "keeps_allocations (B_write i offset source bytes) \<longleftrightarrow> True"
| "keeps_allocations (B_read i offset destination bytes) \<longleftrightarrow> True"
| "keeps_allocations (B_gemm p) \<longleftrightarrow> True"
| "keeps_allocations B_synchronize \<longleftrightarrow> True"
| "keeps_allocations _ \<longleftrightarrow> False"

lemma keeping_call:
  assumes "keeps_allocations c"
  shows "data_call c" "served ((c, r) # h) = served h"
  using assms by (cases c; simp)+

lemma job_call_keeping:
  assumes P: "\<And>v. P v \<Longrightarrow> data_ready v \<and> allowed (vw_history v) c" "keeps_allocations c" and rest: "triple data_ready rest job_done"
  shows "triple P (do { x \<leftarrow> perform backend c; case x of Inl t \<Rightarrow> State_Monad.return (Inl t)
     | Inr (e, _) \<Rightarrow> if is_error e then refuse e else rest }) job_done"
proof (rule job_call_checked)
  fix v assume v: "P v"
  then show "data_ready v \<and> allowed (vw_history v) c" by (rule P(1))
  assume "\<not> call_fails (backend (vw_history v) c)"
  then have "data_ready (v\<lparr>vw_history := (c, backend (vw_history v) c) # vw_history v, vw_mutation := False\<rparr>)"
    by (intro ready_served) (use P v in \<open>auto simp: keeping_call data_ready_def serving_def simp del: served.simps\<close>)
  then show "triple (\<lambda>b. b = v\<lparr>vw_history := (c, backend (vw_history v) c) # vw_history v, vw_mutation := False\<rparr>) rest job_done"
    by (auto intro: triple_pre [OF rest])
qed (simp add: keeping_call P(2))

lemma triple_quiet_job: "quiet job \<Longrightarrow> triple data_ready job job_done"
  by (erule triple_hush) (rule ready_done)

lemma quiet_traffic [quiets]:
  "quiet (with_telemetry (\<lambda>t. if c then t\<lparr>ct_h2d_bytes := f t\<rparr> else t\<lparr>ct_d2h_bytes := g t\<rparr>))"
  by (rule quiet_with_telemetry) simp_all

lemma triple_copy: "triple data_ready (copy_job backend destination source bytes kind) job_done"
proof -
  let ?device = "if kind = 1 then destination else source"
  have copied: "triple (\<lambda>b. b = view_of s) (do {
        copied \<leftarrow> perform backend
          (if kind = 1 then B_write (ca_id (en_allocation e)) (?device - ca_address (en_allocation e)) source bytes
           else B_read (ca_id (en_allocation e)) (?device - ca_address (en_allocation e)) destination bytes);
        case copied of
          Inl t \<Rightarrow> State_Monad.return (Inl t)
        | Inr (error, _) \<Rightarrow>
            if is_error error then refuse error
            else do {
              with_telemetry (\<lambda>t. if kind = 1 then t\<lparr>ct_h2d_bytes := ct_h2d_bytes t + bytes\<rparr>
                else t\<lparr>ct_d2h_bytes := ct_d2h_bytes t + bytes\<rparr>);
              succeed []
            }
      }) job_done"
    if r: "data_ready (view_of s)" and found: "lookup_live (ad_allocations s) ?device bytes = Some e" and n: "bytes \<noteq> 0" for s e
  proof (rule job_call_keeping)
    note here = registered_live [OF r n, of ?device e, simplified, OF found]
    show "data_ready v \<and> allowed (vw_history v)
       (if kind = 1 then B_write (ca_id (en_allocation e)) (?device - ca_address (en_allocation e)) source bytes
        else B_read (ca_id (en_allocation e)) (?device - ca_address (en_allocation e)) destination bytes)" if "v = view_of s" for v
      using r here(3,4) n that by (auto simp: data_ready_def running_def serving_def in_served_range_def)
    show "triple data_ready (do { with_telemetry (\<lambda>t. if kind = 1 then t\<lparr>ct_h2d_bytes := ct_h2d_bytes t + bytes\<rparr>
                else t\<lparr>ct_d2h_bytes := ct_d2h_bytes t + bytes\<rparr>);
              succeed [] }) job_done"
      by (rule triple_quiet_job) (intro quiets)
  qed simp
  show ?thesis
    unfolding copy_job_def Let_def
    by (intro triple_if triple_refuse job_get triple_found copied) (auto simp: ready_calm)
qed

lemma triple_synchronize: "triple data_ready (synchronize_job backend) job_done"
  unfolding synchronize_job_def
proof (rule job_call [where g = "\<lambda>(error, _). refuse error"])
  fix v assume "data_ready v"
  then show a: "data_ready v \<and> allowed (vw_history v) B_synchronize" by (simp add: data_ready_def running_def serving_def)
  let ?r = "backend (vw_history v) B_synchronize"
  assume n: "cb_thrown ?r = None"
  have "in_job (asked v B_synchronize ?r)" by (rule asked_done) (use a in \<open>auto simp: data_ready_def serving_def\<close>)
  then have "calm (asked v B_synchronize ?r)" using n by (simp add: calm_def asked_def)
  then show "triple (\<lambda>b. b = asked v B_synchronize ?r) (case (cb_error ?r, cb_allocation ?r) of (error, _) \<Rightarrow> refuse error) job_done"
    by (auto intro: triple_refuse)
qed simp

lemma triple_submit:
  "triple (\<lambda>v. data_ready v \<and> list_all (\<lambda>M. served (vw_history v) (mv_allocation_id M) = Some (mv_allocation_bytes M))
     [gp_a problem, gp_b problem, gp_c problem]) (submit_sgemm backend problem) job_done"
  unfolding submit_sgemm_def Let_def
proof (intro triple_if)
  let ?P = "\<lambda>v. data_ready v \<and> list_all (\<lambda>M. served (vw_history v) (mv_allocation_id M) = Some (mv_allocation_bytes M))
     [gp_a problem, gp_b problem, gp_c problem]"
  show "triple ?P (refuse e) job_done" "triple ?P (refuse f) job_done" for e f by (auto intro!: triple_refuse simp: ready_calm)
  assume valid: "\<not> pv_error (validate_problem problem) \<noteq> Pe_none"
  show "triple ?P (do {
             multiplied \<leftarrow> perform backend (B_gemm problem);
             case multiplied of
               Inl t \<Rightarrow> State_Monad.return (Inl t)
             | Inr (error, _) \<Rightarrow>
                 if is_error error then refuse error
                 else do { with_telemetry (ct_gemm_calls_update (\<lambda>n. n + 1)); succeed [] }
           }) job_done"
    by (rule job_call_keeping)
      (use valid in \<open>auto simp: data_ready_def running_def serving_def intro!: triple_quiet_job quiets\<close>)
qed

lemma triple_sgemm: "triple data_ready (sgemm_job backend args initialized scalars) job_done"
proof -
  have submitted: "triple (\<lambda>b. b = view_of s) (submit_sgemm backend (sgemm_problem args ae be ce alpha beta)) job_done"
    if r: "data_ready (view_of s)" and "lookup_live (ad_allocations s) (sa_a args) 4 = Some ae"
      "lookup_live (ad_allocations s) (sa_b args) 4 = Some be" "lookup_live (ad_allocations s) (sa_c args) 4 = Some ce" for s ae be ce alpha beta
    by (rule triple_pre [OF triple_submit])
      (use that registered_live(3) [OF r, of 4] in \<open>simp add: sgemm_problem_def sgemm_matrix_def Let_def\<close>)
  show ?thesis
    unfolding sgemm_job_def Let_def
    apply (intro triple_if triple_refuse job_get)
      apply (simp_all add: ready_calm)
    apply (auto simp: ready_calm split: option.split intro!: triple_if triple_refuse submitted)
    done
qed


lemma quiet_blas_create [quiets]: "quiet (blas_create_job created p)"
  unfolding blas_create_job_def
  by (intro quiets quiet_with_telemetry quiet_modify) (simp_all add: view_of_def)

lemma quiet_handle_jobs [quiets]: "quiet (change_handle p f)"
  unfolding change_handle_def by (rule quiet_modify) (simp add: view_of_def)

lemma quiet_handles [quiets]:
  "quiet (with_telemetry (\<lambda>t. t\<lparr>ct_handles_destroyed := f t, ct_live_handles := g t\<rparr>))"
  by (rule quiet_with_telemetry) simp_all

lemma quiet_requests [quiets]:
  "quiet (get_device_job p)" "quiet (get_device_count_job p)" "quiet (set_device_job d)" "quiet (mem_get_info_job p q)"
  "quiet (blas_destroy_job p)" "quiet (blas_get_version_job p q)" "quiet (blas_set_stream_job p q)" "quiet (blas_get_stream_job p q)"
  "quiet (blas_set_pointer_mode_job p m)" "quiet (blas_get_pointer_mode_job p q)" "quiet (blas_set_math_mode_job p m)"
  "quiet (blas_get_math_mode_job p q)"
  unfolding get_device_job_def get_device_count_job_def set_device_job_def mem_get_info_job_def blas_destroy_job_def
    blas_get_version_job_def blas_set_stream_job_def blas_get_stream_job_def blas_set_pointer_mode_job_def
    blas_get_pointer_mode_job_def blas_set_math_mode_job_def blas_get_math_mode_job_def
  by (intro quiets)+

end
