(* ===== verification/Compat_Lifecycle.thy ===== *)
theory Compat_Lifecycle
  imports Compat_Jobs
begin

text \<open>
A call of the CUDA compatibility adapter and its lifecycle: a call, an initialization with its cleanup, a shutdown and the
  end of the worker lead from one state between two calls to another.
\<close>

section \<open>A call\<close>

lemma fail_irrelevant [simp]:
  "tallied (v\<lparr>vw_fail := b\<rparr>) \<longleftrightarrow> tallied v" "core_ok (v\<lparr>vw_fail := b\<rparr>) \<longleftrightarrow> core_ok v"
  "running (v\<lparr>vw_fail := b\<rparr>) \<longleftrightarrow> running v" "serving (v\<lparr>vw_fail := b\<rparr>) \<longleftrightarrow> serving v"
  by (simp_all add: tallied_def core_ok_def running_def serving_def)

lemma triple_call_with:
  assumes start: "\<And>v. P v \<Longrightarrow> vw_accepting v \<Longrightarrow> \<not> vw_fail v \<Longrightarrow> (needs_ready \<longrightarrow> vw_state v = Cc_ready) \<Longrightarrow> P' v"
    and job: "triple P' job J"
    and refused: "\<And>status v. P v \<Longrightarrow> status \<noteq> Xs_success \<Longrightarrow>
      \<not> vw_accepting v \<or> needs_ready \<and> \<not> vw_fail v \<and> vw_state v \<noteq> Cc_ready \<Longrightarrow> Q status [] v"
    and unqueued: "\<And>status v. P v \<Longrightarrow> status \<noteq> Xs_success \<Longrightarrow> vw_accepting v \<Longrightarrow> vw_fail v \<Longrightarrow> Q status [] (v\<lparr>vw_fail := False\<rparr>)"
    and returned: "\<And>e outputs v. J (Inr (e, outputs)) v \<Longrightarrow> Q (if is_error e then se_status e else Xs_success) outputs v"
    and thrown: "\<And>t status v. J (Inl t) v \<Longrightarrow> status \<noteq> Xs_success \<Longrightarrow>
      Q status [] (v\<lparr>vw_state := if vw_mutation v then Cc_poisoned else vw_state v, vw_mutation := False\<rparr>)"
  shows "triple P (call_adapter operation needs_ready job) (\<lambda>(status, outputs). Q status outputs)"
proof -
  have recorded: "triple R (record_error e rejected) (\<lambda>status v. R v \<and> status = (if is_error e then se_status e else Xs_success))"
    for R e rejected
  proof -
    have "fst (run_state (record_error e rejected) s) = (if is_error e then se_status e else Xs_success)" for s
      by (simp add: record_error_def State_Monad.bind_def State_Monad.return_def split: prod.splits)
    then show ?thesis using quiet_record [of e rejected] by (simp add: triple_on_def quiet_on_def)
  qed
  have failed: "is_error (make_error st a b c) \<longleftrightarrow> st \<noteq> Xs_success" "se_status (make_error st a b c) = st"
    "is_error (exception_error a t)" for st a b c t
    by (simp_all add: make_error_def is_error_def) (cases t; simp add: make_error_def)
  have rejected: "triple R (do { status \<leftarrow> record_error e True; State_Monad.return (status, []) }) (\<lambda>(status, outputs). Q status outputs)"
    if "is_error e" "\<And>v status. R v \<Longrightarrow> status \<noteq> Xs_success \<Longrightarrow> Q status [] v" for e R
    by (rule triple_bind [OF recorded]) (rule triple_return, use that in \<open>auto simp: is_error_def\<close>)
  have dropped: "triple (\<lambda>v. P v \<and> v = view_of s) (modify (\<lambda>s. s\<lparr>ad_fail_next_enqueue := False\<rparr>))
      (\<lambda>_ v. \<forall>status. status \<noteq> Xs_success \<longrightarrow> Q status [] v)" if "ad_accepting s" "ad_fail_next_enqueue s" for s
    by (rule triple_modify [where g = "\<lambda>v. v\<lparr>vw_fail := False\<rparr>"]) (use that in \<open>auto simp: view_of_def dest!: unqueued\<close>)
  have handled: "triple (J result) (case result of
         Inr (e, outputs) \<Rightarrow> do {
           status \<leftarrow> record_error e (is_error e);
           (if \<not> is_error e then with_telemetry (ct_calls_completed_update (\<lambda>n. n + 1)) else State_Monad.return ());
           State_Monad.return (status, outputs)
         }
       | Inl t \<Rightarrow> do {
           status \<leftarrow> record_error (exception_error operation t) True;
           s \<leftarrow> State_Monad.get;
           (if ad_mutation_active s then set_state Cc_poisoned else State_Monad.return ());
           modify (\<lambda>s. s\<lparr>ad_mutation_active := False\<rparr>);
           State_Monad.return (status, [])
         }) (\<lambda>(status, outputs). Q status outputs)" for result
  proof (cases result)
    case (Inr x)
    have "quiet (if \<not> is_error e then with_telemetry (ct_calls_completed_update (\<lambda>n. n + 1)) else State_Monad.return ())" for e
      by (intro quiets)
    then show ?thesis
      unfolding Inr sum.case prod.case_eq_if
      by (intro triple_bind [OF recorded] triple_quietly triple_return) (use returned [of "fst x" "snd x"] in \<open>auto simp: prod.case_eq_if\<close>)
  next
    case (Inl t)
    have "triple (\<lambda>b. (J (Inl t) b \<and> status \<noteq> Xs_success) \<and> b = view_of s)
        (if ad_mutation_active s then set_state Cc_poisoned else State_Monad.return ())
        (\<lambda>_ b. Q status [] (b\<lparr>vw_mutation := False\<rparr>))" for s status
      by (intro triple_if triple_state triple_return) (use thrown in \<open>fastforce simp: view_of_def\<close>)+
    then have continued: "triple (\<lambda>b. J (Inl t) b \<and> status \<noteq> Xs_success) (do {
           s \<leftarrow> State_Monad.get;
           (if ad_mutation_active s then set_state Cc_poisoned else State_Monad.return ());
           modify (\<lambda>s. s\<lparr>ad_mutation_active := False\<rparr>);
           State_Monad.return (status, [])
         }) (\<lambda>(status, outputs). Q status outputs)" for status
      by (intro triple_get triple_after [OF _ triple_after [OF triple_mutation triple_return]])
         (assumption, simp_all)
    show ?thesis
      unfolding Inl sum.case
      by (rule triple_bind [OF recorded], rule triple_pre [OF continued]) (use failed(3) in \<open>simp add: is_error_def\<close>)
  qed
  have run: "triple (\<lambda>b. P b \<and> b = view_of s) job J"
    if "ad_accepting s" "\<not> ad_fail_next_enqueue s" "needs_ready \<longrightarrow> ct_state (ad_telemetry s) = Cc_ready" for s
    by (rule triple_pre [OF job]) (use that start in auto)
  show ?thesis
    unfolding call_adapter_def
    apply (rule triple_quietly [OF quiet_calls(1)], rule triple_get, rule triple_if)
     apply (rule rejected, simp add: failed, (auto intro: refused)[1])
    apply (rule triple_if)
     apply (rule triple_after [OF dropped], simp, simp, rule rejected, simp add: failed, blast)
    apply (rule triple_if)
     apply (rule rejected, simp add: failed, (auto intro: refused)[1])
    apply (rule triple_quietly [OF quiet_calls(2)], rule triple_bind [OF run handled]; simp)
    done
qed

lemma triple_call:
  assumes job: "triple data_ready job job_done"
  shows "triple between_calls (call_adapter operation True job) (\<lambda>(status, outputs). between_calls)"
proof (rule triple_call_with [OF _ job])
  show "data_ready v" if "between_calls v" "vw_accepting v" "True \<longrightarrow> vw_state v = Cc_ready" for v
    using that by (auto simp: between_calls_def stopped_def in_job_def data_ready_def)
  show "between_calls v" if "job_done (Inr (e, outputs)) v" for e outputs v
    using that by (simp add: job_done_Inr calm_def between_calls_def)
  show "between_calls (v\<lparr>vw_state := if vw_mutation v then Cc_poisoned else vw_state v, vw_mutation := False\<rparr>)"
    if "job_done (Inl t) v" for t v
    using that by (auto simp: job_done_def in_job_def running_def core_ok_def tallied_def between_calls_def serving_def)
  show "between_calls (v\<lparr>vw_fail := False\<rparr>)" if "between_calls v" for v
    using that by (auto simp: between_calls_def stopped_def in_job_def)
qed


section \<open>Lifecycle\<close>

text \<open>
  What the adapter is while it closes: a backend it still holds is open for closing, and it is closed once it holds none.
\<close>

definition stopping :: "compat_view \<Rightarrow> bool" where
  "stopping v \<longleftrightarrow> core_ok v \<and> vw_attempted v \<and> \<not> vw_mutation v \<and> (if vw_backend v then tallied v else vw_state v = Cc_closed)"

lemma triple_close:
  assumes F: "\<And>v st h b. F v \<Longrightarrow> F (v\<lparr>vw_state := st, vw_history := h, vw_backend := b\<rparr>)"
  shows "triple (\<lambda>v. core_ok v \<and> tallied v \<and> F v) (close_backend backend) (\<lambda>e v. core_ok v \<and> tallied v \<and> \<not> vw_backend v \<and> F v)"
proof -
  let ?C = "\<lambda>v. core_ok (v\<lparr>vw_backend := False\<rparr>) \<and> tallied v \<and> F (v\<lparr>vw_backend := False\<rparr>)"
  have dropped: "triple ?C (do { modify (\<lambda>s. s\<lparr>ad_backend := False\<rparr>); State_Monad.return e })
      (\<lambda>e v. core_ok v \<and> tallied v \<and> \<not> vw_backend v \<and> F v)" for e :: sdk_error
    by (rule triple_after [OF triple_modify [where g = "\<lambda>v. v\<lparr>vw_backend := False\<rparr>"] triple_return])
      (simp_all add: view_of_def tallied_def)
  have asked: "triple (\<lambda>v. (core_ok v \<and> tallied v \<and> F v) \<and> vw_backend v) (ask backend B_close) (\<lambda>r. ?C)"
  proof (rule triple_ask)
    fix v r assume v: "(core_ok v \<and> tallied v \<and> F v) \<and> vw_backend v"
    then have "F (v\<lparr>vw_history := (B_close, r) # vw_history v, vw_backend := False\<rparr>)"
      using F [where v = v and st = "vw_state v"] by simp
    then show "?C (v\<lparr>vw_history := (B_close, r) # vw_history v\<rparr>)" using v by (auto simp: core_ok_def tallied_def)
  qed
  have poisoned: "triple ?C (outcome_of r) (\<lambda>e. ?C)" for r
  proof -
    have F': "F (v\<lparr>vw_state := st, vw_backend := False\<rparr>)" if "F (v\<lparr>vw_backend := False\<rparr>)" for v st
      using F [OF that, where st = st and h = "vw_history v" and b = False] by simp
    show ?thesis
      unfolding outcome_of_def
      by (rule triple_after [where R = ?C], intro triple_if triple_state triple_return)
        (auto intro!: triple_return F' simp: core_ok_def tallied_def)
  qed
  have replied: "triple ?C (case cb_thrown r of Some t \<Rightarrow> State_Monad.return (exception_error ''backend_close'' t)
       | None \<Rightarrow> outcome_of r) (\<lambda>e. ?C)" for r
    using poisoned by (cases "cb_thrown r") (auto intro: triple_return)
  have idle: "F (view_of s\<lparr>vw_backend := False\<rparr>)" if "F (view_of s)" for s
    using F [OF that, where st = "vw_state (view_of s)" and h = "vw_history (view_of s)" and b = False] by (simp add: view_of_def)
  have closed: "triple (\<lambda>v. (core_ok v \<and> tallied v \<and> F v) \<and> v = view_of s)
     (if \<not> ad_backend s then State_Monad.return no_sdk_error
      else do { r \<leftarrow> ask backend B_close; case cb_thrown r of Some t \<Rightarrow> State_Monad.return (exception_error ''backend_close'' t)
       | None \<Rightarrow> outcome_of r }) (\<lambda>e. ?C)" for s
  proof (rule triple_if)
    assume "\<not> ad_backend s"
    then show "triple (\<lambda>v. (core_ok v \<and> tallied v \<and> F v) \<and> v = view_of s) (State_Monad.return no_sdk_error) (\<lambda>e. ?C)"
      by (intro triple_return) (auto simp: core_ok_def tallied_def idle)
  next
    assume "\<not> \<not> ad_backend s"
    then show "triple (\<lambda>v. (core_ok v \<and> tallied v \<and> F v) \<and> v = view_of s) (do { r \<leftarrow> ask backend B_close;
        case cb_thrown r of Some t \<Rightarrow> State_Monad.return (exception_error ''backend_close'' t) | None \<Rightarrow> outcome_of r }) (\<lambda>e. ?C)"
      by (intro triple_pre [OF triple_bind [OF asked replied]]) auto
  qed
  show ?thesis
    unfolding close_backend_def by (rule triple_get, rule triple_bind [OF closed dropped])
qed

lemma triple_finish:
  assumes F: "\<And>v st al r l b. F v \<Longrightarrow> F (v\<lparr>vw_state := st, vw_allocations := al, vw_released := r, vw_live := l, vw_bytes := b\<rparr>)"
  shows "triple (\<lambda>v. core_ok v \<and> F v) (finish_close e) (\<lambda>_ v. core_ok v \<and> vw_state v = Cc_closed \<and> F v)"
proof -
  let ?dead = "\<lambda>v. v\<lparr>vw_allocations := map (\<lambda>(a, x). (a, x\<lparr>en_live := False\<rparr>)) (vw_allocations v)\<rparr>"
  let ?C = "\<lambda>v. core_ok (v\<lparr>vw_state := Cc_closed\<rparr>) \<and> F v"
  have dead: "triple (\<lambda>v. core_ok v \<and> F v) (modify (\<lambda>s. s\<lparr>ad_allocations := map (\<lambda>(a, x). (a, x\<lparr>en_live := False\<rparr>)) (ad_allocations s),
       ad_handles := map (\<lambda>(a, h). (a, h\<lparr>bh_live := False\<rparr>)) (ad_handles s)\<rparr>)) (\<lambda>_. ?C)"
  proof (rule triple_modify [where g = ?dead])
    fix v assume v: "core_ok v \<and> F v"
    have "registry_ok (map (\<lambda>(a, x). (a, x\<lparr>en_live := False\<rparr>)) (vw_allocations v))"
      by (rule registry_relabel) (use v in \<open>simp_all add: core_ok_def\<close>)
    moreover have "F (?dead v)"
      using F [where v = v and st = "vw_state v" and r = "vw_released v" and l = "vw_live v" and b = "vw_bytes v"] v by simp
    ultimately show "?C (?dead v)" using v by (simp add: core_ok_def)
  qed (simp add: view_of_def)
  have counts: "triple ?C (if \<not> is_error e
      then with_telemetry (\<lambda>t. t\<lparr>ct_allocations_released := ct_allocations_created t,
        ct_handles_destroyed := ct_handles_created t, ct_live_allocations := 0, ct_live_handles := 0,
        ct_logical_bytes := 0, ct_backend := (ct_backend t)\<lparr>bf_cleanup_completed := 1\<rparr>\<rparr>)
      else State_Monad.return ()) (\<lambda>_. ?C)"
  proof (rule triple_if)
    show "triple ?C (with_telemetry (\<lambda>t. t\<lparr>ct_allocations_released := ct_allocations_created t,
        ct_handles_destroyed := ct_handles_created t, ct_live_allocations := 0, ct_live_handles := 0,
        ct_logical_bytes := 0, ct_backend := (ct_backend t)\<lparr>bf_cleanup_completed := 1\<rparr>\<rparr>)) (\<lambda>_. ?C)"
      unfolding with_telemetry_def
    proof (rule triple_modify [where g = "\<lambda>v. v\<lparr>vw_released := vw_created v, vw_live := 0, vw_bytes := 0\<rparr>"])
      fix v assume v: "?C v"
      then have "F (v\<lparr>vw_released := vw_created v, vw_live := 0, vw_bytes := 0\<rparr>)"
        using F [where v = v and st = "vw_state v" and al = "vw_allocations v" and r = "vw_created v" and l = 0 and b = 0] by simp
      then show "?C (v\<lparr>vw_released := vw_created v, vw_live := 0, vw_bytes := 0\<rparr>)" using v by (simp add: core_ok_def)
    qed (simp add: view_of_def)
  qed (simp add: triple_return)
  have state: "F (v\<lparr>vw_state := Cc_closed\<rparr>)" if "F v" for v
    using F [OF that, where st = Cc_closed and al = "vw_allocations v" and r = "vw_released v" and l = "vw_live v" and b = "vw_bytes v"] by simp
  show ?thesis
    unfolding finish_close_def
    by (rule triple_after [OF dead], rule triple_after [OF counts], rule triple_state) (simp add: state)
qed


lemma counted_updates [simp]:
  "tallied (v\<lparr>vw_state := st\<rparr>) \<longleftrightarrow> tallied v" "tallied (v\<lparr>vw_attempted := b\<rparr>) \<longleftrightarrow> tallied v"
  "tallied (v\<lparr>vw_accepting := b\<rparr>) \<longleftrightarrow> tallied v" "tallied (v\<lparr>vw_config := c\<rparr>) \<longleftrightarrow> tallied v"
  "tallied (v\<lparr>vw_history := h\<rparr>) \<longleftrightarrow> tallied v" "tallied (v\<lparr>vw_backend := b\<rparr>) \<longleftrightarrow> tallied v"
  by (simp_all add: tallied_def)

lemma core_updates [simp]:
  "core_ok (v\<lparr>vw_attempted := b\<rparr>) \<longleftrightarrow> core_ok v" "core_ok (v\<lparr>vw_accepting := b\<rparr>) \<longleftrightarrow> core_ok v"
  "core_ok (v\<lparr>vw_config := c\<rparr>) \<longleftrightarrow> core_ok v"
  by (simp_all add: core_ok_def tallied_def)

lemma core_state: "core_ok v \<Longrightarrow> st = Cc_closed \<or> tallied v \<Longrightarrow> core_ok (v\<lparr>vw_state := st\<rparr>)"
  by (auto simp: core_ok_def)

lemma triple_stop:
  "triple stopping (stop_worker backend) (\<lambda>_ v. between_calls v \<and> stopped v)"
proof -
  let ?F = "\<lambda>v. vw_attempted v \<and> \<not> vw_mutation v \<and> \<not> vw_accepting v"
  let ?G = "\<lambda>v. ?F v \<and> \<not> vw_backend v"
  have finished: "triple (\<lambda>v. core_ok v \<and> ?G v) (finish_close e) (\<lambda>_ v. between_calls v \<and> stopped v)" for e
    by (rule triple_conseq [OF triple_finish [where F = ?G]]) (auto simp: between_calls_def stopped_def)
  have recorded: "triple (\<lambda>v. core_ok v \<and> tallied v \<and> \<not> vw_backend v \<and> ?F v) (do { record_error e False; finish_close e })
      (\<lambda>_ v. between_calls v \<and> stopped v)" for e
    by (rule triple_quietly [OF quiet_record], rule triple_pre [OF finished]) simp
  have refused: "triple stopping (modify (\<lambda>s. s\<lparr>ad_accepting := False\<rparr>)) (\<lambda>_ v. stopping v \<and> \<not> vw_accepting v)"
    by (rule triple_modify [where g = "\<lambda>v. v\<lparr>vw_accepting := False\<rparr>"]) (simp_all add: stopping_def view_of_def)
  show ?thesis
    unfolding stop_worker_def
  proof (rule triple_after [OF refused], rule triple_get, rule triple_if)
    show "triple (\<lambda>v. (stopping v \<and> \<not> vw_accepting v) \<and> v = view_of s)
        (do { e \<leftarrow> close_backend backend; record_error e False; finish_close e }) (\<lambda>_ v. between_calls v \<and> stopped v)"
      if "ad_backend s" for s
      by (rule triple_bind [OF triple_pre [OF triple_close [where F = ?F]] recorded])
        (use that in \<open>auto simp: stopping_def\<close>)
    show "triple (\<lambda>v. (stopping v \<and> \<not> vw_accepting v) \<and> v = view_of s) (State_Monad.return ()) (\<lambda>_ v. between_calls v \<and> stopped v)"
      if "\<not> ad_backend s" for s
      by (rule triple_return) (use that in \<open>auto simp: stopping_def between_calls_def stopped_def\<close>)
  qed
qed

lemma in_job_stopping: "in_job v \<Longrightarrow> \<not> vw_mutation v \<Longrightarrow> stopping v"
  by (auto simp: in_job_def running_def stopping_def core_ok_def)

lemma triple_shutdown:
  "triple between_calls (adapter_shutdown backend) (\<lambda>_. between_calls)"
proof -
  let ?F = "\<lambda>v. vw_attempted v \<and> \<not> vw_mutation v"
  let ?J = "\<lambda>result v. (case result of Inl t \<Rightarrow> False | Inr x \<Rightarrow> stopping v)"
  have closing: "triple (\<lambda>v. core_ok v \<and> tallied v \<and> ?F v) (do { e \<leftarrow> close_backend backend; finish_close e; refuse e }) ?J"
  proof (rule triple_bind [OF triple_close [where F = ?F]], simp)
    fix e
    have "triple (\<lambda>v. core_ok v \<and> tallied v \<and> \<not> vw_backend v \<and> ?F v) (finish_close e) (\<lambda>_. stopping)"
      by (rule triple_conseq [OF triple_finish [where F = "\<lambda>v. ?F v \<and> \<not> vw_backend v"]]) (auto simp: stopping_def)
    then show "triple (\<lambda>v. core_ok v \<and> tallied v \<and> \<not> vw_backend v \<and> ?F v) (do { finish_close e; refuse e }) ?J"
      unfolding refuse_def by (rule triple_after) (simp add: triple_return)
  qed
  have called: "triple (\<lambda>v. in_job v \<and> \<not> vw_mutation v) (call_adapter ''shutdown'' False (do { e \<leftarrow> close_backend backend; finish_close e; refuse e }))
      (\<lambda>(status, outputs). stopping)"
  proof (rule triple_call_with [OF _ closing])
    show "core_ok v \<and> tallied v \<and> ?F v" if "in_job v \<and> \<not> vw_mutation v" for v
      using that by (auto simp: in_job_def running_def core_ok_def)
    show "stopping v" if "in_job v \<and> \<not> vw_mutation v" "\<not> vw_accepting v \<or> False \<and> \<not> vw_fail v \<and> vw_state v \<noteq> Cc_ready" for v
      using that by (simp add: in_job_def running_def)
    show "stopping (v\<lparr>vw_fail := False\<rparr>)" if "in_job v \<and> \<not> vw_mutation v" for v
      using in_job_stopping that by (auto simp: stopping_def)
  qed auto
  show ?thesis
    unfolding adapter_shutdown_def
  proof (rule triple_get, rule triple_if)
    show "triple (\<lambda>v. between_calls v \<and> v = view_of s) (State_Monad.return Xs_success) (\<lambda>_. between_calls)" for s
      by (rule triple_return) simp
    show "triple (\<lambda>v. between_calls v \<and> v = view_of s)
       (do { (status, _) \<leftarrow> call_adapter ''shutdown'' False (do { e \<leftarrow> close_backend backend; finish_close e; refuse e });
          stop_worker backend; State_Monad.return status }) (\<lambda>_. between_calls)" if "\<not> \<not> ad_accepting s" for s
    proof (rule triple_pre [OF triple_bind_pair [OF called]])
      show "triple (case (status, outputs) of (status, outputs) \<Rightarrow> stopping) (do { stop_worker backend; State_Monad.return status }) (\<lambda>_. between_calls)"
        for status and outputs :: "u64 list"
        by (simp, rule triple_after [OF triple_stop], rule triple_return, simp)
      show "in_job v \<and> \<not> vw_mutation v" if "between_calls v \<and> v = view_of s" for v
        using that \<open>\<not> \<not> ad_accepting s\<close> by (auto simp: between_calls_def stopped_def)
    qed
  qed
qed


text \<open>An initialization that has not failed yet, and one that has.\<close>

definition starting :: "compat_view \<Rightarrow> bool" where
  "starting v \<longleftrightarrow> core_ok v \<and> tallied v \<and> vw_attempted v \<and> vw_accepting v \<and> \<not> vw_mutation v \<and> valid_config (vw_config v) \<and>
     vw_state v = Cc_initializing \<and> vw_allocations v = [] \<and> \<not> spoiled (vw_history v)"

definition failing :: "compat_view \<Rightarrow> bool" where
  "failing v \<longleftrightarrow> core_ok v \<and> tallied v \<and> vw_attempted v \<and> vw_accepting v \<and> \<not> vw_mutation v \<and> \<not> vw_fail v"

definition initialized_with :: "job_result \<Rightarrow> compat_view \<Rightarrow> bool" where
  "initialized_with result v \<longleftrightarrow> (case result of
       Inl t \<Rightarrow> failing v
     | Inr (e, outputs) \<Rightarrow> if is_error e then failing v else in_job v \<and> \<not> vw_mutation v)"

lemma triple_initialize_job:
  "triple (\<lambda>v. starting v \<and> \<not> vw_fail v \<and> vw_history v = []) (initialize_job backend) initialized_with"
proof -
  let ?F = "\<lambda>v. vw_attempted v \<and> vw_accepting v \<and> \<not> vw_mutation v \<and> \<not> vw_fail v"
  let ?P = "\<lambda>v. starting v \<and> \<not> vw_fail v \<and> phase (vw_history v) = Ph_created"
  have failed: "triple failing (refuse e) initialized_with" if "is_error e" for e
    unfolding refuse_def by (rule triple_return) (simp add: initialized_with_def that)
  have closed: "triple failing (do { close_backend backend; set_state Cc_closed }) (\<lambda>_. failing)"
    by (rule triple_bind [OF triple_pre [OF triple_close [where F = ?F]]], simp, simp add: failing_def)
      (rule triple_state, simp add: failing_def core_state)
  have opened: "triple (\<lambda>v. ?P v \<and> v = view_of s) (do {
       r \<leftarrow> ask backend (B_initialize (ad_config s));
       case cb_thrown r of
         Some t \<Rightarrow> State_Monad.return (Inl t)
       | None \<Rightarrow> do {
           (if \<not> is_error (cb_error r) then set_state Cc_ready else do { close_backend backend; set_state Cc_closed });
           refuse (cb_error r)
         } }) initialized_with" for s
  proof (rule triple_bind [OF triple_ask [where Q = "\<lambda>r v. failing v \<and> (\<not> call_fails r \<longrightarrow> in_job (v\<lparr>vw_state := Cc_ready\<rparr>))"]])
    fix v r assume v: "?P v \<and> v = view_of s"
    let ?w = "v\<lparr>vw_history := (B_initialize (ad_config s), r) # vw_history v\<rparr>"
    have core: "core_ok ?w" using v by (auto simp: core_ok_def starting_def)
    moreover have "in_job (?w\<lparr>vw_state := Cc_ready\<rparr>)" if "\<not> call_fails r"
    proof -
      have "serving ?w" using v by (auto simp: serving_def backed_def starting_def spoiled_def spoils_def)
      then show ?thesis using core v that by (auto simp: in_job_def running_def starting_def serving_def core_state)
    qed
    ultimately show "failing ?w \<and> (\<not> call_fails r \<longrightarrow> in_job (?w\<lparr>vw_state := Cc_ready\<rparr>))"
      using v by (auto simp: failing_def starting_def)
  next
    fix r
    let ?Q = "\<lambda>v. failing v \<and> (\<not> call_fails r \<longrightarrow> in_job (v\<lparr>vw_state := Cc_ready\<rparr>))"
    show "triple ?Q (case cb_thrown r of
         Some t \<Rightarrow> State_Monad.return (Inl t)
       | None \<Rightarrow> do {
           (if \<not> is_error (cb_error r) then set_state Cc_ready else do { close_backend backend; set_state Cc_closed });
           refuse (cb_error r)
         }) initialized_with"
    proof (cases "cb_thrown r")
      case (Some t)
      then show ?thesis by (auto intro: triple_return simp: initialized_with_def)
    next
      case None
      show ?thesis
      proof (cases "is_error (cb_error r)")
        case True
        have "triple failing (do { close_backend backend; set_state Cc_closed; refuse (cb_error r) }) initialized_with"
          using triple_after [OF closed failed [OF True]] by simp
        then show ?thesis using True None by (auto elim: triple_pre)
      next
        case False
        have "triple ?Q (set_state Cc_ready) (\<lambda>_ v. in_job v \<and> \<not> vw_mutation v)"
          by (rule triple_state) (use False None in \<open>auto simp: call_fails_def failing_def\<close>)
        then show ?thesis
          using False None by (auto intro!: triple_after triple_return simp: refuse_def initialized_with_def)
      qed
    qed
  qed
  show ?thesis
    unfolding initialize_job_def
  proof (rule triple_bind [OF triple_ask [where Q = "\<lambda>r v. starting (v\<lparr>vw_backend := cb_thrown r = None \<and> cb_present r\<rparr>) \<and> \<not> vw_fail v \<and>
        (cb_thrown r = None \<longrightarrow> cb_present r \<longrightarrow> phase (vw_history v) = Ph_created) \<and> \<not> vw_backend v"]])
    fix v r assume v: "starting v \<and> \<not> vw_fail v \<and> vw_history v = []"
    then show "starting (v\<lparr>vw_history := (B_factory, r) # vw_history v\<rparr>\<lparr>vw_backend := cb_thrown r = None \<and> cb_present r\<rparr>) \<and>
        \<not> vw_fail (v\<lparr>vw_history := (B_factory, r) # vw_history v\<rparr>) \<and>
        (cb_thrown r = None \<longrightarrow> cb_present r \<longrightarrow> phase (vw_history (v\<lparr>vw_history := (B_factory, r) # vw_history v\<rparr>)) = Ph_created) \<and>
        \<not> vw_backend (v\<lparr>vw_history := (B_factory, r) # vw_history v\<rparr>)"
      by (auto simp: starting_def core_ok_def spoiled_def spoils_def)
  next
    fix r
    let ?Q = "\<lambda>v. starting (v\<lparr>vw_backend := cb_thrown r = None \<and> cb_present r\<rparr>) \<and> \<not> vw_fail v \<and>
        (cb_thrown r = None \<longrightarrow> cb_present r \<longrightarrow> phase (vw_history v) = Ph_created) \<and> \<not> vw_backend v"
    let ?R = "\<lambda>v. starting v \<and> \<not> vw_fail v \<and> (cb_present r \<longrightarrow> phase (vw_history v) = Ph_created)"
    have kept: "triple ?Q (modify (\<lambda>s. s\<lparr>ad_backend := cb_present r\<rparr>)) (\<lambda>_. ?R)" if "cb_thrown r = None"
      by (rule triple_modify [where g = "\<lambda>v. v\<lparr>vw_backend := cb_present r\<rparr>"]) (use that in \<open>simp_all add: view_of_def\<close>)
    show "triple ?Q (case cb_thrown r of
       Some t \<Rightarrow> State_Monad.return (Inl t)
     | None \<Rightarrow> do {
         modify (\<lambda>s. s\<lparr>ad_backend := cb_present r\<rparr>);
         if \<not> cb_present r
         then refuse (make_error Xs_internal ''compat'' ''initialize'' ''backend factory returned null'')
         else do {
           s \<leftarrow> State_Monad.get;
           r \<leftarrow> ask backend (B_initialize (ad_config s));
           case cb_thrown r of
             Some t \<Rightarrow> State_Monad.return (Inl t)
           | None \<Rightarrow> do {
               (if \<not> is_error (cb_error r) then set_state Cc_ready else do { close_backend backend; set_state Cc_closed });
               refuse (cb_error r)
             }
         } }) initialized_with"
    proof (cases "cb_thrown r")
      case None
      have "triple ?R (refuse (make_error Xs_internal ''compat'' ''initialize'' ''backend factory returned null'')) initialized_with"
        by (rule triple_pre [OF failed]) (simp_all add: is_error_def make_error_def failing_def starting_def)
      then show ?thesis
        unfolding None option.case
        by (intro triple_after [OF kept [OF None, unfolded None]] triple_if triple_get triple_pre [OF opened]) auto
    next
      case (Some t)
      then show ?thesis
        by (auto intro!: triple_return simp: initialized_with_def starting_def failing_def core_ok_def tallied_def)
    qed
  qed
qed

lemma triple_cleanup:
  "triple failing (do { call_adapter ''initialize_cleanup'' False (do { close_backend backend; set_state Cc_closed; succeed [] });
     stop_worker backend }) (\<lambda>_. between_calls)"
proof -
  let ?F = "\<lambda>v. vw_attempted v \<and> vw_accepting v \<and> \<not> vw_mutation v \<and> \<not> vw_fail v"
  have closing: "triple failing (do { close_backend backend; set_state Cc_closed; succeed [] })
      (\<lambda>result v. case result of Inl t \<Rightarrow> False | Inr x \<Rightarrow> stopping v)"
    unfolding succeed_def
    by (rule triple_bind [OF triple_pre [OF triple_close [where F = ?F]]], simp, simp add: failing_def)
      (rule triple_after [OF triple_state [where Q = "\<lambda>_. stopping"] triple_return], simp_all add: stopping_def core_state)
  have "triple failing (call_adapter ''initialize_cleanup'' False (do { close_backend backend; set_state Cc_closed; succeed [] }))
      (\<lambda>(status, outputs). stopping)"
    by (rule triple_call_with [OF _ closing]) (auto simp: failing_def)
  then show ?thesis
    by (rule triple_bind) (auto intro: triple_conseq [OF triple_stop])
qed

text \<open>An initialization that threw leaves a state that the handler may mark closed.\<close>

definition initialize_settled :: "thrown + xvram_status \<Rightarrow> compat_view \<Rightarrow> bool" where
  "initialize_settled result v \<longleftrightarrow>
     (case result of Inl t \<Rightarrow> between_calls (v\<lparr>vw_state := Cc_closed\<rparr>) | Inr status \<Rightarrow> between_calls v)"

lemma between_closed: "between_calls v \<Longrightarrow> between_calls (v\<lparr>vw_state := Cc_closed\<rparr>)"
  by (auto simp: between_calls_def stopped_def in_job_def running_def core_state)

lemma triple_start:
  assumes "valid_config config"
  shows "triple (\<lambda>v. between_calls v \<and> \<not> vw_attempted v) (start_worker backend config faults) initialize_settled"
proof -
  let ?P = "\<lambda>v. core_ok v \<and> tallied v \<and> vw_attempted v \<and> \<not> vw_accepting v \<and> \<not> vw_mutation v \<and> \<not> vw_backend v \<and>
    vw_config v = config \<and> vw_history v = [] \<and> vw_allocations v = []"
  let ?S = "\<lambda>v. starting v \<and> vw_history v = []"
  have kept: "triple (\<lambda>v. between_calls v \<and> \<not> vw_attempted v) (modify (\<lambda>s. s\<lparr>ad_attempted := True, ad_config := config\<rparr>)) (\<lambda>_. ?P)"
    by (rule triple_modify [where g = "\<lambda>v. v\<lparr>vw_attempted := True, vw_config := config\<rparr>"])
      (auto simp: between_calls_def stopped_def in_job_def running_def view_of_def)
  have marked: "triple ?P (set_state Cc_initializing) (\<lambda>_ v. ?S (v\<lparr>vw_accepting := True\<rparr>) \<and> \<not> vw_accepting v \<and> \<not> vw_backend v)"
    by (rule triple_state) (use assms in \<open>auto simp: starting_def spoiled_def core_state\<close>)
  have unthreaded: "triple (\<lambda>v. ?S (v\<lparr>vw_accepting := True\<rparr>) \<and> \<not> vw_accepting v \<and> \<not> vw_backend v)
      (State_Monad.return (Inl t)) initialize_settled" for t
    by (rule triple_return) (auto simp: initialize_settled_def between_calls_def stopped_def starting_def core_state)
  have opened: "triple (\<lambda>v. ?S (v\<lparr>vw_accepting := True\<rparr>) \<and> \<not> vw_accepting v \<and> \<not> vw_backend v)
      (modify (\<lambda>s. s\<lparr>ad_accepting := True\<rparr>)) (\<lambda>_. ?S)"
    by (rule triple_modify [where g = "\<lambda>v. v\<lparr>vw_accepting := True\<rparr>"]) (simp_all add: view_of_def)
  have called: "triple ?S (call_adapter ''initialize'' False (initialize_job backend))
      (\<lambda>(status, outputs) v. if status = Xs_success then between_calls v else failing v)"
  proof (rule triple_call_with [OF _ triple_initialize_job])
    fix e outputs v assume "initialized_with (Inr (e, outputs)) v"
    then show "if (if is_error e then se_status e else Xs_success) = Xs_success then between_calls v else failing v"
      by (auto simp: initialized_with_def between_calls_def is_error_def split: if_splits)
  next
    fix t status v assume "initialized_with (Inl t) v" "status \<noteq> Xs_success"
    then show "if status = Xs_success then between_calls (v\<lparr>vw_state := if vw_mutation v then Cc_poisoned else vw_state v, vw_mutation := False\<rparr>)
        else failing (v\<lparr>vw_state := if vw_mutation v then Cc_poisoned else vw_state v, vw_mutation := False\<rparr>)"
      by (simp add: initialized_with_def failing_def core_ok_def tallied_def)
  qed (auto simp: starting_def failing_def)
  have settled: "triple (\<lambda>v. if status = Xs_success then between_calls v else failing v)
      (do { (if status \<noteq> Xs_success
        then do {
          call_adapter ''initialize_cleanup'' False (do { close_backend backend; set_state Cc_closed; succeed [] });
          stop_worker backend
        }
        else State_Monad.return ()); State_Monad.return (Inr status) }) initialize_settled" for status
    by (rule triple_after [where R = between_calls]; cases "status = Xs_success";
      simp add: triple_cleanup triple_return initialize_settled_def)
  show ?thesis
    unfolding start_worker_def
  proof (rule triple_after [OF kept], rule triple_after [OF marked], cases "faults Making_thread")
    case None
    show "triple (\<lambda>v. ?S (v\<lparr>vw_accepting := True\<rparr>) \<and> \<not> vw_accepting v \<and> \<not> vw_backend v) (case faults Making_thread of
       Some t \<Rightarrow> State_Monad.return (Inl t)
     | None \<Rightarrow> do {
       modify (\<lambda>s. s\<lparr>ad_accepting := True\<rparr>);
       (status, _) \<leftarrow> call_adapter ''initialize'' False (initialize_job backend);
       (if status \<noteq> Xs_success
        then do {
          call_adapter ''initialize_cleanup'' False (do { close_backend backend; set_state Cc_closed; succeed [] });
          stop_worker backend
        }
        else State_Monad.return ());
       State_Monad.return (Inr status) }) initialize_settled"
      unfolding None option.case
      by (rule triple_after [OF opened], rule triple_bind_pair [OF called], simp only: case_prod_conv, rule settled)
  qed (use unthreaded in auto)
qed

lemma triple_initialize:
  "triple between_calls (adapter_initialize backend absolute faults config) (\<lambda>_. between_calls)"
proof -
  have threw: "triple between_calls (State_Monad.return (Inl t)) initialize_settled" for t
    by (rule triple_return) (simp add: initialize_settled_def between_closed)
  have "quiet (reject_initialize e)" for e unfolding reject_initialize_def by (intro quiets)
  then have rejected: "triple between_calls (refuse_initialize faults e) initialize_settled" for e
    unfolding refuse_initialize_def
    by (cases "faults Making_rejection")
      (auto intro!: threw triple_bind [OF triple_quiet] triple_return simp: initialize_settled_def)
  have looked: "triple (\<lambda>v. between_calls v \<and> v = view_of s) (if ad_attempted s then refuse_initialize faults e else start_worker backend c faults)
      initialize_settled" if "valid_config c" for s c e
    by (intro triple_if triple_pre [OF rejected] triple_pre [OF triple_start [OF that]]) auto
  have body: "triple between_calls (initialize_body backend absolute faults config) initialize_settled"
  proof (cases config)
    case (Some c)
    have checked: "triple between_calls (case r of Inl t \<Rightarrow> State_Monad.return (Inl t)
       | Inr valid \<Rightarrow> if \<not> valid then refuse_initialize faults e else do { s \<leftarrow> State_Monad.get;
           if ad_attempted s then refuse_initialize faults e' else start_worker backend c faults }) initialize_settled"
      if "valid_config c" for r :: "thrown + bool" and e e'
      by (cases r) (auto intro!: threw rejected triple_get looked that)
    show ?thesis
      unfolding initialize_body_def Some option.case by (intro triple_if rejected checked) simp
  qed (simp add: initialize_body_def rejected)
  have handled: "triple (initialize_settled result) (case result of
       Inl t \<Rightarrow> do { set_state Cc_closed; record_error (exception_error ''initialize'' t) True }
     | Inr status \<Rightarrow> State_Monad.return status) (\<lambda>_. between_calls)" for result
  proof (cases result)
    case (Inl t)
    have "triple (\<lambda>v. between_calls (v\<lparr>vw_state := Cc_closed\<rparr>)) (do { set_state Cc_closed; record_error (exception_error ''initialize'' t) True })
        (\<lambda>_. between_calls)"
      by (rule triple_after [OF triple_state triple_quiet [OF quiet_record]])
    then show ?thesis unfolding Inl sum.case by (rule triple_pre) (simp add: initialize_settled_def)
  qed (auto intro: triple_return simp: initialize_settled_def)
  show ?thesis unfolding adapter_initialize_def by (rule triple_bind [OF body handled])
qed

end
