(* ===== verification/Compat_Correct.thy ===== *)
theory Compat_Correct
  imports Compat_Lifecycle
begin

text \<open>
The correctness of the CUDA compatibility adapter: in every state it can reach, by any sequence of its entry points and
  whatever its backend answers, it has asked of the backend only what is allowed, its registry and its counters agree, and
  its calls do what they promise. An example ends the theory.
\<close>

section \<open>Reachable states\<close>

text \<open>
  The states of one adapter, from its construction by any sequence of its entry points. The number counts the
  initializations that threw and ended in their handler. If the flag is off, the host may fail to store errors.
\<close>

definition initialize_throws ::
    "backend \<Rightarrow> (string \<Rightarrow> bool) \<Rightarrow> (initialize_site \<Rightarrow> thrown option) \<Rightarrow> compat_config option \<Rightarrow> compat_adapter \<Rightarrow> bool" where
  "initialize_throws backend absolute faults config s \<longleftrightarrow> isl (fst (run_state (initialize_body backend absolute faults config) s))"

inductive compat_reachable :: "backend \<Rightarrow> bool \<Rightarrow> nat \<Rightarrow> compat_adapter \<Rightarrow> bool" for backend stored where
  constructed: "compat_reachable backend stored 0 compat_adapter_new"
| initialized: "compat_reachable backend stored k s \<Longrightarrow>
    compat_reachable backend stored (if initialize_throws backend absolute faults config s then Suc k else k)
      (snd (run_state (adapter_initialize backend absolute faults config) s))"
| shut_down: "compat_reachable backend stored k s \<Longrightarrow>
    compat_reachable backend stored k (snd (run_state (adapter_shutdown backend) s))"
| allocated: "compat_reachable backend stored k s \<Longrightarrow>
    compat_reachable backend stored k (snd (run_state (malloc_device backend registry_failure output_pointer bytes) s))"
| freed: "compat_reachable backend stored k s \<Longrightarrow>
    compat_reachable backend stored k (snd (run_state (free_device backend pointer) s))"
| copied: "compat_reachable backend stored k s \<Longrightarrow>
    compat_reachable backend stored k (snd (run_state (memcpy_device backend destination source bytes kind) s))"
| multiplied: "compat_reachable backend stored k s \<Longrightarrow>
    compat_reachable backend stored k (snd (run_state (blas_sgemm backend scalar_at args) s))"
| called: "compat_reachable backend stored k s \<Longrightarrow>
    compat_reachable backend stored k (snd (run_state (simple_call backend request) s))"
| enqueue_fails: "compat_reachable backend stored k s \<Longrightarrow>
    compat_reachable backend stored k (s\<lparr>ad_fail_next_enqueue := True\<rparr>)"
| errors_torn: "compat_reachable backend stored k s \<Longrightarrow> \<not> stored \<Longrightarrow>
    compat_reachable backend stored k (s\<lparr>ad_torn := torn\<rparr>)"

lemma triple_step: "triple P f (\<lambda>_. P) \<Longrightarrow> P (view_of s) \<Longrightarrow> P (view_of (snd (run_state f s)))"
  by (simp add: triple_on_def)

lemma triple_data_call: "triple data_ready job job_done \<Longrightarrow> triple between_calls (call_adapter operation True job) (\<lambda>_. between_calls)"
  by (rule triple_conseq [OF triple_call]) auto

lemma triple_simple: "triple between_calls (simple_call backend request) (\<lambda>_. between_calls)"
  by (cases request) (simp_all add: triple_data_call triple_quiet_job quiets triple_synchronize)

lemma triple_blas_sgemm: "triple between_calls (blas_sgemm backend scalar_at args) (\<lambda>_. between_calls)"
  unfolding blas_sgemm_def Let_def by (rule job_get, rule triple_pre [OF triple_data_call [OF triple_sgemm]]) simp

lemma between_new: "between_calls (view_of compat_adapter_new)"
  by (simp add: between_calls_def stopped_def core_ok_def tallied_def compat_adapter_new_def compat_telemetry_init_def
      view_of_def registry_ok_def live_entries_def live_bytes_def)

theorem compat_invariant:
  assumes "fresh_ids backend" "compat_reachable backend stored k s"
  shows "between_calls (view_of s)"
  using assms(2)
proof induction
  case constructed
  show ?case by (rule between_new)
next
  case initialized
  then show ?case by (intro triple_step [OF triple_initialize])
next
  case shut_down
  then show ?case by (intro triple_step [OF triple_shutdown])
next
  case allocated
  then show ?case
    unfolding malloc_device_def by (intro triple_step [OF triple_data_call [OF triple_malloc [OF assms(1)]]])
next
  case freed
  then show ?case unfolding free_device_def by (intro triple_step [OF triple_data_call [OF triple_free]])
next
  case copied
  then show ?case unfolding memcpy_device_def by (intro triple_step [OF triple_data_call [OF triple_copy]])
next
  case multiplied
  then show ?case by (intro triple_step [OF triple_blas_sgemm])
next
  case called
  then show ?case by (intro triple_step [OF triple_simple])
next
  case (enqueue_fails k s)
  moreover have "view_of (s\<lparr>ad_fail_next_enqueue := True\<rparr>) = (view_of s)\<lparr>vw_fail := True\<rparr>" by (simp add: view_of_def)
  ultimately show ?case by (auto simp: between_calls_def stopped_def in_job_def)
next
  case (errors_torn k s torn)
  moreover have "view_of (s\<lparr>ad_torn := torn\<rparr>) = view_of s" by (simp add: view_of_def)
  ultimately show ?case by simp
qed

lemma between_core: "between_calls v \<Longrightarrow> core_ok v"
  by (auto simp: between_calls_def stopped_def in_job_def running_def)

text \<open>
  C14: Whatever the callers do and whatever the backend answers, every call the adapter has made of its backend kept the
  backend's contract: it was created, initialized and closed once, in this order; data calls fell between; a release,
  copy or product named allocations the backend serves, a copy stayed inside its allocation, a product was valid; and no
  data call followed one that threw or failed with an unknown extent.
\<close>

theorem compat_backend_use_allowed:
  assumes "fresh_ids backend" "compat_reachable backend stored k s"
  shows "allowed_history (ad_history s)"
  using between_core [OF compat_invariant [OF assms]] by (simp add: core_ok_def)

text \<open>
  C17: In every reachable state the ranges of the registry, live or released, are apart and in order. Until the adapter closes,
  its counters of live allocations and bytes are those of the live entries, and allocations created are allocations
  released and live. While it is ready, every live entry is an allocation that the backend serves, with its size, under
  an identity of its own.
\<close>

theorem compat_registry_books:
  assumes "fresh_ids backend" "compat_reachable backend stored k s"
  shows "registry_ok (ad_allocations s) \<and>
    (ct_state (ad_telemetry s) \<noteq> Cc_closed \<longrightarrow> tallied (view_of s)) \<and>
    (ct_state (ad_telemetry s) = Cc_ready \<longrightarrow> backed (ad_allocations s) (served (ad_history s)))"
proof -
  have b: "between_calls (view_of s)" by (rule compat_invariant [OF assms])
  have "registry_ok (ad_allocations s) \<and> (ct_state (ad_telemetry s) \<noteq> Cc_closed \<longrightarrow> tallied (view_of s))"
    using between_core [OF b] by (simp add: core_ok_def)
  moreover have "backed (ad_allocations s) (served (ad_history s))" if "ct_state (ad_telemetry s) = Cc_ready"
    using b that by (auto simp: between_calls_def stopped_def in_job_def serving_def split: if_splits)
  ultimately show ?thesis by blast
qed

text \<open>C18: A lookup finds the live allocation that holds the whole range, and nothing if none does.\<close>

theorem compat_lookup_exact:
  assumes "fresh_ids backend" "compat_reachable backend stored k s" "n \<noteq> 0"
  shows "lookup_live (ad_allocations s) p n = Some e \<longleftrightarrow> (\<exists>a. (a, e) \<in> set (ad_allocations s) \<and> en_live e \<and>
    unat a \<le> unat p \<and> unat p + unat n \<le> unat a + unat (ca_bytes (en_allocation e)))"
proof -
  have "registry_ok (ad_allocations s)" using between_core [OF compat_invariant [OF assms(1,2)]] by (simp add: core_ok_def)
  then show ?thesis using lookup_live_exact [OF _ assms(3)] by (simp add: holds_range_def)
qed

section \<open>The count of the calls\<close>

lemma invalid_error [simp]: "is_error (invalid a b)" "is_error (unsupported a b)"
  by (simp_all add: invalid_def unsupported_def make_error_def is_error_def)

text \<open>
  The calls attempted, completed and rejected, and the errors the host will fail to store. A number of calls is open when
  none will fail and so many of those attempted are neither completed nor rejected.
\<close>

definition calls_of :: "compat_adapter \<Rightarrow> u64 \<times> u64 \<times> u64 \<times> sdk_error option list" where
  "calls_of s = (ct_calls_attempted (ad_telemetry s), ct_calls_completed (ad_telemetry s),
     ct_calls_rejected (ad_telemetry s), ad_torn s)"

fun calls_open :: "u64 \<Rightarrow> u64 \<times> u64 \<times> u64 \<times> sdk_error option list \<Rightarrow> bool" where
  "calls_open k (a, c, r, torn) \<longleftrightarrow> a = c + r + k \<and> torn = []"

lemma uncounted_telemetry:
  assumes "\<And>t. ct_calls_attempted (f t) = ct_calls_attempted t" "\<And>t. ct_calls_completed (f t) = ct_calls_completed t"
    "\<And>t. ct_calls_rejected (f t) = ct_calls_rejected t"
  shows "quiet_on calls_of (with_telemetry f)"
  unfolding with_telemetry_def by (rule quiet_modify) (simp add: calls_of_def assms)

lemma uncounted_steps [quiets]:
  "quiet_on calls_of (set_state st)" "quiet_on calls_of (with_telemetry (ct_calls_submitted_update f))"
  "quiet_on calls_of (modify (\<lambda>s. s\<lparr>ad_mutation_active := m\<rparr>))"
  "quiet_on calls_of (modify (\<lambda>s. s\<lparr>ad_fail_next_enqueue := b\<rparr>))" "quiet_on calls_of (modify (\<lambda>s. s\<lparr>ad_backend := b\<rparr>))"
  "quiet_on calls_of (modify (\<lambda>s. s\<lparr>ad_accepting := b\<rparr>))"
  "quiet_on calls_of (modify (\<lambda>s. s\<lparr>ad_attempted := b, ad_config := config\<rparr>))"
  "quiet_on calls_of (change_handle p h)" "quiet_on calls_of (modify (\<lambda>s. s\<lparr>ad_allocations := g s\<rparr>))"
  "quiet_on calls_of (modify (\<lambda>s. s\<lparr>ad_allocations := g s, ad_handles := i s\<rparr>))"
  "quiet_on calls_of (modify (\<lambda>s. s\<lparr>ad_handles := i s\<rparr>))"
  unfolding set_state_def change_handle_def
  by (rule uncounted_telemetry; simp | rule quiet_modify; simp add: calls_of_def)+

lemma calls_snapshots: "calls_of (fold take_snapshot xs s) = calls_of s"
  by (induction xs arbitrary: s) (simp_all add: take_snapshot_def calls_of_def Let_def)

lemma uncounted_ask [quiets]: "quiet_on calls_of (ask backend c)"
  by (simp add: quiet_on_def ask_def State_Monad.bind_def State_Monad.get_def State_Monad.set_def State_Monad.return_def
      Let_def calls_snapshots) (simp add: calls_of_def)

lemma uncounted_calls [quiets]:
  "quiet_on calls_of (refuse e)" "quiet_on calls_of (succeed os)" "quiet_on calls_of (outcome_of r)"
  unfolding refuse_def succeed_def outcome_of_def by (intro quiets)+

lemma uncounted_perform [quiets]: "quiet_on calls_of (perform backend c)"
  unfolding perform_def by (intro quiets)

lemma uncounted_give_back [quiets]: "quiet_on calls_of rest \<Longrightarrow> quiet_on calls_of (give_back backend i rest)"
  unfolding give_back_def by (intro quiets)

lemma uncounted_jobs [quiets]:
  "quiet_on calls_of (close_backend backend)" "quiet_on calls_of (finish_close e)"
  "quiet_on calls_of (malloc_job backend p n failure)" "quiet_on calls_of (free_job backend p)"
  "quiet_on calls_of (copy_job backend p q n k)" "quiet_on calls_of (sgemm_job backend args initialized scalars)"
  unfolding close_backend_def finish_close_def malloc_job_def free_job_def copy_job_def sgemm_job_def admit_allocation_def
    register_allocation_def submit_sgemm_def Let_def
  by (intro quiets uncounted_telemetry; simp)+

lemma uncounted_requests [quiets]:
  "quiet_on calls_of (get_device_job p)" "quiet_on calls_of (get_device_count_job p)" "quiet_on calls_of (set_device_job d)"
  "quiet_on calls_of (mem_get_info_job p q)" "quiet_on calls_of (blas_destroy_job p)"
  "quiet_on calls_of (blas_get_version_job p q)" "quiet_on calls_of (blas_set_stream_job p q)"
  "quiet_on calls_of (blas_get_stream_job p q)" "quiet_on calls_of (blas_set_pointer_mode_job p m)"
  "quiet_on calls_of (blas_get_pointer_mode_job p q)" "quiet_on calls_of (blas_set_math_mode_job p m)"
  "quiet_on calls_of (blas_get_math_mode_job p q)" "quiet_on calls_of (synchronize_job backend)"
  "quiet_on calls_of (blas_create_job created p)"
  unfolding get_device_job_def get_device_count_job_def set_device_job_def mem_get_info_job_def blas_destroy_job_def
    blas_get_version_job_def blas_set_stream_job_def blas_get_stream_job_def blas_set_pointer_mode_job_def
    blas_get_pointer_mode_job_def blas_set_math_mode_job_def blas_get_math_mode_job_def synchronize_job_def blas_create_job_def
  by (intro quiets uncounted_telemetry; simp)+

lemma uncounted_initialize_job [quiets]: "quiet_on calls_of (initialize_job backend)"
  unfolding initialize_job_def by (intro quiets)

lemma counted_attempt: "triple_on calls_of (calls_open k) (with_telemetry (ct_calls_attempted_update (\<lambda>n. n + 1))) (\<lambda>_. calls_open (k + 1))"
  unfolding with_telemetry_def
  by (rule triple_modify [where g = "\<lambda>(a, c, r, torn). (a + 1, c, r, torn)"]) (auto simp: calls_of_def)

lemma counted_completion: "triple_on calls_of (calls_open (k + 1)) (with_telemetry (ct_calls_completed_update (\<lambda>n. n + 1))) (\<lambda>_. calls_open k)"
  unfolding with_telemetry_def
  by (rule triple_modify [where g = "\<lambda>(a, c, r, torn). (a, c + 1, r, torn)"]) (auto simp: calls_of_def)

lemma uncounted_success: "\<not> is_error e \<Longrightarrow> quiet_on calls_of (record_error e rejected)"
  by (simp add: record_error_def quiets)

lemma counted_record:
  assumes "is_error e"
  shows "triple_on calls_of (calls_open (k + (if rejected then 1 else 0))) (record_error e rejected) (\<lambda>_. calls_open k)"
proof -
  let ?k = "k + (if rejected then 1 else 0)"
  have copied: "triple_on calls_of (calls_open ?k) (copy_error e) (\<lambda>copied v. calls_open ?k v \<and> copied)"
    unfolding copy_error_def Let_def
  proof (rule triple_get, rule triple_after)
    fix s
    show "triple_on calls_of (\<lambda>v. calls_open ?k v \<and> v = calls_of s)
       (modify (\<lambda>t. t\<lparr>ad_torn := tl (ad_torn t), ad_error := case if ad_torn s = [] then None else hd (ad_torn s) of
          None \<Rightarrow> e | Some left \<Rightarrow> left\<rparr>)) (\<lambda>_ v. calls_open ?k v \<and> ad_torn s = [])"
      by (rule triple_modify [where g = "\<lambda>(a, c, r, torn). (a, c, r, tl torn)"]) (auto simp: calls_of_def)
  qed (rule triple_return, simp)
  have counted: "triple_on calls_of (\<lambda>v. calls_open ?k v \<and> copied)
      (if copied \<and> rejected then with_telemetry (ct_calls_rejected_update (\<lambda>n. n + 1)) else State_Monad.return ())
      (\<lambda>_. calls_open k)" for copied
  proof (rule triple_knowing(1))
    have "triple_on calls_of (calls_open (k + 1)) (with_telemetry (ct_calls_rejected_update (\<lambda>n. n + 1))) (\<lambda>_. calls_open k)"
      unfolding with_telemetry_def
      by (rule triple_modify [where g = "\<lambda>(a, c, r, torn). (a, c, r + 1, torn)"]) (auto simp: calls_of_def)
    then show "triple_on calls_of (calls_open ?k)
      (if copied \<and> rejected then with_telemetry (ct_calls_rejected_update (\<lambda>n. n + 1)) else State_Monad.return ())
      (\<lambda>_. calls_open k)" if copied using that by (cases rejected) (simp_all add: triple_return)
  qed
  show ?thesis
    unfolding record_error_def
    by (simp only: assms if_False not_not simp_thms) (rule triple_bind [OF copied], rule triple_after [OF counted], rule triple_return)
qed

lemmas counted_rejection = counted_record [where rejected = True, simplified]
lemmas counted_note = counted_record [where rejected = False, simplified]

lemma counted_stop: "triple_on calls_of (calls_open k) (stop_worker backend) (\<lambda>_. calls_open k)"
proof -
  have noted: "triple_on calls_of (calls_open k) (record_error e False) (\<lambda>_. calls_open k)" for e
    using counted_note [of e k] triple_quiet [OF uncounted_success] by (cases "is_error e") auto
  have closed: "triple_on calls_of (\<lambda>v. calls_open k v \<and> v = calls_of s)
      (do { e \<leftarrow> close_backend backend; record_error e False; finish_close e }) (\<lambda>_. calls_open k)" for s
    by (rule triple_pre [OF triple_bind [OF triple_quiet triple_after [OF noted triple_quiet]]]) (intro quiets | simp)+
  show ?thesis
    unfolding stop_worker_def
    by (rule triple_quietly [OF uncounted_steps(6)], rule triple_get, intro triple_if closed triple_return) simp
qed

lemma counted_call:
  assumes "quiet_on calls_of job"
  shows "triple_on calls_of (calls_open k) (call_adapter operation needs_ready job) (\<lambda>_. calls_open k)"
proof -
  have failed: "is_error (make_error Xs_not_ready a b c)" "is_error (make_error Xs_closed a b c)" "is_error (make_error Xs_poisoned a b c)"
    "is_error (exception_error a t)" for a b c t
    by (simp_all add: make_error_def is_error_def) (cases t; simp add: make_error_def)
  have rejected: "triple_on calls_of (\<lambda>v. calls_open (k + 1) v \<and> v = w) (do { status \<leftarrow> record_error e True; State_Monad.return (status, []) })
      (\<lambda>_. calls_open k)" if "is_error e" for e w
    by (rule triple_pre [OF triple_bind [OF counted_rejection [OF that] triple_return]]) simp_all
  have finished: "triple_on calls_of (calls_open (k + 1)) (case result of
         Inr (e, outputs) \<Rightarrow> do {
           status \<leftarrow> record_error e (is_error e);
           (if \<not> is_error e then with_telemetry (ct_calls_completed_update (\<lambda>n. n + 1)) else State_Monad.return ());
           State_Monad.return (status, outputs)
         }
       | Inl t \<Rightarrow> do {
           status \<leftarrow> record_error (exception_error operation t) True;
           s \<leftarrow> State_Monad.get;
           (if ad_mutation_active s then set_state Cc_poisoned else State_Monad.return ());
           modify (\<lambda>s. s\<lparr>ad_mutation_active := False\<rparr>);
           State_Monad.return (status, [])
         }) (\<lambda>_. calls_open k)" for result
  proof (cases result)
    case (Inl t)
    show ?thesis
      unfolding Inl sum.case by (rule triple_bind [OF counted_rejection [OF failed(4)]], rule triple_quiet, intro quiets)
  next
    case (Inr x)
    show ?thesis
    proof (cases "is_error (fst x)")
      case True
      then show ?thesis
        unfolding Inr sum.case prod.case_eq_if
        by simp (rule triple_bind [OF counted_rejection], assumption, rule triple_quiet, intro quiets)
    next
      case False
      then show ?thesis
        unfolding Inr sum.case prod.case_eq_if
        by simp (rule triple_bind [OF triple_quiet [OF uncounted_success]], assumption, rule triple_after [OF counted_completion triple_return])
    qed
  qed
  show ?thesis
    unfolding call_adapter_def
    apply (rule triple_after [OF counted_attempt], rule triple_get, rule triple_if)
     apply (rule rejected, simp add: failed)
    apply (rule triple_if)
     apply (rule triple_quietly, intro quiets, rule rejected, rule failed)
    apply (rule triple_if)
     apply (rule rejected, simp add: failed)
    apply (rule triple_quietly, intro quiets)
    apply (rule triple_bind [OF triple_quiet [OF assms]], rule triple_pre [OF finished], simp)
    done
qed


lemma counted_start:
  "triple_on calls_of (calls_open k) (start_worker backend config faults) (\<lambda>_. calls_open k)"
proof -
  have cleaned: "triple_on calls_of (calls_open k) (do {
       (if status \<noteq> Xs_success
        then do {
          call_adapter ''initialize_cleanup'' False (do { close_backend backend; set_state Cc_closed; succeed [] });
          stop_worker backend
        }
        else State_Monad.return ());
       State_Monad.return (Inr status) }) (\<lambda>_. calls_open k)" for status
  proof -
    have "triple_on calls_of (calls_open k) (do {
          call_adapter ''initialize_cleanup'' False (do { close_backend backend; set_state Cc_closed; succeed [] });
          stop_worker backend }) (\<lambda>_. calls_open k)"
      by (rule triple_after [OF counted_call counted_stop]) (intro quiets)
    then show ?thesis
      by (intro triple_after [where R = "calls_open k" and Q = "\<lambda>_. calls_open k" and g = "State_Monad.return (Inr status)"]
          triple_if triple_return) auto
  qed
  have called: "triple_on calls_of (calls_open k) (do {
       (status, _) \<leftarrow> call_adapter ''initialize'' False (initialize_job backend);
       (if status \<noteq> Xs_success
        then do {
          call_adapter ''initialize_cleanup'' False (do { close_backend backend; set_state Cc_closed; succeed [] });
          stop_worker backend
        }
        else State_Monad.return ());
       State_Monad.return (Inr status) }) (\<lambda>_. calls_open k)"
    by (rule triple_bind_pair [OF counted_call], intro quiets, rule cleaned)
  show ?thesis
    unfolding start_worker_def
    by (rule triple_quietly, intro quiets, rule triple_quietly, intro quiets, cases "faults Making_thread")
      (simp_all add: triple_return, rule triple_quietly, intro quiets, rule called)
qed

lemma counted_simple: "triple_on calls_of (calls_open k) (simple_call backend request) (\<lambda>_. calls_open k)"
  by (cases request) (simp_all, (intro counted_call quiets)+)

lemma counted_body:
  "triple_on calls_of (calls_open k) (initialize_body backend absolute faults config) (\<lambda>_. calls_open k)"
proof -
  have threw: "triple_on calls_of (calls_open k) (State_Monad.return (Inl t)) (\<lambda>_. calls_open k)" for t
    by (rule triple_return)
  have refused: "triple_on calls_of (calls_open k) (refuse_initialize faults e) (\<lambda>_. calls_open k)" if "is_error e" for e
  proof (cases "faults Making_rejection")
    case None
    have "triple_on calls_of (calls_open k) (reject_initialize e) (\<lambda>_. calls_open k)"
      unfolding reject_initialize_def by (rule triple_after [OF counted_attempt counted_rejection [OF that]])
    then show ?thesis unfolding refuse_initialize_def None option.case by (rule triple_bind) (rule triple_return)
  qed (simp add: refuse_initialize_def threw)
  have failed: "is_error (make_error Xs_closed a b c)" for a b c by (simp add: make_error_def is_error_def)
  have looked: "triple_on calls_of (calls_open k) (do { s \<leftarrow> State_Monad.get;
       if ad_attempted s then refuse_initialize faults (make_error Xs_closed a b d) else start_worker backend c faults })
      (\<lambda>_. calls_open k)" for c a b d
    by (rule triple_get, intro triple_if triple_pre [OF refused [OF failed]] triple_pre [OF counted_start]) auto
  show ?thesis
  proof (cases config)
    case (Some c)
    have checked: "triple_on calls_of (calls_open k) (case r of Inl t \<Rightarrow> State_Monad.return (Inl t)
       | Inr valid \<Rightarrow> if \<not> valid then refuse_initialize faults (invalid a b) else do { s \<leftarrow> State_Monad.get;
           if ad_attempted s then refuse_initialize faults (make_error Xs_closed d f g) else start_worker backend c faults })
      (\<lambda>_. calls_open k)" for r :: "thrown + bool" and a b d f g
      by (cases r) (auto intro!: threw refused looked invalid_error)
    show ?thesis
      unfolding initialize_body_def Some option.case by (intro triple_if refused checked invalid_error)
  qed (simp add: initialize_body_def refused invalid_error)
qed

lemma counted_initialize:
  assumes "calls_open k (calls_of s)"
  shows "calls_open (k - (if initialize_throws backend absolute faults config s then 1 else 0))
    (calls_of (snd (run_state (adapter_initialize backend absolute faults config) s)))"
proof -
  obtain result s1 where b: "run_state (initialize_body backend absolute faults config) s = (result, s1)" by (metis surj_pair)
  have open1: "calls_open k (calls_of s1)" by (rule tripleD [OF counted_body assms b])
  have run: "snd (run_state (adapter_initialize backend absolute faults config) s) = snd (run_state (case result of
       Inl t \<Rightarrow> do { set_state Cc_closed; record_error (exception_error ''initialize'' t) True }
     | Inr status \<Rightarrow> State_Monad.return status) s1)"
    by (simp add: adapter_initialize_def State_Monad.bind_def b)
  show ?thesis
  proof (cases result)
    case (Inr status)
    then show ?thesis using open1 unfolding run by (simp add: initialize_throws_def b State_Monad.return_def)
  next
    case (Inl t)
    have e: "is_error (exception_error ''initialize'' t)" by (cases t) (simp_all add: make_error_def is_error_def)
    have "triple_on calls_of (calls_open (k - 1 + 1)) (do { set_state Cc_closed; record_error (exception_error ''initialize'' t) True })
        (\<lambda>_. calls_open (k - 1))"
      by (rule triple_quietly [OF uncounted_steps(1) counted_rejection [OF e]])
    then show ?thesis
      using open1 unfolding run Inl by (simp add: triple_on_def initialize_throws_def b Inl)
  qed
qed

lemma counted_shutdown:
  "triple_on calls_of (calls_open k) (adapter_shutdown backend) (\<lambda>_. calls_open k)"
proof -
  have "triple_on calls_of (calls_open k) (do {
       (status, _) \<leftarrow> call_adapter ''shutdown'' False (do { e \<leftarrow> close_backend backend; finish_close e; refuse e });
       stop_worker backend;
       State_Monad.return status }) (\<lambda>_. calls_open k)"
    by (rule triple_bind_pair [OF counted_call], intro quiets, rule triple_after [OF counted_stop triple_return])
  then show ?thesis
    unfolding adapter_shutdown_def
    by (intro triple_get triple_if) (auto intro: triple_return elim: triple_pre)
qed

text \<open>
  C19: If the host stores every error, then between two calls the calls attempted are those completed and those rejected,
  but for the initializations that threw outside of a call: while the text of a rejection was made, while a library path
  was converted or while the worker thread was created. Each of these is counted as rejected and not as attempted, so
  that the counters are apart by their number.
\<close>

theorem compat_calls_balance:
  assumes "compat_reachable backend True k s"
  shows "ct_calls_attempted (ad_telemetry s) + of_nat k =
    ct_calls_completed (ad_telemetry s) + ct_calls_rejected (ad_telemetry s)"
proof -
  have step: "calls_open (- of_nat k) (calls_of (snd (run_state f s)))"
    if "\<And>k. triple_on calls_of (calls_open k) f (\<lambda>_. calls_open k)" "calls_open (- of_nat k) (calls_of s)" for f :: "'b adapting" and k s
    using that by (simp add: triple_on_def)
  define stored where "stored = True"
  have "compat_reachable backend stored k s" using assms by (simp add: stored_def)
  then have "stored \<longrightarrow> calls_open (- of_nat k) (calls_of s)"
  proof induction
    case constructed
    show ?case by (simp add: calls_of_def compat_adapter_new_def compat_telemetry_init_def)
  next
    case (initialized k s absolute faults config)
    have "- of_nat (Suc k) = - of_nat k - (1 :: u64)" by simp
    then show ?case
      using initialized counted_initialize [of "- of_nat k" s backend absolute faults config]
      by (cases "initialize_throws backend absolute faults config s") (simp_all del: of_nat_Suc)
  next
    case shut_down
    then show ?case by (blast intro: step [OF counted_shutdown])
  next
    case (multiplied k s scalar_at args)
    have "triple_on calls_of (calls_open k) (blas_sgemm backend scalar_at args) (\<lambda>_. calls_open k)" for k
      unfolding blas_sgemm_def Let_def by (rule triple_get, rule triple_pre [OF counted_call], intro quiets) simp
    then show ?case using multiplied by (blast intro: step)
  next
    case called
    then show ?case by (blast intro: step [OF counted_simple])
  next
    case allocated
    then show ?case unfolding malloc_device_def by (intro impI step [OF counted_call] quiets) simp
  next
    case freed
    then show ?case unfolding free_device_def by (intro impI step [OF counted_call] quiets) simp
  next
    case copied
    then show ?case unfolding memcpy_device_def by (intro impI step [OF counted_call] quiets) simp
  next
    case (enqueue_fails k s)
    then show ?case by (simp add: calls_of_def)
  qed simp
  then show ?thesis by (simp add: stored_def calls_of_def algebra_simps)
qed

text \<open>
  An initialization that throws marks the adapter closed whatever it was doing: one that is running keeps its backend and
  its queue, and refuses data calls from then on.
\<close>

lemma thrown_initialize_closes:
  assumes "faults Making_rejection = Some t"
  shows "let s' = snd (run_state (adapter_initialize backend absolute faults None) s)
    in ct_state (ad_telemetry s') = Cc_closed \<and> ad_backend s' = ad_backend s \<and> ad_accepting s' = ad_accepting s \<and>
       ad_history s' = ad_history s"
  using assms
  by (cases t) (simp_all add: adapter_initialize_def initialize_body_def refuse_initialize_def record_error_def copy_error_def
      set_state_def with_telemetry_def State_Monad.bind_def State_Monad.return_def State_Monad.get_def State_Monad.set_def
      modify_def Let_def make_error_def is_error_def)

section \<open>What the entry points promise\<close>

text \<open>
  C20: A data call of an adapter that is not ready is refused with a status that tells why, and does nothing: no job runs, the
  backend is not asked, and registry, handles and lifecycle stay as they were.
\<close>

theorem compat_not_ready_refuses:
  assumes "\<not> ad_accepting s \<or> ct_state (ad_telemetry s) \<noteq> Cc_ready"
    and "run_state (call_adapter operation True job) s = ((status, outputs), s')"
  shows "status = (if \<not> ad_accepting s then if ct_state (ad_telemetry s) = Cc_uninitialized then Xs_not_ready else Xs_closed
      else if ad_fail_next_enqueue s then Xs_host_out_of_memory
      else if ct_state (ad_telemetry s) = Cc_poisoned then Xs_poisoned else Xs_closed) \<and> outputs = [] \<and>
    ad_history s' = ad_history s \<and> ad_allocations s' = ad_allocations s \<and> ad_handles s' = ad_handles s \<and>
    ct_state (ad_telemetry s') = ct_state (ad_telemetry s)"
  using assms
  by (auto simp: call_adapter_def record_error_def copy_error_def Let_def with_telemetry_def modify_def State_Monad.bind_def State_Monad.get_def
      State_Monad.set_def State_Monad.return_def make_error_def is_error_def no_sdk_error_def split: if_splits)

lemma accepted_ready:
  assumes "between_calls v" "vw_accepting v" "vw_state v = Cc_ready"
  shows "data_ready v"
  using assms by (auto simp: between_calls_def stopped_def in_job_def data_ready_def)

text \<open>A call that succeeds has run its job, which ended without an error, from a state that is ready.\<close>

lemma succeeded_call:
  assumes "between_calls (view_of s)" "run_state (call_adapter operation True job) s = ((Xs_success, outputs), s')"
    and job: "triple (\<lambda>v. v = view_of s \<and> data_ready (view_of s)) job J"
    and post: "\<And>e os v. J (Inr (e, os)) v \<Longrightarrow> \<not> is_error e \<Longrightarrow> S os v"
  shows "S outputs (view_of s')"
proof -
  have "triple (\<lambda>v. v = view_of s) (call_adapter operation True job) (\<lambda>(status, os) v. status = Xs_success \<longrightarrow> S os v)"
  proof (rule triple_call_with [OF _ job])
    show "v = view_of s \<and> data_ready (view_of s)" if "v = view_of s" "vw_accepting v" "True \<longrightarrow> vw_state v = Cc_ready" for v
      using accepted_ready [of v] assms(1) that by blast
    show "(if is_error e then se_status e else Xs_success) = Xs_success \<longrightarrow> S os v" if "J (Inr (e, os)) v" for e os v
      using post [OF that] by (simp add: is_error_def)
  qed simp_all
  then have "case (Xs_success, outputs) of (status, os) \<Rightarrow> status = Xs_success \<longrightarrow> S os (view_of s')"
    by (rule tripleD [OF _ _ assms(2), THEN rev_iffD1]) (simp_all add: split_beta)
  then show ?thesis by simp
qed

text \<open>
  What a successful release does to the registry: the entry at the pointer dies, and no range that meets it is found any
  more.
\<close>

definition release_outcome :: "u64 \<Rightarrow> compat_view \<Rightarrow> job_result \<Rightarrow> compat_view \<Rightarrow> bool" where
  "release_outcome p v result b \<longleftrightarrow> (case result of Inl t \<Rightarrow> True | Inr (e, outputs) \<Rightarrow> is_error e \<or>
     (\<exists>x. lookup_live (vw_allocations v) p 1 = Some x \<and> ca_address (en_allocation x) = p \<and>
        vw_allocations b = set_live p False (vw_allocations v)))"

lemma view_traffic:
  "view_of (s\<lparr>ad_allocations := x\<rparr>) = (view_of s)\<lparr>vw_allocations := x\<rparr>"
  by (simp add: view_of_def)

lemma quiet_allocations:
  "triple (\<lambda>b. vw_allocations b = xs) (with_telemetry f) (\<lambda>_ b. vw_allocations b = xs)"
  by (simp add: triple_on_def with_telemetry_def run_modify)

lemma triple_free_outcome:
  assumes "p \<noteq> 0"
  shows "triple (\<lambda>b. b = v) (free_job backend p) (release_outcome p v)"
proof -
  let ?P = "\<lambda>b. vw_allocations b = vw_allocations v"
  have refused: "triple R (refuse e) (release_outcome p v)" if "is_error e" for e R
    unfolding refuse_def by (rule triple_return) (simp add: release_outcome_def that)
  have released: "triple ?P (case result of
        Inl t \<Rightarrow> State_Monad.return (Inl t)
      | Inr (error, _) \<Rightarrow>
          if is_error error then refuse error
          else do {
            modify (\<lambda>s. s\<lparr>ad_allocations := set_live p False (ad_allocations s)\<rparr>);
            with_telemetry f;
            succeed []
          }) (release_outcome p v)"
    if x: "lookup_live (vw_allocations v) p 1 = Some x" "ca_address (en_allocation x) = p"
    for f x and result :: "thrown + sdk_error \<times> compat_allocation"
  proof (cases result)
    case (Inl t)
    then show ?thesis by (auto intro: triple_return simp: release_outcome_def)
  next
    case (Inr y)
    have marked: "triple ?P (modify (\<lambda>s. s\<lparr>ad_allocations := set_live p False (ad_allocations s)\<rparr>))
        (\<lambda>_ b. vw_allocations b = set_live p False (vw_allocations v))"
      by (rule triple_modify [where g = "\<lambda>b. b\<lparr>vw_allocations := set_live p False (vw_allocations b)\<rparr>"])
        (simp_all add: view_of_def)
    have done_: "triple (\<lambda>b. vw_allocations b = set_live p False (vw_allocations v)) (succeed []) (release_outcome p v)"
      unfolding succeed_def by (rule triple_return) (use x in \<open>simp add: release_outcome_def\<close>)
    show ?thesis
      unfolding Inr sum.case prod.case_eq_if
      by (intro triple_if refused triple_after [OF marked] triple_after [OF quiet_allocations] done_)
  qed
  have asked: "triple (\<lambda>b. b = v) (perform backend c) (\<lambda>_. ?P)" for c by (rule perform_exact) (simp add: asked_def)
  show ?thesis
    unfolding free_job_def using assms
    apply (simp add: refused)
    apply (rule job_get)
    apply (rule triple_found)
     apply (rule refused, simp)
    apply (rule triple_if)
     apply (rule refused, simp)
    apply simp
    apply (rule triple_bind [OF asked])
    apply (rule released)
    apply auto
    done
qed

lemma dead_range:
  assumes "registry_ok xs" "(p, e) \<in> set xs" "n \<noteq> 0" "unat p \<le> unat q" "unat q < unat p + unat (ca_bytes (en_allocation e))"
  shows "lookup_live (set_live p False xs) q n = None"
proof (rule ccontr)
  assume "lookup_live (set_live p False xs) q n \<noteq> None"
  then obtain f where "lookup_live (set_live p False xs) q n = Some f" by auto
  then obtain a where f: "(a, f) \<in> set (set_live p False xs)" "holds_range q n a f"
    using lookup_live_exact [OF registry_set_live [OF assms(1)] assms(3)] by blast
  then have old: "(a, f) \<in> set xs" "a \<noteq> p" using set_dead_live by (auto simp: holds_range_def)
  have room: "unat (ca_bytes (en_allocation g)) \<le> unat (en_reserved_bytes g)" if "(b, g) \<in> set xs" for b g
    using registry_entry [OF assms(1) that] by (simp add: entry_ok_def word_le_nat_alt)
  have "unat n > 0" using assms(3) by (simp add: unat_gt_0)
  moreover have "unat a \<le> unat q" "unat q + unat n \<le> unat a + unat (ca_bytes (en_allocation f))"
    using f(2) by (simp_all add: holds_range_def)
  moreover have "a < p \<or> p < a" using old(2) by auto
  ultimately show False
    using registry_apart [OF assms(1) old(1) assms(2)] registry_apart [OF assms(1) assms(2) old(1)] room [OF old(1)] room [OF assms(2)] assms(4,5)
    by linarith
qed

text \<open>
  C16: A release that succeeds was given the address of a live allocation. It ends this entry and no other, and from then on no
  lookup of a range that begins in the allocation finds anything: a second release, a copy or a product that names it is
  refused.
\<close>

theorem compat_free_exact:
  assumes "fresh_ids backend" "compat_reachable backend stored k s" "p \<noteq> 0"
    and "run_state (free_device backend p) s = ((Xs_success, outputs), s')"
  shows "\<exists>e. lookup_live (ad_allocations s) p 1 = Some e \<and> ca_address (en_allocation e) = p \<and>
    ad_allocations s' = set_live p False (ad_allocations s) \<and>
    (\<forall>q n. n \<noteq> 0 \<and> unat p \<le> unat q \<and> unat q < unat p + unat (ca_bytes (en_allocation e)) \<longrightarrow>
       lookup_live (ad_allocations s') q n = None)"
proof -
  have "\<exists>e. lookup_live (ad_allocations s) p 1 = Some e \<and> ca_address (en_allocation e) = p \<and>
     vw_allocations (view_of s') = set_live p False (ad_allocations s)"
    by (rule succeeded_call [OF compat_invariant [OF assms(1,2)] assms(4) [unfolded free_device_def]
          triple_pre [OF triple_free_outcome [OF assms(3)]]]) (auto simp: release_outcome_def)
  then obtain e where e: "lookup_live (ad_allocations s) p 1 = Some e" "ca_address (en_allocation e) = p"
    "ad_allocations s' = set_live p False (ad_allocations s)" unfolding view_simps by blast
  have reg: "registry_ok (ad_allocations s)" using between_core [OF compat_invariant [OF assms(1,2)]] by (simp add: core_ok_def)
  have "(p, e) \<in> set (ad_allocations s)" using lookup_live_Some(1) [OF reg _ e(1)] e(2) by simp
  then have "lookup_live (ad_allocations s') q n = None"
    if "n \<noteq> 0 \<and> unat p \<le> unat q \<and> unat q < unat p + unat (ca_bytes (en_allocation e))" for q n
    unfolding e(3) using dead_range [OF reg] that by blast
  then show ?thesis using e by blast
qed


text \<open>
  What a successful allocation does to the registry: a live entry of the size asked for, on a range that meets no range the
  registry has ever held.
\<close>

definition allocation_outcome :: "u64 \<Rightarrow> compat_view \<Rightarrow> job_result \<Rightarrow> compat_view \<Rightarrow> bool" where
  "allocation_outcome n v result b \<longleftrightarrow> (case result of Inl t \<Rightarrow> True | Inr (e, outputs) \<Rightarrow> is_error e \<or>
     (\<exists>a r. outputs = [ca_address a] \<and> n \<noteq> 0 \<and> ca_bytes a = n \<and> n \<le> r \<and> ca_address a \<noteq> 0 \<and> \<not> r > max_u64 - ca_address a \<and>
        \<not> touches_managed (vw_allocations v) (ca_address a) r \<and>
        vw_allocations b = emplace (ca_address a) \<lparr>en_allocation = a, en_reserved_bytes = r, en_live = True\<rparr> (vw_allocations v)))"

lemma triple_malloc_outcome:
  "triple (\<lambda>b. b = v \<and> data_ready v) (malloc_job backend output_pointer n failure) (allocation_outcome n v)"
proof -
  let ?P = "\<lambda>b. vw_allocations b = vw_allocations v \<and> valid_config (vw_config b)"
  have refused: "triple R (refuse e) (allocation_outcome n v)" if "is_error e" for e R
    unfolding refuse_def by (rule triple_return) (simp add: allocation_outcome_def that)
  have corrupt: "is_error (make_error Xs_corruption a b c)" "is_error (exception_error a t)" for a b c t
    by (simp_all add: make_error_def is_error_def) (cases t; simp add: make_error_def)
  have returned: "triple R (give_back backend i rest) (allocation_outcome n v)"
    if "\<And>b. triple (\<lambda>_. True) rest (allocation_outcome n v)" for i rest R
  proof -
    have "triple (\<lambda>_. True) (case x of Inl t \<Rightarrow> State_Monad.return (Inl t) | Inr y \<Rightarrow> rest) (allocation_outcome n v)"
      for x :: "thrown + sdk_error \<times> compat_allocation"
      using that by (cases x) (auto intro: triple_return simp: allocation_outcome_def)
    then show ?thesis unfolding give_back_def by (intro triple_bind [where R = "\<lambda>_ _. True"]) (simp add: triple_on_def)
  qed
  have poisoned: "triple (\<lambda>_. True) (do { set_state Cc_poisoned; refuse (make_error Xs_corruption a b c) }) (allocation_outcome n v)" for a b c
    by (rule triple_after [where R = "\<lambda>_. True"]) (simp add: triple_on_def, rule refused, rule corrupt)
  have registered: "triple (\<lambda>b. ?P b) (register_allocation backend n a r failure) (allocation_outcome n v)"
    if "n \<noteq> 0" "n \<le> r" "\<not> (ca_address a = 0 \<or> ca_bytes a \<noteq> n \<or> r > max_u64 - ca_address a \<or>
      touches_managed (vw_allocations v) (ca_address a) r)" for a r
  proof (cases failure)
    case (Some t)
    then show ?thesis by (simp add: register_allocation_def) (rule returned, rule refused, rule corrupt)
  next
    case None
    let ?xs = "emplace (ca_address a) \<lparr>en_allocation = a, en_reserved_bytes = r, en_live = True\<rparr> (vw_allocations v)"
    have placed: "triple ?P (modify (\<lambda>s. s\<lparr>ad_allocations := emplace (ca_address a)
        \<lparr>en_allocation = a, en_reserved_bytes = r, en_live = True\<rparr> (ad_allocations s)\<rparr>)) (\<lambda>_ b. vw_allocations b = ?xs)"
      by (rule triple_modify [where g = "\<lambda>b. b\<lparr>vw_allocations := emplace (ca_address a)
        \<lparr>en_allocation = a, en_reserved_bytes = r, en_live = True\<rparr> (vw_allocations b)\<rparr>"]) (simp_all add: view_of_def)
    have finished: "triple (\<lambda>b. vw_allocations b = ?xs) (succeed [ca_address a]) (allocation_outcome n v)"
      unfolding succeed_def by (rule triple_return) (use that in \<open>auto simp: allocation_outcome_def\<close>)
    show ?thesis
      unfolding register_allocation_def None option.case
      by (rule triple_after [OF placed], rule triple_after [OF quiet_allocations], rule finished)
  qed
  have admitted: "triple ?P (admit_allocation backend n a failure) (allocation_outcome n v)" if n: "n \<noteq> 0" for a
    unfolding admit_allocation_def
    apply (rule job_get)
    subgoal premises v for s
    proof -
      have chunk: "(if observed = 0 then sc_chunk_size_bytes (cc_session (ad_config s)) else observed) \<noteq> 0" for observed
        using v by (auto simp: valid_config_def Let_def)
      have start: "triple (\<lambda>b. b = view_of s) f (allocation_outcome n v)" if "triple ?P f (allocation_outcome n v)" for f
        by (rule triple_pre [OF that]) (use v in simp)
      show ?thesis
        unfolding Let_def
        by (intro triple_if returned refused corrupt invalid_error poisoned start [OF registered] n rounded_up chunk)
          (use v in \<open>simp_all\<close>)
    qed
    done
  have asked: "triple (\<lambda>b. b = v \<and> data_ready v) (perform backend c) (\<lambda>_. ?P)" for c
  proof (rule triple_knowing(1))
    assume "data_ready v"
    then show "triple (\<lambda>b. b = v) (perform backend c) (\<lambda>_. ?P)"
      by (intro perform_exact) (simp add: asked_def data_ready_def running_def)
  qed
  have answered: "triple ?P (case x of Inl t \<Rightarrow> State_Monad.return (Inl t)
       | Inr (e, a) \<Rightarrow> if is_error e then refuse e else admit_allocation backend n a failure) (allocation_outcome n v)"
    if "n \<noteq> 0" for x
  proof (cases x)
    case (Inl t)
    then show ?thesis by (auto intro: triple_return simp: allocation_outcome_def)
  next
    case (Inr y)
    then show ?thesis by (auto intro!: triple_if refused admitted that split: prod.split)
  qed
  show ?thesis
    unfolding malloc_job_def
    apply (rule job_get, rule triple_if)
     apply (rule refused, simp)
    apply (rule triple_bind [OF triple_pre [OF asked] answered])
     apply auto
    done
qed

text \<open>
  C15: An allocation that succeeds returns one address. The registry gains one entry there, of the size asked for, that a lookup
  of its whole range finds, and its reserved range meets no range that the registry has ever held, released ones included.
\<close>

theorem compat_malloc_exact:
  assumes "fresh_ids backend" "compat_reachable backend stored k s"
    and "run_state (malloc_device backend registry_failure output_pointer n) s = ((Xs_success, outputs), s')"
  shows "\<exists>a e. outputs = [a] \<and> ad_allocations s' = insort_key fst (a, e) (ad_allocations s) \<and>
    ca_bytes (en_allocation e) = n \<and> n \<le> en_reserved_bytes e \<and> lookup_live (ad_allocations s') a n = Some e \<and>
    (\<forall>(b, f) \<in> set (ad_allocations s). unat a + unat (en_reserved_bytes e) \<le> unat b \<or>
       unat b + unat (en_reserved_bytes f) \<le> unat a)"
proof -
  have reg: "registry_ok (ad_allocations s)" using between_core [OF compat_invariant [OF assms(1,2)]] by (simp add: core_ok_def)
  have "allocation_outcome n (view_of s) (Inr (no_sdk_error, outputs)) (view_of s')"
    by (rule succeeded_call [OF compat_invariant [OF assms(1,2)] assms(3) [unfolded malloc_device_def] triple_malloc_outcome])
      (auto simp: allocation_outcome_def is_error_def no_sdk_error_def)
  then obtain a r where a: "outputs = [ca_address a]" "n \<noteq> 0" "ca_bytes a = n" "n \<le> r" "ca_address a \<noteq> 0" "\<not> r > max_u64 - ca_address a"
    "\<not> touches_managed (ad_allocations s) (ca_address a) r"
    "ad_allocations s' = emplace (ca_address a) \<lparr>en_allocation = a, en_reserved_bytes = r, en_live = True\<rparr> (ad_allocations s)"
    by (auto simp: allocation_outcome_def is_error_def no_sdk_error_def)
  let ?e = "\<lparr>en_allocation = a, en_reserved_bytes = r, en_live = True\<rparr>"
  have fits: "unat (ca_address a) + unat r < 2 ^ 64"
    using a(6) unat_u64_le [of "ca_address a"] by (simp add: word_less_nat_alt unat_max_u64_minus)
  then have ok: "entry_ok (ca_address a) ?e" using a(2-5) by (simp add: entry_ok_def)
  have touch: "\<not> touches_managed (ad_allocations s) (ca_address a) (en_reserved_bytes ?e)" using a(7) by simp
  note placed = registry_emplace [OF reg touch ok] and new = emplace_new [OF reg touch]
  have found: "lookup_live (ad_allocations s') (ca_address a) n = Some ?e"
    unfolding a(8) lookup_live_exact [OF placed(1) a(2)] using placed(2) a(3) by (auto simp: holds_range_def)
  have "unat n > 0" using a(2) by (simp add: unat_gt_0)
  then have "1 \<le> r" using a(4) by (simp add: word_le_nat_alt)
  then have "max 1 r = r" by (simp add: max_def)
  then have "\<forall>(b, f) \<in> set (ad_allocations s). unat (ca_address a) + unat r \<le> unat b \<or> unat b + unat (en_reserved_bytes f) \<le> unat (ca_address a)"
    using a(7) fits unfolding touches_managed_exact [OF reg] by auto
  then show ?thesis using a(1,3,4) found new(1) unfolding a(8) by (intro exI [of _ "ca_address a"] exI [of _ ?e]) simp
qed

section \<open>An example\<close>

text \<open>A backend with room for one allocation.\<close>

definition plain_reply :: "sdk_error \<Rightarrow> u64 \<Rightarrow> backend_reply" where
  "plain_reply e n = \<lparr>cb_thrown = None, cb_error = e, cb_poison = False,
     cb_allocation = \<lparr>ca_id = AllocationId 1, ca_address = 0x10000000, ca_bytes = n\<rparr>, cb_snapshots = [], cb_present = True\<rparr>"

definition one_slot_backend :: backend where
  "one_slot_backend h c = (case c of
     B_allocate n \<Rightarrow> plain_reply (if served h (AllocationId 1) = None then no_sdk_error
       else make_error Xs_device_out_of_memory ''backend'' ''allocate'' ''no room'') n
   | _ \<Rightarrow> plain_reply no_sdk_error 0)"

lemma one_slot_fresh: "fresh_ids one_slot_backend"
  by (simp add: fresh_ids_def one_slot_backend_def plain_reply_def call_fails_def is_error_def make_error_def)

definition slot_ready :: compat_adapter where
  "slot_ready = snd (run_state (adapter_initialize one_slot_backend (\<lambda>_. True) (\<lambda>_. None) (Some compat_config_init)) compat_adapter_new)"

definition slot_allocated :: compat_adapter where
  "slot_allocated = snd (run_state (malloc_device one_slot_backend None 4096 100) slot_ready)"

definition slot_freed :: compat_adapter where
  "slot_freed = snd (run_state (free_device one_slot_backend 0x10000000) slot_allocated)"

lemma run_adapter_steps:
  "run_state (with_telemetry g) s = ((), s\<lparr>ad_telemetry := g (ad_telemetry s)\<rparr>)"
  "run_state (ask backend c) s = (backend (ad_history s) c,
     fold take_snapshot (cb_snapshots (backend (ad_history s) c)) (s\<lparr>ad_history := (c, backend (ad_history s) c) # ad_history s\<rparr>))"
  "run_state (State_Monad.bind p h) s = (case run_state p s of (x, t) \<Rightarrow> run_state (h x) t)"
  by (simp_all add: ask_def with_telemetry_def modify_def State_Monad.bind_def State_Monad.get_def State_Monad.set_def
      State_Monad.return_def Let_def)

lemmas run_adapter = run_basics run_adapter_steps

lemma slot_config: "valid_config compat_config_init" "terminated (cc_cublas_library compat_config_init)"
  "terminated (cc_cublas_lt_library compat_config_init)" "path_of (cc_cublas_library compat_config_init) = []"
  "path_of (cc_cublas_lt_library compat_config_init) = []" "cc_struct_size compat_config_init = 2208"
  by code_simp+

lemma slot_body:
  "\<not> initialize_throws one_slot_backend (\<lambda>_. True) (\<lambda>_. None) (Some compat_config_init) compat_adapter_new"
  by (simp add: initialize_throws_def initialize_body_def library_paths_valid_def start_worker_def call_adapter_def
      initialize_job_def set_state_def refuse_def record_error_def is_error_def no_sdk_error_def slot_config
      compat_config_size_def compat_adapter_new_def compat_telemetry_init_def one_slot_backend_def plain_reply_def
      run_adapter backend_fields_init_def Let_def cong: bind_weak)

lemma slot_reachable:
  "compat_reachable one_slot_backend True 0 slot_ready"
  "compat_reachable one_slot_backend True 0 slot_allocated"
  "compat_reachable one_slot_backend True 0 slot_freed"
proof -
  show r: "compat_reachable one_slot_backend True 0 slot_ready"
    unfolding slot_ready_def
    using compat_reachable.initialized [OF compat_reachable.constructed, of one_slot_backend True "\<lambda>_. True" "\<lambda>_. None"
        "Some compat_config_init"] slot_body by simp
  then show a: "compat_reachable one_slot_backend True 0 slot_allocated"
    unfolding slot_allocated_def by (intro compat_reachable.intros)
  show "compat_reachable one_slot_backend True 0 slot_freed"
    unfolding slot_freed_def by (rule compat_reachable.freed [OF a])
qed

lemma slot_ready_exact:
  "ct_state (ad_telemetry slot_ready) = Cc_ready" "ad_accepting slot_ready" "\<not> ad_fail_next_enqueue slot_ready"
  "ad_allocations slot_ready = []" "ad_handles slot_ready = []" "ad_config slot_ready = compat_config_init"
  "map fst (ad_history slot_ready) = [B_initialize compat_config_init, B_factory]"
  "bf_effective_chunk_bytes (ct_backend (ad_telemetry slot_ready)) = 0"
  by (simp_all add: slot_ready_def adapter_initialize_def initialize_body_def library_paths_valid_def start_worker_def call_adapter_def initialize_job_def set_state_def
      refuse_def record_error_def is_error_def no_sdk_error_def slot_config compat_config_size_def compat_adapter_new_def
      compat_telemetry_init_def one_slot_backend_def plain_reply_def run_adapter backend_fields_init_def Let_def cong: bind_weak)


lemma slot_ready_history:
  "ad_history slot_ready = [(B_initialize compat_config_init, plain_reply no_sdk_error 0), (B_factory, plain_reply no_sdk_error 0)]"
  by (simp add: slot_ready_def adapter_initialize_def initialize_body_def library_paths_valid_def start_worker_def call_adapter_def initialize_job_def set_state_def
      refuse_def record_error_def is_error_def no_sdk_error_def slot_config compat_config_size_def compat_adapter_new_def
      compat_telemetry_init_def one_slot_backend_def plain_reply_def run_adapter backend_fields_init_def Let_def cong: bind_weak)

lemma slot_chunk: "sc_chunk_size_bytes (cc_session compat_config_init) = 0x4000000"
  by code_simp

lemma slot_malloc:
  "fst (run_state (malloc_device one_slot_backend None 4096 100) slot_ready) = (Xs_success, [0x10000000])"
  "ct_state (ad_telemetry slot_allocated) = Cc_ready" "ad_accepting slot_allocated" "\<not> ad_fail_next_enqueue slot_allocated"
  "ad_allocations slot_allocated = [(0x10000000, \<lparr>en_allocation = \<lparr>ca_id = AllocationId 1, ca_address = 0x10000000, ca_bytes = 100\<rparr>,
     en_reserved_bytes = 0x4000000, en_live = True\<rparr>)]"
  "ad_history slot_allocated = (B_allocate 100, plain_reply no_sdk_error 100) # ad_history slot_ready"
  by (simp_all add: slot_allocated_def malloc_device_def malloc_job_def call_adapter_def admit_allocation_def register_allocation_def
      perform_def outcome_of_def succeed_def record_error_def is_error_def no_sdk_error_def slot_ready_exact slot_ready_history
      is_host_def touches_managed_def one_slot_backend_def plain_reply_def run_adapter Let_def slot_chunk max_u64_def emplace_def
      cong: bind_weak)

lemma slot_free:
  "fst (run_state (free_device one_slot_backend 0x10000000) slot_allocated) = (Xs_success, [])"
  by (simp_all add: free_device_def free_job_def call_adapter_def
      perform_def outcome_of_def succeed_def record_error_def is_error_def no_sdk_error_def slot_malloc
      lookup_live_def upper_bound_before_def one_slot_backend_def plain_reply_def run_adapter Let_def
      cong: bind_weak)

section \<open>Witnesses\<close>

theorem compat_backend_use_allowed_witness:
  "allowed_history (ad_history slot_allocated) \<and> served (ad_history slot_allocated) (AllocationId 1) = Some 100"
  using compat_backend_use_allowed [OF one_slot_fresh slot_reachable(2)]
  by (simp add: slot_malloc slot_ready_history call_fails_def plain_reply_def is_error_def no_sdk_error_def)

theorem compat_registry_books_witness:
  "registry_ok (ad_allocations slot_allocated) \<and> tallied (view_of slot_allocated) \<and>
   backed (ad_allocations slot_allocated) (served (ad_history slot_allocated)) \<and> live_bytes (ad_allocations slot_allocated) = 100"
  using compat_registry_books [OF one_slot_fresh slot_reachable(2)]
  by (simp add: slot_malloc live_bytes_def live_entries_def)

theorem compat_lookup_exact_witness:
  "\<exists>e. lookup_live (ad_allocations slot_allocated) 0x10000010 16 = Some e"
  using compat_lookup_exact [OF one_slot_fresh slot_reachable(2), of 16 "0x10000010"] by (simp add: slot_malloc)

definition no_thread :: "initialize_site \<Rightarrow> thrown option" where
  "no_thread site = (if site = Making_thread then Some Unknown_exception else None)"

definition unthreaded_adapter :: compat_adapter where
  "unthreaded_adapter = snd (run_state (adapter_initialize one_slot_backend (\<lambda>_. True) no_thread
     (Some compat_config_init)) compat_adapter_new)"

lemma unthreaded_counts:
  "initialize_throws one_slot_backend (\<lambda>_. True) no_thread (Some compat_config_init) compat_adapter_new"
  "ct_calls_rejected (ad_telemetry unthreaded_adapter) = 1"
  by (simp_all add: initialize_throws_def unthreaded_adapter_def adapter_initialize_def initialize_body_def
      library_paths_valid_def start_worker_def set_state_def no_thread_def copy_error_def
      record_error_def is_error_def no_sdk_error_def make_error_def slot_config compat_config_size_def compat_adapter_new_def
      compat_telemetry_init_def run_adapter Let_def cong: bind_weak)

theorem compat_calls_balance_witness:
  "ct_calls_attempted (ad_telemetry unthreaded_adapter) + 1 =
   ct_calls_completed (ad_telemetry unthreaded_adapter) + ct_calls_rejected (ad_telemetry unthreaded_adapter) \<and>
   ct_calls_rejected (ad_telemetry unthreaded_adapter) = 1"
proof -
  have "compat_reachable one_slot_backend True 1 unthreaded_adapter"
    using compat_reachable.initialized [OF compat_reachable.constructed, of one_slot_backend True "\<lambda>_. True" no_thread
        "Some compat_config_init"] unthreaded_counts(1) by (simp add: unthreaded_adapter_def)
  from compat_calls_balance [OF this] show ?thesis using unthreaded_counts(2) by simp
qed

theorem compat_not_ready_refuses_witness:
  "fst (run_state (call_adapter ''cudaFree'' True (free_job one_slot_backend 0x10000000)) compat_adapter_new) = (Xs_not_ready, [])"
  using compat_not_ready_refuses [of compat_adapter_new "''cudaFree''" "free_job one_slot_backend 0x10000000"]
  by (cases "run_state (call_adapter ''cudaFree'' True (free_job one_slot_backend 0x10000000)) compat_adapter_new")
    (auto simp: compat_adapter_new_def compat_telemetry_init_def)

theorem compat_free_exact_witness:
  "\<exists>e. lookup_live (ad_allocations slot_allocated) 0x10000000 1 = Some e \<and>
     ad_allocations slot_freed = set_live 0x10000000 False (ad_allocations slot_allocated) \<and>
     lookup_live (ad_allocations slot_freed) 0x10000000 1 = None"
proof -
  have "run_state (free_device one_slot_backend 0x10000000) slot_allocated = ((Xs_success, []), slot_freed)"
    using slot_free by (simp add: slot_freed_def prod_eq_iff)
  from compat_free_exact [OF one_slot_fresh slot_reachable(2) _ this]
  obtain e where e: "lookup_live (ad_allocations slot_allocated) 0x10000000 1 = Some e"
    "ad_allocations slot_freed = set_live 0x10000000 False (ad_allocations slot_allocated)"
    "\<And>q n. n \<noteq> 0 \<Longrightarrow> unat (0x10000000 :: u64) \<le> unat q \<Longrightarrow> unat q < unat (0x10000000 :: u64) + unat (ca_bytes (en_allocation e)) \<Longrightarrow>
       lookup_live (ad_allocations slot_freed) q n = None" by auto
  have "ca_bytes (en_allocation e) = 100"
    using e(1) by (auto simp: slot_malloc lookup_live_def upper_bound_before_def)
  then show ?thesis using e(1,2) e(3) [of 1 "0x10000000"] by simp
qed

theorem compat_malloc_exact_witness:
  "\<exists>e. lookup_live (ad_allocations slot_allocated) 0x10000000 100 = Some e \<and> ca_bytes (en_allocation e) = 100"
proof -
  have "run_state (malloc_device one_slot_backend None 4096 100) slot_ready = ((Xs_success, [0x10000000]), slot_allocated)"
    using slot_malloc(1) by (simp add: slot_allocated_def prod_eq_iff)
  from compat_malloc_exact [OF one_slot_fresh slot_reachable(1) this] show ?thesis by auto
qed

end
