(* ===== verification/Spec2Isabelle.thy ===== *)
theory Spec2Isabelle
  imports Access_Plan_Correct Cache_Policy Residency_Budget Cache_Metrics Cache_Workload
    Worker_Protocols Cache_Scenario Sha256 Base_Text Gemm_Plan_Correct Gemm_Summary_Correct
    Host_Store_Correct Torch_Allocator_Correct Compat_Correct
begin

text \<open>
  xVRAM lets programs use more device memory than a GPU has. Allocations are cut into chunks; a chunk
  lives in host memory, in a frame of device memory, or in both, and a residency manager moves chunks
  between the two so that the operation about to run finds its chunks on the device. Around the manager
  stand an out-of-core matrix product, benchmarks that run in worker processes, and adapters for other
  programs. This library models the parts that decide: what is accessed, what is moved, evicted, sent,
  counted and verified.

  \<^bold>\<open>The parts and how they interact.\<close> A transaction declares byte ranges. The access planner
  (src/src/residency/core.cpp) turns them into a plan per chunk; the state machine of the same file says
  which states a chunk may pass through; a victim policy (policy.cpp) picks the chunks that give up their
  frames; the budget (budget.cpp) says how many frames there may be; the counters (metrics.cpp) must
  reconcile afterwards. The experiments drive this with generated traces (scenario.cpp) whose data and
  verification tokens come from workload.cpp, and in a worker process that reports to its parent through a
  framed byte stream (worker_protocol.cpp in five programs). Files are identified by their SHA-256
  (src/src/platform/sha256.cpp), sizes are read and reports are written by src/src/base. The matrix
  product (src/src/gemm/planner.cpp) cuts a problem into tiles whose working sets are transactions of
  the manager. A chunk that is not on the device lives in the host backing store
  (src/src/residency/compression.cpp), raw or as LZ4 blocks, under a content token and within a budget.
  PyTorch can be given device memory directly by an allocator plugin (src/src/torch). Programs written for the CUDA
  runtime and cuBLAS reach the manager through an adapter (src/src/cuda_compat/adapter.cpp) that keeps their addresses
  and handles and passes allocations, copies and products on to a backend.

  \<^bold>\<open>The theories.\<close>
    \<^item> \<open>Xv_Prelude\<close>: the words of the program, checked addition and multiplication, and the lemmas
      on words, lists and folds the components share.
    \<^item> \<open>Residency_Core\<close>: identities, access modes, the ten chunk states with \<open>is_legal_transition\<close>
      and \<open>transition_chunk_state\<close>, the invariant of a chunk record (\<open>validate_chunk_invariant\<close>) and the
      event generations (core.cpp). Histories of requests are lists of them.
    \<^item> \<open>Access_Plan\<close>, \<open>Access_Plan_Correct\<close>: \<open>normalize_and_split_accesses\<close> (core.cpp) with its
      helpers, and its correctness against the set of bytes that is read and written.
    \<^item> \<open>Cache_Policy\<close>: \<open>CostAwareClockPolicy\<close> and \<open>TrueLruPolicy\<close> (policy.cpp); the locale
      \<open>victim_policy\<close> is the interface \<open>VictimPolicy\<close>, interpreted on both.
    \<^item> \<open>Residency_Budget\<close>: \<open>calculate_budget_target\<close> and \<open>observe_safe_target\<close> (budget.cpp).
    \<^item> \<open>Cache_Metrics\<close>: \<open>accumulate_metrics\<close> and \<open>reconcile_metrics\<close> (metrics.cpp).
    \<^item> \<open>Cache_Workload\<close>: patterns, transforms, verification tokens, the 128-bit digest (workload.cpp).
    \<^item> \<open>Cache_Scenario\<close>: the generators of the traces and their suite (scenario.cpp).
    \<^item> \<open>Worker_Frames\<close>, \<open>Worker_Protocols\<close>: writer, incremental decoder and final payload of the
      worker protocols. The five source files agree up to the fields of two records; the locale
      \<open>wire_protocol\<close> holds what they share and is interpreted on each of them.
    \<^item> \<open>Sha256\<close>: the buffered hash and the digest of a file (sha256.cpp).
    \<^item> \<open>Base_Text\<close>: \<open>parse_size\<close> (size_parser.cpp) and the JSON writer (json_writer.cpp).
    \<^item> \<open>Gemm_Problem\<close>, \<open>Gemm_Working_Set\<close>, \<open>Gemm_Planner\<close>: the three parts of planner.cpp, namely the
      validation of a problem, the enumeration of a tile's ranges and chunks, and the search for a tile
      geometry with the plan it gives. \<open>Gemm_Plan_Correct\<close> holds the theorems on the plan,
      \<open>Gemm_Summary_Correct\<close> the agreement of the planner's arithmetic with the enumeration.
    \<^item> \<open>Host_Token\<close>, \<open>Host_Ledger\<close>, \<open>Host_Store\<close>: content tokens, \<open>HostBudgetLedger\<close> and
      \<open>HostBackingStore\<close> (compression.hpp, compression.cpp), every operation. \<open>Host_Image\<close> says what an image
      holds, \<open>Host_Store_Steps\<close> what an operation does to the invariant, and \<open>Host_Store_Correct\<close> that the
      store refines a map of chunks with their contents.
    \<^item> \<open>State_Triples\<close>: triples for programs of the state monad, over the part of the state that a proof looks
      at; the two components below are such programs, over an outside world that is a function of the calls
      made so far.
    \<^item> \<open>Torch_Allocator\<close>: \<open>SegmentAllocator\<close> and the plugin's entry points (src/src/torch) over the CUDA driver.
      \<open>Torch_Books\<close> has the resources a history of calls leaves with the driver, \<open>Torch_Steps\<close> the outcome of
      each operation, and \<open>Torch_Allocator_Correct\<close> the properties over all reachable states.
    \<^item> \<open>Sdk_Status\<close>: errors and their public form, submission deadlines (src/src/sdk/status.cpp, deadline.hpp).
    \<^item> \<open>Compat_Adapter\<close>: \<open>Adapter\<close>, every entry point (src/src/cuda_compat/adapter.cpp), over a backend.
      \<open>Compat_Registry\<close> has the registry as a set of ranges, \<open>Compat_Use\<close> the contract of the backend and the
      invariants, \<open>Compat_Jobs\<close> and \<open>Compat_Lifecycle\<close> that jobs and calls keep them, and \<open>Compat_Correct\<close> the
      properties over all reachable states.

  \<^bold>\<open>How state and operations correspond.\<close> A struct or class is a record, an enumeration a datatype (with
  one constructor more where the code tests for a value outside the enumeration), a fixed-width integer a
  word of that width, so that every addition wraps where the code's does; \<open>std::size_t\<close> is \<open>nat\<close>, except
  where it is compared with 64-bit quantities. \<open>std::optional\<close> is \<open>option\<close>, a vector or a span a list, an
  operation that changes its object returns the new object first. A thrown exception or an error code is
  the left summand or a field of the result, as in the code. A double is its bit pattern: the planner
  only asks whether it is finite and whether it is zero.

  \<^bold>\<open>What the lemmas show.\<close> For the planner of accesses and for the working sets of tiles: exactness
  against the set of bytes, on every branch. For the policies, the decoder, the hash and the JSON writer:
  agreement with a simpler reference definition (a set of keys, the whole stream at once, the padded
  message, a document). For the backing store: refinement of a map, books that balance over any history, and no
  trace of an operation that fails but for the reservation it was given, which it may give back. For the PyTorch allocator: every driver call is legal and its books are what the
  driver holds, whatever fails; memory is given back only behind a fence. For the adapter: the backend's contract is kept whatever
  callers and backend do, a released range is never found or handed out again, and the counters agree with the registry and, but for
  the initializations that throw, with the calls.
  For the chunk states, the generations and the budget: invariants over any history.
  For the matrix product: every multiplication belongs to one tile, running the tiles in order computes
  the product, and each tile's chunks fit the cache. For codecs: round trips, and that what is accepted is
  an encoding. The properties that span components (a trace's accesses are accepted by the planner, a tile's
  working set is the planner's normalisation) stand in the theory of the client.

  \<^bold>\<open>Termination and bounds.\<close> No definition has fuel. A loop that ends is a recursion with a measure; a
  loop that might not (a search of the planners with a step of zero, a chunk loop to the largest index) is
  an optional result, \<open>None\<close> for not returning, and the theorems \<open>normalize_and_split_total\<close>,
  \<open>working_set_total\<close> and \<open>make_plan_returns\<close> show that it does not occur. Sizes are those of the code:
  offsets, lengths and counters of 64 bits, message lengths up to the counter of the hash.

  \<^bold>\<open>Not modelled.\<close> Code that talks to the CUDA driver, cuBLAS, nvCOMP, NVML, CUPTI or the operating system
  (src/src/platform apart from the hash, the executors of the benchmarks, the probes); the text of a
  double (\<open>format_bytes\<close>, timing summaries); the exhaustion of host memory by a vector; reports, which
  copy fields into the JSON writer; the cost model of compression, whose averages are doubles. The LZ4 codec is a
  parameter: a theorem that needs it assumes that it is lossless (\<open>codec_lossless\<close>), and its witness has a
  codec that is. The CUDA driver of the PyTorch allocator is a parameter too: the theorems that need it assume that a
  reserved address and a created handle are new (\<open>honest\<close>), and a concrete driver shows that this can hold. The
  backend of the compatibility adapter is a parameter: the theorems assume that it does not serve two allocations under
  one identity (\<open>fresh_ids\<close>), and a backend with one slot shows that this can hold. The adapter's worker runs one
  call at a time: a call is one step, made when it is queued, so that what calling threads observe while another call
  runs is not modelled. What an initialization throws outside of a call (the text of a rejection, the conversion of a
  library path, the creation of the worker) and errors the host fails to store are parameters of the steps; memory that
  runs out while an error's text is made inside a call is not modelled.
  The residency runtime, the sessions of the C interface and the backend that joins the adapter to them keep state that
  is not modelled: they are threads around the CUDA driver, and what they decide is in the components above.
\<close>

end
